(* ===== verification/Prelude.thy ===== *)
theory Prelude
  imports Main "HOL-Library.Word"
begin

text \<open>
  Shared vocabulary of the Columbo development: the machine integer types, the ways a
  C++ operation can fail, the result type with its sequencing operator, and the generic
  lemmas on results, lists and association lists that the components share.
\<close>

section \<open>Machine integers\<close>

text \<open>
  \<open>uint64_t\<close> and \<open>size_t\<close> are 64-bit words on the platforms the build supports; a C++
  \<open>int\<close> is a 32-bit word that is read as two's complement with \<open>sint\<close>.
\<close>

type_synonym u8 = "8 word"
type_synonym u16 = "16 word"
type_synonym u32 = "32 word"
type_synonym u64 = "64 word"
type_synonym i32 = "32 word"

abbreviation u64_max :: u64 where
  "u64_max \<equiv> - 1"

section \<open>Failures and results\<close>

text \<open>
  \<^item> \<open>Terminated\<close>: \<open>throw_on\<close>, \<open>throw_if_empty\<close> and \<open>throw_just\<close> log and call
    \<open>std::terminate\<close> (include/util/exception.h);
  \<^item> \<open>AssertFailed\<close>: a C \<open>assert\<close> of the source is false;
  \<^item> \<open>Undefined\<close>: the C++ standard gives the operation no meaning (for example
    \<open>back()\<close> of an empty vector, dereferencing a null pointer or \<open>end()\<close>);
  \<^item> \<open>Blocked\<close>: the coroutine waits for another task (an empty, open channel);
  \<^item> \<open>OutOfFuel\<close>: the bound of a fuel recursion was too small; every definition that
    can return it comes with a lemma that it does not.
\<close>

datatype failure =
    Terminated string
  | AssertFailed string
  | Undefined string
  | Blocked
  | OutOfFuel

type_synonym 'a res = "failure + 'a"

definition rbind :: "'a res \<Rightarrow> ('a \<Rightarrow> 'b res) \<Rightarrow> 'b res" where
  "rbind m f = (case m of Inl e \<Rightarrow> Inl e | Inr x \<Rightarrow> f x)"

definition throw_on :: "bool \<Rightarrow> string \<Rightarrow> unit res" where
  "throw_on should_throw message = (if should_throw then Inl (Terminated message) else Inr ())"

definition throw_on_false :: "bool \<Rightarrow> string \<Rightarrow> unit res" where
  "throw_on_false should_throw message = throw_on (\<not> should_throw) message"

definition throw_if_empty :: "'a option \<Rightarrow> string \<Rightarrow> 'a res" where
  "throw_if_empty to_check message =
     (case to_check of None \<Rightarrow> Inl (Terminated message) | Some x \<Rightarrow> Inr x)"

definition assert_that :: "bool \<Rightarrow> string \<Rightarrow> unit res" where
  "assert_that b message = (if b then Inr () else Inl (AssertFailed message))"

definition or_undefined :: "'a option \<Rightarrow> string \<Rightarrow> 'a res" where
  "or_undefined to_read message =
     (case to_read of None \<Rightarrow> Inl (Undefined message) | Some x \<Rightarrow> Inr x)"

named_theorems res_simps \<open>evaluation of results and checks\<close>

lemma rbind_Inr [simp, res_simps]: "rbind (Inr x) f = f x"
  by (simp add: rbind_def)

lemma rbind_Inl [simp, res_simps]: "rbind (Inl e) f = Inl e"
  by (simp add: rbind_def)

lemma rbind_eq_Inr [res_simps]: "rbind m f = Inr y \<longleftrightarrow> (\<exists>x. m = Inr x \<and> f x = Inr y)"
  by (cases m) (simp_all add: rbind_def)

lemma rbind_eq_Inl [res_simps]:
  "rbind m f = Inl e \<longleftrightarrow> m = Inl e \<or> (\<exists>x. m = Inr x \<and> f x = Inl e)"
  by (cases m) (simp_all add: rbind_def)

lemma rbindE:
  assumes "rbind m f = Inr y"
  obtains x where "m = Inr x" "f x = Inr y"
  using assms by (auto simp: rbind_eq_Inr)

lemma throw_on_simps [simp, res_simps]:
  "throw_on b m = Inr u \<longleftrightarrow> \<not> b"
  "throw_on False m = Inr ()"
  "throw_on True m = Inl (Terminated m)"
  by (simp_all add: throw_on_def)

lemma throw_on_false_simps [simp, res_simps]:
  "throw_on_false b m = Inr u \<longleftrightarrow> b"
  "throw_on_false True m = Inr ()"
  "throw_on_false False m = Inl (Terminated m)"
  by (simp_all add: throw_on_false_def)

lemma throw_if_empty_simps [simp, res_simps]:
  "throw_if_empty (Some x) m = Inr x"
  "throw_if_empty None m = Inl (Terminated m)"
  "throw_if_empty p m = Inr x \<longleftrightarrow> p = Some x"
  by (simp_all add: throw_if_empty_def split: option.splits)

lemma assert_that_simps [simp, res_simps]:
  "assert_that True m = Inr ()"
  "assert_that False m = Inl (AssertFailed m)"
  "assert_that b m = Inr u \<longleftrightarrow> b"
  by (simp_all add: assert_that_def)

lemma or_undefined_simps [simp, res_simps]:
  "or_undefined (Some x) m = Inr x"
  "or_undefined None m = Inl (Undefined m)"
  "or_undefined p m = Inr x \<longleftrightarrow> p = Some x"
  by (simp_all add: or_undefined_def split: option.splits)

section \<open>Lists\<close>

lemma takeWhile_append_stop:
  assumes "\<forall>x \<in> set xs. P x" and "\<not> P y"
  shows "takeWhile P (xs @ y # ys) = xs" and "dropWhile P (xs @ y # ys) = y # ys"
  using assms by (induction xs) auto

lemma set_butlast_last: "xs \<noteq> [] \<Longrightarrow> set xs = insert (last xs) (set (butlast xs))"
  by (metis append_butlast_last_id insert_is_Un list.simps(15) list.set(1) set_append sup_commute)

end
