(* ===== verification/Events.thy ===== *)
theory Events
  imports Prelude
begin

text \<open>
  The events of the simulators (include/events/eventType.h, include/events/events.h,
  source/events/events.cc): the type tags with their names, the class hierarchy as one
  datatype with a constructor per concrete class, the getters, and the virtual equality
  \<open>Equal\<close>. A \<open>const std::string *\<close> into the internalizer is the string it points at
  (theory \<open>TraceEnv\<close> shows that two internalized pointers are equal exactly when their strings
  are), a null pointer is \<open>None\<close>.
\<close>

section \<open>Type tags\<close>

datatype EventType =
    kEventT | kSimSendSyncT | kSimProcInEventT | kHostInstrT | kHostCallT
  | kHostMmioImRespPoWT | kHostIdOpT | kHostMmioCRT | kHostMmioCWT | kHostAddrSizeOpT
  | kHostMmioRT | kHostMmioWT | kHostDmaCT | kHostDmaRT | kHostDmaWT | kHostMsiXT
  | kHostConfT | kHostClearIntT | kHostPostIntT | kHostPciRWT | kNicMsixT | kNicDmaT
  | kSetIXT | kNicDmaIT | kNicDmaExT | kNicDmaEnT | kNicDmaCRT | kNicDmaCWT | kNicMmioT
  | kNicMmioRT | kNicMmioWT | kNicTrxT | kNicTxT | kNicRxT | kNetworkEnqueueT
  | kNetworkDequeueT | kNetworkDropT

fun EventType_show :: "EventType \<Rightarrow> string" where
  "EventType_show kEventT = ''kEventT''"
| "EventType_show kSimSendSyncT = ''kSimSendSyncT''"
| "EventType_show kSimProcInEventT = ''kSimProcInEventT''"
| "EventType_show kHostInstrT = ''kHostInstrT''"
| "EventType_show kHostCallT = ''kHostCallT''"
| "EventType_show kHostMmioImRespPoWT = ''kHostMmioImRespPoWT''"
| "EventType_show kHostIdOpT = ''kHostIdOpT''"
| "EventType_show kHostMmioCRT = ''kHostMmioCRT''"
| "EventType_show kHostMmioCWT = ''kHostMmioCWT''"
| "EventType_show kHostAddrSizeOpT = ''kHostAddrSizeOpT''"
| "EventType_show kHostMmioRT = ''kHostMmioRT''"
| "EventType_show kHostMmioWT = ''kHostMmioWT''"
| "EventType_show kHostDmaCT = ''kHostDmaCT''"
| "EventType_show kHostDmaRT = ''kHostDmaRT''"
| "EventType_show kHostDmaWT = ''kHostDmaWT''"
| "EventType_show kHostMsiXT = ''kHostMsiXT''"
| "EventType_show kHostConfT = ''kHostConfT''"
| "EventType_show kHostClearIntT = ''kHostClearIntT''"
| "EventType_show kHostPostIntT = ''kHostPostIntT''"
| "EventType_show kHostPciRWT = ''kHostPciRWT''"
| "EventType_show kNicMsixT = ''kNicMsixT''"
| "EventType_show kNicDmaT = ''kNicDmaT''"
| "EventType_show kSetIXT = ''kSetIXT''"
| "EventType_show kNicDmaIT = ''kNicDmaIT''"
| "EventType_show kNicDmaExT = ''kNicDmaExT''"
| "EventType_show kNicDmaEnT = ''kNicDmaEnT''"
| "EventType_show kNicDmaCRT = ''kNicDmaCRT''"
| "EventType_show kNicDmaCWT = ''kNicDmaCWT''"
| "EventType_show kNicMmioT = ''kNicMmioT''"
| "EventType_show kNicMmioRT = ''kNicMmioRT''"
| "EventType_show kNicMmioWT = ''kNicMmioWT''"
| "EventType_show kNicTrxT = ''kNicTrxT''"
| "EventType_show kNicTxT = ''kNicTxT''"
| "EventType_show kNicRxT = ''kNicRxT''"
| "EventType_show kNetworkEnqueueT = ''kNetworkEnqueueT''"
| "EventType_show kNetworkDequeueT = ''kNetworkDequeueT''"
| "EventType_show kNetworkDropT = ''kNetworkDropT''"

definition kTypeLookup :: "(string \<times> EventType) list" where
  "kTypeLookup =
     [(''kEventT'', kEventT), (''kSimSendSyncT'', kSimSendSyncT),
      (''kSimProcInEventT'', kSimProcInEventT), (''kHostInstrT'', kHostInstrT),
      (''kHostCallT'', kHostCallT), (''kHostMmioImRespPoWT'', kHostMmioImRespPoWT),
      (''kHostIdOpT'', kHostIdOpT), (''kHostMmioCRT'', kHostMmioCRT),
      (''kHostMmioCWT'', kHostMmioCWT), (''kHostAddrSizeOpT'', kHostAddrSizeOpT),
      (''kHostMmioRT'', kHostMmioRT), (''kHostMmioWT'', kHostMmioWT),
      (''kHostDmaCT'', kHostDmaCT), (''kHostDmaRT'', kHostDmaRT),
      (''kHostDmaWT'', kHostDmaWT), (''kHostMsiXT'', kHostMsiXT),
      (''kHostConfT'', kHostConfT), (''kHostClearIntT'', kHostClearIntT),
      (''kHostPostIntT'', kHostPostIntT), (''kHostPciRWT'', kHostPciRWT),
      (''kNicMsixT'', kNicMsixT), (''kNicDmaT'', kNicDmaT), (''kSetIXT'', kSetIXT),
      (''kNicDmaIT'', kNicDmaIT), (''kNicDmaExT'', kNicDmaExT), (''kNicDmaEnT'', kNicDmaEnT),
      (''kNicDmaCRT'', kNicDmaCRT), (''kNicDmaCWT'', kNicDmaCWT), (''kNicMmioT'', kNicMmioT),
      (''kNicMmioRT'', kNicMmioRT), (''kNicMmioWT'', kNicMmioWT), (''kNicTrxT'', kNicTrxT),
      (''kNicTxT'', kNicTxT), (''kNicRxT'', kNicRxT),
      (''kNetworkEnqueueT'', kNetworkEnqueueT), (''kNetworkDequeueT'', kNetworkDequeueT),
      (''kNetworkDropT'', kNetworkDropT)]"

text \<open>An unknown name falls back to \<open>kEventT\<close> (with a message on stderr).\<close>

definition EventTypeFromString :: "string \<Rightarrow> EventType" where
  "EventTypeFromString event_type_str =
     (case map_of kTypeLookup event_type_str of Some t \<Rightarrow> t | None \<Rightarrow> kEventT)"

section \<open>Network headers\<close>

record MacAddress =
  mac_addr :: "u8 list"

definition kMacSize :: nat where
  "kMacSize = 6"

definition MacAddress_default :: MacAddress where
  "MacAddress_default = \<lparr>mac_addr = [0, 0, 0, 0, 0, 0]\<rparr>"

record EthernetHeader =
  eth_length_type :: u64
  eth_src_mac :: MacAddress
  eth_dst_mac :: MacAddress

record Ipv4 =
  ipv4_ip :: u32

record ArpHeader =
  arp_src_ip :: Ipv4
  arp_dst_ip :: Ipv4
  arp_is_request :: bool

record Ipv4Header =
  iph_length :: u64
  iph_src_ip :: Ipv4
  iph_dst_ip :: Ipv4

datatype NetworkDeviceType = kCosimNetDevice | kSimpleNetDevice

datatype EventBoundaryType = kWithinSimulator | kFromAdapter | kToAdapter

record NetworkEvent =
  net_node :: i32
  net_device :: i32
  net_device_type :: NetworkDeviceType
  net_packet_uid :: u64
  net_interesting_flag :: bool
  net_payload_size :: u64
  net_boundary_type :: EventBoundaryType
  net_ethernet_header :: "EthernetHeader option"
  net_arp_header :: "ArpHeader option"
  net_ip_header :: "Ipv4Header option"

section \<open>The class hierarchy\<close>

text \<open>
  The fields every event has. \<open>type_\<close> and \<open>name_\<close> are fixed by the constructor of
  the class, so they are the functions \<open>GetType\<close> and \<open>GetName\<close> below.
\<close>

record ev_base =
  ev_timestamp :: u64
  ev_parser_identifier :: u64
  ev_parser_name :: string

text \<open>
  One constructor per class that can be instantiated; the arguments after the base are
  those of the C++ constructor, in its order.
\<close>

datatype event =
    SimSendSync ev_base
  | SimProcInEvent ev_base
  | HostInstr ev_base u64
  | HostCall ev_base u64 "string option" "string option"
  | HostMmioImRespPoW ev_base
  | HostMmioCR ev_base u64
  | HostMmioCW ev_base u64
  | HostMmioR ev_base u64 u64 u64 i32 u64
  | HostMmioW ev_base u64 u64 u64 i32 u64 bool
  | HostDmaC ev_base u64
  | HostDmaR ev_base u64 u64 u64
  | HostDmaW ev_base u64 u64 u64
  | HostMsiX ev_base u64
  | HostConf ev_base u64 u64 u64 u64 u64 bool
  | HostClearInt ev_base
  | HostPostInt ev_base
  | HostPciRW ev_base u64 u64 bool
  | NicMsix ev_base u16 bool
  | SetIX ev_base u64
  | NicDmaI ev_base u64 u64 u64
  | NicDmaEx ev_base u64 u64 u64
  | NicDmaEn ev_base u64 u64 u64
  | NicDmaCR ev_base u64 u64 u64
  | NicDmaCW ev_base u64 u64 u64
  | NicMmioR ev_base u64 u64 u64
  | NicMmioW ev_base u64 u64 u64 bool
  | NicTx ev_base u64
  | NicRx ev_base i32 u64
  | NetworkEnqueue ev_base NetworkEvent
  | NetworkDequeue ev_base NetworkEvent
  | NetworkDrop ev_base NetworkEvent

end
