(* ===== verification/EventOps.thy ===== *)
theory EventOps
  imports Events
begin

text \<open>
  The operations of the event classes: getters, the run-time type tests, the casts to the
  abstract classes of the hierarchy, the virtual \<open>Equal\<close> of every class
  (source/events/events.cc) and the free functions of include/events/events.h.
\<close>

section \<open>Getters and type tests\<close>

fun ev_base_of :: "event \<Rightarrow> ev_base" where
  "ev_base_of (SimSendSync b) = b"
| "ev_base_of (SimProcInEvent b) = b"
| "ev_base_of (HostInstr b _) = b"
| "ev_base_of (HostCall b _ _ _) = b"
| "ev_base_of (HostMmioImRespPoW b) = b"
| "ev_base_of (HostMmioCR b _) = b"
| "ev_base_of (HostMmioCW b _) = b"
| "ev_base_of (HostMmioR b _ _ _ _ _) = b"
| "ev_base_of (HostMmioW b _ _ _ _ _ _) = b"
| "ev_base_of (HostDmaC b _) = b"
| "ev_base_of (HostDmaR b _ _ _) = b"
| "ev_base_of (HostDmaW b _ _ _) = b"
| "ev_base_of (HostMsiX b _) = b"
| "ev_base_of (HostConf b _ _ _ _ _ _) = b"
| "ev_base_of (HostClearInt b) = b"
| "ev_base_of (HostPostInt b) = b"
| "ev_base_of (HostPciRW b _ _ _) = b"
| "ev_base_of (NicMsix b _ _) = b"
| "ev_base_of (SetIX b _) = b"
| "ev_base_of (NicDmaI b _ _ _) = b"
| "ev_base_of (NicDmaEx b _ _ _) = b"
| "ev_base_of (NicDmaEn b _ _ _) = b"
| "ev_base_of (NicDmaCR b _ _ _) = b"
| "ev_base_of (NicDmaCW b _ _ _) = b"
| "ev_base_of (NicMmioR b _ _ _) = b"
| "ev_base_of (NicMmioW b _ _ _ _) = b"
| "ev_base_of (NicTx b _) = b"
| "ev_base_of (NicRx b _ _) = b"
| "ev_base_of (NetworkEnqueue b _) = b"
| "ev_base_of (NetworkDequeue b _) = b"
| "ev_base_of (NetworkDrop b _) = b"

text \<open>The type tag and the name each constructor passes to \<open>Event\<close>.\<close>

fun GetType :: "event \<Rightarrow> EventType" where
  "GetType (SimSendSync b) = kSimSendSyncT"
| "GetType (SimProcInEvent b) = kSimProcInEventT"
| "GetType (HostInstr b _) = kHostInstrT"
| "GetType (HostCall b _ _ _) = kHostCallT"
| "GetType (HostMmioImRespPoW b) = kHostMmioImRespPoWT"
| "GetType (HostMmioCR b _) = kHostMmioCRT"
| "GetType (HostMmioCW b _) = kHostMmioCWT"
| "GetType (HostMmioR b _ _ _ _ _) = kHostMmioRT"
| "GetType (HostMmioW b _ _ _ _ _ _) = kHostMmioWT"
| "GetType (HostDmaC b _) = kHostDmaCT"
| "GetType (HostDmaR b _ _ _) = kHostDmaRT"
| "GetType (HostDmaW b _ _ _) = kHostDmaWT"
| "GetType (HostMsiX b _) = kHostMsiXT"
| "GetType (HostConf b _ _ _ _ _ _) = kHostConfT"
| "GetType (HostClearInt b) = kHostClearIntT"
| "GetType (HostPostInt b) = kHostPostIntT"
| "GetType (HostPciRW b _ _ _) = kHostPciRWT"
| "GetType (NicMsix b _ _) = kNicMsixT"
| "GetType (SetIX b _) = kSetIXT"
| "GetType (NicDmaI b _ _ _) = kNicDmaIT"
| "GetType (NicDmaEx b _ _ _) = kNicDmaExT"
| "GetType (NicDmaEn b _ _ _) = kNicDmaEnT"
| "GetType (NicDmaCR b _ _ _) = kNicDmaCRT"
| "GetType (NicDmaCW b _ _ _) = kNicDmaCWT"
| "GetType (NicMmioR b _ _ _) = kNicMmioRT"
| "GetType (NicMmioW b _ _ _ _) = kNicMmioWT"
| "GetType (NicTx b _) = kNicTxT"
| "GetType (NicRx b _ _) = kNicRxT"
| "GetType (NetworkEnqueue b _) = kNetworkEnqueueT"
| "GetType (NetworkDequeue b _) = kNetworkDequeueT"
| "GetType (NetworkDrop b _) = kNetworkDropT"

fun GetName :: "event \<Rightarrow> string" where
  "GetName (SimSendSync b) = ''SimSendSyncSimSendSync''"
| "GetName (SimProcInEvent b) = ''SimProcInEvent''"
| "GetName (HostInstr b _) = ''HostInstr''"
| "GetName (HostCall b _ _ _) = ''HostCall''"
| "GetName (HostMmioImRespPoW b) = ''HostMmioImRespPoW''"
| "GetName (HostMmioCR b _) = ''HostMmioCR''"
| "GetName (HostMmioCW b _) = ''HostMmioCW''"
| "GetName (HostMmioR b _ _ _ _ _) = ''HostMmioR''"
| "GetName (HostMmioW b _ _ _ _ _ _) = ''HostMmioW''"
| "GetName (HostDmaC b _) = ''HostDmaC''"
| "GetName (HostDmaR b _ _ _) = ''HostDmaR''"
| "GetName (HostDmaW b _ _ _) = ''HostDmaW''"
| "GetName (HostMsiX b _) = ''HostMsiX''"
| "GetName (HostConf b _ _ _ _ _ is_read) =
     (if is_read then ''HostConfRead'' else ''HostConfWrite'')"
| "GetName (HostClearInt b) = ''HostClearInt''"
| "GetName (HostPostInt b) = ''HostPostInt''"
| "GetName (HostPciRW b _ _ is_read) = (if is_read then ''HostPciR'' else ''HostPciW'')"
| "GetName (NicMsix b _ isX) = (if isX then ''NicMsix'' else ''NicMsi'')"
| "GetName (SetIX b _) = ''SetIX''"
| "GetName (NicDmaI b _ _ _) = ''NicDmaI''"
| "GetName (NicDmaEx b _ _ _) = ''NicDmaEx''"
| "GetName (NicDmaEn b _ _ _) = ''NicDmaEn''"
| "GetName (NicDmaCR b _ _ _) = ''NicDmaCR''"
| "GetName (NicDmaCW b _ _ _) = ''NicDmaCW''"
| "GetName (NicMmioR b _ _ _) = ''NicMmioR''"
| "GetName (NicMmioW b _ _ _ _) = ''NicMmioW''"
| "GetName (NicTx b _) = ''NicTx''"
| "GetName (NicRx b _ _) = ''NicRx''"
| "GetName (NetworkEnqueue b _) = ''NetworkEnqueue''"
| "GetName (NetworkDequeue b _) = ''NetworkDequeue''"
| "GetName (NetworkDrop b _) = ''NetworkDrop''"

definition GetTs :: "event \<Rightarrow> u64" where
  "GetTs e = ev_timestamp (ev_base_of e)"

definition GetParserIdent :: "event \<Rightarrow> u64" where
  "GetParserIdent e = ev_parser_identifier (ev_base_of e)"

definition GetParserName :: "event \<Rightarrow> string" where
  "GetParserName e = ev_parser_name (ev_base_of e)"

text \<open>The overloads on \<open>std::shared_ptr<Event>\<close>: a null pointer has no type.\<close>

definition IsType :: "event option \<Rightarrow> EventType \<Rightarrow> bool" where
  "IsType event_ptr t = (case event_ptr of None \<Rightarrow> False | Some e \<Rightarrow> GetType e = t)"

definition IsAnyType :: "event option \<Rightarrow> EventType list \<Rightarrow> bool" where
  "IsAnyType event_ptr types = (event_ptr \<noteq> None \<and> list_ex (IsType event_ptr) types)"

text \<open>
  The one-argument \<open>IsBoundaryType\<close> of events.h: the call in its body can only resolve to
  itself, since the two-argument overload is declared after it; \<open>None\<close> is "does not
  return".
\<close>

partial_function (option) IsBoundaryType_event :: "event option \<Rightarrow> bool option" where
  "IsBoundaryType_event event_ptr =
     (if event_ptr \<noteq> None \<and>
         IsAnyType event_ptr [kNetworkEnqueueT, kNetworkDequeueT, kNetworkDropT]
      then IsBoundaryType_event event_ptr
      else Some False)"

definition EventComperator :: "event \<Rightarrow> event \<Rightarrow> bool" where
  "EventComperator ev1 ev2 = (GetTs ev1 > GetTs ev2)"

definition GetTypeStr :: "event option \<Rightarrow> string" where
  "GetTypeStr event_ptr =
     (case event_ptr of None \<Rightarrow> [] | Some e \<Rightarrow> EventType_show (GetType e))"

section \<open>Casts to the abstract classes\<close>

text \<open>
  \<open>dynamic_cast\<close> to an abstract class: the fields that class adds, \<open>None\<close> for a null
  result. The static casts of the analytics read the same fields, after a test of the type.
\<close>

fun as_HostIdOp :: "event \<Rightarrow> u64 option" where
  "as_HostIdOp (HostMmioCR _ i) = Some i"
| "as_HostIdOp (HostMmioCW _ i) = Some i"
| "as_HostIdOp (HostMmioR _ i _ _ _ _) = Some i"
| "as_HostIdOp (HostMmioW _ i _ _ _ _ _) = Some i"
| "as_HostIdOp (HostDmaC _ i) = Some i"
| "as_HostIdOp (HostDmaR _ i _ _) = Some i"
| "as_HostIdOp (HostDmaW _ i _ _) = Some i"
| "as_HostIdOp _ = None"

fun as_HostAddrSizeOp :: "event \<Rightarrow> (u64 \<times> u64) option" where
  "as_HostAddrSizeOp (HostMmioR _ _ addr sz _ _) = Some (addr, sz)"
| "as_HostAddrSizeOp (HostMmioW _ _ addr sz _ _ _) = Some (addr, sz)"
| "as_HostAddrSizeOp (HostDmaR _ _ addr sz) = Some (addr, sz)"
| "as_HostAddrSizeOp (HostDmaW _ _ addr sz) = Some (addr, sz)"
| "as_HostAddrSizeOp _ = None"

fun as_HostMmioOp :: "event \<Rightarrow> (i32 \<times> u64) option" where
  "as_HostMmioOp (HostMmioR _ _ _ _ bar offset) = Some (bar, offset)"
| "as_HostMmioOp (HostMmioW _ _ _ _ bar offset _) = Some (bar, offset)"
| "as_HostMmioOp _ = None"

fun as_NicDma :: "event \<Rightarrow> (u64 \<times> u64 \<times> u64) option" where
  "as_NicDma (NicDmaI _ i addr len) = Some (i, addr, len)"
| "as_NicDma (NicDmaEx _ i addr len) = Some (i, addr, len)"
| "as_NicDma (NicDmaEn _ i addr len) = Some (i, addr, len)"
| "as_NicDma (NicDmaCR _ i addr len) = Some (i, addr, len)"
| "as_NicDma (NicDmaCW _ i addr len) = Some (i, addr, len)"
| "as_NicDma _ = None"

fun as_NicMmio :: "event \<Rightarrow> (u64 \<times> u64 \<times> u64) option" where
  "as_NicMmio (NicMmioR _ off len val) = Some (off, len, val)"
| "as_NicMmio (NicMmioW _ off len val _) = Some (off, len, val)"
| "as_NicMmio _ = None"

fun as_NicTrx :: "event \<Rightarrow> (u64 \<times> bool) option" where
  "as_NicTrx (NicTx _ len) = Some (len, False)"
| "as_NicTrx (NicRx _ _ len) = Some (len, True)"
| "as_NicTrx _ = None"

fun as_NetworkEvent :: "event \<Rightarrow> NetworkEvent option" where
  "as_NetworkEvent (NetworkEnqueue _ n) = Some n"
| "as_NetworkEvent (NetworkDequeue _ n) = Some n"
| "as_NetworkEvent (NetworkDrop _ n) = Some n"
| "as_NetworkEvent _ = None"

section \<open>Facts\<close>

text \<open>The type tag of an event fixes its class.\<close>

lemma GetType_cases:
  "GetType e = kHostCallT \<longleftrightarrow> (\<exists>b pc fn cmp. e = HostCall b pc fn cmp)"
  "GetType e = kHostMmioRT \<longleftrightarrow> (\<exists>b i a sz bar off. e = HostMmioR b i a sz bar off)"
  "GetType e = kHostMmioWT \<longleftrightarrow> (\<exists>b i a sz bar off p. e = HostMmioW b i a sz bar off p)"
  "GetType e = kHostMmioCRT \<longleftrightarrow> (\<exists>b i. e = HostMmioCR b i)"
  "GetType e = kHostMmioCWT \<longleftrightarrow> (\<exists>b i. e = HostMmioCW b i)"
  "GetType e = kHostMmioImRespPoWT \<longleftrightarrow> (\<exists>b. e = HostMmioImRespPoW b)"
  "GetType e = kHostDmaCT \<longleftrightarrow> (\<exists>b i. e = HostDmaC b i)"
  "GetType e = kHostDmaRT \<longleftrightarrow> (\<exists>b i a sz. e = HostDmaR b i a sz)"
  "GetType e = kHostDmaWT \<longleftrightarrow> (\<exists>b i a sz. e = HostDmaW b i a sz)"
  "GetType e = kHostMsiXT \<longleftrightarrow> (\<exists>b v. e = HostMsiX b v)"
  "GetType e = kHostConfT \<longleftrightarrow> (\<exists>b d f r n x is_r. e = HostConf b d f r n x is_r)"
  "GetType e = kHostClearIntT \<longleftrightarrow> (\<exists>b. e = HostClearInt b)"
  "GetType e = kHostPostIntT \<longleftrightarrow> (\<exists>b. e = HostPostInt b)"
  "GetType e = kHostPciRWT \<longleftrightarrow> (\<exists>b off sz is_r. e = HostPciRW b off sz is_r)"
  "GetType e = kNicMsixT \<longleftrightarrow> (\<exists>b v x. e = NicMsix b v x)"
  "GetType e = kNicDmaIT \<longleftrightarrow> (\<exists>b i a l. e = NicDmaI b i a l)"
  "GetType e = kNicDmaExT \<longleftrightarrow> (\<exists>b i a l. e = NicDmaEx b i a l)"
  "GetType e = kNicDmaCRT \<longleftrightarrow> (\<exists>b i a l. e = NicDmaCR b i a l)"
  "GetType e = kNicDmaCWT \<longleftrightarrow> (\<exists>b i a l. e = NicDmaCW b i a l)"
  "GetType e = kNicMmioRT \<longleftrightarrow> (\<exists>b off l v. e = NicMmioR b off l v)"
  "GetType e = kNicMmioWT \<longleftrightarrow> (\<exists>b off l v p. e = NicMmioW b off l v p)"
  "GetType e = kNicTxT \<longleftrightarrow> (\<exists>b l. e = NicTx b l)"
  "GetType e = kNicRxT \<longleftrightarrow> (\<exists>b p l. e = NicRx b p l)"
  "GetType e = kNetworkEnqueueT \<longleftrightarrow> (\<exists>b n. e = NetworkEnqueue b n)"
  "GetType e = kNetworkDequeueT \<longleftrightarrow> (\<exists>b n. e = NetworkDequeue b n)"
  "GetType e = kNetworkDropT \<longleftrightarrow> (\<exists>b n. e = NetworkDrop b n)"
  by (cases e; simp)+

lemma IsType_simps [simp]:
  "IsType None t = False"
  "IsType (Some e) t \<longleftrightarrow> GetType e = t"
  by (simp_all add: IsType_def)

lemma IsAnyType_simps [simp]:
  "IsAnyType None ts = False"
  "IsAnyType (Some e) ts \<longleftrightarrow> GetType e \<in> set ts"
  by (auto simp: IsAnyType_def list_ex_iff)

lemma EventTypeFromString_show: "EventTypeFromString (EventType_show t) = t"
  by (cases t) (simp_all add: EventTypeFromString_def kTypeLookup_def)

text \<open>The recursion of \<open>IsBoundaryType\<close> on a network event has no way out.\<close>

lemma IsBoundaryType_event_returns:
  assumes "IsBoundaryType_event p = Some r"
  shows "\<not> IsAnyType p [kNetworkEnqueueT, kNetworkDequeueT, kNetworkDropT]"
proof (rule IsBoundaryType_event.raw_induct
    [where P = "\<lambda>p r. \<not> IsAnyType p [kNetworkEnqueueT, kNetworkDequeueT, kNetworkDropT]",
      OF _ assms])
  fix f p r
  assume IH: "\<And>p r. f p = Some r \<Longrightarrow>
      \<not> IsAnyType p [kNetworkEnqueueT, kNetworkDequeueT, kNetworkDropT]"
    and eq: "(if p \<noteq> None \<and> IsAnyType p [kNetworkEnqueueT, kNetworkDequeueT, kNetworkDropT]
      then f p else Some False) = Some r"
  show "\<not> IsAnyType p [kNetworkEnqueueT, kNetworkDequeueT, kNetworkDropT]"
  proof (cases "p \<noteq> None \<and> IsAnyType p [kNetworkEnqueueT, kNetworkDequeueT, kNetworkDropT]")
    case True
    with eq have "f p = Some r" by simp
    then show ?thesis by (rule IH)
  next
    case False
    then show ?thesis by (auto simp: IsAnyType_def)
  qed
qed

text \<open>
  The one-argument \<open>IsBoundaryType\<close> returns (the value false) exactly on the null
  pointer and on events that are not network events; on every network event it calls itself
  with the same argument and does not return.
\<close>

theorem IsBoundaryType_event_diverges:
  "IsBoundaryType_event event_ptr =
     (if IsAnyType event_ptr [kNetworkEnqueueT, kNetworkDequeueT, kNetworkDropT] then None
      else Some False)"
proof (cases "IsAnyType event_ptr [kNetworkEnqueueT, kNetworkDequeueT, kNetworkDropT]")
  case True
  then show ?thesis
    by (cases "IsBoundaryType_event event_ptr") (auto dest: IsBoundaryType_event_returns)
next
  case False
  then show ?thesis by (subst IsBoundaryType_event.simps) auto
qed

end
