(* ===== verification/EventEqual.thy ===== *)
theory EventEqual
  imports EventOps
begin

text \<open>
  The virtual method \<open>Equal\<close> of every event class (source/events/events.cc), method by
  method as the classes call their parents, and what it decides: structural equality on
  every class but \<open>HostCall\<close>, whose instances are not even equal to themselves.
\<close>

section \<open>Equality of the header structs\<close>

definition MacAddress_eq :: "MacAddress \<Rightarrow> MacAddress \<Rightarrow> bool" where
  "MacAddress_eq a b = (mac_addr a = mac_addr b)"

definition EthernetHeader_eq :: "EthernetHeader \<Rightarrow> EthernetHeader \<Rightarrow> bool" where
  "EthernetHeader_eq a b =
     (MacAddress_eq (eth_src_mac a) (eth_src_mac b) \<and> MacAddress_eq (eth_dst_mac a) (eth_dst_mac b) \<and>
      eth_length_type a = eth_length_type b)"

definition Ipv4_eq :: "Ipv4 \<Rightarrow> Ipv4 \<Rightarrow> bool" where
  "Ipv4_eq a b = (ipv4_ip a = ipv4_ip b)"

definition ArpHeader_eq :: "ArpHeader \<Rightarrow> ArpHeader \<Rightarrow> bool" where
  "ArpHeader_eq a b =
     (Ipv4_eq (arp_src_ip a) (arp_src_ip b) \<and> Ipv4_eq (arp_dst_ip a) (arp_dst_ip b) \<and>
      arp_is_request a = arp_is_request b)"

definition Ipv4Header_eq :: "Ipv4Header \<Rightarrow> Ipv4Header \<Rightarrow> bool" where
  "Ipv4Header_eq a b =
     (iph_length a = iph_length b \<and> Ipv4_eq (iph_src_ip a) (iph_src_ip b) \<and>
      Ipv4_eq (iph_dst_ip a) (iph_dst_ip b))"

lemma header_eq_simps [simp]:
  "MacAddress_eq a b \<longleftrightarrow> a = b"
  "EthernetHeader_eq c d \<longleftrightarrow> c = d"
  "Ipv4_eq e f \<longleftrightarrow> e = f"
  "ArpHeader_eq g h \<longleftrightarrow> g = h"
  "Ipv4Header_eq i j \<longleftrightarrow> i = j"
proof -
  show mac: "MacAddress_eq a b \<longleftrightarrow> a = b" for a b
    by (cases a; cases b) (simp add: MacAddress_eq_def)
  show ip: "Ipv4_eq e f \<longleftrightarrow> e = f" for e f
    by (cases e; cases f) (simp add: Ipv4_eq_def)
  show "EthernetHeader_eq c d \<longleftrightarrow> c = d"
    by (cases c; cases d) (auto simp: EthernetHeader_eq_def mac)
  show "ArpHeader_eq g h \<longleftrightarrow> g = h"
    by (cases g; cases h) (auto simp: ArpHeader_eq_def ip)
  show "Ipv4Header_eq i j \<longleftrightarrow> i = j"
    by (cases i; cases j) (auto simp: Ipv4Header_eq_def ip)
qed

section \<open>\<open>Equal\<close>, class by class\<close>

definition Event_Equal :: "event \<Rightarrow> event \<Rightarrow> bool" where
  "Event_Equal self other =
     (GetTs self = GetTs other \<and> GetParserIdent self = GetParserIdent other \<and>
      GetParserName self = GetParserName other \<and> GetType self = GetType other \<and>
      GetName self = GetName other)"

fun HostInstr_pc :: "event \<Rightarrow> u64 option" where
  "HostInstr_pc (HostInstr _ pc) = Some pc"
| "HostInstr_pc (HostCall _ pc _ _) = Some pc"
| "HostInstr_pc _ = None"

definition HostInstr_Equal :: "event \<Rightarrow> event \<Rightarrow> bool" where
  "HostInstr_Equal self other =
     (if GetType other \<noteq> kHostInstrT then False
      else HostInstr_pc self = HostInstr_pc other \<and> Event_Equal self other)"

fun HostCall_strings :: "event \<Rightarrow> (string option \<times> string option) option" where
  "HostCall_strings (HostCall _ _ fn cmp) = Some (fn, cmp)"
| "HostCall_strings _ = None"

definition HostCall_Equal :: "event \<Rightarrow> event \<Rightarrow> bool" where
  "HostCall_Equal self other =
     (if GetType other \<noteq> kHostCallT then False
      else HostCall_strings self = HostCall_strings other \<and> HostInstr_Equal self other)"

definition HostIdOp_Equal :: "event \<Rightarrow> event \<Rightarrow> bool" where
  "HostIdOp_Equal self other =
     (case as_HostIdOp other of None \<Rightarrow> False
      | Some iop \<Rightarrow> as_HostIdOp self = Some iop \<and> Event_Equal self other)"

definition HostAddrSizeOp_Equal :: "event \<Rightarrow> event \<Rightarrow> bool" where
  "HostAddrSizeOp_Equal self other =
     (case as_HostAddrSizeOp other of None \<Rightarrow> False
      | Some addop \<Rightarrow> as_HostAddrSizeOp self = Some addop \<and> HostIdOp_Equal self other)"

definition HostMmioOp_Equal :: "event \<Rightarrow> event \<Rightarrow> bool" where
  "HostMmioOp_Equal self other =
     (case as_HostMmioOp other of None \<Rightarrow> False
      | Some mmioop \<Rightarrow> as_HostMmioOp self = Some mmioop \<and> HostAddrSizeOp_Equal self other)"

definition NicDma_Equal :: "event \<Rightarrow> event \<Rightarrow> bool" where
  "NicDma_Equal self other =
     (case as_NicDma other of None \<Rightarrow> False
      | Some dma \<Rightarrow> as_NicDma self = Some dma \<and> Event_Equal self other)"

definition NicMmio_Equal :: "event \<Rightarrow> event \<Rightarrow> bool" where
  "NicMmio_Equal self other =
     (case as_NicMmio other of None \<Rightarrow> False
      | Some mmio \<Rightarrow> as_NicMmio self = Some mmio \<and> Event_Equal self other)"

definition NicTrx_Equal :: "event \<Rightarrow> event \<Rightarrow> bool" where
  "NicTrx_Equal self other =
     (case as_NicTrx other of None \<Rightarrow> False
      | Some trx \<Rightarrow> as_NicTrx self = Some trx \<and> Event_Equal self other)"

text \<open>Either both have the header, and it is equal, or none has it.\<close>

definition both_or_none :: "('h \<Rightarrow> 'h \<Rightarrow> bool) \<Rightarrow> 'h option \<Rightarrow> 'h option \<Rightarrow> bool" where
  "both_or_none eq x y =
     (case (x, y) of (None, None) \<Rightarrow> True | (Some h, Some h') \<Rightarrow> eq h h' | _ \<Rightarrow> False)"

definition NetworkEvent_Equal :: "event \<Rightarrow> event \<Rightarrow> bool" where
  "NetworkEvent_Equal self other =
     (case (as_NetworkEvent self, as_NetworkEvent other) of
        (Some n, Some net) \<Rightarrow>
          both_or_none EthernetHeader_eq (net_ethernet_header n) (net_ethernet_header net) \<and>
          both_or_none ArpHeader_eq (net_arp_header n) (net_arp_header net) \<and>
          both_or_none Ipv4Header_eq (net_ip_header n) (net_ip_header net) \<and>
          net_node n = net_node net \<and> net_device n = net_device net \<and>
          net_payload_size n = net_payload_size net \<and> net_device_type n = net_device_type net \<and>
          net_boundary_type n = net_boundary_type net \<and> net_packet_uid n = net_packet_uid net \<and>
          net_interesting_flag n = net_interesting_flag net \<and> Event_Equal self other
      | _ \<Rightarrow> False)"

text \<open>The virtual call: the override of the class of \<open>self\<close> runs.\<close>

fun Equal :: "event \<Rightarrow> event \<Rightarrow> bool" where
  "Equal (SimSendSync b) other = Event_Equal (SimSendSync b) other"
| "Equal (SimProcInEvent b) other = Event_Equal (SimProcInEvent b) other"
| "Equal (HostInstr b pc) other = HostInstr_Equal (HostInstr b pc) other"
| "Equal (HostCall b pc fn cmp) other = HostCall_Equal (HostCall b pc fn cmp) other"
| "Equal (HostMmioImRespPoW b) other = Event_Equal (HostMmioImRespPoW b) other"
| "Equal (HostMmioCR b i) other = HostIdOp_Equal (HostMmioCR b i) other"
| "Equal (HostMmioCW b i) other = HostIdOp_Equal (HostMmioCW b i) other"
| "Equal (HostMmioR b i a s bar off) other = HostMmioOp_Equal (HostMmioR b i a s bar off) other"
| "Equal (HostMmioW b i a s bar off posted) other =
     (case other of
        HostMmioW _ _ _ _ _ _ posted' \<Rightarrow>
          posted = posted' \<and> HostMmioOp_Equal (HostMmioW b i a s bar off posted) other
      | _ \<Rightarrow> False)"
| "Equal (HostDmaC b i) other = HostIdOp_Equal (HostDmaC b i) other"
| "Equal (HostDmaR b i a s) other = HostAddrSizeOp_Equal (HostDmaR b i a s) other"
| "Equal (HostDmaW b i a s) other = HostAddrSizeOp_Equal (HostDmaW b i a s) other"
| "Equal (HostMsiX b vec) other =
     (case other of HostMsiX _ vec' \<Rightarrow> vec = vec' \<and> Event_Equal (HostMsiX b vec) other
      | _ \<Rightarrow> False)"
| "Equal (HostConf b dev func reg bytes dat is_read) other =
     (case other of
        HostConf _ dev' func' reg' bytes' dat' is_read' \<Rightarrow>
          dev = dev' \<and> func = func' \<and> reg = reg' \<and> bytes = bytes' \<and> dat = dat' \<and>
          is_read = is_read' \<and> Event_Equal (HostConf b dev func reg bytes dat is_read) other
      | _ \<Rightarrow> False)"
| "Equal (HostClearInt b) other = Event_Equal (HostClearInt b) other"
| "Equal (HostPostInt b) other = Event_Equal (HostPostInt b) other"
| "Equal (HostPciRW b offset sz is_read) other =
     (case other of
        HostPciRW _ offset' sz' is_read' \<Rightarrow>
          offset = offset' \<and> sz = sz' \<and> is_read = is_read' \<and>
          Event_Equal (HostPciRW b offset sz is_read) other
      | _ \<Rightarrow> False)"
| "Equal (NicMsix b vec isX) other =
     (case other of
        NicMsix _ vec' isX' \<Rightarrow> vec = vec' \<and> isX = isX' \<and> Event_Equal (NicMsix b vec isX) other
      | _ \<Rightarrow> False)"
| "Equal (SetIX b intr) other =
     (case other of SetIX _ intr' \<Rightarrow> intr = intr' \<and> Event_Equal (SetIX b intr) other
      | _ \<Rightarrow> False)"
| "Equal (NicDmaI b i a l) other = NicDma_Equal (NicDmaI b i a l) other"
| "Equal (NicDmaEx b i a l) other = NicDma_Equal (NicDmaEx b i a l) other"
| "Equal (NicDmaEn b i a l) other = NicDma_Equal (NicDmaEn b i a l) other"
| "Equal (NicDmaCR b i a l) other = NicDma_Equal (NicDmaCR b i a l) other"
| "Equal (NicDmaCW b i a l) other = NicDma_Equal (NicDmaCW b i a l) other"
| "Equal (NicMmioR b off l v) other = NicMmio_Equal (NicMmioR b off l v) other"
| "Equal (NicMmioW b off l v posted) other =
     (if \<not> NicMmio_Equal (NicMmioW b off l v posted) other then False
      else (case other of NicMmioW _ _ _ _ posted' \<Rightarrow> posted' = posted | _ \<Rightarrow> False))"
| "Equal (NicTx b l) other = NicTrx_Equal (NicTx b l) other"
| "Equal (NicRx b port l) other =
     (case other of NicRx _ port' _ \<Rightarrow> port = port' \<and> NicTrx_Equal (NicRx b port l) other
      | _ \<Rightarrow> False)"
| "Equal (NetworkEnqueue b n) other =
     (if GetType other \<noteq> kNetworkEnqueueT then False
      else NetworkEvent_Equal (NetworkEnqueue b n) other)"
| "Equal (NetworkDequeue b n) other =
     (if GetType other \<noteq> kNetworkDequeueT then False
      else NetworkEvent_Equal (NetworkDequeue b n) other)"
| "Equal (NetworkDrop b n) other =
     (if GetType other \<noteq> kNetworkDropT then False
      else NetworkEvent_Equal (NetworkDrop b n) other)"

lemmas event_equal_defs =
  Event_Equal_def HostInstr_Equal_def HostCall_Equal_def HostIdOp_Equal_def
  HostAddrSizeOp_Equal_def HostMmioOp_Equal_def NicDma_Equal_def NicMmio_Equal_def
  NicTrx_Equal_def NetworkEvent_Equal_def GetTs_def GetParserIdent_def GetParserName_def

lemma ev_base_eqI:
  "ev_timestamp a = ev_timestamp b \<Longrightarrow> ev_parser_identifier a = ev_parser_identifier b \<Longrightarrow>
   ev_parser_name a = ev_parser_name b \<Longrightarrow> a = (b :: ev_base)"
  by (cases a; cases b) simp

lemma both_or_none_eq:
  assumes "\<And>h h'. eq h h' \<longleftrightarrow> h = h'"
  shows "both_or_none eq x y \<longleftrightarrow> x = y"
  using assms by (auto simp: both_or_none_def split: option.splits)

lemma NetworkEvent_Equal_iff:
  "NetworkEvent_Equal self other \<longleftrightarrow>
     as_NetworkEvent self \<noteq> None \<and> as_NetworkEvent self = as_NetworkEvent other \<and>
     Event_Equal self other"
proof -
  have fields: "n = net \<longleftrightarrow>
      net_ethernet_header n = net_ethernet_header net \<and> net_arp_header n = net_arp_header net \<and>
      net_ip_header n = net_ip_header net \<and> net_node n = net_node net \<and>
      net_device n = net_device net \<and> net_payload_size n = net_payload_size net \<and>
      net_device_type n = net_device_type net \<and> net_boundary_type n = net_boundary_type net \<and>
      net_packet_uid n = net_packet_uid net \<and> net_interesting_flag n = net_interesting_flag net"
    for n net :: NetworkEvent
    by (cases n; cases net) auto
  show ?thesis
    by (cases "as_NetworkEvent self"; cases "as_NetworkEvent other")
      (auto simp: NetworkEvent_Equal_def both_or_none_eq fields)
qed

lemma Event_Equal_iff:
  "Event_Equal self other \<longleftrightarrow>
     ev_base_of self = ev_base_of other \<and> GetType self = GetType other \<and>
     GetName self = GetName other"
  by (auto simp: Event_Equal_def GetTs_def GetParserIdent_def GetParserName_def
      intro: ev_base_eqI)

lemma Equal_eq:
  assumes "GetType self \<noteq> kHostCallT"
  shows "Equal self other \<longleftrightarrow> self = other"
  using assms
  by (cases self; cases other)
     (auto simp: HostInstr_Equal_def HostIdOp_Equal_def HostAddrSizeOp_Equal_def
        HostMmioOp_Equal_def NicDma_Equal_def NicMmio_Equal_def NicTrx_Equal_def
        NetworkEvent_Equal_iff Event_Equal_iff)

text \<open>
  \<open>HostCall::Equal\<close> delegates to \<open>HostInstr::Equal\<close>, which demands the type
  \<open>kHostInstrT\<close> of an event that was just found to have the type \<open>kHostCallT\<close>.
\<close>

lemma HostCall_Equal_False: "\<not> HostCall_Equal self other"
  by (simp add: HostCall_Equal_def HostInstr_Equal_def)

section \<open>Properties\<close>

text \<open>
  C35. The virtual \<open>Equal\<close> of every event class decides structural equality: it is true
  exactly for two events of the same class with the same fields, on every class but
  \<open>HostCall\<close>. A \<open>HostCall\<close> compares unequal to every event, itself included, because its
  \<open>Equal\<close> delegates to that of \<open>HostInstr\<close>.
\<close>

theorem Equal_correct: "Equal self other \<longleftrightarrow> self = other \<and> GetType self \<noteq> kHostCallT"
proof (cases "GetType self = kHostCallT")
  case True
  then show ?thesis by (cases self) (simp_all add: HostCall_Equal_False)
next
  case False
  then show ?thesis by (simp add: Equal_eq)
qed

end
