(* ===== verification/TraceEnv.thy ===== *)
theory TraceEnv
  imports EventOps
begin

text \<open>
  The trace environment: the string internalizer (include/env/stringInternalizer.h), the
  identifier counters and the indicator predicates of include/env/traceEnvironment.h and
  source/env/traceEnvironment.cc. The reader-writer lock makes each of these operations
  atomic and is not modelled further.
\<close>

section \<open>The string internalizer\<close>

text \<open>
  \<open>std::unordered_set<std::string>\<close> never moves its nodes, so the address of a string is
  fixed when it is inserted. The model numbers the nodes in the order of insertion.
\<close>

record StringInternalizer =
  symbol_set :: "string list"

type_synonym strptr = nat

fun index_of :: "'a list \<Rightarrow> 'a \<Rightarrow> nat option" where
  "index_of [] x = None"
| "index_of (y # ys) x = (if y = x then Some 0 else map_option Suc (index_of ys x))"

definition StringInternalizer_empty :: StringInternalizer where
  "StringInternalizer_empty = \<lparr>symbol_set = []\<rparr>"

text \<open>\<open>emplace\<close> returns the existing node or inserts a new one.\<close>

definition Internalize :: "string \<Rightarrow> StringInternalizer \<Rightarrow> strptr \<times> StringInternalizer" where
  "Internalize symbol st =
     (case index_of (symbol_set st) symbol of
        Some p \<Rightarrow> (p, st)
      | None \<Rightarrow> (length (symbol_set st), st\<lparr>symbol_set := symbol_set st @ [symbol]\<rparr>))"

definition deref :: "StringInternalizer \<Rightarrow> strptr \<Rightarrow> string option" where
  "deref st p = (if p < length (symbol_set st) then Some (symbol_set st ! p) else None)"

definition internalizer_inv :: "StringInternalizer \<Rightarrow> bool" where
  "internalizer_inv st = distinct (symbol_set st)"

fun InternalizeStrings ::
  "string list \<Rightarrow> StringInternalizer \<Rightarrow> strptr list \<Rightarrow> (strptr list \<times> StringInternalizer) res"
where
  "InternalizeStrings [] st into = Inr (into, st)"
| "InternalizeStrings (s # ss) st into =
     (case Internalize s st of
        (p, st') \<Rightarrow>
          rbind (assert_that (p \<notin> set into) ''suc.second'') (\<lambda>_.
            InternalizeStrings ss st' (into @ [p])))"

lemma index_of_eq_None [simp]: "index_of xs x = None \<longleftrightarrow> x \<notin> set xs"
  by (induction xs) auto

lemma index_of_SomeD: "index_of xs x = Some i \<Longrightarrow> i < length xs \<and> xs ! i = x"
  by (induction xs arbitrary: i) (auto split: if_splits)

lemma Internalize_inv: "internalizer_inv st \<Longrightarrow> internalizer_inv (snd (Internalize s st))"
  by (auto simp: Internalize_def internalizer_inv_def split: option.splits)

lemma deref_Internalize: "deref (snd (Internalize s st)) (fst (Internalize s st)) = Some s"
  by (auto simp: Internalize_def deref_def split: option.splits dest: index_of_SomeD)

lemma deref_stable: "deref st p = Some x \<Longrightarrow> deref (snd (Internalize s st)) p = Some x"
  by (auto simp: Internalize_def deref_def nth_append split: option.splits if_splits)

lemma deref_stable_fold:
  "deref st p = Some x \<Longrightarrow> deref (fold (\<lambda>s st. snd (Internalize s st)) ss st) p = Some x"
  by (induction ss arbitrary: st) (auto intro: deref_stable)

lemma Internalize_inv_fold:
  "internalizer_inv st \<Longrightarrow> internalizer_inv (fold (\<lambda>s st. snd (Internalize s st)) ss st)"
  by (induction ss arbitrary: st) (auto intro: Internalize_inv)

lemma deref_inj:
  assumes "internalizer_inv st" and "deref st p = Some x" and "deref st q = Some y"
  shows "p = q \<longleftrightarrow> x = y"
  using assms by (auto simp: internalizer_inv_def deref_def nth_eq_iff_index_eq split: if_splits)

text \<open>
  C36. Interning is sound: however many strings are internalized in between, the pointers
  returned for two strings are equal exactly when the strings are, which is what the
  indicator sets and the event fields of type \<open>const std::string *\<close> rely on.
\<close>

theorem Internalize_pointer_eq:
  assumes "internalizer_inv st"
    and "Internalize s st = (p, sta)"
    and "Internalize s' (fold (\<lambda>s st. snd (Internalize s st)) ss sta) = (q, stb)"
  shows "p = q \<longleftrightarrow> s = s'"
proof -
  let ?mid = "fold (\<lambda>s st. snd (Internalize s st)) ss sta"
  have inv1: "internalizer_inv sta" and d1: "deref sta p = Some s"
    using assms(1,2) Internalize_inv[of st s] deref_Internalize[of s st] by auto
  have "internalizer_inv stb" "deref stb q = Some s'" "deref stb p = Some s"
    using assms(3) Internalize_inv[of ?mid s'] deref_Internalize[of s' ?mid]
      deref_stable[OF deref_stable_fold[OF d1], of s' ss] Internalize_inv_fold[OF inv1]
    by auto
  then show ?thesis by (metis deref_inj)
qed

theorem Internalize_pointer_eq_witness:
  "(0 = (2::nat)) = (''a'' = ''b'')"
  by (rule Internalize_pointer_eq[where st = StringInternalizer_empty and ss = "[''c'', ''b'']"
        and s = "''a''" and s' = "''b''" and p = 0 and q = 2 and
        sta = "\<lparr>symbol_set = [''a'']\<rparr>" and
        stb = "\<lparr>symbol_set = [''a'', ''c'', ''b'']\<rparr>"])
     (simp_all add: internalizer_inv_def StringInternalizer_empty_def Internalize_def)

section \<open>The environment\<close>

text \<open>
  The sets of string pointers, each pointer given as its string, and the values the
  counters will hand out next (each a \<open>static uint64_t\<close> starting at 1).
\<close>

record TraceEnvironment =
  linux_net_func_indicator :: "string set"
  driver_func_indicator :: "string set"
  kernel_tx_indicator :: "string set"
  kernel_rx_indicator :: "string set"
  pci_write_indicators :: "string set"
  driver_tx_indicator :: "string set"
  driver_rx_indicator :: "string set"
  sys_entry :: "string set"
  blacklist_func_indicator :: "string set"
  types_to_filter :: "EventType set"

record id_counters =
  next_parser_id :: u64
  next_span_id :: u64
  next_spanner_id :: u64
  next_trace_id :: u64
  next_trace_context_id :: u64

definition kInvalidId :: u64 where
  "kInvalidId = 0"

definition IsValidId :: "u64 \<Rightarrow> bool" where
  "IsValidId ident = (ident \<noteq> kInvalidId)"

definition GetDefaultId :: u64 where
  "GetDefaultId = 0"

definition id_counters_init :: id_counters where
  "id_counters_init =
     \<lparr>next_parser_id = 1, next_span_id = 1, next_spanner_id = 1, next_trace_id = 1,
      next_trace_context_id = 1\<rparr>"

definition GetNextParserId :: "id_counters \<Rightarrow> u64 \<times> id_counters" where
  "GetNextParserId c = (next_parser_id c, c\<lparr>next_parser_id := next_parser_id c + 1\<rparr>)"

definition GetNextSpanId :: "id_counters \<Rightarrow> u64 \<times> id_counters" where
  "GetNextSpanId c = (next_span_id c, c\<lparr>next_span_id := next_span_id c + 1\<rparr>)"

definition GetNextSpannerId :: "id_counters \<Rightarrow> u64 \<times> id_counters" where
  "GetNextSpannerId c = (next_spanner_id c, c\<lparr>next_spanner_id := next_spanner_id c + 1\<rparr>)"

definition GetNextTraceId :: "id_counters \<Rightarrow> u64 \<times> id_counters" where
  "GetNextTraceId c = (next_trace_id c, c\<lparr>next_trace_id := next_trace_id c + 1\<rparr>)"

definition GetNextTraceContextId :: "id_counters \<Rightarrow> u64 \<times> id_counters" where
  "GetNextTraceContextId c =
     (next_trace_context_id c, c\<lparr>next_trace_context_id := next_trace_context_id c + 1\<rparr>)"

definition GetCallFunc :: "event option \<Rightarrow> string option" where
  "GetCallFunc event_ptr =
     (case event_ptr of Some (HostCall _ _ fn _) \<Rightarrow> fn | _ \<Rightarrow> None)"

definition IsTypeToFilter :: "TraceEnvironment \<Rightarrow> event option \<Rightarrow> bool" where
  "IsTypeToFilter env event_ptr =
     (case event_ptr of None \<Rightarrow> True | Some e \<Rightarrow> GetType e \<in> types_to_filter env)"

definition IsBlacklistedFunctionCall :: "TraceEnvironment \<Rightarrow> event option \<Rightarrow> bool" where
  "IsBlacklistedFunctionCall env event_ptr =
     (case GetCallFunc event_ptr of None \<Rightarrow> False | Some f \<Rightarrow> f \<in> blacklist_func_indicator env)"

definition IsDriverTx :: "TraceEnvironment \<Rightarrow> event option \<Rightarrow> bool" where
  "IsDriverTx env event_ptr =
     (case GetCallFunc event_ptr of None \<Rightarrow> False | Some f \<Rightarrow> f \<in> driver_tx_indicator env)"

definition IsDriverRx :: "TraceEnvironment \<Rightarrow> event option \<Rightarrow> bool" where
  "IsDriverRx env event_ptr =
     (case GetCallFunc event_ptr of None \<Rightarrow> False | Some f \<Rightarrow> f \<in> driver_rx_indicator env)"

definition IsPciMsixDescAddr :: "event option \<Rightarrow> bool" where
  "IsPciMsixDescAddr event_ptr =
     (case GetCallFunc event_ptr of None \<Rightarrow> False | Some f \<Rightarrow> f = ''pci_msix_desc_addr'')"

definition is_pci_write :: "TraceEnvironment \<Rightarrow> event option \<Rightarrow> bool" where
  "is_pci_write env event_ptr =
     (case GetCallFunc event_ptr of None \<Rightarrow> False | Some f \<Rightarrow> f \<in> pci_write_indicators env)"

definition IsKernelTx :: "TraceEnvironment \<Rightarrow> event option \<Rightarrow> bool" where
  "IsKernelTx env event_ptr =
     (case GetCallFunc event_ptr of None \<Rightarrow> False | Some f \<Rightarrow> f \<in> kernel_tx_indicator env)"

definition IsKernelRx :: "TraceEnvironment \<Rightarrow> event option \<Rightarrow> bool" where
  "IsKernelRx env event_ptr =
     (case GetCallFunc event_ptr of None \<Rightarrow> False | Some f \<Rightarrow> f \<in> kernel_rx_indicator env)"

definition IsKernelOrDriverTx :: "TraceEnvironment \<Rightarrow> event option \<Rightarrow> bool" where
  "IsKernelOrDriverTx env event_ptr =
     (case GetCallFunc event_ptr of None \<Rightarrow> False
      | Some f \<Rightarrow> f \<in> kernel_tx_indicator env \<or> f \<in> driver_tx_indicator env)"

definition IsKernelOrDriverRx :: "TraceEnvironment \<Rightarrow> event option \<Rightarrow> bool" where
  "IsKernelOrDriverRx env event_ptr =
     (case GetCallFunc event_ptr of None \<Rightarrow> False
      | Some f \<Rightarrow> f \<in> kernel_rx_indicator env \<or> f \<in> driver_rx_indicator env)"

definition IsSocketConnect :: "event option \<Rightarrow> bool" where
  "IsSocketConnect event_ptr =
     (case GetCallFunc event_ptr of None \<Rightarrow> False | Some f \<Rightarrow> f = ''__sys_connect'')"

definition IsSysEntry :: "TraceEnvironment \<Rightarrow> event option \<Rightarrow> bool" where
  "IsSysEntry env event_ptr =
     (case GetCallFunc event_ptr of None \<Rightarrow> False | Some f \<Rightarrow> f \<in> sys_entry env)"

definition IsMsixNotToDeviceBarNumber :: "i32 \<Rightarrow> bool" where
  "IsMsixNotToDeviceBarNumber bar = (bar \<noteq> 0)"

definition IsToDeviceBarNumber :: "i32 \<Rightarrow> bool" where
  "IsToDeviceBarNumber bar = (bar = 0)"

lemma GetCallFunc_simps [simp]:
  "GetCallFunc None = None"
  "GetCallFunc (Some (HostCall b pc fn cmp)) = fn"
  "GetType e \<noteq> kHostCallT \<Longrightarrow> GetCallFunc (Some e) = None"
  by (auto simp: GetCallFunc_def split: event.splits)

end
