(* ===== verification/Span.thy ===== *)
theory Span
  imports EventEqual TraceEnv
begin

text \<open>
  Spans (include/analytics/span.h, source/analytics/span.cpp): the members every span
  shares, the private members of each span class, and the virtual \<open>AddToSpan\<close> of every
  class, which decides whether an event belongs to the span. The theory \<open>SpanProtocol\<close>
  states what the classes accept.
\<close>

section \<open>Data\<close>

datatype span_type =
    kHostCall | kHostMsix | kHostMmio | kHostDma | kHostInt | kHostPci | kNicDma | kNicMmio
  | kNicEth | kNicMsix | kNetDeviceSpan | kGenericSingle

text \<open>
  The members of the base class. A \<open>shared_ptr\<close> to another span is that span's id, which
  is unique and never changes; \<open>trace_context_\<close> is the address of a context, since
  contexts are shared between the copies of a span and updated in place.
\<close>

type_synonym ctx_addr = nat

record EventSpan =
  sp_id :: u64
  sp_source_id :: u64
  sp_events :: "event list"
  sp_is_pending :: bool
  sp_is_relevant :: bool
  sp_original :: "u64 option"
  sp_trace_context :: "ctx_addr option"
  sp_service_name :: string

record HostCallSpan =
  hcs_call_span_entry :: "event option"
  hcs_syscall_return :: "event option"
  hcs_kernel_transmit :: bool
  hcs_driver_transmit :: bool
  hcs_kernel_receive :: bool
  hcs_driver_receive :: bool
  hcs_is_fragmented :: bool

record HostIntSpan =
  his_host_post_int :: "event option"
  his_host_clear_int :: "event option"

record HostDmaSpan =
  hds_host_dma_execution :: "event option"
  hds_is_read :: bool
  hds_host_dma_completion :: "event option"

record HostMmioSpan =
  hms_host_mmio_issue :: "event option"
  hms_is_read :: bool
  hms_is_posted :: bool
  hms_bar_number :: i32
  hms_im_mmio_resp :: "event option"
  hms_completion :: "event option"

record HostMsixSpan =
  hxs_host_msix :: "event option"
  hxs_host_dma_c :: "event option"

record HostPciSpan =
  hps_host_pci_rw :: "event option"
  hps_host_conf_rw :: "event option"
  hps_is_read :: bool

record NicMsixSpan =
  nxs_nic_msix :: "event option"

record NicMmioSpan =
  nms_action :: "event option"
  nms_is_read :: bool

record NicDmaSpan =
  nds_dma_issue :: "event option"
  nds_nic_dma_execution :: "event option"
  nds_nic_dma_completion :: "event option"
  nds_is_read :: bool

record NicEthSpan =
  nes_tx_rx :: "event option"
  nes_is_send :: bool

text \<open>\<open>device_type_\<close> has no initializer: it is indeterminate until an enqueue sets it.\<close>

record NetDeviceSpan =
  nvs_dev_enq :: "(ev_base \<times> NetworkEvent) option"
  nvs_dev_deq :: "(ev_base \<times> NetworkEvent) option"
  nvs_drop :: "(ev_base \<times> NetworkEvent) option"
  nvs_device_type :: "NetworkDeviceType option"
  nvs_src :: Ipv4
  nvs_dst :: Ipv4
  nvs_ips_set :: bool
  nvs_is_arp :: bool
  nvs_boundary_types :: "EventBoundaryType list"
  nvs_interesting_flag :: bool
  nvs_node :: i32
  nvs_device :: i32

record GenericSingleSpan =
  gss_event_p :: "event option"

datatype span_data =
    HostCallD HostCallSpan
  | HostMsixD HostMsixSpan
  | HostMmioD HostMmioSpan
  | HostDmaD HostDmaSpan
  | HostIntD HostIntSpan
  | HostPciD HostPciSpan
  | NicDmaD NicDmaSpan
  | NicMmioD NicMmioSpan
  | NicEthD NicEthSpan
  | NicMsixD NicMsixSpan
  | NetDeviceD NetDeviceSpan
  | GenericSingleD GenericSingleSpan

type_synonym span = "EventSpan \<times> span_data"

fun span_GetType :: "span_data \<Rightarrow> span_type" where
  "span_GetType (HostCallD _) = kHostCall"
| "span_GetType (HostMsixD _) = kHostMsix"
| "span_GetType (HostMmioD _) = kHostMmio"
| "span_GetType (HostDmaD _) = kHostDma"
| "span_GetType (HostIntD _) = kHostInt"
| "span_GetType (HostPciD _) = kHostPci"
| "span_GetType (NicDmaD _) = kNicDma"
| "span_GetType (NicMmioD _) = kNicMmio"
| "span_GetType (NicEthD _) = kNicEth"
| "span_GetType (NicMsixD _) = kNicMsix"
| "span_GetType (NetDeviceD _) = kNetDeviceSpan"
| "span_GetType (GenericSingleD _) = kGenericSingle"

fun span_type_show :: "span_type \<Rightarrow> string" where
  "span_type_show kHostCall = ''kHostCall''"
| "span_type_show kHostMsix = ''kHostMsix''"
| "span_type_show kHostMmio = ''kHostMmio''"
| "span_type_show kHostDma = ''kHostDma''"
| "span_type_show kHostInt = ''kHostInt''"
| "span_type_show kHostPci = ''kHostPci''"
| "span_type_show kNicDma = ''kNicDma''"
| "span_type_show kNicMmio = ''kNicMmio''"
| "span_type_show kNicEth = ''kNicEth''"
| "span_type_show kNicMsix = ''kNicMsix''"
| "span_type_show kGenericSingle = ''kGenericSingle''"
| "span_type_show kNetDeviceSpan = ''kNetDeviceSpan''"

section \<open>Construction\<close>

text \<open>
  The constructor of the base class: the context must not be null, the id is the next
  one, the in-class initializers give the rest. The copy constructor takes a new id too.
\<close>

definition EventSpan_new ::
  "ctx_addr option \<Rightarrow> u64 \<Rightarrow> string \<Rightarrow> id_counters \<Rightarrow> (EventSpan \<times> id_counters) res"
where
  "EventSpan_new trace_ctx source nm c =
     (case GetNextSpanId c of
        (ident, c') \<Rightarrow>
          rbind (throw_if_empty trace_ctx ''try setting TraceContext which is null'') (\<lambda>_.
            Inr (\<lparr>sp_id = ident, sp_source_id = source, sp_events = [], sp_is_pending = True,
                  sp_is_relevant = False, sp_original = None, sp_trace_context = trace_ctx,
                  sp_service_name = nm\<rparr>, c')))"

definition EventSpan_copy :: "EventSpan \<Rightarrow> id_counters \<Rightarrow> EventSpan \<times> id_counters" where
  "EventSpan_copy other c =
     (case GetNextSpanId c of (ident, c') \<Rightarrow> (other\<lparr>sp_id := ident\<rparr>, c'))"

definition HostCallSpan_init :: "bool \<Rightarrow> HostCallSpan" where
  "HostCallSpan_init fragmented =
     \<lparr>hcs_call_span_entry = None, hcs_syscall_return = None, hcs_kernel_transmit = False,
      hcs_driver_transmit = False, hcs_kernel_receive = False, hcs_driver_receive = False,
      hcs_is_fragmented = fragmented\<rparr>"

definition HostIntSpan_init :: HostIntSpan where
  "HostIntSpan_init = \<lparr>his_host_post_int = None, his_host_clear_int = None\<rparr>"

definition HostDmaSpan_init :: HostDmaSpan where
  "HostDmaSpan_init =
     \<lparr>hds_host_dma_execution = None, hds_is_read = True, hds_host_dma_completion = None\<rparr>"

definition HostMmioSpan_init :: "i32 \<Rightarrow> HostMmioSpan" where
  "HostMmioSpan_init bar =
     \<lparr>hms_host_mmio_issue = None, hms_is_read = False, hms_is_posted = False,
      hms_bar_number = bar, hms_im_mmio_resp = None, hms_completion = None\<rparr>"

definition HostMsixSpan_init :: HostMsixSpan where
  "HostMsixSpan_init = \<lparr>hxs_host_msix = None, hxs_host_dma_c = None\<rparr>"

definition HostPciSpan_init :: HostPciSpan where
  "HostPciSpan_init =
     \<lparr>hps_host_pci_rw = None, hps_host_conf_rw = None, hps_is_read = False\<rparr>"

definition NicMsixSpan_init :: NicMsixSpan where
  "NicMsixSpan_init = \<lparr>nxs_nic_msix = None\<rparr>"

definition NicMmioSpan_init :: NicMmioSpan where
  "NicMmioSpan_init = \<lparr>nms_action = None, nms_is_read = False\<rparr>"

definition NicDmaSpan_init :: NicDmaSpan where
  "NicDmaSpan_init =
     \<lparr>nds_dma_issue = None, nds_nic_dma_execution = None, nds_nic_dma_completion = None,
      nds_is_read = True\<rparr>"

definition NicEthSpan_init :: NicEthSpan where
  "NicEthSpan_init = \<lparr>nes_tx_rx = None, nes_is_send = False\<rparr>"

definition NetDeviceSpan_init :: NetDeviceSpan where
  "NetDeviceSpan_init =
     \<lparr>nvs_dev_enq = None, nvs_dev_deq = None, nvs_drop = None, nvs_device_type = None,
      nvs_src = \<lparr>ipv4_ip = 0\<rparr>, nvs_dst = \<lparr>ipv4_ip = 0\<rparr>, nvs_ips_set = False,
      nvs_is_arp = False, nvs_boundary_types = [], nvs_interesting_flag = False,
      nvs_node = - 1, nvs_device = - 1\<rparr>"

definition GenericSingleSpan_init :: GenericSingleSpan where
  "GenericSingleSpan_init = \<lparr>gss_event_p = None\<rparr>"

section \<open>The operations of the base class\<close>

definition IsCopy :: "EventSpan \<Rightarrow> bool" where
  "IsCopy s = (sp_original s \<noteq> None)"

definition GetOriginalId :: "EventSpan \<Rightarrow> u64 res" where
  "GetOriginalId s = throw_if_empty (sp_original s) ''EventSpan::GetOriginalId: span is not a copy''"

definition SetOriginal :: "EventSpan option \<Rightarrow> EventSpan \<Rightarrow> EventSpan res" where
  "SetOriginal original s =
     rbind (throw_if_empty original ''EventSpan::SetOriginal: original is empty'') (\<lambda>orig.
       Inr (s\<lparr>sp_original := Some (sp_id orig)\<rparr>))"

definition HasEvents :: "EventSpan \<Rightarrow> bool" where
  "HasEvents s = (length (sp_events s) > 0)"

definition GetAt :: "nat \<Rightarrow> EventSpan \<Rightarrow> event option" where
  "GetAt index s = (if index \<ge> length (sp_events s) then None else Some (sp_events s ! index))"

definition GetValidId :: "EventSpan \<Rightarrow> u64 res" where
  "GetValidId s =
     rbind (throw_on_false (IsValidId (sp_id s)) ''invalid span id'') (\<lambda>_. Inr (sp_id s))"

definition IsPending :: "EventSpan \<Rightarrow> bool" where
  "IsPending s = sp_is_pending s"

definition IsComplete :: "EventSpan \<Rightarrow> bool" where
  "IsComplete s = (\<not> IsPending s)"

definition MarkAsRelevant :: "EventSpan \<Rightarrow> EventSpan" where
  "MarkAsRelevant s = s\<lparr>sp_is_relevant := True\<rparr>"

definition MarkAsNonRelevant :: "EventSpan \<Rightarrow> EventSpan" where
  "MarkAsNonRelevant s = s\<lparr>sp_is_relevant := False\<rparr>"

definition GetStartingTs :: "EventSpan \<Rightarrow> u64" where
  "GetStartingTs s = (case sp_events s of [] \<Rightarrow> u64_max | e # _ \<Rightarrow> GetTs e)"

definition GetCompletionTs :: "EventSpan \<Rightarrow> u64" where
  "GetCompletionTs s =
     (if sp_events s = [] \<or> IsPending s then u64_max else GetTs (last (sp_events s)))"

definition IsPotentialAdd :: "event option \<Rightarrow> EventSpan \<Rightarrow> bool" where
  "IsPotentialAdd event_ptr s =
     (case event_ptr of
        None \<Rightarrow> False
      | Some e \<Rightarrow>
          if IsComplete s then False
          else (case sp_events s of
                  [] \<Rightarrow> True
                | first # _ \<Rightarrow> GetParserIdent first = GetParserIdent e))"

text \<open>\<open>events_.push_back(event_ptr)\<close>, and the two writes of \<open>is_pending_\<close>.\<close>

definition push_event :: "event \<Rightarrow> EventSpan \<Rightarrow> EventSpan" where
  "push_event e s = s\<lparr>sp_events := sp_events s @ [e]\<rparr>"

definition set_pending :: "bool \<Rightarrow> EventSpan \<Rightarrow> EventSpan" where
  "set_pending b s = s\<lparr>sp_is_pending := b\<rparr>"

fun MarkAsDone :: "span \<Rightarrow> span" where
  "MarkAsDone (s, HostCallD d) =
     (set_pending False s,
      HostCallD (d\<lparr>hcs_is_fragmented :=
        hcs_is_fragmented d \<or> hcs_call_span_entry d = None \<or> hcs_syscall_return d = None\<rparr>))"
| "MarkAsDone (s, d) = (set_pending False s, d)"

section \<open>\<open>AddToSpan\<close>, class by class\<close>

text \<open>
  Each method returns its verdict and the updated members. \<open>back()\<close> on the empty vector
  of a fragmented call span is the one undefined case.
\<close>

definition HostCallSpan_mark ::
  "TraceEnvironment \<Rightarrow> event option \<Rightarrow> HostCallSpan \<Rightarrow> HostCallSpan"
where
  "HostCallSpan_mark env event_ptr d =
     (if IsKernelTx env event_ptr then d\<lparr>hcs_kernel_transmit := True\<rparr>
      else if IsDriverTx env event_ptr then d\<lparr>hcs_driver_transmit := True\<rparr>
      else if IsKernelRx env event_ptr then d\<lparr>hcs_kernel_receive := True\<rparr>
      else if IsDriverRx env event_ptr then d\<lparr>hcs_driver_receive := True\<rparr>
      else d)"

definition HostCallSpan_AddToSpan ::
  "TraceEnvironment \<Rightarrow> event option \<Rightarrow> EventSpan \<Rightarrow> HostCallSpan \<Rightarrow>
    (bool \<times> EventSpan \<times> HostCallSpan) res"
where
  "HostCallSpan_AddToSpan env event_ptr s d =
     (if \<not> IsPotentialAdd event_ptr s then Inr (False, s, d)
      else if \<not> IsType event_ptr kHostCallT then Inr (False, s, d)
      else if IsSysEntry env event_ptr then
        (if hcs_is_fragmented d \<or> hcs_call_span_entry d \<noteq> None then
           (if sp_events s = [] then Inl (Undefined ''events_.back()'')
            else Inr (False, set_pending False s,
                   d\<lparr>hcs_syscall_return := Some (last (sp_events s)), hcs_is_fragmented := False\<rparr>))
         else Inr (True, push_event (the event_ptr) (set_pending True s),
                   d\<lparr>hcs_call_span_entry := event_ptr\<rparr>))
      else Inr (True, push_event (the event_ptr) s, HostCallSpan_mark env event_ptr d))"

definition HostIntSpan_AddToSpan ::
  "event option \<Rightarrow> EventSpan \<Rightarrow> HostIntSpan \<Rightarrow> bool \<times> EventSpan \<times> HostIntSpan"
where
  "HostIntSpan_AddToSpan event_ptr s d =
     (if \<not> IsPotentialAdd event_ptr s then (False, s, d)
      else if IsType event_ptr kHostPostIntT then
        (if his_host_post_int d \<noteq> None then (False, s, d)
         else (True, push_event (the event_ptr) s, d\<lparr>his_host_post_int := event_ptr\<rparr>))
      else if IsType event_ptr kHostClearIntT then
        (if his_host_post_int d = None \<or> his_host_clear_int d \<noteq> None then (False, s, d)
         else (True, push_event (the event_ptr) (set_pending False s),
               d\<lparr>his_host_clear_int := event_ptr\<rparr>))
      else (False, s, d))"

definition HostDmaSpan_AddToSpan ::
  "event option \<Rightarrow> EventSpan \<Rightarrow> HostDmaSpan \<Rightarrow> bool \<times> EventSpan \<times> HostDmaSpan"
where
  "HostDmaSpan_AddToSpan event_ptr s d =
     (if \<not> IsPotentialAdd event_ptr s then (False, s, d)
      else if IsAnyType event_ptr [kHostDmaWT, kHostDmaRT] then
        (if hds_host_dma_execution d \<noteq> None then (False, s, d)
         else (True, push_event (the event_ptr) s,
               d\<lparr>hds_is_read := IsType event_ptr kHostDmaRT,
                 hds_host_dma_execution := event_ptr\<rparr>))
      else if IsType event_ptr kHostDmaCT then
        (if hds_host_dma_execution d = None \<or> hds_host_dma_completion d \<noteq> None
         then (False, s, d)
         else if as_HostIdOp (the (hds_host_dma_execution d)) \<noteq> as_HostIdOp (the event_ptr)
         then (False, s, d)
         else (True, push_event (the event_ptr) (set_pending False s),
               d\<lparr>hds_host_dma_completion := event_ptr\<rparr>))
      else (False, s, d))"

text \<open>
  \<open>HostMmioSpan::AddToSpan\<close>: the issue, the immediate response of a posted write, and
  the completion.
\<close>

fun HostMmio_bar :: "event \<Rightarrow> i32 \<Rightarrow> i32" where
  "HostMmio_bar (HostMmioR _ _ _ _ bar _) _ = bar"
| "HostMmio_bar (HostMmioW _ _ _ _ bar _ _) _ = bar"
| "HostMmio_bar _ old = old"

fun HostMmio_posted :: "event \<Rightarrow> bool \<Rightarrow> bool" where
  "HostMmio_posted (HostMmioW _ _ _ _ _ _ posted) _ = posted"
| "HostMmio_posted _ old = old"

definition HostMmioSpan_issue ::
  "event \<Rightarrow> EventSpan \<Rightarrow> HostMmioSpan \<Rightarrow> bool \<times> EventSpan \<times> HostMmioSpan"
where
  "HostMmioSpan_issue e s d =
     (if hms_host_mmio_issue d \<noteq> None then (False, s, d)
      else
        let is_r = (GetType e = kHostMmioRT);
            bar = HostMmio_bar e (hms_bar_number d);
            d' = d\<lparr>hms_is_read := is_r, hms_is_posted := HostMmio_posted e (hms_is_posted d),
                   hms_bar_number := bar, hms_host_mmio_issue := Some e\<rparr>
        in (True,
            push_event e
              (if is_r \<and> IsMsixNotToDeviceBarNumber bar then set_pending False s else s), d'))"

definition HostMmioSpan_im_resp ::
  "event \<Rightarrow> EventSpan \<Rightarrow> HostMmioSpan \<Rightarrow> bool \<times> EventSpan \<times> HostMmioSpan"
where
  "HostMmioSpan_im_resp e s d =
     (if hms_host_mmio_issue d = None \<or> hms_is_read d \<or> hms_im_mmio_resp d \<noteq> None \<or>
         \<not> hms_is_posted d then (False, s, d)
      else if GetTs (the (hms_host_mmio_issue d)) \<noteq> GetTs e then (False, s, d)
      else (True,
            push_event e
              (if hms_is_posted d \<or> IsMsixNotToDeviceBarNumber (hms_bar_number d)
               then set_pending False s else s),
            d\<lparr>hms_im_mmio_resp := Some e\<rparr>))"

definition HostMmioSpan_complete ::
  "event \<Rightarrow> EventSpan \<Rightarrow> HostMmioSpan \<Rightarrow> bool \<times> EventSpan \<times> HostMmioSpan"
where
  "HostMmioSpan_complete e s d =
     (if IsMsixNotToDeviceBarNumber (hms_bar_number d) then (False, s, d)
      else if hms_host_mmio_issue d = None then (False, s, d)
      else if (if GetType e = kHostMmioCWT then hms_is_read d \<or> hms_im_mmio_resp d \<noteq> None
               else \<not> hms_is_read d) then (False, s, d)
      else if as_HostIdOp (the (hms_host_mmio_issue d)) \<noteq> as_HostIdOp e then (False, s, d)
      else (True, push_event e (set_pending False s), d\<lparr>hms_completion := Some e\<rparr>))"

definition HostMmioSpan_AddToSpan ::
  "event option \<Rightarrow> EventSpan \<Rightarrow> HostMmioSpan \<Rightarrow> bool \<times> EventSpan \<times> HostMmioSpan"
where
  "HostMmioSpan_AddToSpan event_ptr s d =
     (if \<not> IsPotentialAdd event_ptr s then (False, s, d)
      else if IsAnyType event_ptr [kHostMmioWT, kHostMmioRT]
        then HostMmioSpan_issue (the event_ptr) s d
      else if IsType event_ptr kHostMmioImRespPoWT
        then HostMmioSpan_im_resp (the event_ptr) s d
      else if IsAnyType event_ptr [kHostMmioCWT, kHostMmioCRT]
        then HostMmioSpan_complete (the event_ptr) s d
      else (False, s, d))"

definition HostMsixSpan_AddToSpan ::
  "event option \<Rightarrow> EventSpan \<Rightarrow> HostMsixSpan \<Rightarrow> bool \<times> EventSpan \<times> HostMsixSpan"
where
  "HostMsixSpan_AddToSpan event_ptr s d =
     (if \<not> IsPotentialAdd event_ptr s then (False, s, d)
      else if IsType event_ptr kHostMsiXT then
        (if hxs_host_msix d \<noteq> None then (False, s, d)
         else (True, push_event (the event_ptr) (set_pending True s),
               d\<lparr>hxs_host_msix := event_ptr\<rparr>))
      else if IsType event_ptr kHostDmaCT then
        (if hxs_host_msix d = None \<or> hxs_host_dma_c d \<noteq> None then (False, s, d)
         else if as_HostIdOp (the event_ptr) \<noteq> Some 0 then (False, s, d)
         else (True, push_event (the event_ptr) (set_pending False s),
               d\<lparr>hxs_host_dma_c := event_ptr\<rparr>))
      else (False, s, d))"

fun Pci_is_read :: "event \<Rightarrow> bool option" where
  "Pci_is_read (HostPciRW _ _ _ is_r) = Some is_r"
| "Pci_is_read (HostConf _ _ _ _ _ _ is_r) = Some is_r"
| "Pci_is_read _ = None"

definition HostPciSpan_AddToSpan ::
  "event option \<Rightarrow> EventSpan \<Rightarrow> HostPciSpan \<Rightarrow> bool \<times> EventSpan \<times> HostPciSpan"
where
  "HostPciSpan_AddToSpan event_ptr s d =
     (if \<not> IsPotentialAdd event_ptr s then (False, s, d)
      else if IsType event_ptr kHostPciRWT then
        (if hps_host_pci_rw d \<noteq> None then (False, s, d)
         else (True, push_event (the event_ptr) (set_pending True s),
               d\<lparr>hps_host_pci_rw := event_ptr,
                 hps_is_read := (Pci_is_read (the event_ptr) = Some True)\<rparr>))
      else if IsType event_ptr kHostConfT then
        (if hps_host_pci_rw d = None \<or> hps_host_conf_rw d \<noteq> None then (False, s, d)
         else if Pci_is_read (the event_ptr) \<noteq> Some (hps_is_read d) then (False, s, d)
         else (True, push_event (the event_ptr) (set_pending False s),
               d\<lparr>hps_host_conf_rw := event_ptr\<rparr>))
      else (False, s, d))"

definition NicMsixSpan_AddToSpan ::
  "event option \<Rightarrow> EventSpan \<Rightarrow> NicMsixSpan \<Rightarrow> bool \<times> EventSpan \<times> NicMsixSpan"
where
  "NicMsixSpan_AddToSpan event_ptr s d =
     (if \<not> IsPotentialAdd event_ptr s then (False, s, d)
      else if IsType event_ptr kNicMsixT then
        (if nxs_nic_msix d \<noteq> None then (False, s, d)
         else (True, set_pending False (push_event (the event_ptr) s),
               d\<lparr>nxs_nic_msix := event_ptr\<rparr>))
      else (False, s, d))"

definition NicMmioSpan_AddToSpan ::
  "event option \<Rightarrow> EventSpan \<Rightarrow> NicMmioSpan \<Rightarrow> bool \<times> EventSpan \<times> NicMmioSpan"
where
  "NicMmioSpan_AddToSpan event_ptr s d =
     (if \<not> IsPotentialAdd event_ptr s \<or> nms_action d \<noteq> None then (False, s, d)
      else if IsAnyType event_ptr [kNicMmioRT, kNicMmioWT] then
        (True, push_event (the event_ptr) (set_pending False s),
         d\<lparr>nms_is_read := IsType event_ptr kNicMmioRT, nms_action := event_ptr\<rparr>)
      else (False, s, d))"

definition NicDma_same :: "event \<Rightarrow> event \<Rightarrow> bool" where
  "NicDma_same issue e =
     (map_option fst (as_NicDma issue) = map_option fst (as_NicDma e) \<and>
      map_option (fst \<circ> snd) (as_NicDma issue) = map_option (fst \<circ> snd) (as_NicDma e))"

text \<open>\<open>is_read_\<close> is written before the ids of a completion are compared.\<close>

definition NicDmaSpan_AddToSpan ::
  "event option \<Rightarrow> EventSpan \<Rightarrow> NicDmaSpan \<Rightarrow> bool \<times> EventSpan \<times> NicDmaSpan"
where
  "NicDmaSpan_AddToSpan event_ptr s d =
     (if \<not> IsPotentialAdd event_ptr s then (False, s, d)
      else if IsType event_ptr kNicDmaIT then
        (if nds_dma_issue d \<noteq> None then (False, s, d)
         else (True, push_event (the event_ptr) s, d\<lparr>nds_dma_issue := event_ptr\<rparr>))
      else if IsType event_ptr kNicDmaExT then
        (if nds_dma_issue d = None \<or> nds_nic_dma_execution d \<noteq> None then (False, s, d)
         else if \<not> NicDma_same (the (nds_dma_issue d)) (the event_ptr) then (False, s, d)
         else (True, push_event (the event_ptr) s, d\<lparr>nds_nic_dma_execution := event_ptr\<rparr>))
      else if IsAnyType event_ptr [kNicDmaCWT, kNicDmaCRT] then
        (if nds_dma_issue d = None \<or> nds_nic_dma_execution d = None \<or>
            nds_nic_dma_completion d \<noteq> None then (False, s, d)
         else
           let d' = d\<lparr>nds_is_read := IsType event_ptr kNicDmaCRT\<rparr>
           in if \<not> NicDma_same (the (nds_dma_issue d)) (the event_ptr) then (False, s, d')
              else (True, push_event (the event_ptr) (set_pending False s),
                    d'\<lparr>nds_nic_dma_completion := event_ptr\<rparr>))
      else (False, s, d))"

definition NicEthSpan_AddToSpan ::
  "event option \<Rightarrow> EventSpan \<Rightarrow> NicEthSpan \<Rightarrow> bool \<times> EventSpan \<times> NicEthSpan"
where
  "NicEthSpan_AddToSpan event_ptr s d =
     (if \<not> IsPotentialAdd event_ptr s \<or> nes_tx_rx d \<noteq> None then (False, s, d)
      else if IsAnyType event_ptr [kNicTxT, kNicRxT] then
        (True, push_event (the event_ptr) (set_pending False s),
         d\<lparr>nes_is_send := IsType event_ptr kNicTxT, nes_tx_rx := event_ptr\<rparr>)
      else (False, s, d))"

definition GenericSingleSpan_AddToSpan ::
  "event option \<Rightarrow> EventSpan \<Rightarrow> GenericSingleSpan \<Rightarrow> bool \<times> EventSpan \<times> GenericSingleSpan"
where
  "GenericSingleSpan_AddToSpan event_ptr s d =
     (if \<not> IsPotentialAdd event_ptr s \<or> gss_event_p d \<noteq> None then (False, s, d)
      else (True, push_event (the event_ptr) (set_pending False s),
            d\<lparr>gss_event_p := event_ptr\<rparr>))"

section \<open>The network device span\<close>

definition IsConsistent :: "NetworkEvent \<Rightarrow> NetworkEvent \<Rightarrow> bool" where
  "IsConsistent a b =
     (if (case (net_arp_header a, net_arp_header b) of
            (Some x, Some y) \<Rightarrow> \<not> ArpHeader_eq x y | _ \<Rightarrow> False) then False
      else if (net_ip_header a = None) \<noteq> (net_ip_header b = None) then False
      else if (case (net_ip_header a, net_ip_header b) of
            (Some x, Some y) \<Rightarrow> \<not> Ipv4Header_eq x y | _ \<Rightarrow> False) then False
      else
        net_node a = net_node b \<and> net_device a = net_device b \<and>
        net_device_type a = net_device_type b \<and> net_packet_uid a = net_packet_uid b \<and>
        net_interesting_flag a = net_interesting_flag b \<and>
        net_payload_size a = net_payload_size b)"

definition SetAndCheckPotentialArp ::
  "NetworkEvent \<Rightarrow> NetDeviceSpan \<Rightarrow> bool \<times> NetDeviceSpan"
where
  "SetAndCheckPotentialArp n d =
     (case net_arp_header n of
        None \<Rightarrow> (True, d)
      | Some header \<Rightarrow>
          if \<not> nvs_ips_set d then
            (True, d\<lparr>nvs_src := arp_src_ip header, nvs_dst := arp_dst_ip header,
                     nvs_ips_set := True, nvs_is_arp := True\<rparr>)
          else (Ipv4_eq (nvs_src d) (arp_src_ip header) \<and>
                Ipv4_eq (nvs_dst d) (arp_dst_ip header), d))"

definition SetAndCheckPotentialIp ::
  "NetworkEvent \<Rightarrow> NetDeviceSpan \<Rightarrow> bool \<times> NetDeviceSpan"
where
  "SetAndCheckPotentialIp n d =
     (case net_ip_header n of
        None \<Rightarrow> (True, d)
      | Some header \<Rightarrow>
          if \<not> nvs_ips_set d then
            (True, d\<lparr>nvs_src := iph_src_ip header, nvs_dst := iph_dst_ip header,
                     nvs_ips_set := True\<rparr>)
          else (Ipv4_eq (nvs_src d) (iph_src_ip header) \<and>
                Ipv4_eq (nvs_dst d) (iph_dst_ip header), d))"

text \<open>\<open>not SetAndCheckPotentialIp(e) or not SetAndCheckPotentialArp(e)\<close>, negated.\<close>

definition SetAndCheckIpArp :: "NetworkEvent \<Rightarrow> NetDeviceSpan \<Rightarrow> bool \<times> NetDeviceSpan" where
  "SetAndCheckIpArp n d =
     (case SetAndCheckPotentialIp n d of
        (ok, d') \<Rightarrow> if \<not> ok then (False, d') else SetAndCheckPotentialArp n d')"

text \<open>
  \<open>HandelEnqueue\<close>. Its \<open>throw_on\<close> cannot fire, since the guard before it has
  returned.
\<close>

definition HandelEnqueue ::
  "ev_base \<Rightarrow> NetworkEvent \<Rightarrow> event \<Rightarrow> EventSpan \<Rightarrow> NetDeviceSpan \<Rightarrow>
    bool \<times> EventSpan \<times> NetDeviceSpan"
where
  "HandelEnqueue b n e s d =
     (if nvs_dev_enq d \<noteq> None \<or>
         nvs_dev_enq d \<noteq> None \<and> (nvs_dev_deq d \<noteq> None \<or> nvs_drop d \<noteq> None)
      then (False, s, d)
      else
        case SetAndCheckIpArp n d of
          (ok, d') \<Rightarrow>
            if \<not> ok then (False, s, d')
            else (True, push_event e s,
                  d'\<lparr>nvs_dev_enq := Some (b, n), nvs_device_type := Some (net_device_type n),
                     nvs_boundary_types := List.insert (net_boundary_type n) (nvs_boundary_types d'),
                     nvs_interesting_flag := net_interesting_flag n,
                     nvs_node := net_node n, nvs_device := net_device n\<rparr>))"

definition HandelDequeue ::
  "ev_base \<Rightarrow> NetworkEvent \<Rightarrow> event \<Rightarrow> EventSpan \<Rightarrow> NetDeviceSpan \<Rightarrow>
    bool \<times> EventSpan \<times> NetDeviceSpan"
where
  "HandelDequeue b n e s d =
     (if nvs_dev_enq d = None \<or> nvs_drop d \<noteq> None \<or> nvs_dev_deq d \<noteq> None then (False, s, d)
      else if \<not> IsConsistent (snd (the (nvs_dev_enq d))) n then (False, s, d)
      else
        case SetAndCheckIpArp n d of
          (ok, d') \<Rightarrow>
            if \<not> ok then (False, s, d')
            else (True, push_event e (set_pending False s),
                  d'\<lparr>nvs_dev_deq := Some (b, n),
                     nvs_boundary_types :=
                       List.insert (net_boundary_type n) (nvs_boundary_types d')\<rparr>))"

definition HandelDrop ::
  "ev_base \<Rightarrow> NetworkEvent \<Rightarrow> event \<Rightarrow> EventSpan \<Rightarrow> NetDeviceSpan \<Rightarrow>
    bool \<times> EventSpan \<times> NetDeviceSpan"
where
  "HandelDrop b n e s d =
     (if nvs_dev_enq d = None \<or> nvs_drop d \<noteq> None \<or> nvs_dev_deq d \<noteq> None then (False, s, d)
      else if \<not> IsConsistent (snd (the (nvs_dev_enq d))) n then (False, s, d)
      else
        case SetAndCheckIpArp n d of
          (ok, d') \<Rightarrow>
            if \<not> ok then (False, s, d')
            else (True, push_event e (set_pending False s),
                  d'\<lparr>nvs_drop := Some (b, n),
                     nvs_boundary_types :=
                       List.insert (net_boundary_type n) (nvs_boundary_types d')\<rparr>))"

fun NetDeviceSpan_switch ::
  "event \<Rightarrow> EventSpan \<Rightarrow> NetDeviceSpan \<Rightarrow> bool \<times> EventSpan \<times> NetDeviceSpan"
where
  "NetDeviceSpan_switch (NetworkEnqueue b n) s d = HandelEnqueue b n (NetworkEnqueue b n) s d"
| "NetDeviceSpan_switch (NetworkDequeue b n) s d = HandelDequeue b n (NetworkDequeue b n) s d"
| "NetDeviceSpan_switch (NetworkDrop b n) s d = HandelDrop b n (NetworkDrop b n) s d"
| "NetDeviceSpan_switch _ s d = (False, s, d)"

definition NetDeviceSpan_AddToSpan ::
  "event option \<Rightarrow> EventSpan \<Rightarrow> NetDeviceSpan \<Rightarrow> bool \<times> EventSpan \<times> NetDeviceSpan"
where
  "NetDeviceSpan_AddToSpan event_ptr s d =
     (if \<not> IsPotentialAdd event_ptr s then (False, s, d)
      else NetDeviceSpan_switch (the event_ptr) s d)"

section \<open>The virtual call\<close>

definition tag_data ::
  "('d \<Rightarrow> span_data) \<Rightarrow> bool \<times> EventSpan \<times> 'd \<Rightarrow> (bool \<times> span) res"
where
  "tag_data C r = (case r of (ok, s, d) \<Rightarrow> Inr (ok, s, C d))"

fun AddToSpan :: "TraceEnvironment \<Rightarrow> event option \<Rightarrow> span \<Rightarrow> (bool \<times> span) res" where
  "AddToSpan env ev (s, HostCallD d) =
     rbind (HostCallSpan_AddToSpan env ev s d) (tag_data HostCallD)"
| "AddToSpan env ev (s, HostMsixD d) = tag_data HostMsixD (HostMsixSpan_AddToSpan ev s d)"
| "AddToSpan env ev (s, HostMmioD d) = tag_data HostMmioD (HostMmioSpan_AddToSpan ev s d)"
| "AddToSpan env ev (s, HostDmaD d) = tag_data HostDmaD (HostDmaSpan_AddToSpan ev s d)"
| "AddToSpan env ev (s, HostIntD d) = tag_data HostIntD (HostIntSpan_AddToSpan ev s d)"
| "AddToSpan env ev (s, HostPciD d) = tag_data HostPciD (HostPciSpan_AddToSpan ev s d)"
| "AddToSpan env ev (s, NicDmaD d) = tag_data NicDmaD (NicDmaSpan_AddToSpan ev s d)"
| "AddToSpan env ev (s, NicMmioD d) = tag_data NicMmioD (NicMmioSpan_AddToSpan ev s d)"
| "AddToSpan env ev (s, NicEthD d) = tag_data NicEthD (NicEthSpan_AddToSpan ev s d)"
| "AddToSpan env ev (s, NicMsixD d) = tag_data NicMsixD (NicMsixSpan_AddToSpan ev s d)"
| "AddToSpan env ev (s, NetDeviceD d) = tag_data NetDeviceD (NetDeviceSpan_AddToSpan ev s d)"
| "AddToSpan env ev (s, GenericSingleD d) =
     tag_data GenericSingleD (GenericSingleSpan_AddToSpan ev s d)"

section \<open>Facts\<close>

lemma push_event_simps [simp]:
  "sp_events (push_event e s) = sp_events s @ [e]"
  "sp_is_pending (push_event e s) = sp_is_pending s"
  "sp_id (push_event e s) = sp_id s"
  "sp_trace_context (push_event e s) = sp_trace_context s"
  "sp_events (set_pending b s) = sp_events s"
  "sp_is_pending (set_pending b s) = b"
  "sp_id (set_pending b s) = sp_id s"
  "sp_trace_context (set_pending b s) = sp_trace_context s"
  by (simp_all add: push_event_def set_pending_def)

lemma IsPotentialAdd_iff:
  "IsPotentialAdd event_ptr s \<longleftrightarrow>
     (\<exists>e. event_ptr = Some e \<and> sp_is_pending s \<and>
       (sp_events s = [] \<or> GetParserIdent (hd (sp_events s)) = GetParserIdent e))"
  by (auto simp: IsPotentialAdd_def IsComplete_def IsPending_def split: option.splits list.splits)

lemma IsPotentialAdd_Some [simp]:
  "IsPotentialAdd (Some e) s \<longleftrightarrow>
     sp_is_pending s \<and> (sp_events s = [] \<or> GetParserIdent (hd (sp_events s)) = GetParserIdent e)"
  by (simp add: IsPotentialAdd_iff)

lemma IsPotentialAdd_None [simp]: "\<not> IsPotentialAdd None s"
  by (simp add: IsPotentialAdd_iff)

end
