(* ===== verification/Tracer.thy ===== *)
theory Tracer
  imports Span
begin

text \<open>
  Trace contexts (include/analytics/traceContext.h), the contexts passed between
  simulators (include/analytics/context.h), traces (include/analytics/trace.h) and the
  tracer (include/analytics/tracer.h), which creates spans and exports each finished span
  once its parent has been exported.

  Spans and trace contexts are shared objects that are updated in place, so they live in a
  heap: a span pointer is the span's id, a context pointer the context's address. The span
  exporter is an argument of the operations that call it. The tracer's lock makes each
  operation atomic; the executor passed along only schedules it and is left out.
\<close>

section \<open>Trace contexts and contexts\<close>

record TraceContext =
  tc_trace_id :: u64
  tc_id :: u64
  tc_parent_id :: u64
  tc_has_parent :: bool
  tc_parent_start_ts :: u64

definition TraceContext_root :: "u64 \<Rightarrow> u64 \<Rightarrow> TraceContext" where
  "TraceContext_root trace_id context_id =
     \<lparr>tc_trace_id = trace_id, tc_id = context_id, tc_parent_id = GetDefaultId,
      tc_has_parent = False, tc_parent_start_ts = u64_max\<rparr>"

definition TraceContext_child :: "u64 \<Rightarrow> u64 \<Rightarrow> u64 \<Rightarrow> u64 \<Rightarrow> TraceContext res" where
  "TraceContext_child trace_id context_id parent_id parent_start_ts =
     rbind (throw_on_false (IsValidId parent_id) ''invalid parent id'') (\<lambda>_.
       Inr \<lparr>tc_trace_id = trace_id, tc_id = context_id, tc_parent_id = parent_id,
            tc_has_parent = True, tc_parent_start_ts = parent_start_ts\<rparr>)"

definition ctx_consistent :: "TraceContext \<Rightarrow> bool" where
  "ctx_consistent c =
     (tc_has_parent c \<and> tc_parent_id c \<noteq> 0 \<or> \<not> tc_has_parent c \<and> tc_parent_id c = 0)"

definition ctx_HasParent :: "TraceContext \<Rightarrow> bool res" where
  "ctx_HasParent c =
     rbind (assert_that (ctx_consistent c) ''TraceContext::HasParent'') (\<lambda>_. Inr (tc_has_parent c))"

definition SetTraceId :: "u64 \<Rightarrow> TraceContext \<Rightarrow> TraceContext" where
  "SetTraceId new_id c = c\<lparr>tc_trace_id := new_id\<rparr>"

definition SetParentIdAndTs :: "u64 \<Rightarrow> u64 \<Rightarrow> TraceContext \<Rightarrow> TraceContext res" where
  "SetParentIdAndTs parent_id parent_start_ts c =
     rbind (throw_on_false (IsValidId parent_id) ''invalid parent id'') (\<lambda>_.
       Inr (c\<lparr>tc_parent_id := parent_id, tc_has_parent := True,
              tc_parent_start_ts := parent_start_ts\<rparr>))"

datatype expectation = kTx | kRx | kDma | kMsix | kMmio

record Context =
  cx_trace_id :: u64
  cx_expectation :: expectation
  cx_parent_id :: u64
  cx_parent_start_ts :: u64

definition Context_new :: "u64 \<Rightarrow> expectation \<Rightarrow> u64 \<Rightarrow> u64 \<Rightarrow> Context res" where
  "Context_new trace_id ex parent_id parent_start_ts =
     rbind (throw_on_false (IsValidId trace_id) ''Invalid Identifier'') (\<lambda>_.
     rbind (throw_on_false (IsValidId parent_id) ''Invalid Identifier'') (\<lambda>_.
       Inr \<lparr>cx_trace_id = trace_id, cx_expectation = ex, cx_parent_id = parent_id,
            cx_parent_start_ts = parent_start_ts\<rparr>))"

text \<open>\<open>has_parent_\<close> of a \<open>Context\<close> is the constant true.\<close>

definition Context_HasParent :: "Context \<Rightarrow> bool" where
  "Context_HasParent con = True"

definition is_expectation :: "Context option \<Rightarrow> expectation \<Rightarrow> bool" where
  "is_expectation con ex = (case con of None \<Rightarrow> False | Some c \<Rightarrow> cx_expectation c = ex)"

section \<open>The heap and the tracer's state\<close>

record heap =
  h_spans :: "u64 \<Rightarrow> span option"
  h_contexts :: "TraceContext list"
  h_counters :: id_counters

record Trace =
  tr_ident :: u64
  tr_parent_span :: u64
  tr_spans :: "u64 list"

record 'x world =
  w_heap :: heap
  w_traces :: "(u64 \<times> Trace) list"
  w_exported :: "u64 list"
  w_waiting :: "(u64 \<times> u64 list) list"
  w_exporter :: 'x

text \<open>
  The tracer of an exporter in state \<open>x\<close>. The set of exported ids is kept in the order of
  insertion, the maps as association lists.
\<close>

definition world_init :: "'x \<Rightarrow> 'x world" where
  "world_init x =
     \<lparr>w_heap = \<lparr>h_spans = (\<lambda>_. None), h_contexts = [], h_counters = id_counters_init\<rparr>,
      w_traces = [], w_exported = [], w_waiting = [], w_exporter = x\<rparr>"

definition get_span :: "u64 \<Rightarrow> heap \<Rightarrow> span res" where
  "get_span i h = or_undefined (h_spans h i) ''span pointer''"

definition get_ctx :: "ctx_addr \<Rightarrow> heap \<Rightarrow> TraceContext res" where
  "get_ctx a h =
     or_undefined (if a < length (h_contexts h) then Some (h_contexts h ! a) else None)
       ''context pointer''"

definition put_span :: "u64 \<Rightarrow> span \<Rightarrow> 'x world \<Rightarrow> 'x world" where
  "put_span i s w = w\<lparr>w_heap := (w_heap w)\<lparr>h_spans := (h_spans (w_heap w))(i \<mapsto> s)\<rparr>\<rparr>"

definition put_ctx :: "ctx_addr \<Rightarrow> TraceContext \<Rightarrow> 'x world \<Rightarrow> 'x world" where
  "put_ctx a c w = w\<lparr>w_heap := (w_heap w)\<lparr>h_contexts := (h_contexts (w_heap w))[a := c]\<rparr>\<rparr>"

definition alloc_ctx :: "TraceContext \<Rightarrow> 'x world \<Rightarrow> ctx_addr \<times> 'x world" where
  "alloc_ctx c w =
     (length (h_contexts (w_heap w)),
      w\<lparr>w_heap := (w_heap w)\<lparr>h_contexts := h_contexts (w_heap w) @ [c]\<rparr>\<rparr>)"

definition take_context_id :: "'x world \<Rightarrow> u64 \<times> 'x world" where
  "take_context_id w =
     (case GetNextTraceContextId (h_counters (w_heap w)) of
        (i, c) \<Rightarrow> (i, w\<lparr>w_heap := (w_heap w)\<lparr>h_counters := c\<rparr>\<rparr>))"

definition take_trace_id :: "'x world \<Rightarrow> u64 \<times> 'x world" where
  "take_trace_id w =
     (case GetNextTraceId (h_counters (w_heap w)) of
        (i, c) \<Rightarrow> (i, w\<lparr>w_heap := (w_heap w)\<lparr>h_counters := c\<rparr>\<rparr>))"

section \<open>The context part of a span\<close>

definition HasParent :: "heap \<Rightarrow> EventSpan \<Rightarrow> bool res" where
  "HasParent h s =
     (case sp_trace_context s of
        None \<Rightarrow> Inr False
      | Some a \<Rightarrow> rbind (get_ctx a h) ctx_HasParent)"

definition GetParentId :: "heap \<Rightarrow> EventSpan \<Rightarrow> u64 res" where
  "GetParentId h s =
     (case sp_trace_context s of
        None \<Rightarrow> Inr 0
      | Some a \<Rightarrow>
          rbind (get_ctx a h) (\<lambda>c.
          rbind (ctx_HasParent c) (\<lambda>has. Inr (if has then tc_parent_id c else 0))))"

definition GetValidParentId :: "heap \<Rightarrow> EventSpan \<Rightarrow> u64 res" where
  "GetValidParentId h s =
     rbind (GetParentId h s) (\<lambda>parent_id.
     rbind (throw_on_false (IsValidId parent_id) ''invalid parent id'') (\<lambda>_. Inr parent_id))"

definition GetTraceId :: "heap \<Rightarrow> EventSpan \<Rightarrow> u64 res" where
  "GetTraceId h s =
     (case sp_trace_context s of
        None \<Rightarrow> Inr 0
      | Some a \<Rightarrow> rbind (get_ctx a h) (\<lambda>c. Inr (tc_trace_id c)))"

definition GetValidTraceId :: "heap \<Rightarrow> EventSpan \<Rightarrow> u64 res" where
  "GetValidTraceId h s =
     rbind (GetTraceId h s) (\<lambda>trace_id.
     rbind (throw_on_false (IsValidId trace_id) ''Invalid Identifier'') (\<lambda>_. Inr trace_id))"

definition SetContext ::
  "heap \<Rightarrow> ctx_addr option \<Rightarrow> bool \<Rightarrow> EventSpan \<Rightarrow> (bool \<times> EventSpan) res"
where
  "SetContext h traceContext override_existing s =
     (if \<not> override_existing \<and> sp_trace_context s \<noteq> None then Inr (False, s)
      else
        rbind (throw_if_empty traceContext ''try setting TraceContext which is null'') (\<lambda>a.
        rbind (get_ctx a h) (\<lambda>c.
        rbind (ctx_HasParent c) (\<lambda>has.
          if \<not> has then Inr (False, s)
          else
            rbind (assert_that (tc_parent_id c \<noteq> kInvalidId) ''SetContext'') (\<lambda>_.
              if tc_parent_start_ts c > GetStartingTs s then Inr (False, s)
              else Inr (True, s\<lparr>sp_trace_context := Some a\<rparr>))))))"

text \<open>\<open>Context::CreatePassOnContext\<close>.\<close>

definition CreatePassOnContext :: "expectation \<Rightarrow> heap \<Rightarrow> EventSpan \<Rightarrow> Context res" where
  "CreatePassOnContext ex h parent_span =
     rbind (GetValidTraceId h parent_span) (\<lambda>trace_id.
     rbind (GetValidId parent_span) (\<lambda>ident.
       Context_new trace_id ex ident (GetStartingTs parent_span)))"

section \<open>Traces\<close>

definition Trace_AddSpan :: "u64 \<Rightarrow> Trace \<Rightarrow> Trace res" where
  "Trace_AddSpan i tr =
     rbind (throw_on (i \<in> set (tr_spans tr)) ''could not insert span into spans map'') (\<lambda>_.
       Inr (tr\<lparr>tr_spans := tr_spans tr @ [i]\<rparr>))"

definition Trace_new :: "u64 \<Rightarrow> u64 \<Rightarrow> Trace res" where
  "Trace_new ident parent_span =
     Trace_AddSpan parent_span \<lparr>tr_ident = ident, tr_parent_span = parent_span, tr_spans = []\<rparr>"

definition Trace_GetSpan :: "u64 \<Rightarrow> Trace \<Rightarrow> u64 option" where
  "Trace_GetSpan span_id tr = (if span_id \<in> set (tr_spans tr) then Some span_id else None)"

definition GetSpansAndRemoveSpans :: "Trace \<Rightarrow> u64 list \<times> Trace" where
  "GetSpansAndRemoveSpans tr = (tr_spans tr, tr\<lparr>tr_spans := []\<rparr>)"

section \<open>The tracer's bookkeeping\<close>

definition InsertExportedSpan :: "u64 \<Rightarrow> 'x world \<Rightarrow> 'x world res" where
  "InsertExportedSpan span_id w =
     rbind (throw_on_false (IsValidId span_id) ''Invalid Identifier'') (\<lambda>_.
     rbind (throw_on_false (span_id \<notin> set (w_exported w))
              ''could not insert non exported span into set'') (\<lambda>_.
       Inr (w\<lparr>w_exported := w_exported w @ [span_id]\<rparr>)))"

definition InsertTrace :: "Trace \<Rightarrow> 'x world \<Rightarrow> 'x world res" where
  "InsertTrace new_trace w =
     rbind (throw_on (map_of (w_traces w) (tr_ident new_trace) \<noteq> None)
              ''could not insert trace into traces map'') (\<lambda>_.
       Inr (w\<lparr>w_traces := (tr_ident new_trace, new_trace) # w_traces w\<rparr>))"

definition GetTrace :: "u64 \<Rightarrow> 'x world \<Rightarrow> Trace option" where
  "GetTrace trace_id w = map_of (w_traces w) trace_id"

definition put_trace :: "u64 \<Rightarrow> Trace \<Rightarrow> 'x world \<Rightarrow> 'x world" where
  "put_trace trace_id tr w =
     w\<lparr>w_traces := map (\<lambda>(k, t). (k, if k = trace_id then tr else t)) (w_traces w)\<rparr>"

definition RemoveTrace :: "u64 \<Rightarrow> 'x world \<Rightarrow> 'x world res" where
  "RemoveTrace trace_id w =
     rbind (throw_on (map_of (w_traces w) trace_id = None) ''RemoveTrace: nothing was removed'')
       (\<lambda>_. Inr (w\<lparr>w_traces := filter (\<lambda>(k, _). k \<noteq> trace_id) (w_traces w)\<rparr>))"

definition AddSpanToTraceIfTraceExists :: "u64 \<Rightarrow> u64 \<Rightarrow> 'x world \<Rightarrow> 'x world res" where
  "AddSpanToTraceIfTraceExists trace_id span_ptr w =
     (case GetTrace trace_id w of
        None \<Rightarrow> Inr w
      | Some target \<Rightarrow>
          rbind (Trace_AddSpan span_ptr target) (\<lambda>target'. Inr (put_trace trace_id target' w)))"

definition SafeToDeleteTrace :: "u64 \<Rightarrow> 'x world \<Rightarrow> bool" where
  "SafeToDeleteTrace trace_id w =
     (case GetTrace trace_id w of
        None \<Rightarrow> False
      | Some tr \<Rightarrow> list_all (\<lambda>span_id. span_id \<in> set (w_exported w)) (tr_spans tr))"

definition RegisterCreateContextParent ::
  "u64 \<Rightarrow> u64 \<Rightarrow> u64 \<Rightarrow> 'x world \<Rightarrow> (ctx_addr \<times> 'x world) res"
where
  "RegisterCreateContextParent trace_id parent_id parent_starting_ts w =
     rbind (throw_on_false (IsValidId trace_id) ''Invalid Identifier'') (\<lambda>_.
     rbind (throw_on_false (IsValidId parent_id) ''Invalid Identifier'') (\<lambda>_.
       case take_context_id w of
         (context_id, w1) \<Rightarrow>
           rbind (TraceContext_child trace_id context_id parent_id parent_starting_ts) (\<lambda>c.
             Inr (alloc_ctx c w1))))"

definition RegisterCreateContext :: "u64 \<Rightarrow> 'x world \<Rightarrow> ctx_addr \<times> 'x world" where
  "RegisterCreateContext trace_id w =
     (case take_context_id w of
        (context_id, w1) \<Rightarrow> alloc_ctx (TraceContext_root trace_id context_id) w1)"

definition WasParentExported :: "u64 \<Rightarrow> 'x world \<Rightarrow> bool res" where
  "WasParentExported child w =
     rbind (get_span child (w_heap w)) (\<lambda>(s, _).
     rbind (HasParent (w_heap w) s) (\<lambda>has.
       if \<not> has then Inr True
       else rbind (GetValidParentId (w_heap w) s) (\<lambda>parent_id.
              Inr (parent_id \<in> set (w_exported w)))))"

definition MarkSpanAsExported :: "u64 \<Rightarrow> 'x world \<Rightarrow> 'x world res" where
  "MarkSpanAsExported sp w = InsertExportedSpan sp w"

definition MarkSpanAsWaitingForParent :: "u64 \<Rightarrow> 'x world \<Rightarrow> 'x world res" where
  "MarkSpanAsWaitingForParent sp w =
     rbind (get_span sp (w_heap w)) (\<lambda>(s, _).
     rbind (HasParent (w_heap w) s) (\<lambda>has.
       if \<not> has then Inr w
       else
         rbind (GetValidParentId (w_heap w) s) (\<lambda>parent_id.
           case map_of (w_waiting w) parent_id of
             Some _ \<Rightarrow>
               Inr (w\<lparr>w_waiting :=
                 map (\<lambda>(k, ws). (k, if k = parent_id then ws @ [sp] else ws)) (w_waiting w)\<rparr>)
           | None \<Rightarrow> Inr (w\<lparr>w_waiting := (parent_id, [sp]) # w_waiting w\<rparr>))))"

text \<open>
  \<open>not span->HasParent() or exported_spans_.contains(span->GetParentId())\<close>, the assertion
  both export paths make after marking the span.
\<close>

definition assert_parent_exported :: "u64 \<Rightarrow> 'x world \<Rightarrow> unit res" where
  "assert_parent_exported sp w =
     rbind (get_span sp (w_heap w)) (\<lambda>(s, _).
     rbind (HasParent (w_heap w) s) (\<lambda>has.
     rbind (GetParentId (w_heap w) s) (\<lambda>parent_id.
       assert_that (\<not> has \<or> parent_id \<in> set (w_exported w)) ''parent not exported'')))"

type_synonym 'x exporter = "heap \<Rightarrow> u64 \<Rightarrow> 'x \<Rightarrow> 'x res"

definition call_exporter :: "'x exporter \<Rightarrow> u64 \<Rightarrow> 'x world \<Rightarrow> 'x world res" where
  "call_exporter xp sp w =
     rbind (xp (w_heap w) sp (w_exporter w)) (\<lambda>x. Inr (w\<lparr>w_exporter := x\<rparr>))"

text \<open>The body of the loop over the waiters, before the recursive call.\<close>

definition export_waiter :: "'x exporter \<Rightarrow> u64 \<Rightarrow> 'x world \<Rightarrow> 'x world res" where
  "export_waiter xp waiter w =
     rbind (get_span waiter (w_heap w)) (\<lambda>(s, _).
     rbind (GetValidParentId (w_heap w) s) (\<lambda>parent_id.
     rbind (throw_on_false (parent_id \<in> set (w_exported w))
              ''try to export span whos parent was not exported yet'') (\<lambda>_.
     rbind (MarkSpanAsExported waiter w) (\<lambda>w1.
     rbind (assert_parent_exported waiter w1) (\<lambda>_.
       call_exporter xp waiter w1)))))"

text \<open>
  The recursion through the waiting list. The first argument bounds its depth; the
  vector of waiters is copied before the loop and the entry erased after it.
\<close>

fun ExportWaitingForParentVec :: "nat \<Rightarrow> 'x exporter \<Rightarrow> u64 \<Rightarrow> 'x world \<Rightarrow> 'x world res"
  and ExportWaiters :: "nat \<Rightarrow> 'x exporter \<Rightarrow> u64 list \<Rightarrow> 'x world \<Rightarrow> 'x world res"
where
  "ExportWaitingForParentVec 0 xp parent_id w = Inl OutOfFuel"
| "ExportWaitingForParentVec (Suc n) xp parent_id w =
     (case map_of (w_waiting w) parent_id of
        None \<Rightarrow> Inr w
      | Some waiters \<Rightarrow>
          rbind (ExportWaiters n xp waiters w) (\<lambda>w1.
            Inr (w1\<lparr>w_waiting := filter (\<lambda>(k, _). k \<noteq> parent_id) (w_waiting w1)\<rparr>)))"
| "ExportWaiters n xp [] w = Inr w"
| "ExportWaiters n xp (waiter # waiters) w =
     rbind (export_waiter xp waiter w) (\<lambda>w1.
     rbind (ExportWaitingForParentVec n xp waiter w1) (\<lambda>w2.
       ExportWaiters n xp waiters w2))"

definition waiters_of :: "'x world \<Rightarrow> u64 list" where
  "waiters_of w = concat (map snd (w_waiting w))"

definition export_fuel :: "'x world \<Rightarrow> nat" where
  "export_fuel w = Suc (length (waiters_of w))"

definition delete_trace_if_safe :: "u64 \<Rightarrow> 'x world \<Rightarrow> 'x world res" where
  "delete_trace_if_safe trace_id w =
     (if GetTrace trace_id w \<noteq> None \<and> SafeToDeleteTrace trace_id w then RemoveTrace trace_id w
      else Inr w)"

definition MarkSpanAsDone :: "'x exporter \<Rightarrow> u64 option \<Rightarrow> 'x world \<Rightarrow> 'x world res" where
  "MarkSpanAsDone xp sp_ptr w =
     rbind (throw_if_empty sp_ptr ''MarkSpanAsDone, span is null'') (\<lambda>sp.
     rbind (get_span sp (w_heap w)) (\<lambda>(s, _).
     rbind (throw_if_empty (sp_trace_context s) ''MarkSpanAsDone context is null'') (\<lambda>a.
     rbind (get_ctx a (w_heap w)) (\<lambda>c.
     rbind (WasParentExported sp w) (\<lambda>was.
       if was then
         rbind (MarkSpanAsExported sp w) (\<lambda>w1.
         rbind (assert_parent_exported sp w1) (\<lambda>_.
         rbind (call_exporter xp sp w1) (\<lambda>w2.
         rbind (ExportWaitingForParentVec (export_fuel w2) xp sp w2) (\<lambda>w3.
           delete_trace_if_safe (tc_trace_id c) w3))))
       else
         rbind (HasParent (w_heap w) s) (\<lambda>has.
         rbind (assert_that has ''span->HasParent()'') (\<lambda>_.
           MarkSpanAsWaitingForParent sp w)))))))"

section \<open>Starting spans\<close>

text \<open>
  What the template arguments of the \<open>StartSpan\<close> family select: the class with its
  initial members, the source id and the service name.
\<close>

record span_args =
  sa_data :: span_data
  sa_source_id :: u64
  sa_service_name :: string

text \<open>\<open>create_shared\<close> of the span class and the first \<open>AddToSpan\<close>.\<close>

definition create_span ::
  "TraceEnvironment \<Rightarrow> ctx_addr \<Rightarrow> event \<Rightarrow> span_args \<Rightarrow> 'x world \<Rightarrow> (u64 \<times> 'x world) res"
where
  "create_span env a starting_event args w =
     rbind (EventSpan_new (Some a) (sa_source_id args) (sa_service_name args)
              (h_counters (w_heap w))) (\<lambda>(s, c).
     rbind (AddToSpan env (Some starting_event) (s, sa_data args)) (\<lambda>(was_added, sp).
     rbind (throw_on (\<not> was_added) ''could not add first event'') (\<lambda>_.
       Inr (sp_id s, put_span (sp_id s) sp (w\<lparr>w_heap := (w_heap w)\<lparr>h_counters := c\<rparr>\<rparr>)))))"

definition StartSpanByParentInternal ::
  "TraceEnvironment \<Rightarrow> u64 \<Rightarrow> u64 \<Rightarrow> u64 \<Rightarrow> event \<Rightarrow> span_args \<Rightarrow> 'x world \<Rightarrow>
    (u64 \<times> 'x world) res"
where
  "StartSpanByParentInternal env trace_id parent_id parent_starting_ts starting_event args w =
     rbind (throw_on_false (IsValidId trace_id) ''Invalid Identifier'') (\<lambda>_.
     rbind (throw_on_false (IsValidId parent_id) ''Invalid Identifier'') (\<lambda>_.
     rbind (RegisterCreateContextParent trace_id parent_id parent_starting_ts w) (\<lambda>(a, w1).
     rbind (create_span env a starting_event args w1) (\<lambda>(sp, w2).
     rbind (AddSpanToTraceIfTraceExists trace_id sp w2) (\<lambda>w3.
       Inr (sp, w3))))))"

definition StartSpanInternal ::
  "TraceEnvironment \<Rightarrow> event \<Rightarrow> span_args \<Rightarrow> 'x world \<Rightarrow> (u64 \<times> 'x world) res"
where
  "StartSpanInternal env starting_event args w =
     (case take_trace_id w of
        (trace_id, w1) \<Rightarrow>
          (case RegisterCreateContext trace_id w1 of
             (a, w2) \<Rightarrow>
               rbind (create_span env a starting_event args w2) (\<lambda>(sp, w3).
               rbind (Trace_new trace_id sp) (\<lambda>new_trace.
               rbind (InsertTrace new_trace w3) (\<lambda>w4.
                 Inr (sp, w4))))))"

definition StartSpan ::
  "TraceEnvironment \<Rightarrow> event option \<Rightarrow> span_args \<Rightarrow> 'x world \<Rightarrow> (u64 \<times> 'x world) res"
where
  "StartSpan env starting_event args w =
     rbind (throw_if_empty starting_event ''StartSpan(...) starting_event is null'') (\<lambda>e.
       StartSpanInternal env e args w)"

definition StartSpanByParent ::
  "TraceEnvironment \<Rightarrow> u64 option \<Rightarrow> event option \<Rightarrow> span_args \<Rightarrow> 'x world \<Rightarrow>
    (u64 \<times> 'x world) res"
where
  "StartSpanByParent env parent_span starting_event args w =
     rbind (throw_if_empty starting_event ''Event is null'') (\<lambda>e.
     rbind (throw_if_empty parent_span ''Span is null'') (\<lambda>p.
     rbind (get_span p (w_heap w)) (\<lambda>(ps, _).
     rbind (GetValidTraceId (w_heap w) ps) (\<lambda>trace_id.
     rbind (GetValidId ps) (\<lambda>parent_id.
       StartSpanByParentInternal env trace_id parent_id (GetStartingTs ps) e args w)))))"

definition StartSpanByParentPassOnContext ::
  "TraceEnvironment \<Rightarrow> Context option \<Rightarrow> event option \<Rightarrow> span_args \<Rightarrow> 'x world \<Rightarrow>
    (u64 \<times> 'x world) res"
where
  "StartSpanByParentPassOnContext env parent_context starting_event args w =
     rbind (throw_if_empty parent_context ''context is null'') (\<lambda>con.
     rbind (throw_if_empty starting_event ''Event is null'') (\<lambda>e.
     rbind (throw_on_false (Context_HasParent con) ''Context has no parent'') (\<lambda>_.
       StartSpanByParentInternal env (cx_trace_id con) (cx_parent_id con)
         (cx_parent_start_ts con) e args w)))"

definition StartSpanSetParentContext ::
  "u64 \<Rightarrow> Context option \<Rightarrow> 'x world \<Rightarrow> 'x world res"
where
  "StartSpanSetParentContext span_to_register parent_context w =
     rbind (throw_if_empty parent_context ''context is null'') (\<lambda>con.
     rbind (RegisterCreateContextParent (cx_trace_id con) (cx_parent_id con)
              (cx_parent_start_ts con) w) (\<lambda>(a, w1).
     rbind (get_span span_to_register (w_heap w1)) (\<lambda>(s, d).
     rbind (SetContext (w_heap w1) (Some a) True s) (\<lambda>(could_set, s').
     rbind (throw_on_false could_set ''StartSpanSetParentContext could not set context'') (\<lambda>_.
       AddSpanToTraceIfTraceExists (cx_trace_id con) span_to_register
         (put_span span_to_register (s', d) w1))))))"

definition StartOrphanSpan ::
  "TraceEnvironment \<Rightarrow> event option \<Rightarrow> span_args \<Rightarrow> 'x world \<Rightarrow> (u64 \<times> 'x world) res"
where
  "StartOrphanSpan env starting_event args w =
     rbind (throw_if_empty starting_event ''StartOrphanSpan(...) starting_event is null'') (\<lambda>e.
       case alloc_ctx (TraceContext_root kInvalidId kInvalidId) w of
         (a, w1) \<Rightarrow> create_span env a e args w1)"

text \<open>\<open>CloneShared\<close>: a shallow copy with an id of its own, sharing the context.\<close>

definition CloneShared :: "u64 \<Rightarrow> 'x world \<Rightarrow> (u64 \<times> 'x world) res" where
  "CloneShared other w =
     rbind (get_span other (w_heap w)) (\<lambda>(s, d).
       case EventSpan_copy s (h_counters (w_heap w)) of
         (s', c) \<Rightarrow>
           Inr (sp_id s', put_span (sp_id s') (s', d) (w\<lparr>w_heap := (w_heap w)\<lparr>h_counters := c\<rparr>\<rparr>)))"

section \<open>Adding a parent to the root of a trace\<close>

definition move_to_trace :: "u64 \<Rightarrow> u64 \<Rightarrow> 'x world \<Rightarrow> 'x world res" where
  "move_to_trace new_trace_id child w =
     rbind (get_span child (w_heap w)) (\<lambda>(s, _).
     rbind (or_undefined (sp_trace_context s) ''GetContext()->'') (\<lambda>a.
     rbind (get_ctx a (w_heap w)) (\<lambda>c.
       AddSpanToTraceIfTraceExists new_trace_id child
         (put_ctx a (SetTraceId new_trace_id c) w))))"

primrec move_children :: "u64 \<Rightarrow> u64 \<Rightarrow> u64 list \<Rightarrow> 'x world \<Rightarrow> 'x world res" where
  "move_children new_trace_id sp [] w = Inr w"
| "move_children new_trace_id sp (child # children) w =
     (if child = sp then move_children new_trace_id sp children w
      else rbind (move_to_trace new_trace_id child w) (move_children new_trace_id sp children))"

definition AddParentLazily :: "u64 option \<Rightarrow> Context option \<Rightarrow> 'x world \<Rightarrow> 'x world res" where
  "AddParentLazily sp_ptr parent_context w =
     rbind (throw_if_empty sp_ptr ''Span is null'') (\<lambda>sp.
     rbind (throw_if_empty parent_context ''context is null'') (\<lambda>con.
     rbind (get_span sp (w_heap w)) (\<lambda>(s, _).
     rbind (throw_if_empty (sp_trace_context s) ''context is null'') (\<lambda>a.
     rbind (get_ctx a (w_heap w)) (\<lambda>old_context.
     rbind (throw_if_empty (GetTrace (tc_trace_id old_context) w) ''Trace is null'') (\<lambda>_.
     rbind (SetParentIdAndTs (cx_parent_id con) (cx_parent_start_ts con)
              (SetTraceId (cx_trace_id con) old_context)) (\<lambda>new_context.
     rbind (AddSpanToTraceIfTraceExists (cx_trace_id con) sp (put_ctx a new_context w)) (\<lambda>w1.
     rbind (or_undefined (GetTrace (tc_trace_id old_context) w1) ''old_trace'') (\<lambda>old_trace.
       case GetSpansAndRemoveSpans old_trace of
         (children, emptied) \<Rightarrow>
           rbind (move_children (cx_trace_id con) sp children
                    (put_trace (tc_trace_id old_context) emptied w1)) (\<lambda>w2.
             RemoveTrace (tr_ident old_trace) w2))))))))))"

end
