(* ===== verification/TracerSafety.thy ===== *)
theory TracerSafety
  imports Tracer
begin

text \<open>
  The tracer's export discipline: the state invariant, the recursion through the waiting
  list (which exports exactly the waiting descendants, parents first, within its fuel), and
  the preservation of the invariant by every operation. The span exporter is the interface
  \<open>span_exporter\<close>: what the tracer calls, and what an exporter promises in return.
\<close>

section \<open>Vocabulary\<close>

definition span_ok :: "heap \<Rightarrow> u64 \<Rightarrow> bool" where
  "span_ok h i =
     (case h_spans h i of
        None \<Rightarrow> False
      | Some (s, d) \<Rightarrow>
          (case sp_trace_context s of
             None \<Rightarrow> False
           | Some a \<Rightarrow> a < length (h_contexts h) \<and> ctx_consistent (h_contexts h ! a)))"

definition parent_of :: "heap \<Rightarrow> u64 \<Rightarrow> u64 option" where
  "parent_of h i =
     (case h_spans h i of
        None \<Rightarrow> None
      | Some (s, d) \<Rightarrow>
          (case sp_trace_context s of
             None \<Rightarrow> None
           | Some a \<Rightarrow>
               if a < length (h_contexts h) \<and> tc_has_parent (h_contexts h ! a)
               then Some (tc_parent_id (h_contexts h ! a)) else None))"

text \<open>Every id comes after its parent, or the parent is among the given ones.\<close>

fun parents_first :: "heap \<Rightarrow> u64 set \<Rightarrow> u64 list \<Rightarrow> bool" where
  "parents_first h S [] = True"
| "parents_first h S (x # xs) =
     ((case parent_of h x of None \<Rightarrow> True | Some p \<Rightarrow> p \<in> S) \<and> parents_first h (insert x S) xs)"

definition waiting_ok :: "heap \<Rightarrow> (u64 \<times> u64 list) list \<Rightarrow> bool" where
  "waiting_ok h wl =
     (distinct (map fst wl) \<and>
      (\<forall>(k, ws) \<in> set wl. distinct ws \<and> (\<forall>z \<in> set ws. span_ok h z \<and> parent_of h z = Some k \<and> z \<noteq> 0)))"

definition waiters_set :: "(u64 \<times> u64 list) list \<Rightarrow> u64 set" where
  "waiters_set wl = (\<Union>(k, ws) \<in> set wl. set ws)"

definition done_spans :: "'x world \<Rightarrow> u64 set" where
  "done_spans w = set (w_exported w) \<union> waiters_set (w_waiting w)"

definition tracer_inv :: "'x world \<Rightarrow> bool" where
  "tracer_inv w =
     (waiting_ok (w_heap w) (w_waiting w) \<and>
      (\<forall>k \<in> set (map fst (w_waiting w)). k \<notin> set (w_exported w)) \<and>
      waiters_set (w_waiting w) \<inter> set (w_exported w) = {} \<and>
      distinct (w_exported w) \<and> (\<forall>i \<in> set (w_exported w). span_ok (w_heap w) i \<and> i \<noteq> 0) \<and>
      parents_first (w_heap w) {} (w_exported w))"

lemma parents_first_append:
  "parents_first h S (xs @ ys) \<longleftrightarrow> parents_first h S xs \<and> parents_first h (S \<union> set xs) ys"
  by (induction xs arbitrary: S) auto

lemma set_waiters_of: "set (waiters_of w) = waiters_set (w_waiting w)"
  by (auto simp: waiters_of_def waiters_set_def)

lemma waiters_set_iff: "z \<in> waiters_set wl \<longleftrightarrow> (\<exists>k ws. (k, ws) \<in> set wl \<and> z \<in> set ws)"
  by (auto simp: waiters_set_def)

lemma waiters_set_filter_subset: "waiters_set (filter P wl) \<subseteq> waiters_set wl"
  by (auto simp: waiters_set_def)

lemma finite_waiters_set [simp]: "finite (waiters_set wl)"
  by (auto simp: waiters_set_def)

lemma waiters_set_grow:
  assumes "(p, vs) \<in> set wl"
  shows "waiters_set (map (\<lambda>(k, ws). (k, if k = p then ws @ [i] else ws)) wl) =
         insert i (waiters_set wl)"
proof -
  have "waiters_set (map (\<lambda>(k, ws). (k, if k = p then ws @ [i] else ws)) wl) =
        (\<Union>(k, ws) \<in> set wl. if k = p then insert i (set ws) else set ws)"
    by (auto simp: waiters_set_def split: if_splits)
  also have "\<dots> = insert i (waiters_set wl)"
    using assms unfolding waiters_set_def by (auto split: if_splits)
  finally show ?thesis .
qed

lemma waiting_ok_filter: "waiting_ok h wl \<Longrightarrow> waiting_ok h (filter P wl)"
  by (auto simp: waiting_ok_def distinct_map_filter)

lemma waiting_okD:
  assumes "waiting_ok h wl" and "(k, ws) \<in> set wl"
  shows "distinct ws" and "z \<in> set ws \<Longrightarrow> span_ok h z \<and> parent_of h z = Some k \<and> z \<noteq> 0"
  using assms by (auto simp: waiting_ok_def)

lemma waiting_ok_grow:
  assumes "waiting_ok h wl" and "span_ok h i" and "i \<noteq> 0" and "parent_of h i = Some p"
    and "i \<notin> waiters_set wl"
  shows "waiting_ok h (map (\<lambda>(k, ws). (k, if k = p then ws @ [i] else ws)) wl)"
proof -
  have "map fst (map (\<lambda>(k, ws). (k, if k = p then ws @ [i] else ws)) wl) = map fst wl" by auto
  moreover have "distinct (if k = p then ws @ [i] else ws) \<and>
      (\<forall>z \<in> set (if k = p then ws @ [i] else ws). span_ok h z \<and> parent_of h z = Some k \<and> z \<noteq> 0)"
    if "(k, ws) \<in> set wl" for k ws
  proof -
    have "i \<notin> set ws" using that assms(5) by (auto simp: waiters_set_iff)
    then show ?thesis using assms(2-4) waiting_okD[OF assms(1) that] by auto
  qed
  ultimately show ?thesis
    using assms unfolding waiting_ok_def by (simp add: case_prod_unfold comp_def)
qed

lemma waiting_ok_new:
  assumes "waiting_ok h wl" and "span_ok h i" and "i \<noteq> 0" and "parent_of h i = Some p"
    and "map_of wl p = None"
  shows "waiting_ok h ((p, [i]) # wl)"
  using assms by (auto simp: waiting_ok_def map_of_eq_None_iff)

lemma waiting_ok_map_of:
  assumes "waiting_ok h wl"
  shows "map_of wl k = Some ws \<longleftrightarrow> (k, ws) \<in> set wl"
  using assms by (auto simp: waiting_ok_def dest: map_of_SomeD)

subsection \<open>The reads of a well-formed span succeed\<close>

lemma span_okE:
  assumes "span_ok h i"
  obtains s d a where "h_spans h i = Some (s, d)" "sp_trace_context s = Some a"
    "a < length (h_contexts h)" "ctx_consistent (h_contexts h ! a)"
  using assms by (auto simp: span_ok_def split: option.splits)

lemma span_ok_reads:
  assumes "span_ok h i"
  shows "\<exists>s d a c. get_span i h = Inr (s, d) \<and> sp_trace_context s = Some a \<and> get_ctx a h = Inr c \<and>
     HasParent h s = Inr (parent_of h i \<noteq> None) \<and>
     GetParentId h s = Inr (case parent_of h i of None \<Rightarrow> 0 | Some p \<Rightarrow> p) \<and>
     (\<forall>p. parent_of h i = Some p \<longrightarrow> GetValidParentId h s = Inr p \<and> p \<noteq> 0)"
  using assms
  by (elim span_okE)
     (auto simp: get_span_def get_ctx_def HasParent_def GetParentId_def GetValidParentId_def
        ctx_HasParent_def parent_of_def ctx_consistent_def IsValidId_def kInvalidId_def)

lemma WasParentExported_ok:
  assumes "span_ok (w_heap w) i"
  shows "WasParentExported i w =
    Inr (case parent_of (w_heap w) i of None \<Rightarrow> True | Some p \<Rightarrow> p \<in> set (w_exported w))"
  using span_ok_reads[OF assms] by (auto simp: WasParentExported_def split: option.splits)

lemma assert_parent_exported_ok:
  assumes "span_ok (w_heap w) i"
    and "case parent_of (w_heap w) i of None \<Rightarrow> True | Some p \<Rightarrow> p \<in> set (w_exported w)"
  shows "assert_parent_exported i w = Inr ()"
  using span_ok_reads[OF assms(1)] assms(2)
  by (auto simp: assert_parent_exported_def split: option.splits)

lemma MarkSpanAsExported_ok:
  assumes "i \<noteq> 0" and "i \<notin> set (w_exported w)"
  shows "MarkSpanAsExported i w = Inr (w\<lparr>w_exported := w_exported w @ [i]\<rparr>)"
  using assms by (simp add: MarkSpanAsExported_def InsertExportedSpan_def IsValidId_def kInvalidId_def)

section \<open>The exporter interface\<close>

text \<open>
  \<open>known x ids\<close> relates an exporter state to the spans exported so far. The promise: a
  well-formed, exportable span with a fresh valid id whose parent is known is exported
  without failing, and becomes known.
\<close>

locale span_exporter =
  fixes xp :: "'x exporter"
    and known :: "'x \<Rightarrow> u64 list \<Rightarrow> bool"
    and exportable :: "span \<Rightarrow> bool"
  assumes exports:
    "\<lbrakk>known x ids; span_ok h i; h_spans h i = Some s; sp_id (fst s) = i; exportable s; i \<noteq> 0;
      i \<notin> set ids;
      case parent_of h i of None \<Rightarrow> True | Some p \<Rightarrow> p \<in> set ids\<rbrakk> \<Longrightarrow>
     \<exists>x'. xp h i x = Inr x' \<and> known x' (ids @ [i])"
begin

definition may_export :: "heap \<Rightarrow> u64 \<Rightarrow> bool" where
  "may_export h i = (\<exists>s. h_spans h i = Some s \<and> sp_id (fst s) = i \<and> exportable s)"

text \<open>The ids one call exports: waiting descendants of the roots, parents first, all of them.\<close>

definition batch :: "heap \<Rightarrow> (u64 \<times> u64 list) list \<Rightarrow> u64 set \<Rightarrow> u64 \<Rightarrow> u64 list \<Rightarrow> bool" where
  "batch h wl E p new =
     (set new \<subseteq> waiters_set wl - E \<and> distinct new \<and> parents_first h E new \<and>
      (\<forall>z \<in> set new. \<exists>q. parent_of h z = Some q \<and> q \<in> insert p (set new)) \<and>
      (\<forall>k \<in> set new. \<forall>ws. (k, ws) \<in> set wl \<longrightarrow> set ws \<subseteq> set new))"

definition closed_waiting :: "(u64 \<times> u64 list) list \<Rightarrow> u64 set \<Rightarrow> bool" where
  "closed_waiting wl E = (\<forall>(k, ws) \<in> set wl. k \<notin> E \<longrightarrow> set ws \<inter> E = {})"

lemma call_exporter_ok:
  assumes "span_ok (w_heap w) i" and "may_export (w_heap w) i" and "i \<noteq> 0"
    and "known (w_exporter w) ids" and "i \<notin> set ids"
    and "case parent_of (w_heap w) i of None \<Rightarrow> True | Some p \<Rightarrow> p \<in> set ids"
  shows "\<exists>x'. call_exporter xp i w = Inr (w\<lparr>w_exporter := x'\<rparr>) \<and> known x' (ids @ [i])"
proof -
  obtain s where s: "h_spans (w_heap w) i = Some s" "sp_id (fst s) = i" "exportable s"
    using assms(2) by (auto simp: may_export_def)
  obtain x' where "xp (w_heap w) i (w_exporter w) = Inr x'" "known x' (ids @ [i])"
    using exports[OF assms(4,1) s assms(3,5,6)] by blast
  then show ?thesis by (auto simp: call_exporter_def)
qed

lemma export_waiter_ok:
  assumes "span_ok (w_heap w) z" and "may_export (w_heap w) z" and "z \<noteq> 0"
    and "parent_of (w_heap w) z = Some p" and "p \<in> set (w_exported w)"
    and "z \<notin> set (w_exported w)" and "known (w_exporter w) (w_exported w)"
  shows "\<exists>x'. export_waiter xp z w =
             Inr (w\<lparr>w_exported := w_exported w @ [z], w_exporter := x'\<rparr>) \<and>
           known x' (w_exported w @ [z])"
proof -
  let ?w1 = "w\<lparr>w_exported := w_exported w @ [z]\<rparr>"
  obtain s d where s: "get_span z (w_heap w) = Inr (s, d)" "GetValidParentId (w_heap w) s = Inr p"
    using span_ok_reads[OF assms(1)] assms(4) by auto
  have "assert_parent_exported z ?w1 = Inr ()"
    using assert_parent_exported_ok[of ?w1 z] assms(1,4,5) by simp
  moreover obtain x' where "call_exporter xp z ?w1 = Inr (?w1\<lparr>w_exporter := x'\<rparr>)"
      "known x' (w_exported w @ [z])"
    using call_exporter_ok[of ?w1 z "w_exported w"] assms by auto
  ultimately show ?thesis
    using s assms(5) MarkSpanAsExported_ok[OF assms(3,6)] by (auto simp: export_waiter_def)
qed

lemma batch_Cons:
  assumes wl: "waiting_ok h wl"
    and z: "z \<in> waiters_set wl" "z \<notin> E" "parent_of h z = Some p" "p \<in> E"
    and first: "batch h wl (insert z E) z newz" "\<forall>ws. (z, ws) \<in> set wl \<longrightarrow> set ws \<subseteq> set newz"
    and rest: "batch h (filter (\<lambda>(k, _). k \<noteq> z \<and> k \<notin> set newz) wl)
                 (insert z E \<union> set newz) p newr"
  shows "batch h wl E p (z # newz @ newr)"
proof -
  let ?wl = "filter (\<lambda>(k, _). k \<noteq> z \<and> k \<notin> set newz) wl"
  let ?new = "z # newz @ newr"
  have sub: "set newr \<subseteq> waiters_set wl - (insert z E \<union> set newz)"
    using rest waiters_set_filter_subset[of _ wl] by (fastforce simp: batch_def)
  have "distinct ?new" using first(1) rest sub by (auto simp: batch_def)
  moreover have "set ?new \<subseteq> waiters_set wl - E"
    using z first(1) sub by (auto simp: batch_def)
  moreover have "parents_first h E ?new"
    using z first(1) rest by (simp add: batch_def parents_first_append)
  moreover have "\<forall>y \<in> set ?new. \<exists>q. parent_of h y = Some q \<and> q \<in> insert p (set ?new)"
    using z(3) first(1) rest by (fastforce simp: batch_def)
  moreover have "set ws \<subseteq> set ?new" if "k \<in> set ?new" "(k, ws) \<in> set wl" for k ws
  proof (cases "k \<in> set newr")
    case True
    then have "(k, ws) \<in> set ?wl" using that sub by auto
    moreover have "\<forall>k \<in> set newr. \<forall>ws. (k, ws) \<in> set ?wl \<longrightarrow> set ws \<subseteq> set newr"
      using rest unfolding batch_def by blast
    ultimately show ?thesis using True by auto
  next
    case False
    then have "set ws \<subseteq> set newz"
      using that first unfolding batch_def by (metis Un_iff set_ConsD set_append)
    then show ?thesis by auto
  qed
  ultimately show ?thesis unfolding batch_def by blast
qed

text \<open>Siblings of \<open>z\<close>, and the waiters of other keys, are not among what \<open>z\<close> releases.\<close>

lemma batch_disjoint:
  assumes "batch h wl (insert z E) z newz" and "parent_of h y = Some q"
    and "q \<noteq> z" and "q \<notin> set newz"
  shows "y \<notin> set newz"
  using assms by (fastforce simp: batch_def)

lemma closed_waiting_step:
  assumes wl: "waiting_ok h wl" and closed: "closed_waiting wl E"
    and b: "batch h wl (insert z E) z newz" and par: "parent_of h z = Some p" "p \<in> E"
  shows "closed_waiting (filter (\<lambda>(k, _). k \<noteq> z \<and> k \<notin> set newz) wl) (insert z E \<union> set newz)"
proof (clarsimp simp: closed_waiting_def)
  fix k ws
  assume k: "(k, ws) \<in> set wl" "k \<noteq> z" "k \<notin> set newz" "k \<notin> E"
  have "z \<notin> set ws" using waiting_okD(2)[OF wl k(1)] par k(4) by auto
  moreover have "set ws \<inter> E = {}" using closed k by (auto simp: closed_waiting_def)
  moreover have "y \<notin> set newz" if "y \<in> set ws" for y
    using batch_disjoint[OF b] waiting_okD(2)[OF wl k(1) that] k by blast
  ultimately show "z \<notin> set ws \<and> set ws \<inter> (E \<union> set newz) = {}" by blast
qed

lemma fewer_waiters:
  assumes "z \<in> waiters_set wl" and "z \<notin> E" and "card (waiters_set wl - E) < Suc n"
  shows "card (waiters_set wl - insert z E) < n"
    and "card (waiters_set (filter Q wl) - (insert z E \<union> F)) < Suc n"
proof -
  have "waiters_set wl - insert z E \<subset> waiters_set wl - E" using assms(1,2) by blast
  then have "card (waiters_set wl - insert z E) < card (waiters_set wl - E)"
    by (rule psubset_card_mono[rotated]) simp
  then show "card (waiters_set wl - insert z E) < n" using assms(3) by simp
  have "waiters_set (filter Q wl) - (insert z E \<union> F) \<subseteq> waiters_set wl - E"
    using waiters_set_filter_subset[of _ wl] by blast
  then have "card (waiters_set (filter Q wl) - (insert z E \<union> F)) \<le> card (waiters_set wl - E)"
    by (rule card_mono[rotated]) simp
  then show "card (waiters_set (filter Q wl) - (insert z E \<union> F)) < Suc n" using assms(3) by simp
qed

lemma next_waiter:
  assumes "waiting_ok h wl" and "closed_waiting wl E" and "p \<in> E" and "parent_of h z = Some p" and "z \<notin> E"
  shows "closed_waiting wl (insert z E)" and "\<forall>vs. (z, vs) \<in> set wl \<longrightarrow> set vs \<inter> insert z E = {}"
proof -
  have apart: "z \<notin> set vs" if "(k, vs) \<in> set wl" "k \<notin> E" for k vs
    using waiting_okD(2)[OF assms(1) that(1), of z] assms(3,4) that(2) by auto
  have closedD: "set vs \<inter> E = {}" if "(k, vs) \<in> set wl" "k \<notin> E" for k vs
    using assms(2) that unfolding closed_waiting_def by blast
  show "closed_waiting wl (insert z E)" using apart closedD unfolding closed_waiting_def by blast
  show "\<forall>vs. (z, vs) \<in> set wl \<longrightarrow> set vs \<inter> insert z E = {}"
    using apart[OF _ assms(5)] closedD[OF _ assms(5)] by blast
qed

lemma export_recursion:
  "\<lbrakk>xq = xp; waiting_ok (w_heap w) (w_waiting w); \<forall>z \<in> waiters_set (w_waiting w). may_export (w_heap w) z;
    known (w_exporter w) (w_exported w); p \<in> set (w_exported w);
    closed_waiting (w_waiting w) (set (w_exported w));
    \<forall>ws. (p, ws) \<in> set (w_waiting w) \<longrightarrow> set ws \<inter> set (w_exported w) = {};
    card (waiters_set (w_waiting w) - set (w_exported w)) < n\<rbrakk> \<Longrightarrow>
   \<exists>new x'. ExportWaitingForParentVec n xq p w =
       Inr (w\<lparr>w_exported := w_exported w @ new,
              w_waiting := filter (\<lambda>(k, _). k \<noteq> p \<and> k \<notin> set new) (w_waiting w),
              w_exporter := x'\<rparr>) \<and>
     known x' (w_exported w @ new) \<and>
     batch (w_heap w) (w_waiting w) (set (w_exported w)) p new \<and>
     (\<forall>ws. (p, ws) \<in> set (w_waiting w) \<longrightarrow> set ws \<subseteq> set new)"
  "\<lbrakk>xq = xp; waiting_ok (w_heap w) (w_waiting w); \<forall>z \<in> waiters_set (w_waiting w). may_export (w_heap w) z;
    known (w_exporter w) (w_exported w); p \<in> set (w_exported w);
    closed_waiting (w_waiting w) (set (w_exported w));
    distinct zs; (p, ws) \<in> set (w_waiting w); set zs \<subseteq> set ws; set zs \<inter> set (w_exported w) = {};
    card (waiters_set (w_waiting w) - set (w_exported w)) < Suc n\<rbrakk> \<Longrightarrow>
   \<exists>new x'. ExportWaiters n xq zs w =
       Inr (w\<lparr>w_exported := w_exported w @ new,
              w_waiting := filter (\<lambda>(k, _). k \<notin> set new) (w_waiting w),
              w_exporter := x'\<rparr>) \<and>
     known x' (w_exported w @ new) \<and>
     batch (w_heap w) (w_waiting w) (set (w_exported w)) p new \<and> set zs \<subseteq> set new"
proof (induction n xq p w and n xq zs w arbitrary: and p ws
    rule: ExportWaitingForParentVec_ExportWaiters.induct)
  case (2 n xq parent_id w)
  show ?case
  proof (cases "map_of (w_waiting w) parent_id")
    case None
    then have "parent_id \<notin> set (map fst (w_waiting w))" by (simp add: map_of_eq_None_iff)
    then have "filter (\<lambda>(k, _). k \<noteq> parent_id) (w_waiting w) = w_waiting w"
      "\<forall>ws. (parent_id, ws) \<notin> set (w_waiting w)"
      by (force simp: filter_id_conv)+
    then show ?thesis using None 2(5)
      by (intro exI[of _ "[]"] exI[of _ "w_exporter w"]) (simp add: batch_def)
  next
    case (Some ws)
    then have ws: "(parent_id, ws) \<in> set (w_waiting w)" by (rule map_of_SomeD)
    have uniq: "ws' = ws" if "(parent_id, ws') \<in> set (w_waiting w)" for ws'
      using that Some waiting_ok_map_of[OF 2(3), of parent_id ws'] by simp
    obtain new x' where r: "ExportWaiters n xp ws w =
       Inr (w\<lparr>w_exported := w_exported w @ new,
              w_waiting := filter (\<lambda>(k, _). k \<notin> set new) (w_waiting w),
              w_exporter := x'\<rparr>)"
      "known x' (w_exported w @ new)"
      "batch (w_heap w) (w_waiting w) (set (w_exported w)) parent_id new" "set ws \<subseteq> set new"
      using 2(1)[OF Some 2(2-7) waiting_okD(1)[OF 2(3) ws] ws] 2(2,8,9) ws by auto
    have "filter (\<lambda>(k, _). k \<noteq> parent_id) (filter (\<lambda>(k, _). k \<notin> set new) (w_waiting w)) =
          filter (\<lambda>(k, _). k \<noteq> parent_id \<and> k \<notin> set new) (w_waiting w)"
      by (auto intro!: filter_cong simp: case_prod_unfold)
    then show ?thesis using Some r uniq 2(2) by (intro exI[of _ new] exI[of _ x']) auto
  qed
next
  case (3 n xq w)
  then show ?case
    by (intro exI[of _ "[]"] exI[of _ "w_exporter w"])
       (simp add: batch_def filter_id_conv case_prod_unfold)
next
  case (4 n xq z zs w)
  let ?h = "w_heap w" and ?wl = "w_waiting w" and ?E = "set (w_exported w)"
  note wl = 4(4) and closed = 4(8)
  have z: "span_ok ?h z" "parent_of ?h z = Some p" "z \<noteq> 0" "z \<in> waiters_set ?wl" "z \<notin> ?E"
    using waiting_okD(2)[OF wl 4(10), of z] 4(10,11,12) by (auto simp: waiters_set_iff)
  obtain x1 where s1: "export_waiter xp z w =
      Inr (w\<lparr>w_exported := w_exported w @ [z], w_exporter := x1\<rparr>)" "known x1 (w_exported w @ [z])"
    using export_waiter_ok[OF z(1) _ z(3,2) 4(7) z(5) 4(6)] 4(5) z(4) by blast
  let ?w1 = "w\<lparr>w_exported := w_exported w @ [z], w_exporter := x1\<rparr>"
  have card1: "card (waiters_set ?wl - insert z ?E) < n" by (rule fewer_waiters(1)[OF z(4,5) 4(13)])
  note next_z = next_waiter[OF wl closed 4(7) z(2,5)]
  obtain newz x2 where s2: "ExportWaitingForParentVec n xp z ?w1 =
      Inr (w\<lparr>w_exported := w_exported w @ z # newz,
             w_waiting := filter (\<lambda>(k, _). k \<noteq> z \<and> k \<notin> set newz) ?wl, w_exporter := x2\<rparr>)"
    "known x2 (w_exported w @ z # newz)" "batch ?h ?wl (insert z ?E) z newz"
    "\<forall>vs. (z, vs) \<in> set ?wl \<longrightarrow> set vs \<subseteq> set newz"
    using 4(1)[OF 4(3), of ?w1] 4(3) wl 4(5) s1(2) next_z card1 by auto
  let ?wl2 = "filter (\<lambda>(k, _). k \<noteq> z \<and> k \<notin> set newz) ?wl"
  let ?w2 = "w\<lparr>w_exported := w_exported w @ z # newz, w_waiting := ?wl2, w_exporter := x2\<rparr>"
  have newz: "set newz \<subseteq> waiters_set ?wl - insert z ?E" using s2(3) by (simp add: batch_def)
  have p2: "p \<noteq> z" "p \<notin> set newz" using 4(7) z(5) newz by auto
  have rest: "y \<notin> set newz" if "y \<in> set zs" for y
    using batch_disjoint[OF s2(3), of y p] waiting_okD(2)[OF wl 4(10), of y] that 4(11) p2 by auto
  have card2: "card (waiters_set ?wl2 - (insert z ?E \<union> set newz)) < Suc n"
    by (rule fewer_waiters(2)[OF z(4,5) 4(13)])
  obtain newr x3 where s3: "ExportWaiters n xp zs ?w2 =
      Inr (w\<lparr>w_exported := (w_exported w @ z # newz) @ newr,
             w_waiting := filter (\<lambda>(k, _). k \<notin> set newr) ?wl2, w_exporter := x3\<rparr>)"
    "known x3 ((w_exported w @ z # newz) @ newr)"
    "batch ?h ?wl2 (insert z ?E \<union> set newz) p newr" "set zs \<subseteq> set newr"
  proof -
    have "\<forall>y \<in> waiters_set ?wl2. may_export ?h y" using 4(5) waiters_set_filter_subset by blast
    moreover have "closed_waiting ?wl2 (insert z ?E \<union> set newz)"
      by (rule closed_waiting_step[OF wl closed s2(3) z(2) 4(7)])
    ultimately show ?thesis
      using 4(2)[OF 4(3), of ?w2 p ws] 4(3) waiting_ok_filter[OF wl] s2(2) 4(7,9,10,11,12) p2 rest
        card2 that by fastforce
  qed
  have "filter (\<lambda>(k, _). k \<notin> set newr) ?wl2 = filter (\<lambda>(k, _). k \<notin> set (z # newz @ newr)) ?wl"
    by (auto intro!: filter_cong simp: case_prod_unfold)
  moreover have "batch ?h ?wl ?E p (z # newz @ newr)"
    by (rule batch_Cons[OF wl z(4,5,2) 4(7) s2(3,4) s3(3)])
  ultimately show ?case
    using s1(1) s2(1) s3 4(3) by (intro exI[of _ "z # newz @ newr"] exI[of _ x3]) auto
qed simp

subsection \<open>Finishing a span\<close>

definition exporter_inv :: "'x world \<Rightarrow> bool" where
  "exporter_inv w =
     (tracer_inv w \<and> known (w_exporter w) (w_exported w) \<and>
      (\<forall>z \<in> waiters_set (w_waiting w). may_export (w_heap w) z))"

lemma delete_trace_if_safe_ok:
  "\<exists>tr. delete_trace_if_safe t w = Inr (w\<lparr>w_traces := tr\<rparr>)"
proof (cases "GetTrace t w \<noteq> None \<and> SafeToDeleteTrace t w")
  case True
  then show ?thesis by (auto simp: delete_trace_if_safe_def RemoveTrace_def GetTrace_def)
next
  case False
  then have "delete_trace_if_safe t w = Inr (w\<lparr>w_traces := w_traces w\<rparr>)"
    by (auto simp: delete_trace_if_safe_def)
  then show ?thesis by blast
qed

lemma batch_waiters_disjoint:
  assumes "waiting_ok h wl" and "batch h wl E i new" and "(k, ws) \<in> set wl"
    and "k \<noteq> i" and "k \<notin> set new"
  shows "set ws \<inter> set new = {}"
  using assms waiting_okD(2)[OF assms(1,3)] by (fastforce simp: batch_def)

lemma exported_state_inv:
  assumes inv: "exporter_inv w" and i: "span_ok (w_heap w) i" "i \<noteq> 0" "i \<notin> done_spans w"
    and par: "case parent_of (w_heap w) i of None \<Rightarrow> True | Some p \<Rightarrow> p \<in> set (w_exported w)"
    and b: "batch (w_heap w) (w_waiting w) (insert i (set (w_exported w))) i new"
    and closed: "\<forall>ws. (i, ws) \<in> set (w_waiting w) \<longrightarrow> set ws \<subseteq> set new"
    and known: "known x (w_exported w @ i # new)"
    and w': "w' = w\<lparr>w_exported := w_exported w @ i # new,
               w_waiting := filter (\<lambda>(k, _). k \<noteq> i \<and> k \<notin> set new) (w_waiting w),
               w_exporter := x, w_traces := tr\<rparr>"
  shows "exporter_inv w' \<and> done_spans w' = insert i (done_spans w)"
proof -
  let ?wl = "w_waiting w" and ?wl' = "filter (\<lambda>(k, _). k \<noteq> i \<and> k \<notin> set new) (w_waiting w)"
  have wl: "waiting_ok (w_heap w) ?wl" and ti: "tracer_inv w"
    using inv by (simp_all add: exporter_inv_def tracer_inv_def)
  have new: "set new \<subseteq> waiters_set ?wl" "distinct new" "i \<notin> set new"
      "set new \<inter> set (w_exported w) = {}"
      "parents_first (w_heap w) (insert i (set (w_exported w))) new"
    using b by (auto simp: batch_def)
  have sub: "waiters_set ?wl' \<subseteq> waiters_set ?wl" by (rule waiters_set_filter_subset)
  have disj: "waiters_set ?wl' \<inter> set new = {}"
    using batch_waiters_disjoint[OF wl b] by (fastforce simp: waiters_set_def)
  have ok: "span_ok (w_heap w) z \<and> z \<noteq> 0" if "z \<in> waiters_set ?wl" for z
    using that waiting_okD(2)[OF wl] by (auto simp: waiters_set_iff)
  have ok_new: "\<forall>z \<in> set new. span_ok (w_heap w) z \<and> z \<noteq> 0" using new(1) ok by blast
  have "tracer_inv w'"
    using ti wl i par new sub disj ok_new waiting_ok_filter[OF wl]
    by (auto simp: tracer_inv_def w' parents_first_append done_spans_def)
  moreover have "\<forall>z \<in> waiters_set ?wl'. may_export (w_heap w) z"
    using inv sub by (auto simp: exporter_inv_def)
  moreover have "waiters_set ?wl \<subseteq> set new \<union> waiters_set ?wl'"
  proof
    fix z assume "z \<in> waiters_set ?wl"
    then obtain k ws where k: "(k, ws) \<in> set ?wl" "z \<in> set ws" by (auto simp: waiters_set_iff)
    show "z \<in> set new \<union> waiters_set ?wl'"
    proof (cases "k = i \<or> k \<in> set new")
      case True
      then have "set ws \<subseteq> set new" using k(1) closed b unfolding batch_def by blast
      then show ?thesis using k(2) by auto
    next
      case False
      then show ?thesis using k by (force simp: waiters_set_iff)
    qed
  qed
  ultimately show ?thesis
    using known new(1) sub by (auto simp: exporter_inv_def w' done_spans_def)
qed

lemma MarkSpanAsDone_export:
  assumes inv: "exporter_inv w" and i: "span_ok (w_heap w) i" "i \<noteq> 0" "i \<notin> done_spans w"
    and exp: "may_export (w_heap w) i"
    and par: "case parent_of (w_heap w) i of None \<Rightarrow> True | Some p \<Rightarrow> p \<in> set (w_exported w)"
  shows "\<exists>w' new. MarkSpanAsDone xp (Some i) w = Inr w' \<and> exporter_inv w' \<and>
           w_heap w' = w_heap w \<and> done_spans w' = insert i (done_spans w) \<and>
           w_exported w' = w_exported w @ i # new \<and>
           batch (w_heap w) (w_waiting w) (insert i (set (w_exported w))) i new \<and>
           (\<forall>ws. (i, ws) \<in> set (w_waiting w) \<longrightarrow> set ws \<subseteq> set new)"
proof -
  let ?w1 = "w\<lparr>w_exported := w_exported w @ [i]\<rparr>"
  have ti: "tracer_inv w" and kn: "known (w_exporter w) (w_exported w)"
    and may: "\<forall>z \<in> waiters_set (w_waiting w). may_export (w_heap w) z"
    using inv by (simp_all add: exporter_inv_def)
  have ni: "i \<notin> set (w_exported w)" "i \<notin> waiters_set (w_waiting w)"
    using i(3) by (simp_all add: done_spans_def)
  obtain x1 where s1: "call_exporter xp i ?w1 = Inr (?w1\<lparr>w_exporter := x1\<rparr>)"
      "known x1 (w_exported w @ [i])"
    using call_exporter_ok[of ?w1 i "w_exported w"] i exp kn par ni by auto
  let ?w2 = "?w1\<lparr>w_exporter := x1\<rparr>"
  have card: "card (waiters_set (w_waiting ?w2) - set (w_exported ?w2)) < export_fuel ?w2"
  proof -
    have "card (waiters_set (w_waiting w) - insert i (set (w_exported w))) \<le>
        card (set (waiters_of w))"
      by (rule card_mono) (auto simp: set_waiters_of)
    then show ?thesis using card_length[of "waiters_of w"]
      by (simp add: export_fuel_def waiters_of_def)
  qed
  have closed: "closed_waiting (w_waiting w) (insert i (set (w_exported w)))"
    using ti ni unfolding closed_waiting_def tracer_inv_def waiters_set_def by blast
  have own: "\<forall>ws. (i, ws) \<in> set (w_waiting w) \<longrightarrow> set ws \<inter> insert i (set (w_exported w)) = {}"
    using ti ni unfolding tracer_inv_def waiters_set_def by blast
  obtain new x2 where s2: "ExportWaitingForParentVec (export_fuel ?w2) xp i ?w2 =
      Inr (w\<lparr>w_exported := w_exported w @ i # new,
             w_waiting := filter (\<lambda>(k, _). k \<noteq> i \<and> k \<notin> set new) (w_waiting w), w_exporter := x2\<rparr>)"
    "known x2 (w_exported w @ i # new)"
    "batch (w_heap w) (w_waiting w) (insert i (set (w_exported w))) i new"
    "\<forall>ws. (i, ws) \<in> set (w_waiting w) \<longrightarrow> set ws \<subseteq> set new"
    using export_recursion(1)[OF refl, of ?w2 i "export_fuel ?w2"] ti may s1(2) closed own card
    by (auto simp: tracer_inv_def)
  let ?w3 = "w\<lparr>w_exported := w_exported w @ i # new,
             w_waiting := filter (\<lambda>(k, _). k \<noteq> i \<and> k \<notin> set new) (w_waiting w), w_exporter := x2\<rparr>"
  obtain s d a c where s: "get_span i (w_heap w) = Inr (s, d)" "sp_trace_context s = Some a"
      "get_ctx a (w_heap w) = Inr c"
    using span_ok_reads[OF i(1)] by blast
  obtain tr where tr: "delete_trace_if_safe (tc_trace_id c) ?w3 = Inr (?w3\<lparr>w_traces := tr\<rparr>)"
    using delete_trace_if_safe_ok by blast
  have "WasParentExported i w = Inr True"
    using WasParentExported_ok[OF i(1)] par by (auto split: option.splits)
  moreover have "assert_parent_exported i ?w1 = Inr ()"
    using assert_parent_exported_ok[of ?w1 i] i(1) par by (auto split: option.splits)
  ultimately have "MarkSpanAsDone xp (Some i) w = Inr (?w3\<lparr>w_traces := tr\<rparr>)"
    using s s1(1) s2(1) tr MarkSpanAsExported_ok[OF i(2) ni(1)] by (simp add: MarkSpanAsDone_def)
  then show ?thesis
    using exported_state_inv[OF inv i par s2(3,4,2) refl, of tr] s2(3,4) by auto
qed

lemma MarkSpanAsDone_wait:
  assumes inv: "exporter_inv w" and i: "span_ok (w_heap w) i" "i \<noteq> 0" "i \<notin> done_spans w"
    and exp: "may_export (w_heap w) i"
    and par: "parent_of (w_heap w) i = Some p" "p \<notin> set (w_exported w)"
  shows "\<exists>w'. MarkSpanAsDone xp (Some i) w = Inr w' \<and> exporter_inv w' \<and>
           w_heap w' = w_heap w \<and> done_spans w' = insert i (done_spans w) \<and>
           w_exported w' = w_exported w \<and> i \<in> waiters_set (w_waiting w')"
proof -
  obtain s d a c where s: "get_span i (w_heap w) = Inr (s, d)" "sp_trace_context s = Some a"
      "get_ctx a (w_heap w) = Inr c" "HasParent (w_heap w) s = Inr True"
      "GetValidParentId (w_heap w) s = Inr p"
    using span_ok_reads[OF i(1)] par(1) by auto
  have was: "WasParentExported i w = Inr False"
    using WasParentExported_ok[OF i(1)] par by simp
  let ?grown = "map (\<lambda>(k, ws). (k, if k = p then ws @ [i] else ws)) (w_waiting w)"
  let ?wl = "case map_of (w_waiting w) p of None \<Rightarrow> (p, [i]) # w_waiting w | Some _ \<Rightarrow> ?grown"
  have run: "MarkSpanAsDone xp (Some i) w = Inr (w\<lparr>w_waiting := ?wl\<rparr>)"
    using s was by (auto simp: MarkSpanAsDone_def MarkSpanAsWaitingForParent_def split: option.splits)
  have ti: "tracer_inv w" and wl: "waiting_ok (w_heap w) (w_waiting w)"
    using inv by (simp_all add: exporter_inv_def tracer_inv_def)
  have ni: "i \<notin> waiters_set (w_waiting w)" "i \<notin> set (w_exported w)"
    using i(3) by (simp_all add: done_spans_def)
  have set_wl: "waiters_set ?wl = insert i (waiters_set (w_waiting w))"
  proof (cases "map_of (w_waiting w) p")
    case None
    then show ?thesis by (auto simp: waiters_set_def)
  next
    case (Some ws)
    then have "(p, ws) \<in> set (w_waiting w)" by (rule map_of_SomeD)
    then show ?thesis using Some by (simp add: waiters_set_grow)
  qed
  have keys: "set (map fst ?wl) \<subseteq> insert p (set (map fst (w_waiting w)))"
    by (auto split: option.splits)
  have ok: "waiting_ok (w_heap w) ?wl"
  proof (cases "map_of (w_waiting w) p")
    case None
    then show ?thesis using waiting_ok_new[OF wl i(1,2) par(1)] by simp
  next
    case (Some ws)
    then show ?thesis using waiting_ok_grow[OF wl i(1,2) par(1) ni(1)] by simp
  qed
  have "tracer_inv (w\<lparr>w_waiting := ?wl\<rparr>)"
    using ti ok set_wl keys ni par(2) by (fastforce simp: tracer_inv_def)
  then show ?thesis
    using run inv exp set_wl by (auto simp: exporter_inv_def done_spans_def)
qed

end

end
