(* ===== verification/SpanProtocol.thy ===== *)
theory SpanProtocol
  imports Span
begin

text \<open>
  What the span classes accept. Each class is given as a protocol: a predicate on the list
  of accepted events and a predicate that says when the list is complete. The locale
  \<open>span_protocol\<close> states what an \<open>AddToSpan\<close> method owes its protocol and proves once that
  a span offered any sequence of events collects exactly the events its protocol admits;
  every class with a pure method is an interpretation. \<open>HostCallSpan\<close> is treated apart.
\<close>

section \<open>Protocols\<close>

definition same_parser :: "event list \<Rightarrow> bool" where
  "same_parser es = list_all (\<lambda>e. GetParserIdent e = GetParserIdent (hd es)) es"

text \<open>The events a protocol admits out of a sequence, greedily, as the spanner offers them.\<close>

primrec admitted :: "(event list \<Rightarrow> bool) \<Rightarrow> event list \<Rightarrow> event list \<Rightarrow> event list" where
  "admitted P acc [] = acc"
| "admitted P acc (e # es) = admitted P (if P (acc @ [e]) then acc @ [e] else acc) es"

text \<open>A sequence of \<open>AddToSpan\<close> calls on one span object.\<close>

primrec offer ::
  "(event option \<Rightarrow> EventSpan \<Rightarrow> 'd \<Rightarrow> bool \<times> EventSpan \<times> 'd) \<Rightarrow> event list \<Rightarrow>
    EventSpan \<Rightarrow> 'd \<Rightarrow> EventSpan \<times> 'd"
where
  "offer add [] s d = (s, d)"
| "offer add (e # es) s d = (case add (Some e) s d of (_, s', d') \<Rightarrow> offer add es s' d')"

text \<open>What the constructor of the base class leaves.\<close>

definition EventSpan_fresh :: "u64 \<Rightarrow> u64 \<Rightarrow> ctx_addr \<Rightarrow> string \<Rightarrow> EventSpan" where
  "EventSpan_fresh ident source ctx nm =
     \<lparr>sp_id = ident, sp_source_id = source, sp_events = [], sp_is_pending = True,
      sp_is_relevant = False, sp_original = None, sp_trace_context = Some ctx,
      sp_service_name = nm\<rparr>"

lemma EventSpan_new_fresh:
  "EventSpan_new (Some ctx) source nm c =
     Inr (EventSpan_fresh (next_span_id c) source ctx nm, c\<lparr>next_span_id := next_span_id c + 1\<rparr>)"
  by (simp add: EventSpan_new_def GetNextSpanId_def EventSpan_fresh_def)

lemma EventSpan_fresh_simps [simp]:
  "sp_events (EventSpan_fresh i src ctx nm) = []"
  "sp_is_pending (EventSpan_fresh i src ctx nm) = True"
  "sp_id (EventSpan_fresh i src ctx nm) = i"
  "sp_trace_context (EventSpan_fresh i src ctx nm) = Some ctx"
  by (simp_all add: EventSpan_fresh_def)

definition nth_opt :: "'a list \<Rightarrow> nat \<Rightarrow> 'a option" where
  "nth_opt xs i = (if i < length xs then Some (xs ! i) else None)"

lemma nth_opt_simps [simp]:
  "nth_opt [] i = None"
  "nth_opt (x # xs) 0 = Some x"
  "nth_opt (x # xs) (Suc i) = nth_opt xs i"
  "nth_opt (x # xs) 1 = nth_opt xs 0"
  "nth_opt (x # xs) (numeral k) = nth_opt xs (pred_numeral k)"
  by (simp_all add: nth_opt_def numeral_eq_Suc)

lemma same_parser_simps [simp]:
  "same_parser []"
  "same_parser [a]"
  by (simp_all add: same_parser_def)

lemma same_parser_snoc:
  "same_parser (es @ [e]) \<longleftrightarrow>
     same_parser es \<and> (es = [] \<or> GetParserIdent (hd es) = GetParserIdent e)"
  by (cases es) (auto simp: same_parser_def list_all_iff)

locale span_protocol =
  fixes add :: "event option \<Rightarrow> EventSpan \<Rightarrow> 'd \<Rightarrow> bool \<times> EventSpan \<times> 'd"
    and start :: 'd
    and tracks :: "event list \<Rightarrow> 'd \<Rightarrow> bool"
    and shape :: "event list \<Rightarrow> bool"
    and final :: "event list \<Rightarrow> bool"
    and well_formed :: "event \<Rightarrow> bool"
  assumes start: "tracks [] start" "\<not> final []"
    and not_potential: "\<not> IsPotentialAdd (Some e) s \<Longrightarrow> add (Some e) s d = (False, s, d)"
    and final_shape: "shape (es @ [e]) \<Longrightarrow> \<not> final es"
    and shape_prefix: "shape (es @ [e]) \<Longrightarrow> shape es"
    and accepts:
      "\<lbrakk>tracks (sp_events s) d; shape (sp_events s); well_formed e; IsPotentialAdd (Some e) s;
        \<not> final (sp_events s); shape (sp_events s @ [e])\<rbrakk> \<Longrightarrow>
       \<exists>d'. add (Some e) s d =
              (True, push_event e (set_pending (\<not> final (sp_events s @ [e])) s), d') \<and>
            tracks (sp_events s @ [e]) d'"
    and rejects:
      "\<lbrakk>tracks (sp_events s) d; shape (sp_events s); well_formed e; IsPotentialAdd (Some e) s;
        \<not> final (sp_events s); \<not> shape (sp_events s @ [e])\<rbrakk> \<Longrightarrow>
       \<exists>d'. add (Some e) s d = (False, s, d') \<and> tracks (sp_events s) d'"
begin

definition conforms :: "event list \<Rightarrow> bool" where
  "conforms es = (same_parser es \<and> shape es)"

definition reached :: "EventSpan \<Rightarrow> 'd \<Rightarrow> bool" where
  "reached s d =
     (tracks (sp_events s) d \<and> conforms (sp_events s) \<and>
      sp_is_pending s = (\<not> final (sp_events s)))"

lemma add_verdict:
  assumes "reached s d" and "well_formed e"
  shows "\<exists>s' d'. add (Some e) s d = (conforms (sp_events s @ [e]), s', d') \<and> reached s' d' \<and>
           sp_events s' = (if conforms (sp_events s @ [e]) then sp_events s @ [e] else sp_events s)"
proof (cases "IsPotentialAdd (Some e) s")
  case False
  then have "\<not> conforms (sp_events s @ [e])"
    using assms(1) final_shape[of "sp_events s" e]
    by (auto simp: reached_def conforms_def same_parser_snoc)
  then show ?thesis using False assms(1) not_potential by simp
next
  case True
  then have pending: "\<not> final (sp_events s)" using assms(1) by (auto simp: reached_def)
  have same: "same_parser (sp_events s @ [e])"
    using True assms(1) by (auto simp: same_parser_snoc reached_def conforms_def)
  have base: "tracks (sp_events s) d" "shape (sp_events s)"
    using assms(1) by (simp_all add: reached_def conforms_def)
  show ?thesis
  proof (cases "shape (sp_events s @ [e])")
    case True': True
    obtain d' where "add (Some e) s d =
        (True, push_event e (set_pending (\<not> final (sp_events s @ [e])) s), d')"
      and "tracks (sp_events s @ [e]) d'"
      using accepts[OF base assms(2) True pending True'] by blast
    then show ?thesis using same True' by (auto simp: reached_def conforms_def)
  next
    case False
    obtain d' where "add (Some e) s d = (False, s, d')" and "tracks (sp_events s) d'"
      using rejects[OF base assms(2) True pending False] by blast
    then show ?thesis using assms(1) False by (auto simp: reached_def conforms_def)
  qed
qed

lemma offer_admitted_from:
  assumes "reached s d" and "list_all well_formed es"
  shows "case offer add es s d of
           (s', d') \<Rightarrow> reached s' d' \<and> sp_events s' = admitted conforms (sp_events s) es"
  using assms
proof (induction es arbitrary: s d)
  case (Cons e es)
  obtain s' d' where step: "add (Some e) s d = (conforms (sp_events s @ [e]), s', d')"
      "reached s' d'"
      "sp_events s' = (if conforms (sp_events s @ [e]) then sp_events s @ [e] else sp_events s)"
    using add_verdict[OF Cons.prems(1), of e] Cons.prems(2) by auto
  with Cons.IH[of s' d'] Cons.prems(2) show ?case by simp
qed simp

lemma shape_Nil:
  assumes "shape es" shows "shape []"
  using assms by (induction es rule: rev_induct) (auto dest: shape_prefix)

lemma offer_admitted:
  assumes "shape []" and "list_all well_formed es"
  shows "case offer add es (EventSpan_fresh i src ctx nm) start of
           (s, d) \<Rightarrow> sp_events s = admitted (\<lambda>es. same_parser es \<and> shape es) [] es \<and>
                    sp_is_pending s = (\<not> final (sp_events s)) \<and> same_parser (sp_events s) \<and>
                    shape (sp_events s)"
proof -
  have "reached (EventSpan_fresh i src ctx nm) start"
    using assms(1) start by (simp add: reached_def conforms_def)
  moreover have "conforms = (\<lambda>es. same_parser es \<and> shape es)"
    by (simp add: conforms_def fun_eq_iff)
  ultimately show ?thesis
    using offer_admitted_from[of "EventSpan_fresh i src ctx nm" start es] assms(2)
    by (auto simp: reached_def split: prod.splits)
qed

end

section \<open>The NIC's DMA span\<close>

text \<open>Issue, execution, completion, of one DMA id and address.\<close>

definition dma_key :: "event \<Rightarrow> (u64 \<times> u64) option" where
  "dma_key e = (case as_NicDma e of None \<Rightarrow> None | Some (i, addr, len) \<Rightarrow> Some (i, addr))"

fun nic_dma_shape :: "event list \<Rightarrow> bool" where
  "nic_dma_shape [] = True"
| "nic_dma_shape [i] = (GetType i = kNicDmaIT)"
| "nic_dma_shape [i, x] =
     (GetType i = kNicDmaIT \<and> GetType x = kNicDmaExT \<and> dma_key i = dma_key x)"
| "nic_dma_shape [i, x, c] =
     (GetType i = kNicDmaIT \<and> GetType x = kNicDmaExT \<and> dma_key i = dma_key x \<and>
      GetType c \<in> {kNicDmaCRT, kNicDmaCWT} \<and> dma_key i = dma_key c)"
| "nic_dma_shape (_ # _ # _ # _ # _) = False"

definition nic_dma_final :: "event list \<Rightarrow> bool" where
  "nic_dma_final es = (length es = 3)"

definition nic_dma_tracks :: "event list \<Rightarrow> NicDmaSpan \<Rightarrow> bool" where
  "nic_dma_tracks es d =
     (nds_dma_issue d = nth_opt es 0 \<and> nds_nic_dma_execution d = nth_opt es 1 \<and>
      nds_nic_dma_completion d = nth_opt es 2 \<and>
      (length es = 3 \<longrightarrow> nds_is_read d = (GetType (es ! 2) = kNicDmaCRT)))"

lemma NicDma_same_iff: "NicDma_same a b \<longleftrightarrow> dma_key a = dma_key b"
  by (cases "as_NicDma a"; cases "as_NicDma b") (auto simp: NicDma_same_def dma_key_def)

lemma list_upto3:
  obtains "xs = []" | a where "xs = [a]" | a b where "xs = [a, b]" | a b c where "xs = [a, b, c]"
    | a b c d ys where "xs = a # b # c # d # ys"
  by (metis list.exhaust)

lemma nic_dma_snocD:
  "nic_dma_shape (es @ [e]) \<Longrightarrow> nic_dma_shape es \<and> \<not> nic_dma_final es"
  by (cases es rule: list_upto3) (auto simp: nic_dma_final_def)

interpretation nic_dma: span_protocol
  NicDmaSpan_AddToSpan NicDmaSpan_init nic_dma_tracks nic_dma_shape nic_dma_final "\<lambda>_. True"
proof (unfold_locales, goal_cases)
  case (6 s d e)
  then show ?case
    by (cases "sp_events s" rule: list_upto3)
       (auto simp: NicDmaSpan_AddToSpan_def nic_dma_tracks_def NicDma_same_iff nic_dma_final_def
          push_event_def set_pending_def Let_def)
next
  case (7 s d e)
  then show ?case
    by (cases "sp_events s" rule: list_upto3)
       (auto simp: NicDmaSpan_AddToSpan_def nic_dma_tracks_def NicDma_same_iff nic_dma_final_def
          push_event_def set_pending_def Let_def)
qed (auto simp: nic_dma_tracks_def nic_dma_final_def NicDmaSpan_init_def NicDmaSpan_AddToSpan_def
       dest: nic_dma_snocD)

section \<open>The host's two-event spans\<close>

text \<open>
  DMA: a read or write, then the completion of the same id. Interrupt: post, then clear.
  MSI-X: the message, then the DMA completion with id 0. PCI: the access, then the
  configuration access of the same direction.
\<close>

fun host_dma_shape :: "event list \<Rightarrow> bool" where
  "host_dma_shape [] = True"
| "host_dma_shape [x] = (GetType x \<in> {kHostDmaRT, kHostDmaWT})"
| "host_dma_shape [x, c] =
     (GetType x \<in> {kHostDmaRT, kHostDmaWT} \<and> GetType c = kHostDmaCT \<and>
      as_HostIdOp x = as_HostIdOp c)"
| "host_dma_shape (_ # _ # _ # _) = False"

fun host_int_shape :: "event list \<Rightarrow> bool" where
  "host_int_shape [] = True"
| "host_int_shape [p] = (GetType p = kHostPostIntT)"
| "host_int_shape [p, c] = (GetType p = kHostPostIntT \<and> GetType c = kHostClearIntT)"
| "host_int_shape (_ # _ # _ # _) = False"

fun host_msix_shape :: "event list \<Rightarrow> bool" where
  "host_msix_shape [] = True"
| "host_msix_shape [m] = (GetType m = kHostMsiXT)"
| "host_msix_shape [m, c] =
     (GetType m = kHostMsiXT \<and> GetType c = kHostDmaCT \<and> as_HostIdOp c = Some 0)"
| "host_msix_shape (_ # _ # _ # _) = False"

fun host_pci_shape :: "event list \<Rightarrow> bool" where
  "host_pci_shape [] = True"
| "host_pci_shape [p] = (GetType p = kHostPciRWT)"
| "host_pci_shape [p, c] =
     (GetType p = kHostPciRWT \<and> GetType c = kHostConfT \<and> Pci_is_read p = Pci_is_read c)"
| "host_pci_shape (_ # _ # _ # _) = False"

definition two_final :: "event list \<Rightarrow> bool" where
  "two_final es = (length es = 2)"

definition host_dma_tracks :: "event list \<Rightarrow> HostDmaSpan \<Rightarrow> bool" where
  "host_dma_tracks es d =
     (hds_host_dma_execution d = nth_opt es 0 \<and> hds_host_dma_completion d = nth_opt es 1 \<and>
      (es \<noteq> [] \<longrightarrow> hds_is_read d = (GetType (hd es) = kHostDmaRT)))"

definition host_int_tracks :: "event list \<Rightarrow> HostIntSpan \<Rightarrow> bool" where
  "host_int_tracks es d =
     (his_host_post_int d = nth_opt es 0 \<and> his_host_clear_int d = nth_opt es 1)"

definition host_msix_tracks :: "event list \<Rightarrow> HostMsixSpan \<Rightarrow> bool" where
  "host_msix_tracks es d =
     (hxs_host_msix d = nth_opt es 0 \<and> hxs_host_dma_c d = nth_opt es 1)"

definition host_pci_tracks :: "event list \<Rightarrow> HostPciSpan \<Rightarrow> bool" where
  "host_pci_tracks es d =
     (hps_host_pci_rw d = nth_opt es 0 \<and> hps_host_conf_rw d = nth_opt es 1 \<and>
      (es \<noteq> [] \<longrightarrow> Pci_is_read (hd es) = Some (hps_is_read d)))"

lemmas push_defs = push_event_def set_pending_def two_final_def Let_def

lemma set_pending_same: "sp_is_pending s = b \<Longrightarrow> set_pending b s = s"
  by (auto simp: set_pending_def)

lemma two_shape_snocD:
  "host_dma_shape (es @ [e]) \<Longrightarrow> host_dma_shape es \<and> \<not> two_final es"
  "host_int_shape (es @ [e]) \<Longrightarrow> host_int_shape es \<and> \<not> two_final es"
  "host_msix_shape (es @ [e]) \<Longrightarrow> host_msix_shape es \<and> \<not> two_final es"
  "host_pci_shape (es @ [e]) \<Longrightarrow> host_pci_shape es \<and> \<not> two_final es"
  by (cases es rule: list_upto3; auto simp: two_final_def)+

lemma Pci_is_read_cases:
  "GetType e \<in> {kHostPciRWT, kHostConfT} \<Longrightarrow> \<exists>b. Pci_is_read e = Some b"
  by (auto simp: GetType_cases)

interpretation host_dma: span_protocol
  HostDmaSpan_AddToSpan HostDmaSpan_init host_dma_tracks host_dma_shape two_final "\<lambda>_. True"
proof (unfold_locales, goal_cases)
  case (6 s d e)
  then show ?case
    by (cases "sp_events s" rule: list_upto3)
       (auto simp: HostDmaSpan_AddToSpan_def host_dma_tracks_def push_defs)
next
  case (7 s d e)
  then show ?case
    by (cases "sp_events s" rule: list_upto3)
       (auto simp: HostDmaSpan_AddToSpan_def host_dma_tracks_def push_defs)
qed (auto simp: host_dma_tracks_def two_final_def HostDmaSpan_init_def HostDmaSpan_AddToSpan_def
       dest: two_shape_snocD)

interpretation host_int: span_protocol
  HostIntSpan_AddToSpan HostIntSpan_init host_int_tracks host_int_shape two_final "\<lambda>_. True"
proof (unfold_locales, goal_cases)
  case (6 s d e)
  then show ?case
    by (cases "sp_events s" rule: list_upto3)
       (auto simp: HostIntSpan_AddToSpan_def host_int_tracks_def push_defs)
next
  case (7 s d e)
  then show ?case
    by (cases "sp_events s" rule: list_upto3)
       (auto simp: HostIntSpan_AddToSpan_def host_int_tracks_def push_defs)
qed (auto simp: host_int_tracks_def two_final_def HostIntSpan_init_def HostIntSpan_AddToSpan_def
       dest: two_shape_snocD)

interpretation host_msix: span_protocol
  HostMsixSpan_AddToSpan HostMsixSpan_init host_msix_tracks host_msix_shape two_final "\<lambda>_. True"
proof (unfold_locales, goal_cases)
  case (6 s d e)
  then show ?case
    by (cases "sp_events s" rule: list_upto3)
       (auto simp: HostMsixSpan_AddToSpan_def host_msix_tracks_def push_defs)
next
  case (7 s d e)
  then show ?case
    by (cases "sp_events s" rule: list_upto3)
       (auto simp: HostMsixSpan_AddToSpan_def host_msix_tracks_def push_defs)
qed (auto simp: host_msix_tracks_def two_final_def HostMsixSpan_init_def
       HostMsixSpan_AddToSpan_def dest: two_shape_snocD)

interpretation host_pci: span_protocol
  HostPciSpan_AddToSpan HostPciSpan_init host_pci_tracks host_pci_shape two_final "\<lambda>_. True"
proof (unfold_locales, goal_cases)
  case (6 s d e)
  then show ?case using Pci_is_read_cases[of e]
    by (cases "sp_events s" rule: list_upto3)
       (auto simp: HostPciSpan_AddToSpan_def host_pci_tracks_def push_defs)
next
  case (7 s d e)
  then show ?case
    by (cases "sp_events s" rule: list_upto3)
       (auto simp: HostPciSpan_AddToSpan_def host_pci_tracks_def push_defs)
qed (auto simp: host_pci_tracks_def two_final_def HostPciSpan_init_def HostPciSpan_AddToSpan_def
       dest: two_shape_snocD)

section \<open>The host's MMIO span\<close>

text \<open>
  A read of BAR 0 is answered by a read completion of the same id; a write of BAR 0 by a
  write completion of the same id, or, if it is posted, by the immediate response with the
  same time stamp; a read of another BAR is complete at once; a posted write to another BAR
  takes the immediate response; nothing completes a non-posted write to another BAR.
\<close>

definition mmio_to_device :: "event \<Rightarrow> bool" where
  "mmio_to_device e = (map_option fst (as_HostMmioOp e) = Some 0)"

fun host_mmio_shape :: "event list \<Rightarrow> bool" where
  "host_mmio_shape [] = True"
| "host_mmio_shape [i] = (GetType i \<in> {kHostMmioRT, kHostMmioWT})"
| "host_mmio_shape [i, c] =
     (GetType i = kHostMmioRT \<and> mmio_to_device i \<and> GetType c = kHostMmioCRT \<and>
        as_HostIdOp i = as_HostIdOp c \<or>
      GetType i = kHostMmioWT \<and> mmio_to_device i \<and> GetType c = kHostMmioCWT \<and>
        as_HostIdOp i = as_HostIdOp c \<or>
      GetType i = kHostMmioWT \<and> HostMmio_posted i False \<and> GetType c = kHostMmioImRespPoWT \<and>
        GetTs i = GetTs c)"
| "host_mmio_shape (_ # _ # _ # _) = False"

fun host_mmio_final :: "event list \<Rightarrow> bool" where
  "host_mmio_final [] = False"
| "host_mmio_final [i] = (GetType i = kHostMmioRT \<and> \<not> mmio_to_device i)"
| "host_mmio_final (_ # _ # _) = True"

definition host_mmio_tracks :: "event list \<Rightarrow> HostMmioSpan \<Rightarrow> bool" where
  "host_mmio_tracks es d =
     (hms_host_mmio_issue d = nth_opt es 0 \<and>
      (length es < 2 \<longrightarrow> hms_im_mmio_resp d = None) \<and> (es = [] \<longrightarrow> \<not> hms_is_posted d) \<and>
      (es \<noteq> [] \<longrightarrow>
        hms_is_read d = (GetType (hd es) = kHostMmioRT) \<and>
        (hms_bar_number d = 0 \<longleftrightarrow> mmio_to_device (hd es)) \<and>
        (GetType (hd es) = kHostMmioWT \<longrightarrow> hms_is_posted d = HostMmio_posted (hd es) False)))"

lemma host_mmio_snocD:
  "host_mmio_shape (es @ [e]) \<Longrightarrow> host_mmio_shape es \<and> \<not> host_mmio_final es"
  by (cases es rule: list_upto3) auto

lemma HostMmio_fields:
  assumes "GetType e = kHostMmioRT \<or> GetType e = kHostMmioWT"
  shows "HostMmio_bar e old = 0 \<longleftrightarrow> mmio_to_device e"
  using assms by (auto simp: GetType_cases mmio_to_device_def)

lemmas mmio_defs =
  HostMmioSpan_AddToSpan_def HostMmioSpan_issue_def HostMmioSpan_im_resp_def
  HostMmioSpan_complete_def host_mmio_tracks_def IsMsixNotToDeviceBarNumber_def HostMmio_fields
  push_event_def set_pending_def Let_def

interpretation host_mmio: span_protocol
  HostMmioSpan_AddToSpan "HostMmioSpan_init bar" host_mmio_tracks host_mmio_shape host_mmio_final
  "\<lambda>_. True" for bar
proof (unfold_locales, goal_cases)
  case (6 s d e)
  then show ?case
    by (cases "sp_events s" rule: list_upto3; simp; elim disjE conjE; simp add: mmio_defs)
next
  case (7 s d e)
  then show ?case
    by (cases "sp_events s" rule: list_upto3) (auto simp: mmio_defs)
qed (auto simp: host_mmio_tracks_def HostMmioSpan_init_def HostMmioSpan_AddToSpan_def
       dest: host_mmio_snocD)

section \<open>The one-event spans\<close>

fun one_shape :: "EventType set \<Rightarrow> event list \<Rightarrow> bool" where
  "one_shape ts [] = True"
| "one_shape ts [e] = (GetType e \<in> ts)"
| "one_shape ts (_ # _ # _) = False"

definition one_final :: "event list \<Rightarrow> bool" where
  "one_final es = (length es = 1)"

lemma one_shape_snocD: "one_shape ts (es @ [e]) \<Longrightarrow> es = [] \<and> GetType e \<in> ts"
  by (cases es rule: list_upto3) auto

lemma one_final_simps [simp]: "\<not> one_final []" "one_final [e]"
  by (simp_all add: one_final_def)

lemma one_shape_iff: "one_shape ts es \<longleftrightarrow> es = [] \<or> (\<exists>e. es = [e] \<and> GetType e \<in> ts)"
  by (cases es rule: list_upto3) auto

definition nic_msix_tracks :: "event list \<Rightarrow> NicMsixSpan \<Rightarrow> bool" where
  "nic_msix_tracks es d = (nxs_nic_msix d = nth_opt es 0)"

definition nic_mmio_tracks :: "event list \<Rightarrow> NicMmioSpan \<Rightarrow> bool" where
  "nic_mmio_tracks es d =
     (nms_action d = nth_opt es 0 \<and>
      (es \<noteq> [] \<longrightarrow> nms_is_read d = (GetType (hd es) = kNicMmioRT)))"

definition nic_eth_tracks :: "event list \<Rightarrow> NicEthSpan \<Rightarrow> bool" where
  "nic_eth_tracks es d =
     (nes_tx_rx d = nth_opt es 0 \<and> (es \<noteq> [] \<longrightarrow> nes_is_send d = (GetType (hd es) = kNicTxT)))"

definition generic_single_tracks :: "event list \<Rightarrow> GenericSingleSpan \<Rightarrow> bool" where
  "generic_single_tracks es d = (gss_event_p d = nth_opt es 0)"

lemmas one_defs =
  one_shape_iff one_final_def push_event_def set_pending_def
  nic_msix_tracks_def nic_mmio_tracks_def nic_eth_tracks_def generic_single_tracks_def
  NicMsixSpan_AddToSpan_def NicMmioSpan_AddToSpan_def NicEthSpan_AddToSpan_def
  GenericSingleSpan_AddToSpan_def
  NicMsixSpan_init_def NicMmioSpan_init_def NicEthSpan_init_def GenericSingleSpan_init_def

interpretation nic_msix: span_protocol
  NicMsixSpan_AddToSpan NicMsixSpan_init nic_msix_tracks "one_shape {kNicMsixT}" one_final
  "\<lambda>_. True"
  by unfold_locales (auto simp: one_defs)

interpretation nic_mmio: span_protocol
  NicMmioSpan_AddToSpan NicMmioSpan_init nic_mmio_tracks "one_shape {kNicMmioRT, kNicMmioWT}"
  one_final "\<lambda>_. True"
  by unfold_locales (auto simp: one_defs)

interpretation nic_eth: span_protocol
  NicEthSpan_AddToSpan NicEthSpan_init nic_eth_tracks "one_shape {kNicTxT, kNicRxT}" one_final
  "\<lambda>_. True"
  by unfold_locales (auto simp: one_defs)

interpretation generic_single: span_protocol
  GenericSingleSpan_AddToSpan GenericSingleSpan_init generic_single_tracks "one_shape UNIV"
  one_final "\<lambda>_. True"
  by unfold_locales (auto simp: one_defs)

section \<open>The network device span\<close>

text \<open>
  An enqueue, then a consistent dequeue or drop. The protocol is stated for events whose IP
  and ARP headers, when both are present, name the same addresses: an enqueue that breaks
  this is rejected but leaves its IP addresses behind in the span.
\<close>

definition coherent :: "event \<Rightarrow> bool" where
  "coherent e =
     (case as_NetworkEvent e of
        None \<Rightarrow> True
      | Some n \<Rightarrow>
          (case (net_ip_header n, net_arp_header n) of
             (Some ip, Some arp) \<Rightarrow> iph_src_ip ip = arp_src_ip arp \<and> iph_dst_ip ip = arp_dst_ip arp
           | _ \<Rightarrow> True))"

definition net_consistent :: "event \<Rightarrow> event \<Rightarrow> bool" where
  "net_consistent a b =
     (case (as_NetworkEvent a, as_NetworkEvent b) of
        (Some m, Some n) \<Rightarrow> IsConsistent m n | _ \<Rightarrow> False)"

fun net_device_shape :: "event list \<Rightarrow> bool" where
  "net_device_shape [] = True"
| "net_device_shape [q] = (GetType q = kNetworkEnqueueT)"
| "net_device_shape [q, x] =
     (GetType q = kNetworkEnqueueT \<and> GetType x \<in> {kNetworkDequeueT, kNetworkDropT} \<and>
      net_consistent q x)"
| "net_device_shape (_ # _ # _ # _) = False"

definition net_ips :: "NetworkEvent \<Rightarrow> (Ipv4 \<times> Ipv4) option" where
  "net_ips n =
     (case net_ip_header n of
        Some h \<Rightarrow> Some (iph_src_ip h, iph_dst_ip h)
      | None \<Rightarrow> map_option (\<lambda>h. (arp_src_ip h, arp_dst_ip h)) (net_arp_header n))"

definition span_ips :: "NetDeviceSpan \<Rightarrow> (Ipv4 \<times> Ipv4) option" where
  "span_ips d = (if nvs_ips_set d then Some (nvs_src d, nvs_dst d) else None)"

fun net_device_tracks :: "event list \<Rightarrow> NetDeviceSpan \<Rightarrow> bool" where
  "net_device_tracks [] d =
     (nvs_dev_enq d = None \<and> nvs_dev_deq d = None \<and> nvs_drop d = None \<and> \<not> nvs_ips_set d)"
| "net_device_tracks [q] d =
     (map_option snd (nvs_dev_enq d) = as_NetworkEvent q \<and> nvs_dev_deq d = None \<and>
      nvs_drop d = None \<and>
      span_ips d = Option.bind (as_NetworkEvent q) net_ips)"
| "net_device_tracks (_ # _ # _) d = True"

lemma net_device_snocD:
  "net_device_shape (es @ [e]) \<Longrightarrow> net_device_shape es \<and> \<not> two_final es"
  by (cases es rule: list_upto3) (auto simp: two_final_def)

lemma SetAndCheckIpArp_fresh:
  assumes "coherent e" and "as_NetworkEvent e = Some n" and "\<not> nvs_ips_set d"
  shows "\<exists>d'. SetAndCheckIpArp n d = (True, d') \<and>
     span_ips d' = net_ips n \<and>
     nvs_dev_enq d' = nvs_dev_enq d \<and> nvs_dev_deq d' = nvs_dev_deq d \<and> nvs_drop d' = nvs_drop d"
  using assms
  by (cases "net_ip_header n"; cases "net_arp_header n")
     (simp_all add: SetAndCheckIpArp_def SetAndCheckPotentialIp_def SetAndCheckPotentialArp_def
        coherent_def net_ips_def span_ips_def)

lemma SetAndCheckIpArp_second:
  assumes "coherent e" and "as_NetworkEvent e = Some n" and "IsConsistent m n"
    and "span_ips d = net_ips m"
  shows "\<exists>d'. SetAndCheckIpArp n d = (True, d')"
  using assms
  by (cases "net_ip_header n"; cases "net_arp_header n"; cases "net_ip_header m";
      cases "net_arp_header m"; cases "nvs_ips_set d")
     (simp_all add: SetAndCheckIpArp_def SetAndCheckPotentialIp_def SetAndCheckPotentialArp_def
        coherent_def net_ips_def span_ips_def IsConsistent_def split: if_splits)

lemma HandelEnqueue_first:
  assumes "net_device_tracks [] d" and "coherent (NetworkEnqueue b n)"
  shows "\<exists>d'. HandelEnqueue b n e s d = (True, push_event e s, d') \<and>
           net_device_tracks [NetworkEnqueue b n] d'"
proof -
  obtain d' where
    "SetAndCheckIpArp n d = (True, d')"
    "span_ips d' = net_ips n"
    "nvs_dev_enq d' = None" "nvs_dev_deq d' = None" "nvs_drop d' = None"
    using SetAndCheckIpArp_fresh[OF assms(2), of n d] assms(1) by auto
  then show ?thesis using assms(1) by (auto simp: HandelEnqueue_def span_ips_def split: if_splits)
qed

lemma HandelDequeue_second:
  assumes "net_device_tracks [q] d" and "net_consistent q (NetworkDequeue b n)"
    and "coherent (NetworkDequeue b n)"
  shows "\<exists>d'. HandelDequeue b n e s d = (True, push_event e (set_pending False s), d')"
proof -
  obtain m where m: "as_NetworkEvent q = Some m" "IsConsistent m n"
    using assms(2) by (auto simp: net_consistent_def split: option.splits)
  then obtain d' where "SetAndCheckIpArp n d = (True, d')"
    using SetAndCheckIpArp_second[OF assms(3), of n m d] assms(1) by auto
  then show ?thesis using assms(1) m by (auto simp: HandelDequeue_def)
qed

lemma HandelDrop_second:
  assumes "net_device_tracks [q] d" and "net_consistent q (NetworkDrop b n)"
    and "coherent (NetworkDrop b n)"
  shows "\<exists>d'. HandelDrop b n e s d = (True, push_event e (set_pending False s), d')"
proof -
  obtain m where m: "as_NetworkEvent q = Some m" "IsConsistent m n"
    using assms(2) by (auto simp: net_consistent_def split: option.splits)
  then obtain d' where "SetAndCheckIpArp n d = (True, d')"
    using SetAndCheckIpArp_second[OF assms(3), of n m d] assms(1) by auto
  then show ?thesis using assms(1) m by (auto simp: HandelDrop_def)
qed

lemma NetDeviceSpan_inconsistent:
  assumes "net_device_tracks [q] d" and "GetType q = kNetworkEnqueueT"
    and "\<not> net_consistent q e \<or> GetType e \<notin> {kNetworkDequeueT, kNetworkDropT}"
  shows "NetDeviceSpan_switch e s d = (False, s, d)"
  using assms
  by (cases e)
     (auto simp: HandelEnqueue_def HandelDequeue_def HandelDrop_def net_consistent_def GetType_cases)

interpretation net_device: span_protocol
  NetDeviceSpan_AddToSpan NetDeviceSpan_init net_device_tracks net_device_shape two_final coherent
proof (unfold_locales, goal_cases)
  case (6 s d e)
  then show ?case
  proof (cases "sp_events s" rule: list_upto3)
    case 1
    then obtain b n where e: "e = NetworkEnqueue b n" using 6 by (auto simp: GetType_cases)
    then show ?thesis
      using HandelEnqueue_first[of d b n e s] 1 6
      by (simp add: NetDeviceSpan_AddToSpan_def two_final_def set_pending_same)
  next
    case (2 q)
    then have "GetType e = kNetworkDequeueT \<or> GetType e = kNetworkDropT" using 6 by simp
    then show ?thesis
      using HandelDequeue_second[of q d _ _ e s] HandelDrop_second[of q d _ _ e s] 2 6
      by (auto simp: NetDeviceSpan_AddToSpan_def two_final_def GetType_cases(25,26))
  qed (use 6 in auto)
next
  case (7 s d e)
  then show ?case
  proof (cases "sp_events s" rule: list_upto3)
    case 1
    then show ?thesis using 7
      by (cases e)
         (auto simp: NetDeviceSpan_AddToSpan_def HandelDequeue_def HandelDrop_def)
  next
    case (2 q)
    then show ?thesis using 7 NetDeviceSpan_inconsistent[of q d e s]
      by (auto simp: NetDeviceSpan_AddToSpan_def)
  qed (auto simp: two_final_def)
qed (auto simp: NetDeviceSpan_init_def NetDeviceSpan_AddToSpan_def two_final_def
       dest: net_device_snocD)

section \<open>The host's call span\<close>

text \<open>The calls of one system call: everything before its second entry.\<close>

fun calls_of_one_syscall :: "TraceEnvironment \<Rightarrow> bool \<Rightarrow> event list \<Rightarrow> event list" where
  "calls_of_one_syscall env entered [] = []"
| "calls_of_one_syscall env entered (c # cs) =
     (if IsSysEntry env (Some c)
      then (if entered then [] else c # calls_of_one_syscall env True cs)
      else c # calls_of_one_syscall env entered cs)"

definition calls_of_parser :: "u64 \<Rightarrow> event list \<Rightarrow> event list" where
  "calls_of_parser p es = filter (\<lambda>e. GetType e = kHostCallT \<and> GetParserIdent e = p) es"

primrec offer_calls ::
  "TraceEnvironment \<Rightarrow> event list \<Rightarrow> EventSpan \<Rightarrow> HostCallSpan \<Rightarrow>
    (EventSpan \<times> HostCallSpan) res"
where
  "offer_calls env [] s d = Inr (s, d)"
| "offer_calls env (e # es) s d =
     rbind (HostCallSpan_AddToSpan env (Some e) s d) (\<lambda>(_, s', d'). offer_calls env es s' d')"

definition entries :: "TraceEnvironment \<Rightarrow> event list \<Rightarrow> nat" where
  "entries env es = length (filter (\<lambda>e. IsSysEntry env (Some e)) es)"

lemma entries_Cons:
  "entries env (c # cs) = (if IsSysEntry env (Some c) then Suc (entries env cs) else entries env cs)"
  by (simp add: entries_def)

lemma calls_of_parser_Cons:
  "calls_of_parser p (c # cs) =
     (if GetType c = kHostCallT \<and> GetParserIdent c = p then c # calls_of_parser p cs
      else calls_of_parser p cs)"
  by (simp add: calls_of_parser_def)

lemma HostCallSpan_mark_frame [simp]:
  "hcs_call_span_entry (HostCallSpan_mark env ev d) = hcs_call_span_entry d"
  "hcs_is_fragmented (HostCallSpan_mark env ev d) = hcs_is_fragmented d"
  by (simp_all add: HostCallSpan_mark_def)

lemma offer_calls_complete:
  "\<not> sp_is_pending s \<Longrightarrow> offer_calls env es s d = Inr (s, d)"
  by (induction es) (simp_all add: HostCallSpan_AddToSpan_def)

lemma offer_calls_started:
  assumes "sp_is_pending s" and "sp_events s \<noteq> []" and "\<not> hcs_is_fragmented d"
    and "GetParserIdent (hd (sp_events s)) = p"
  shows "\<exists>s' d'. offer_calls env es s d = Inr (s', d') \<and>
     sp_events s' = sp_events s @
       calls_of_one_syscall env (hcs_call_span_entry d \<noteq> None) (calls_of_parser p es) \<and>
     (sp_is_pending s' \<longleftrightarrow>
       entries env (calls_of_parser p es) < (if hcs_call_span_entry d = None then 2 else 1))"
  using assms
proof (induction es arbitrary: s d)
  case (Cons e es)
  show ?case
  proof (cases "GetType e = kHostCallT \<and> GetParserIdent e = p")
    case True
    then show ?thesis
    proof (cases "IsSysEntry env (Some e)")
      case entry: True
      then show ?thesis
      proof (cases "hcs_call_span_entry d")
        case None
        then show ?thesis
          using Cons.IH[of "push_event e (set_pending True s)" "d\<lparr>hcs_call_span_entry := Some e\<rparr>"]
            Cons.prems True entry
          by (auto simp: HostCallSpan_AddToSpan_def calls_of_parser_def entries_def)
      next
        case (Some c)
        then show ?thesis
          using Cons.prems True entry
          by (auto simp: HostCallSpan_AddToSpan_def calls_of_parser_def entries_def
              offer_calls_complete)
      qed
    next
      case False
      then show ?thesis
        using Cons.IH[of "push_event e s" "HostCallSpan_mark env (Some e) d"] Cons.prems True
        by (auto simp: HostCallSpan_AddToSpan_def calls_of_parser_def entries_def)
    qed
  next
    case False
    then have "HostCallSpan_AddToSpan env (Some e) s d = Inr (False, s, d)"
      using Cons.prems by (auto simp: HostCallSpan_AddToSpan_def)
    then show ?thesis using Cons.IH[of s d] Cons.prems False
      by (auto simp: calls_of_parser_def)
  qed
qed (simp_all add: calls_of_parser_def entries_def)

lemma HostCallSpan_first:
  assumes "IsPotentialAdd (Some c) s" and "GetType c = kHostCallT"
    and "\<not> hcs_is_fragmented d" and "hcs_call_span_entry d = None"
  shows "\<exists>d'. HostCallSpan_AddToSpan env (Some c) s d = Inr (True, push_event c s, d') \<and>
           \<not> hcs_is_fragmented d' \<and> (hcs_call_span_entry d' \<noteq> None \<longleftrightarrow> IsSysEntry env (Some c))"
  using assms
  by (cases "IsSysEntry env (Some c)") (auto simp: HostCallSpan_AddToSpan_def set_pending_same)

lemma offer_calls_skip:
  assumes "\<forall>e \<in> set es. GetType e \<noteq> kHostCallT"
  shows "offer_calls env (es @ fs) s d = offer_calls env fs s d"
  using assms by (induction es) (auto simp: HostCallSpan_AddToSpan_def)

section \<open>What every class guarantees\<close>

text \<open>
  An accepted event is appended, and only to a pending span of the same parser; a rejected
  one leaves the event list alone. Nothing else of the base class but the pending flag
  changes.
\<close>

definition add_frame :: "event option \<Rightarrow> EventSpan \<Rightarrow> bool \<Rightarrow> EventSpan \<Rightarrow> bool" where
  "add_frame ev s ok s' =
     (if ok then IsPotentialAdd ev s \<and> (\<exists>b. s' = push_event (the ev) (set_pending b s))
      else s' = s \<or> sp_is_pending s \<and> s' = set_pending False s)"

lemma push_event_frame [simp]:
  "\<exists>b. push_event e s = push_event e (set_pending b s)"
  "\<exists>b. push_event e (set_pending c s) = push_event e (set_pending b s)"
  "\<exists>b. set_pending c (push_event e s) = push_event e (set_pending b s)"
proof -
  show "\<exists>b. push_event e s = push_event e (set_pending b s)"
    by (rule exI[of _ "sp_is_pending s"]) (simp add: set_pending_same)
  show "\<exists>b. push_event e (set_pending c s) = push_event e (set_pending b s)" by blast
  have "set_pending c (push_event e s) = push_event e (set_pending c s)"
    by (simp add: push_event_def set_pending_def)
  then show "\<exists>b. set_pending c (push_event e s) = push_event e (set_pending b s)" by blast
qed

lemma HostCallSpan_frame:
  "HostCallSpan_AddToSpan env ev s d = Inr (ok, s', d') \<Longrightarrow> add_frame ev s ok s'"
  by (auto simp: HostCallSpan_AddToSpan_def add_frame_def IsPotentialAdd_iff split: if_splits)

lemma host_pair_frames:
  "HostIntSpan_AddToSpan ev s d1 = (ok, s', d1') \<Longrightarrow> add_frame ev s ok s'"
  "HostDmaSpan_AddToSpan ev s d2 = (ok, s', d2') \<Longrightarrow> add_frame ev s ok s'"
  "HostMsixSpan_AddToSpan ev s d3 = (ok, s', d3') \<Longrightarrow> add_frame ev s ok s'"
  "HostPciSpan_AddToSpan ev s d4 = (ok, s', d4') \<Longrightarrow> add_frame ev s ok s'"
  by (auto simp: HostIntSpan_AddToSpan_def HostDmaSpan_AddToSpan_def HostMsixSpan_AddToSpan_def
      HostPciSpan_AddToSpan_def add_frame_def split: if_splits)

lemma HostMmioSpan_frame:
  "HostMmioSpan_AddToSpan ev s d = (ok, s', d') \<Longrightarrow> add_frame ev s ok s'"
  by (auto simp: HostMmioSpan_AddToSpan_def HostMmioSpan_issue_def HostMmioSpan_im_resp_def
      HostMmioSpan_complete_def add_frame_def Let_def split: if_splits)

lemma nic_frames:
  "NicMsixSpan_AddToSpan ev s d1 = (ok, s', d1') \<Longrightarrow> add_frame ev s ok s'"
  "NicMmioSpan_AddToSpan ev s d2 = (ok, s', d2') \<Longrightarrow> add_frame ev s ok s'"
  "NicEthSpan_AddToSpan ev s d3 = (ok, s', d3') \<Longrightarrow> add_frame ev s ok s'"
  "GenericSingleSpan_AddToSpan ev s d4 = (ok, s', d4') \<Longrightarrow> add_frame ev s ok s'"
  "NicDmaSpan_AddToSpan ev s d5 = (ok, s', d5') \<Longrightarrow> add_frame ev s ok s'"
  by (auto simp: NicMsixSpan_AddToSpan_def NicMmioSpan_AddToSpan_def NicEthSpan_AddToSpan_def
      GenericSingleSpan_AddToSpan_def NicDmaSpan_AddToSpan_def add_frame_def Let_def
      split: if_splits)

lemma NetDeviceSpan_switch_frame:
  "IsPotentialAdd (Some e) s \<Longrightarrow> NetDeviceSpan_switch e s d = (ok, s', d') \<Longrightarrow>
   add_frame (Some e) s ok s'"
  by (cases e)
     (auto simp: HandelEnqueue_def HandelDequeue_def HandelDrop_def add_frame_def
        split: if_splits prod.splits)

lemma NetDeviceSpan_frame:
  "NetDeviceSpan_AddToSpan ev s d = (ok, s', d') \<Longrightarrow> add_frame ev s ok s'"
  using NetDeviceSpan_switch_frame[of "the ev" s d ok s' d']
  by (cases ev) (auto simp: NetDeviceSpan_AddToSpan_def add_frame_def split: if_splits)

lemmas span_frames =
  HostCallSpan_frame host_pair_frames HostMmioSpan_frame nic_frames NetDeviceSpan_frame

lemma AddToSpan_frame:
  assumes "AddToSpan env ev (s, d) = Inr (ok, s', d')"
  shows "add_frame ev s ok s' \<and> span_GetType d' = span_GetType d"
  using assms
  by (cases d) (auto simp: tag_data_def rbind_eq_Inr split: prod.splits dest: span_frames)

lemma add_frame_events:
  assumes "add_frame ev s ok s'"
  shows "sp_events s' = sp_events s @ (if ok then [the ev] else [])"
    and "sp_id s' = sp_id s" and "sp_trace_context s' = sp_trace_context s"
  using assms by (auto simp: add_frame_def split: if_splits)

section \<open>Properties\<close>

text \<open>
  C21. The contract of the virtual \<open>AddToSpan\<close>, for every class: a true verdict means that
  the span was pending and of the event's parser and that exactly this event was appended;
  a false verdict leaves the events alone; the id, the context, the class and the parser of
  the events never change, and a complete span stays complete.
\<close>

theorem AddToSpan_contract:
  assumes "AddToSpan env ev (s, d) = Inr (ok, s', d')" and "same_parser (sp_events s)"
  shows "sp_events s' = sp_events s @ (if ok then [the ev] else []) \<and>
         (ok \<longrightarrow> IsPotentialAdd ev s) \<and> same_parser (sp_events s') \<and>
         sp_id s' = sp_id s \<and> sp_trace_context s' = sp_trace_context s \<and>
         span_GetType d' = span_GetType d \<and> (IsComplete s \<longrightarrow> \<not> ok \<and> IsComplete s')"
proof -
  have f: "add_frame ev s ok s'" "span_GetType d' = span_GetType d"
    using AddToSpan_frame[OF assms(1)] by auto
  then show ?thesis
    using add_frame_events[OF f(1)] assms(2)
    by (auto simp: add_frame_def same_parser_snoc IsPotentialAdd_iff IsComplete_def IsPending_def)
qed

definition example_base :: "nat \<Rightarrow> ev_base" where
  "example_base t =
     \<lparr>ev_timestamp = of_nat t, ev_parser_identifier = 1, ev_parser_name = ''p''\<rparr>"

text \<open>A span that holds a posted interrupt is offered the event that clears it, and completes.\<close>

theorem AddToSpan_contract_witness:
  "\<forall>env. \<exists>s' d'.
     AddToSpan env (Some (HostClearInt (example_base 7)))
       (push_event (HostPostInt (example_base 5)) (EventSpan_fresh 1 1 0 ''host''),
        HostIntD (HostIntSpan_init\<lparr>his_host_post_int := Some (HostPostInt (example_base 5))\<rparr>)) =
       Inr (True, s', d') \<and>
     sp_events s' = [HostPostInt (example_base 5), HostClearInt (example_base 7)] \<and>
     same_parser (sp_events s') \<and> sp_id s' = 1 \<and> span_GetType d' = kHostInt"
proof
  fix env
  let ?s = "push_event (HostPostInt (example_base 5)) (EventSpan_fresh 1 1 0 ''host'')"
  let ?d = "HostIntD (HostIntSpan_init\<lparr>his_host_post_int := Some (HostPostInt (example_base 5))\<rparr>)"
  let ?e = "Some (HostClearInt (example_base 7))"
  have ids: "GetParserIdent (HostPostInt (example_base 5)) = GetParserIdent (HostClearInt (example_base 7))"
    by (simp add: GetParserIdent_def example_base_def)
  obtain s' d' where st: "AddToSpan env ?e (?s, ?d) = Inr (True, s', d')"
    using ids by (auto simp: HostIntSpan_AddToSpan_def HostIntSpan_init_def tag_data_def IsType_def)
  have "same_parser (sp_events ?s)" by simp
  note c = AddToSpan_contract[OF st this]
  have evs: "sp_events s' = [HostPostInt (example_base 5), HostClearInt (example_base 7)]"
    using conjunct1[OF c] by simp
  have facts: "same_parser (sp_events s')" "sp_id s' = 1" "span_GetType d' = kHostInt"
    using conjunct2[OF conjunct2[OF c]] by simp_all
  show "\<exists>s' d'. AddToSpan env ?e (?s, ?d) = Inr (True, s', d') \<and>
      sp_events s' = [HostPostInt (example_base 5), HostClearInt (example_base 7)] \<and>
      same_parser (sp_events s') \<and> sp_id s' = 1 \<and> span_GetType d' = kHostInt"
    using st evs facts by blast
qed

text \<open>
  \<open>AddToSpan\<close> has no defined result in exactly one situation: a pending call span that is
  fragmented, or has its entry, but no event is offered a system call entry, and reads
  \<open>back()\<close> of its empty event vector.
\<close>

lemma AddToSpan_defined:
  "(\<exists>e. AddToSpan env ev (s, d) = Inl e) \<longleftrightarrow>
     (\<exists>h. d = HostCallD h \<and> IsPotentialAdd ev s \<and> IsType ev kHostCallT \<and> IsSysEntry env ev \<and>
        sp_events s = [] \<and> (hcs_is_fragmented h \<or> hcs_call_span_entry h \<noteq> None))"
  by (cases d) (auto simp: tag_data_def HostCallSpan_AddToSpan_def split: prod.splits)

text \<open>
  C22. The NIC's DMA span refines its protocol: offered any sequence of events, it collects
  exactly those that continue issue, execution, completion with one id, address and parser,
  and it is complete exactly when it holds all three.
\<close>

theorem NicDmaSpan_protocol:
  "case offer NicDmaSpan_AddToSpan es (EventSpan_fresh i src ctx nm) NicDmaSpan_init of (s, d) \<Rightarrow>
     sp_events s = admitted (\<lambda>es. same_parser es \<and> nic_dma_shape es) [] es \<and>
     IsComplete s = (length (sp_events s) = 3)"
  using nic_dma.offer_admitted[of es i src ctx nm]
  by (auto simp: IsComplete_def IsPending_def nic_dma_final_def list_all_iff split: prod.splits)

text \<open>
  C23. The host's MMIO span refines its protocol (reads and writes of BAR 0 with their
  completions, posted writes with their immediate response, reads of other BARs at once).
\<close>

theorem HostMmioSpan_protocol:
  "case offer HostMmioSpan_AddToSpan es (EventSpan_fresh i src ctx nm) (HostMmioSpan_init bar) of
     (s, d) \<Rightarrow>
       sp_events s = admitted (\<lambda>es. same_parser es \<and> host_mmio_shape es) [] es \<and>
       IsComplete s = host_mmio_final (sp_events s)"
  using host_mmio.offer_admitted[of es i src ctx nm bar]
  by (auto simp: IsComplete_def IsPending_def list_all_iff split: prod.splits)

text \<open>
  C38. A span opened by a non-posted write to a BAR other than 0 never completes, whatever
  events follow.
\<close>

theorem HostMmioSpan_nonposted_stuck:
  assumes "bar \<noteq> 0"
  shows "case offer HostMmioSpan_AddToSpan (HostMmioW b ident addr sz bar off False # es)
           (EventSpan_fresh i src ctx nm) (HostMmioSpan_init bar') of
         (s, d) \<Rightarrow> IsPending s \<and> sp_events s = [HostMmioW b ident addr sz bar off False]"
proof -
  let ?w = "HostMmioW b ident addr sz bar off False"
  have stuck: "admitted (\<lambda>es. same_parser es \<and> host_mmio_shape es) [?w] es = [?w]"
    using assms by (induction es) (auto simp: mmio_to_device_def)
  then show ?thesis
    using host_mmio.offer_admitted[of "?w # es" i src ctx nm bar']
    by (auto simp: IsPending_def list_all_iff split: prod.splits)
qed

theorem HostMmioSpan_nonposted_stuck_witness:
  "case offer HostMmioSpan_AddToSpan
          [HostMmioW (example_base 1) 7 0 4 2 0 False, HostMmioCW (example_base 2) 7]
          (EventSpan_fresh 1 1 0 ''host'') (HostMmioSpan_init 2) of
     (s, d) \<Rightarrow> IsPending s \<and> sp_events s = [HostMmioW (example_base 1) 7 0 4 2 0 False]"
  by (rule HostMmioSpan_nonposted_stuck) simp

text \<open>
  C24. The host's DMA, interrupt, MSI-X and PCI spans refine their two-event protocols.
\<close>

theorem host_pair_protocols:
  "(case offer HostDmaSpan_AddToSpan es (EventSpan_fresh i src ctx nm) HostDmaSpan_init of (s, d) \<Rightarrow>
      sp_events s = admitted (\<lambda>es. same_parser es \<and> host_dma_shape es) [] es \<and>
      IsComplete s = (length (sp_events s) = 2)) \<and>
   (case offer HostIntSpan_AddToSpan es (EventSpan_fresh i src ctx nm) HostIntSpan_init of (s, d) \<Rightarrow>
      sp_events s = admitted (\<lambda>es. same_parser es \<and> host_int_shape es) [] es \<and>
      IsComplete s = (length (sp_events s) = 2)) \<and>
   (case offer HostMsixSpan_AddToSpan es (EventSpan_fresh i src ctx nm) HostMsixSpan_init of
      (s, d) \<Rightarrow>
      sp_events s = admitted (\<lambda>es. same_parser es \<and> host_msix_shape es) [] es \<and>
      IsComplete s = (length (sp_events s) = 2)) \<and>
   (case offer HostPciSpan_AddToSpan es (EventSpan_fresh i src ctx nm) HostPciSpan_init of (s, d) \<Rightarrow>
      sp_events s = admitted (\<lambda>es. same_parser es \<and> host_pci_shape es) [] es \<and>
      IsComplete s = (length (sp_events s) = 2))"
  using host_dma.offer_admitted[of es i src ctx nm] host_int.offer_admitted[of es i src ctx nm]
    host_msix.offer_admitted[of es i src ctx nm] host_pci.offer_admitted[of es i src ctx nm]
  by (auto simp: IsComplete_def IsPending_def two_final_def list_all_iff split: prod.splits)

text \<open>
  C29. The network device span refines its protocol (an enqueue, then a consistent dequeue or
  drop) on events whose IP and ARP headers agree.
\<close>

theorem NetDeviceSpan_protocol:
  assumes "list_all coherent es"
  shows "case offer NetDeviceSpan_AddToSpan es (EventSpan_fresh i src ctx nm) NetDeviceSpan_init of
     (s, d) \<Rightarrow>
       sp_events s = admitted (\<lambda>es. same_parser es \<and> net_device_shape es) [] es \<and>
       IsComplete s = (length (sp_events s) = 2)"
  using net_device.offer_admitted[of es i src ctx nm] assms
  by (auto simp: IsComplete_def IsPending_def two_final_def split: prod.splits)

definition example_net :: "Ipv4Header option \<Rightarrow> ArpHeader option \<Rightarrow> NetworkEvent" where
  "example_net ip arp =
     \<lparr>net_node = 1, net_device = 2, net_device_type = kCosimNetDevice, net_packet_uid = 3,
      net_interesting_flag = True, net_payload_size = 64, net_boundary_type = kFromAdapter,
      net_ethernet_header = None, net_arp_header = arp, net_ip_header = ip\<rparr>"

theorem NetDeviceSpan_protocol_witness:
  "case offer NetDeviceSpan_AddToSpan
          [NetworkEnqueue (example_base 1) (example_net None None),
           NetworkDrop (example_base 2) (example_net None None)]
          (EventSpan_fresh 1 1 0 ''net'') NetDeviceSpan_init of
     (s, d) \<Rightarrow>
       sp_events s = admitted (\<lambda>es. same_parser es \<and> net_device_shape es) []
          [NetworkEnqueue (example_base 1) (example_net None None),
           NetworkDrop (example_base 2) (example_net None None)] \<and>
       IsComplete s = (length (sp_events s) = 2)"
  by (rule NetDeviceSpan_protocol) (simp add: coherent_def example_net_def)

text \<open>Two enqueues: the headers of the first disagree on the source.\<close>

definition clashing_enqueue :: event where
  "clashing_enqueue =
     NetworkEnqueue (example_base 1)
       (example_net
         (Some \<lparr>iph_length = 20, iph_src_ip = \<lparr>ipv4_ip = 1\<rparr>, iph_dst_ip = \<lparr>ipv4_ip = 2\<rparr>\<rparr>)
         (Some \<lparr>arp_src_ip = \<lparr>ipv4_ip = 3\<rparr>, arp_dst_ip = \<lparr>ipv4_ip = 2\<rparr>, arp_is_request = True\<rparr>))"

definition plain_enqueue :: event where
  "plain_enqueue =
     NetworkEnqueue (example_base 2)
       (example_net
         (Some \<lparr>iph_length = 20, iph_src_ip = \<lparr>ipv4_ip = 7\<rparr>, iph_dst_ip = \<lparr>ipv4_ip = 8\<rparr>\<rparr>)
         None)"

text \<open>
  Without that agreement the verdict on an event depends on events that were rejected
  before: the span below takes the plain enqueue when it is fresh, and rejects it after it
  has rejected an enqueue whose IP and ARP headers disagree.
\<close>

theorem NetDeviceSpan_rejected_event_matters:
  "sp_events (fst (offer NetDeviceSpan_AddToSpan [plain_enqueue]
      (EventSpan_fresh 1 1 0 ''net'') NetDeviceSpan_init)) = [plain_enqueue] \<and>
   sp_events (fst (offer NetDeviceSpan_AddToSpan [clashing_enqueue, plain_enqueue]
      (EventSpan_fresh 1 1 0 ''net'') NetDeviceSpan_init)) = []"
  by (simp add: plain_enqueue_def clashing_enqueue_def NetDeviceSpan_AddToSpan_def
      NetDeviceSpan_init_def HandelEnqueue_def SetAndCheckIpArp_def SetAndCheckPotentialIp_def
      SetAndCheckPotentialArp_def example_net_def example_base_def GetParserIdent_def)

text \<open>
  C30. A call span that is not fragmented collects one system call: of the calls of the first
  call's parser everything before the second system call entry, whatever else it is offered
  in between, and it is complete exactly when that second entry has been seen.
\<close>

theorem HostCallSpan_one_syscall:
  assumes "\<forall>e \<in> set skipped. GetType e \<noteq> kHostCallT" and "GetType c = kHostCallT"
  shows "\<exists>s d. offer_calls env (skipped @ c # es) (EventSpan_fresh i src ctx nm)
             (HostCallSpan_init False) = Inr (s, d) \<and>
           sp_events s = calls_of_one_syscall env False (calls_of_parser (GetParserIdent c) (c # es)) \<and>
           (IsComplete s \<longleftrightarrow> entries env (calls_of_parser (GetParserIdent c) (c # es)) \<ge> 2)"
proof -
  let ?s = "EventSpan_fresh i src ctx nm" and ?d = "HostCallSpan_init False"
  obtain d1 where first: "HostCallSpan_AddToSpan env (Some c) ?s ?d = Inr (True, push_event c ?s, d1)"
    and d1: "\<not> hcs_is_fragmented d1" "hcs_call_span_entry d1 \<noteq> None \<longleftrightarrow> IsSysEntry env (Some c)"
    using HostCallSpan_first[of c ?s ?d env] assms(2) by (auto simp: HostCallSpan_init_def)
  show ?thesis
    using offer_calls_started[of "push_event c ?s" d1 "GetParserIdent c" env es] d1 assms
    by (auto simp: offer_calls_skip first calls_of_parser_Cons entries_Cons IsComplete_def
        IsPending_def not_less)
qed

theorem HostCallSpan_one_syscall_witness:
  "\<exists>s d. offer_calls
        \<lparr>linux_net_func_indicator = {}, driver_func_indicator = {}, kernel_tx_indicator = {},
         kernel_rx_indicator = {}, pci_write_indicators = {}, driver_tx_indicator = {},
         driver_rx_indicator = {}, sys_entry = {''e''}, blacklist_func_indicator = {},
         types_to_filter = {}\<rparr>
        ([HostPostInt (example_base 0)] @ HostCall (example_base 1) 0 (Some ''e'') None #
         [HostCall (example_base 2) 0 (Some ''f'') None])
        (EventSpan_fresh 1 1 0 ''host'') (HostCallSpan_init False) = Inr (s, d)"
  using HostCallSpan_one_syscall[of "[HostPostInt (example_base 0)]"
      "HostCall (example_base 1) 0 (Some ''e'') None"]
  by (simp del: offer_calls.simps) blast

end
