(* ===== verification/TracerSteps.thy ===== *)
theory TracerSteps
  imports TracerSafety SpanProtocol
begin

text \<open>
  The tracer as a state machine: the steps its clients take (starting, extending, cloning
  and finishing spans, and giving a root a parent later), the reachable states, and the
  export discipline as an invariant of every reachable state.
\<close>

section \<open>Well-formed heaps and their evolution\<close>

definition heap_ok :: "heap \<Rightarrow> bool" where
  "heap_ok h =
     ((\<forall>c \<in> set (h_contexts h). ctx_consistent c) \<and>
      (\<forall>i s d. h_spans h i = Some (s, d) \<longrightarrow>
         i \<noteq> 0 \<and> sp_id s = i \<and>
         (\<exists>a. sp_trace_context s = Some a \<and> a < length (h_contexts h))))"

lemma heap_ok_span_ok:
  assumes "heap_ok h" and "h_spans h i = Some sp"
  shows "span_ok h i" and "i \<noteq> 0"
proof -
  obtain s d where sp: "sp = (s, d)" by (cases sp)
  then obtain a where "sp_trace_context s = Some a" "a < length (h_contexts h)" "i \<noteq> 0"
    using assms unfolding heap_ok_def by blast
  then show "span_ok h i" "i \<noteq> 0"
    using assms sp by (auto simp: span_ok_def heap_ok_def)
qed

lemma heap_ok_sp_id:
  assumes "heap_ok h" and "h_spans h i = Some sp"
  shows "sp_id (fst sp) = i"
  using assms by (cases sp) (auto simp: heap_ok_def)

lemma parent_of_cong:
  assumes "h_spans h' i = h_spans h i" and "h_contexts h' = h_contexts h"
  shows "parent_of h' i = parent_of h i"
  unfolding parent_of_def assms ..

text \<open>
  An operation that leaves the tracer's export state alone and does not touch the spans of
  \<open>D\<close> nor the parents their contexts name.
\<close>

definition evolves :: "u64 set \<Rightarrow> 'x world \<Rightarrow> 'x world \<Rightarrow> bool" where
  "evolves D w w' =
     (w_exported w' = w_exported w \<and> w_waiting w' = w_waiting w \<and>
      w_exporter w' = w_exporter w \<and> heap_ok (w_heap w') \<and>
      (\<forall>i \<in> D. h_spans (w_heap w') i = h_spans (w_heap w) i \<and>
         parent_of (w_heap w') i = parent_of (w_heap w) i))"

lemma evolves_refl: "heap_ok (w_heap w) \<Longrightarrow> evolves D w w"
  by (simp add: evolves_def)

lemma evolves_trans: "evolves D w w1 \<Longrightarrow> evolves D w1 w2 \<Longrightarrow> evolves D w w2"
  by (simp add: evolves_def)

lemma evolves_heap_ok: "evolves D w w' \<Longrightarrow> heap_ok (w_heap w')"
  by (simp add: evolves_def)

lemma evolves_counters:
  assumes "heap_ok (w_heap w)"
  shows "evolves D w (w\<lparr>w_heap := (w_heap w)\<lparr>h_counters := c\<rparr>\<rparr>)"
  using assms by (auto simp: evolves_def heap_ok_def intro!: parent_of_cong)

lemma evolves_same_heap:
  assumes "heap_ok (w_heap w)"
  shows "evolves D w (w\<lparr>w_traces := tr\<rparr>)"
  using assms by (simp add: evolves_def)

lemma parent_of_append:
  assumes "heap_ok h" and "h_spans h i = Some sp"
  shows "parent_of (h\<lparr>h_contexts := h_contexts h @ cs\<rparr>) i = parent_of h i"
proof -
  obtain s d where sp: "sp = (s, d)" by (cases sp)
  then obtain a where "sp_trace_context s = Some a" "a < length (h_contexts h)"
    using assms unfolding heap_ok_def by blast
  then show ?thesis using assms(2) sp by (simp add: parent_of_def nth_append)
qed

lemma evolves_alloc_ctx:
  assumes "heap_ok (w_heap w)" and "ctx_consistent c" and "alloc_ctx c w = (a, w')"
  shows "evolves D w w'" and "a < length (h_contexts (w_heap w'))"
    and "h_spans (w_heap w') = h_spans (w_heap w)"
    and "h_counters (w_heap w') = h_counters (w_heap w)"
proof -
  have w': "w' = w\<lparr>w_heap := (w_heap w)\<lparr>h_contexts := h_contexts (w_heap w) @ [c]\<rparr>\<rparr>"
    and a: "a = length (h_contexts (w_heap w))"
    using assms(3) by (auto simp: alloc_ctx_def)
  have ok: "heap_ok (w_heap w')"
    using assms(1,2) unfolding heap_ok_def w' by (fastforce simp: less_Suc_eq)
  have "parent_of (w_heap w') i = parent_of (w_heap w) i" for i
  proof (cases "h_spans (w_heap w) i")
    case None
    then show ?thesis by (simp add: w' parent_of_def)
  next
    case (Some sp)
    then show ?thesis using parent_of_append[OF assms(1), of i sp "[c]"] by (simp add: w')
  qed
  then show "evolves D w w'" using ok by (simp add: evolves_def w')
  show "a < length (h_contexts (w_heap w'))" "h_spans (w_heap w') = h_spans (w_heap w)"
    "h_counters (w_heap w') = h_counters (w_heap w)"
    by (simp_all add: w' a)
qed

lemma evolves_put_span:
  assumes "heap_ok (w_heap w)" and "i \<notin> D" and "i \<noteq> 0" and "sp_id s = i"
    and "sp_trace_context s = Some a" and "a < length (h_contexts (w_heap w))"
  shows "evolves D w (put_span i (s, d) w)"
proof -
  have "heap_ok (w_heap (put_span i (s, d) w))"
    using assms unfolding heap_ok_def put_span_def by auto
  moreover have "parent_of (w_heap (put_span i (s, d) w)) j = parent_of (w_heap w) j" if "j \<in> D" for j
    using that assms(2) by (intro parent_of_cong) (auto simp: put_span_def)
  ultimately show ?thesis using assms(2) by (auto simp: evolves_def put_span_def)
qed

lemma evolves_put_ctx:
  assumes "heap_ok (w_heap w)" and "ctx_consistent c" and "a < length (h_contexts (w_heap w))"
    and "\<forall>i \<in> D. \<forall>s d. h_spans (w_heap w) i = Some (s, d) \<longrightarrow>
           sp_trace_context s \<noteq> Some a \<or>
           tc_has_parent c = tc_has_parent (h_contexts (w_heap w) ! a) \<and>
           tc_parent_id c = tc_parent_id (h_contexts (w_heap w) ! a)"
  shows "evolves D w (put_ctx a c w)"
proof -
  have ok: "heap_ok (w_heap (put_ctx a c w))"
    using assms(1-3) set_update_subset_insert[of "h_contexts (w_heap w)" a c]
    unfolding heap_ok_def put_ctx_def by auto
  have "parent_of (w_heap (put_ctx a c w)) i = parent_of (w_heap w) i" if "i \<in> D" for i
    using assms(3,4) that
    by (auto simp: parent_of_def put_ctx_def nth_list_update split: option.splits)
  then show ?thesis using ok by (auto simp: evolves_def put_ctx_def)
qed

lemma AddSpanToTrace_shape:
  assumes "AddSpanToTraceIfTraceExists t i w = Inr w'"
  shows "\<exists>tr. w' = w\<lparr>w_traces := tr\<rparr>"
proof (cases "GetTrace t w")
  case None
  then have "w' = w\<lparr>w_traces := w_traces w\<rparr>"
    using assms by (simp add: AddSpanToTraceIfTraceExists_def)
  then show ?thesis by blast
next
  case (Some tr)
  then show ?thesis
    using assms by (auto simp: AddSpanToTraceIfTraceExists_def put_trace_def rbind_eq_Inr)
qed

lemma evolves_AddSpanToTrace:
  assumes "heap_ok (w_heap w)" and "AddSpanToTraceIfTraceExists t i w = Inr w'"
  shows "evolves D w w'" and "w_heap w' = w_heap w"
  using AddSpanToTrace_shape[OF assms(2)] evolves_same_heap[OF assms(1)] by auto

section \<open>The starting operations\<close>

definition fresh_id :: "'x world \<Rightarrow> u64" where
  "fresh_id w = next_span_id (h_counters (w_heap w))"

lemma RegisterCreateContextParent_evolves:
  assumes "heap_ok (w_heap w)" and "RegisterCreateContextParent t p ts w = Inr (a, w')"
  shows "evolves D w w'" and "a < length (h_contexts (w_heap w'))"
    and "h_spans (w_heap w') = h_spans (w_heap w)" and "fresh_id w' = fresh_id w"
proof -
  obtain i w1 where w1: "take_context_id w = (i, w1)" by (cases "take_context_id w")
  then have w1': "w1 = w\<lparr>w_heap := (w_heap w)\<lparr>h_counters :=
      (h_counters (w_heap w))\<lparr>next_trace_context_id := next_trace_context_id (h_counters (w_heap w)) + 1\<rparr>\<rparr>\<rparr>"
    by (auto simp: take_context_id_def GetNextTraceContextId_def)
  obtain c where c: "TraceContext_child t i p ts = Inr c" "alloc_ctx c w1 = (a, w')"
    using assms(2) w1 by (auto simp: RegisterCreateContextParent_def rbind_eq_Inr)
  have con: "ctx_consistent c"
    using c(1) by (auto simp: TraceContext_child_def rbind_eq_Inr ctx_consistent_def IsValidId_def
        kInvalidId_def)
  have e1: "evolves D w w1" using evolves_counters[OF assms(1)] w1' by simp
  note e2 = evolves_alloc_ctx[OF evolves_heap_ok[OF e1] con c(2)]
  show "evolves D w w'" by (rule evolves_trans[OF e1 e2(1)])
  show "a < length (h_contexts (w_heap w'))" by (rule e2(2))
  show "h_spans (w_heap w') = h_spans (w_heap w)" "fresh_id w' = fresh_id w"
    using e2(3,4) by (simp_all add: w1' fresh_id_def)
qed

lemma create_span_evolves:
  assumes "heap_ok (w_heap w)" and "create_span env a e args w = Inr (i, w')"
    and "a < length (h_contexts (w_heap w))" and "fresh_id w \<noteq> 0" and "fresh_id w \<notin> D"
  shows "evolves D w w'" and "i = fresh_id w"
proof -
  let ?s = "EventSpan_fresh (fresh_id w) (sa_source_id args) a (sa_service_name args)"
  obtain c s d where s: "AddToSpan env (Some e) (?s, sa_data args) = Inr (True, s, d)"
    and i: "i = fresh_id w"
    and w': "w' = put_span (fresh_id w) (s, d) (w\<lparr>w_heap := (w_heap w)\<lparr>h_counters := c\<rparr>\<rparr>)"
    using assms(2) by (auto simp: create_span_def EventSpan_new_fresh fresh_id_def rbind_eq_Inr)
  have fr: "sp_id s = fresh_id w" "sp_trace_context s = Some a"
    using add_frame_events[OF conjunct1[OF AddToSpan_frame[OF s]]] by auto
  let ?w1 = "w\<lparr>w_heap := (w_heap w)\<lparr>h_counters := c\<rparr>\<rparr>"
  have e1: "evolves D w ?w1" by (rule evolves_counters[OF assms(1)])
  have "evolves D ?w1 w'"
    unfolding w' using evolves_put_span[OF evolves_heap_ok[OF e1] assms(5,4) fr] assms(3) by simp
  then show "evolves D w w'" by (rule evolves_trans[OF e1])
  show "i = fresh_id w" by (rule i)
qed

lemma StartSpanByParentInternal_evolves:
  assumes "heap_ok (w_heap w)" and "fresh_id w \<noteq> 0" and "fresh_id w \<notin> D"
    and "StartSpanByParentInternal env t p ts e args w = Inr (i, w')"
  shows "evolves D w w'"
proof -
  obtain a w1 w2 where steps: "RegisterCreateContextParent t p ts w = Inr (a, w1)"
      "create_span env a e args w1 = Inr (i, w2)" "AddSpanToTraceIfTraceExists t i w2 = Inr w'"
    using assms(4) by (auto simp: StartSpanByParentInternal_def rbind_eq_Inr)
  note e1 = RegisterCreateContextParent_evolves[OF assms(1) steps(1)]
  have e2: "evolves D w1 w2"
    using create_span_evolves(1)[OF evolves_heap_ok[OF e1(1)] steps(2) e1(2)] e1(4) assms(2,3) by simp
  have e3: "evolves D w2 w'" by (rule evolves_AddSpanToTrace[OF evolves_heap_ok[OF e2] steps(3)])
  show ?thesis using evolves_trans[OF evolves_trans[OF e1(1) e2] e3] .
qed

lemma StartSpan_evolves:
  assumes "heap_ok (w_heap w)" and "fresh_id w \<noteq> 0" and "fresh_id w \<notin> D"
    and "StartSpan env ev args w = Inr (i, w')"
  shows "evolves D w w'"
proof -
  obtain t w1 where w1: "take_trace_id w = (t, w1)" by (cases "take_trace_id w")
  obtain x w1' where w1': "take_context_id w1 = (x, w1')" by (cases "take_context_id w1")
  obtain a w2 where w2: "alloc_ctx (TraceContext_root t x) w1' = (a, w2)"
    by (cases "alloc_ctx (TraceContext_root t x) w1'")
  obtain e w3 tr w4 where steps: "create_span env a e args w2 = Inr (i, w3)"
      "InsertTrace tr w3 = Inr w'"
    using assms(4) w1 w1' w2
    by (auto simp: StartSpan_def StartSpanInternal_def RegisterCreateContext_def rbind_eq_Inr)
  have e1: "evolves D w w1"
    using evolves_counters[OF assms(1)] w1 by (auto simp: take_trace_id_def split: prod.splits)
  have e2: "evolves D w1 w1'"
    using evolves_counters[OF evolves_heap_ok[OF e1]] w1'
    by (auto simp: take_context_id_def split: prod.splits)
  have "ctx_consistent (TraceContext_root t x)"
    by (simp add: ctx_consistent_def TraceContext_root_def GetDefaultId_def)
  note e3 = evolves_alloc_ctx[OF evolves_heap_ok[OF e2] this w2]
  have fr: "fresh_id w2 = fresh_id w"
    using e3(4) w1 w1'
    by (auto simp: fresh_id_def take_trace_id_def take_context_id_def GetNextTraceId_def
        GetNextTraceContextId_def)
  have e4: "evolves D w2 w3"
    using create_span_evolves(1)[OF evolves_heap_ok[OF e3(1)] steps(1) e3(2)] fr assms(2,3) by simp
  have "\<exists>trs. w' = w3\<lparr>w_traces := trs\<rparr>"
    using steps(2) by (auto simp: InsertTrace_def rbind_eq_Inr)
  then have e5: "evolves D w3 w'" using evolves_same_heap[OF evolves_heap_ok[OF e4]] by auto
  show ?thesis
    using evolves_trans[OF evolves_trans[OF evolves_trans[OF evolves_trans[OF e1 e2] e3(1)] e4] e5] .
qed

lemma StartSpanByParent_evolves:
  assumes "heap_ok (w_heap w)" and "fresh_id w \<noteq> 0" and "fresh_id w \<notin> D"
    and "StartSpanByParent env p ev args w = Inr (i, w')"
  shows "evolves D w w'"
  using assms StartSpanByParentInternal_evolves[OF assms(1-3)]
  by (auto simp: StartSpanByParent_def rbind_eq_Inr)

lemma StartSpanByParentPassOnContext_evolves:
  assumes "heap_ok (w_heap w)" and "fresh_id w \<noteq> 0" and "fresh_id w \<notin> D"
    and "StartSpanByParentPassOnContext env con ev args w = Inr (i, w')"
  shows "evolves D w w'"
  using assms StartSpanByParentInternal_evolves[OF assms(1-3)]
  by (auto simp: StartSpanByParentPassOnContext_def rbind_eq_Inr)

lemma StartOrphanSpan_evolves:
  assumes "heap_ok (w_heap w)" and "fresh_id w \<noteq> 0" and "fresh_id w \<notin> D"
    and "StartOrphanSpan env ev args w = Inr (i, w')"
  shows "evolves D w w'"
proof -
  obtain a w1 where w1: "alloc_ctx (TraceContext_root kInvalidId kInvalidId) w = (a, w1)"
    by (cases "alloc_ctx (TraceContext_root kInvalidId kInvalidId) w")
  obtain e where step: "create_span env a e args w1 = Inr (i, w')"
    using assms(4) w1 by (auto simp: StartOrphanSpan_def rbind_eq_Inr)
  have "ctx_consistent (TraceContext_root kInvalidId kInvalidId)"
    by (simp add: ctx_consistent_def TraceContext_root_def GetDefaultId_def)
  note e1 = evolves_alloc_ctx[OF assms(1) this w1]
  have "evolves D w1 w'"
    using create_span_evolves(1)[OF evolves_heap_ok[OF e1(1)] step e1(2)] e1(4) assms(2,3)
    by (simp add: fresh_id_def)
  then show ?thesis by (rule evolves_trans[OF e1(1)])
qed

lemma CloneShared_evolves:
  assumes "heap_ok (w_heap w)" and "fresh_id w \<noteq> 0" and "fresh_id w \<notin> D"
    and "CloneShared j w = Inr (i, w')"
  shows "evolves D w w'"
proof -
  obtain s d where s: "h_spans (w_heap w) j = Some (s, d)"
    using assms(4) by (auto simp: CloneShared_def get_span_def rbind_eq_Inr)
  then obtain a where a: "sp_trace_context s = Some a" "a < length (h_contexts (w_heap w))"
    using assms(1) unfolding heap_ok_def by blast
  obtain c where w': "w' = put_span (fresh_id w) (s\<lparr>sp_id := fresh_id w\<rparr>, d)
      (w\<lparr>w_heap := (w_heap w)\<lparr>h_counters := c\<rparr>\<rparr>)"
    using assms(4) s
    by (auto simp: CloneShared_def get_span_def EventSpan_copy_def GetNextSpanId_def fresh_id_def)
  let ?w1 = "w\<lparr>w_heap := (w_heap w)\<lparr>h_counters := c\<rparr>\<rparr>"
  have e1: "evolves D w ?w1" by (rule evolves_counters[OF assms(1)])
  have "evolves D ?w1 w'"
    unfolding w'
    by (rule evolves_put_span[OF evolves_heap_ok[OF e1] assms(3,2), of _ a]) (use a in simp_all)
  then show ?thesis by (rule evolves_trans[OF e1])
qed

section \<open>The operations on existing spans\<close>

lemma evolves_update_span:
  assumes "heap_ok (w_heap w)" and "h_spans (w_heap w) i = Some (s, d)" and "i \<notin> D"
    and "sp_id s' = sp_id s" and "sp_trace_context s' = sp_trace_context s"
  shows "evolves D w (put_span i (s', d') w)"
proof -
  obtain a where "i \<noteq> 0" "sp_id s = i" "sp_trace_context s = Some a" "a < length (h_contexts (w_heap w))"
    using assms(1,2) unfolding heap_ok_def by blast
  then show ?thesis using evolves_put_span[OF assms(1,3), of s' a d'] assms(4,5) by simp
qed

lemma AddToSpan_evolves:
  assumes "heap_ok (w_heap w)" and "h_spans (w_heap w) i = Some (s, d)" and "i \<notin> D"
    and "AddToSpan env ev (s, d) = Inr (b, s', d')"
  shows "evolves D w (put_span i (s', d') w)"
  using evolves_update_span[OF assms(1-3)] add_frame_events(2,3)[OF conjunct1[OF AddToSpan_frame[OF assms(4)]]]
  by blast

lemma MarkAsDone_evolves:
  assumes "heap_ok (w_heap w)" and "h_spans (w_heap w) i = Some sp" and "i \<notin> D"
  shows "evolves D w (put_span i (MarkAsDone sp) w)"
proof -
  obtain s d where sp: "sp = (s, d)" by (cases sp)
  have "\<exists>d'. MarkAsDone sp = (set_pending False s, d')" unfolding sp by (cases d) auto
  then obtain d' where "MarkAsDone sp = (set_pending False s, d')" ..
  then show ?thesis using evolves_update_span[OF assms(1) _ assms(3), of s d "set_pending False s" d']
      assms(2) sp by simp
qed

lemma StartSpanSetParentContext_evolves:
  assumes "heap_ok (w_heap w)" and "i \<notin> D" and "StartSpanSetParentContext i con w = Inr w'"
  shows "evolves D w w'"
proof -
  obtain t p ts a w1 s d s' where steps: "RegisterCreateContextParent t p ts w = Inr (a, w1)"
      "h_spans (w_heap w1) i = Some (s, d)" "SetContext (w_heap w1) (Some a) True s = Inr (True, s')"
      "AddSpanToTraceIfTraceExists t i (put_span i (s', d) w1) = Inr w'"
    using assms(3) by (auto simp: StartSpanSetParentContext_def get_span_def rbind_eq_Inr)
  note e1 = RegisterCreateContextParent_evolves[OF assms(1) steps(1)]
  have s': "s' = s\<lparr>sp_trace_context := Some a\<rparr>"
    using steps(3) by (auto simp: SetContext_def rbind_eq_Inr split: if_splits)
  have "i \<noteq> 0" "sp_id s = i" using evolves_heap_ok[OF e1(1)] steps(2) unfolding heap_ok_def by blast+
  then have e2: "evolves D w1 (put_span i (s', d) w1)"
    using evolves_put_span[OF evolves_heap_ok[OF e1(1)] assms(2), of s' a d] e1(2) s' by simp
  have e3: "evolves D (put_span i (s', d) w1) w'"
    by (rule evolves_AddSpanToTrace[OF evolves_heap_ok[OF e2] steps(4)])
  show ?thesis using evolves_trans[OF evolves_trans[OF e1(1) e2] e3] .
qed

lemma move_to_trace_evolves:
  assumes "heap_ok (w_heap w)" and "move_to_trace t j w = Inr w'"
  shows "evolves D w w'"
proof -
  obtain a where a: "a < length (h_contexts (w_heap w))"
      "AddSpanToTraceIfTraceExists t j (put_ctx a (SetTraceId t (h_contexts (w_heap w) ! a)) w) = Inr w'"
    using assms(2) by (auto simp: move_to_trace_def get_ctx_def rbind_eq_Inr split: if_splits)
  let ?c = "SetTraceId t (h_contexts (w_heap w) ! a)"
  have "h_contexts (w_heap w) ! a \<in> set (h_contexts (w_heap w))" using a(1) by simp
  then have "ctx_consistent ?c"
    using assms(1) by (auto simp: heap_ok_def ctx_consistent_def SetTraceId_def)
  then have e1: "evolves D w (put_ctx a ?c w)"
    using evolves_put_ctx[OF assms(1) _ a(1)] by (simp add: SetTraceId_def)
  show ?thesis by (rule evolves_trans[OF e1 evolves_AddSpanToTrace(1)[OF evolves_heap_ok[OF e1] a(2)]])
qed

lemma move_children_evolves:
  "heap_ok (w_heap w) \<Longrightarrow> move_children t i js w = Inr w' \<Longrightarrow> evolves D w w'"
proof (induction js arbitrary: w)
  case Nil
  then show ?case by (simp add: evolves_refl)
next
  case (Cons j js)
  show ?case
  proof (cases "j = i")
    case True
    then show ?thesis using Cons by simp
  next
    case False
    then obtain w1 where w1: "move_to_trace t j w = Inr w1" "move_children t i js w1 = Inr w'"
      using Cons.prems(2) by (auto simp: rbind_eq_Inr)
    have e1: "evolves D w w1" by (rule move_to_trace_evolves[OF Cons.prems(1) w1(1)])
    show ?thesis
      by (rule evolves_trans[OF e1 Cons.IH[OF evolves_heap_ok[OF e1] w1(2)]])
  qed
qed

definition shares_ctx :: "heap \<Rightarrow> u64 \<Rightarrow> u64 \<Rightarrow> bool" where
  "shares_ctx h i j =
     (case (h_spans h i, h_spans h j) of
        (Some (s, _), Some (s', _)) \<Rightarrow> sp_trace_context s = sp_trace_context s'
      | _ \<Rightarrow> False)"

lemma AddParentLazily_evolves:
  assumes "heap_ok (w_heap w)" and "AddParentLazily (Some i) con w = Inr w'"
    and "\<forall>j \<in> D. \<not> shares_ctx (w_heap w) i j"
  shows "evolves D w w'"
proof -
  obtain s d a c and cn :: Context and w1 ti and em :: Trace and js w2 t where steps:
      "h_spans (w_heap w) i = Some (s, d)" "sp_trace_context s = Some a"
      "a < length (h_contexts (w_heap w))"
      "SetParentIdAndTs (cx_parent_id cn) (cx_parent_start_ts cn)
         (SetTraceId (cx_trace_id cn) (h_contexts (w_heap w) ! a)) = Inr c"
      "AddSpanToTraceIfTraceExists (cx_trace_id cn) i (put_ctx a c w) = Inr w1"
      "move_children (cx_trace_id cn) i js (put_trace ti em w1) = Inr w2"
      "RemoveTrace t w2 = Inr w'"
    using assms(2)
    by (clarsimp simp: AddParentLazily_def get_span_def get_ctx_def GetSpansAndRemoveSpans_def
        rbind_eq_Inr split: if_splits)
  have "ctx_consistent c"
    using steps(4)
    by (auto simp: SetParentIdAndTs_def rbind_eq_Inr ctx_consistent_def IsValidId_def kInvalidId_def)
  moreover have "sp_trace_context s' \<noteq> Some a"
    if "j \<in> D" "h_spans (w_heap w) j = Some (s', d')" for j s' d'
    using assms(3) that steps(1,2) by (auto simp: shares_ctx_def)
  ultimately have e1: "evolves D w (put_ctx a c w)"
    using evolves_put_ctx[OF assms(1) _ steps(3)] by blast
  have e2: "evolves D (put_ctx a c w) w1"
    by (rule evolves_AddSpanToTrace[OF evolves_heap_ok[OF e1] steps(5)])
  have e3: "evolves D w1 (put_trace ti em w1)"
    unfolding put_trace_def by (rule evolves_same_heap[OF evolves_heap_ok[OF e2]])
  have e4: "evolves D (put_trace ti em w1) w2"
    by (rule move_children_evolves[OF evolves_heap_ok[OF e3] steps(6)])
  have e5: "evolves D w2 w'"
    using steps(7) evolves_same_heap[OF evolves_heap_ok[OF e4]]
    by (auto simp: RemoveTrace_def rbind_eq_Inr)
  show ?thesis
    using evolves_trans[OF evolves_trans[OF evolves_trans[OF evolves_trans[OF e1 e2] e3] e4] e5] .
qed

section \<open>The step relation\<close>

text \<open>
  The clients' obligations are the guards: the span counter has not wrapped around, a span
  is not touched any more once it has been marked as done, and a parent is not added to a
  context that a finished span shares. Other parts of the program draw ids of their own.
\<close>

definition id_available :: "'x world \<Rightarrow> bool" where
  "id_available w = (fresh_id w \<noteq> 0 \<and> h_spans (w_heap w) (fresh_id w) = None)"

inductive tracer_step :: "'x exporter \<Rightarrow> (span \<Rightarrow> bool) \<Rightarrow> 'x world \<Rightarrow> 'x world \<Rightarrow> bool"
  for xp :: "'x exporter" and exportable :: "span \<Rightarrow> bool"
where
  step_start: "id_available w \<Longrightarrow> StartSpan env ev args w = Inr (i, w') \<Longrightarrow>
    tracer_step xp exportable w w'"
| step_by_parent: "id_available w \<Longrightarrow> StartSpanByParent env p ev args w = Inr (i, w') \<Longrightarrow>
    tracer_step xp exportable w w'"
| step_pass_on: "id_available w \<Longrightarrow> StartSpanByParentPassOnContext env con ev args w = Inr (i, w') \<Longrightarrow>
    tracer_step xp exportable w w'"
| step_orphan: "id_available w \<Longrightarrow> StartOrphanSpan env ev args w = Inr (i, w') \<Longrightarrow>
    tracer_step xp exportable w w'"
| step_clone: "id_available w \<Longrightarrow> CloneShared j w = Inr (i, w') \<Longrightarrow> tracer_step xp exportable w w'"
| step_add: "i \<notin> done_spans w \<Longrightarrow> h_spans (w_heap w) i = Some sp \<Longrightarrow>
    AddToSpan env ev sp = Inr (b, sp') \<Longrightarrow> tracer_step xp exportable w (put_span i sp' w)"
| step_mark: "i \<notin> done_spans w \<Longrightarrow> h_spans (w_heap w) i = Some sp \<Longrightarrow>
    tracer_step xp exportable w (put_span i (MarkAsDone sp) w)"
| step_original: "i \<notin> done_spans w \<Longrightarrow> h_spans (w_heap w) i = Some (s, d) \<Longrightarrow>
    SetOriginal original s = Inr s' \<Longrightarrow> tracer_step xp exportable w (put_span i (s', d) w)"
| step_set_parent: "i \<notin> done_spans w \<Longrightarrow> StartSpanSetParentContext i con w = Inr w' \<Longrightarrow>
    tracer_step xp exportable w w'"
| step_lazily: "i \<notin> done_spans w \<Longrightarrow> \<forall>j \<in> done_spans w. \<not> shares_ctx (w_heap w) i j \<Longrightarrow>
    AddParentLazily (Some i) con w = Inr w' \<Longrightarrow> tracer_step xp exportable w w'"
| step_ids: "tracer_step xp exportable w (w\<lparr>w_heap := (w_heap w)\<lparr>h_counters :=
    (h_counters (w_heap w))\<lparr>next_parser_id := p, next_spanner_id := s\<rparr>\<rparr>\<rparr>)"
| step_done: "i \<notin> done_spans w \<Longrightarrow> h_spans (w_heap w) i = Some sp \<Longrightarrow> exportable sp \<Longrightarrow>
    MarkSpanAsDone xp (Some i) w = Inr w' \<Longrightarrow> tracer_step xp exportable w w'"

inductive tracer_reachable :: "'x exporter \<Rightarrow> (span \<Rightarrow> bool) \<Rightarrow> 'x \<Rightarrow> 'x world \<Rightarrow> bool"
  for xp :: "'x exporter" and exportable :: "span \<Rightarrow> bool" and x0 :: 'x
where
  reach_init: "tracer_reachable xp exportable x0 (world_init x0)"
| reach_step: "tracer_reachable xp exportable x0 w \<Longrightarrow> tracer_step xp exportable w w' \<Longrightarrow>
    tracer_reachable xp exportable x0 w'"

inductive_cases tracer_stepE: "tracer_step xp exportable w w'"

lemma tracer_inv_done_ok:
  "tracer_inv w \<Longrightarrow> i \<in> done_spans w \<Longrightarrow> span_ok (w_heap w) i"
  by (auto simp: tracer_inv_def done_spans_def waiting_ok_def waiters_set_iff)

lemma tracer_inv_fresh:
  assumes "tracer_inv w" and "id_available w"
  shows "fresh_id w \<noteq> 0" and "fresh_id w \<notin> done_spans w"
  using assms(2) tracer_inv_done_ok[OF assms(1), of "fresh_id w"]
  by (auto simp: id_available_def span_ok_def)

context span_exporter
begin

lemma evolves_parents_first:
  assumes "\<forall>i \<in> set xs. parent_of h' i = parent_of h i"
  shows "parents_first h' S xs = parents_first h S xs"
  using assms by (induction xs arbitrary: S) auto

lemma evolves_inv:
  assumes inv: "exporter_inv w" and ev: "evolves (done_spans w) w w'"
  shows "exporter_inv w'"
proof -
  have same: "w_exported w' = w_exported w" "w_waiting w' = w_waiting w"
      "w_exporter w' = w_exporter w"
    using ev by (auto simp: evolves_def)
  have sp: "h_spans (w_heap w') i = h_spans (w_heap w) i" "parent_of (w_heap w') i = parent_of (w_heap w) i"
    if "i \<in> done_spans w" for i
    using ev that by (auto simp: evolves_def)
  have ti: "tracer_inv w" using inv by (simp add: exporter_inv_def)
  have ok: "span_ok (w_heap w') i" if i: "i \<in> done_spans w" for i
  proof -
    obtain sp0 where "h_spans (w_heap w) i = Some sp0"
      using tracer_inv_done_ok[OF ti i] by (auto simp: span_ok_def split: option.splits)
    then show ?thesis using heap_ok_span_ok(1)[OF evolves_heap_ok[OF ev]] sp(1)[OF i] by auto
  qed
  have wok: "waiting_ok (w_heap w') (w_waiting w)"
    using ti sp(2) ok unfolding waiting_ok_def tracer_inv_def done_spans_def waiters_set_def by fastforce
  have "parents_first (w_heap w') {} (w_exported w)"
    using ti sp(2) evolves_parents_first[of "w_exported w" "w_heap w'" "w_heap w" "{}"]
    by (auto simp: tracer_inv_def done_spans_def)
  then have "tracer_inv w'"
    using ti wok ok by (auto simp: tracer_inv_def same done_spans_def)
  moreover have "\<forall>z \<in> waiters_set (w_waiting w). may_export (w_heap w') z"
    using inv sp(1) by (auto simp: exporter_inv_def may_export_def done_spans_def)
  ultimately show ?thesis using inv by (simp add: exporter_inv_def same)
qed

lemma MarkSpanAsDone_ok:
  assumes inv: "exporter_inv w" and h: "heap_ok (w_heap w)"
    and i: "i \<notin> done_spans w" "h_spans (w_heap w) i = Some sp" "exportable sp"
  shows "\<exists>w'. MarkSpanAsDone xp (Some i) w = Inr w' \<and> exporter_inv w' \<and> w_heap w' = w_heap w \<and>
           done_spans w' = insert i (done_spans w)"
proof -
  have ok: "span_ok (w_heap w) i" "i \<noteq> 0" "may_export (w_heap w) i"
    using heap_ok_span_ok[OF h i(2)] heap_ok_sp_id[OF h i(2)] i(2,3) by (auto simp: may_export_def)
  show ?thesis
  proof (cases "case parent_of (w_heap w) i of None \<Rightarrow> True | Some p \<Rightarrow> p \<in> set (w_exported w)")
    case True
    then show ?thesis using MarkSpanAsDone_export[OF inv ok(1,2) i(1) ok(3)] by blast
  next
    case False
    then obtain p where "parent_of (w_heap w) i = Some p" "p \<notin> set (w_exported w)"
      by (auto split: option.splits)
    then show ?thesis using MarkSpanAsDone_wait[OF inv ok(1,2) i(1) ok(3)] by blast
  qed
qed

lemma tracer_step_inv:
  assumes "tracer_step xp exportable w w'" and "exporter_inv w" and "heap_ok (w_heap w)"
  shows "exporter_inv w' \<and> heap_ok (w_heap w')"
proof -
  have ti: "tracer_inv w" using assms(2) by (simp add: exporter_inv_def)
  note fr = tracer_inv_fresh[OF ti]
  have "evolves (done_spans w) w w' \<or> exporter_inv w' \<and> heap_ok (w_heap w')"
    using assms(1)
  proof cases
    case (step_start env ev args i)
    then show ?thesis using StartSpan_evolves[OF assms(3) fr] by blast
  next
    case (step_by_parent env p ev args i)
    then show ?thesis using StartSpanByParent_evolves[OF assms(3) fr] by blast
  next
    case (step_pass_on env con ev args i)
    then show ?thesis using StartSpanByParentPassOnContext_evolves[OF assms(3) fr] by blast
  next
    case (step_orphan env ev args i)
    then show ?thesis using StartOrphanSpan_evolves[OF assms(3) fr] by blast
  next
    case (step_clone j i)
    then show ?thesis using CloneShared_evolves[OF assms(3) fr] by blast
  next
    case (step_add i sp env ev b sp')
    then show ?thesis
      using AddToSpan_evolves[OF assms(3), of i "fst sp" "snd sp" "done_spans w" env ev b "fst sp'" "snd sp'"]
      by simp
  next
    case (step_mark i sp)
    then show ?thesis using MarkAsDone_evolves[OF assms(3)] by blast
  next
    case (step_original i s d original s')
    then show ?thesis
      using evolves_update_span[OF assms(3), of i s d "done_spans w" s' d]
      by (auto simp: SetOriginal_def rbind_eq_Inr)
  next
    case (step_set_parent i con)
    then show ?thesis using StartSpanSetParentContext_evolves[OF assms(3)] by blast
  next
    case (step_lazily i con)
    then show ?thesis using AddParentLazily_evolves[OF assms(3)] by blast
  next
    case (step_ids p s)
    then show ?thesis using evolves_counters[OF assms(3)] by blast
  next
    case (step_done i sp)
    then show ?thesis using MarkSpanAsDone_ok[OF assms(2,3), of i sp] assms(3) by auto
  qed
  then show ?thesis using evolves_inv[OF assms(2)] evolves_heap_ok by blast
qed

lemma tracer_reachable_inv:
  assumes "tracer_reachable xp exportable x0 w" and "known x0 []"
  shows "exporter_inv w \<and> heap_ok (w_heap w)"
  using assms(1)
proof induction
  case reach_init
  then show ?case using assms(2)
    by (simp add: world_init_def exporter_inv_def tracer_inv_def waiting_ok_def waiters_set_def heap_ok_def)
next
  case (reach_step w w')
  then show ?case using tracer_step_inv by blast
qed

end

end
