(* ===== verification/Text.thy ===== *)
theory Text
  imports Prelude
begin

text \<open>
  The text functions of the C and C++ standard library that the readers, parsers and
  printers use: the character classes of the C locale, printing integers in base 10 and 16,
  and \<open>strtoul\<close>/\<open>strtol\<close>. A \<open>char\<close> is a byte; a \<open>std::string\<close> is a list of them.
\<close>

section \<open>Character classes\<close>

definition code :: "char \<Rightarrow> nat" where
  "code c = of_char c"

definition isspace :: "char \<Rightarrow> bool" where
  "isspace c = (code c = 32 \<or> 9 \<le> code c \<and> code c \<le> 13)"

definition isdigit :: "char \<Rightarrow> bool" where
  "isdigit c = (48 \<le> code c \<and> code c \<le> 57)"

definition isalpha :: "char \<Rightarrow> bool" where
  "isalpha c = (65 \<le> code c \<and> code c \<le> 90 \<or> 97 \<le> code c \<and> code c \<le> 122)"

definition isalnum :: "char \<Rightarrow> bool" where
  "isalnum c = (isdigit c \<or> isalpha c)"

text \<open>The predicates of include/util/string_util.h.\<close>

definition is_space :: "char \<Rightarrow> bool" where
  "is_space c = isspace c"

definition is_num :: "char \<Rightarrow> bool" where
  "is_num c = isdigit c"

definition is_alnum :: "char \<Rightarrow> bool" where
  "is_alnum c = isalnum c"

definition is_alnum_dot_bar :: "char \<Rightarrow> bool" where
  "is_alnum_dot_bar c = (isalnum c \<or> c = CHR ''_'' \<or> c = CHR ''.'')"

section \<open>Printing integers\<close>

definition digit_char :: "nat \<Rightarrow> char" where
  "digit_char d = char_of (if d < 10 then 48 + d else 87 + d)"

function show_base :: "nat \<Rightarrow> nat \<Rightarrow> string" where
  "show_base b n =
     (if b < 2 \<or> n < b then [digit_char n] else show_base b (n div b) @ [digit_char (n mod b)])"
  by pat_completeness auto
termination by (relation "measure snd") (auto intro: div_less_dividend)

declare show_base.simps [simp del]

definition show_dec :: "nat \<Rightarrow> string" where
  "show_dec n = show_base 10 n"

definition show_hex :: "nat \<Rightarrow> string" where
  "show_hex n = show_base 16 n"

definition show_int :: "int \<Rightarrow> string" where
  "show_int i = (if i < 0 then CHR ''-'' # show_dec (nat (- i)) else show_dec (nat i))"

text \<open>\<open>std::to_string\<close> on \<open>uint64_t\<close> and \<open>int\<close>, and \<open>BoolToString\<close>.\<close>

definition to_string :: "'a::len word \<Rightarrow> string" where
  "to_string w = show_dec (unat w)"

definition to_string_int :: "i32 \<Rightarrow> string" where
  "to_string_int w = show_int (sint w)"

definition BoolToString :: "bool \<Rightarrow> string" where
  "BoolToString boo = (if boo then ''true'' else ''false'')"

section \<open>Parsing integers\<close>

definition digit_val :: "char \<Rightarrow> nat" where
  "digit_val c =
     (if isdigit c then code c - 48
      else if 97 \<le> code c \<and> code c \<le> 122 then code c - 87
      else if 65 \<le> code c \<and> code c \<le> 90 then code c - 55
      else 36)"

definition is_digit_of :: "nat \<Rightarrow> char \<Rightarrow> bool" where
  "is_digit_of b c = (digit_val c < b)"

definition value_of :: "nat \<Rightarrow> string \<Rightarrow> nat" where
  "value_of b s = foldl (\<lambda>n c. n * b + digit_val c) 0 s"

fun strip_sign :: "string \<Rightarrow> bool \<times> string" where
  "strip_sign (c # s) =
     (if c = CHR ''-'' then (True, s) else if c = CHR ''+'' then (False, s) else (False, c # s))"
| "strip_sign [] = (False, [])"

text \<open>In base 16 a prefix \<open>0x\<close> is skipped when a hexadecimal digit follows.\<close>

fun strip_0x :: "nat \<Rightarrow> string \<Rightarrow> string" where
  "strip_0x b (z # x # c # s) =
     (if b = 16 \<and> z = CHR ''0'' \<and> (x = CHR ''x'' \<or> x = CHR ''X'') \<and> is_digit_of 16 c
      then c # s else z # x # c # s)"
| "strip_0x b s = s"

definition strto_parts :: "nat \<Rightarrow> string \<Rightarrow> bool \<times> nat" where
  "strto_parts b s =
     (case strip_sign (dropWhile isspace s) of
        (neg, t) \<Rightarrow> (neg, value_of b (takeWhile (is_digit_of b) (strip_0x b t))))"

definition strtoul :: "nat \<Rightarrow> string \<Rightarrow> u64" where
  "strtoul b s =
     (case strto_parts b s of
        (neg, n) \<Rightarrow>
          if n \<ge> 2 ^ 64 then u64_max else if neg then - of_nat n else of_nat n)"

text \<open>\<open>strtol\<close> saturates at the bounds of \<open>long\<close>; the conversion to \<open>int\<close> truncates.\<close>

definition strtol_int :: "string \<Rightarrow> i32" where
  "strtol_int s =
     (case strto_parts 10 s of
        (neg, n) \<Rightarrow>
          if neg then (if n > 2 ^ 63 then 0 else - of_nat n)
          else if n \<ge> 2 ^ 63 then - 1 else of_nat n)"

section \<open>Facts\<close>

lemma code_char_of [simp]: "n < 256 \<Longrightarrow> code (char_of n) = n"
  by (simp add: code_def)

lemma digit_char_facts:
  assumes "d < 16"
  shows "digit_val (digit_char d) = d" and "isalnum (digit_char d)"
    and "d < 10 \<Longrightarrow> isdigit (digit_char d)" and "\<not> isspace (digit_char d)"
    and "digit_char d \<noteq> CHR ''-''" and "digit_char d \<noteq> CHR ''+''" and "digit_char d \<noteq> CHR ''x''"
    and "digit_char d \<noteq> CHR ''X''"
proof -
  have ne: "x \<noteq> y" if "code x \<noteq> code y" for x y using that by auto
  show "digit_val (digit_char d) = d" "isalnum (digit_char d)"
    "d < 10 \<Longrightarrow> isdigit (digit_char d)" "\<not> isspace (digit_char d)"
    using assms by (auto simp: digit_val_def digit_char_def isdigit_def isalnum_def isalpha_def isspace_def)
  show "digit_char d \<noteq> CHR ''-''" "digit_char d \<noteq> CHR ''+''" "digit_char d \<noteq> CHR ''x''"
    "digit_char d \<noteq> CHR ''X''"
    using assms by (intro ne; simp add: digit_char_def; simp add: code_def)+
qed

lemma value_of_snoc: "value_of b (s @ [c]) = value_of b s * b + digit_val c"
  by (simp add: value_of_def)

lemma show_base_digits:
  assumes "2 \<le> b" and "b \<le> 16"
  shows "show_base b n \<noteq> [] \<and> (\<forall>c \<in> set (show_base b n). \<exists>d < b. c = digit_char d) \<and>
         value_of b (show_base b n) = n"
  using assms
proof (induction b n rule: show_base.induct)
  case (1 b n)
  show ?case
  proof (cases "n < b")
    case True
    then have "show_base b n = [digit_char n]" by (simp add: show_base.simps)
    then show ?thesis using True 1(3) digit_char_facts(1)[of n] by (auto simp: value_of_def)
  next
    case False
    then have eq: "show_base b n = show_base b (n div b) @ [digit_char (n mod b)]"
      using 1(2) by (subst show_base.simps) simp
    have lt: "n mod b < b" using 1(2) by simp
    then have "digit_val (digit_char (n mod b)) = n mod b"
      using digit_char_facts(1)[of "n mod b"] 1(3) by linarith
    moreover have "\<exists>d < b. digit_char (n mod b) = digit_char d" using lt by blast
    ultimately show ?thesis using 1(1)[OF _ 1(2,3)] False 1(2)
      by (auto simp: eq value_of_snoc)
  qed
qed

lemma strip_0x_plain:
  assumes "\<forall>x \<in> set (take 1 (drop 1 s)). x \<noteq> CHR ''x'' \<and> x \<noteq> CHR ''X''"
  shows "strip_0x b s = s"
  using assms by (cases "(b, s)" rule: strip_0x.cases) auto

text \<open>Printing in a base and reading back in the same base, with any text behind.\<close>

lemma strto_parts_show:
  assumes "2 \<le> b" and "b \<le> 16" and "rest = [] \<or> \<not> isalnum (hd rest)"
  shows "strto_parts b (show_base b n @ rest) = (False, n)"
proof -
  note sh = show_base_digits[OF assms(1,2), of n]
  let ?s = "show_base b n"
  obtain c cs where s: "?s = c # cs" using sh by (cases ?s) auto
  then obtain d where d: "d < b" "c = digit_char d" using sh by auto
  have d16: "d < 16" using d(1) assms(2) by simp
  have dig: "is_digit_of b x \<and> x \<noteq> CHR ''x'' \<and> x \<noteq> CHR ''X''" if x: "x \<in> set ?s" for x
  proof -
    obtain e where e: "e < b" "x = digit_char e" using sh x by blast
    then have "e < 16" using assms(2) by simp
    then show ?thesis using e digit_char_facts[of e] by (simp add: is_digit_of_def)
  qed
  have rest: "rest = [] \<or> \<not> is_digit_of b (hd rest) \<and> hd rest \<noteq> CHR ''x'' \<and> hd rest \<noteq> CHR ''X''"
  proof (cases rest)
    case (Cons r rs)
    then have "\<not> isalnum r" using assms(3) by simp
    moreover have "isalnum CHR ''x''" "isalnum CHR ''X''"
      by (simp_all add: isalnum_def isalpha_def isdigit_def code_def)
    moreover have "digit_val r = 36"
      using \<open>\<not> isalnum r\<close> by (auto simp: digit_val_def isalnum_def isalpha_def)
    ultimately show ?thesis using Cons assms(2) by (auto simp: is_digit_of_def)
  qed simp
  have "dropWhile isspace (?s @ rest) = ?s @ rest"
    using digit_char_facts(4)[OF d16] d(2) s by simp
  moreover have "strip_sign (?s @ rest) = (False, ?s @ rest)"
    using digit_char_facts(5,6)[OF d16] d(2) s by simp
  moreover have "strip_0x b (?s @ rest) = ?s @ rest"
    by (rule strip_0x_plain) (use s dig rest in \<open>cases cs; cases rest; auto\<close>)
  moreover have "takeWhile (is_digit_of b) (?s @ rest) = ?s"
    using dig rest by (cases rest) (auto simp: takeWhile_append_stop)
  ultimately show ?thesis using sh by (simp add: strto_parts_def)
qed

end
