(* ===== verification/EventText.thy ===== *)
theory EventText
  imports EventOps Text
begin

text \<open>
  Printing events: the \<open>Display\<close> methods of source/events/events.cc and the stream
  operators of include/events/events.h. A \<open>Display\<close> method is the list of the insertions
  it makes; the stream interprets them, since \<open>std::hex\<close> stays in force for everything
  printed after it, in the same event and in the following ones.
\<close>

unbundle bit_operations_syntax

section \<open>The output stream\<close>

text \<open>
  \<open>Byte\<close> is \<open>setfill('0') << setw(2)\<close> followed by an unsigned number. An \<open>int\<close> printed
  while \<open>std::hex\<close> is in force is printed as the unsigned number with the same bits.
\<close>

datatype insertion = Str string | Num u64 | Signed i32 | Byte u8 | Hex | Dec

record ostream =
  os_hex :: bool
  os_text :: string

definition ostream_init :: ostream where
  "ostream_init = \<lparr>os_hex = False, os_text = []\<rparr>"

definition show_num :: "bool \<Rightarrow> nat \<Rightarrow> string" where
  "show_num hex n = (if hex then show_hex n else show_dec n)"

definition show_byte :: "bool \<Rightarrow> u8 \<Rightarrow> string" where
  "show_byte hex b =
     (let s = show_num hex (unat b) in replicate (2 - length s) CHR ''0'' @ s)"

fun insertion_text :: "bool \<Rightarrow> insertion \<Rightarrow> string" where
  "insertion_text hex (Str s) = s"
| "insertion_text hex (Num w) = show_num hex (unat w)"
| "insertion_text hex (Signed i) = (if hex then show_hex (unat i) else show_int (sint i))"
| "insertion_text hex (Byte b) = show_byte hex b"
| "insertion_text hex Hex = []"
| "insertion_text hex Dec = []"

fun insertion_hex :: "bool \<Rightarrow> insertion \<Rightarrow> bool" where
  "insertion_hex hex Hex = True"
| "insertion_hex hex Dec = False"
| "insertion_hex hex _ = hex"

definition insert_into :: "insertion \<Rightarrow> ostream \<Rightarrow> ostream" where
  "insert_into i os =
     \<lparr>os_hex = insertion_hex (os_hex os) i, os_text = os_text os @ insertion_text (os_hex os) i\<rparr>"

definition stream_out :: "insertion list \<Rightarrow> ostream \<Rightarrow> ostream" where
  "stream_out xs os = fold insert_into xs os"

text \<open>\<open>sim_string_utils::ValueToString\<close>: what a fresh stream makes of the insertions.\<close>

definition ValueToString :: "insertion list \<Rightarrow> string" where
  "ValueToString xs = os_text (stream_out xs ostream_init)"

section \<open>Network headers\<close>

definition MacAddress_Display :: "MacAddress \<Rightarrow> insertion list" where
  "MacAddress_Display m =
     Hex # Byte (mac_addr m ! 0) #
     concat (map (\<lambda>index. [Str '':'', Hex, Byte (mac_addr m ! index)]) [1..<kMacSize]) @ [Dec]"

definition Ipv4_Display :: "Ipv4 \<Rightarrow> insertion list" where
  "Ipv4_Display a =
     (let ip = ipv4_ip a in
      [Str (to_string (drop_bit 24 (0xff000000 AND ip))),
       Str ''.'', Str (to_string (drop_bit 16 (0x00ff0000 AND ip))),
       Str ''.'', Str (to_string (drop_bit 8 (0x0000ff00 AND ip))),
       Str ''.'', Str (to_string (0x000000ff AND ip))])"

definition EthernetHeader_Display :: "EthernetHeader \<Rightarrow> insertion list" where
  "EthernetHeader_Display h =
     [Str ''EthernetHeader('', Str ''length/type=0x'', Hex, Num (eth_length_type h)] @
     [Str '', source=''] @ MacAddress_Display (eth_src_mac h) @
     [Str '', destination=''] @ MacAddress_Display (eth_dst_mac h) @ [Str '')'']"

definition Ipv4Header_Display :: "Ipv4Header \<Rightarrow> insertion list" where
  "Ipv4Header_Display h =
     [Str ''Ipv4Header('', Str ''length: '', Num (iph_length h)] @
     [Str '' ''] @ Ipv4_Display (iph_src_ip h) @
     [Str '' > ''] @ Ipv4_Display (iph_dst_ip h) @ [Str '')'']"

definition ArpHeader_Display :: "ArpHeader \<Rightarrow> insertion list" where
  "ArpHeader_Display h =
     [Str ''ns3::ArpHeader('', Str (if arp_is_request h then ''request'' else ''reply'')] @
     [Str '' source ipv4: ''] @ Ipv4_Display (arp_src_ip h) @
     [Str '' dest ipv4: ''] @ Ipv4_Display (arp_dst_ip h) @ [Str '')'']"

fun NetworkDeviceType_show :: "NetworkDeviceType \<Rightarrow> string" where
  "NetworkDeviceType_show kCosimNetDevice = ''ns3::CosimNetDevice''"
| "NetworkDeviceType_show kSimpleNetDevice = ''ns3::SimpleNetDevice''"

fun EventBoundaryType_show :: "EventBoundaryType \<Rightarrow> string" where
  "EventBoundaryType_show kWithinSimulator = ''kWithinSimulator''"
| "EventBoundaryType_show kFromAdapter = ''kFromAdapter''"
| "EventBoundaryType_show kToAdapter = ''kToAdapter''"

section \<open>The \<open>Display\<close> methods\<close>

text \<open>The methods of the abstract classes; they take the members they print.\<close>

definition Event_Display :: "event \<Rightarrow> insertion list" where
  "Event_Display e =
     [Str (GetName e), Str '': source_id='', Num (GetParserIdent e),
      Str '', source_name='', Str (GetParserName e),
      Str '', timestamp='', Str (to_string (GetTs e))]"

definition HostInstr_Display :: "event \<Rightarrow> u64 \<Rightarrow> insertion list" where
  "HostInstr_Display e pc = Event_Display e @ [Str '', pc='', Hex, Num pc]"

definition HostIdOp_Display :: "event \<Rightarrow> u64 \<Rightarrow> insertion list" where
  "HostIdOp_Display e ident = Event_Display e @ [Str '', id='', Str (to_string ident)]"

definition HostAddrSizeOp_Display :: "event \<Rightarrow> u64 \<Rightarrow> u64 \<Rightarrow> u64 \<Rightarrow> insertion list" where
  "HostAddrSizeOp_Display e ident addr sz =
     HostIdOp_Display e ident @ [Str '', addr='', Hex, Num addr, Str '', size='', Num sz]"

definition HostMmioOp_Display ::
  "event \<Rightarrow> u64 \<Rightarrow> u64 \<Rightarrow> u64 \<Rightarrow> i32 \<Rightarrow> u64 \<Rightarrow> insertion list"
where
  "HostMmioOp_Display e ident addr sz bar offset =
     HostAddrSizeOp_Display e ident addr sz @
     [Str '', bar='', Signed bar, Str '', offset='', Hex, Num offset]"

definition NicDma_Display :: "event \<Rightarrow> u64 \<Rightarrow> u64 \<Rightarrow> u64 \<Rightarrow> insertion list" where
  "NicDma_Display e ident addr len =
     Event_Display e @
     [Str '', id='', Str (to_string ident), Str '', addr='', Hex, Num addr, Str '', size='', Num len]"

definition NicMmio_Display :: "event \<Rightarrow> u64 \<Rightarrow> u64 \<Rightarrow> u64 \<Rightarrow> insertion list" where
  "NicMmio_Display e off len val =
     Event_Display e @
     [Str '', off='', Hex, Num off, Str '', len='', Num len, Str '', val='', Hex, Num val]"

definition NicTrx_Display :: "event \<Rightarrow> u64 \<Rightarrow> bool \<Rightarrow> insertion list" where
  "NicTrx_Display e len is_read =
     Event_Display e @
     [Str '', len='', Num len, Str '', is_read='', Str (if is_read then ''true'' else ''false'')]"

definition NetworkEvent_Display :: "event \<Rightarrow> NetworkEvent \<Rightarrow> insertion list" where
  "NetworkEvent_Display e n =
     Event_Display e @
     [Str '', node='', Str (to_string_int (net_node n)),
      Str '', device='', Str (to_string_int (net_device n)),
      Str '', device_name='', Str (NetworkDeviceType_show (net_device_type n)),
      Str '', packet-uid='', Str (to_string (net_packet_uid n)),
      Str '', interesting='', Str (BoolToString (net_interesting_flag n)),
      Str '', payload_size='', Str (to_string (net_payload_size n)),
      Str '', boundary_type='', Str (EventBoundaryType_show (net_boundary_type n))] @
     (case net_ethernet_header n of None \<Rightarrow> [] | Some h \<Rightarrow> Str '', '' # EthernetHeader_Display h) @
     (case net_arp_header n of None \<Rightarrow> [] | Some h \<Rightarrow> Str '', '' # ArpHeader_Display h) @
     (case net_ip_header n of None \<Rightarrow> [] | Some h \<Rightarrow> Str '', '' # Ipv4Header_Display h)"

definition string_or_null :: "string option \<Rightarrow> string" where
  "string_or_null p = (case p of None \<Rightarrow> ''null'' | Some s \<Rightarrow> s)"

fun Display :: "event \<Rightarrow> insertion list" where
  "Display (SimSendSync b) = Event_Display (SimSendSync b)"
| "Display (SimProcInEvent b) = Event_Display (SimProcInEvent b)"
| "Display (HostInstr b pc) = HostInstr_Display (HostInstr b pc) pc"
| "Display (HostCall b pc func component) =
     HostInstr_Display (HostCall b pc func component) pc @
     [Str '', func='', Str (string_or_null func), Str '', comp='', Str (string_or_null component)]"
| "Display (HostMmioImRespPoW b) = Event_Display (HostMmioImRespPoW b)"
| "Display (HostMmioCR b i) = HostIdOp_Display (HostMmioCR b i) i"
| "Display (HostMmioCW b i) = HostIdOp_Display (HostMmioCW b i) i"
| "Display (HostMmioR b i addr sz bar off) =
     HostMmioOp_Display (HostMmioR b i addr sz bar off) i addr sz bar off"
| "Display (HostMmioW b i addr sz bar off posted) =
     HostMmioOp_Display (HostMmioW b i addr sz bar off posted) i addr sz bar off @
     [Str '', posted='', Str (BoolToString posted)]"
| "Display (HostDmaC b i) = HostIdOp_Display (HostDmaC b i) i"
| "Display (HostDmaR b i addr sz) = HostAddrSizeOp_Display (HostDmaR b i addr sz) i addr sz"
| "Display (HostDmaW b i addr sz) = HostAddrSizeOp_Display (HostDmaW b i addr sz) i addr sz"
| "Display (HostMsiX b vec) = Event_Display (HostMsiX b vec) @ [Str '', vec='', Str (to_string vec)]"
| "Display (HostConf b dev func reg bytes dat is_read) =
     Event_Display (HostConf b dev func reg bytes dat is_read) @
     [Str '', dev='', Hex, Num dev, Str '', func='', Hex, Num func, Str '', reg='', Hex, Num reg,
      Str '', bytes='', Num bytes, Str '', data='', Hex, Num dat]"
| "Display (HostClearInt b) = Event_Display (HostClearInt b)"
| "Display (HostPostInt b) = Event_Display (HostPostInt b)"
| "Display (HostPciRW b off sz is_read) =
     Event_Display (HostPciRW b off sz is_read) @
     [Str '', offset='', Hex, Num off, Str '', size='', Num sz]"
| "Display (NicMsix b vec isX) =
     Event_Display (NicMsix b vec isX) @ [Str '', vec='', Str (to_string vec)]"
| "Display (SetIX b intr) = Event_Display (SetIX b intr) @ [Str '', interrupt='', Hex, Num intr]"
| "Display (NicDmaI b i addr len) = NicDma_Display (NicDmaI b i addr len) i addr len"
| "Display (NicDmaEx b i addr len) = NicDma_Display (NicDmaEx b i addr len) i addr len"
| "Display (NicDmaEn b i addr len) = NicDma_Display (NicDmaEn b i addr len) i addr len"
| "Display (NicDmaCR b i addr len) = NicDma_Display (NicDmaCR b i addr len) i addr len"
| "Display (NicDmaCW b i addr len) = NicDma_Display (NicDmaCW b i addr len) i addr len"
| "Display (NicMmioR b off len val) = NicMmio_Display (NicMmioR b off len val) off len val"
| "Display (NicMmioW b off len val posted) =
     NicMmio_Display (NicMmioW b off len val posted) off len val @
     [Str '', posted='', Str (BoolToString posted)]"
| "Display (NicTx b len) = NicTrx_Display (NicTx b len) len False"
| "Display (NicRx b port len) =
     NicTrx_Display (NicRx b port len) len True @ [Str '', port='', Str (to_string_int port)]"
| "Display (NetworkEnqueue b n) = NetworkEvent_Display (NetworkEnqueue b n) n"
| "Display (NetworkDequeue b n) = NetworkEvent_Display (NetworkDequeue b n) n"
| "Display (NetworkDrop b n) = NetworkEvent_Display (NetworkDrop b n) n"

text \<open>\<open>EventPrinter::print\<close> (include/events/printer.h).\<close>

definition EventPrinter_print :: "event option \<Rightarrow> ostream \<Rightarrow> ostream res" where
  "EventPrinter_print event_ptr os =
     rbind (throw_if_empty event_ptr ''Event is null'') (\<lambda>e.
       Inr (stream_out (Display e @ [Str [CHR 0x0A]]) os))"

section \<open>Facts\<close>

fun text_of :: "bool \<Rightarrow> insertion list \<Rightarrow> string" where
  "text_of hex [] = []"
| "text_of hex (x # xs) = insertion_text hex x @ text_of (insertion_hex hex x) xs"

definition hex_after :: "bool \<Rightarrow> insertion list \<Rightarrow> bool" where
  "hex_after hex xs = fold (\<lambda>x b. insertion_hex b x) xs hex"

lemma hex_after_simps [simp]:
  "hex_after hex [] = hex" "hex_after hex (x # xs) = hex_after (insertion_hex hex x) xs"
  "hex_after hex (xs @ ys) = hex_after (hex_after hex xs) ys"
  by (simp_all add: hex_after_def)

lemma text_of_append [simp]: "text_of hex (xs @ ys) = text_of hex xs @ text_of (hex_after hex xs) ys"
  by (induction xs arbitrary: hex) auto

lemma stream_out_text:
  "stream_out xs os = \<lparr>os_hex = hex_after (os_hex os) xs, os_text = os_text os @ text_of (os_hex os) xs\<rparr>"
proof (induction xs arbitrary: os)
  case (Cons x xs)
  then show ?case by (simp add: stream_out_def insert_into_def)
qed (simp add: stream_out_def)

lemma ValueToString_text: "ValueToString xs = text_of False xs"
  by (simp add: ValueToString_def stream_out_text ostream_init_def)

end
