(* ===== verification/Exporter.thy ===== *)
theory Exporter
  imports TracerSteps EventText
begin

text \<open>
  The exporters of include/exporter/exporter.h. The OpenTelemetry SDK is not part of the
  repository: its operations are the fields of a record, over an abstract SDK state and
  opaque handles, and what its documentation promises (no factory and no tracer returns a
  null pointer) is the predicate \<open>otel_documented\<close>. The attributes of spans and events are
  modelled to the last key.
\<close>

section \<open>The SDK as a parameter\<close>

datatype attribute = AStr string | ANum u64

record 'h start_options =
  so_parent :: "'h option"
  so_system_time :: u64
  so_steady_time :: u64

record ('o, 'h) otel =
  ot_exporter :: "string \<Rightarrow> 'o \<Rightarrow> 'h option \<times> 'o"
  ot_batch_processor :: "'h \<Rightarrow> 'o \<Rightarrow> 'h option \<times> 'o"
  ot_simple_processor :: "'h \<Rightarrow> 'o \<Rightarrow> 'h option \<times> 'o"
  ot_provider :: "'h \<Rightarrow> (string \<times> string) list \<Rightarrow> 'o \<Rightarrow> 'h option \<times> 'o"
  ot_get_tracer :: "'h \<Rightarrow> string \<Rightarrow> 'o \<Rightarrow> 'h \<times> 'o"
  ot_start_span :: "'h \<Rightarrow> string \<Rightarrow> 'h start_options \<Rightarrow> 'o \<Rightarrow> 'h option \<times> 'o"
  ot_set_status_ok :: "'h \<Rightarrow> 'o \<Rightarrow> 'o"
  ot_get_context :: "'h \<Rightarrow> 'o \<Rightarrow> 'h"
  ot_set_attribute :: "'h \<Rightarrow> string \<Rightarrow> attribute \<Rightarrow> 'o \<Rightarrow> 'o"
  ot_add_event :: "'h \<Rightarrow> string \<Rightarrow> u64 \<Rightarrow> (string \<times> string) list \<Rightarrow> 'o \<Rightarrow> 'o"
  ot_end :: "'h \<Rightarrow> u64 \<Rightarrow> 'o \<Rightarrow> 'o"
  ot_flush_tracer :: "'h \<Rightarrow> 'o \<Rightarrow> 'o"
  ot_flush_global :: "'o \<Rightarrow> 'o"

definition otel_documented :: "('o, 'h) otel \<Rightarrow> bool" where
  "otel_documented ot =
     ((\<forall>url o'. fst (ot_exporter ot url o') \<noteq> None) \<and>
      (\<forall>e o'. fst (ot_batch_processor ot e o') \<noteq> None) \<and>
      (\<forall>e o'. fst (ot_simple_processor ot e o') \<noteq> None) \<and>
      (\<forall>p attrs o'. fst (ot_provider ot p attrs o') \<noteq> None) \<and>
      (\<forall>t nm opts o'. fst (ot_start_span ot t nm opts o') \<noteq> None))"

section \<open>The members of the exporter\<close>

text \<open>
  \<open>next_instance_id\<close> is the static variable of \<open>CreateTracer\<close>; \<open>time_offset_nanosec_\<close> is
  the two's complement of the \<open>int64_t\<close>.
\<close>

record ('o, 'h) OtlpSpanExporter =
  ox_time_offset_nanosec :: u64
  ox_url :: string
  ox_batch_mode :: bool
  ox_lib_name :: string
  ox_context_map :: "(u64 \<times> 'h) list"
  ox_span_map :: "(u64 \<times> 'h) list"
  ox_tracer_map :: "(string \<times> 'h) list"
  ox_provider :: "'h list"
  ox_next_instance_id :: u64
  ox_sdk :: 'o

definition OtlpSpanExporter_new :: "u64 \<Rightarrow> string \<Rightarrow> bool \<Rightarrow> string \<Rightarrow> 'o \<Rightarrow> ('o, 'h) OtlpSpanExporter" where
  "OtlpSpanExporter_new now_offset url batch_mode lib_name sdk =
     \<lparr>ox_time_offset_nanosec = now_offset, ox_url = url, ox_batch_mode = batch_mode,
      ox_lib_name = lib_name, ox_context_map = [], ox_span_map = [], ox_tracer_map = [],
      ox_provider = [], ox_next_instance_id = 0, ox_sdk = sdk\<rparr>"

definition InsertNewContext ::
  "u64 \<Rightarrow> 'h \<Rightarrow> ('o, 'h) OtlpSpanExporter \<Rightarrow> ('o, 'h) OtlpSpanExporter res"
where
  "InsertNewContext span_id con x =
     rbind (throw_on_false (IsValidId span_id) ''Invalid Identifier'') (\<lambda>_.
     rbind (throw_on_false (map_of (ox_context_map x) span_id = None)
              ''InsertNewContext could not insert context into map'') (\<lambda>_.
       Inr (x\<lparr>ox_context_map := (span_id, con) # ox_context_map x\<rparr>)))"

definition otlp_GetContext :: "u64 \<Rightarrow> ('o, 'h) OtlpSpanExporter \<Rightarrow> 'h res" where
  "otlp_GetContext span_id x =
     rbind (throw_on_false (IsValidId span_id) ''GetContext context_to_get is null'') (\<lambda>_.
       throw_if_empty (map_of (ox_context_map x) span_id) ''could not find context for key'')"

definition InsertNewSpan ::
  "u64 \<Rightarrow> 'h option \<Rightarrow> ('o, 'h) OtlpSpanExporter \<Rightarrow> ('o, 'h) OtlpSpanExporter res"
where
  "InsertNewSpan span_id new_span x =
     rbind (throw_if_empty new_span ''InsertNewSpan new_span is null'') (\<lambda>s.
     rbind (throw_on_false (map_of (ox_span_map x) span_id = None)
              ''InsertNewSpan could not insert into span map'') (\<lambda>_.
       Inr (x\<lparr>ox_span_map := (span_id, s) # ox_span_map x\<rparr>)))"

definition RemoveSpan ::
  "u64 \<Rightarrow> ('o, 'h) OtlpSpanExporter \<Rightarrow> ('o, 'h) OtlpSpanExporter res"
where
  "RemoveSpan span_id x =
     rbind (throw_on (map_of (ox_span_map x) span_id = None)
              ''RemoveSpan did not remove a single span'') (\<lambda>_.
       Inr (x\<lparr>ox_span_map := filter (\<lambda>(k, _). k \<noteq> span_id) (ox_span_map x)\<rparr>))"

text \<open>\<open>find(span_id)->second\<close> is undefined when the span is missing.\<close>

definition otlp_GetSpan :: "u64 \<Rightarrow> ('o, 'h) OtlpSpanExporter \<Rightarrow> 'h res" where
  "otlp_GetSpan span_id x = or_undefined (map_of (ox_span_map x) span_id) ''span_map_.find(span_id)->second''"

definition create_processor ::
  "('o, 'h) otel \<Rightarrow> bool \<Rightarrow> 'h \<Rightarrow> 'o \<Rightarrow> 'h option \<times> 'o"
where
  "create_processor ot batch exporter sdk =
     (if batch then ot_batch_processor ot exporter sdk else ot_simple_processor ot exporter sdk)"

definition CreateTracer ::
  "('o, 'h) otel \<Rightarrow> string \<Rightarrow> ('o, 'h) OtlpSpanExporter \<Rightarrow> ('h \<times> ('o, 'h) OtlpSpanExporter) res"
where
  "CreateTracer ot service_name x =
     (case ot_exporter ot (ox_url x) (ox_sdk x) of (exporter_p, o1) \<Rightarrow>
      rbind (throw_if_empty exporter_p ''SpanExporter is null'') (\<lambda>exporter.
      case create_processor ot (ox_batch_mode x) exporter o1 of (processor_p, o2) \<Rightarrow>
      rbind (throw_if_empty processor_p ''SpanProcessor is null'') (\<lambda>processor.
      case ot_provider ot processor
             [(''service.name'', service_name),
              (''service-instance'', to_string (ox_next_instance_id x))] o2 of (provider_p, o3) \<Rightarrow>
      rbind (throw_if_empty provider_p ''TracerProvider is null'') (\<lambda>provider.
      case ot_get_tracer ot provider (ox_lib_name x) o3 of (tracer, o4) \<Rightarrow>
        Inr (tracer, x\<lparr>ox_next_instance_id := ox_next_instance_id x + 1,
                       ox_provider := ox_provider x @ [provider], ox_sdk := o4\<rparr>)))))"

definition GetTracerLazy ::
  "('o, 'h) otel \<Rightarrow> string \<Rightarrow> ('o, 'h) OtlpSpanExporter \<Rightarrow> ('h \<times> ('o, 'h) OtlpSpanExporter) res"
where
  "GetTracerLazy ot service_name x =
     (case map_of (ox_tracer_map x) service_name of
        Some tracer \<Rightarrow> Inr (tracer, x)
      | None \<Rightarrow>
          rbind (CreateTracer ot service_name x) (\<lambda>(tracer, x1).
            Inr (tracer, x1\<lparr>ox_tracer_map := (service_name, tracer) # ox_tracer_map x1\<rparr>)))"

text \<open>
  The sum of an \<open>int64_t\<close> and a \<open>uint64_t\<close> is computed modulo \<open>2 ^ 64\<close> and then read as
  the signed count of nanoseconds.
\<close>

definition ToSteadyNanoseconds :: "u64 \<Rightarrow> ('o, 'h) OtlpSpanExporter \<Rightarrow> u64" where
  "ToSteadyNanoseconds timestamp_pico x = ox_time_offset_nanosec x + timestamp_pico div 1000"

definition ToSystemNanoseconds :: "u64 \<Rightarrow> ('o, 'h) OtlpSpanExporter \<Rightarrow> u64" where
  "ToSystemNanoseconds timestamp_pico x = ox_time_offset_nanosec x + timestamp_pico div 1000"

section \<open>Event attributes\<close>

text \<open>\<open>std::map::insert\<close> keeps the first value of a key.\<close>

type_synonym attributes = "(string \<times> string) list"

definition put_attr :: "string \<Rightarrow> string \<Rightarrow> attributes \<Rightarrow> attributes" where
  "put_attr key val m = (if map_of m key = None then m @ [(key, val)] else m)"

fun put_attrs :: "(string \<times> string) list \<Rightarrow> attributes \<Rightarrow> attributes" where
  "put_attrs [] m = m"
| "put_attrs ((key, val) # kvs) m = put_attrs kvs (put_attr key val m)"

definition add_Event :: "event \<Rightarrow> attributes \<Rightarrow> attributes" where
  "add_Event e =
     put_attrs [(''timestamp'', to_string (GetTs e)), (''parser_ident'', to_string (GetParserIdent e)),
       (''parser name'', GetParserName e), (''type'', GetTypeStr (Some e))]"

definition add_HostInstr :: "event \<Rightarrow> u64 \<Rightarrow> attributes \<Rightarrow> attributes" where
  "add_HostInstr e pc m = put_attrs [(''pc'', to_string pc)] (add_Event e m)"

text \<open>The function and the component are dereferenced without a check.\<close>

definition add_HostCall ::
  "event \<Rightarrow> u64 \<Rightarrow> string option \<Rightarrow> string option \<Rightarrow> attributes \<Rightarrow> attributes res"
where
  "add_HostCall e pc fn component m =
     rbind (or_undefined fn ''*(event->GetFunc())'') (\<lambda>f.
     rbind (or_undefined component ''*(event->GetComp())'') (\<lambda>c.
       Inr (put_attrs [(''func'', f), (''comp'', c)] (add_HostInstr e pc m))))"

definition add_HostIdOp :: "event \<Rightarrow> u64 \<Rightarrow> attributes \<Rightarrow> attributes" where
  "add_HostIdOp e ident m = put_attrs [(''id'', to_string ident)] (add_Event e m)"

definition add_HostAddrSizeOp :: "event \<Rightarrow> u64 \<Rightarrow> u64 \<Rightarrow> u64 \<Rightarrow> attributes \<Rightarrow> attributes" where
  "add_HostAddrSizeOp e ident addr sz m =
     put_attrs [(''addr'', to_string addr), (''size'', to_string sz)] (add_HostIdOp e ident m)"

definition add_HostMmioOp ::
  "event \<Rightarrow> u64 \<Rightarrow> u64 \<Rightarrow> u64 \<Rightarrow> i32 \<Rightarrow> u64 \<Rightarrow> attributes \<Rightarrow> attributes"
where
  "add_HostMmioOp e ident addr sz bar off m =
     put_attrs [(''bar'', to_string_int bar), (''offset'', to_string off)]
       (add_HostAddrSizeOp e ident addr sz m)"

definition add_HostMsiX :: "event \<Rightarrow> u64 \<Rightarrow> attributes \<Rightarrow> attributes" where
  "add_HostMsiX e vec m = put_attrs [(''vec'', to_string vec)] (add_Event e m)"

text \<open>Under the key \<open>data\<close> the code stores the number of bytes again.\<close>

definition add_HostConf ::
  "event \<Rightarrow> u64 \<Rightarrow> u64 \<Rightarrow> u64 \<Rightarrow> u64 \<Rightarrow> bool \<Rightarrow> attributes \<Rightarrow> attributes"
where
  "add_HostConf e dev fn reg bytes is_r m =
     put_attrs [(''dev'', to_string dev), (''func'', to_string fn), (''reg'', to_string reg),
       (''bytes'', to_string bytes), (''data'', to_string bytes),
       (''is_read'', if is_r then ''true'' else ''false'')] (add_Event e m)"

definition add_HostPciRW :: "event \<Rightarrow> u64 \<Rightarrow> u64 \<Rightarrow> bool \<Rightarrow> attributes \<Rightarrow> attributes" where
  "add_HostPciRW e off sz is_r m =
     put_attrs [(''offset'', to_string off), (''size'', to_string sz),
       (''is_read'', if is_r then ''true'' else ''false'')] (add_Event e m)"

definition add_NicMsix :: "event \<Rightarrow> u16 \<Rightarrow> bool \<Rightarrow> attributes \<Rightarrow> attributes" where
  "add_NicMsix e vec isX m =
     put_attrs [(''vec'', to_string vec), (''isX'', BoolToString isX)] (add_Event e m)"

text \<open>Under the key \<open>addr\<close> the code stores the id again.\<close>

definition add_NicDma :: "event \<Rightarrow> u64 \<Rightarrow> u64 \<Rightarrow> attributes \<Rightarrow> attributes" where
  "add_NicDma e ident len m =
     put_attrs [(''id'', to_string ident), (''addr'', to_string ident), (''len'', to_string len)]
       (add_Event e m)"

definition add_NicMmio :: "event \<Rightarrow> u64 \<Rightarrow> u64 \<Rightarrow> u64 \<Rightarrow> attributes \<Rightarrow> attributes" where
  "add_NicMmio e off len val m =
     put_attrs [(''off'', to_string off), (''len'', to_string len), (''val'', to_string val)]
       (add_Event e m)"

definition add_NicMmioW :: "event \<Rightarrow> u64 \<Rightarrow> u64 \<Rightarrow> u64 \<Rightarrow> bool \<Rightarrow> attributes \<Rightarrow> attributes" where
  "add_NicMmioW e off len val posted m =
     put_attrs [(''posted'', BoolToString posted)] (add_NicMmio e off len val m)"

definition add_NicTrx :: "event \<Rightarrow> u64 \<Rightarrow> attributes \<Rightarrow> attributes" where
  "add_NicTrx e len m = put_attrs [(''len'', to_string len)] (add_Event e m)"

definition add_NicRx :: "event \<Rightarrow> i32 \<Rightarrow> u64 \<Rightarrow> attributes \<Rightarrow> attributes" where
  "add_NicRx e port len m = put_attrs [(''port'', to_string_int port)] (add_NicTrx e len m)"

definition ethernet_attrs :: "EthernetHeader \<Rightarrow> (string \<times> string) list" where
  "ethernet_attrs hdr =
     [(''src-mac'', ValueToString (MacAddress_Display (eth_src_mac hdr))),
      (''dst-mac'', ValueToString (MacAddress_Display (eth_dst_mac hdr))),
      (''length-type'', ''0x'' @ show_hex (unat (eth_length_type hdr)))]"

definition arp_attrs :: "ArpHeader \<Rightarrow> (string \<times> string) list" where
  "arp_attrs hdr =
     [(''request'', BoolToString (arp_is_request hdr)),
      (''src-ip'', ValueToString (Ipv4_Display (arp_src_ip hdr))),
      (''dst-ip'', ValueToString (Ipv4_Display (arp_dst_ip hdr)))]"

definition ip_attrs :: "Ipv4Header \<Rightarrow> (string \<times> string) list" where
  "ip_attrs hdr =
     [(''length'', to_string (iph_length hdr)),
      (''src-ip'', ValueToString (Ipv4_Display (iph_src_ip hdr))),
      (''dst-ip'', ValueToString (Ipv4_Display (iph_dst_ip hdr)))]"

definition add_NetworkEvent :: "event \<Rightarrow> NetworkEvent \<Rightarrow> attributes \<Rightarrow> attributes" where
  "add_NetworkEvent e n m =
     put_attrs
       ([(''node'', to_string_int (net_node n)), (''device'', to_string_int (net_device n)),
         (''device-type'', ValueToString [Str (NetworkDeviceType_show (net_device_type n))]),
         (''payload-size'', to_string (net_payload_size n)),
         (''boundary-type'', ValueToString [Str (EventBoundaryType_show (net_boundary_type n))]),
         (''device-tpe'', ValueToString [Str (NetworkDeviceType_show (net_device_type n))])] @
        (case net_ethernet_header n of None \<Rightarrow> [] | Some hdr \<Rightarrow> ethernet_attrs hdr) @
        (case net_arp_header n of None \<Rightarrow> [] | Some hdr \<Rightarrow> arp_attrs hdr) @
        (case net_ip_header n of None \<Rightarrow> [] | Some hdr \<Rightarrow> ip_attrs hdr))
       (add_Event e m)"

text \<open>The switch of \<open>add_Events\<close>: the types without a case terminate.\<close>

fun event_attributes :: "event \<Rightarrow> attributes res" where
  "event_attributes (HostCall b pc fn component) =
     add_HostCall (HostCall b pc fn component) pc fn component []"
| "event_attributes (HostMsiX b vec) = Inr (add_HostMsiX (HostMsiX b vec) vec [])"
| "event_attributes (HostMmioW b i addr sz bar off posted) =
     Inr (add_HostMmioOp (HostMmioW b i addr sz bar off posted) i addr sz bar off [])"
| "event_attributes (HostMmioR b i addr sz bar off) =
     Inr (add_HostMmioOp (HostMmioR b i addr sz bar off) i addr sz bar off [])"
| "event_attributes (HostMmioImRespPoW b) = Inr (add_Event (HostMmioImRespPoW b) [])"
| "event_attributes (HostMmioCW b i) = Inr (add_HostIdOp (HostMmioCW b i) i [])"
| "event_attributes (HostMmioCR b i) = Inr (add_HostIdOp (HostMmioCR b i) i [])"
| "event_attributes (HostPciRW b off sz is_r) =
     Inr (add_HostPciRW (HostPciRW b off sz is_r) off sz is_r [])"
| "event_attributes (HostConf b dev fn reg bytes dat is_r) =
     Inr (add_HostConf (HostConf b dev fn reg bytes dat is_r) dev fn reg bytes is_r [])"
| "event_attributes (HostDmaW b i addr sz) =
     Inr (add_HostAddrSizeOp (HostDmaW b i addr sz) i addr sz [])"
| "event_attributes (HostDmaR b i addr sz) =
     Inr (add_HostAddrSizeOp (HostDmaR b i addr sz) i addr sz [])"
| "event_attributes (HostDmaC b i) = Inr (add_HostIdOp (HostDmaC b i) i [])"
| "event_attributes (HostPostInt b) = Inr (add_Event (HostPostInt b) [])"
| "event_attributes (HostClearInt b) = Inr (add_Event (HostClearInt b) [])"
| "event_attributes (NicDmaI b i addr len) = Inr (add_NicDma (NicDmaI b i addr len) i len [])"
| "event_attributes (NicDmaEx b i addr len) = Inr (add_NicDma (NicDmaEx b i addr len) i len [])"
| "event_attributes (NicDmaCW b i addr len) = Inr (add_NicDma (NicDmaCW b i addr len) i len [])"
| "event_attributes (NicDmaCR b i addr len) = Inr (add_NicDma (NicDmaCR b i addr len) i len [])"
| "event_attributes (NicMmioR b off len val) =
     Inr (add_NicMmio (NicMmioR b off len val) off len val [])"
| "event_attributes (NicMmioW b off len val posted) =
     Inr (add_NicMmioW (NicMmioW b off len val posted) off len val posted [])"
| "event_attributes (NicRx b port len) = Inr (add_NicRx (NicRx b port len) port len [])"
| "event_attributes (NicTx b len) = Inr (add_NicTrx (NicTx b len) len [])"
| "event_attributes (NicMsix b vec isX) = Inr (add_NicMsix (NicMsix b vec isX) vec isX [])"
| "event_attributes (NetworkEnqueue b n) = Inr (add_NetworkEvent (NetworkEnqueue b n) n [])"
| "event_attributes (NetworkDequeue b n) = Inr (add_NetworkEvent (NetworkDequeue b n) n [])"
| "event_attributes (NetworkDrop b n) = Inr (add_NetworkEvent (NetworkDrop b n) n [])"
| "event_attributes _ = Inl (Terminated ''transform_HostCallSpan unexpected event: '')"

text \<open>The loop over the events of the span, in their order.\<close>

fun add_Events ::
  "('o, 'h) otel \<Rightarrow> 'h \<Rightarrow> event list \<Rightarrow> ('o, 'h) OtlpSpanExporter \<Rightarrow> ('o, 'h) OtlpSpanExporter res"
where
  "add_Events ot sp [] x = Inr x"
| "add_Events ot sp (action # actions) x =
     rbind (event_attributes action) (\<lambda>attrs.
       add_Events ot sp actions
         (x\<lparr>ox_sdk := ot_add_event ot sp (GetTypeStr (Some action))
              (ToSystemNanoseconds (GetTs action) x) attrs (ox_sdk x)\<rparr>))"

section \<open>Span attributes\<close>

text \<open>
  The \<open>SetAttribute\<close> calls of each \<open>set_..Attr\<close> function, in their order.
\<close>

type_synonym attribute_calls = "(string \<times> attribute) list"

definition set_EventSpanAttr :: "heap \<Rightarrow> span \<Rightarrow> attribute_calls res" where
  "set_EventSpanAttr h sp =
     (case sp of (s, d) \<Rightarrow>
        rbind (throw_if_empty (sp_trace_context s) ''add_EventSpanAttr context is null'') (\<lambda>a.
        rbind (get_ctx a h) (\<lambda>c.
        rbind (ctx_HasParent c) (\<lambda>has.
          Inr ([(''id'', AStr (to_string (sp_id s))),
                (''source id'', AStr (to_string (sp_source_id s))),
                (''type'', AStr (span_type_show (span_GetType d))),
                (''pending'', AStr (BoolToString (IsPending s))),
                (''trace id'', AStr (to_string (tc_trace_id c)))] @
               (if has then [(''parent_id'', ANum (tc_parent_id c))] else []) @
               [(''start-ts'', AStr (to_string (GetStartingTs s))),
                (''end-ts'', AStr (to_string (GetCompletionTs s)))])))))"

definition set_HostCallSpanAttr :: "heap \<Rightarrow> EventSpan \<Rightarrow> HostCallSpan \<Rightarrow> attribute_calls res" where
  "set_HostCallSpanAttr h s d =
     rbind (set_EventSpanAttr h (s, HostCallD d)) (\<lambda>attrs.
     rbind (if IsCopy s
            then rbind (GetOriginalId s) (\<lambda>i. Inr [(''original-id'', AStr (to_string i))])
            else Inr []) (\<lambda>original.
       Inr (attrs @
         [(''kernel-transmit'', AStr (BoolToString (hcs_kernel_transmit d))),
          (''driver-transmit'', AStr (BoolToString (hcs_driver_transmit d))),
          (''kernel-receive'', AStr (BoolToString (hcs_kernel_receive d))),
          (''driver-receive'', AStr (BoolToString (hcs_driver_receive d))),
          (''overall-transmit'', AStr (BoolToString (hcs_kernel_transmit d \<and> hcs_driver_transmit d))),
          (''overall-receive'', AStr (BoolToString (hcs_kernel_receive d \<and> hcs_driver_receive d))),
          (''fragmented'', AStr (BoolToString (hcs_is_fragmented d))),
          (''is-copy'', AStr (BoolToString (IsCopy s)))] @ original)))"

definition set_read_attr :: "heap \<Rightarrow> span \<Rightarrow> bool \<Rightarrow> attribute_calls res" where
  "set_read_attr h sp is_r =
     rbind (set_EventSpanAttr h sp) (\<lambda>attrs. Inr (attrs @ [(''is-read'', AStr (BoolToString is_r))]))"

definition set_HostMmioSpanAttr :: "heap \<Rightarrow> EventSpan \<Rightarrow> HostMmioSpan \<Rightarrow> attribute_calls res" where
  "set_HostMmioSpanAttr h s d =
     rbind (set_read_attr h (s, HostMmioD d) (hms_is_read d)) (\<lambda>attrs.
       Inr (attrs @
         [(''BAR-number'', AStr (to_string_int (hms_bar_number d))),
          (''is-going-to-device'', AStr (BoolToString (IsToDeviceBarNumber (hms_bar_number d))))]))"

definition set_NicEthSpanAttr :: "heap \<Rightarrow> EventSpan \<Rightarrow> NicEthSpan \<Rightarrow> attribute_calls res" where
  "set_NicEthSpanAttr h s d =
     rbind (set_EventSpanAttr h (s, NicEthD d)) (\<lambda>attrs.
       Inr (attrs @ [(''is-transmit'', AStr (BoolToString (nes_is_send d)))]))"

text \<open>A \<open>std::set\<close> of boundary types is traversed in the order of the enumeration.\<close>

definition boundary_types_text :: "EventBoundaryType list \<Rightarrow> string" where
  "boundary_types_text bts =
     concat (map (\<lambda>b. EventBoundaryType_show b @ '','')
       (filter (\<lambda>b. b \<in> set bts) [kWithinSimulator, kFromAdapter, kToAdapter]))"

definition set_NetDeviceSpanAttr :: "heap \<Rightarrow> EventSpan \<Rightarrow> NetDeviceSpan \<Rightarrow> attribute_calls res" where
  "set_NetDeviceSpanAttr h s d =
     rbind (set_EventSpanAttr h (s, NetDeviceD d)) (\<lambda>attrs.
       Inr (attrs @
         [(''is-arp'', AStr (BoolToString (nvs_is_arp d))),
          (''is-drop'', AStr (BoolToString (nvs_drop d \<noteq> None)))] @
         (if nvs_ips_set d
          then [(''src-ip'', AStr (ValueToString (Ipv4_Display (nvs_src d)))),
                (''dst-ip'', AStr (ValueToString (Ipv4_Display (nvs_dst d))))]
          else []) @
         [(''boundary-types'', AStr (boundary_types_text (nvs_boundary_types d))),
          (''is-interesting'', AStr (BoolToString (nvs_interesting_flag d))),
          (''node'', AStr (to_string_int (nvs_node d))),
          (''device'', AStr (to_string_int (nvs_device d)))]))"

fun set_Attr :: "heap \<Rightarrow> span \<Rightarrow> attribute_calls res" where
  "set_Attr h (s, HostCallD d) = set_HostCallSpanAttr h s d"
| "set_Attr h (s, HostMmioD d) = set_HostMmioSpanAttr h s d"
| "set_Attr h (s, HostPciD d) = set_read_attr h (s, HostPciD d) (hps_is_read d)"
| "set_Attr h (s, HostDmaD d) = set_read_attr h (s, HostDmaD d) (hds_is_read d)"
| "set_Attr h (s, NicDmaD d) = set_read_attr h (s, NicDmaD d) (nds_is_read d)"
| "set_Attr h (s, NicMmioD d) = set_read_attr h (s, NicMmioD d) (nms_is_read d)"
| "set_Attr h (s, NicEthD d) = set_NicEthSpanAttr h s d"
| "set_Attr h (s, NetDeviceD d) = set_NetDeviceSpanAttr h s d"
| "set_Attr h sp = set_EventSpanAttr h sp"

definition make_attribute_calls ::
  "('o, 'h) otel \<Rightarrow> 'h \<Rightarrow> attribute_calls \<Rightarrow> ('o, 'h) OtlpSpanExporter \<Rightarrow> ('o, 'h) OtlpSpanExporter"
where
  "make_attribute_calls ot sp calls x =
     x\<lparr>ox_sdk := fold (\<lambda>(k, v). ot_set_attribute ot sp k v) calls (ox_sdk x)\<rparr>"

section \<open>Exporting a span\<close>

definition GetSpanStartOpts ::
  "heap \<Rightarrow> EventSpan \<Rightarrow> ('o, 'h) OtlpSpanExporter \<Rightarrow> 'h start_options res"
where
  "GetSpanStartOpts h s x =
     rbind (HasParent h s) (\<lambda>has.
     rbind (if has
            then rbind (GetValidParentId h s) (\<lambda>parent_id.
                 rbind (otlp_GetContext parent_id x) (\<lambda>c. Inr (Some c)))
            else Inr None) (\<lambda>parent.
       Inr \<lparr>so_parent = parent, so_system_time = ToSystemNanoseconds (GetStartingTs s) x,
            so_steady_time = ToSteadyNanoseconds (GetStartingTs s) x\<rparr>))"

definition otlp_StartSpan ::
  "('o, 'h) otel \<Rightarrow> heap \<Rightarrow> u64 \<Rightarrow> ('o, 'h) OtlpSpanExporter \<Rightarrow> ('o, 'h) OtlpSpanExporter res"
where
  "otlp_StartSpan ot h to_start x =
     rbind (get_span to_start h) (\<lambda>(s, d).
     rbind (GetSpanStartOpts h s x) (\<lambda>opts.
     rbind (GetTracerLazy ot (sp_service_name s) x) (\<lambda>(tracer, x1).
       case ot_start_span ot tracer (span_type_show (span_GetType d)) opts (ox_sdk x1) of
         (span_p, o1) \<Rightarrow>
           rbind (or_undefined span_p ''span->SetStatus'') (\<lambda>sp.
           rbind (InsertNewSpan (sp_id s) (Some sp) (x1\<lparr>ox_sdk := ot_set_status_ok ot sp o1\<rparr>)) (\<lambda>x2.
           rbind (throw_on_false (IsValidId (sp_id s)) ''Invalid Identifier'') (\<lambda>_.
             InsertNewContext (sp_id s) (ot_get_context ot sp (ox_sdk x2)) x2))))))"

definition end_span ::
  "('o, 'h) otel \<Rightarrow> EventSpan \<Rightarrow> 'h \<Rightarrow> ('o, 'h) OtlpSpanExporter \<Rightarrow> ('o, 'h) OtlpSpanExporter res"
where
  "end_span ot old_span new_span x =
     RemoveSpan (sp_id old_span)
       (x\<lparr>ox_sdk := ot_end ot new_span (ToSteadyNanoseconds (GetCompletionTs old_span) x) (ox_sdk x)\<rparr>)"

definition otlp_EndSpan ::
  "('o, 'h) otel \<Rightarrow> heap \<Rightarrow> u64 \<Rightarrow> ('o, 'h) OtlpSpanExporter \<Rightarrow> ('o, 'h) OtlpSpanExporter res"
where
  "otlp_EndSpan ot h to_end x =
     rbind (get_span to_end h) (\<lambda>(s, d).
     rbind (otlp_GetSpan (sp_id s) x) (\<lambda>sp.
     rbind (set_Attr h (s, d)) (\<lambda>calls.
     rbind (add_Events ot sp (sp_events s) (make_attribute_calls ot sp calls x)) (\<lambda>x1.
       end_span ot s sp x1))))"

definition otlp_ExportSpan :: "('o, 'h) otel \<Rightarrow> ('o, 'h) OtlpSpanExporter exporter" where
  "otlp_ExportSpan ot h to_export x =
     rbind (otlp_StartSpan ot h to_export x) (otlp_EndSpan ot h to_export)"

definition otlp_ForceFlush ::
  "('o, 'h) otel \<Rightarrow> ('o, 'h) OtlpSpanExporter \<Rightarrow> ('o, 'h) OtlpSpanExporter"
where
  "otlp_ForceFlush ot x =
     x\<lparr>ox_sdk := ot_flush_global ot
         (fold (\<lambda>(_, tracer). ot_flush_tracer ot tracer) (ox_tracer_map x) (ox_sdk x))\<rparr>"

definition noop_ExportSpan :: "unit exporter" where
  "noop_ExportSpan h to_export x = Inr x"

section \<open>What is exported\<close>

text \<open>An event the switch knows, with the strings of a call present.\<close>

fun event_exportable :: "event \<Rightarrow> bool" where
  "event_exportable (HostCall _ _ fn component) = (fn \<noteq> None \<and> component \<noteq> None)"
| "event_exportable (SimSendSync _) = False"
| "event_exportable (SimProcInEvent _) = False"
| "event_exportable (HostInstr _ _) = False"
| "event_exportable (SetIX _ _) = False"
| "event_exportable (NicDmaEn _ _ _ _) = False"
| "event_exportable _ = True"

definition span_exportable :: "span \<Rightarrow> bool" where
  "span_exportable sp = list_all event_exportable (sp_events (fst sp))"

lemma event_attributes_exportable:
  "(\<exists>attrs. event_attributes e = Inr attrs) \<longleftrightarrow> event_exportable e"
  by (cases e) (auto simp: add_HostCall_def rbind_eq_Inr)

definition same_maps :: "('o, 'h) OtlpSpanExporter \<Rightarrow> ('o, 'h) OtlpSpanExporter \<Rightarrow> bool" where
  "same_maps x y = (ox_context_map y = ox_context_map x \<and> ox_span_map y = ox_span_map x)"

lemma add_Events_ok:
  assumes "list_all event_exportable es"
  shows "\<exists>y. add_Events ot sp es x = Inr y \<and> same_maps x y"
  using assms
proof (induction es arbitrary: x)
  case (Cons e es)
  then obtain attrs where "event_attributes e = Inr attrs"
    using event_attributes_exportable[of e] by auto
  then show ?case
    using Cons.IH[of "x\<lparr>ox_sdk := ot_add_event ot sp (GetTypeStr (Some e))
        (ToSystemNanoseconds (GetTs e) x) attrs (ox_sdk x)\<rparr>"] Cons.prems
    by (auto simp: same_maps_def)
qed (simp add: same_maps_def)

lemma CreateTracer_ok:
  assumes "otel_documented ot"
  shows "\<exists>tracer y. CreateTracer ot nm x = Inr (tracer, y) \<and> same_maps x y"
proof -
  obtain e o1 where e: "ot_exporter ot (ox_url x) (ox_sdk x) = (Some e, o1)"
    using assms unfolding otel_documented_def by (metis prod.collapse option.exhaust)
  obtain p o2 where p: "create_processor ot (ox_batch_mode x) e o1 = (Some p, o2)"
    using assms unfolding otel_documented_def create_processor_def
    by (metis prod.collapse option.exhaust)
  obtain v o3 where v: "ot_provider ot p [(''service.name'', nm),
      (''service-instance'', to_string (ox_next_instance_id x))] o2 = (Some v, o3)"
    using assms unfolding otel_documented_def by (metis prod.collapse option.exhaust)
  show ?thesis
    by (simp add: CreateTracer_def e p v same_maps_def split: prod.split)
qed

lemma GetTracerLazy_ok:
  assumes "otel_documented ot"
  shows "\<exists>tracer y. GetTracerLazy ot nm x = Inr (tracer, y) \<and> same_maps x y"
proof (cases "map_of (ox_tracer_map x) nm")
  case None
  then show ?thesis
    using CreateTracer_ok[OF assms, of nm x] by (auto simp: GetTracerLazy_def same_maps_def)
qed (simp add: GetTracerLazy_def same_maps_def)

lemma set_EventSpanAttr_ok:
  assumes "span_ok h i" and "h_spans h i = Some (s, d)"
  shows "\<exists>calls. set_EventSpanAttr h (s, d') = Inr calls"
proof -
  obtain a where "sp_trace_context s = Some a" "a < length (h_contexts h)"
      "ctx_consistent (h_contexts h ! a)"
    using assms by (auto simp: span_ok_def split: option.splits)
  then show ?thesis by (simp add: set_EventSpanAttr_def get_ctx_def ctx_HasParent_def)
qed

lemma set_Attr_ok:
  assumes "span_ok h i" and "h_spans h i = Some (s, d)"
  shows "\<exists>calls. set_Attr h (s, d) = Inr calls"
proof -
  obtain calls where "set_EventSpanAttr h (s, d) = Inr calls"
    using set_EventSpanAttr_ok[OF assms] by blast
  then show ?thesis
    by (cases d)
       (auto simp: set_HostCallSpanAttr_def set_HostMmioSpanAttr_def set_read_attr_def
          set_NicEthSpanAttr_def set_NetDeviceSpanAttr_def IsCopy_def GetOriginalId_def)
qed

lemma GetSpanStartOpts_ok:
  assumes "span_ok h i" and "h_spans h i = Some (s, d)"
    and "case parent_of h i of None \<Rightarrow> True | Some p \<Rightarrow> map_of (ox_context_map x) p \<noteq> None"
  shows "\<exists>opts. GetSpanStartOpts h s x = Inr opts \<and>
    so_parent opts = Option.bind (parent_of h i) (map_of (ox_context_map x))"
proof -
  have r: "HasParent h s = Inr (parent_of h i \<noteq> None)"
      "\<forall>p. parent_of h i = Some p \<longrightarrow> GetValidParentId h s = Inr p \<and> p \<noteq> 0"
    using span_ok_reads[OF assms(1)] assms(2) by (auto simp: get_span_def)
  show ?thesis
  proof (cases "parent_of h i")
    case None
    then show ?thesis using r by (simp add: GetSpanStartOpts_def)
  next
    case (Some p)
    then obtain c where "map_of (ox_context_map x) p = Some c" using assms(3) by auto
    then show ?thesis
      using r Some by (simp add: GetSpanStartOpts_def otlp_GetContext_def IsValidId_def kInvalidId_def)
  qed
qed

text \<open>The contexts kept are those of the exported spans, and no span is left open.\<close>

definition otlp_known :: "('o, 'h) OtlpSpanExporter \<Rightarrow> u64 list \<Rightarrow> bool" where
  "otlp_known x ids = (map fst (ox_context_map x) = rev ids \<and> ox_span_map x = [])"

lemma otlp_known_map_of: "otlp_known x ids \<Longrightarrow> map_of (ox_context_map x) p \<noteq> None \<longleftrightarrow> p \<in> set ids"
  by (simp add: otlp_known_def map_of_eq_None_iff flip: set_map)

lemma otlp_StartSpan_ok:
  assumes "otel_documented ot" and "otlp_known x ids" and "span_ok h i" and "h_spans h i = Some (s, d)"
    and "sp_id s = i" and "i \<noteq> 0" and "i \<notin> set ids"
    and "case parent_of h i of None \<Rightarrow> True | Some p \<Rightarrow> p \<in> set ids"
  shows "\<exists>sp con y. otlp_StartSpan ot h i x = Inr y \<and> ox_span_map y = [(i, sp)] \<and>
    ox_context_map y = (i, con) # ox_context_map x"
proof -
  have "case parent_of h i of None \<Rightarrow> True | Some p \<Rightarrow> map_of (ox_context_map x) p \<noteq> None"
    using assms(8) otlp_known_map_of[OF assms(2)] by (simp split: option.splits)
  then obtain opts where opts: "GetSpanStartOpts h s x = Inr opts"
    using GetSpanStartOpts_ok[OF assms(3,4)] by blast
  obtain tracer y where y: "GetTracerLazy ot (sp_service_name s) x = Inr (tracer, y)" "same_maps x y"
    using GetTracerLazy_ok[OF assms(1)] by blast
  obtain sp o1 where sp: "ot_start_span ot tracer (span_type_show (span_GetType d)) opts (ox_sdk y) =
      (Some sp, o1)"
    using assms(1) unfolding otel_documented_def by (metis prod.collapse option.exhaust)
  have "map_of (ox_context_map y) i = None" "ox_span_map y = []"
    using y(2) assms(2,7) otlp_known_map_of[OF assms(2), of i] by (auto simp: same_maps_def otlp_known_def)
  then show ?thesis
    using y(2) assms(4-6)
    by (simp add: otlp_StartSpan_def get_span_def opts y(1) sp InsertNewSpan_def InsertNewContext_def
        IsValidId_def kInvalidId_def same_maps_def)
qed

lemma otlp_EndSpan_ok:
  assumes "span_ok h i" and "h_spans h i = Some (s, d)" and "sp_id s = i"
    and "span_exportable (s, d)" and "ox_span_map x = [(i, sp)]"
  shows "\<exists>y. otlp_EndSpan ot h i x = Inr y \<and> ox_span_map y = [] \<and>
    ox_context_map y = ox_context_map x"
proof -
  obtain calls where calls: "set_Attr h (s, d) = Inr calls" using set_Attr_ok[OF assms(1,2)] by blast
  obtain y where "add_Events ot sp (sp_events s) (make_attribute_calls ot sp calls x) = Inr y"
      "same_maps (make_attribute_calls ot sp calls x) y"
    using add_Events_ok assms(4) unfolding span_exportable_def by fastforce
  then show ?thesis
    using assms calls
    by (simp add: otlp_EndSpan_def get_span_def otlp_GetSpan_def end_span_def RemoveSpan_def same_maps_def
        make_attribute_calls_def)
qed

lemma otlp_ExportSpan_ok:
  assumes "otlp_known x ids" and "span_ok h i" and "h_spans h i = Some sp" and "sp_id (fst sp) = i"
    and "otel_documented ot \<and> span_exportable sp" and "i \<noteq> 0" and "i \<notin> set ids"
    and "case parent_of h i of None \<Rightarrow> True | Some p \<Rightarrow> p \<in> set ids"
  shows "\<exists>y. otlp_ExportSpan ot h i x = Inr y \<and> otlp_known y (ids @ [i])"
proof -
  obtain s d where sd: "sp = (s, d)" by (cases sp)
  obtain hnd con x1 where x1: "otlp_StartSpan ot h i x = Inr x1" "ox_span_map x1 = [(i, hnd)]"
      "ox_context_map x1 = (i, con) # ox_context_map x"
    using otlp_StartSpan_ok[of ot x ids h i s d] assms sd by auto
  obtain y where "otlp_EndSpan ot h i x1 = Inr y" "ox_span_map y = []"
      "ox_context_map y = ox_context_map x1"
    using otlp_EndSpan_ok[of h i s d x1 hnd ot] assms sd x1(2) by auto
  then show ?thesis
    using x1 assms(1) by (auto simp: otlp_ExportSpan_def otlp_known_def)
qed

section \<open>The exporters implement the tracer's interface\<close>

interpretation otlp: span_exporter "otlp_ExportSpan ot" otlp_known
    "\<lambda>sp. otel_documented ot \<and> span_exportable sp" for ot :: "('o, 'h) otel"
  by unfold_locales (rule otlp_ExportSpan_ok)

interpretation noop: span_exporter noop_ExportSpan "\<lambda>x ids. True" "\<lambda>sp. True"
  by unfold_locales (simp add: noop_ExportSpan_def)

end
