(* ===== verification/TracerProps.thy ===== *)
theory TracerProps
  imports Exporter
begin

text \<open>
  What the tracer guarantees when it exports through \<open>OtlpSpanExporter\<close>: the facts of the
  interface \<open>span_exporter\<close>, taken at its interpretation. The concrete runs use an SDK that
  hands out the numbers 0, 1, 2, \<dots> as handles.
\<close>

section \<open>A concrete run\<close>

definition counting_otel :: "(nat, nat) otel" where
  "counting_otel =
     \<lparr>ot_exporter = (\<lambda>_ n. (Some n, Suc n)), ot_batch_processor = (\<lambda>_ n. (Some n, Suc n)),
      ot_simple_processor = (\<lambda>_ n. (Some n, Suc n)), ot_provider = (\<lambda>_ _ n. (Some n, Suc n)),
      ot_get_tracer = (\<lambda>_ _ n. (n, Suc n)), ot_start_span = (\<lambda>_ _ _ n. (Some n, Suc n)),
      ot_set_status_ok = (\<lambda>_ n. n), ot_get_context = (\<lambda>h _. h), ot_set_attribute = (\<lambda>_ _ _ n. n),
      ot_add_event = (\<lambda>_ _ _ _ n. n), ot_end = (\<lambda>_ _ n. n), ot_flush_tracer = (\<lambda>_ n. n),
      ot_flush_global = (\<lambda>n. n)\<rparr>"

lemma counting_otel_documented: "otel_documented counting_otel"
  by (simp add: otel_documented_def counting_otel_def)

abbreviation exportable_with :: "('o, 'h) otel \<Rightarrow> span \<Rightarrow> bool" where
  "exportable_with ot \<equiv> \<lambda>sp. otel_documented ot \<and> span_exportable sp"

definition demo_exporter :: "(nat, nat) OtlpSpanExporter" where
  "demo_exporter = OtlpSpanExporter_new 5 ''url'' False ''lib'' 0"

definition demo_event :: event where
  "demo_event = NicTx \<lparr>ev_timestamp = 7000, ev_parser_identifier = 1, ev_parser_name = ''nic''\<rparr> 60"

definition demo_args :: span_args where
  "demo_args = \<lparr>sa_data = NicEthD NicEthSpan_init, sa_source_id = 1, sa_service_name = ''nic''\<rparr>"

definition demo_env :: TraceEnvironment where
  "demo_env =
     \<lparr>linux_net_func_indicator = {}, driver_func_indicator = {}, kernel_tx_indicator = {},
      kernel_rx_indicator = {}, pci_write_indicators = {}, driver_tx_indicator = {},
      driver_rx_indicator = {}, sys_entry = {}, blacklist_func_indicator = {}, types_to_filter = {}\<rparr>"

definition demo_started :: "(nat, nat) OtlpSpanExporter world" where
  "demo_started = (case StartSpan demo_env (Some demo_event) demo_args (world_init demo_exporter) of
     Inr (i, w) \<Rightarrow> w | Inl _ \<Rightarrow> world_init demo_exporter)"

lemmas demo_defs = demo_event_def demo_args_def demo_env_def demo_exporter_def world_init_def
  OtlpSpanExporter_new_def id_counters_init_def

lemmas tracer_defs = StartSpan_def StartSpanInternal_def RegisterCreateContext_def take_trace_id_def
  take_context_id_def GetNextTraceId_def GetNextTraceContextId_def GetNextSpanId_def alloc_ctx_def
  TraceContext_root_def GetDefaultId_def create_span_def EventSpan_new_def put_span_def
  Trace_new_def Trace_AddSpan_def InsertTrace_def

lemma demo_start:
  "StartSpan demo_env (Some demo_event) demo_args (world_init demo_exporter) = Inr (1, demo_started)"
proof -
  have "\<exists>w. StartSpan demo_env (Some demo_event) demo_args (world_init demo_exporter) = Inr (1, w)"
    by (simp add: demo_defs tracer_defs NicEthSpan_AddToSpan_def tag_data_def NicEthSpan_init_def
        IsPotentialAdd_def IsComplete_def IsPending_def IsAnyType_def IsType_def push_event_def set_pending_def)
  then show ?thesis by (auto simp: demo_started_def)
qed

lemma demo_started_span:
  "\<exists>sp. h_spans (w_heap demo_started) 1 = Some sp \<and> span_exportable sp"
  "done_spans demo_started = {}" "parent_of (w_heap demo_started) 1 = None"
  "w_exported demo_started = []" "w_waiting demo_started = []"
  by (simp_all add: demo_started_def demo_defs tracer_defs NicEthSpan_AddToSpan_def tag_data_def
      NicEthSpan_init_def IsPotentialAdd_def IsComplete_def IsPending_def IsAnyType_def IsType_def
      push_event_def set_pending_def span_exportable_def done_spans_def waiters_set_def parent_of_def)

lemma demo_started_reachable:
  "tracer_reachable (otlp_ExportSpan counting_otel) (exportable_with counting_otel) demo_exporter demo_started"
proof (rule reach_step[OF reach_init step_start])
  show "id_available (world_init demo_exporter)"
    by (simp add: id_available_def fresh_id_def world_init_def id_counters_init_def)
qed (rule demo_start)

section \<open>The export discipline\<close>

lemma parents_first_nth:
  assumes "parents_first h S xs" and "k < length xs" and "parent_of h (xs ! k) = Some p"
  shows "p \<in> S \<union> set (take k xs)"
  using assms
proof (induction xs arbitrary: S k)
  case (Cons x xs)
  then show ?case by (cases k) (auto simp del: Un_iff split: option.splits)
qed simp

lemma otlp_reachable_inv:
  assumes "tracer_reachable (otlp_ExportSpan ot) (exportable_with ot) (OtlpSpanExporter_new off url b lib sdk) w"
  shows "otlp.exporter_inv ot w \<and> heap_ok (w_heap w)"
  by (rule otlp.tracer_reachable_inv[OF assms]) (simp add: otlp_known_def OtlpSpanExporter_new_def)

text \<open>
  C1. Whatever the clients do within the guards of the step relation (start, extend, clone,
  re-parent and finish spans, in any order, leaving finished spans alone), every reachable
  tracer has exported each span at most once and only after its parent; the spans that wait
  are not exported and wait for a parent that is not exported either; and the exporter
  holds one context per exported span and no open span.
\<close>

theorem tracer_export_discipline:
  assumes "tracer_reachable (otlp_ExportSpan ot) (exportable_with ot)
             (OtlpSpanExporter_new off url b lib sdk) w"
  shows "distinct (w_exported w) \<and>
    (\<forall>k < length (w_exported w). \<forall>p. parent_of (w_heap w) (w_exported w ! k) = Some p \<longrightarrow>
       p \<in> set (take k (w_exported w))) \<and>
    (\<forall>(p, ws) \<in> set (w_waiting w). p \<notin> set (w_exported w) \<and> distinct ws \<and>
       (\<forall>z \<in> set ws. z \<notin> set (w_exported w) \<and> parent_of (w_heap w) z = Some p)) \<and>
    map fst (ox_context_map (w_exporter w)) = rev (w_exported w) \<and>
    ox_span_map (w_exporter w) = []"
proof -
  have ti: "tracer_inv w" and kn: "otlp_known (w_exporter w) (w_exported w)"
    using otlp_reachable_inv[OF assms] by (simp_all add: otlp.exporter_inv_def)
  have "p \<in> set (take k (w_exported w))"
    if "k < length (w_exported w)" "parent_of (w_heap w) (w_exported w ! k) = Some p" for k p
    using parents_first_nth[of "w_heap w" "{}" "w_exported w" k p] ti that by (simp add: tracer_inv_def)
  moreover have "p \<notin> set (w_exported w) \<and> distinct ws \<and>
      (\<forall>z \<in> set ws. z \<notin> set (w_exported w) \<and> parent_of (w_heap w) z = Some p)"
    if "(p, ws) \<in> set (w_waiting w)" for p ws
  proof -
    have "p \<in> set (map fst (w_waiting w))" "set ws \<subseteq> waiters_set (w_waiting w)"
      using that by (force, force simp: waiters_set_iff)
    then show ?thesis
      using ti waiting_okD[of "w_heap w" "w_waiting w" p ws] that unfolding tracer_inv_def by blast
  qed
  ultimately show ?thesis using ti kn by (auto simp: tracer_inv_def otlp_known_def)
qed

lemma demo_finished:
  "\<exists>w. tracer_reachable (otlp_ExportSpan counting_otel) (exportable_with counting_otel) demo_exporter w \<and>
     w_exported w = [1]"
proof -
  obtain sp where sp: "h_spans (w_heap demo_started) 1 = Some sp" "span_exportable sp"
    using demo_started_span(1) by blast
  have inv: "otlp.exporter_inv counting_otel demo_started" "heap_ok (w_heap demo_started)"
    using otlp_reachable_inv[OF demo_started_reachable[unfolded demo_exporter_def]] by blast+
  have i: "1 \<notin> done_spans demo_started" by (simp add: demo_started_span(2))
  have ok: "span_ok (w_heap demo_started) 1"
      "span_exporter.may_export (exportable_with counting_otel) (w_heap demo_started) 1"
    using heap_ok_span_ok[OF inv(2) sp(1)] heap_ok_sp_id[OF inv(2) sp(1)] sp counting_otel_documented
    unfolding otlp.may_export_def by blast+
  obtain w' new where w': "MarkSpanAsDone (otlp_ExportSpan counting_otel) (Some 1) demo_started = Inr w'"
      "w_exported w' = w_exported demo_started @ 1 # new"
      "span_exporter.batch (w_heap demo_started) (w_waiting demo_started)
        (insert 1 (set (w_exported demo_started))) 1 new"
    using otlp.MarkSpanAsDone_export[OF inv(1) ok(1) _ i ok(2)] demo_started_span(3) by auto
  have "new = []"
    using w'(3) demo_started_span(5) unfolding otlp.batch_def by (auto simp: waiters_set_def)
  then have "w_exported w' = [1]" using w'(2) demo_started_span(4) by simp
  moreover have "tracer_step (otlp_ExportSpan counting_otel) (exportable_with counting_otel) demo_started w'"
    using sp counting_otel_documented by (intro step_done[OF i sp(1) _ w'(1)]) blast
  ultimately show ?thesis using reach_step[OF demo_started_reachable] by blast
qed

theorem tracer_export_discipline_witness:
  "\<exists>w. w_exported w = [1] \<and> map fst (ox_context_map (w_exporter w)) = [1 :: u64] \<and>
     tracer_reachable (otlp_ExportSpan counting_otel) (exportable_with counting_otel) demo_exporter w"
proof -
  obtain w where w: "tracer_reachable (otlp_ExportSpan counting_otel) (exportable_with counting_otel)
      demo_exporter w" "w_exported w = [1]"
    using demo_finished by blast
  have "map fst (ox_context_map (w_exporter w)) = rev (w_exported w)"
    using tracer_export_discipline[OF w(1)[unfolded demo_exporter_def]] by blast
  then show ?thesis using w by auto
qed

text \<open>
  C8. Finishing a span never fails and never gets lost: in a reachable state, marking a
  span of exportable events as done exports it together with everything that waited for
  it, directly or not, when its parent is exported or absent, and queues it otherwise; the
  recursion through the waiting list returns within its fuel.
\<close>

theorem MarkSpanAsDone_completes:
  assumes "tracer_reachable (otlp_ExportSpan ot) (exportable_with ot)
             (OtlpSpanExporter_new off url b lib sdk) w"
    and "i \<notin> done_spans w" and "h_spans (w_heap w) i = Some sp"
    and "otel_documented ot" and "span_exportable sp"
  shows "\<exists>w'. MarkSpanAsDone (otlp_ExportSpan ot) (Some i) w = Inr w' \<and> w_heap w' = w_heap w \<and>
    done_spans w' = insert i (done_spans w) \<and>
    (if (case parent_of (w_heap w) i of None \<Rightarrow> True | Some p \<Rightarrow> p \<in> set (w_exported w))
     then i \<in> set (w_exported w') \<and>
       (\<forall>(k, ws) \<in> set (w_waiting w). k \<in> set (w_exported w') \<longrightarrow> set ws \<subseteq> set (w_exported w'))
     else w_exported w' = w_exported w \<and> i \<in> waiters_set (w_waiting w'))"
proof -
  have inv: "otlp.exporter_inv ot w" and h: "heap_ok (w_heap w)"
    using otlp_reachable_inv[OF assms(1)] by auto
  have ok: "span_ok (w_heap w) i" "i \<noteq> 0" and may: "span_exporter.may_export (exportable_with ot) (w_heap w) i"
    using heap_ok_span_ok[OF h assms(3)] heap_ok_sp_id[OF h assms(3)] assms(3-5)
    unfolding otlp.may_export_def by blast+
  show ?thesis
  proof (cases "case parent_of (w_heap w) i of None \<Rightarrow> True | Some p \<Rightarrow> p \<in> set (w_exported w)")
    case True
    obtain w' new where r: "MarkSpanAsDone (otlp_ExportSpan ot) (Some i) w = Inr w'"
        "w_heap w' = w_heap w" "done_spans w' = insert i (done_spans w)"
        "w_exported w' = w_exported w @ i # new"
        "span_exporter.batch (w_heap w) (w_waiting w) (insert i (set (w_exported w))) i new"
        "\<forall>ws. (i, ws) \<in> set (w_waiting w) \<longrightarrow> set ws \<subseteq> set new"
      using otlp.MarkSpanAsDone_export[OF inv ok assms(2) may True] by blast
    have "set ws \<subseteq> set (w_exported w')"
      if k: "(k, ws) \<in> set (w_waiting w)" "k \<in> set (w_exported w')" for k ws
    proof -
      have "k \<in> set (map fst (w_waiting w))" using k(1) by force
      then have "k \<notin> set (w_exported w)"
        using inv unfolding otlp.exporter_inv_def tracer_inv_def by blast
      then have "k = i \<or> k \<in> set new" using k(2) r(4) by auto
      then have "set ws \<subseteq> set new" using k(1) r(5,6) unfolding otlp.batch_def by blast
      then show ?thesis using r(4) by auto
    qed
    then show ?thesis using True r by auto
  next
    case False
    then obtain p where "parent_of (w_heap w) i = Some p" "p \<notin> set (w_exported w)"
      by (auto split: option.splits)
    then show ?thesis
      using otlp.MarkSpanAsDone_wait[OF inv ok assms(2) may] False by auto
  qed
qed

theorem MarkSpanAsDone_completes_witness:
  "\<exists>w'. MarkSpanAsDone (otlp_ExportSpan counting_otel) (Some 1) demo_started = Inr w' \<and>
     1 \<in> set (w_exported w')"
proof -
  obtain sp where sp: "h_spans (w_heap demo_started) 1 = Some sp" "span_exportable sp"
    using demo_started_span(1) by blast
  show ?thesis
    using MarkSpanAsDone_completes[OF demo_started_reachable[unfolded demo_exporter_def] _ sp(1)
        counting_otel_documented sp(2)] demo_started_span(2,3)
    by auto
qed

text \<open>
  Marking an exported span as done a second time is not absorbed: in every reachable
  state it terminates the program, with the message of the set of exported spans.
\<close>

theorem MarkSpanAsDone_again:
  assumes "tracer_reachable (otlp_ExportSpan ot) (exportable_with ot)
             (OtlpSpanExporter_new off url b lib sdk) w"
    and "i \<in> set (w_exported w)"
  shows "MarkSpanAsDone (otlp_ExportSpan ot) (Some i) w =
    Inl (Terminated ''could not insert non exported span into set'')"
proof -
  have ti: "tracer_inv w" using otlp_reachable_inv[OF assms(1)] by (simp add: otlp.exporter_inv_def)
  then have ok: "span_ok (w_heap w) i" "i \<noteq> 0" using assms(2) by (auto simp: tracer_inv_def)
  obtain k where k: "k < length (w_exported w)" "w_exported w ! k = i"
    using assms(2) by (auto simp: in_set_conv_nth)
  have "p \<in> set (w_exported w)" if "parent_of (w_heap w) i = Some p" for p
    using parents_first_nth[of "w_heap w" "{}" "w_exported w" k p] ti k that
    by (auto simp: tracer_inv_def dest: in_set_takeD)
  then have "WasParentExported i w = Inr True"
    using WasParentExported_ok[OF ok(1)] by (auto split: option.splits)
  moreover have "MarkSpanAsExported i w = Inl (Terminated ''could not insert non exported span into set'')"
    using assms(2) ok(2)
    by (simp add: MarkSpanAsExported_def InsertExportedSpan_def IsValidId_def kInvalidId_def)
  ultimately show ?thesis using span_ok_reads[OF ok(1)] by (auto simp: MarkSpanAsDone_def)
qed

theorem MarkSpanAsDone_again_witness:
  "\<exists>w. w_exported w = [1] \<and> MarkSpanAsDone (otlp_ExportSpan counting_otel) (Some 1) w =
     Inl (Terminated ''could not insert non exported span into set'')"
proof -
  obtain w where w: "tracer_reachable (otlp_ExportSpan counting_otel) (exportable_with counting_otel)
      demo_exporter w" "w_exported w = [1]"
    using demo_finished by blast
  show ?thesis using MarkSpanAsDone_again[OF w(1)[unfolded demo_exporter_def], of 1] w(2) by auto
qed

section \<open>One export\<close>

lemma add_Events_exportable:
  "(\<exists>y. add_Events ot sp es x = Inr y) \<longleftrightarrow> list_all event_exportable es"
proof (induction es arbitrary: x)
  case (Cons e es)
  show ?case
  proof (cases "event_attributes e")
    case (Inl f)
    then show ?thesis using event_attributes_exportable[of e] by auto
  next
    case (Inr attrs)
    then show ?thesis using event_attributes_exportable[of e] Cons.IH by auto
  qed
qed simp

text \<open>
  C34. Which spans can be exported: for a fresh span whose parent, if it has one, is
  exported, the exporter succeeds exactly when every event of the span has a case in
  the switch and every call names its function and its component; the new context is
  recorded and the span closed. Any other span takes the program down.
\<close>

theorem otlp_ExportSpan_cases:
  assumes "otel_documented ot" and "otlp_known x ids" and "span_ok h i"
    and "h_spans h i = Some (s, d)" and "sp_id s = i" and "i \<noteq> 0" and "i \<notin> set ids"
    and "case parent_of h i of None \<Rightarrow> True | Some p \<Rightarrow> p \<in> set ids"
  shows "if list_all event_exportable (sp_events s)
    then \<exists>y. otlp_ExportSpan ot h i x = Inr y \<and> otlp_known y (ids @ [i])
    else \<exists>e. otlp_ExportSpan ot h i x = Inl e"
proof (cases "list_all event_exportable (sp_events s)")
  case True
  then show ?thesis
    using otlp_ExportSpan_ok[OF assms(2,3,4) _ _ assms(6-8)] assms(1,5) by (simp add: span_exportable_def)
next
  case False
  obtain hnd x1 where x1: "otlp_StartSpan ot h i x = Inr x1" "ox_span_map x1 = [(i, hnd)]"
    using otlp_StartSpan_ok[OF assms] by blast
  obtain calls where calls: "set_Attr h (s, d) = Inr calls" using set_Attr_ok[OF assms(3,4)] by blast
  obtain e where "add_Events ot hnd (sp_events s) (make_attribute_calls ot hnd calls x1) = Inl e"
    using False add_Events_exportable by (metis sum.exhaust)
  then show ?thesis
    using False x1 calls assms(4,5)
    by (simp add: otlp_ExportSpan_def otlp_EndSpan_def get_span_def otlp_GetSpan_def)
qed

theorem otlp_ExportSpan_cases_witness:
  "\<exists>y. otlp_ExportSpan counting_otel (w_heap demo_started) 1 demo_exporter = Inr y \<and> otlp_known y [1]"
proof -
  have h: "heap_ok (w_heap demo_started)"
    using otlp_reachable_inv[OF demo_started_reachable[unfolded demo_exporter_def]] by blast
  obtain s d where sd: "h_spans (w_heap demo_started) 1 = Some (s, d)" "span_exportable (s, d)"
    using demo_started_span(1) by fastforce
  show ?thesis
    using otlp_ExportSpan_cases[OF counting_otel_documented, of demo_exporter "[]" "w_heap demo_started" 1 s d]
      heap_ok_span_ok[OF h sd(1)] heap_ok_sp_id[OF h sd(1)] sd demo_started_span(3)
    by (auto simp: otlp_known_def demo_exporter_def OtlpSpanExporter_new_def span_exportable_def)
qed

end
