(* ===== verification/LineHandler.thy ===== *)
theory LineHandler
  imports Text
begin

text \<open>
  The line handler of include/reader/cReader.h and source/reader/cReader.cpp: a cursor into
  the reader's buffer that the parsers consume a line with. The model keeps the bytes that
  can be read from \<open>buf_\<close> on, including those behind the line, since several methods look
  past its end; reading outside them is undefined.
\<close>

section \<open>State and operations\<close>

record LineHandler =
  lh_buf :: string
  lh_size :: nat
  lh_pos :: nat

definition LineHandler_Reset :: "string \<Rightarrow> nat \<Rightarrow> LineHandler" where
  "LineHandler_Reset buf sz = \<lparr>lh_buf = buf, lh_size = sz, lh_pos = 0\<rparr>"

definition GetRawLine :: "LineHandler \<Rightarrow> string" where
  "GetRawLine h = take (lh_size h) (lh_buf h)"

definition ResetPos :: "LineHandler \<Rightarrow> LineHandler" where
  "ResetPos h = h\<lparr>lh_pos := 0\<rparr>"

definition GetCurString :: "LineHandler \<Rightarrow> string" where
  "GetCurString h =
     (if lh_pos h \<ge> lh_size h then [] else take (lh_size h - lh_pos h) (drop (lh_pos h) (lh_buf h)))"

text \<open>\<open>size_ - cur_reading_pos_\<close> in \<open>size_t\<close>.\<close>

definition CurLength :: "LineHandler \<Rightarrow> nat" where
  "CurLength h =
     (if lh_pos h \<le> lh_size h then lh_size h - lh_pos h else 2 ^ 64 - (lh_pos h - lh_size h))"

definition IsEmpty :: "LineHandler \<Rightarrow> bool" where
  "IsEmpty h = (CurLength h \<le> 0)"

definition byte_at :: "LineHandler \<Rightarrow> nat \<Rightarrow> char res" where
  "byte_at h i = or_undefined (if i < length (lh_buf h) then Some (lh_buf h ! i) else None) ''buf_''"

definition advance :: "nat \<Rightarrow> LineHandler \<Rightarrow> LineHandler" where
  "advance n h = h\<lparr>lh_pos := lh_pos h + n\<rparr>"

definition MoveForward :: "nat \<Rightarrow> LineHandler \<Rightarrow> bool \<times> LineHandler" where
  "MoveForward steps h =
     (if IsEmpty h \<or> CurLength h < steps then (False, h) else (True, advance steps h))"

text \<open>The loops over \<open>[tmp, buf_ + size_)\<close>: how many bytes satisfy the predicate.\<close>

function span_len :: "(char \<Rightarrow> bool) \<Rightarrow> LineHandler \<Rightarrow> nat \<Rightarrow> nat res" where
  "span_len P h i =
     (if i < lh_size h then
        rbind (byte_at h i) (\<lambda>c.
          if P c then rbind (span_len P h (Suc i)) (\<lambda>n. Inr (Suc n)) else Inr 0)
      else Inr 0)"
  by pat_completeness auto
termination by (relation "measure (\<lambda>(P, h, i). lh_size h - i)") auto

declare span_len.simps [simp del]

definition TrimL :: "LineHandler \<Rightarrow> LineHandler res" where
  "TrimL h =
     (if IsEmpty h then Inr h
      else rbind (span_len is_space h (lh_pos h)) (\<lambda>n. Inr (advance n h)))"

definition TrimTillWhitespace :: "LineHandler \<Rightarrow> LineHandler res" where
  "TrimTillWhitespace h =
     (if IsEmpty h then Inr h
      else rbind (span_len (\<lambda>c. \<not> is_space c) h (lh_pos h)) (\<lambda>n. Inr (advance n h)))"

definition ExtractAndSubstrUntil :: "(char \<Rightarrow> bool) \<Rightarrow> LineHandler \<Rightarrow> (string \<times> LineHandler) res" where
  "ExtractAndSubstrUntil predicate h =
     rbind (span_len predicate h (lh_pos h)) (\<lambda>n.
       Inr (take n (drop (lh_pos h) (lh_buf h)), advance n h))"

definition ExtractAndSubstrUntilInto ::
  "(char \<Rightarrow> bool) \<Rightarrow> LineHandler \<Rightarrow> (string option \<times> LineHandler) res"
where
  "ExtractAndSubstrUntilInto predicate h =
     rbind (ExtractAndSubstrUntil predicate h) (\<lambda>(target, h').
       Inr (if target = [] then None else Some target, h'))"

definition SkipTill :: "(char \<Rightarrow> bool) \<Rightarrow> LineHandler \<Rightarrow> (bool \<times> LineHandler) res" where
  "SkipTill predicate h =
     (if IsEmpty h then Inr (False, h)
      else
        rbind (span_len (\<lambda>c. \<not> predicate c) h (lh_pos h)) (\<lambda>n.
          if lh_pos h + n < lh_size h then Inr (True, advance n h) else Inr (False, h)))"

definition SkipTillWhitespace :: "LineHandler \<Rightarrow> (bool \<times> LineHandler) res" where
  "SkipTillWhitespace h = SkipTill is_space h"

text \<open>
  \<open>ConsumeAndTrimTillString\<close>. The search for the first character reads the byte at
  \<open>sub_end\<close> before it compares the pointers; a partial match is not rewound.
\<close>

function scan_start :: "char \<Rightarrow> LineHandler \<Rightarrow> nat \<Rightarrow> nat res" where
  "scan_start c h i =
     (if i < length (lh_buf h) then
        (if lh_buf h ! i \<noteq> c \<and> i \<noteq> lh_size h then scan_start c h (Suc i) else Inr i)
      else Inl (Undefined ''*sub_start''))"
  by pat_completeness auto
termination by (relation "measure (\<lambda>(c, h, i). length (lh_buf h) - i)") auto

declare scan_start.simps [simp del]

text \<open>\<open>None\<close> is the early return false; otherwise the number of matches and \<open>sub_start\<close>.\<close>

fun match_from :: "string \<Rightarrow> LineHandler \<Rightarrow> nat \<Rightarrow> (nat \<times> nat) option res" where
  "match_from [] h i = Inr (Some (0, i))"
| "match_from (c # cs) h i =
     (if i = lh_size h then Inr None
      else rbind (byte_at h i) (\<lambda>b.
        if c \<noteq> b then Inr (Some (0, i))
        else rbind (match_from cs h (Suc i)) (\<lambda>r.
          Inr (case r of None \<Rightarrow> None | Some (m, j) \<Rightarrow> Some (Suc m, j)))))"

lemma scan_start_result:
  "scan_start c h i = Inr j \<Longrightarrow> i \<le> j \<and> j < length (lh_buf h) \<and> (j = lh_size h \<or> lh_buf h ! j = c)"
proof (induction c h i rule: scan_start.induct)
  case (1 c h i)
  then show ?case by (subst (asm) scan_start.simps) (auto split: if_splits)
qed

lemma match_from_result:
  "match_from cs h i = Inr (Some (m, j)) \<Longrightarrow> j = i + m"
  by (induction cs arbitrary: i m j)
     (force simp: rbind_eq_Inr split: if_splits option.splits)+

lemma match_from_first:
  assumes "match_from (c # cs) h i = Inr (Some (m, j))" and "lh_buf h ! i = c" and "i < length (lh_buf h)"
  shows "i < j"
  using assms match_from_result[of "c # cs" h i m j]
  by (auto simp: byte_at_def rbind_eq_Inr split: if_splits option.splits)

function till_string :: "string \<Rightarrow> LineHandler \<Rightarrow> nat \<Rightarrow> nat option res" where
  "till_string s h i =
     (case s of
        [] \<Rightarrow> Inr None
      | c # cs \<Rightarrow>
          if i = lh_size h then Inr None
          else
            (case scan_start c h i of
               Inl e \<Rightarrow> Inl e
             | Inr j \<Rightarrow>
                 if j = lh_size h then Inr None
                 else
                   (case match_from (c # cs) h j of
                      Inl e \<Rightarrow> Inl e
                    | Inr None \<Rightarrow> Inr None
                    | Inr (Some (m, k)) \<Rightarrow>
                        if m = length (c # cs) then Inr (Some k) else till_string s h k)))"
  by pat_completeness auto
termination
proof (relation "measure (\<lambda>(s, h, i). length (lh_buf h) - i)", goal_cases)
  case (2 s h i c cs j r p m k)
  then have "i \<le> j" "j < length (lh_buf h)" "j < k"
    using scan_start_result[of c h i j] match_from_first[of c cs h j m k] by auto
  then show ?case by simp
qed simp

declare till_string.simps [simp del]

definition ConsumeAndTrimTillString :: "string \<Rightarrow> LineHandler \<Rightarrow> (bool \<times> LineHandler) res" where
  "ConsumeAndTrimTillString to_consume h =
     (if IsEmpty h \<or> CurLength h < length to_consume then Inr (False, h)
      else
        rbind (till_string to_consume h (lh_pos h)) (\<lambda>r.
          case r of
            None \<Rightarrow> Inr (False, h)
          | Some k \<Rightarrow> Inr (True, h\<lparr>lh_pos := k\<rparr>)))"

fun match_string :: "string \<Rightarrow> LineHandler \<Rightarrow> nat \<Rightarrow> bool res" where
  "match_string [] h i = Inr True"
| "match_string (c # cs) h i =
     (if i = lh_size h then Inr False
      else rbind (byte_at h i) (\<lambda>b. if c \<noteq> b then Inr False else match_string cs h (Suc i)))"

definition ConsumeAndTrimString :: "string \<Rightarrow> LineHandler \<Rightarrow> (bool \<times> LineHandler) res" where
  "ConsumeAndTrimString to_consume h =
     (if IsEmpty h \<or> CurLength h < length to_consume then Inr (False, h)
      else
        rbind (match_string to_consume h (lh_pos h)) (\<lambda>ok.
          Inr (if ok then (True, advance (length to_consume) h) else (False, h))))"

definition ConsumeAndTrimChar :: "char \<Rightarrow> LineHandler \<Rightarrow> (bool \<times> LineHandler) res" where
  "ConsumeAndTrimChar to_consume h =
     (if IsEmpty h then Inr (False, h)
      else rbind (byte_at h (lh_pos h)) (\<lambda>letter.
        if letter \<noteq> to_consume then Inr (False, h) else Inr (True, advance 1 h)))"

text \<open>
  The digit loops. The condition \<open>!IsEmpty()\<close> does not change in the loop, so it runs
  until a byte fails the predicate, past the end of the line if need be.
\<close>

function run_len :: "(char \<Rightarrow> bool) \<Rightarrow> LineHandler \<Rightarrow> nat \<Rightarrow> nat res" where
  "run_len P h i =
     (if i < length (lh_buf h) then
        (if P (lh_buf h ! i) then rbind (run_len P h (Suc i)) (\<lambda>n. Inr (Suc n)) else Inr 0)
      else Inl (Undefined ''*(buf_ + old_reading_pos + length)''))"
  by pat_completeness auto
termination by (relation "measure (\<lambda>(P, h, i). length (lh_buf h) - i)") auto

declare run_len.simps [simp del]

text \<open>\<open>None\<close> is the return value false; the target is written only on success.\<close>

definition ParseUintTrim :: "nat \<Rightarrow> LineHandler \<Rightarrow> (u64 option \<times> LineHandler) res" where
  "ParseUintTrim base h =
     (if IsEmpty h \<or> base \<noteq> 10 \<and> base \<noteq> 16 then Inr (None, h)
      else
        rbind (run_len (if base = 10 then is_num else is_alnum) h (lh_pos h)) (\<lambda>len.
          if len = 0 \<or> lh_pos h + len > lh_size h then Inr (None, h)
          else
            let num = strtoul base (drop (lh_pos h) (lh_buf h))
            in if num = u64_max then Inr (None, h) else Inr (Some num, advance len h)))"

definition ParseInt :: "LineHandler \<Rightarrow> (i32 option \<times> LineHandler) res" where
  "ParseInt h =
     (if IsEmpty h then Inr (None, h)
      else
        rbind (run_len is_num h (lh_pos h)) (\<lambda>len.
          if len = 0 \<or> lh_pos h + len > lh_size h then Inr (None, h)
          else Inr (Some (strtol_int (drop (lh_pos h) (lh_buf h))), advance len h)))"

definition ParseBoolFromUint :: "nat \<Rightarrow> LineHandler \<Rightarrow> (bool option \<times> LineHandler) res" where
  "ParseBoolFromUint base h =
     rbind (ParseUintTrim base h) (\<lambda>(r, h'). Inr (map_option (\<lambda>v. v \<noteq> 0) r, h'))"

definition ParseBoolFromStringRepr :: "LineHandler \<Rightarrow> (bool option \<times> LineHandler) res" where
  "ParseBoolFromStringRepr h =
     rbind (ConsumeAndTrimString ''true'' h) (\<lambda>(ok, h1).
       if ok then Inr (Some True, h1)
       else rbind (ConsumeAndTrimString ''false'' h1) (\<lambda>(ok2, h2).
         Inr (if ok2 then Some False else None, h2)))"

definition ParseBoolFromInt :: "LineHandler \<Rightarrow> (bool option \<times> LineHandler) res" where
  "ParseBoolFromInt h =
     rbind (ParseInt h) (\<lambda>(r, h'). Inr (map_option (\<lambda>v. v \<noteq> 0) r, h'))"

section \<open>Lines\<close>

text \<open>
  A handler as the reader buffer sets it up: the text before the cursor, the rest of the
  line, the line terminator and whatever follows it in the buffer.
\<close>

definition line :: "string \<Rightarrow> string \<Rightarrow> string \<Rightarrow> LineHandler" where
  "line pre s post =
     \<lparr>lh_buf = pre @ s @ CHR 0x0A # post, lh_size = length pre + length s, lh_pos = length pre\<rparr>"

definition on_line :: "LineHandler \<Rightarrow> bool" where
  "on_line h =
     (lh_pos h \<le> lh_size h \<and> lh_size h < length (lh_buf h) \<and> lh_buf h ! lh_size h = CHR 0x0A)"

lemma on_line_line: "on_line (line pre s post)"
  by (simp add: on_line_def line_def nth_append)

lemma on_line_iff: "on_line h \<longleftrightarrow> (\<exists>pre s post. h = line pre s post)"
proof
  assume h: "on_line h"
  let ?pre = "take (lh_pos h) (lh_buf h)"
  let ?s = "take (lh_size h - lh_pos h) (drop (lh_pos h) (lh_buf h))"
  let ?post = "drop (Suc (lh_size h)) (lh_buf h)"
  have "take (lh_size h) (lh_buf h) = ?pre @ ?s"
    using h take_add[of "lh_pos h" "lh_size h - lh_pos h" "lh_buf h"] by (simp add: on_line_def)
  then have "lh_buf h = ?pre @ ?s @ CHR 0x0A # ?post"
    using h id_take_nth_drop[of "lh_size h" "lh_buf h"] by (simp add: on_line_def)
  moreover have "length ?pre = lh_pos h" "length ?pre + length ?s = lh_size h"
    using h by (auto simp: on_line_def)
  ultimately have "h = line ?pre ?s ?post" by (cases h) (simp add: line_def)
  then show "\<exists>pre s post. h = line pre s post" by blast
qed (auto simp: on_line_line)

lemma line_simps [simp]:
  "lh_pos (line pre s post) = length pre"
  "lh_size (line pre s post) = length pre + length s"
  "CurLength (line pre s post) = length s"
  "IsEmpty (line pre s post) \<longleftrightarrow> s = []"
  "GetCurString (line pre s post) = s"
  "drop (length pre) (lh_buf (line pre s post)) = s @ CHR 0x0A # post"
  by (auto simp: line_def CurLength_def IsEmpty_def GetCurString_def)

lemma advance_line: "advance (length p) (line pre (p @ s) post) = line (pre @ p) s post"
  by (simp add: advance_def line_def)

lemma nl_facts [simp]:
  "isspace CHR 0x0A" "\<not> isalnum CHR 0x0A" "\<not> isdigit CHR 0x0A"
  by (simp_all add: isspace_def isalnum_def isdigit_def isalpha_def code_def)

lemma byte_at_line [simp]:
  "byte_at (line pre (c # s) post) (length pre) = Inr c"
  by (simp add: byte_at_def line_def)

end
