(* ===== verification/LineSpec.thy ===== *)
theory LineSpec
  imports LineHandler "HOL-Library.Sublist"
begin

text \<open>
  What the line handler does to the text of a line. On a line of the reader buffer every
  operation is defined, stays inside the line, and is a function of the remaining text
  alone; the lemmas below give that function for each of them, so that the parsers can be
  reasoned about on strings.
\<close>

section \<open>The loops on the buffer\<close>

lemma drop_ConsD:
  assumes "drop i xs = c # ys"
  shows "i < length xs" and "xs ! i = c" and "drop (Suc i) xs = ys"
proof -
  show l: "i < length xs" using assms by (cases "i < length xs") auto
  then show "xs ! i = c" "drop (Suc i) xs = ys"
    using assms Cons_nth_drop_Suc[of i xs] by simp_all
qed

lemma takeWhile_append_hd:
  assumes "r = [] \<or> \<not> P (hd r)"
  shows "takeWhile P (t @ r) = takeWhile P t"
  using assms by (induction t) (cases r; auto)+

lemma span_len_text:
  assumes "drop i (lh_buf h) = s @ r" and "lh_size h = i + length s"
  shows "span_len P h i = Inr (length (takeWhile P s))"
  using assms
proof (induction s arbitrary: i)
  case Nil
  then show ?case by (simp add: span_len.simps)
next
  case (Cons c s)
  then have d: "i < length (lh_buf h)" "lh_buf h ! i = c" "drop (Suc i) (lh_buf h) = s @ r"
    using drop_ConsD[of i "lh_buf h" c "s @ r"] by simp_all
  show ?case
    using Cons.IH[OF d(3)] Cons.prems(2) d(1,2)
    by (subst span_len.simps) (simp add: byte_at_def)
qed

lemma run_len_text:
  assumes "drop i (lh_buf h) = xs" and "\<exists>x \<in> set xs. \<not> P x"
  shows "run_len P h i = Inr (length (takeWhile P xs))"
  using assms
proof (induction xs arbitrary: i)
  case (Cons c s)
  note d = drop_ConsD[OF Cons.prems(1)]
  show ?case
    using Cons.IH[OF d(3)] Cons.prems(2) d(1,2) by (subst run_len.simps) auto
qed simp

lemma match_string_text:
  assumes "drop i (lh_buf h) = s @ r" and "lh_size h = i + length s"
  shows "match_string p h i = Inr (prefix p s)"
  using assms
proof (induction p arbitrary: i s)
  case (Cons c p)
  show ?case
  proof (cases s)
    case Nil
    then show ?thesis using Cons.prems by simp
  next
    case (Cons b t)
    then have d: "i < length (lh_buf h)" "lh_buf h ! i = b" "drop (Suc i) (lh_buf h) = t @ r"
      using drop_ConsD[of i "lh_buf h" b "t @ r"] Cons.prems(1) by simp_all
    show ?thesis
      using Cons.IH[OF d(3)] Cons.prems(2) d(1,2) Cons by (simp add: byte_at_def)
  qed
qed simp

section \<open>Reading numbers from a line\<close>

lemma digit_of_alnum: "is_digit_of b c \<Longrightarrow> b \<le> 36 \<Longrightarrow> isalnum c"
  by (auto simp: is_digit_of_def digit_val_def isalnum_def isalpha_def split: if_splits)

lemma digit_of_10: "is_digit_of 10 c \<longleftrightarrow> isdigit c"
  by (auto simp: is_digit_of_def digit_val_def isdigit_def)

lemma alnum_plain:
  assumes "isalnum c"
  shows "\<not> isspace c" and "c \<noteq> CHR ''-''" and "c \<noteq> CHR ''+''"
  using assms by (auto simp: isalnum_def isalpha_def isdigit_def isspace_def code_def)

lemma strip_0x_append:
  assumes "ds \<noteq> []" and "r = [] \<or> \<not> isalnum (hd r)"
  shows "strip_0x 16 (ds @ r) = strip_0x 16 ds @ r"
proof -
  have r: "\<not> is_digit_of 16 d \<and> d \<noteq> CHR ''x'' \<and> d \<noteq> CHR ''X''" if "r = d # r'" for d r'
  proof -
    have "\<not> isalnum d" using assms(2) that by simp
    moreover have "isalnum CHR ''x''" "isalnum CHR ''X''"
      by (simp_all add: isalnum_def isalpha_def isdigit_def code_def)
    ultimately show ?thesis using digit_of_alnum[of 16 d] by auto
  qed
  obtain a as where ds: "ds = a # as" using assms(1) by (cases ds) auto
  show ?thesis
  proof (cases as)
    case Nil
    then show ?thesis using ds r by (cases r; cases "tl r") auto
  next
    case (Cons b bs)
    then show ?thesis using ds r by (cases bs; cases r) auto
  qed
qed

lemma strto_parts_append:
  assumes "ds \<noteq> []" and "isalnum (hd ds)" and "b = 10 \<or> b = 16"
    and "r = [] \<or> (if b = 10 then \<not> isdigit (hd r) else \<not> isalnum (hd r))"
  shows "strto_parts b (ds @ r) = strto_parts b ds"
proof -
  obtain c cs where ds: "ds = c # cs" using assms(1) by (cases ds) auto
  then have c: "\<not> isspace c" "c \<noteq> CHR ''-''" "c \<noteq> CHR ''+''"
    using alnum_plain[of c] assms(2) by simp_all
  have s0: "strip_0x b (ds @ r) = strip_0x b ds @ r"
  proof (cases "b = 16")
    case True
    then show ?thesis using strip_0x_append[OF assms(1), of r] assms(4) by auto
  next
    case False
    then have "strip_0x b t = t" for t by (cases "(b, t)" rule: strip_0x.cases) auto
    then show ?thesis by simp
  qed
  have "r = [] \<or> \<not> is_digit_of b (hd r)"
    using assms(3,4) digit_of_10 digit_of_alnum[of 16 "hd r"] by auto
  then have "takeWhile (is_digit_of b) (t @ r) = takeWhile (is_digit_of b) t" for t
    by (rule takeWhile_append_hd)
  then show ?thesis using c ds s0 by (simp add: strto_parts_def)
qed

text \<open>The characters a number of base 10 or 16 is scanned with.\<close>

definition num_pred :: "nat \<Rightarrow> char \<Rightarrow> bool" where
  "num_pred base = (if base = 10 then is_num else is_alnum)"

lemma num_pred_nl [simp]: "\<not> num_pred base CHR 0x0A"
  by (simp add: num_pred_def is_num_def is_alnum_def)

lemma num_pred_alnum: "num_pred base c \<Longrightarrow> isalnum c"
  by (auto simp: num_pred_def is_num_def is_alnum_def isalnum_def split: if_splits)

lemma takeWhile_line:
  assumes "\<not> P CHR 0x0A"
  shows "takeWhile P (s @ CHR 0x0A # post) = takeWhile P s"
  using assms by (induction s) auto

lemma split_takeWhile:
  "s = takeWhile P s @ dropWhile P s" "s @ r = takeWhile P s @ dropWhile P s @ r"
  by simp_all

lemma strto_parts_line:
  assumes "takeWhile (num_pred b) s \<noteq> []" and "b = 10 \<or> b = 16"
  shows "strto_parts b (s @ CHR 0x0A # post) = strto_parts b (takeWhile (num_pred b) s)"
proof -
  let ?ds = "takeWhile (num_pred b) s" and ?r = "dropWhile (num_pred b) s @ CHR 0x0A # post"
  have "hd ?ds \<in> set ?ds" using assms(1) by simp
  then have "isalnum (hd ?ds)" using num_pred_alnum set_takeWhileD by metis
  moreover have "\<not> num_pred b (hd ?r)"
  proof (cases "dropWhile (num_pred b) s = []")
    case True
    then show ?thesis by (simp only: append_Nil list.sel num_pred_nl not_False_eq_True)
  next
    case False
    then show ?thesis using hd_dropWhile[OF False] by simp
  qed
  then have "if b = 10 then \<not> isdigit (hd ?r) else \<not> isalnum (hd ?r)"
    by (auto simp: num_pred_def is_num_def is_alnum_def split: if_splits)
  ultimately have "strto_parts b (?ds @ ?r) = strto_parts b ?ds"
    using strto_parts_append[OF assms(1) _ assms(2)] by blast
  then show ?thesis by (metis append.assoc takeWhile_dropWhile_id)
qed

section \<open>The operations on a line\<close>

lemma line_text: "drop (length pre) (lh_buf (line pre s post)) = s @ CHR 0x0A # post"
  by (simp add: line_def)

lemma span_len_line [simp]:
  "span_len P (line pre s post) (length pre) = Inr (length (takeWhile P s))"
  by (rule span_len_text[OF line_text]) simp

lemma run_len_line [simp]:
  assumes "\<not> P CHR 0x0A"
  shows "run_len P (line pre s post) (length pre) = Inr (length (takeWhile P s))"
proof -
  have "\<exists>x \<in> set (s @ CHR 0x0A # post). \<not> P x" using assms by auto
  from run_len_text[OF line_text this] show ?thesis by (simp add: takeWhile_line[of P, OF assms])
qed

lemma advance_take:
  "advance (length (takeWhile P s)) (line pre s post) = line (pre @ takeWhile P s) (dropWhile P s) post"
  using advance_line[of "takeWhile P s" pre "dropWhile P s" post] by simp

lemma TrimL_line:
  "TrimL (line pre s post) = Inr (line (pre @ takeWhile is_space s) (dropWhile is_space s) post)"
  by (simp add: TrimL_def advance_take)

lemma TrimTillWhitespace_line:
  "TrimTillWhitespace (line pre s post) =
     Inr (line (pre @ takeWhile (\<lambda>c. \<not> is_space c) s) (dropWhile (\<lambda>c. \<not> is_space c) s) post)"
  by (simp add: TrimTillWhitespace_def advance_take)

lemma ExtractAndSubstrUntil_line:
  "ExtractAndSubstrUntil P (line pre s post) =
     Inr (takeWhile P s, line (pre @ takeWhile P s) (dropWhile P s) post)"
proof -
  have "take (length (takeWhile P s)) (s @ CHR 0x0A # post) = takeWhile P s"
    by (metis append_eq_conv_conj append.assoc takeWhile_dropWhile_id)
  then show ?thesis by (simp add: ExtractAndSubstrUntil_def advance_take)
qed

lemma ExtractAndSubstrUntilInto_line:
  "ExtractAndSubstrUntilInto P (line pre s post) =
     Inr (if takeWhile P s = [] then None else Some (takeWhile P s),
          line (pre @ takeWhile P s) (dropWhile P s) post)"
  by (simp add: ExtractAndSubstrUntilInto_def ExtractAndSubstrUntil_line)

lemma SkipTill_line:
  "SkipTill P (line pre s post) =
     Inr (if list_ex P s
          then (True, line (pre @ takeWhile (\<lambda>c. \<not> P c) s) (dropWhile (\<lambda>c. \<not> P c) s) post)
          else (False, line pre s post))"
proof -
  have "length (takeWhile (\<lambda>c. \<not> P c) s) < length s \<longleftrightarrow> list_ex P s"
    by (induction s) auto
  then show ?thesis by (auto simp: SkipTill_def advance_take)
qed

lemma ConsumeAndTrimString_line:
  "ConsumeAndTrimString p (line pre s post) =
     Inr (if s \<noteq> [] \<and> prefix p s then (True, line (pre @ p) (drop (length p) s) post)
          else (False, line pre s post))"
proof -
  have m: "match_string p (line pre s post) (length pre) = Inr (prefix p s)"
    by (rule match_string_text[OF line_text]) simp
  have "prefix p s \<Longrightarrow> advance (length p) (line pre s post) = line (pre @ p) (drop (length p) s) post"
    by (auto simp: prefix_def advance_line)
  then show ?thesis
    using prefix_length_le[of p s] by (auto simp: ConsumeAndTrimString_def m)
qed

lemma ConsumeAndTrimString_hit:
  assumes "p \<noteq> []"
  shows "ConsumeAndTrimString p (line pre (p @ s) post) = Inr (True, line (pre @ p) s post)"
  using assms by (simp add: ConsumeAndTrimString_line)

lemma ConsumeAndTrimChar_line:
  "ConsumeAndTrimChar c (line pre s post) =
     Inr (case s of
            [] \<Rightarrow> (False, line pre s post)
          | d # t \<Rightarrow> if d = c then (True, line (pre @ [c]) t post) else (False, line pre s post))"
proof (cases s)
  case Nil
  then show ?thesis by (simp add: ConsumeAndTrimChar_def)
next
  case (Cons d t)
  then show ?thesis
    using advance_line[of "[d]" pre t post] by (cases "d = c") (simp_all add: ConsumeAndTrimChar_def)
qed

lemma ParseUintTrim_line:
  assumes "base = 10 \<or> base = 16"
  shows "ParseUintTrim base (line pre s post) =
     Inr (let ds = takeWhile (num_pred base) s in
          if ds = [] \<or> strtoul base ds = u64_max then (None, line pre s post)
          else (Some (strtoul base ds), line (pre @ ds) (dropWhile (num_pred base) s) post))"
proof -
  let ?ds = "takeWhile (num_pred base) s"
  have len: "length ?ds \<le> length s" by (rule length_takeWhile_le)
  have val: "strtoul base (s @ CHR 0x0A # post) = strtoul base ?ds" if "?ds \<noteq> []"
    using strto_parts_line[OF that assms] by (simp add: strtoul_def)
  have run: "run_len (num_pred base) (line pre s post) (length pre) = Inr (length ?ds)" by simp
  show ?thesis
    using run len val assms advance_take[of "num_pred base" s pre post]
    by (cases "s = []") (auto simp: ParseUintTrim_def num_pred_def[symmetric] Let_def)
qed

lemma ParseInt_line:
  "ParseInt (line pre s post) =
     Inr (let ds = takeWhile is_num s in
          if ds = [] then (None, line pre s post)
          else (Some (strtol_int ds), line (pre @ ds) (dropWhile is_num s) post))"
proof -
  let ?ds = "takeWhile is_num s"
  have np: "num_pred 10 = is_num" by (simp add: num_pred_def)
  have len: "length ?ds \<le> length s" by (rule length_takeWhile_le)
  have val: "strtol_int (s @ CHR 0x0A # post) = strtol_int ?ds" if "?ds \<noteq> []"
    using strto_parts_line[of 10 s post] that by (simp add: strtol_int_def np)
  have run: "run_len is_num (line pre s post) (length pre) = Inr (length ?ds)"
    by (rule run_len_line) (simp add: is_num_def)
  show ?thesis
    using run len val advance_take[of is_num s pre post]
    by (cases "s = []") (auto simp: ParseInt_def Let_def)
qed

subsection \<open>Reading back what was printed\<close>

lemma show_base_alnum:
  assumes "2 \<le> b" and "b \<le> 16" and "c \<in> set (show_base b n)"
  shows "isalnum c" and "b \<le> 10 \<Longrightarrow> isdigit c"
proof -
  obtain d where d: "d < b" "c = digit_char d"
    using show_base_digits[OF assms(1,2), of n] assms(3) by blast
  then show "isalnum c" "b \<le> 10 \<Longrightarrow> isdigit c"
    using digit_char_facts(2,3)[of d] assms(2) by auto
qed

lemma ParseUintTrim_show:
  assumes "base = 10 \<or> base = 16" and "s = [] \<or> \<not> num_pred base (hd s)" and "n < 2 ^ 64 - 1"
  shows "ParseUintTrim base (line pre (show_base base n @ s) post) =
           Inr (Some (of_nat n), line (pre @ show_base base n) s post)"
proof -
  have b: "2 \<le> base" "base \<le> 16" using assms(1) by auto
  have all: "\<forall>c \<in> set (show_base base n). num_pred base c"
    using show_base_alnum[OF b] assms(1) by (auto simp: num_pred_def is_num_def is_alnum_def)
  have ne: "show_base base n \<noteq> []" using show_base_digits[OF b] by blast
  have tw: "takeWhile (num_pred base) (show_base base n @ s) = show_base base n"
    "dropWhile (num_pred base) (show_base base n @ s) = s"
    using all assms(2) by (cases s; auto simp: takeWhile_append_stop)+
  have v: "strtoul base (show_base base n) = of_nat n"
    using strto_parts_show[OF b, of "[]" n] assms(3) by (simp add: strtoul_def)
  have "of_nat n \<noteq> (u64_max :: u64)"
  proof
    assume "of_nat n = (u64_max :: u64)"
    then have "unat (of_nat n :: u64) = unat (u64_max :: u64)" by simp
    then show False using assms(3)
      by (simp add: unat_of_nat unsigned_minus_1_eq_mask mask_eq_exp_minus_1)
  qed
  then show ?thesis
    using ParseUintTrim_line[OF assms(1), of pre "show_base base n @ s" post] ne
    by (simp add: tw v)
qed

lemma ParseInt_show:
  assumes "s = [] \<or> \<not> isdigit (hd s)" and "n < 2 ^ 31"
  shows "ParseInt (line pre (show_dec n @ s) post) =
           Inr (Some (of_nat n), line (pre @ show_dec n) s post)"
proof -
  have all: "\<forall>c \<in> set (show_base 10 n). is_num c"
    using show_base_alnum(2)[of 10] by (auto simp: is_num_def)
  have ne: "show_base 10 n \<noteq> []" using show_base_digits[of 10] by auto
  have tw: "takeWhile is_num (show_base 10 n @ s) = show_base 10 n"
    "dropWhile is_num (show_base 10 n @ s) = s"
    using all assms(1) by (cases s; auto simp: takeWhile_append_stop is_num_def)+
  have "strtol_int (show_base 10 n) = of_nat n"
    using strto_parts_show[of 10 "[]" n] assms(2) by (simp add: strtol_int_def)
  then show ?thesis by (simp add: ParseInt_line show_dec_def tw ne)
qed

end
