(* ===== verification/LineParsers.thy ===== *)
theory LineParsers
  imports LineSpec EventOps
begin

text \<open>
  What the log parsers share: how they sequence the methods of a \<open>LineHandler\<close>, and the
  functions of source/parser/parser.cc, which read timestamps, addresses and the network
  headers.
\<close>

section \<open>Sequencing\<close>

text \<open>
  A parsing function returns a value or reports failure (\<open>false\<close>, \<open>nullptr\<close>,
  \<open>nullopt\<close>); either way the cursor stays where the last method left it. The parsers
  are chains of \<open>if (not a or not b) return nullptr\<close> and \<open>if (a && b) return x; else if\<close>:

  \<^item> \<open>lh_check p f\<close>: continue with \<open>f\<close> when the method \<open>p\<close> returns true, else fail;
  \<^item> \<open>lh_bind p f\<close>: the same for a method with an output parameter;
  \<^item> \<open>field s p f\<close>: the frequent \<open>ConsumeAndTrimString(s)\<close> followed by \<open>p\<close>;
  \<^item> \<open>lh_if p f g\<close>: branch on the method \<open>p\<close>;
  \<^item> \<open>lh_orelse p q\<close>: the value of \<open>p\<close>, and \<open>q\<close> from the place where \<open>p\<close> failed.
\<close>

type_synonym 'a line_parser = "LineHandler \<Rightarrow> ('a option \<times> LineHandler) res"
type_synonym line_test = "LineHandler \<Rightarrow> (bool \<times> LineHandler) res"

definition lh_return :: "'a \<Rightarrow> 'a line_parser" where
  "lh_return x h = Inr (Some x, h)"

definition lh_fail :: "'a line_parser" where
  "lh_fail h = Inr (None, h)"

definition lh_bind :: "'a line_parser \<Rightarrow> ('a \<Rightarrow> 'b line_parser) \<Rightarrow> 'b line_parser" where
  "lh_bind p f h =
     rbind (p h) (\<lambda>(r, h'). case r of None \<Rightarrow> Inr (None, h') | Some x \<Rightarrow> f x h')"

definition lh_if :: "line_test \<Rightarrow> 'a line_parser \<Rightarrow> 'a line_parser \<Rightarrow> 'a line_parser" where
  "lh_if p f g h = rbind (p h) (\<lambda>(ok, h'). if ok then f h' else g h')"

definition lh_check :: "line_test \<Rightarrow> 'a line_parser \<Rightarrow> 'a line_parser" where
  "lh_check p f = lh_if p f lh_fail"

definition lh_step :: "(LineHandler \<Rightarrow> LineHandler res) \<Rightarrow> 'a line_parser \<Rightarrow> 'a line_parser" where
  "lh_step p f h = rbind (p h) f"

definition lh_orelse :: "'a line_parser \<Rightarrow> 'a line_parser \<Rightarrow> 'a line_parser" where
  "lh_orelse p q h =
     rbind (p h) (\<lambda>(r, h'). case r of None \<Rightarrow> q h' | Some x \<Rightarrow> Inr (Some x, h'))"

definition lh_optional :: "'a line_parser \<Rightarrow> ('a option \<Rightarrow> 'b line_parser) \<Rightarrow> 'b line_parser" where
  "lh_optional p f h = rbind (p h) (\<lambda>(r, h'). f r h')"

definition field :: "string \<Rightarrow> 'a line_parser \<Rightarrow> ('a \<Rightarrow> 'b line_parser) \<Rightarrow> 'b line_parser" where
  "field s p f = lh_check (ConsumeAndTrimString s) (lh_bind p f)"

definition till_field ::
  "string \<Rightarrow> 'a line_parser \<Rightarrow> ('a \<Rightarrow> 'b line_parser) \<Rightarrow> 'b line_parser"
where
  "till_field s p f = lh_check (ConsumeAndTrimTillString s) (lh_bind p f)"

lemmas lh_defs = lh_return_def lh_fail_def lh_bind_def lh_if_def lh_check_def lh_step_def
  lh_orelse_def lh_optional_def field_def till_field_def

section \<open>Timestamps and addresses\<close>

definition ParseTimestamp :: "u64 line_parser" where
  "ParseTimestamp = lh_step TrimL (ParseUintTrim 10)"

definition ParseAddress :: "u64 line_parser" where
  "ParseAddress = ParseUintTrim 16"

text \<open>The bytes of a MAC address; the argument is the number of bytes still to read.\<close>

fun mac_bytes :: "nat \<Rightarrow> u8 list line_parser" where
  "mac_bytes 0 = lh_return []"
| "mac_bytes (Suc n) =
     lh_bind (ParseUintTrim 16) (\<lambda>byte_buf.
       (if 0 < n then lh_check (ConsumeAndTrimChar CHR '':'') else id)
         (lh_bind (mac_bytes n) (\<lambda>bytes. lh_return (ucast byte_buf # bytes))))"

definition ParseMacAddress :: "MacAddress line_parser" where
  "ParseMacAddress =
     lh_step TrimL (lh_bind (mac_bytes kMacSize) (\<lambda>bytes. lh_return \<lparr>mac_addr = bytes\<rparr>))"

text \<open>The octets of an IP address; the argument is the number of octets still to read.\<close>

fun ip_octets :: "nat \<Rightarrow> u64 list line_parser" where
  "ip_octets 0 = lh_return []"
| "ip_octets (Suc n) =
     lh_bind (ParseUintTrim 10) (\<lambda>octet.
       if octet > 255 then lh_fail
       else
         (if 0 < n then lh_check (ConsumeAndTrimChar CHR ''.'') else id)
           (lh_bind (ip_octets n) (\<lambda>octets. lh_return (octet # octets))))"

definition ParseIpAddress :: "Ipv4 line_parser" where
  "ParseIpAddress =
     lh_bind (ip_octets 4) (\<lambda>octets.
       lh_return \<lparr>ipv4_ip = ucast (push_bit 24 (octets ! 0) + push_bit 16 (octets ! 1) +
                                    push_bit 8 (octets ! 2) + octets ! 3)\<rparr>)"

section \<open>Network headers\<close>

definition TryParseEthernetHeader :: "EthernetHeader line_parser" where
  "TryParseEthernetHeader =
     lh_step TrimL (
     lh_check (ConsumeAndTrimTillString ''EthernetHeader'') (
     till_field ''length/type=0x'' (ParseUintTrim 16) (\<lambda>length_type.
     till_field ''source='' ParseMacAddress (\<lambda>src_mac.
     till_field ''destination='' ParseMacAddress (\<lambda>dst_mac.
       lh_return \<lparr>eth_length_type = length_type, eth_src_mac = src_mac, eth_dst_mac = dst_mac\<rparr>)))))"

definition TryParseArpHeader :: "ArpHeader line_parser" where
  "TryParseArpHeader =
     lh_step TrimL (
     lh_check (ConsumeAndTrimTillString ''ns3::ArpHeader'') (
     lh_bind (lh_if (ConsumeAndTrimTillString ''request'') (lh_return True)
               (lh_if (ConsumeAndTrimTillString ''reply'') (lh_return False) lh_fail)) (\<lambda>is_request.
     till_field '' source ipv4: '' ParseIpAddress (\<lambda>src_ip.
     till_field '' dest ipv4: '' ParseIpAddress (\<lambda>dst_ip.
       lh_return \<lparr>arp_src_ip = src_ip, arp_dst_ip = dst_ip, arp_is_request = is_request\<rparr>)))))"

definition TryParseIpHeader :: "Ipv4Header line_parser" where
  "TryParseIpHeader =
     lh_step TrimL (
     lh_check (ConsumeAndTrimTillString ''Ipv4Header'') (
     till_field ''length: '' (ParseUintTrim 10) (\<lambda>len.
     lh_step TrimL (
     lh_bind ParseIpAddress (\<lambda>src_ip.
     lh_step TrimL (
     lh_check (ConsumeAndTrimChar CHR ''>'') (
     lh_step TrimL (
     lh_bind ParseIpAddress (\<lambda>dst_ip.
       lh_return \<lparr>iph_length = len, iph_src_ip = src_ip, iph_dst_ip = dst_ip\<rparr>)))))))))"

end
