(* ===== verification/EventStream.thy ===== *)
theory EventStream
  imports LineParsers EventText TraceEnv
begin

text \<open>
  The parser of printed event streams: include/parser/eventStreamParser.h and
  source/parser/event-stream.cpp. The theory \<open>StreamRoundtrip\<close> relates it to the
  \<open>Display\<close> methods of \<open>EventText\<close>.
\<close>

section \<open>The common prefix of a line\<close>

definition kSourceNamePred :: "char \<Rightarrow> bool" where
  "kSourceNamePred chara = (is_alnum chara \<or> chara = CHR ''-'')"

definition ParseIdentNameTs :: "(u64 \<times> string \<times> u64) line_parser" where
  "ParseIdentNameTs =
     field '': source_id='' (ParseUintTrim 10) (\<lambda>parser_ident.
     field '', source_name='' (ExtractAndSubstrUntilInto kSourceNamePred) (\<lambda>parser_name.
     field '', timestamp='' (ParseUintTrim 10) (\<lambda>ts.
       lh_return (parser_ident, parser_name, ts))))"

section \<open>Network events\<close>

definition device_name_pre :: "char \<Rightarrow> bool" where
  "device_name_pre chara = (is_alnum chara \<or> chara = CHR '':'')"

definition device_type_of :: "string \<Rightarrow> NetworkDeviceType option" where
  "device_type_of device_name =
     (if device_name = ''ns3::CosimNetDevice'' then Some kCosimNetDevice
      else if device_name = ''ns3::SimpleNetDevice'' then Some kSimpleNetDevice
      else None)"

definition boundary_type_of :: "string \<Rightarrow> EventBoundaryType option" where
  "boundary_type_of boundary_type_str =
     (if boundary_type_str = ''kToAdapter'' then Some kToAdapter
      else if boundary_type_str = ''kFromAdapter'' then Some kFromAdapter
      else if boundary_type_str = ''kWithinSimulator'' then Some kWithinSimulator
      else None)"

definition lh_option :: "'a option \<Rightarrow> 'a line_parser" where
  "lh_option r h = Inr (r, h)"

fun network_event_of :: "EventType \<Rightarrow> ev_base \<Rightarrow> NetworkEvent \<Rightarrow> event option" where
  "network_event_of kNetworkEnqueueT b n = Some (NetworkEnqueue b n)"
| "network_event_of kNetworkDequeueT b n = Some (NetworkDequeue b n)"
| "network_event_of kNetworkDropT b n = Some (NetworkDrop b n)"
| "network_event_of _ b n = None"

definition ParseNetworkEvent :: "EventType \<Rightarrow> ev_base \<Rightarrow> event line_parser" where
  "ParseNetworkEvent event_type b =
     field '', node='' ParseInt (\<lambda>node.
     field '', device='' ParseInt (\<lambda>device.
     field '', device_name='' (ExtractAndSubstrUntilInto device_name_pre) (\<lambda>device_name.
     till_field ''packet-uid='' (ParseUintTrim 10) (\<lambda>packet_uid.
     till_field ''interesting='' ParseBoolFromStringRepr (\<lambda>interesting.
     field '', payload_size='' (ParseUintTrim 10) (\<lambda>payload_size.
     field '', boundary_type='' (ExtractAndSubstrUntilInto is_alnum) (\<lambda>boundary_type_str.
     lh_bind (lh_option (device_type_of device_name)) (\<lambda>device_type.
     lh_bind (lh_option (boundary_type_of boundary_type_str)) (\<lambda>boundary_type.
     lh_step TrimL (lh_optional TryParseEthernetHeader (\<lambda>eth_h.
     lh_step TrimL (lh_optional TryParseArpHeader (\<lambda>arp_h.
     lh_step TrimL (lh_optional TryParseIpHeader (\<lambda>ip_h.
       lh_option (network_event_of event_type b
         \<lparr>net_node = node, net_device = device, net_device_type = device_type,
          net_packet_uid = packet_uid, net_interesting_flag = interesting,
          net_payload_size = payload_size, net_boundary_type = boundary_type,
          net_ethernet_header = eth_h, net_arp_header = arp_h, net_ip_header = ip_h\<rparr>))))))))))))))))"

section \<open>The other events\<close>

text \<open>
  The branches of \<open>ParseEvent\<close>, by event name. \<open>addr\<close> is still its initial 0 where the
  \<open>NicRx\<close> branch passes it to the constructor, whose arguments are port and length; the
  conversions from \<open>size_t\<close> to \<open>int\<close> and to \<open>uint16_t\<close> truncate.
\<close>

definition parse_pc_call :: "ev_base \<Rightarrow> event line_parser" where
  "parse_pc_call b =
     field '', pc='' (ParseUintTrim 16) (\<lambda>pc.
     field '', func='' (ExtractAndSubstrUntilInto is_alnum_dot_bar) (\<lambda>func.
     field '', comp='' (ExtractAndSubstrUntilInto is_alnum_dot_bar) (\<lambda>component.
       lh_return (HostCall b pc (Some func) (Some component)))))"

definition parse_id :: "(u64 \<Rightarrow> event) \<Rightarrow> event line_parser" where
  "parse_id mk = field '', id='' (ParseUintTrim 10) (\<lambda>ident. lh_return (mk ident))"

definition parse_id_addr_size :: "(u64 \<Rightarrow> u64 \<Rightarrow> u64 \<Rightarrow> event line_parser) \<Rightarrow> event line_parser" where
  "parse_id_addr_size f =
     field '', id='' (ParseUintTrim 10) (\<lambda>ident.
     field '', addr='' (ParseUintTrim 16) (\<lambda>addr.
     field '', size='' (ParseUintTrim 16) (\<lambda>sz. f ident addr sz)))"

definition parse_mmio :: "bool \<Rightarrow> ev_base \<Rightarrow> event line_parser" where
  "parse_mmio is_write b =
     parse_id_addr_size (\<lambda>ident addr sz.
     field '', bar='' ParseInt (\<lambda>bar.
     field '', offset='' (ParseUintTrim 16) (\<lambda>offset.
       if is_write then
         field '', posted='' ParseBoolFromStringRepr (\<lambda>posted.
           lh_return (HostMmioW b ident addr sz bar offset posted))
       else lh_return (HostMmioR b ident addr sz bar offset))))"

definition parse_conf :: "bool \<Rightarrow> ev_base \<Rightarrow> event line_parser" where
  "parse_conf is_read b =
     field '', dev='' (ParseUintTrim 16) (\<lambda>dev.
     field '', func='' (ParseUintTrim 16) (\<lambda>func.
     field '', reg='' (ParseUintTrim 16) (\<lambda>reg.
     field '', bytes='' (ParseUintTrim 10) (\<lambda>bytes.
     field '', data='' (ParseUintTrim 16) (\<lambda>dat.
       lh_return (HostConf b dev func reg bytes dat is_read))))))"

definition parse_pci :: "bool \<Rightarrow> ev_base \<Rightarrow> event line_parser" where
  "parse_pci is_read b =
     field '', offset='' (ParseUintTrim 16) (\<lambda>offset.
     field '', size='' (ParseUintTrim 10) (\<lambda>sz.
       lh_return (HostPciRW b offset sz is_read)))"

definition parse_nic_mmio :: "bool \<Rightarrow> ev_base \<Rightarrow> event line_parser" where
  "parse_nic_mmio is_write b =
     field '', off='' (ParseUintTrim 16) (\<lambda>off.
     field '', len='' (ParseUintTrim 16) (\<lambda>len.
     field '', val='' (ParseUintTrim 16) (\<lambda>val.
       if is_write then
         field '', posted='' ParseBoolFromStringRepr (\<lambda>posted.
           lh_return (NicMmioW b off len val posted))
       else lh_return (NicMmioR b off len val))))"

definition parse_nic_rx :: "ev_base \<Rightarrow> event line_parser" where
  "parse_nic_rx b =
     field '', len='' (ParseUintTrim 16) (\<lambda>len.
     lh_check (ConsumeAndTrimString '', is_read=true'') (
     field '', port='' ParseInt (\<lambda>port.
       lh_return (NicRx b (ucast len) 0))))"

text \<open>\<open>None\<close> for a name the parser does not know.\<close>

definition event_branches :: "ev_base \<Rightarrow> (string \<times> event line_parser) list" where
  "event_branches b =
     [(''SimSendSyncSimSendSync'', lh_return (SimSendSync b)),
      (''SimProcInEvent'', lh_return (SimProcInEvent b)),
      (''HostInstr'', field '', pc='' (ParseUintTrim 16) (\<lambda>pc. lh_return (HostInstr b pc))),
      (''HostCall'', parse_pc_call b),
      (''HostMmioImRespPoW'', lh_return (HostMmioImRespPoW b)),
      (''HostMmioCR'', parse_id (HostMmioCR b)),
      (''HostMmioCW'', parse_id (HostMmioCW b)),
      (''HostDmaC'', parse_id (HostDmaC b)),
      (''HostMmioR'', parse_mmio False b),
      (''HostMmioW'', parse_mmio True b),
      (''HostDmaR'', parse_id_addr_size (\<lambda>i addr sz. lh_return (HostDmaR b i addr sz))),
      (''HostDmaW'', parse_id_addr_size (\<lambda>i addr sz. lh_return (HostDmaW b i addr sz))),
      (''HostMsiX'', field '', vec='' (ParseUintTrim 10) (\<lambda>vec. lh_return (HostMsiX b vec))),
      (''HostConfRead'', parse_conf True b),
      (''HostConfWrite'', parse_conf False b),
      (''HostClearInt'', lh_return (HostClearInt b)),
      (''HostPostInt'', lh_return (HostPostInt b)),
      (''HostPciR'', parse_pci True b),
      (''HostPciW'', parse_pci False b),
      (''NicMsix'', field '', vec='' (ParseUintTrim 10) (\<lambda>vec. lh_return (NicMsix b (ucast vec) True))),
      (''NicMsi'', field '', vec='' (ParseUintTrim 10) (\<lambda>vec. lh_return (NicMsix b (ucast vec) False))),
      (''SetIX'', field '', interrupt='' (ParseUintTrim 16) (\<lambda>intr. lh_return (SetIX b intr))),
      (''NicDmaI'', parse_id_addr_size (\<lambda>i addr len. lh_return (NicDmaI b i addr len))),
      (''NicDmaEx'', parse_id_addr_size (\<lambda>i addr len. lh_return (NicDmaEx b i addr len))),
      (''NicDmaEn'', parse_id_addr_size (\<lambda>i addr len. lh_return (NicDmaEn b i addr len))),
      (''NicDmaCW'', parse_id_addr_size (\<lambda>i addr len. lh_return (NicDmaCW b i addr len))),
      (''NicDmaCR'', parse_id_addr_size (\<lambda>i addr len. lh_return (NicDmaCR b i addr len))),
      (''NicMmioR'', parse_nic_mmio False b),
      (''NicMmioW'', parse_nic_mmio True b),
      (''NicTx'', field '', len='' (ParseUintTrim 16) (\<lambda>len. lh_return (NicTx b len))),
      (''NicRx'', parse_nic_rx b),
      (''NetworkEnqueue'', ParseNetworkEvent kNetworkEnqueueT b),
      (''NetworkDequeue'', ParseNetworkEvent kNetworkDequeueT b),
      (''NetworkDrop'', ParseNetworkEvent kNetworkDropT b)]"

definition ParseEventBody :: "string \<Rightarrow> ev_base \<Rightarrow> event line_parser" where
  "ParseEventBody event_name b =
     (case map_of (event_branches b) event_name of None \<Rightarrow> lh_fail | Some p \<Rightarrow> p)"

text \<open>\<open>HostCall\<close> internalizes its two names once they have been read.\<close>

fun internalize_call :: "event option \<Rightarrow> StringInternalizer \<Rightarrow> StringInternalizer" where
  "internalize_call (Some (HostCall b pc (Some func) (Some component))) st =
     snd (Internalize component (snd (Internalize func st)))"
| "internalize_call _ st = st"

section \<open>\<open>ParseEvent\<close>\<close>

definition ParseStreamEvent ::
  "LineHandler \<Rightarrow> StringInternalizer \<Rightarrow> (event option \<times> LineHandler \<times> StringInternalizer) res"
where
  "ParseStreamEvent h st =
     rbind (TrimL h) (\<lambda>h1.
     rbind (ExtractAndSubstrUntil (\<lambda>c. c \<noteq> CHR '':'') h1) (\<lambda>(event_name, h2).
       if event_name = [] then Inr (None, h2, st)
       else
         rbind (ParseIdentNameTs h2) (\<lambda>(r, h3).
           case r of
             None \<Rightarrow> Inr (None, h3, st)
           | Some (parser_ident, p_name, ts) \<Rightarrow>
               (case Internalize p_name st of
                  (singleton, st1) \<Rightarrow>
                    rbind (or_undefined (deref st1 singleton) ''*singleton'') (\<lambda>parser_name.
                    rbind (ParseEventBody event_name
                             \<lparr>ev_timestamp = ts, ev_parser_identifier = parser_ident,
                              ev_parser_name = parser_name\<rparr> h3) (\<lambda>(e, h4).
                      Inr (e, h4, internalize_call e st1)))))))"

end
