(* ===== verification/LineProps.thy ===== *)
theory LineProps
  imports LineSpec
begin

text \<open>
  Properties of the line handler: every method stays inside the line, what the search of
  \<open>ConsumeAndTrimTillString\<close> finds and what it misses, and which numbers survive being
  printed and parsed.
\<close>

section \<open>The greedy search\<close>

fun common :: "string \<Rightarrow> string \<Rightarrow> nat" where
  "common (c # cs) (d # ds) = (if c = d then Suc (common cs ds) else 0)"
| "common _ _ = 0"

text \<open>
  The search on texts: find the first character, match as far as possible, and on a
  mismatch go on behind the matched part. The result is the text behind the match.
\<close>

function greedy_find :: "string \<Rightarrow> string \<Rightarrow> string option" where
  "greedy_find p s =
     (case dropWhile (\<lambda>c. c \<noteq> hd p) s of
        [] \<Rightarrow> None
      | y # ys \<Rightarrow>
          if p = [] then None
          else if prefix p (y # ys) then Some (drop (length p) (y # ys))
          else if prefix (y # ys) p then None
          else greedy_find p (drop (common p (y # ys)) (y # ys)))"
  by pat_completeness auto
termination
proof (relation "measure (length \<circ> snd)", goal_cases)
  case (2 p s y ys)
  then have "y = hd p" using dropWhile_eq_Cons_conv[of "\<lambda>c. c \<noteq> hd p" s y ys] by auto
  then have "common p (y # ys) > 0" using 2(2) by (cases p) auto
  moreover have "length (y # ys) \<le> length s" using 2(1) length_dropWhile_le[of _ s] by metis
  ultimately show ?case by simp
qed simp

declare greedy_find.simps [simp del]

lemma common_take: "take (common p t) t = take (common p t) p"
  by (induction p t rule: common.induct) auto

lemma common_le: "common p t \<le> length t \<and> common p t \<le> length p"
  by (induction p t rule: common.induct) auto

lemma common_lt: "\<not> prefix p t \<Longrightarrow> common p t < length p"
  by (induction p t rule: common.induct) auto

lemma greedy_find_sound: "greedy_find p s = Some r \<Longrightarrow> \<exists>pre. s = pre @ p @ r"
proof (induction p s arbitrary: r rule: greedy_find.induct)
  case (1 p s)
  let ?tw = "takeWhile (\<lambda>x. x \<noteq> hd p) s" and ?t = "dropWhile (\<lambda>x. x \<noteq> hd p) s"
  have st: "s = ?tw @ ?t" by simp
  obtain y ys where Cons: "?t = y # ys" "p \<noteq> []"
    using 1(2) by (subst (asm) greedy_find.simps) (auto split: list.splits if_splits)
  show ?case
  proof (cases "prefix p (y # ys)")
    case True
    then have "r = drop (length p) (y # ys)"
      using 1(2) Cons by (subst (asm) greedy_find.simps) simp
    then have "y # ys = p @ r" using True by (auto simp: prefix_def)
    then show ?thesis using st Cons(1) by metis
  next
    case False
    then have "\<not> prefix (y # ys) p" "greedy_find p (drop (common p (y # ys)) (y # ys)) = Some r"
      using 1(2) Cons by (subst (asm) greedy_find.simps; auto split: if_splits)+
    then obtain pre where "drop (common p (y # ys)) (y # ys) = pre @ p @ r"
      using 1(1)[OF Cons False] by blast
    then have "y # ys = take (common p (y # ys)) (y # ys) @ pre @ p @ r"
      by (metis append_take_drop_id)
    then show ?thesis using st Cons(1) by (metis append.assoc)
  qed
qed

lemma match_from_text:
  assumes "drop i (lh_buf h) = t @ CHR 0x0A # post" and "lh_size h = i + length t"
  shows "match_from p h i =
    Inr (if prefix p t then Some (length p, i + length p) else if prefix t p then None
         else Some (common p t, i + common p t))"
  using assms
proof (induction p arbitrary: i t)
  case Nil
  then show ?case by simp
next
  case (Cons c p)
  show ?case
  proof (cases t)
    case Nil
    then show ?thesis using Cons.prems by simp
  next
    case (Cons b u)
    then have d: "i < length (lh_buf h)" "lh_buf h ! i = b" "drop (Suc i) (lh_buf h) = u @ CHR 0x0A # post"
      using drop_ConsD[of i "lh_buf h" b "u @ CHR 0x0A # post"] Cons.prems(1) by simp_all
    show ?thesis
      using Cons.IH[OF d(3)] Cons.prems(2) d(1,2) Cons by (simp add: byte_at_def)
  qed
qed

lemma scan_start_text:
  assumes "drop i (lh_buf h) = t @ CHR 0x0A # post" and "lh_size h = i + length t"
  shows "scan_start c h i = Inr (i + length (takeWhile (\<lambda>x. x \<noteq> c) t))"
  using assms
proof (induction t arbitrary: i)
  case Nil
  then show ?case using drop_ConsD(1)[of i "lh_buf h" "CHR 0x0A" post]
    by (subst scan_start.simps) simp
next
  case (Cons b u)
  then have d: "i < length (lh_buf h)" "lh_buf h ! i = b" "drop (Suc i) (lh_buf h) = u @ CHR 0x0A # post"
    using drop_ConsD[of i "lh_buf h" b "u @ CHR 0x0A # post"] by simp_all
  show ?case
    using Cons.IH[OF d(3)] Cons.prems(2) d(1,2) by (subst scan_start.simps) simp
qed

lemma till_string_text:
  assumes "drop i (lh_buf h) = s @ CHR 0x0A # post" and "lh_size h = i + length s" and "p \<noteq> []"
  shows "till_string p h i = Inr (map_option (\<lambda>r. i + (length s - length r)) (greedy_find p s))"
  using assms
proof (induction p s arbitrary: i rule: greedy_find.induct)
  case (1 p s)
  obtain c cs where p: "p = c # cs" using 1(4) by (cases p) auto
  let ?tw = "takeWhile (\<lambda>x. x \<noteq> c) s" and ?t = "dropWhile (\<lambda>x. x \<noteq> c) s"
  have st: "s = ?tw @ ?t" by simp
  note scan = scan_start_text[OF 1(2,3), of c]
  show ?case
  proof (cases ?t)
    case Nil
    then have "length ?tw = length s" using st by (metis append_Nil2)
    moreover have "greedy_find p s = None"
      using Nil p by (subst greedy_find.simps) (simp del: dropWhile_eq_Nil_conv)
    ultimately show ?thesis
      using scan 1(3) p by (subst till_string.simps) simp
  next
    case (Cons y ys)
    let ?j = "i + length ?tw"
    have len: "length s = length ?tw + length (y # ys)" by (metis st Cons length_append)
    have dj: "drop ?j (lh_buf h) = (y # ys) @ CHR 0x0A # post" "lh_size h = ?j + length (y # ys)"
    proof -
      have "drop ?j (lh_buf h) = drop (length ?tw) (drop i (lh_buf h))" by (simp add: add.commute)
      also have "\<dots> = drop (length ?tw) ((?tw @ ?t) @ CHR 0x0A # post)" using 1(2) st by metis
      finally show "drop ?j (lh_buf h) = (y # ys) @ CHR 0x0A # post" using Cons by simp
      show "lh_size h = ?j + length (y # ys)" using 1(3) len by simp
    qed
    note m = match_from_text[OF dj, of p]
    show ?thesis
    proof (cases "prefix p (y # ys) \<or> prefix (y # ys) p")
      case True
      then show ?thesis
        using scan m 1(3) p Cons len prefix_length_le[of p "y # ys"]
        by (subst till_string.simps, subst greedy_find.simps) auto
    next
      case False
      let ?k = "common p (y # ys)"
      have k: "?k \<le> length (y # ys)" "?k < length p"
        using common_le[of p "y # ys"] common_lt[of p "y # ys"] False by simp_all
      have dk: "drop (?j + ?k) (lh_buf h) = drop ?k (y # ys) @ CHR 0x0A # post"
        "lh_size h = ?j + ?k + length (drop ?k (y # ys))"
      proof -
        have "drop (?j + ?k) (lh_buf h) = drop ?k (drop ?j (lh_buf h))" by (simp add: add.commute)
        also have "\<dots> = drop ?k ((y # ys) @ CHR 0x0A # post)" using dj(1) by simp
        also have "\<dots> = drop ?k (y # ys) @ CHR 0x0A # post"
          using k(1) drop_append[of ?k "y # ys" "CHR 0x0A # post"] by (simp del: append_Cons)
        finally show "drop (?j + ?k) (lh_buf h) = drop ?k (y # ys) @ CHR 0x0A # post" .
        show "lh_size h = ?j + ?k + length (drop ?k (y # ys))" using dj(2) k(1) by simp
      qed
      have rec: "till_string p h (?j + ?k) =
          Inr (map_option (\<lambda>r. ?j + ?k + (length (drop ?k (y # ys)) - length r))
                (greedy_find p (drop ?k (y # ys))))"
        using 1(1)[OF _ _ _ _ dk 1(4)] Cons p False by simp
      have f: "prefix p (y # ys) = False" "prefix (y # ys) p = False" "(p = []) = False"
        using False 1(4) by blast+
      have hd: "hd p = c" using p by simp
      have g: "greedy_find p s = greedy_find p (drop ?k (y # ys))"
        by (subst greedy_find.simps) (simp only: hd Cons list.case f if_False)
      have m': "match_from p h ?j = Inr (Some (?k, ?j + ?k))"
        using m unfolding f if_False .
      have "till_string (c # cs) h i = till_string (c # cs) h (?j + ?k)"
        using scan m' 1(3) dj(2) k(2) len p
        by (subst till_string.simps) (simp del: match_from.simps common.simps)
      then have t: "till_string p h i = till_string p h (?j + ?k)" using p by simp
      have "?j + ?k + (length (drop ?k (y # ys)) - length r) = i + (length s - length r)"
        if r: "greedy_find p (drop ?k (y # ys)) = Some r" for r
      proof -
        obtain pre where e: "drop ?k (y # ys) = pre @ p @ r" using greedy_find_sound[OF r] by blast
        have "length (drop ?k (y # ys)) = length pre + length p + length r"
          by (simp only: e length_append add.assoc)
        then show ?thesis using len k(1) by simp
      qed
      then have "map_option (\<lambda>r. ?j + ?k + (length (drop ?k (y # ys)) - length r))
            (greedy_find p (drop ?k (y # ys))) =
          map_option (\<lambda>r. i + (length s - length r)) (greedy_find p (drop ?k (y # ys)))"
        by (intro map_option_cong) auto
      then show ?thesis using rec t g by simp
    qed
  qed
qed

text \<open>Nothing is missed when the first character does not occur again in the pattern.\<close>

lemma sublist_skip:
  assumes "sublist p (a @ b)" and "p \<noteq> []" and "hd p \<notin> set a"
  shows "sublist p b"
  using assms
proof (induction a)
  case (Cons x a)
  then have "\<not> prefix p (x # a @ b)" by (cases p) auto
  then show ?case using Cons by (simp add: sublist_Cons_right)
qed simp

lemma greedy_find_complete:
  assumes "sublist p s" and "p \<noteq> []" and "hd p \<notin> set (tl p)"
  shows "greedy_find p s \<noteq> None"
  using assms
proof (induction p s rule: greedy_find.induct)
  case (1 p s)
  let ?tw = "takeWhile (\<lambda>x. x \<noteq> hd p) s" and ?t = "dropWhile (\<lambda>x. x \<noteq> hd p) s"
  have "hd p \<notin> set ?tw" using set_takeWhileD by fastforce
  then have t: "sublist p ?t" using sublist_skip[of p ?tw ?t] 1(2,3) by simp
  then obtain y ys where Cons: "?t = y # ys" using 1(3) by (cases ?t) auto
  show ?case
  proof (cases "prefix p (y # ys)")
    case True
    then show ?thesis using Cons 1(3) by (subst greedy_find.simps) simp
  next
    case False
    let ?k = "common p (y # ys)"
    have ys: "sublist p ys" using t Cons False by (simp add: sublist_Cons_right)
    then have longer: "\<not> prefix (y # ys) p"
      using sublist_length_le[OF ys] prefix_length_le[of "y # ys" p] by auto
    have "y = hd p" using Cons dropWhile_eq_Cons_conv[of "\<lambda>x. x \<noteq> hd p" s y ys] by auto
    then obtain c cs where p: "p = c # cs" "y = c" using 1(3) by (cases p) auto
    have "take (common cs ys) ys = take (common cs ys) cs" by (rule common_take)
    then have "hd p \<notin> set (take (common cs ys) ys)"
      using 1(4) p set_take_subset[of "common cs ys" cs] by auto
    then have "sublist p (drop (common cs ys) ys)"
      using sublist_skip[of p "take (common cs ys) ys" "drop (common cs ys) ys"] ys 1(3) by simp
    then have "sublist p (drop ?k (y # ys))" using p by simp
    then have "greedy_find p (drop ?k (y # ys)) \<noteq> None"
      using 1(1)[OF Cons 1(3) False longer _ 1(3,4)] by simp
    then show ?thesis using Cons 1(3) False longer by (subst greedy_find.simps) simp
  qed
qed

lemma ConsumeAndTrimTillString_line:
  "ConsumeAndTrimTillString p (line pre s post) =
     Inr (if p = [] then (False, line pre s post)
          else case greedy_find p s of
            None \<Rightarrow> (False, line pre s post)
          | Some r \<Rightarrow> (True, line (pre @ take (length s - length r) s) r post))"
proof (cases "p = [] \<or> s = [] \<or> length s < length p")
  case True
  have "greedy_find p s = None" if "p \<noteq> []" "s = [] \<or> length s < length p"
    using that greedy_find_sound[of p s] by (cases "greedy_find p s") auto
  then show ?thesis using True
    by (auto simp: ConsumeAndTrimTillString_def till_string.simps[of "[]"])
next
  case False
  note till = till_string_text[OF line_text[of pre s post], of p]
  have "(line pre s post)\<lparr>lh_pos := length pre + (length s - length r)\<rparr> =
      line (pre @ take (length s - length r) s) r post" if "greedy_find p s = Some r" for r
    using greedy_find_sound[OF that] by (auto simp: line_def)
  then show ?thesis
    using False till by (auto simp: ConsumeAndTrimTillString_def split: option.splits)
qed

section \<open>Properties\<close>

lemma num_pred_eqs: "num_pred 10 = is_num" "num_pred 16 = is_alnum"
  by (simp_all add: num_pred_def)

text \<open>
  C31. The line handler refines the obvious functions on the text left in the line, whatever
  the buffer holds before and behind it: trimming drops the longest prefix of white space,
  extraction splits at the first character that fails the predicate, a string or character
  is consumed exactly when it is a prefix, and a number is read from the longest run of
  digits (base 10) or alphanumerics (base 16).
\<close>

theorem LineHandler_refines_text:
  "TrimL (line pre s post) = Inr (line (pre @ takeWhile is_space s) (dropWhile is_space s) post) \<and>
   ExtractAndSubstrUntil P (line pre s post) =
     Inr (takeWhile P s, line (pre @ takeWhile P s) (dropWhile P s) post) \<and>
   SkipTill P (line pre s post) =
     Inr (if list_ex P s
          then (True, line (pre @ takeWhile (\<lambda>c. \<not> P c) s) (dropWhile (\<lambda>c. \<not> P c) s) post)
          else (False, line pre s post)) \<and>
   ConsumeAndTrimString p (line pre s post) =
     Inr (if s \<noteq> [] \<and> prefix p s then (True, line (pre @ p) (drop (length p) s) post)
          else (False, line pre s post)) \<and>
   ParseUintTrim 16 (line pre s post) =
     Inr (let ds = takeWhile is_alnum s in
          if ds = [] \<or> strtoul 16 ds = u64_max then (None, line pre s post)
          else (Some (strtoul 16 ds), line (pre @ ds) (dropWhile is_alnum s) post)) \<and>
   ParseUintTrim 10 (line pre s post) =
     Inr (let ds = takeWhile is_num s in
          if ds = [] \<or> strtoul 10 ds = u64_max then (None, line pre s post)
          else (Some (strtoul 10 ds), line (pre @ ds) (dropWhile is_num s) post)) \<and>
   ParseInt (line pre s post) =
     Inr (let ds = takeWhile is_num s in
          if ds = [] then (None, line pre s post)
          else (Some (strtol_int ds), line (pre @ ds) (dropWhile is_num s) post))"
  using ParseUintTrim_line[of 16 pre s post, unfolded num_pred_eqs]
    ParseUintTrim_line[of 10 pre s post, unfolded num_pred_eqs]
  by (simp add: TrimL_line ExtractAndSubstrUntil_line SkipTill_line ConsumeAndTrimString_line
      ParseInt_line)

text \<open>
  C32. \<open>ConsumeAndTrimTillString\<close> is sound: when it returns true, the pattern occurs in the
  line and the cursor is right behind that occurrence. It is complete on patterns whose
  first character does not occur again in them.
\<close>

theorem ConsumeAndTrimTillString_search:
  assumes "p \<noteq> []"
  shows "\<exists>r q. ConsumeAndTrimTillString p (line pre s post) = Inr (r, line (pre @ q) (drop (length q) s) post) \<and>
           (r \<longrightarrow> (\<exists>skipped. q = skipped @ p \<and> prefix q s)) \<and> (\<not> r \<longrightarrow> q = []) \<and>
           (hd p \<notin> set (tl p) \<longrightarrow> r = sublist p s)"
proof (cases "greedy_find p s")
  case None
  then have "hd p \<notin> set (tl p) \<longrightarrow> \<not> sublist p s" using greedy_find_complete[of p s] assms by blast
  then show ?thesis using None assms
    by (intro exI[of _ False] exI[of _ "[]"]) (simp add: ConsumeAndTrimTillString_line)
next
  case (Some r)
  obtain q where q: "s = q @ p @ r" using greedy_find_sound[OF Some] by blast
  show ?thesis using Some assms q
    by (intro exI[of _ True] exI[of _ "q @ p"]) (simp add: ConsumeAndTrimTillString_line)
qed

theorem ConsumeAndTrimTillString_search_witness:
  "\<exists>r q. ConsumeAndTrimTillString ''val='' (line [] ''off=1 val=2'' []) =
           Inr (r, line ([] @ q) (drop (length q) ''off=1 val=2'') [])"
  using ConsumeAndTrimTillString_search[of "''val=''" "[]" "''off=1 val=2''" "[]"] by blast

text \<open>
  On other patterns it can miss an occurrence, because the search goes on behind a
  partial match: \<open>aab\<close> is not found in \<open>aaab\<close>.
\<close>

theorem ConsumeAndTrimTillString_misses:
  "sublist ''aab'' ''aaab'' \<and>
   ConsumeAndTrimTillString ''aab'' (line [] ''aaab'' []) = Inr (False, line [] ''aaab'' [])"
proof
  show "sublist ''aab'' ''aaab''" by (simp add: sublist_Cons_right)
  have b: "greedy_find ''aab'' ''ab'' = None" by (subst greedy_find.simps) (simp add: greedy_find.simps)
  have "greedy_find ''aab'' ''aaab'' = None" by (subst greedy_find.simps) (simp add: b)
  then show "ConsumeAndTrimTillString ''aab'' (line [] ''aaab'' []) = Inr (False, line [] ''aaab'' [])"
    by (simp add: ConsumeAndTrimTillString_line)
qed

text \<open>
  C33. Every 64-bit number printed in base 10 or 16 is parsed back to itself, whatever
  follows it in the line, except the largest one, which is rejected with the cursor left in
  place.
\<close>

theorem ParseUintTrim_roundtrip:
  assumes "base = 10 \<or> base = 16" and "s = [] \<or> \<not> num_pred base (hd s)"
  shows "ParseUintTrim base (line pre (show_base base (unat w) @ s) post) =
           Inr (if w = u64_max then (None, line pre (show_base base (unat w) @ s) post)
                else (Some w, line (pre @ show_base base (unat w)) s post))"
proof -
  have b: "2 \<le> base" "base \<le> 16" using assms(1) by auto
  have max: "unat (u64_max :: u64) = 2 ^ 64 - 1"
    by (simp add: unsigned_minus_1_eq_mask mask_eq_exp_minus_1)
  show ?thesis
  proof (cases "w = u64_max")
    case True
    have all: "\<forall>c \<in> set (show_base base (unat w)). num_pred base c"
      using show_base_alnum[OF b] assms(1) by (auto simp: num_pred_def is_num_def is_alnum_def)
    have tw: "takeWhile (num_pred base) (show_base base (unat w) @ s) = show_base base (unat w)"
      using all assms(2) by (cases s) (auto simp: takeWhile_append_stop)
    have "strtoul base (show_base base (unat w)) = of_nat (unat w)"
      using strto_parts_show[OF b, of "[]" "unat w"] True max by (simp add: strtoul_def)
    then show ?thesis
      using ParseUintTrim_line[OF assms(1), of pre "show_base base (unat w) @ s" post] True tw
      by (simp add: Let_def)
  next
    case False
    have "unat w < 2 ^ 64 - 1"
    proof (rule ccontr)
      assume "\<not> unat w < 2 ^ 64 - 1"
      moreover have "unat w < 2 ^ LENGTH(64)" by (rule unsigned_less)
      ultimately have "unat w = 2 ^ 64 - 1" by simp
      then have "unat w = unat (u64_max :: u64)" using max by simp
      then show False using False by (simp add: word_unat_eq_iff)
    qed
    then show ?thesis using ParseUintTrim_show[OF assms, of "unat w" pre post] False by simp
  qed
qed

theorem ParseUintTrim_roundtrip_witness:
  "ParseUintTrim 16 (line [] (show_base 16 (unat (255 :: u64)) @ '', x'') []) =
     Inr (if (255 :: u64) = u64_max then (None, line [] (show_base 16 (unat (255 :: u64)) @ '', x'') [])
          else (Some 255, line ([] @ show_base 16 (unat (255 :: u64))) '', x'' []))"
  by (rule ParseUintTrim_roundtrip)
     (simp_all add: num_pred_def is_alnum_def isalnum_def isalpha_def isdigit_def code_def)

text \<open>
  In base 16 any run of letters and digits is accepted: text without a single
  hexadecimal digit parses as 0, and a number stops counting at the first other letter.
\<close>

theorem ParseUintTrim_accepts_letters:
  "ParseUintTrim 16 (line [] ''zz'' []) = Inr (Some 0, line ''zz'' [] []) \<and>
   ParseUintTrim 16 (line [] ''1g2'' []) = Inr (Some 1, line ''1g2'' [] [])"
  by (simp add: ParseUintTrim_line num_pred_def is_alnum_def isalnum_def isalpha_def isdigit_def
      code_def strtoul_def strto_parts_def isspace_def is_digit_of_def digit_val_def value_of_def Let_def)

end
