(* ===== verification/StreamRoundtrip.thy ===== *)
theory StreamRoundtrip
  imports EventStream LineProps
begin

text \<open>
  Printing an event and parsing the printed line: what the stream parser of \<open>EventStream\<close>
  makes of the text that a \<open>Display\<close> method of \<open>EventText\<close> wrote. Most members come back as
  they were; some are printed in one base and read in the other, and \<open>read_back\<close> says what
  becomes of them.
\<close>

section \<open>Characters and numbers\<close>

lemma char_class [simp]:
  "\<not> isdigit CHR '',''" "\<not> isalnum CHR '',''" "\<not> is_alnum_dot_bar CHR '',''"
  "\<not> kSourceNamePred CHR '',''" "\<not> device_name_pre CHR '',''" "\<not> isdigit CHR '':''" "\<not> isalnum CHR '':''"
  "\<not> isalnum CHR '')''" "\<not> isdigit CHR '')''" "\<not> isdigit CHR '' ''" "\<not> isdigit CHR ''.''"
  "\<not> isdigit CHR ''>''" "\<not> isspace CHR '',''"
  by (simp_all add: isdigit_def isalnum_def isalpha_def is_alnum_dot_bar_def kSourceNamePred_def
      device_name_pre_def is_alnum_def isspace_def code_def)

lemma unat_less_max:
  assumes "w \<noteq> (u64_max :: u64)"
  shows "unat w < 2 ^ 64 - 1"
proof -
  have "unat w \<noteq> unat (u64_max :: u64)" using assms by (simp add: word_unat_eq_iff)
  moreover have "unat w < 2 ^ 64" using unsigned_less[of w] by simp
  ultimately show ?thesis by (simp add: unsigned_minus_1_eq_mask mask_eq_exp_minus_1)
qed

lemma show_dec_step:
  assumes "w \<noteq> u64_max" and "s = [] \<or> \<not> isdigit (hd s)"
  shows "ParseUintTrim 10 (line pre (show_dec (unat w) @ s) post) =
           Inr (Some w, line (pre @ show_dec (unat w)) s post)"
  using ParseUintTrim_show[of 10 s "unat w" pre post] assms unat_less_max[OF assms(1)]
  by (simp add: show_dec_def num_pred_def is_num_def)

lemma show_hex_step:
  assumes "w \<noteq> u64_max" and "s = [] \<or> \<not> isalnum (hd s)"
  shows "ParseUintTrim 16 (line pre (show_hex (unat w) @ s) post) =
           Inr (Some w, line (pre @ show_hex (unat w)) s post)"
  using ParseUintTrim_show[of 16 s "unat w" pre post] assms unat_less_max[OF assms(1)]
  by (simp add: show_hex_def num_pred_def is_alnum_def)

lemmas show_steps = show_dec_step show_hex_step
  show_dec_step[of _ "[]", simplified] show_hex_step[of _ "[]", simplified]

text \<open>One digit is the same in both bases.\<close>

lemma show_hex_small: "n < 10 \<Longrightarrow> show_hex n = show_dec n"
  by (simp add: show_hex_def show_dec_def show_base.simps)

lemma ParseInt_step:
  assumes "0 \<le> sint (i :: i32)" and "s = [] \<or> \<not> isdigit (hd s)"
  shows "ParseInt (line pre (show_int (sint i) @ s) post) =
           Inr (Some i, line (pre @ show_int (sint i)) s post)"
proof -
  have "sint i < 2 ^ 31" using sint_lt[of i] by simp
  then have lt: "nat (sint i) < 2 ^ 31" by (simp add: nat_less_iff[OF assms(1)])
  have "of_nat (nat (sint i)) = i" using assms(1) by (simp add: of_nat_nat)
  then show ?thesis using ParseInt_show[OF assms(2) lt, of pre post] assms(1) by (simp add: show_int_def)
qed

lemma bool_step:
  "ParseBoolFromStringRepr (line pre (BoolToString b @ s) post) =
     Inr (Some b, line (pre @ BoolToString b) s post)"
  by (cases b) (simp_all add: ParseBoolFromStringRepr_def BoolToString_def ConsumeAndTrimString_line)

lemma word_step:
  assumes "\<forall>c \<in> set t. P c" and "t \<noteq> []" and "s = [] \<or> \<not> P (hd s)"
  shows "ExtractAndSubstrUntilInto P (line pre (t @ s) post) = Inr (Some t, line (pre @ t) s post)"
proof -
  have "takeWhile P (t @ s) = t" "dropWhile P (t @ s) = s"
    using assms by (cases s; auto simp: takeWhile_append_stop)+
  then show ?thesis using assms(2) by (simp add: ExtractAndSubstrUntilInto_line)
qed

lemma field_hit:
  assumes "p \<noteq> []"
  shows "field p q f (line pre (p @ s) post) = lh_bind q f (line (pre @ p) s post)"
  using assms by (simp add: lh_defs ConsumeAndTrimString_hit)

section \<open>Numbers printed in one base and read in the other\<close>

text \<open>The number whose hexadecimal digits are the decimal digits of \<open>n\<close>.\<close>

fun as_hex :: "nat \<Rightarrow> nat" where
  "as_hex n = (if n < 10 then n else 16 * as_hex (n div 10) + n mod 10)"

text \<open>
  The number whose decimal digits are the hexadecimal digits of \<open>n\<close>, if they are decimal, and
  the number a decimal scan takes of them: that of the longest decimal prefix.
\<close>

fun hex_as_dec :: "nat \<Rightarrow> nat option" where
  "hex_as_dec n =
     (if n < 16 then if n < 10 then Some n else None
      else
        case hex_as_dec (n div 16) of
          None \<Rightarrow> None
        | Some m \<Rightarrow> if n mod 16 < 10 then Some (10 * m + n mod 16) else None)"

fun leading_dec :: "nat \<Rightarrow> nat option" where
  "leading_dec n =
     (case hex_as_dec n of
        Some m \<Rightarrow> Some m
      | None \<Rightarrow> if n < 16 then None else leading_dec (n div 16))"

declare as_hex.simps [simp del] hex_as_dec.simps [simp del] leading_dec.simps [simp del]

lemma show_dec_snoc: "n \<ge> 10 \<Longrightarrow> show_dec n = show_dec (n div 10) @ [digit_char (n mod 10)]"
  unfolding show_dec_def by (subst show_base.simps) simp

lemma show_hex_snoc: "n \<ge> 16 \<Longrightarrow> show_hex n = show_hex (n div 16) @ [digit_char (n mod 16)]"
  unfolding show_hex_def by (subst show_base.simps) simp

lemma as_hex_facts:
  shows "n \<le> as_hex n" and "show_dec n = show_hex (as_hex n)" and "as_hex n mod 16 < 10"
    and "as_hex n = n \<longleftrightarrow> n < 10"
proof (induction n rule: as_hex.induct)
  case (1 n)
  have split: "n = 10 * (n div 10) + n mod 10" by simp
  have step: "n div 10 \<le> as_hex (n div 10)" "as_hex n = 16 * as_hex (n div 10) + n mod 10" if "\<not> n < 10"
    using 1(1)[OF that] that by (simp_all add: as_hex.simps[of n])
  have ge: "n \<le> as_hex n \<and> (\<not> n < 10 \<longrightarrow> n < as_hex n)"
  proof (cases "n < 10")
    case True
    then show ?thesis by (simp add: as_hex.simps[of n])
  next
    case False
    then have "n div 10 \<ge> 1" by simp
    then show ?thesis using step[OF False] split by linarith
  qed
  then show "n \<le> as_hex n" by simp
  show "as_hex n mod 16 < 10" by (subst as_hex.simps) auto
  show "show_dec n = show_hex (as_hex n)"
  proof (cases "n < 10")
    case True
    then show ?thesis by (subst as_hex.simps) (simp add: show_hex_small)
  next
    case False
    let ?m = "as_hex (n div 10)"
    have eq: "as_hex n = 16 * ?m + n mod 10" using False by (subst as_hex.simps) simp
    have "n div 10 \<ge> 1" using False by simp
    then have "as_hex n \<ge> 16" using 1(1)[OF False] eq by linarith
    then have "show_hex (as_hex n) = show_hex ?m @ [digit_char (n mod 10)]"
      using show_hex_snoc[of "as_hex n"] by (simp add: eq)
    then show ?thesis using 1(2)[OF False] show_dec_snoc[of n] False by simp
  qed
  show "as_hex n = n \<longleftrightarrow> n < 10" using ge by (cases "n < 10") (simp_all add: as_hex.simps[of n])
qed

lemma hex_as_dec_facts:
  assumes "hex_as_dec n = Some m"
  shows "show_hex n = show_dec m" and "m \<le> n" and "0 < n \<Longrightarrow> 0 < m" and "n < 16 ^ k \<Longrightarrow> m < 10 ^ k"
    and "m = n \<longleftrightarrow> n < 10"
  using assms
proof (induction n arbitrary: m k rule: hex_as_dec.induct)
  case (1 n)
  have small: "m = n \<and> n < 10" if "hex_as_dec n = Some m" "n < 16" for m
    using that by (subst (asm) hex_as_dec.simps) (simp split: if_splits)
  have big: "\<exists>q. hex_as_dec (n div 16) = Some q \<and> n mod 16 < 10 \<and> m = 10 * q + n mod 16"
    if "hex_as_dec n = Some m" "\<not> n < 16" for m
    using that by (subst (asm) hex_as_dec.simps) (simp split: if_splits option.splits)
  have less: "m < n" if h: "hex_as_dec n = Some m" "\<not> n < 16" for m
  proof -
    obtain q where q: "hex_as_dec (n div 16) = Some q" "m = 10 * q + n mod 16"
      using big[OF h] by blast
    have "q \<le> n div 16" by (rule "1.IH"(2)[OF h(2) q(1)])
    moreover have "n div 16 \<ge> 1" using h(2) by simp
    moreover have "n = 16 * (n div 16) + n mod 16" by simp
    ultimately show ?thesis using q(2) by linarith
  qed
  {
    case 1
    show ?case
    proof (cases "n < 16")
      case True
      then show ?thesis using small[OF 1] by (simp add: show_hex_small)
    next
      case False
      obtain q where q: "hex_as_dec (n div 16) = Some q" "n mod 16 < 10" "m = 10 * q + n mod 16"
        using big[OF 1 False] by blast
      have "0 < q" by (rule "1.IH"(3)[OF False _ q(1)]) (use False in simp)
      then have "m \<ge> 10" using q(3) by simp
      then show ?thesis
        using "1.IH"(1)[OF False q(1)] show_dec_snoc[of m] show_hex_snoc[of n] False q(2,3) by simp
    qed
  next
    case 2
    then show ?case using less by (cases "n < 16") (use small[OF 2] in auto)
  next
    case 3
    show ?case
    proof (cases "n < 16")
      case True
      then show ?thesis using small[OF 3(2)] 3(1) by simp
    next
      case False
      obtain q where q: "hex_as_dec (n div 16) = Some q" "m = 10 * q + n mod 16"
        using big[OF 3(2) False] by blast
      have "0 < q" by (rule "1.IH"(3)[OF False _ q(1)]) (use False in simp)
      then show ?thesis using q(2) by simp
    qed
  next
    case 4
    show ?case
    proof (cases "n < 16")
      case True
      then have m: "m = n" "n < 10" using small[OF 4(2)] by auto
      show ?thesis
      proof (cases k)
        case 0
        then show ?thesis using 4(1) m by simp
      next
        case (Suc j)
        have "(1 :: nat) \<le> 10 ^ j" by simp
        then have "n < 10 * 10 ^ j" using m(2) by linarith
        then show ?thesis using m(1) Suc by simp
      qed
    next
      case False
      obtain q where q: "hex_as_dec (n div 16) = Some q" "n mod 16 < 10" "m = 10 * q + n mod 16"
        using big[OF 4(2) False] by blast
      obtain j where k: "k = Suc j" using 4(1) False by (cases k) auto
      have "n div 16 < 16 ^ j" using 4(1) k by (simp add: less_mult_imp_div_less mult.commute)
      then have "q < 10 ^ j" by (rule "1.IH"(4)[OF False _ q(1)])
      then show ?thesis using q(2,3) k by simp
    qed
  next
    case 5
    then show ?case using less small[OF 5] by (cases "n < 16") auto
  }
qed

lemma digit_decimal: "d < 16 \<Longrightarrow> isdigit (digit_char d) \<longleftrightarrow> d < 10"
  using digit_char_facts(1)[of d] by (auto simp: digit_char_def isdigit_def code_def)

text \<open>A decimal scan of hexadecimal digits: the prefix it takes and what it leaves.\<close>

lemma hex_digits_split:
  "\<exists>rest. show_hex n = (case leading_dec n of None \<Rightarrow> [] | Some m \<Rightarrow> show_dec m) @ rest \<and>
     (if hex_as_dec n = None then rest \<noteq> [] \<and> \<not> isdigit (hd rest) \<and> isalnum (hd rest) else rest = [])"
proof (induction n rule: leading_dec.induct)
  case (1 n)
  show ?case
  proof (cases "hex_as_dec n")
    case (Some m)
    then show ?thesis using hex_as_dec_facts(1)[OF Some] by (subst leading_dec.simps) simp
  next
    case None
    show ?thesis
    proof (cases "n < 16")
      case True
      then have "n \<ge> 10" using None by (subst (asm) hex_as_dec.simps) (simp split: if_splits)
      then show ?thesis
        using None True digit_decimal[OF True] digit_char_facts(2)[OF True]
        by (subst leading_dec.simps) (simp add: show_hex_def show_base.simps)
    next
      case False
      let ?c = "digit_char (n mod 16)"
      have lead: "leading_dec n = leading_dec (n div 16)"
        using None False by (subst leading_dec.simps) simp
      obtain rest where r: "show_hex (n div 16) =
            (case leading_dec (n div 16) of None \<Rightarrow> [] | Some m \<Rightarrow> show_dec m) @ rest"
          "if hex_as_dec (n div 16) = None then rest \<noteq> [] \<and> \<not> isdigit (hd rest) \<and> isalnum (hd rest)
           else rest = []"
        using 1[OF None False] by blast
      have "\<not> n mod 16 < 10" if "hex_as_dec (n div 16) \<noteq> None"
        using None False that by (subst (asm) hex_as_dec.simps) (auto split: if_splits)
      then have "rest @ [?c] \<noteq> [] \<and> \<not> isdigit (hd (rest @ [?c])) \<and> isalnum (hd (rest @ [?c]))"
        using r(2) digit_decimal[of "n mod 16"] digit_char_facts(2)[of "n mod 16"]
        by (cases rest) (auto split: if_splits)
      then show ?thesis using show_hex_snoc[of n] False r(1) lead None by (intro exI[of _ "rest @ [?c]"]) simp
    qed
  qed
qed

lemma leading_dec_le:
  assumes "leading_dec n = Some m"
  shows "m \<le> n" and "m = n \<longleftrightarrow> n < 10" and "n < 16 ^ k \<Longrightarrow> m < 10 ^ k"
proof -
  have "m \<le> n \<and> (m = n \<longleftrightarrow> n < 10) \<and> (n < 16 ^ k \<longrightarrow> m < 10 ^ k)"
    using assms
  proof (induction n rule: leading_dec.induct)
    case (1 n)
    show ?case
    proof (cases "hex_as_dec n")
      case None
      then have n: "\<not> n < 16" "leading_dec (n div 16) = Some m"
        using "1.prems" by (subst (asm) leading_dec.simps, simp split: if_splits)+
      then have m: "m \<le> n div 16" "n div 16 < 16 ^ k \<longrightarrow> m < 10 ^ k" using "1.IH"[OF None] by simp_all
      moreover have "n div 16 < n" using n(1) by simp
      ultimately show ?thesis using n(1) by linarith
    next
      case (Some j)
      then have "j = m" using "1.prems" by (subst (asm) leading_dec.simps) simp
      then show ?thesis using hex_as_dec_facts(2,4,5)[OF Some] by simp
    qed
  qed
  then show "m \<le> n" "m = n \<longleftrightarrow> n < 10" "n < 16 ^ k \<Longrightarrow> m < 10 ^ k" by simp_all
qed

lemma hex_as_dec_leading: "hex_as_dec n = Some m \<Longrightarrow> leading_dec n = Some m"
  by (subst leading_dec.simps) simp

text \<open>What both number scans of the line handler do with hexadecimal digits.\<close>

lemma decimal_scan:
  assumes "s = [] \<or> \<not> isalnum (hd s)"
    and hit: "\<And>m t pre. leading_dec n = Some m \<Longrightarrow> t = [] \<or> \<not> isdigit (hd t) \<Longrightarrow>
      P (line pre (show_dec m @ t) post) = Inr (Some (conv m), line (pre @ show_dec m) t post)"
    and miss: "\<And>t pre. t \<noteq> [] \<Longrightarrow> \<not> isdigit (hd t) \<Longrightarrow> P (line pre t post) = Inr (None, line pre t post)"
  shows "hex_as_dec n = Some m \<Longrightarrow>
      P (line pre (show_hex n @ s) post) = Inr (Some (conv m), line (pre @ show_hex n) s post)"
    and "hex_as_dec n = None \<Longrightarrow> \<exists>pre' t. t \<noteq> [] \<and> isalnum (hd t) \<and>
      P (line pre (show_hex n @ s) post) = Inr (map_option conv (leading_dec n), line pre' t post)"
proof -
  have s: "s = [] \<or> \<not> isdigit (hd s)" using assms(1) by (auto simp: isalnum_def)
  show "P (line pre (show_hex n @ s) post) = Inr (Some (conv m), line (pre @ show_hex n) s post)"
    if "hex_as_dec n = Some m"
    using hit[OF hex_as_dec_leading[OF that] s] hex_as_dec_facts(1)[OF that] by simp
  show "\<exists>pre' t. t \<noteq> [] \<and> isalnum (hd t) \<and>
      P (line pre (show_hex n @ s) post) = Inr (map_option conv (leading_dec n), line pre' t post)"
    if none: "hex_as_dec n = None"
  proof -
    obtain rest where r: "show_hex n = (case leading_dec n of None \<Rightarrow> [] | Some m \<Rightarrow> show_dec m) @ rest"
        "rest \<noteq> []" "\<not> isdigit (hd rest)" "isalnum (hd rest)"
      using hex_digits_split[of n] none by auto
    show ?thesis
    proof (cases "leading_dec n")
      case None
      then show ?thesis using miss[of "rest @ s" pre] r by (intro exI[of _ pre] exI[of _ "rest @ s"]) simp
    next
      case (Some k)
      then show ?thesis using hit[OF Some, of "rest @ s" pre] r
        by (intro exI[of _ "pre @ show_dec k"] exI[of _ "rest @ s"]) simp
    qed
  qed
qed

lemma no_number:
  assumes "t \<noteq> []" and "\<not> isdigit (hd t)"
  shows "ParseUintTrim 10 (line pre t post) = Inr (None, line pre t post)"
    and "ParseInt (line pre t post) = Inr (None, line pre t post)"
  using assms by (cases t; simp add: ParseUintTrim_line ParseInt_line num_pred_def is_num_def)+

lemma scan_hex_u64:
  assumes "(w :: u64) \<noteq> u64_max" and "s = [] \<or> \<not> isalnum (hd s)"
  shows "hex_as_dec (unat w) = Some m \<Longrightarrow> ParseUintTrim 10 (line pre (show_hex (unat w) @ s) post) =
      Inr (Some (of_nat m), line (pre @ show_hex (unat w)) s post)"
    and "hex_as_dec (unat w) = None \<Longrightarrow> \<exists>pre' t. t \<noteq> [] \<and> isalnum (hd t) \<and>
      ParseUintTrim 10 (line pre (show_hex (unat w) @ s) post) =
      Inr (map_option of_nat (leading_dec (unat w)), line pre' t post)"
proof -
  have hit: "ParseUintTrim 10 (line p (show_dec k @ t) post) = Inr (Some (of_nat k), line (p @ show_dec k) t post)"
    if "leading_dec (unat w) = Some k" "t = [] \<or> \<not> isdigit (hd t)" for k t p
    using ParseUintTrim_show[of 10 t k p post] leading_dec_le(1)[OF that(1)] unat_less_max[OF assms(1)] that(2)
    by (simp add: show_dec_def num_pred_def is_num_def)
  note scan = decimal_scan[OF assms(2) hit no_number(1)]
  show "hex_as_dec (unat w) = Some m \<Longrightarrow> ParseUintTrim 10 (line pre (show_hex (unat w) @ s) post) =
      Inr (Some (of_nat m), line (pre @ show_hex (unat w)) s post)"
    by (rule scan(1))
  show "hex_as_dec (unat w) = None \<Longrightarrow> \<exists>pre' t. t \<noteq> [] \<and> isalnum (hd t) \<and>
      ParseUintTrim 10 (line pre (show_hex (unat w) @ s) post) =
      Inr (map_option of_nat (leading_dec (unat w)), line pre' t post)"
    by (rule scan(2))
qed

lemma scan_hex_int:
  assumes "s = [] \<or> \<not> isalnum (hd s)"
  shows "hex_as_dec (unat (i :: i32)) = Some m \<Longrightarrow> ParseInt (line pre (show_hex (unat i) @ s) post) =
      Inr (Some (of_nat m), line (pre @ show_hex (unat i)) s post)"
    and "hex_as_dec (unat i) = None \<Longrightarrow> \<exists>pre' t. t \<noteq> [] \<and> isalnum (hd t) \<and>
      ParseInt (line pre (show_hex (unat i) @ s) post) =
      Inr (map_option of_nat (leading_dec (unat i)), line pre' t post)"
proof -
  have hit: "ParseInt (line p (show_dec k @ t) post) = Inr (Some (of_nat k), line (p @ show_dec k) t post)"
    if "leading_dec (unat i) = Some k" "t = [] \<or> \<not> isdigit (hd t)" for k t p
  proof -
    have "unat i < 16 ^ 8" using unsigned_less[of i] by simp
    then have "k < 2 ^ 31" using leading_dec_le(3)[OF that(1), of 8] by simp
    then show ?thesis by (rule ParseInt_show[OF that(2)])
  qed
  note scan = decimal_scan[OF assms hit no_number(2)]
  show "hex_as_dec (unat i) = Some m \<Longrightarrow> ParseInt (line pre (show_hex (unat i) @ s) post) =
      Inr (Some (of_nat m), line (pre @ show_hex (unat i)) s post)"
    by (rule scan(1))
  show "hex_as_dec (unat i) = None \<Longrightarrow> \<exists>pre' t. t \<noteq> [] \<and> isalnum (hd t) \<and>
      ParseInt (line pre (show_hex (unat i) @ s) post) =
      Inr (map_option of_nat (leading_dec (unat i)), line pre' t post)"
    by (rule scan(2))
qed

text \<open>Decimal digits in a hexadecimal scan, which saturates.\<close>

lemma scan_dec_hex:
  assumes "s = [] \<or> \<not> isalnum (hd s)"
  shows "ParseUintTrim 16 (line pre (show_dec n @ s) post) =
    (if as_hex n < 2 ^ 64 then Inr (Some (of_nat (as_hex n)), line (pre @ show_dec n) s post)
     else Inr (None, line pre (show_dec n @ s) post))"
proof (cases "as_hex n < 2 ^ 64")
  case True
  have "as_hex n \<noteq> 2 ^ 64 - 1"
  proof
    assume "as_hex n = 2 ^ 64 - 1"
    then have "as_hex n mod 16 = 15" by simp
    then show False using as_hex_facts(3)[of n] by simp
  qed
  then have "as_hex n < 2 ^ 64 - 1" using True by simp
  then show ?thesis
    using ParseUintTrim_show[of 16 s "as_hex n" pre post] assms True as_hex_facts(2)[of n]
    by (simp add: show_hex_def num_pred_def is_alnum_def)
next
  case False
  let ?t = "show_base 16 (as_hex n)"
  have t: "show_dec n = ?t" using as_hex_facts(2)[of n] by (simp add: show_hex_def)
  have all: "\<forall>c \<in> set ?t. num_pred 16 c"
    using show_base_alnum(1)[of 16] by (auto simp: num_pred_def is_alnum_def)
  have "takeWhile (num_pred 16) (?t @ s) = ?t"
    using all assms by (cases s) (auto simp: takeWhile_append_stop num_pred_def is_alnum_def)
  moreover have "strtoul 16 ?t = u64_max"
    using strto_parts_show[of 16 "[]" "as_hex n"] False by (simp add: strtoul_def)
  ultimately show ?thesis using False by (simp add: ParseUintTrim_line t)
qed

section \<open>The prefix of a printed event\<close>

definition printable_base :: "ev_base \<Rightarrow> bool" where
  "printable_base b =
     (ev_timestamp b \<noteq> u64_max \<and> ev_parser_identifier b \<noteq> u64_max \<and> ev_parser_name b \<noteq> [] \<and>
      list_all kSourceNamePred (ev_parser_name b))"

text \<open>What a \<open>Display\<close> method prints behind the part that every event has.\<close>

definition members :: "event \<Rightarrow> insertion list" where
  "members e = drop (length (Event_Display e)) (Display e)"

lemma Display_split: "Display e = Event_Display e @ members e"
  by (cases e) (simp_all add: members_def HostInstr_Display_def HostIdOp_Display_def
      HostAddrSizeOp_Display_def HostMmioOp_Display_def NicDma_Display_def NicMmio_Display_def
      NicTrx_Display_def NetworkEvent_Display_def)

lemma Event_Display_text:
  "text_of False (Event_Display e) =
     GetName e @ '': source_id='' @ show_dec (unat (GetParserIdent e)) @
     '', source_name='' @ GetParserName e @ '', timestamp='' @ show_dec (unat (GetTs e))"
  "hex_after False (Event_Display e) = False"
  by (simp_all add: Event_Display_def to_string_def show_num_def)

lemma GetName_chars:
  "takeWhile is_space (GetName e @ s) = [] \<and> dropWhile is_space (GetName e @ s) = GetName e @ s \<and>
   (\<forall>c \<in> set (GetName e). c \<noteq> CHR '':'') \<and> GetName e \<noteq> []"
  by (cases e) (simp_all add: is_space_def isspace_def code_def)

lemma ParseIdentNameTs_hit:
  assumes "printable_base b" and "rest = [] \<or> \<not> isdigit (hd rest)"
  shows "ParseIdentNameTs (line pre ('': source_id='' @ show_dec (unat (ev_parser_identifier b)) @
            '', source_name='' @ ev_parser_name b @ '', timestamp='' @
            show_dec (unat (ev_timestamp b)) @ rest) post) =
         Inr (Some (ev_parser_identifier b, ev_parser_name b, ev_timestamp b),
              line (pre @ '': source_id='' @ show_dec (unat (ev_parser_identifier b)) @
            '', source_name='' @ ev_parser_name b @ '', timestamp='' @
            show_dec (unat (ev_timestamp b))) rest post)"
proof -
  have b: "ev_timestamp b \<noteq> u64_max" "ev_parser_identifier b \<noteq> u64_max" "ev_parser_name b \<noteq> []"
    "\<forall>c \<in> set (ev_parser_name b). kSourceNamePred c"
    using assms(1) by (simp_all add: printable_base_def list_all_iff)
  have id: "ParseUintTrim 10 (line p (show_dec (unat (ev_parser_identifier b)) @
      '', source_name='' @ t) post) =
      Inr (Some (ev_parser_identifier b), line (p @ show_dec (unat (ev_parser_identifier b))) ('', source_name='' @ t) post)"
    for p t by (rule show_dec_step[OF b(2)]) simp
  have nm: "ExtractAndSubstrUntilInto kSourceNamePred (line p (ev_parser_name b @ '', timestamp='' @ t) post) =
      Inr (Some (ev_parser_name b), line (p @ ev_parser_name b) ('', timestamp='' @ t) post)" for p t
    by (rule word_step[OF b(4,3)]) simp
  show ?thesis
    unfolding ParseIdentNameTs_def
    by (simp only: field_hit lh_bind_def id nm show_dec_step[OF b(1) assms(2)] list.distinct
        not_False_eq_True rbind_Inr prod.case option.case lh_return_def append_assoc simp_thms)
qed

section \<open>The members of the events\<close>

definition sep :: "string \<Rightarrow> bool" where
  "sep s = (s = [] \<or> \<not> isalnum (hd s))"

lemma sep_simps:
  "sep [] = True" "sep ((CHR '','' # x) @ t) = True"
  by (simp_all add: sep_def)

lemma sep_word: "sep s \<Longrightarrow> s = [] \<or> \<not> isdigit (hd s)"
  by (auto simp: sep_def isalnum_def)

lemma field_steps:
  assumes "p \<noteq> []" and "sep s"
  shows "w \<noteq> u64_max \<Longrightarrow>
      field p (ParseUintTrim 10) f (line pre (p @ show_dec (unat w) @ s) post) =
      f w (line (pre @ p @ show_dec (unat w)) s post)"
    and "w \<noteq> u64_max \<Longrightarrow>
      field p (ParseUintTrim 16) f (line pre (p @ show_hex (unat w) @ s) post) =
      f w (line (pre @ p @ show_hex (unat w)) s post)"
    and "0 \<le> sint i \<Longrightarrow> field p ParseInt g (line pre (p @ show_int (sint i) @ s) post) =
      g i (line (pre @ p @ show_int (sint i)) s post)"
    and "field p ParseBoolFromStringRepr h (line pre (p @ BoolToString b @ s) post) =
      h b (line (pre @ p @ BoolToString b) s post)"
proof -
  have sp: "s = [] \<or> \<not> isdigit (hd s)" "s = [] \<or> \<not> isalnum (hd s)"
    using assms(2) sep_word by (auto simp: sep_def)
  show "w \<noteq> u64_max \<Longrightarrow>
      field p (ParseUintTrim 10) f (line pre (p @ show_dec (unat w) @ s) post) =
      f w (line (pre @ p @ show_dec (unat w)) s post)"
    using show_dec_step[of w s] sp by (simp add: field_hit[OF assms(1)] lh_bind_def)
  show "w \<noteq> u64_max \<Longrightarrow>
      field p (ParseUintTrim 16) f (line pre (p @ show_hex (unat w) @ s) post) =
      f w (line (pre @ p @ show_hex (unat w)) s post)"
    using show_hex_step[of w s] sp by (simp add: field_hit[OF assms(1)] lh_bind_def)
  show "0 \<le> sint i \<Longrightarrow> field p ParseInt g (line pre (p @ show_int (sint i) @ s) post) =
      g i (line (pre @ p @ show_int (sint i)) s post)"
    using ParseInt_step[of i s] sp by (simp add: field_hit[OF assms(1)] lh_bind_def)
  show "field p ParseBoolFromStringRepr h (line pre (p @ BoolToString b @ s) post) =
      h b (line (pre @ p @ BoolToString b) s post)"
    by (simp add: field_hit[OF assms(1)] lh_bind_def bool_step)
qed

lemma field_word:
  assumes "p \<noteq> []" and "\<forall>c \<in> set t. P c" and "t \<noteq> []" and "s = [] \<or> \<not> P (hd s)"
  shows "field p (ExtractAndSubstrUntilInto P) f (line pre (p @ t @ s) post) =
           f t (line (pre @ p @ t) s post)"
  using word_step[OF assms(2-4)] by (simp add: field_hit[OF assms(1)] lh_bind_def)

text \<open>The members printed in one base and read in the other.\<close>

lemma field_dec_hex:
  assumes "p \<noteq> []" and "sep s"
  shows "as_hex (unat (w :: u64)) < 2 ^ 64 \<Longrightarrow>
      field p (ParseUintTrim 16) f (line pre (p @ show_dec (unat w) @ s) post) =
      f (of_nat (as_hex (unat w))) (line (pre @ p @ show_dec (unat w)) s post)"
    and "\<not> as_hex (unat w) < 2 ^ 64 \<Longrightarrow>
      field p (ParseUintTrim 16) f (line pre (p @ show_dec (unat w) @ s) post) =
      Inr (None, line (pre @ p) (show_dec (unat w) @ s) post)"
  using assms(2) by (simp_all add: field_hit[OF assms(1)] lh_bind_def scan_dec_hex sep_def)

lemma field_hex_dec:
  assumes "p \<noteq> []" and "sep s"
  shows "(w :: u64) \<noteq> u64_max \<Longrightarrow> hex_as_dec (unat w) = Some m \<Longrightarrow>
      field p (ParseUintTrim 10) f (line pre (p @ show_hex (unat w) @ s) post) =
      f (of_nat m) (line (pre @ p @ show_hex (unat w)) s post)"
    and "hex_as_dec (unat (i :: i32)) = Some m \<Longrightarrow>
      field p ParseInt g (line pre (p @ show_hex (unat i) @ s) post) =
      g (of_nat m) (line (pre @ p @ show_hex (unat i)) s post)"
  using assms(2) by (simp_all add: field_hit[OF assms(1)] lh_bind_def scan_hex_u64(1) scan_hex_int(1) sep_def)

text \<open>A scan that stops at a letter leaves it to the next field, which then does not match.\<close>

lemma field_stuck:
  assumes "t \<noteq> []" and "isalnum (hd t)" and "q \<noteq> []" and "\<not> isalnum (hd q)"
  shows "\<exists>h'. field q r f (line pre t post) = Inr (None, h')"
proof -
  have "\<not> prefix q t" using assms by (cases q; cases t) auto
  then show ?thesis by (simp add: lh_defs ConsumeAndTrimString_line)
qed

lemma field_hex_stuck:
  assumes "p \<noteq> []" and "sep s" and "q \<noteq> []" and "\<not> isalnum (hd q)"
  shows "(w :: u64) \<noteq> u64_max \<Longrightarrow> hex_as_dec (unat w) = None \<Longrightarrow>
      \<exists>h'. field p (ParseUintTrim 10) (\<lambda>v. field q (r v) (f v)) (line pre (p @ show_hex (unat w) @ s) post) = Inr (None, h')"
    and "hex_as_dec (unat (i :: i32)) = None \<Longrightarrow>
      \<exists>h'. field p ParseInt (\<lambda>v. field q (r' v) (f' v)) (line pre (p @ show_hex (unat i) @ s) post) = Inr (None, h')"
proof -
  have s: "s = [] \<or> \<not> isalnum (hd s)" using assms(2) by (simp add: sep_def)
  show "\<exists>h'. field p (ParseUintTrim 10) (\<lambda>v. field q (r v) (f v)) (line pre (p @ show_hex (unat w) @ s) post) = Inr (None, h')"
    if "w \<noteq> u64_max" "hex_as_dec (unat w) = None"
    using scan_hex_u64(2)[OF that(1) s that(2), of "pre @ p" post] field_stuck[OF _ _ assms(3,4)]
    by (cases "leading_dec (unat w)") (fastforce simp: field_hit[OF assms(1)] lh_bind_def)+
  show "\<exists>h'. field p ParseInt (\<lambda>v. field q (r' v) (f' v)) (line pre (p @ show_hex (unat i) @ s) post) = Inr (None, h')"
    if "hex_as_dec (unat i) = None"
    using scan_hex_int(2)[OF s that, of "pre @ p" post] field_stuck[OF _ _ assms(3,4)]
    by (cases "leading_dec (unat i)") (fastforce simp: field_hit[OF assms(1)] lh_bind_def)+
qed

text \<open>At the end of the line the letters are dropped.\<close>

lemma field_hex_last:
  assumes "p \<noteq> []" and "(w :: u64) \<noteq> u64_max"
  shows "\<exists>h'. field p (ParseUintTrim 10) (\<lambda>v. lh_return (f v)) (line pre (p @ show_hex (unat w) @ []) post) =
    Inr (map_option (\<lambda>m. f (of_nat m)) (leading_dec (unat w)), h')"
proof (cases "hex_as_dec (unat w)")
  case (Some m)
  then show ?thesis
    using scan_hex_u64(1)[OF assms(2) _ Some, of "[]"] hex_as_dec_leading[OF Some]
    by (simp add: field_hit[OF assms(1)] lh_bind_def lh_return_def)
next
  case None
  then show ?thesis
    using scan_hex_u64(2)[OF assms(2) _ None, of "[]" "pre @ p" post]
    by (cases "leading_dec (unat w)") (auto simp: field_hit[OF assms(1)] lh_bind_def lh_return_def)
qed

text \<open>The branches of \<open>ParseEvent\<close>, selected by name.\<close>

lemma branches:
  "ParseEventBody (GetName e) b =
     (case e of
        SimSendSync _ \<Rightarrow> lh_return (SimSendSync b)
      | SimProcInEvent _ \<Rightarrow> lh_return (SimProcInEvent b)
      | HostInstr _ _ \<Rightarrow> field '', pc='' (ParseUintTrim 16) (\<lambda>pc. lh_return (HostInstr b pc))
      | HostCall _ _ _ _ \<Rightarrow> parse_pc_call b
      | HostMmioImRespPoW _ \<Rightarrow> lh_return (HostMmioImRespPoW b)
      | HostMmioCR _ _ \<Rightarrow> parse_id (HostMmioCR b)
      | HostMmioCW _ _ \<Rightarrow> parse_id (HostMmioCW b)
      | HostMmioR _ _ _ _ _ _ \<Rightarrow> parse_mmio False b
      | HostMmioW _ _ _ _ _ _ _ \<Rightarrow> parse_mmio True b
      | HostDmaC _ _ \<Rightarrow> parse_id (HostDmaC b)
      | HostDmaR _ _ _ _ \<Rightarrow> parse_id_addr_size (\<lambda>i addr sz. lh_return (HostDmaR b i addr sz))
      | HostDmaW _ _ _ _ \<Rightarrow> parse_id_addr_size (\<lambda>i addr sz. lh_return (HostDmaW b i addr sz))
      | HostMsiX _ _ \<Rightarrow> field '', vec='' (ParseUintTrim 10) (\<lambda>vec. lh_return (HostMsiX b vec))
      | HostConf _ _ _ _ _ _ r \<Rightarrow> parse_conf r b
      | HostClearInt _ \<Rightarrow> lh_return (HostClearInt b)
      | HostPostInt _ \<Rightarrow> lh_return (HostPostInt b)
      | HostPciRW _ _ _ r \<Rightarrow> parse_pci r b
      | NicMsix _ _ x \<Rightarrow> field '', vec='' (ParseUintTrim 10) (\<lambda>vec. lh_return (NicMsix b (ucast vec) x))
      | SetIX _ _ \<Rightarrow> field '', interrupt='' (ParseUintTrim 16) (\<lambda>intr. lh_return (SetIX b intr))
      | NicDmaI _ _ _ _ \<Rightarrow> parse_id_addr_size (\<lambda>i addr len. lh_return (NicDmaI b i addr len))
      | NicDmaEx _ _ _ _ \<Rightarrow> parse_id_addr_size (\<lambda>i addr len. lh_return (NicDmaEx b i addr len))
      | NicDmaEn _ _ _ _ \<Rightarrow> parse_id_addr_size (\<lambda>i addr len. lh_return (NicDmaEn b i addr len))
      | NicDmaCR _ _ _ _ \<Rightarrow> parse_id_addr_size (\<lambda>i addr len. lh_return (NicDmaCR b i addr len))
      | NicDmaCW _ _ _ _ \<Rightarrow> parse_id_addr_size (\<lambda>i addr len. lh_return (NicDmaCW b i addr len))
      | NicMmioR _ _ _ _ \<Rightarrow> parse_nic_mmio False b
      | NicMmioW _ _ _ _ _ \<Rightarrow> parse_nic_mmio True b
      | NicTx _ _ \<Rightarrow> field '', len='' (ParseUintTrim 16) (\<lambda>len. lh_return (NicTx b len))
      | NicRx _ _ _ \<Rightarrow> parse_nic_rx b
      | NetworkEnqueue _ _ \<Rightarrow> ParseNetworkEvent kNetworkEnqueueT b
      | NetworkDequeue _ _ \<Rightarrow> ParseNetworkEvent kNetworkDequeueT b
      | NetworkDrop _ _ \<Rightarrow> ParseNetworkEvent kNetworkDropT b)"
  by (cases e) (simp_all add: ParseEventBody_def event_branches_def)

text \<open>
  The events the printer writes in a form the parser accepts: no member is the largest 64-bit
  value, which \<open>ParseUintTrim\<close> rejects, and the texts have the characters the parser expects.
  Network events are treated separately.
\<close>

definition printable_name :: "string option \<Rightarrow> bool" where
  "printable_name p = (case p of None \<Rightarrow> False | Some s \<Rightarrow> s \<noteq> [] \<and> list_all is_alnum_dot_bar s)"

fun printable_members :: "event \<Rightarrow> bool" where
  "printable_members (HostInstr b pc) = (pc \<noteq> u64_max)"
| "printable_members (HostCall b pc f c) = (pc \<noteq> u64_max \<and> printable_name f \<and> printable_name c)"
| "printable_members (HostMmioCR b i) = (i \<noteq> u64_max)"
| "printable_members (HostMmioCW b i) = (i \<noteq> u64_max)"
| "printable_members (HostDmaC b i) = (i \<noteq> u64_max)"
| "printable_members (HostMmioR b i addr sz bar off) =
     (i \<noteq> u64_max \<and> addr \<noteq> u64_max \<and> sz \<noteq> u64_max \<and> off \<noteq> u64_max)"
| "printable_members (HostMmioW b i addr sz bar off posted) =
     (i \<noteq> u64_max \<and> addr \<noteq> u64_max \<and> sz \<noteq> u64_max \<and> off \<noteq> u64_max)"
| "printable_members (HostDmaR b i addr sz) = (i \<noteq> u64_max \<and> addr \<noteq> u64_max \<and> sz \<noteq> u64_max)"
| "printable_members (HostDmaW b i addr sz) = (i \<noteq> u64_max \<and> addr \<noteq> u64_max \<and> sz \<noteq> u64_max)"
| "printable_members (HostMsiX b vec) = (vec \<noteq> u64_max)"
| "printable_members (HostConf b dev func reg bytes dat r) =
     (dev \<noteq> u64_max \<and> func \<noteq> u64_max \<and> reg \<noteq> u64_max \<and> bytes \<noteq> u64_max \<and> dat \<noteq> u64_max)"
| "printable_members (HostPciRW b off sz r) = (off \<noteq> u64_max \<and> sz \<noteq> u64_max)"
| "printable_members (SetIX b intr) = (intr \<noteq> u64_max)"
| "printable_members (NicDmaI b i addr len) = (i \<noteq> u64_max \<and> addr \<noteq> u64_max \<and> len \<noteq> u64_max)"
| "printable_members (NicDmaEx b i addr len) = (i \<noteq> u64_max \<and> addr \<noteq> u64_max \<and> len \<noteq> u64_max)"
| "printable_members (NicDmaEn b i addr len) = (i \<noteq> u64_max \<and> addr \<noteq> u64_max \<and> len \<noteq> u64_max)"
| "printable_members (NicDmaCR b i addr len) = (i \<noteq> u64_max \<and> addr \<noteq> u64_max \<and> len \<noteq> u64_max)"
| "printable_members (NicDmaCW b i addr len) = (i \<noteq> u64_max \<and> addr \<noteq> u64_max \<and> len \<noteq> u64_max)"
| "printable_members (NicMmioR b off len val) = (off \<noteq> u64_max \<and> len \<noteq> u64_max \<and> val \<noteq> u64_max)"
| "printable_members (NicMmioW b off len val posted) =
     (off \<noteq> u64_max \<and> len \<noteq> u64_max \<and> val \<noteq> u64_max)"
| "printable_members (NetworkEnqueue b n) = False"
| "printable_members (NetworkDequeue b n) = False"
| "printable_members (NetworkDrop b n) = False"
| "printable_members _ = True"

text \<open>
  What comes back. The BAR number, and the bytes of a configuration access, are printed in
  base 16 and read in base 10: a letter among their digits makes the next field fail. The size
  of a PCI access is printed and read so too, at the end of the line, where letters are
  dropped. The length of a packet is printed in base 10 and read in base 16; for a received
  packet it becomes the port of an event of length 0, and the port that was read is dropped.
\<close>

fun read_back :: "event \<Rightarrow> event option" where
  "read_back (HostMmioR b i addr sz bar off) =
     map_option (\<lambda>m. HostMmioR b i addr sz (of_nat m) off) (hex_as_dec (unat bar))"
| "read_back (HostMmioW b i addr sz bar off posted) =
     map_option (\<lambda>m. HostMmioW b i addr sz (of_nat m) off posted) (hex_as_dec (unat bar))"
| "read_back (HostConf b dev func reg bytes dat r) =
     map_option (\<lambda>m. HostConf b dev func reg (of_nat m) dat r) (hex_as_dec (unat bytes))"
| "read_back (HostPciRW b off sz r) =
     map_option (\<lambda>m. HostPciRW b off (of_nat m) r) (leading_dec (unat sz))"
| "read_back (NicTx b len) =
     (if as_hex (unat len) < 2 ^ 64 then Some (NicTx b (of_nat (as_hex (unat len)))) else None)"
| "read_back (NicRx b port len) =
     (if as_hex (unat len) < 2 ^ 64 \<and> 0 \<le> sint port
      then Some (NicRx b (ucast (of_nat (as_hex (unat len)) :: u64)) 0) else None)"
| "read_back e = Some e"

text \<open>The events for which these members have a single digit, so that they come back as they were.\<close>

fun single_digits :: "event \<Rightarrow> bool" where
  "single_digits (HostMmioR b i addr sz bar off) = (unat bar < 10)"
| "single_digits (HostMmioW b i addr sz bar off posted) = (unat bar < 10)"
| "single_digits (HostConf b dev func reg bytes dat r) = (unat bytes < 10)"
| "single_digits (HostPciRW b off sz r) = (unat sz < 10)"
| "single_digits (NicTx b len) = (unat len < 10)"
| "single_digits (NicRx b port len) = (len = 0 \<and> port = 0)"
| "single_digits e = True"

lemma of_nat_unat_eq: "m < 2 ^ LENGTH('a) \<Longrightarrow> of_nat m = (w :: 'a::len word) \<longleftrightarrow> m = unat w"
  by (auto simp: word_unat_eq_iff unat_of_nat take_bit_nat_eq_self)

lemma hex_as_dec_same: "map_option (\<lambda>m. of_nat m) (hex_as_dec (unat w)) = Some (w :: 'a::len word) \<longleftrightarrow> unat w < 10"
proof (cases "hex_as_dec (unat w)")
  case None
  then have "\<not> unat w < 10" using hex_as_dec.simps[of "unat w"] by auto
  then show ?thesis using None by simp
next
  case (Some m)
  have "unat w < 2 ^ LENGTH('a)" by (rule unsigned_less)
  then have "m < 2 ^ LENGTH('a)" using hex_as_dec_facts(2)[OF Some] by (rule le_less_trans[rotated])
  then show ?thesis using hex_as_dec_facts(5)[OF Some] Some by (simp add: of_nat_unat_eq)
qed

lemma leading_dec_same: "map_option (\<lambda>m. of_nat m) (leading_dec (unat w)) = Some (w :: 'a::len word) \<longleftrightarrow> unat w < 10"
proof (cases "leading_dec (unat w)")
  case None
  then have "hex_as_dec (unat w) = None" by (subst (asm) leading_dec.simps) (simp split: option.splits)
  then have "\<not> unat w < 10" using hex_as_dec.simps[of "unat w"] by auto
  then show ?thesis using None by simp
next
  case (Some m)
  have "unat w < 2 ^ LENGTH('a)" by (rule unsigned_less)
  then have "m < 2 ^ LENGTH('a)" using leading_dec_le(1)[OF Some] by (rule le_less_trans[rotated])
  then show ?thesis using leading_dec_le(2)[OF Some] Some by (simp add: of_nat_unat_eq)
qed

lemma as_hex_same: "as_hex (unat w) < 2 ^ 64 \<and> of_nat (as_hex (unat w)) = (w :: u64) \<longleftrightarrow> unat w < 10"
  using as_hex_facts(1,4)[of "unat w"] unsigned_less[of w] by (auto simp: of_nat_unat_eq)

lemma map_option_inj: "(\<And>x y. f x = f y \<longleftrightarrow> x = y) \<Longrightarrow> map_option f x = Some (f v) \<longleftrightarrow> x = Some v"
  by (cases x) auto

lemma read_back_same: "read_back e = Some e \<longleftrightarrow> single_digits e"
proof (cases e)
  case (HostMmioR b i addr sz bar off)
  then show ?thesis using hex_as_dec_same[of bar] by (auto simp: option.map_comp comp_def)
next
  case (HostMmioW b i addr sz bar off posted)
  then show ?thesis using hex_as_dec_same[of bar] by (auto simp: option.map_comp comp_def)
next
  case (HostConf b dev func reg bytes dat r)
  then show ?thesis using hex_as_dec_same[of bytes] by auto
next
  case (HostPciRW b off sz r)
  then show ?thesis using leading_dec_same[of sz] by auto
next
  case (NicTx b len)
  then show ?thesis using as_hex_same[of len] by auto
next
  case (NicRx b port len)
  have "as_hex 0 = 0" by (simp add: as_hex.simps)
  then show ?thesis using NicRx by auto
qed simp_all

lemmas display_defs = members_def Event_Display_def HostInstr_Display_def HostIdOp_Display_def
  HostAddrSizeOp_Display_def HostMmioOp_Display_def NicDma_Display_def NicMmio_Display_def
  NicTrx_Display_def

lemmas text_steps = text_of.simps insertion_text.simps insertion_hex.simps show_num_def if_True
  if_False append.simps(1) to_string_def

lemma members_simps:
  "members (SimSendSync b) = []" "members (SimProcInEvent b) = []"
  "members (HostMmioImRespPoW b) = []" "members (HostClearInt b) = []" "members (HostPostInt b) = []"
  "members (HostInstr b pc) = [Str '', pc='', Hex, Num pc]"
  "members (HostCall b pc f c) =
     [Str '', pc='', Hex, Num pc, Str '', func='', Str (string_or_null f), Str '', comp='',
      Str (string_or_null c)]"
  "members (HostMmioCR b i) = [Str '', id='', Str (to_string i)]"
  "members (HostMmioCW b i) = [Str '', id='', Str (to_string i)]"
  "members (HostDmaC b i) = [Str '', id='', Str (to_string i)]"
  "members (HostMmioR b i addr sz bar off) =
     [Str '', id='', Str (to_string i), Str '', addr='', Hex, Num addr, Str '', size='', Num sz,
      Str '', bar='', Signed bar, Str '', offset='', Hex, Num off]"
  "members (HostMmioW b i addr sz bar off posted) =
     [Str '', id='', Str (to_string i), Str '', addr='', Hex, Num addr, Str '', size='', Num sz,
      Str '', bar='', Signed bar, Str '', offset='', Hex, Num off, Str '', posted='',
      Str (BoolToString posted)]"
  "members (HostMsiX b vec) = [Str '', vec='', Str (to_string vec)]"
  "members (HostConf b dev func reg bytes dat r) =
     [Str '', dev='', Hex, Num dev, Str '', func='', Hex, Num func, Str '', reg='', Hex, Num reg,
      Str '', bytes='', Num bytes, Str '', data='', Hex, Num dat]"
  "members (HostPciRW b off sz r) = [Str '', offset='', Hex, Num off, Str '', size='', Num sz]"
  "members (NicMsix b v isX) = [Str '', vec='', Str (to_string v)]"
  "members (SetIX b intr) = [Str '', interrupt='', Hex, Num intr]"
  "members (NicMmioR b off len val) =
     [Str '', off='', Hex, Num off, Str '', len='', Num len, Str '', val='', Hex, Num val]"
  "members (NicMmioW b off len val posted) =
     [Str '', off='', Hex, Num off, Str '', len='', Num len, Str '', val='', Hex, Num val,
      Str '', posted='', Str (BoolToString posted)]"
  "members (NicTx b len) = [Str '', len='', Num len, Str '', is_read='', Str ''false'']"
  "members (NicRx b port len) =
     [Str '', len='', Num len, Str '', is_read='', Str ''true'', Str '', port='',
      Str (to_string_int port)]"
  by (simp_all add: display_defs)

lemma members_id_addr_size:
  "members (HostDmaR b i addr sz) =
     [Str '', id='', Str (to_string i), Str '', addr='', Hex, Num addr, Str '', size='', Num sz]"
  "members (HostDmaW b i addr sz) =
     [Str '', id='', Str (to_string i), Str '', addr='', Hex, Num addr, Str '', size='', Num sz]"
  "members (NicDmaI b i addr sz) =
     [Str '', id='', Str (to_string i), Str '', addr='', Hex, Num addr, Str '', size='', Num sz]"
  "members (NicDmaEx b i addr sz) =
     [Str '', id='', Str (to_string i), Str '', addr='', Hex, Num addr, Str '', size='', Num sz]"
  "members (NicDmaEn b i addr sz) =
     [Str '', id='', Str (to_string i), Str '', addr='', Hex, Num addr, Str '', size='', Num sz]"
  "members (NicDmaCR b i addr sz) =
     [Str '', id='', Str (to_string i), Str '', addr='', Hex, Num addr, Str '', size='', Num sz]"
  "members (NicDmaCW b i addr sz) =
     [Str '', id='', Str (to_string i), Str '', addr='', Hex, Num addr, Str '', size='', Num sz]"
  by (simp_all add: display_defs)

lemmas body_steps = text_steps field_steps sep_simps list.distinct not_False_eq_True lh_return_def
  parse_id_def parse_id_addr_size_def parse_mmio_def parse_conf_def parse_pci_def parse_nic_mmio_def

lemma vec_hit:
  "\<exists>h'. field '', vec='' (ParseUintTrim 10) (\<lambda>vec. lh_return (NicMsix b (ucast vec) x))
     (line pre (text_of False [Str '', vec='', Str (to_string (v :: u16))]) post) =
   Inr (Some (NicMsix b v x), h')"
proof -
  let ?w = "ucast v :: u64"
  have lt: "unat v < 2 ^ 16" using unsigned_less[of v] by simp
  then have u: "unat ?w = unat v" by (simp add: unsigned_ucast_eq take_bit_nat_eq_self)
  have "?w \<noteq> u64_max"
  proof
    assume "?w = u64_max"
    then have "unat v = 2 ^ 64 - 1"
      using u by (simp add: unsigned_minus_1_eq_mask mask_eq_exp_minus_1)
    then show False using lt by simp
  qed
  then have "field '', vec='' (ParseUintTrim 10) (\<lambda>vec. lh_return (NicMsix b (ucast vec) x))
      (line pre ('', vec='' @ show_dec (unat ?w) @ []) post) =
    lh_return (NicMsix b (ucast ?w) x) (line (pre @ '', vec='' @ show_dec (unat ?w)) [] post)"
    by (intro field_steps(1)) (simp_all add: sep_def)
  moreover have "ucast ?w = v"
    by (rule bit_word_eqI) (auto simp: bit_simps)
  ultimately show ?thesis by (simp only: text_steps u lh_return_def) blast
qed

lemmas body_unfolds = branches members_simps read_back.simps event.case ev_base_of.simps printable_members.simps

lemma body_roundtrip:
  assumes "printable_members e"
  shows "\<exists>h'. ParseEventBody (GetName e) (ev_base_of e)
           (line pre (text_of False (members e)) post) = Inr (read_back e, h')"
proof (cases e)
  case (HostCall b pc f c)
  obtain func component where fc: "f = Some func" "c = Some component" "func \<noteq> []" "component \<noteq> []"
    "\<forall>x \<in> set func. is_alnum_dot_bar x" "\<forall>x \<in> set component. is_alnum_dot_bar x" "pc \<noteq> u64_max"
    using assms HostCall by (auto simp: printable_name_def list_all_iff split: option.splits)
  have f1: "field '', func='' (ExtractAndSubstrUntilInto is_alnum_dot_bar) g
      (line p ('', func='' @ func @ '', comp='' @ s) post) =
    g func (line (p @ '', func='' @ func) ('', comp='' @ s) post)" for g p s
    by (rule field_word) (use fc in simp_all)
  have f2: "field '', comp='' (ExtractAndSubstrUntilInto is_alnum_dot_bar) g
      (line p ('', comp='' @ component @ []) post) =
    g component (line (p @ '', comp='' @ component) [] post)" for g p
    by (rule field_word) (use fc in simp_all)
  show ?thesis unfolding HostCall branches members_simps fc string_or_null_def parse_pc_call_def
    using fc(7) by (simp only: read_back.simps event.case ev_base_of.simps body_steps option.case f1 f2) blast
next
  case (NicMsix b v x)
  then show ?thesis by (simp only: branches members_simps read_back.simps event.case ev_base_of.simps vec_hit)
next
  case (NicTx b len)
  then show ?thesis
    by (cases "as_hex (unat len) < 2 ^ 64"; simp only: body_unfolds body_steps field_dec_hex read_back.simps if_True if_False; blast)
next
  case (NicRx b port len)
  have m: "text_of False (members (NicRx b port len)) =
      '', len='' @ show_dec (unat len) @ '', is_read=true'' @ '', port='' @ show_int (sint port) @ []"
    by (simp add: members_simps show_num_def to_string_int_def)
  have minus: "field '', port='' ParseInt g (line p ('', port='' @ show_int (sint port) @ []) post) =
      Inr (None, line (p @ '', port='') (show_int (sint port) @ []) post)" if "\<not> 0 \<le> sint port" for p and g :: "i32 \<Rightarrow> event line_parser"
  proof -
    have "ParseInt (line q (show_int (sint port) @ []) post) = Inr (None, line q (show_int (sint port) @ []) post)" for q
      by (rule no_number(2)) (use that in \<open>simp_all add: show_int_def isdigit_def code_def\<close>)
    then show ?thesis by (simp only: field_hit list.distinct not_False_eq_True lh_bind_def rbind_Inr prod.case option.case)
  qed
  note steps = sep_simps list.distinct not_False_eq_True lh_check_def lh_if_def ConsumeAndTrimString_hit
    rbind_Inr prod.case if_True if_False lh_return_def simp_thms
  show ?thesis
  proof (cases "as_hex (unat len) < 2 ^ 64")
    case True
    then show ?thesis
      unfolding NicRx branches event.case ev_base_of.simps parse_nic_rx_def m read_back.simps
      by (cases "0 \<le> sint port") (simp only: field_dec_hex(1) field_steps minus steps, blast)+
  next
    case False
    then show ?thesis
      unfolding NicRx branches event.case ev_base_of.simps parse_nic_rx_def m read_back.simps
      by (simp only: field_dec_hex(2) steps) blast
  qed
next
  case (HostConf b dev func reg bytes dat r)
  note ne = assms[unfolded HostConf printable_members.simps]
  show ?thesis
  proof (cases "hex_as_dec (unat bytes)")
    case None
    show ?thesis
      using ne None unfolding HostConf body_unfolds
      by (simp only: body_steps option.map) (rule field_hex_stuck(1); simp add: sep_def)
  next
    case (Some m)
    then show ?thesis using ne unfolding HostConf body_unfolds by (simp only: body_steps field_hex_dec option.map) blast
  qed
next
  case (HostPciRW b off sz r)
  note ne = assms[unfolded HostPciRW printable_members.simps]
  then show ?thesis
    unfolding HostPciRW body_unfolds
    by (simp only: body_steps(1-28) parse_pci_def) (rule field_hex_last; simp)
next
  case (HostMmioR b i addr sz bar off)
  note ne = assms[unfolded HostMmioR printable_members.simps]
  show ?thesis
  proof (cases "hex_as_dec (unat bar)")
    case None
    show ?thesis
      using ne None unfolding HostMmioR body_unfolds
      by (simp only: body_steps option.map) (rule field_hex_stuck(2); simp add: sep_def)
  next
    case (Some m)
    then show ?thesis using ne unfolding HostMmioR body_unfolds by (simp only: body_steps field_hex_dec option.map) blast
  qed
next
  case (HostMmioW b i addr sz bar off posted)
  note ne = assms[unfolded HostMmioW printable_members.simps]
  show ?thesis
  proof (cases "hex_as_dec (unat bar)")
    case None
    show ?thesis
      using ne None unfolding HostMmioW body_unfolds
      by (simp only: body_steps option.map) (rule field_hex_stuck(2); simp add: sep_def)
  next
    case (Some m)
    then show ?thesis using ne unfolding HostMmioW body_unfolds by (simp only: body_steps field_hex_dec option.map) blast
  qed
qed (insert assms, ((hypsubst, unfold body_unfolds members_id_addr_size, simp only: body_steps, blast) | simp)+)

end
