(* ===== verification/NetRoundtrip.thy ===== *)
theory NetRoundtrip
  imports StreamRoundtrip
begin

text \<open>
  The round trip for network events, whose headers are found by searching: a parsing
  relation on texts with one rule per combinator, its instances for addresses and headers,
  and the theorem of what the parser makes of every printable event.
\<close>

section \<open>Parsing as a relation on texts\<close>

text \<open>
  \<open>runs p s r t\<close>: on a line with the text \<open>s\<close> left, \<open>p\<close> returns \<open>r\<close> and leaves \<open>t\<close>.
\<close>

definition runs :: "(LineHandler \<Rightarrow> ('r \<times> LineHandler) res) \<Rightarrow> string \<Rightarrow> 'r \<Rightarrow> string \<Rightarrow> bool" where
  "runs p s r t = (\<forall>pre post. \<exists>pre'. p (line pre s post) = Inr (r, line pre' t post))"

lemma runsI: "(\<And>pre post. \<exists>pre'. p (line pre s post) = Inr (r, line pre' t post)) \<Longrightarrow> runs p s r t"
  by (simp add: runs_def)

lemma runsE:
  assumes "runs p s r t"
  obtains pre' where "p (line pre s post) = Inr (r, line pre' t post)"
  using assms by (auto simp: runs_def)

lemma runs_return: "runs (lh_return x) s (Some x) s"
  by (rule runsI) (auto simp: lh_return_def)

lemma lh_bind_return: "lh_bind (lh_return x) f = f x"
  by (rule ext) (simp add: lh_bind_def lh_return_def)

lemma runs_option: "runs (lh_option r) s r s"
  by (rule runsI) (auto simp: lh_option_def)

lemma runs_bind:
  assumes "runs p s (Some x) t" and "runs (f x) t r u"
  shows "runs (lh_bind p f) s r u"
proof (rule runsI)
  fix pre post
  obtain a where "p (line pre s post) = Inr (Some x, line a t post)" using runsE[OF assms(1)] .
  moreover obtain b where "f x (line a t post) = Inr (r, line b u post)" using runsE[OF assms(2)] .
  ultimately show "\<exists>pre'. lh_bind p f (line pre s post) = Inr (r, line pre' u post)"
    by (auto simp: lh_bind_def)
qed

lemma runs_if:
  assumes "runs p s b t" and "runs (if b then f else g) t r u"
  shows "runs (lh_if p f g) s r u"
proof (rule runsI)
  fix pre post
  obtain a where "p (line pre s post) = Inr (b, line a t post)" using runsE[OF assms(1)] .
  moreover obtain c where "(if b then f else g) (line a t post) = Inr (r, line c u post)"
    using runsE[OF assms(2)] .
  ultimately show "\<exists>pre'. lh_if p f g (line pre s post) = Inr (r, line pre' u post)"
    by (cases b) (auto simp: lh_if_def)
qed

lemma runs_check: "runs p s True t \<Longrightarrow> runs f t r u \<Longrightarrow> runs (lh_check p f) s r u"
  unfolding lh_check_def by (rule runs_if[where b = True]) simp_all

lemma runs_check_fails:
  assumes "runs p s False t"
  shows "runs (lh_check p f) s None t"
  unfolding lh_check_def
proof (rule runs_if[OF assms])
  have "runs lh_fail t None t" by (rule runsI) (auto simp: lh_fail_def)
  then show "runs (if False then f else lh_fail) t None t" by simp
qed

lemma runs_optional:
  assumes "runs p s x t" and "runs (f x) t r u"
  shows "runs (lh_optional p f) s r u"
proof (rule runsI)
  fix pre post
  obtain a where "p (line pre s post) = Inr (x, line a t post)" using runsE[OF assms(1)] .
  moreover obtain b where "f x (line a t post) = Inr (r, line b u post)" using runsE[OF assms(2)] .
  ultimately show "\<exists>pre'. lh_optional p f (line pre s post) = Inr (r, line pre' u post)"
    by (auto simp: lh_optional_def)
qed

lemma runs_trim:
  assumes "dropWhile is_space s = t" and "runs f t r u"
  shows "runs (lh_step TrimL f) s r u"
proof (rule runsI)
  fix pre post
  obtain b where "f (line (pre @ takeWhile is_space s) t post) = Inr (r, line b u post)"
    using runsE[OF assms(2)] .
  then show "\<exists>pre'. lh_step TrimL f (line pre s post) = Inr (r, line pre' u post)"
    using assms(1) by (auto simp: lh_step_def TrimL_line)
qed

lemma runs_string: "p \<noteq> [] \<Longrightarrow> runs (ConsumeAndTrimString p) (p @ s) True s"
  by (rule runsI) (auto simp: ConsumeAndTrimString_hit)

lemma runs_char: "runs (ConsumeAndTrimChar c) (c # s) True s"
  by (rule runsI) (auto simp: ConsumeAndTrimChar_line)

lemma runs_char_text: "runs (ConsumeAndTrimChar c) ([c] @ s) True s"
  using runs_char[of c s] by simp

lemma greedy_find_here:
  assumes "p \<noteq> []" and "hd p \<notin> set q"
  shows "greedy_find p (q @ p @ r) = Some r"
proof -
  obtain c cs where p: "p = c # cs" using assms(1) by (cases p) auto
  then have "dropWhile (\<lambda>x. x \<noteq> hd p) (q @ p @ r) = c # cs @ r"
    using assms(2) by (auto simp: dropWhile_append)
  then show ?thesis using p by (subst greedy_find.simps) simp
qed

lemma runs_till:
  assumes "p \<noteq> []" and "hd p \<notin> set q"
  shows "runs (ConsumeAndTrimTillString p) (q @ p @ r) True r"
  using greedy_find_here[OF assms, of r] assms(1)
  by (intro runsI) (auto simp: ConsumeAndTrimTillString_line)

lemma runs_till_misses:
  assumes "c \<in> set p" and "c \<notin> set s"
  shows "runs (ConsumeAndTrimTillString p) s False s"
proof -
  have "greedy_find p s = None" using greedy_find_sound[of p s] assms by (cases "greedy_find p s") auto
  then show ?thesis by (intro runsI) (auto simp: ConsumeAndTrimTillString_line)
qed

lemma runs_field:
  assumes "p \<noteq> []" and "runs q s (Some x) t" and "runs (f x) t r u"
  shows "runs (field p q f) (p @ s) r u"
  unfolding field_def by (rule runs_check[OF runs_string[OF assms(1)] runs_bind[OF assms(2), where f = f, OF assms(3)]])

lemma runs_till_field:
  assumes "p \<noteq> []" and "hd p \<notin> set skipped" and "runs q s (Some x) t" and "runs (f x) t r u"
  shows "runs (till_field p q f) (skipped @ p @ s) r u"
  unfolding till_field_def
  by (rule runs_check[OF runs_till[OF assms(1,2)] runs_bind[OF assms(3), where f = f, OF assms(4)]])

lemma runs_dec:
  "w \<noteq> u64_max \<Longrightarrow> s = [] \<or> \<not> isdigit (hd s) \<Longrightarrow>
   runs (ParseUintTrim 10) (show_dec (unat w) @ s) (Some w) s"
  by (rule runsI) (auto simp: show_dec_step)

lemma runs_hex:
  "w \<noteq> u64_max \<Longrightarrow> s = [] \<or> \<not> isalnum (hd s) \<Longrightarrow>
   runs (ParseUintTrim 16) (show_hex (unat w) @ s) (Some w) s"
  by (rule runsI) (auto simp: show_hex_step)

lemma runs_int:
  "0 \<le> sint i \<Longrightarrow> s = [] \<or> \<not> isdigit (hd s) \<Longrightarrow> runs ParseInt (show_int (sint i) @ s) (Some i) s"
  by (rule runsI) (auto simp: ParseInt_step)

lemma runs_bool: "runs ParseBoolFromStringRepr (BoolToString b @ s) (Some b) s"
  by (rule runsI) (auto simp: bool_step)

lemma runs_word:
  "\<forall>c \<in> set t. P c \<Longrightarrow> t \<noteq> [] \<Longrightarrow> s = [] \<or> \<not> P (hd s) \<Longrightarrow>
   runs (ExtractAndSubstrUntilInto P) (t @ s) (Some t) s"
  by (rule runsI) (auto simp: word_step)

section \<open>Addresses\<close>

lemma runs_byte:
  assumes "s = [] \<or> \<not> isalnum (hd s)"
  shows "runs (ParseUintTrim 16) (show_byte True b @ s) (Some (ucast b)) s"
proof -
  let ?w = "ucast b :: u64"
  have lt: "unat b < 2 ^ 8" using unsigned_less[of b] by simp
  then have u: "unat ?w = unat b" by (simp add: unsigned_ucast_eq take_bit_nat_eq_self)
  have ne: "?w \<noteq> u64_max"
  proof
    assume "?w = u64_max"
    then show False using u lt by (simp add: unsigned_minus_1_eq_mask mask_eq_exp_minus_1)
  qed
  show ?thesis
  proof (cases "unat b < 16")
    case False
    then have "show_hex (unat b) = [digit_char (unat b div 16), digit_char (unat b mod 16)]"
      using lt by (simp add: show_hex_def show_base.simps)
    then have "show_byte True b = show_hex (unat ?w)"
      by (simp add: show_byte_def show_num_def u)
    then show ?thesis using runs_hex[OF ne assms] by simp
  next
    case True
    let ?d = "digit_char (unat b)"
    have t: "show_byte True b = [CHR ''0'', ?d]"
      using True by (simp add: show_byte_def show_num_def show_hex_def show_base.simps)
    have d: "is_digit_of 16 ?d" "isalnum ?d" "digit_val ?d = unat b"
      using digit_char_facts[OF True] True by (simp_all add: is_digit_of_def)
    have z: "isalnum CHR ''0''" "is_digit_of 16 CHR ''0''" "digit_val CHR ''0'' = 0" "\<not> isspace CHR ''0''"
      by (simp_all add: isalnum_def isdigit_def is_digit_of_def digit_val_def isspace_def code_def)
    have "strtoul 16 (show_byte True b) = of_nat (unat b)"
      unfolding t using d z lt
      by (simp add: strtoul_def strto_parts_def value_of_def)
    then have v: "strtoul 16 (show_byte True b) = ?w" by (simp add: of_nat_unat)
    have tw: "takeWhile is_alnum (show_byte True b @ s) = show_byte True b"
      "dropWhile is_alnum (show_byte True b @ s) = s"
      using d(2) z(1) assms t by (cases s; simp add: is_alnum_def)+
    have "show_byte True b \<noteq> []" using t by simp
    then have "ParseUintTrim 16 (line pre (show_byte True b @ s) post) =
        Inr (Some ?w, line (pre @ show_byte True b) s post)" for pre post
      using ParseUintTrim_line[of 16 pre "show_byte True b @ s" post] ne
      unfolding num_pred_eqs Let_def tw v by simp
    then show ?thesis by (intro runsI) blast
  qed
qed

lemma mac_text:
  assumes "mac_addr m = [a, b, c, d, e, f]"
  shows "text_of True (MacAddress_Display m @ xs) =
    show_byte True a @ '':'' @ show_byte True b @ '':'' @ show_byte True c @ '':'' @
    show_byte True d @ '':'' @ show_byte True e @ '':'' @ show_byte True f @ text_of False xs"
  using assms by (simp add: MacAddress_Display_def kMacSize_def upt_rec)

lemma length_6:
  assumes "length xs = 6"
  obtains a b c d e f where "xs = [a, b, c, d, e, f]"
  using assms by (auto simp: eval_nat_numeral length_Suc_conv)

lemma runs_mac_step:
  assumes "0 < n" and "runs (mac_bytes n) t (Some bs) u"
  shows "runs (mac_bytes (Suc n)) (show_byte True b @ '':'' @ t) (Some (b # bs)) u"
proof -
  have c: "CHR '':'' # [] = '':''" by simp
  have "ucast (ucast b :: u64) = b" by (rule bit_word_eqI) (auto simp: bit_simps)
  then have r: "runs (lh_return (ucast (ucast b :: u64) # bs)) u (Some (b # bs)) u"
    using runs_return[of "b # bs" u] by simp
  show ?thesis
    unfolding mac_bytes.simps using assms(1)
    by (intro runs_bind[OF runs_byte])
       (simp_all add: runs_check[OF runs_char] runs_bind[OF assms(2), where f = "\<lambda>bytes. lh_return (ucast (ucast b :: u64) # bytes)", OF r])
qed

lemma runs_mac:
  assumes "length (mac_addr m) = 6" and "s = [] \<or> \<not> isalnum (hd s)"
  shows "runs ParseMacAddress (text_of True (MacAddress_Display m) @ s) (Some m) s"
proof -
  obtain a b c d e f where m: "mac_addr m = [a, b, c, d, e, f]" using length_6[OF assms(1)] .
  have "ucast (ucast f :: u64) = f" by (rule bit_word_eqI) (auto simp: bit_simps)
  then have "runs (lh_return [ucast (ucast f :: u64)]) s (Some [f]) s"
    using runs_return[of "[f]" s] by simp
  from runs_bind[OF runs_byte[OF assms(2), of f], where f = "\<lambda>bb. lh_return [ucast bb]", OF this]
  have last: "runs (mac_bytes 1) (show_byte True f @ s) (Some [f]) s"
    by (simp add: One_nat_def lh_bind_return)
  have six: "kMacSize = Suc (Suc (Suc (Suc (Suc 1))))" by (simp add: kMacSize_def)
  have all: "runs (mac_bytes kMacSize) (show_byte True a @ '':'' @ show_byte True b @ '':'' @
      show_byte True c @ '':'' @ show_byte True d @ '':'' @ show_byte True e @ '':'' @
      show_byte True f @ s) (Some [a, b, c, d, e, f]) s"
    unfolding six by (intro runs_mac_step last) simp_all
  have first: "dropWhile is_space (show_byte True a @ t) = show_byte True a @ t" for t
  proof -
    have "show_base 16 n = c # cs \<Longrightarrow> \<not> is_space c" for n c cs
      using show_base_alnum(1)[of 16 c n] alnum_plain(1)[of c] by (auto simp: is_space_def)
    moreover have "\<not> is_space CHR ''0''" by (simp add: is_space_def isspace_def code_def)
    moreover have "show_base 16 (unat a) \<noteq> []" using show_base_digits[of 16 "unat a"] by simp
    ultimately show ?thesis
      by (cases "show_base 16 (unat a)"; cases "2 - length (show_base 16 (unat a))")
         (auto simp: show_byte_def show_num_def show_hex_def Let_def)
  qed
  have "m = \<lparr>mac_addr = [a, b, c, d, e, f]\<rparr>" using m by (cases m) simp
  then have ret: "runs (lh_return \<lparr>mac_addr = [a, b, c, d, e, f]\<rparr>) s (Some m) s"
    using runs_return by simp
  show ?thesis
    using mac_text[OF m, of "[]"] first unfolding ParseMacAddress_def
    by (intro runs_trim[OF _ runs_bind[OF all, where f = "\<lambda>bytes. lh_return \<lparr>mac_addr = bytes\<rparr>", OF ret]]) simp
qed

text \<open>The octet \<open>n\<close> of an address, counted from the right.\<close>

definition octet :: "nat \<Rightarrow> Ipv4 \<Rightarrow> u32" where
  "octet n a = take_bit 8 (drop_bit (8 * n) (ipv4_ip a))"

lemma octet_less: "unat (octet n a) < 256"
  using take_bit_nat_less_exp[of 8 "unat (drop_bit (8 * n) (ipv4_ip a))"]
  by (simp add: octet_def unsigned_take_bit_eq)

lemma octet_masks:
  "drop_bit 24 (0xff000000 AND ip) = take_bit 8 (drop_bit 24 (ip :: u32))"
  "drop_bit 16 (0x00ff0000 AND ip) = take_bit 8 (drop_bit 16 (ip :: u32))"
  "drop_bit 8 (0x0000ff00 AND ip) = take_bit 8 (drop_bit 8 (ip :: u32))"
  "0x000000ff AND ip = take_bit 8 (ip :: u32)"
proof -
  have m: "(0xff000000 :: u32) = push_bit 24 (mask 8)" "(0x00ff0000 :: u32) = push_bit 16 (mask 8)"
    "(0x0000ff00 :: u32) = push_bit 8 (mask 8)" "(0x000000ff :: u32) = mask 8"
    by (simp_all add: mask_eq_exp_minus_1 push_bit_eq_mult)
  show "drop_bit 24 (0xff000000 AND ip) = take_bit 8 (drop_bit 24 ip)"
    "drop_bit 16 (0x00ff0000 AND ip) = take_bit 8 (drop_bit 16 ip)"
    "drop_bit 8 (0x0000ff00 AND ip) = take_bit 8 (drop_bit 8 ip)"
    "0x000000ff AND ip = take_bit 8 ip"
    unfolding m by (rule bit_word_eqI; auto simp: bit_simps)+
qed

lemma ip_text:
  "text_of hex (Ipv4_Display a) = to_string (octet 3 a) @ ''.'' @ to_string (octet 2 a) @ ''.'' @
     to_string (octet 1 a) @ ''.'' @ to_string (octet 0 a)"
  "hex_after hex (Ipv4_Display a) = hex"
  by (simp_all add: Ipv4_Display_def Let_def octet_masks octet_def)

lemma octets_join:
  "\<lparr>ipv4_ip = ucast (push_bit 24 (ucast (octet 3 a) :: u64) + push_bit 16 (ucast (octet 2 a)) +
      push_bit 8 (ucast (octet 1 a)) + ucast (octet 0 a))\<rparr> = a"
proof -
  let ?o = "\<lambda>n. ucast (octet n a) :: u64"
  have "push_bit 24 (?o 3) + push_bit 16 (?o 2) + push_bit 8 (?o 1) + ?o 0 =
      (push_bit 24 (?o 3) OR push_bit 16 (?o 2)) OR push_bit 8 (?o 1) OR ?o 0"
    unfolding octet_def
    by (subst disjunctive_add; (subst disjunctive_add)?; (subst disjunctive_add)?;
        auto simp: bit_simps intro: bit_word_eqI)
  also have "ucast \<dots> = ipv4_ip a"
  proof (rule bit_word_eqI)
    fix n
    assume "n < LENGTH(32)"
    then consider "n < 8" | "8 \<le> n" "n < 16" | "16 \<le> n" "n < 24" | "24 \<le> n" "n < 32" by fastforce
    then show "bit (ucast ((push_bit 24 (?o 3) OR push_bit 16 (?o 2)) OR push_bit 8 (?o 1) OR ?o 0)
        :: u32) n = bit (ipv4_ip a) n"
      by cases (auto simp: bit_simps octet_def)
  qed
  finally show ?thesis by (cases a) simp
qed

lemma runs_octet:
  assumes "s = [] \<or> \<not> isdigit (hd s)"
  shows "runs (ParseUintTrim 10) (to_string (octet n a) @ s) (Some (ucast (octet n a))) s"
    and "\<not> (255 :: u64) < ucast (octet n a)"
proof -
  let ?w = "ucast (octet n a) :: u64"
  have u: "unat ?w = unat (octet n a)"
    using octet_less[of n a] by (simp add: unsigned_ucast_eq take_bit_nat_eq_self)
  then have "?w \<noteq> u64_max"
    using octet_less[of n a] by (auto simp: unsigned_minus_1_eq_mask mask_eq_exp_minus_1)
  then show "runs (ParseUintTrim 10) (to_string (octet n a) @ s) (Some ?w) s"
    using runs_dec[of ?w s] assms u by (simp add: to_string_def)
  show "\<not> (255 :: u64) < ?w" using u octet_less[of n a] by (simp add: word_less_nat_alt)
qed

lemma runs_octet_step:
  assumes "0 < n" and "runs (ip_octets n) t (Some os) u"
  shows "runs (ip_octets (Suc n)) (to_string (octet k a) @ ''.'' @ t) (Some (ucast (octet k a) # os)) u"
proof -
  let ?w = "ucast (octet k a) :: u64"
  have d: "''.'' @ t = [] \<or> \<not> isdigit (hd (''.'' @ t))" by simp
  have "runs (lh_check (ConsumeAndTrimChar CHR ''.'')
      (lh_bind (ip_octets n) (\<lambda>octets. lh_return (?w # octets)))) (''.'' @ t) (Some (?w # os)) u"
    using runs_check[OF runs_char[of "CHR ''.''" t]
        runs_bind[OF assms(2), where f = "\<lambda>octets. lh_return (?w # octets)", OF runs_return]] by simp
  then show ?thesis
    using assms(1) runs_octet(2)[OF d] unfolding ip_octets.simps
    by (intro runs_bind[OF runs_octet(1)[OF d]]) simp
qed

lemma runs_ip:
  assumes "s = [] \<or> \<not> isdigit (hd s)"
  shows "runs ParseIpAddress (text_of hex (Ipv4_Display a) @ s) (Some a) s"
proof -
  let ?o = "\<lambda>k. ucast (octet k a) :: u64"
  have "runs (lh_return [?o 0]) s (Some [?o 0]) s" by (rule runs_return)
  from runs_bind[OF runs_octet(1)[OF assms], where f = "\<lambda>oc. if oc > 255 then lh_fail else lh_return [oc]",
      of 0 a] this runs_octet(2)[OF assms, of 0 a]
  have last: "runs (ip_octets 1) (to_string (octet 0 a) @ s) (Some [?o 0]) s"
    unfolding One_nat_def ip_octets.simps lh_bind_return id_apply by simp
  have four: "4 = Suc (Suc (Suc 1))" by simp
  have all: "runs (ip_octets 4) (to_string (octet 3 a) @ ''.'' @ to_string (octet 2 a) @ ''.'' @
     to_string (octet 1 a) @ ''.'' @ to_string (octet 0 a) @ s) (Some [?o 3, ?o 2, ?o 1, ?o 0]) s"
    unfolding four by (intro runs_octet_step last) simp_all
  have "runs (lh_return \<lparr>ipv4_ip = ucast (push_bit 24 ([?o 3, ?o 2, ?o 1, ?o 0] ! 0) +
      push_bit 16 ([?o 3, ?o 2, ?o 1, ?o 0] ! 1) + push_bit 8 ([?o 3, ?o 2, ?o 1, ?o 0] ! 2) +
      [?o 3, ?o 2, ?o 1, ?o 0] ! 3)\<rparr>) s (Some a) s"
    using runs_return[of a s] octets_join[of a] by (simp add: numeral_3_eq_3)
  from runs_bind[OF all, where f = "\<lambda>octets. lh_return \<lparr>ipv4_ip = ucast (push_bit 24 (octets ! 0) +
      push_bit 16 (octets ! 1) + push_bit 8 (octets ! 2) + octets ! 3)\<rparr>", OF this]
  show ?thesis unfolding ParseIpAddress_def by (simp add: ip_text)
qed

lemma digits_only: "c \<in> set (to_string w) \<Longrightarrow> isdigit c" "c \<in> set (show_dec n) \<Longrightarrow> isdigit c"
  using show_base_alnum(2)[of 10 c] by (auto simp: to_string_def show_dec_def)

lemma ip_letters:
  "\<not> isdigit c \<Longrightarrow> c \<noteq> CHR ''.'' \<Longrightarrow> c \<notin> set (text_of hex (Ipv4_Display a))"
  by (auto simp: ip_text dest: digits_only)

section \<open>Headers\<close>

lemma header_texts:
  "text_of False (EthernetHeader_Display e) = ''EthernetHeader'' @ ''('' @ ''length/type=0x'' @
     show_hex (unat (eth_length_type e)) @ '', '' @ ''source='' @
     text_of True (MacAddress_Display (eth_src_mac e)) @ '', '' @ ''destination='' @
     text_of False (MacAddress_Display (eth_dst_mac e)) @ '')''"
  "hex_after False (EthernetHeader_Display e) = False"
  "text_of False (ArpHeader_Display r) = ''ns3::ArpHeader'' @ ''('' @
     (if arp_is_request r then ''request'' else ''reply'') @ '' source ipv4: '' @
     text_of False (Ipv4_Display (arp_src_ip r)) @ '' dest ipv4: '' @
     text_of False (Ipv4_Display (arp_dst_ip r)) @ '')''"
  "hex_after False (ArpHeader_Display r) = False"
  "text_of False (Ipv4Header_Display i) = ''Ipv4Header'' @ ''('' @ ''length: '' @
     show_dec (unat (iph_length i)) @ '' '' @ text_of False (Ipv4_Display (iph_src_ip i)) @
     '' '' @ ''>'' @ '' '' @ text_of False (Ipv4_Display (iph_dst_ip i)) @ '')''"
  by (simp_all add: EthernetHeader_Display_def ArpHeader_Display_def Ipv4Header_Display_def
      MacAddress_Display_def kMacSize_def upt_rec show_num_def ip_text)

lemma trim_none:
  assumes "set q \<subseteq> {CHR '')''}"
  shows "dropWhile is_space (q @ '', '' @ s) = q @ '', '' @ s" "dropWhile is_space q = q"
  using assms by (cases q; auto simp: is_space_def isspace_def code_def)+

lemma trim_comma: "dropWhile is_space ('', '' @ s) = '', '' @ s"
  by (simp add: is_space_def isspace_def code_def)

lemma mac_hex: "text_of False (MacAddress_Display m) = text_of True (MacAddress_Display m)"
  by (simp add: MacAddress_Display_def)

lemma runs_eth:
  assumes "length (mac_addr (eth_src_mac e)) = 6" and "length (mac_addr (eth_dst_mac e)) = 6"
    and "eth_length_type e \<noteq> u64_max"
  shows "runs TryParseEthernetHeader ('', '' @ text_of False (EthernetHeader_Display e) @ s)
           (Some e) ('')'' @ s)"
proof -
  have e: "\<lparr>eth_length_type = eth_length_type e, eth_src_mac = eth_src_mac e,
      eth_dst_mac = eth_dst_mac e\<rparr> = e" by (cases e) simp
  let ?dst = "text_of True (MacAddress_Display (eth_dst_mac e)) @ '')'' @ s"
  let ?src = "text_of True (MacAddress_Display (eth_src_mac e)) @ '', '' @ ''destination='' @ ?dst"
  let ?ty = "show_hex (unat (eth_length_type e)) @ '', '' @ ''source='' @ ?src"
  have 1: "runs (till_field ''destination='' ParseMacAddress (\<lambda>dst_mac. lh_return
      \<lparr>eth_length_type = eth_length_type e, eth_src_mac = eth_src_mac e, eth_dst_mac = dst_mac\<rparr>))
      ('', '' @ ''destination='' @ ?dst) (Some e) ('')'' @ s)"
    by (rule runs_till_field[OF _ _ runs_mac[OF assms(2)]]) (simp_all only: append.simps runs_return e, simp_all)
  have 2: "runs (till_field ''source='' ParseMacAddress (\<lambda>src_mac.
      till_field ''destination='' ParseMacAddress (\<lambda>dst_mac. lh_return
      \<lparr>eth_length_type = eth_length_type e, eth_src_mac = src_mac, eth_dst_mac = dst_mac\<rparr>)))
      ('', '' @ ''source='' @ ?src) (Some e) ('')'' @ s)"
    by (rule runs_till_field[OF _ _ runs_mac[OF assms(1)]]; (rule 1)?; simp)
  have 3: "runs (till_field ''length/type=0x'' (ParseUintTrim 16) (\<lambda>length_type.
      till_field ''source='' ParseMacAddress (\<lambda>src_mac.
      till_field ''destination='' ParseMacAddress (\<lambda>dst_mac. lh_return
      \<lparr>eth_length_type = length_type, eth_src_mac = src_mac, eth_dst_mac = dst_mac\<rparr>))))
      (''('' @ ''length/type=0x'' @ ?ty) (Some e) ('')'' @ s)"
    by (rule runs_till_field[OF _ _ runs_hex[OF assms(3)]]; (rule 2)?; simp)
  show ?thesis
    unfolding TryParseEthernetHeader_def header_texts append_assoc mac_hex
    by (rule runs_trim[OF trim_comma], rule runs_check[OF runs_till];
        (rule 3)?; simp)
qed

lemma runs_arp:
  assumes "set q \<subseteq> {CHR '')''}" and "CHR ''q'' \<notin> set s"
  shows "runs TryParseArpHeader (q @ '', '' @ text_of False (ArpHeader_Display r) @ s)
           (Some r) ('')'' @ s)"
proof -
  have r: "\<lparr>arp_src_ip = arp_src_ip r, arp_dst_ip = arp_dst_ip r, arp_is_request = arp_is_request r\<rparr> = r"
    by (cases r) simp
  let ?dst = "text_of False (Ipv4_Display (arp_dst_ip r)) @ '')'' @ s"
  let ?src = "text_of False (Ipv4_Display (arp_src_ip r)) @ '' dest ipv4: '' @ ?dst"
  let ?kind = "(if arp_is_request r then ''request'' else ''reply'') @ '' source ipv4: '' @ ?src"
  have 1: "runs (till_field '' dest ipv4: '' ParseIpAddress (\<lambda>dst_ip. lh_return
      \<lparr>arp_src_ip = arp_src_ip r, arp_dst_ip = dst_ip, arp_is_request = arp_is_request r\<rparr>))
      ([] @ '' dest ipv4: '' @ ?dst) (Some r) ('')'' @ s)"
    by (rule runs_till_field[OF _ _ runs_ip]) (simp_all only: append.simps runs_return r, simp_all)
  have 2: "runs (till_field '' source ipv4: '' ParseIpAddress (\<lambda>src_ip.
      till_field '' dest ipv4: '' ParseIpAddress (\<lambda>dst_ip. lh_return
      \<lparr>arp_src_ip = src_ip, arp_dst_ip = dst_ip, arp_is_request = arp_is_request r\<rparr>)))
      ([] @ '' source ipv4: '' @ ?src) (Some r) ('')'' @ s)"
    by (rule runs_till_field[OF _ _ runs_ip]; (rule 1[unfolded append_Nil])?; simp)
  have "CHR ''q'' \<notin> set (''('' @ ''reply'' @ '' source ipv4: '' @ ?src)"
    using assms(2) by (simp add: ip_letters isdigit_def code_def)
  then have miss: "runs (ConsumeAndTrimTillString ''request'') (''('' @ ''reply'' @ '' source ipv4: '' @ ?src)
      False (''('' @ ''reply'' @ '' source ipv4: '' @ ?src)"
    by (intro runs_till_misses[of "CHR ''q''"]) simp_all
  have 3: "runs (lh_if (ConsumeAndTrimTillString ''request'') (lh_return True)
               (lh_if (ConsumeAndTrimTillString ''reply'') (lh_return False) lh_fail))
      (''('' @ ?kind) (Some (arp_is_request r)) ('' source ipv4: '' @ ?src)"
  proof (cases "arp_is_request r")
    case True
    have "runs (lh_if (ConsumeAndTrimTillString ''request'') (lh_return True)
               (lh_if (ConsumeAndTrimTillString ''reply'') (lh_return False) lh_fail))
      (''('' @ ''request'' @ '' source ipv4: '' @ ?src) (Some True) ('' source ipv4: '' @ ?src)"
      by (rule runs_if[OF runs_till]) (simp_all add: runs_return)
    then show ?thesis using True by simp
  next
    case False
    have "runs (lh_if (ConsumeAndTrimTillString ''reply'') (lh_return False) lh_fail)
        (''('' @ ''reply'' @ '' source ipv4: '' @ ?src) (Some False) ('' source ipv4: '' @ ?src)"
      by (rule runs_if[OF runs_till]) (simp_all add: runs_return)
    then have "runs (lh_if (ConsumeAndTrimTillString ''request'') (lh_return True)
               (lh_if (ConsumeAndTrimTillString ''reply'') (lh_return False) lh_fail))
      (''('' @ ''reply'' @ '' source ipv4: '' @ ?src) (Some False) ('' source ipv4: '' @ ?src)"
      by (intro runs_if[OF miss]) (simp only: if_False)
    then show ?thesis using False by simp
  qed
  have q: "hd ''ns3::ArpHeader'' \<notin> set (q @ '', '')" using assms(1) by auto
  show ?thesis
    unfolding TryParseArpHeader_def header_texts append_assoc
    by (rule runs_trim[OF trim_none(1)[OF assms(1)]], rule runs_check[OF runs_till[OF _ q, unfolded append_assoc]],
        simp, rule runs_bind[OF 3], rule 2[unfolded append_Nil])
qed

lemma runs_ip_header:
  assumes "set q \<subseteq> {CHR '')''}" and "iph_length i \<noteq> u64_max"
  shows "runs TryParseIpHeader (q @ '', '' @ text_of False (Ipv4Header_Display i) @ s)
           (Some i) ('')'' @ s)"
proof -
  have i: "\<lparr>iph_length = iph_length i, iph_src_ip = iph_src_ip i, iph_dst_ip = iph_dst_ip i\<rparr> = i"
    by (cases i) simp
  let ?ret = "\<lambda>len src_ip dst_ip. lh_return \<lparr>iph_length = len, iph_src_ip = src_ip, iph_dst_ip = dst_ip\<rparr>"
  let ?dst = "text_of False (Ipv4_Display (iph_dst_ip i)) @ '')'' @ s"
  let ?src = "text_of False (Ipv4_Display (iph_src_ip i)) @ '' '' @ ''>'' @ '' '' @ ?dst"
  have trim_ip: "dropWhile is_space ('' '' @ text_of False (Ipv4_Display a) @ t) =
      text_of False (Ipv4_Display a) @ t" for a t
  proof -
    have "show_dec n \<noteq> []" for n using show_base_digits[of 10 n] by (simp add: show_dec_def)
    then obtain c cs where c: "to_string (octet 3 a) = c # cs" by (cases "to_string (octet 3 a)") (auto simp: to_string_def)
    then have "isdigit c" using digits_only(1)[of c "octet 3 a"] by simp
    then have "\<not> is_space c" using alnum_plain(1)[of c] by (simp add: is_space_def isalnum_def)
    moreover have "is_space CHR '' ''" by (simp add: is_space_def isspace_def code_def)
    ultimately show ?thesis using c by (simp add: ip_text)
  qed
  have 1: "runs (lh_bind ParseIpAddress (?ret (iph_length i) (iph_src_ip i))) ?dst (Some i) ('')'' @ s)"
    by (rule runs_bind[OF runs_ip]) (simp_all only: append.simps runs_return i, simp_all)
  have 2: "runs (lh_step TrimL (lh_check (ConsumeAndTrimChar CHR ''>'') (lh_step TrimL
      (lh_bind ParseIpAddress (?ret (iph_length i) (iph_src_ip i))))))
      ('' '' @ ''>'' @ '' '' @ ?dst) (Some i) ('')'' @ s)"
    by (rule runs_trim[where t = "''>'' @ '' '' @ ?dst"],
        simp add: is_space_def isspace_def code_def,
        rule runs_check[OF runs_char_text], rule runs_trim[OF trim_ip 1])
  have 3: "runs (lh_step TrimL (lh_bind ParseIpAddress (\<lambda>src_ip. lh_step TrimL
      (lh_check (ConsumeAndTrimChar CHR ''>'') (lh_step TrimL
      (lh_bind ParseIpAddress (?ret (iph_length i) src_ip)))))))
      ('' '' @ ?src) (Some i) ('')'' @ s)"
    by (rule runs_trim[OF trim_ip], rule runs_bind[OF runs_ip], simp, rule 2)
  have 4: "runs (till_field ''length: '' (ParseUintTrim 10) (\<lambda>len.
      lh_step TrimL (lh_bind ParseIpAddress (\<lambda>src_ip. lh_step TrimL
      (lh_check (ConsumeAndTrimChar CHR ''>'') (lh_step TrimL (lh_bind ParseIpAddress (?ret len src_ip))))))))
      (''('' @ ''length: '' @ show_dec (unat (iph_length i)) @ '' '' @ ?src) (Some i) ('')'' @ s)"
    by (rule runs_till_field[OF _ _ runs_dec[OF assms(2)]]; (rule 3)?; simp)
  have q: "hd ''Ipv4Header'' \<notin> set (q @ '', '')" using assms(1) by auto
  show ?thesis
    unfolding TryParseIpHeader_def header_texts append_assoc
    by (rule runs_trim[OF trim_none(1)[OF assms(1)]], rule runs_check[OF runs_till[OF _ q, unfolded append_assoc]],
        simp, rule 4)
qed

section \<open>Optional headers\<close>

definition eth_part :: "EthernetHeader option \<Rightarrow> string" where
  "eth_part e = (case e of None \<Rightarrow> [] | Some h \<Rightarrow> '', '' @ text_of False (EthernetHeader_Display h))"

definition arp_part :: "ArpHeader option \<Rightarrow> string" where
  "arp_part r = (case r of None \<Rightarrow> [] | Some h \<Rightarrow> '', '' @ text_of False (ArpHeader_Display h))"

definition ip_part :: "Ipv4Header option \<Rightarrow> string" where
  "ip_part i = (case i of None \<Rightarrow> [] | Some h \<Rightarrow> '', '' @ text_of False (Ipv4Header_Display h))"

definition printable_eth :: "EthernetHeader option \<Rightarrow> bool" where
  "printable_eth e =
     (case e of None \<Rightarrow> True
      | Some h \<Rightarrow> length (mac_addr (eth_src_mac h)) = 6 \<and> length (mac_addr (eth_dst_mac h)) = 6 \<and>
          eth_length_type h \<noteq> u64_max)"

definition printable_ip :: "Ipv4Header option \<Rightarrow> bool" where
  "printable_ip i = (case i of None \<Rightarrow> True | Some h \<Rightarrow> iph_length h \<noteq> u64_max)"

lemma show_dec_letters: "\<not> isdigit c \<Longrightarrow> c \<notin> set (show_dec n)"
  using digits_only(2) by blast

lemma part_letters:
  "CHR ''q'' \<notin> set (ip_part i)" "CHR ''A'' \<notin> set (ip_part i)" "CHR ''E'' \<notin> set (ip_part i)"
  "CHR ''E'' \<notin> set (arp_part r)"
  by (simp_all add: ip_part_def arp_part_def header_texts ip_letters show_dec_letters isdigit_def
      code_def split: option.splits)

lemma trim_parts:
  assumes "set q \<subseteq> {CHR '')''}"
  shows "dropWhile is_space (q @ ip_part i) = q @ ip_part i"
    and "dropWhile is_space (q @ arp_part r @ ip_part i) = q @ arp_part r @ ip_part i"
    and "dropWhile is_space (eth_part e @ arp_part r @ ip_part i) = eth_part e @ arp_part r @ ip_part i"
  using trim_none[OF assms] trim_comma trim_comma[of "[]"]
  by (auto simp: ip_part_def arp_part_def eth_part_def is_space_def isspace_def code_def split: option.splits)

lemma runs_misses_header:
  assumes "dropWhile is_space s = s" and "c \<in> set p" and "c \<notin> set s"
  shows "runs (lh_step TrimL (lh_check (ConsumeAndTrimTillString p) f)) s None s"
  by (rule runs_trim[OF assms(1) runs_check_fails[OF runs_till_misses[OF assms(2,3)]]])

lemma runs_eth_part:
  assumes "printable_eth e"
  shows "\<exists>q. set q \<subseteq> {CHR '')''} \<and>
    runs TryParseEthernetHeader (eth_part e @ arp_part r @ ip_part i) e (q @ arp_part r @ ip_part i)"
proof (cases e)
  case None
  have "CHR ''E'' \<in> set ''EthernetHeader''" "CHR ''E'' \<notin> set (arp_part r @ ip_part i)"
    using part_letters by simp_all
  from runs_misses_header[OF _ this] show ?thesis
    using trim_parts(2)[of "[]"] None
    by (intro exI[of _ "[]"]) (simp add: TryParseEthernetHeader_def eth_part_def)
next
  case (Some h)
  then show ?thesis
    using runs_eth[of h "arp_part r @ ip_part i"] assms
    by (intro exI[of _ "'')''"]) (simp add: eth_part_def printable_eth_def)
qed

lemma runs_arp_part:
  assumes "set q \<subseteq> {CHR '')''}"
  shows "\<exists>q'. set q' \<subseteq> {CHR '')''} \<and>
    runs TryParseArpHeader (q @ arp_part r @ ip_part i) r (q' @ ip_part i)"
proof (cases r)
  case None
  have "CHR ''A'' \<in> set ''ns3::ArpHeader''" "CHR ''A'' \<notin> set (q @ ip_part i)"
    using part_letters assms by auto
  from runs_misses_header[OF trim_parts(1)[OF assms] this] show ?thesis
    using None assms by (intro exI[of _ q]) (simp add: TryParseArpHeader_def arp_part_def)
next
  case (Some h)
  then show ?thesis
    using runs_arp[OF assms part_letters(1)[of i], of h]
    by (intro exI[of _ "'')''"]) (simp add: arp_part_def)
qed

lemma runs_ip_part:
  assumes "set q \<subseteq> {CHR '')''}" and "printable_ip i"
  shows "\<exists>u. runs TryParseIpHeader (q @ ip_part i) i u"
proof (cases i)
  case None
  have "CHR ''I'' \<in> set ''Ipv4Header''" "CHR ''I'' \<notin> set q" using assms(1) by auto
  from runs_misses_header[OF trim_none(2)[OF assms(1)] this] show ?thesis
    using None by (auto simp: TryParseIpHeader_def ip_part_def)
next
  case (Some h)
  then show ?thesis
    using runs_ip_header[OF assms(1), of h "[]"] assms(2) by (auto simp: ip_part_def printable_ip_def)
qed

section \<open>Network events\<close>

definition printable_network :: "NetworkEvent \<Rightarrow> bool" where
  "printable_network n =
     (0 \<le> sint (net_node n) \<and> 0 \<le> sint (net_device n) \<and> net_packet_uid n \<noteq> u64_max \<and>
      net_payload_size n \<noteq> u64_max \<and> printable_eth (net_ethernet_header n) \<and>
      printable_ip (net_ip_header n))"

definition network_text :: "NetworkEvent \<Rightarrow> string" where
  "network_text n =
     '', node='' @ show_int (sint (net_node n)) @ '', device='' @ show_int (sint (net_device n)) @
     '', device_name='' @ NetworkDeviceType_show (net_device_type n) @
     '', '' @ ''packet-uid='' @ show_dec (unat (net_packet_uid n)) @
     '', '' @ ''interesting='' @ BoolToString (net_interesting_flag n) @
     '', payload_size='' @ show_dec (unat (net_payload_size n)) @
     '', boundary_type='' @ EventBoundaryType_show (net_boundary_type n) @
     eth_part (net_ethernet_header n) @ arp_part (net_arp_header n) @ ip_part (net_ip_header n)"

lemma network_members:
  assumes "e = NetworkEnqueue b n \<or> e = NetworkDequeue b n \<or> e = NetworkDrop b n"
  shows "text_of False (members e) = network_text n"
  using assms
  by (auto simp: members_def Event_Display_def NetworkEvent_Display_def network_text_def
      to_string_int_def to_string_def eth_part_def arp_part_def ip_part_def header_texts(2,4)
      split: option.splits)

lemma show_types:
  "device_type_of (NetworkDeviceType_show d) = Some d" "boundary_type_of (EventBoundaryType_show bt) = Some bt"
  "\<forall>c \<in> set (NetworkDeviceType_show d). device_name_pre c" "NetworkDeviceType_show d \<noteq> []"
  "\<forall>c \<in> set (EventBoundaryType_show bt). is_alnum c" "EventBoundaryType_show bt \<noteq> []"
  by (cases d; cases bt; simp add: device_type_of_def boundary_type_of_def device_name_pre_def
      is_alnum_def isalnum_def isalpha_def isdigit_def code_def)+

lemma parts_start:
  "eth_part e @ arp_part r @ ip_part i = [] \<or> \<not> is_alnum (hd (eth_part e @ arp_part r @ ip_part i))"
  by (auto simp: eth_part_def arp_part_def ip_part_def is_alnum_def split: option.splits)

lemma runs_typed:
  "runs (lh_bind (lh_option (device_type_of (NetworkDeviceType_show d))) f) s r u = runs (f d) s r u"
  "runs (lh_bind (lh_option (boundary_type_of (EventBoundaryType_show bt))) g) s r u = runs (g bt) s r u"
  by (simp_all add: show_types runs_def lh_bind_def lh_option_def)

lemma runs_headers:
  assumes "printable_eth e" and "printable_ip i"
  shows "\<exists>u. runs (lh_step TrimL (lh_optional TryParseEthernetHeader (\<lambda>eth_h.
      lh_step TrimL (lh_optional TryParseArpHeader (\<lambda>arp_h.
      lh_step TrimL (lh_optional TryParseIpHeader (\<lambda>ip_h. lh_option (f eth_h arp_h ip_h))))))))
    (eth_part e @ arp_part r @ ip_part i) (f e r i) u"
proof -
  obtain qa where a: "set qa \<subseteq> {CHR '')''}"
    "runs TryParseEthernetHeader (eth_part e @ arp_part r @ ip_part i) e (qa @ arp_part r @ ip_part i)"
    using runs_eth_part[OF assms(1)] by blast
  obtain qb where b: "set qb \<subseteq> {CHR '')''}"
    "runs TryParseArpHeader (qa @ arp_part r @ ip_part i) r (qb @ ip_part i)"
    using runs_arp_part[OF a(1)] by blast
  obtain u where u: "runs TryParseIpHeader (qb @ ip_part i) i u"
    using runs_ip_part[OF b(1) assms(2)] by blast
  show ?thesis
    by (rule exI, rule runs_trim[OF trim_parts(3)[OF a(1)]], rule runs_optional[OF a(2)],
        rule runs_trim[OF trim_parts(2)[OF a(1)]], rule runs_optional[OF b(2)],
        rule runs_trim[OF trim_parts(1)[OF b(1)]], rule runs_optional[OF u], rule runs_option)
qed

lemma runs_network:
  assumes "printable_network n" and "network_event_of ty b n = Some e"
  shows "\<exists>u. runs (ParseNetworkEvent ty b) (network_text n) (Some e) u"
proof -
  let ?mk = "\<lambda>node device dt uid int pay bt eth_h arp_h ip_h. network_event_of ty b
      \<lparr>net_node = node, net_device = device, net_device_type = dt, net_packet_uid = uid,
       net_interesting_flag = int, net_payload_size = pay, net_boundary_type = bt,
       net_ethernet_header = eth_h, net_arp_header = arp_h, net_ip_header = ip_h\<rparr>"
  have ok: "0 \<le> sint (net_node n)" "0 \<le> sint (net_device n)" "net_packet_uid n \<noteq> u64_max"
    "net_payload_size n \<noteq> u64_max" "printable_eth (net_ethernet_header n)" "printable_ip (net_ip_header n)"
    using assms(1) by (simp_all add: printable_network_def)
  have e: "?mk (net_node n) (net_device n) (net_device_type n) (net_packet_uid n)
      (net_interesting_flag n) (net_payload_size n) (net_boundary_type n)
      (net_ethernet_header n) (net_arp_header n) (net_ip_header n) = Some e"
    using assms(2) by (cases n) simp
  obtain u where u: "runs (lh_step TrimL (lh_optional TryParseEthernetHeader (\<lambda>eth_h.
      lh_step TrimL (lh_optional TryParseArpHeader (\<lambda>arp_h.
      lh_step TrimL (lh_optional TryParseIpHeader (\<lambda>ip_h. lh_option
        (?mk (net_node n) (net_device n) (net_device_type n) (net_packet_uid n)
      (net_interesting_flag n) (net_payload_size n) (net_boundary_type n) eth_h arp_h ip_h))))))))
    (eth_part (net_ethernet_header n) @ arp_part (net_arp_header n) @ ip_part (net_ip_header n)) (Some e) u"
    using runs_headers[OF ok(5,6), where r = "net_arp_header n" and
        f = "?mk (net_node n) (net_device n) (net_device_type n) (net_packet_uid n)
          (net_interesting_flag n) (net_payload_size n) (net_boundary_type n)"] unfolding e by blast
  show ?thesis
    unfolding ParseNetworkEvent_def network_text_def
    by (rule exI, rule runs_field[OF _ runs_int[OF ok(1)]], simp, simp,
        rule runs_field[OF _ runs_int[OF ok(2)]], simp, simp,
        rule runs_field[OF _ runs_word[OF show_types(3,4)]], simp, simp,
        rule runs_till_field[OF _ _ runs_dec[OF ok(3)]], simp, simp, simp,
        rule runs_till_field[OF _ _ runs_bool], simp, simp,
        rule runs_field[OF _ runs_dec[OF ok(4)]], simp, simp,
        rule runs_field[OF _ runs_word[OF show_types(5,6) parts_start]], simp,
        unfold runs_typed, rule u)
qed

section \<open>The round trip\<close>

fun printable :: "event \<Rightarrow> bool" where
  "printable (NetworkEnqueue b n) = (printable_base b \<and> printable_network n)"
| "printable (NetworkDequeue b n) = (printable_base b \<and> printable_network n)"
| "printable (NetworkDrop b n) = (printable_base b \<and> printable_network n)"
| "printable e = (printable_base (ev_base_of e) \<and> printable_members e)"

lemma body_printable:
  assumes "printable e"
  shows "\<exists>h'. ParseEventBody (GetName e) (ev_base_of e)
           (line pre (text_of False (members e)) post) = Inr (read_back e, h')"
proof -
  have net: ?thesis if n: "e = NetworkEnqueue b n \<or> e = NetworkDequeue b n \<or> e = NetworkDrop b n" for b n
  proof -
    obtain ty where ty: "ParseEventBody (GetName e) (ev_base_of e) = ParseNetworkEvent ty b"
      "network_event_of ty b n = Some e"
      using n by (auto simp: branches)
    have "printable_network n" using n assms by auto
    from runs_network[OF this ty(2)] obtain u where "runs (ParseNetworkEvent ty b) (network_text n) (Some e) u"
      by blast
    moreover have "read_back e = Some e" using n by auto
    ultimately show ?thesis unfolding network_members[OF n] ty(1) by (metis runsE)
  qed
  show ?thesis
  proof (cases "\<exists>b n. e = NetworkEnqueue b n \<or> e = NetworkDequeue b n \<or> e = NetworkDrop b n")
    case True
    then show ?thesis using net by blast
  next
    case False
    then have "printable_members e" using assms by (cases e) auto
    then show ?thesis by (rule body_roundtrip)
  qed
qed

lemma ParseStreamEvent_reads:
  assumes "printable_base b" and "ev_base_of e = b" and "rest = [] \<or> \<not> isdigit (hd rest)"
  shows "\<exists>pre' st'. ParseStreamEvent (line pre (text_of False (Event_Display e) @ rest) post) st =
           rbind (ParseEventBody (GetName e) b (line pre' rest post))
             (\<lambda>(r, h'). Inr (r, h', internalize_call r st'))"
proof -
  let ?tail = "'': source_id='' @ show_dec (unat (ev_parser_identifier b)) @ '', source_name='' @
    ev_parser_name b @ '', timestamp='' @ show_dec (unat (ev_timestamp b)) @ rest"
  have tx: "text_of False (Event_Display e) @ rest = GetName e @ ?tail"
    using assms(2) by (simp add: Event_Display_text GetTs_def GetParserIdent_def GetParserName_def)
  have nm: "takeWhile (\<lambda>c. c \<noteq> CHR '':'') (GetName e @ ?tail) = GetName e"
    "dropWhile (\<lambda>c. c \<noteq> CHR '':'') (GetName e @ ?tail) = ?tail"
    using GetName_chars[of e ?tail] by (simp_all add: takeWhile_append_stop)
  obtain singleton sta where st: "Internalize (ev_parser_name b) st = (singleton, sta)"
    "deref sta singleton = Some (ev_parser_name b)"
    using deref_Internalize[of "ev_parser_name b" st] by (cases "Internalize (ev_parser_name b) st") auto
  have b: "\<lparr>ev_timestamp = ev_timestamp b, ev_parser_identifier = ev_parser_identifier b,
      ev_parser_name = ev_parser_name b\<rparr> = b" by simp
  show ?thesis
    using GetName_chars[of e ?tail] st
    unfolding ParseStreamEvent_def tx TrimL_line
    by (simp only: rbind_Inr ExtractAndSubstrUntil_line nm append_Nil2 prod.case if_False
        ParseIdentNameTs_hit[OF assms(1,3)] option.case or_undefined_simps b simp_thms) blast
qed

lemma members_start: "text_of False (members e) = [] \<or> \<not> isdigit (hd (text_of False (members e)))"
proof (cases "\<exists>b n. e = NetworkEnqueue b n \<or> e = NetworkDequeue b n \<or> e = NetworkDrop b n")
  case True
  then show ?thesis using network_members by (auto simp: network_text_def)
next
  case False
  then show ?thesis by (cases e) (simp_all add: members_simps members_id_addr_size)
qed

lemma ParseStreamEvent_printed:
  assumes "printable_base (ev_base_of e)"
  shows "\<exists>pre' st'. ParseStreamEvent (line pre (ValueToString (Display e)) post) st =
           rbind (ParseEventBody (GetName e) (ev_base_of e) (line pre' (text_of False (members e)) post))
             (\<lambda>(r, h'). Inr (r, h', internalize_call r st'))"
proof -
  have tx: "ValueToString (Display e) = text_of False (Event_Display e) @ text_of False (members e)"
    by (simp add: ValueToString_text Display_split Event_Display_text(2))
  show ?thesis
    using ParseStreamEvent_reads[OF assms refl members_start] unfolding tx .
qed

text \<open>
  C9. What the stream parser makes of a printed event: the text that \<open>Display\<close> writes on a
  fresh stream (no base set by an earlier event) is parsed to \<open>read_back e\<close>, whatever the
  buffer holds around the line and whatever has been internalized before; and that is the
  event itself exactly if the members that are printed in one base and read in the other have
  a single digit (the BAR number of an MMIO access, the bytes of a configuration access, the
  size of a PCI access, the length of a sent packet). It covers every event class, network
  events with all their headers included; a received packet only survives with length and
  port 0. A printable event has no member that is the largest 64-bit value, names of the
  characters the parser expects, and nonnegative network node and device numbers.
\<close>

theorem ParseStreamEvent_roundtrip:
  assumes "printable e"
  shows "(\<exists>h' st'. ParseStreamEvent (line pre (ValueToString (Display e)) post) st =
            Inr (read_back e, h', st')) \<and>
         (read_back e = Some e \<longleftrightarrow> single_digits e)"
proof -
  have base: "printable_base (ev_base_of e)" using assms by (cases e) auto
  obtain pre' st' where "ParseStreamEvent (line pre (ValueToString (Display e)) post) st =
      rbind (ParseEventBody (GetName e) (ev_base_of e) (line pre' (text_of False (members e)) post))
        (\<lambda>(r, h'). Inr (r, h', internalize_call r st'))"
    using ParseStreamEvent_printed[OF base] by blast
  then show ?thesis using body_printable[OF assms, of pre' post] read_back_same by auto
qed

definition example_enqueue :: event where
  "example_enqueue = NetworkEnqueue
     \<lparr>ev_timestamp = 1905164778000, ev_parser_identifier = 2, ev_parser_name = ''NS3Parser-test''\<rparr>
     \<lparr>net_node = 0, net_device = 2, net_device_type = kSimpleNetDevice, net_packet_uid = 7,
      net_interesting_flag = True, net_payload_size = 42, net_boundary_type = kWithinSimulator,
      net_ethernet_header = Some \<lparr>eth_length_type = 0x806,
        eth_src_mac = \<lparr>mac_addr = [0, 0x90, 0, 0, 0, 1]\<rparr>,
        eth_dst_mac = \<lparr>mac_addr = [0xff, 0xff, 0xff, 0xff, 0xff, 0xff]\<rparr>\<rparr>,
      net_arp_header = Some \<lparr>arp_src_ip = \<lparr>ipv4_ip = 0xC0A83866\<rparr>,
        arp_dst_ip = \<lparr>ipv4_ip = 0xC0A83865\<rparr>, arp_is_request = True\<rparr>,
      net_ip_header = None\<rparr>"

definition example_tx :: "u64 \<Rightarrow> event" where
  "example_tx len =
     NicTx \<lparr>ev_timestamp = 1, ev_parser_identifier = 2, ev_parser_name = ''nic''\<rparr> len"

text \<open>A network event with its headers comes back; a packet of 64 bytes comes back as one of 0x64.\<close>

theorem ParseStreamEvent_roundtrip_witness:
  "(\<exists>h' st'. ParseStreamEvent (line [] (ValueToString (Display example_enqueue)) [])
      StringInternalizer_empty = Inr (Some example_enqueue, h', st')) \<and>
   (\<exists>h' st'. ParseStreamEvent (line [] (ValueToString (Display (example_tx 64))) [])
      StringInternalizer_empty = Inr (Some (example_tx 100), h', st'))"
proof
  note chars = printable_base_def kSourceNamePred_def is_alnum_def isalnum_def isdigit_def isalpha_def code_def
  have "printable example_enqueue" "single_digits example_enqueue"
    by (simp_all add: example_enqueue_def printable_network_def printable_eth_def printable_ip_def chars)
  then show "\<exists>h' st'. ParseStreamEvent (line [] (ValueToString (Display example_enqueue)) [])
      StringInternalizer_empty = Inr (Some example_enqueue, h', st')"
    using ParseStreamEvent_roundtrip[of example_enqueue "[]" "[]" StringInternalizer_empty] by auto
  have "printable (example_tx 64)" "read_back (example_tx 64) = Some (example_tx 100)"
    by (simp_all add: example_tx_def as_hex.simps chars)
  then show "\<exists>h' st'. ParseStreamEvent (line [] (ValueToString (Display (example_tx 64))) [])
      StringInternalizer_empty = Inr (Some (example_tx 100), h', st')"
    using ParseStreamEvent_roundtrip[of "example_tx 64" "[]" "[]" StringInternalizer_empty] by auto
qed

text \<open>
  On a stream that has printed a hexadecimal member, the source id of the next event is
  printed in base 16 and read in base 10: source 16 comes back as source 10.
\<close>

theorem ParseStreamEvent_sticky_hex:
  "let b = \<lparr>ev_timestamp = 5, ev_parser_identifier = 16, ev_parser_name = ''gem5''\<rparr>;
       os = stream_out (Display (HostInstr b 0)) ostream_init in
   os_hex os \<and>
   (\<exists>h' st'. ParseStreamEvent (line [] (text_of (os_hex os) (Display (SimSendSync b))) [])
      StringInternalizer_empty =
    Inr (Some (SimSendSync (b\<lparr>ev_parser_identifier := 10\<rparr>)), h', st'))"
proof -
  define b where "b = \<lparr>ev_timestamp = 5, ev_parser_identifier = 16, ev_parser_name = ''gem5''\<rparr>"
  define c where "c = b\<lparr>ev_parser_identifier := 10\<rparr>"
  have os: "os_hex (stream_out (Display (HostInstr b 0)) ostream_init)"
    by (simp add: stream_out_text HostInstr_Display_def Event_Display_def)
  have "show_hex 16 = show_dec 10" by (simp add: show_hex_def show_dec_def show_base.simps)
  then have tx: "text_of True (Display (SimSendSync b)) = ValueToString (Display (SimSendSync c))"
    by (simp add: ValueToString_text Event_Display_def GetParserIdent_def GetTs_def GetParserName_def
        c_def b_def show_num_def)
  have pb: "printable_base c"
    by (simp add: printable_base_def c_def b_def kSourceNamePred_def is_alnum_def isalnum_def
        isdigit_def isalpha_def code_def)
  have br: "ParseEventBody ''SimSendSyncSimSendSync'' c = lh_return (SimSendSync c)"
    using branches[of "SimSendSync c" c] by simp
  have "\<exists>h' st'. ParseStreamEvent (line [] (ValueToString (Display (SimSendSync c))) [])
      StringInternalizer_empty = Inr (Some (SimSendSync c), h', st')"
    using ParseStreamEvent_printed[of "SimSendSync c" "[]" "[]" StringInternalizer_empty] pb
    unfolding ev_base_of.simps GetName.simps br lh_return_def rbind_Inr prod.case by blast
  then show ?thesis using os tx by (simp add: Let_def b_def[symmetric] c_def[symmetric])
qed

end
