(* ===== verification/ParserSafety.thy ===== *)
theory ParserSafety
  imports LineParsers LineProps
begin

text \<open>
  A calculus for what every parsing function keeps. On a line it is defined, its result
  depends only on the text from the cursor to the end of the line and not on the bytes of
  the buffer around it, it moves the cursor forward inside that text, and its values
  satisfy a predicate. One rule per method and combinator, collected in \<open>yields_intros\<close>.
\<close>

named_theorems yields_intros \<open>rules for parsing functions\<close>

text \<open>On the remaining text \<open>s\<close>, \<open>p\<close> returns \<open>r\<close> and consumes \<open>n\<close> characters.\<close>

definition consumes :: "(LineHandler \<Rightarrow> ('a \<times> LineHandler) res) \<Rightarrow> string \<Rightarrow> 'a \<Rightarrow> nat \<Rightarrow> bool" where
  "consumes p s r n =
     (\<forall>pre post. p (line pre s post) = Inr (r, line (pre @ take n s) (drop n s) post))"

definition yields :: "('a \<Rightarrow> bool) \<Rightarrow> 'a line_parser \<Rightarrow> bool" where
  "yields Q p = (\<forall>s. \<exists>r n. consumes p s r n \<and> (\<forall>x. r = Some x \<longrightarrow> Q x))"

definition tests :: "line_test \<Rightarrow> bool" where
  "tests p = (\<forall>s. \<exists>r n. consumes p s r n)"

lemma yieldsE:
  assumes "yields Q p"
  obtains r n where "consumes p s r n" "\<And>x. r = Some x \<Longrightarrow> Q x"
  using assms unfolding yields_def by blast

lemma consumes_line:
  assumes "\<And>pre post. p (line pre (u @ v) post) = Inr (r, line (pre @ u) v post)"
  shows "consumes p (u @ v) r (length u)"
  using assms by (simp add: consumes_def)

lemma consumes_none:
  assumes "\<And>pre post. p (line pre s post) = Inr (r, line pre s post)"
  shows "consumes p s r 0"
  using assms by (simp add: consumes_def)

lemma consumes_takeWhile:
  assumes "\<And>pre post. p (line pre s post) = Inr (r, line (pre @ takeWhile P s) (dropWhile P s) post)"
  shows "consumes p s r (length (takeWhile P s))"
  using consumes_line[of p "takeWhile P s" "dropWhile P s" r] assms by simp

lemma runs_none:
  "(\<And>pre post. p (line pre s post) = Inr (r, line pre s post)) \<Longrightarrow> \<exists>r n. consumes p s r n"
  by (blast intro: consumes_none)

lemma runs_takeWhile:
  assumes "\<And>pre post. p (line pre s post) = Inr (r, line (pre @ takeWhile P s) (dropWhile P s) post)"
  shows "\<exists>r n. consumes p s r n"
  using consumes_takeWhile[of p s r P, OF assms] by blast

lemma runs_split:
  assumes "s = u @ v" and "\<And>pre post. p (line pre s post) = Inr (r, line (pre @ u) v post)"
  shows "\<exists>r n. consumes p s r n"
  using consumes_line[of p u v r] assms by blast

text \<open>Sequencing: the text consumed adds up.\<close>

lemma consumes_seq:
  assumes "consumes p s r n" and "consumes (q r) (drop n s) r' m"
  shows "consumes (\<lambda>h. rbind (p h) (\<lambda>(x, h'). q x h')) s r' (n + m)"
  using assms by (simp add: consumes_def take_add drop_drop add.commute[of m])

lemma yields_seq:
  assumes "\<And>s. \<exists>r n. consumes p s r n \<and> R r" and "\<And>r. R r \<Longrightarrow> yields Q (q r)"
  shows "yields Q (\<lambda>h. rbind (p h) (\<lambda>(x, h'). q x h'))"
  unfolding yields_def
proof
  fix s
  obtain r n where r: "consumes p s r n" "R r" using assms(1) by blast
  obtain r' m where r': "consumes (q r) (drop n s) r' m" "\<And>x. r' = Some x \<Longrightarrow> Q x"
    using yieldsE[OF assms(2)[OF r(2)]] by blast
  show "\<exists>r n. consumes (\<lambda>h. rbind (p h) (\<lambda>(x, h'). q x h')) s r n \<and> (\<forall>x. r = Some x \<longrightarrow> Q x)"
    using consumes_seq[of p s r n q, OF r(1) r'(1)] r'(2) by blast
qed

section \<open>The combinators\<close>

lemma yields_const: "(\<And>x. r = Some x \<Longrightarrow> Q x) \<Longrightarrow> yields Q (\<lambda>h. Inr (r, h))"
  unfolding yields_def by (auto intro: consumes_none)

lemma yields_return [yields_intros]: "Q x \<Longrightarrow> yields Q (lh_return x)"
  unfolding lh_return_def by (rule yields_const) simp

lemma yields_fail [yields_intros]: "yields Q lh_fail"
  unfolding lh_fail_def by (rule yields_const) simp

lemma yields_if_then [yields_intros]: "yields Q p \<Longrightarrow> yields Q q \<Longrightarrow> yields Q (if b then p else q)"
  by simp

lemma yields_bind:
  assumes "yields R p" and "\<And>x. R x \<Longrightarrow> yields Q (f x)"
  shows "yields Q (lh_bind p f)"
proof -
  have "yields Q (case r of None \<Rightarrow> (\<lambda>h. Inr (None, h)) | Some x \<Rightarrow> f x)" if "\<forall>x. r = Some x \<longrightarrow> R x" for r
    using assms(2) that by (cases r) (auto intro: yields_const)
  from yields_seq[of p "\<lambda>r. \<forall>x. r = Some x \<longrightarrow> R x", OF _ this] assms(1)
  have "yields Q (\<lambda>h. rbind (p h) (\<lambda>(r, h').
      (case r of None \<Rightarrow> (\<lambda>h. Inr (None, h)) | Some x \<Rightarrow> f x) h'))"
    by (simp add: yields_def)
  moreover have "lh_bind p f = (\<lambda>h. rbind (p h) (\<lambda>(r, h').
      (case r of None \<Rightarrow> (\<lambda>h. Inr (None, h)) | Some x \<Rightarrow> f x) h'))"
    by (rule ext) (auto simp: lh_bind_def intro!: arg_cong[where f = "rbind _"] split: option.splits)
  ultimately show ?thesis by simp
qed

lemma yields_bind_any [yields_intros]:
  "yields (\<lambda>_. True) p \<Longrightarrow> (\<And>x. yields Q (f x)) \<Longrightarrow> yields Q (lh_bind p f)"
  by (rule yields_bind)

lemma yields_if [yields_intros]:
  assumes "tests p" and "yields Q f" and "yields Q g"
  shows "yields Q (lh_if p f g)"
proof -
  have "yields Q (\<lambda>h. rbind (p h) (\<lambda>(ok, h'). (if ok then f else g) h'))"
    by (rule yields_seq[of p "\<lambda>_. True"]) (use assms in \<open>auto simp: tests_def\<close>)
  moreover have "lh_if p f g = (\<lambda>h. rbind (p h) (\<lambda>(ok, h'). (if ok then f else g) h'))"
    by (rule ext) (simp add: lh_if_def if_distribR)
  ultimately show ?thesis by simp
qed

lemma yields_check [yields_intros]: "tests p \<Longrightarrow> yields Q f \<Longrightarrow> yields Q (lh_check p f)"
  unfolding lh_check_def by (intro yields_if yields_fail)

lemma yields_orelse [yields_intros]:
  assumes "yields Q p" and "yields Q q"
  shows "yields Q (lh_orelse p q)"
proof -
  have "yields Q (case r of None \<Rightarrow> q | Some x \<Rightarrow> (\<lambda>h. Inr (Some x, h)))" if "\<forall>x. r = Some x \<longrightarrow> Q x" for r
    using assms(2) that by (cases r) (auto intro: yields_const)
  from yields_seq[of p "\<lambda>r. \<forall>x. r = Some x \<longrightarrow> Q x", OF _ this] assms(1)
  have "yields Q (\<lambda>h. rbind (p h) (\<lambda>(r, h').
      (case r of None \<Rightarrow> q | Some x \<Rightarrow> (\<lambda>h. Inr (Some x, h))) h'))"
    by (simp add: yields_def)
  moreover have "lh_orelse p q = (\<lambda>h. rbind (p h) (\<lambda>(r, h').
      (case r of None \<Rightarrow> q | Some x \<Rightarrow> (\<lambda>h. Inr (Some x, h))) h'))"
    by (rule ext) (auto simp: lh_orelse_def intro!: arg_cong[where f = "rbind _"] split: option.splits)
  ultimately show ?thesis by simp
qed

lemma yields_optional [yields_intros]:
  assumes "yields (\<lambda>_. True) p" and "\<And>r. yields Q (f r)"
  shows "yields Q (lh_optional p f)"
  unfolding lh_optional_def
  by (rule yields_seq[of p "\<lambda>_. True"]) (use assms in \<open>auto simp: yields_def\<close>)

lemma yields_trim [yields_intros]:
  assumes "yields Q f"
  shows "yields Q (lh_step TrimL f)"
proof -
  have "\<exists>r n. consumes (\<lambda>h. rbind (TrimL h) (\<lambda>h'. Inr ((), h'))) s r n \<and> True" for s
    using consumes_takeWhile[of "\<lambda>h. rbind (TrimL h) (\<lambda>h'. Inr ((), h'))" s "()" is_space]
    by (auto simp: TrimL_line)
  from yields_seq[of "\<lambda>h. rbind (TrimL h) (\<lambda>h'. Inr ((), h'))" "\<lambda>_. True" Q "\<lambda>_. f", OF this] assms
  have "yields Q (\<lambda>h. rbind (rbind (TrimL h) (\<lambda>h'. Inr ((), h'))) (\<lambda>(x, h'). f h'))" by simp
  moreover have "rbind (rbind (TrimL h) (\<lambda>h'. Inr ((), h'))) (\<lambda>(x, h'). f h') = lh_step TrimL f h" for h
    by (cases "TrimL h") (simp_all add: lh_step_def)
  ultimately show ?thesis by simp
qed

lemma yields_map:
  assumes "\<And>s. \<exists>r n. consumes p s r n"
  shows "yields (\<lambda>_. True) (\<lambda>h. rbind (p h) (\<lambda>(x, h'). Inr (f x, h')))"
proof -
  have "\<exists>r n. consumes p s r n \<and> True" for s using assms[of s] by blast
  from yields_seq[of p "\<lambda>_. True" "\<lambda>_. True" "\<lambda>x h. Inr (f x, h)", OF this]
  show ?thesis by (simp add: yields_const)
qed

text \<open>The parsers return at once on an empty handler.\<close>

lemma yields_nonempty:
  assumes "yields Q p"
  shows "yields Q (\<lambda>h. if IsEmpty h then lh_fail h else p h)"
  unfolding yields_def
proof
  fix s
  obtain r n where r: "consumes p s r n" "\<And>x. r = Some x \<Longrightarrow> Q x" using yieldsE[OF assms] by blast
  have "consumes (\<lambda>h. if IsEmpty h then lh_fail h else p h) s (if s = [] then None else r) n"
    using r(1) by (auto simp: consumes_def lh_fail_def)
  then show "\<exists>r n. consumes (\<lambda>h. if IsEmpty h then lh_fail h else p h) s r n \<and> (\<forall>x. r = Some x \<longrightarrow> Q x)"
    using r(2) by (intro exI[of _ "if s = [] then None else r"] exI[of _ n]) auto
qed

section \<open>The methods of the line handler\<close>

lemma yields_methods [yields_intros]:
  "yields (\<lambda>_. True) (ParseUintTrim base)" "yields (\<lambda>_. True) ParseInt"
proof -
  have "\<exists>r n. consumes (ParseUintTrim base) s r n" for s
  proof (cases "base = 10 \<or> base = 16")
    case True
    show ?thesis
    proof (cases "takeWhile (num_pred base) s = [] \<or> strtoul base (takeWhile (num_pred base) s) = u64_max")
      case T: True
      show ?thesis by (rule runs_none[of _ _ None]) (use T in \<open>simp add: ParseUintTrim_line[OF True] Let_def\<close>)
    next
      case F: False
      show ?thesis by (rule runs_takeWhile) (use F in \<open>simp add: ParseUintTrim_line[OF True] Let_def\<close>)
    qed
  next
    case False
    show ?thesis by (rule runs_none[of _ _ None]) (use False in \<open>simp add: ParseUintTrim_def\<close>)
  qed
  then show "yields (\<lambda>_. True) (ParseUintTrim base)" by (simp add: yields_def)
  have "\<exists>r n. consumes ParseInt s r n" for s
  proof (cases "takeWhile is_num s = []")
    case True
    show ?thesis by (rule runs_none[of _ _ None]) (use True in \<open>simp add: ParseInt_line Let_def\<close>)
  next
    case False
    show ?thesis by (rule runs_takeWhile) (use False in \<open>simp add: ParseInt_line Let_def\<close>)
  qed
  then show "yields (\<lambda>_. True) ParseInt" by (simp add: yields_def)
qed

lemma tests_methods [yields_intros]:
  "tests (ConsumeAndTrimTillString p)" "tests (ConsumeAndTrimString p)" "tests (ConsumeAndTrimChar c)"
  "tests (SkipTill P)" "tests SkipTillWhitespace"
proof -
  have "\<exists>r n. consumes (ConsumeAndTrimTillString p) s r n" for s
  proof (cases "p = [] \<or> greedy_find p s = None")
    case True
    show ?thesis
      by (rule runs_none[of _ _ False]) (use True in \<open>auto simp: ConsumeAndTrimTillString_line\<close>)
  next
    case False
    then obtain r where r: "greedy_find p s = Some r" by auto
    obtain q where q: "s = q @ p @ r" using greedy_find_sound[OF r] by blast
    show ?thesis
      by (rule runs_split[of _ "q @ p" r]) (use False r q in \<open>simp_all add: ConsumeAndTrimTillString_line\<close>)
  qed
  then show "tests (ConsumeAndTrimTillString p)" by (simp add: tests_def)
  have "\<exists>r n. consumes (ConsumeAndTrimString p) s r n" for s
  proof (cases "s \<noteq> [] \<and> prefix p s")
    case True
    then obtain t where t: "s = p @ t" by (auto simp: prefix_def)
    show ?thesis
      by (rule runs_split[OF t]) (use True t in \<open>simp add: ConsumeAndTrimString_line\<close>)
  next
    case False
    show ?thesis
      by (rule runs_none[of _ _ False]) (use False in \<open>auto simp: ConsumeAndTrimString_line\<close>)
  qed
  then show "tests (ConsumeAndTrimString p)" by (simp add: tests_def)
  have "\<exists>r n. consumes (ConsumeAndTrimChar c) s r n" for s
  proof (cases "s \<noteq> [] \<and> hd s = c")
    case True
    then have t: "s = [c] @ tl s" by (cases s) auto
    show ?thesis
      by (rule runs_split[OF t]) (subst t, simp add: ConsumeAndTrimChar_line)
  next
    case False
    show ?thesis
      by (rule runs_none[of _ _ False])
         (use False in \<open>auto simp: ConsumeAndTrimChar_line split: list.splits\<close>)
  qed
  then show "tests (ConsumeAndTrimChar c)" by (simp add: tests_def)
  have skip: "\<exists>r n. consumes (SkipTill P) s r n" for s and P :: "char \<Rightarrow> bool"
  proof (cases "list_ex P s")
    case True
    show ?thesis by (rule runs_takeWhile) (use True in \<open>simp add: SkipTill_line\<close>)
  next
    case False
    show ?thesis by (rule runs_none[of _ _ False]) (use False in \<open>simp add: SkipTill_line\<close>)
  qed
  then show "tests (SkipTill P)" by (simp add: tests_def)
  show "tests SkipTillWhitespace"
    using skip[of is_space] by (simp add: tests_def SkipTillWhitespace_def consumes_def)
qed

lemma yields_extract [yields_intros]: "yields (\<lambda>_. True) (ExtractAndSubstrUntilInto P)"
  unfolding ExtractAndSubstrUntilInto_def
proof (rule yields_map)
  fix s
  show "\<exists>r n. consumes (ExtractAndSubstrUntil P) s r n"
    by (rule runs_takeWhile) (rule ExtractAndSubstrUntil_line)
qed

lemma yields_bools [yields_intros]:
  "yields (\<lambda>_. True) (ParseBoolFromUint base)" "yields (\<lambda>_. True) ParseBoolFromInt"
  "yields (\<lambda>_. True) ParseBoolFromStringRepr"
proof -
  show "yields (\<lambda>_. True) (ParseBoolFromUint base)" "yields (\<lambda>_. True) ParseBoolFromInt"
    unfolding ParseBoolFromUint_def ParseBoolFromInt_def
    by (rule yields_map; use yields_methods in \<open>auto simp: yields_def\<close>)+
  have eq: "ParseBoolFromStringRepr = lh_if (ConsumeAndTrimString ''true'') (lh_return True)
      (lh_if (ConsumeAndTrimString ''false'') (lh_return False) lh_fail)"
    by (rule ext) (simp add: ParseBoolFromStringRepr_def lh_if_def lh_return_def lh_fail_def
        if_distrib[where f = Inr] if_distrib[where f = "\<lambda>x. (x, _)"] cong: if_cong)
  show "yields (\<lambda>_. True) ParseBoolFromStringRepr"
    unfolding eq by (intro yields_intros TrueI)
qed

lemma yields_field [yields_intros]:
  "yields (\<lambda>_. True) p \<Longrightarrow> (\<And>x. yields Q (f x)) \<Longrightarrow> yields Q (field s p f)"
  "yields (\<lambda>_. True) p \<Longrightarrow> (\<And>x. yields Q (f x)) \<Longrightarrow> yields Q (till_field s p f)"
  unfolding field_def till_field_def by (intro yields_intros; assumption)+

section \<open>The shared parsing functions\<close>

lemma yields_shared [yields_intros]:
  "yields (\<lambda>_. True) ParseTimestamp" "yields (\<lambda>_. True) ParseAddress"
  unfolding ParseTimestamp_def ParseAddress_def by (intro yields_intros)+

lemma yields_octets: "yields (\<lambda>_. True) (mac_bytes n)" "yields (\<lambda>_. True) (ip_octets n)"
proof -
  show "yields (\<lambda>_. True) (mac_bytes n)"
  proof (induction n)
    case (Suc n)
    have "yields (\<lambda>_. True) (lh_bind (mac_bytes n) (\<lambda>bytes. lh_return (ucast byte # bytes)))" for byte :: u64
      by (rule yields_bind_any[OF Suc]) (intro yields_intros TrueI)
    then have "yields (\<lambda>_. True) ((if 0 < n then lh_check (ConsumeAndTrimChar CHR '':'') else id)
        (lh_bind (mac_bytes n) (\<lambda>bytes. lh_return (ucast byte # bytes))))" for byte :: u64
      by (cases "0 < n") (simp_all only: if_True if_False id_apply yields_check tests_methods not_gr_zero less_irrefl)
    then show ?case unfolding mac_bytes.simps by (rule yields_bind_any[OF yields_methods(1)])
  qed (simp add: yields_return)
  show "yields (\<lambda>_. True) (ip_octets n)"
  proof (induction n)
    case (Suc n)
    have "yields (\<lambda>_. True) (lh_bind (ip_octets n) (\<lambda>octets. lh_return (oc # octets)))" for oc
      by (rule yields_bind_any[OF Suc]) (intro yields_intros TrueI)
    then have "yields (\<lambda>_. True) ((if 0 < n then lh_check (ConsumeAndTrimChar CHR ''.'') else id)
        (lh_bind (ip_octets n) (\<lambda>octets. lh_return (oc # octets))))" for oc
      by (cases "0 < n") (simp_all only: if_True if_False id_apply yields_check tests_methods not_gr_zero less_irrefl)
    then show ?case unfolding ip_octets.simps
      by (intro yields_bind_any[OF yields_methods(1)] yields_if_then yields_fail)
  qed (simp add: yields_return)
qed

lemma yields_addresses [yields_intros]:
  "yields (\<lambda>_. True) ParseMacAddress" "yields (\<lambda>_. True) ParseIpAddress"
  unfolding ParseMacAddress_def ParseIpAddress_def by (intro yields_intros yields_octets TrueI)+

lemma yields_headers [yields_intros]:
  "yields (\<lambda>_. True) TryParseEthernetHeader" "yields (\<lambda>_. True) TryParseArpHeader"
  "yields (\<lambda>_. True) TryParseIpHeader"
  unfolding TryParseEthernetHeader_def TryParseArpHeader_def TryParseIpHeader_def
  by (intro yields_intros TrueI)+

text \<open>The event a parser makes carries the parser's identifier and name.\<close>

definition made_by :: "u64 \<Rightarrow> string \<Rightarrow> event \<Rightarrow> bool" where
  "made_by ident nm e = (GetParserIdent e = ident \<and> GetParserName e = nm)"

definition log_base :: "u64 \<Rightarrow> string \<Rightarrow> u64 \<Rightarrow> ev_base" where
  "log_base ident nm timestamp =
     \<lparr>ev_timestamp = timestamp, ev_parser_identifier = ident, ev_parser_name = nm\<rparr>"

lemma made_by_base [simp]:
  "ev_base_of e = log_base ident nm ts \<Longrightarrow> made_by ident nm e"
  by (simp add: made_by_def GetParserIdent_def GetParserName_def log_base_def)

end
