(* ===== verification/Reader.thy ===== *)
theory Reader
  imports LineHandler
begin

text \<open>
  \<open>ReaderBuffer\<close> (include/reader/cReader.h), which cuts the bytes it reads from a file or a
  named pipe into lines. The file is the list of the chunks that successive calls of
  \<open>read\<close> find; a call takes at most the number of bytes asked for, and an exhausted list is
  the end of the file. Whatever the chunks are, the buffer hands out the non-empty lines of
  their concatenation.
\<close>

section \<open>State\<close>

text \<open>
  \<open>rb_buffer\<close> is the used part of \<open>buffer_\<close>, so \<open>size_\<close> is its length; \<open>rb_feof\<close> is the
  end-of-file indicator of the \<open>FILE\<close>, which only the stdio functions set, and the buffer
  reads with \<open>read\<close>.
\<close>

record ReaderBuffer =
  rb_buffer :: string
  rb_cur_reading_pos :: nat
  rb_next_line_end :: nat
  rb_reached_eof :: nat
  rb_feof :: bool
  rb_input :: "string list"

abbreviation kLineEnd :: char where
  "kLineEnd \<equiv> CHR 0x0A"

definition OpenFile :: "string list \<Rightarrow> ReaderBuffer" where
  "OpenFile chunks =
     \<lparr>rb_buffer = [], rb_cur_reading_pos = 0, rb_next_line_end = 0, rb_reached_eof = 0,
      rb_feof = False, rb_input = chunks\<rparr>"

text \<open>The system call: what it returns and what is left.\<close>

fun read_fd :: "nat \<Rightarrow> string list \<Rightarrow> string \<times> string list" where
  "read_fd amount [] = ([], [])"
| "read_fd amount (c # cs) =
     (if length c \<le> amount then (c, cs) else (take amount c, drop amount c # cs))"

section \<open>Operations\<close>

text \<open>\<open>None\<close> is the result -1. A line end at the reading position is skipped.\<close>

function FindLineEnd :: "nat \<Rightarrow> nat \<Rightarrow> ReaderBuffer \<Rightarrow> nat option \<times> ReaderBuffer" where
  "FindLineEnd start stop b =
     (if start < stop then
        (if rb_buffer b ! start = kLineEnd then
           (if start = rb_cur_reading_pos b
            then FindLineEnd (start + 1) stop
                   (b\<lparr>rb_cur_reading_pos := rb_cur_reading_pos b + 1\<rparr>)
            else (Some start, b))
         else FindLineEnd (start + 1) stop b)
      else (None, b))"
  by pat_completeness auto
termination by (relation "measure (\<lambda>(start, stop, b). stop - start)") auto

declare FindLineEnd.simps [simp del]

function fill_block :: "nat \<Rightarrow> ReaderBuffer \<Rightarrow> ReaderBuffer" where
  "fill_block amount b =
     (case read_fd amount (rb_input b) of
        (got, input) \<Rightarrow>
          (let b1 = b\<lparr>rb_buffer := rb_buffer b @ got, rb_input := input,
                      rb_cur_reading_pos := 0, rb_next_line_end := 0\<rparr> in
           case FindLineEnd 0 (length (rb_buffer b1)) b1 of
             (r, b2) \<Rightarrow>
               if r = None \<and> amount - length got > 0 \<and> length got > 0
               then fill_block (amount - length got) b2 else b2))"
  by pat_completeness auto
termination by (relation "measure fst") auto

declare fill_block.simps [simp del]

definition NextBlock :: "nat \<Rightarrow> bool \<Rightarrow> ReaderBuffer \<Rightarrow> ReaderBuffer res" where
  "NextBlock block_size good b =
     rbind (assert_that good ''IsStreamStillGood()'') (\<lambda>_.
       if rb_reached_eof b \<ge> 2 then Inr b
       else
         (let rest = drop (rb_cur_reading_pos b) (rb_buffer b);
              amount = block_size - length rest in
          rbind (assert_that (length rest \<le> block_size) ''size_ + amount_to_read <= BlockSize'') (\<lambda>_.
            Inr ((fill_block amount (b\<lparr>rb_buffer := rest\<rparr>))
                   \<lparr>rb_cur_reading_pos := 0, rb_next_line_end := 0\<rparr>))))"

definition CalculateNextLineEnd :: "ReaderBuffer \<Rightarrow> ReaderBuffer" where
  "CalculateNextLineEnd b =
     (if rb_next_line_end b > 0 then b
      else
        (case FindLineEnd (rb_cur_reading_pos b) (length (rb_buffer b)) b of
           (tmp, b1) \<Rightarrow>
             if (case tmp of None \<Rightarrow> False | Some t \<Rightarrow> t > 0)
             then b1\<lparr>rb_next_line_end := the tmp\<rparr>
             else if rb_feof b1
             then b1\<lparr>rb_next_line_end := length (rb_buffer b1), rb_reached_eof := rb_reached_eof b1 + 1\<rparr>
             else b1\<lparr>rb_next_line_end := 0\<rparr>))"

definition HasStillLineEnd :: "ReaderBuffer \<Rightarrow> bool \<times> ReaderBuffer" where
  "HasStillLineEnd b =
     (let b1 = CalculateNextLineEnd b in
      (rb_reached_eof b1 < 2 \<and> length (rb_buffer b1) > 0 \<and>
       rb_cur_reading_pos b1 < length (rb_buffer b1) \<and> rb_next_line_end b1 > 0 \<and>
       rb_cur_reading_pos b1 < rb_next_line_end b1, b1))"

text \<open>A search that has left the reading position behind.\<close>

lemma FindLineEnd_past:
  assumes "rb_cur_reading_pos b < start" and "drop start (rb_buffer b) = t"
  shows "FindLineEnd start (length (rb_buffer b)) b =
    (if kLineEnd \<in> set t then Some (start + length (takeWhile (\<lambda>c. c \<noteq> kLineEnd) t)) else None, b)"
  using assms
proof (induction t arbitrary: start)
  case Nil
  then show ?case by (subst FindLineEnd.simps) simp
next
  case (Cons c t)
  then have c: "start < length (rb_buffer b)" "rb_buffer b ! start = c" "drop (Suc start) (rb_buffer b) = t"
    by (metis drop_all leI list.distinct(1), metis Cons.prems(2) hd_drop_conv_nth drop_all leI list.distinct(1) list.sel(1),
        metis Cons.prems(2) drop_Suc tl_drop list.sel(3))
  show ?case
    using Cons.IH[of "Suc start"] Cons.prems(1) c by (subst FindLineEnd.simps) simp
qed

text \<open>A search from the reading position skips the line ends there.\<close>

lemma FindLineEnd_here:
  assumes "drop (rb_cur_reading_pos b) (rb_buffer b) = t" and "rb_cur_reading_pos b = start"
  shows "FindLineEnd start (length (rb_buffer b)) b =
    (let k = length (takeWhile (\<lambda>c. c = kLineEnd) t); u = dropWhile (\<lambda>c. c = kLineEnd) t in
     (if kLineEnd \<in> set u then Some (start + k + length (takeWhile (\<lambda>c. c \<noteq> kLineEnd) u)) else None,
      b\<lparr>rb_cur_reading_pos := start + k\<rparr>))"
  using assms
proof (induction t arbitrary: b start)
  case Nil
  then show ?case by (subst FindLineEnd.simps) (simp add: Let_def)
next
  case (Cons c t)
  then have c: "start < length (rb_buffer b)" "rb_buffer b ! start = c" "drop (Suc start) (rb_buffer b) = t"
    by (metis drop_all leI list.distinct(1), metis Cons.prems hd_drop_conv_nth drop_all leI list.distinct(1) list.sel(1),
        metis Cons.prems drop_Suc tl_drop list.sel(3))
  show ?case
  proof (cases "c = kLineEnd")
    case True
    let ?b = "b\<lparr>rb_cur_reading_pos := Suc start\<rparr>"
    have "FindLineEnd start (length (rb_buffer b)) b = FindLineEnd (Suc start) (length (rb_buffer ?b)) ?b"
      using True c Cons.prems(2) by (subst FindLineEnd.simps) simp
    then show ?thesis using Cons.IH[of ?b "Suc start"] True c(3) by (simp add: Let_def)
  next
    case False
    have "FindLineEnd start (length (rb_buffer b)) b = FindLineEnd (Suc start) (length (rb_buffer b)) b"
      using False c by (subst FindLineEnd.simps) simp
    then show ?thesis
      using FindLineEnd_past[of b "Suc start" t] False c(3) Cons.prems(2) by (simp add: Let_def)
  qed
qed

section \<open>Lines of a text\<close>

definition is_nl :: "char \<Rightarrow> bool" where
  "is_nl c = (c = kLineEnd)"

definition blanks :: "string \<Rightarrow> string" where
  "blanks t = takeWhile is_nl t"

definition unblank :: "string \<Rightarrow> string" where
  "unblank t = dropWhile is_nl t"

text \<open>The first non-empty line that is terminated, and the text behind its terminator.\<close>

definition next_line :: "string \<Rightarrow> (string \<times> string) option" where
  "next_line t =
     (if kLineEnd \<in> set (unblank t)
      then Some (takeWhile (\<lambda>c. \<not> is_nl c) (unblank t), tl (dropWhile (\<lambda>c. \<not> is_nl c) (unblank t)))
      else None)"

lemma next_line_SomeD:
  assumes "next_line t = Some (l, r)"
  shows "unblank t = l @ kLineEnd # r" and "kLineEnd \<notin> set l" and "l \<noteq> []"
proof -
  let ?u = "unblank t"
  have nl: "kLineEnd \<in> set ?u" and l: "l = takeWhile (\<lambda>c. \<not> is_nl c) ?u"
    and r: "r = tl (dropWhile (\<lambda>c. \<not> is_nl c) ?u)"
    using assms by (auto simp: next_line_def split: if_splits)
  then obtain y ys where d: "dropWhile (\<lambda>c. \<not> is_nl c) ?u = y # ys"
    by (cases "dropWhile (\<lambda>c. \<not> is_nl c) ?u") (auto simp: is_nl_def)
  then have "is_nl y" using dropWhile_eq_Cons_conv[of "\<lambda>c. \<not> is_nl c" ?u y ys] by simp
  then show u: "unblank t = l @ kLineEnd # r"
    by (metis d l r is_nl_def list.sel(3) takeWhile_dropWhile_id)
  show "kLineEnd \<notin> set l" using set_takeWhileD[of kLineEnd "\<lambda>c. \<not> is_nl c" ?u] l by (auto simp: is_nl_def)
  show "l \<noteq> []"
  proof
    assume "l = []"
    then have "unblank t = kLineEnd # r" using u by simp
    then show False using hd_dropWhile[of is_nl t] by (auto simp: unblank_def is_nl_def)
  qed
qed

lemma next_line_intro:
  assumes "unblank t = l @ kLineEnd # r" and "kLineEnd \<notin> set l"
  shows "next_line t = Some (l, r)"
proof -
  have "takeWhile (\<lambda>c. \<not> is_nl c) (l @ kLineEnd # r) = l"
    "dropWhile (\<lambda>c. \<not> is_nl c) (l @ kLineEnd # r) = kLineEnd # r"
    using assms(2) by (auto simp: is_nl_def intro!: takeWhile_append_stop)
  then show ?thesis using assms(1) by (simp add: next_line_def)
qed

lemma next_line_append: "next_line t = Some (l, r) \<Longrightarrow> next_line (t @ s) = Some (l, r @ s)"
proof -
  assume a: "next_line t = Some (l, r)"
  note u = next_line_SomeD[OF a]
  have "\<exists>x \<in> set t. \<not> is_nl x"
    using u(1) by (metis unblank_def Nil_is_append_conv dropWhile_eq_Nil_conv list.distinct(1))
  then have "unblank (t @ s) = unblank t @ s"
    unfolding unblank_def by (auto simp: dropWhile_append1)
  then show ?thesis using u by (intro next_line_intro) simp_all
qed

lemma next_line_unblank: "next_line (unblank t) = next_line t" "next_line (unblank t @ s) = next_line (t @ s)"
proof -
  have "unblank (unblank t @ s) = unblank (t @ s)"
  proof (cases "\<exists>x \<in> set t. \<not> is_nl x")
    case True
    then have "unblank t \<noteq> []" by (simp add: unblank_def)
    then have "unblank (unblank t @ s) = unblank t @ s"
      unfolding unblank_def by (metis append_is_Nil_conv dropWhile_append3 hd_dropWhile dropWhile_eq_self_iff hd_append2)
    then show ?thesis using True by (auto simp: unblank_def dropWhile_append1)
  next
    case False
    then have t: "dropWhile is_nl t = []" "\<And>x. x \<in> set t \<Longrightarrow> is_nl x" by auto
    have "dropWhile is_nl (t @ s) = dropWhile is_nl s" by (rule dropWhile_append2[OF t(2)])
    then show ?thesis unfolding unblank_def t(1) by simp
  qed
  then show "next_line (unblank t @ s) = next_line (t @ s)" by (simp add: next_line_def)
  from this show "next_line (unblank t) = next_line t" by (simp add: next_line_def unblank_def)
qed

section \<open>What the searches find\<close>

lemma FindLineEnd_line:
  assumes "rb_cur_reading_pos b = start"
  shows "FindLineEnd start (length (rb_buffer b)) b =
    (case next_line (drop start (rb_buffer b)) of
       None \<Rightarrow> None
     | Some (l, r) \<Rightarrow> Some (start + length (blanks (drop start (rb_buffer b))) + length l),
     b\<lparr>rb_cur_reading_pos := start + length (blanks (drop start (rb_buffer b)))\<rparr>)"
  using FindLineEnd_here[OF _ assms, of "drop start (rb_buffer b)"] assms
  by (auto simp: next_line_def unblank_def blanks_def is_nl_def[abs_def] Let_def)

lemma blanks_unblank: "blanks t @ unblank t = t" "blanks (unblank t) = []"
  by (simp_all add: blanks_def unblank_def is_nl_def) (metis (mono_tags) dropWhile_idem takeWhile_eq_Nil_iff hd_dropWhile)

definition reader_inv :: "nat \<Rightarrow> ReaderBuffer \<Rightarrow> bool" where
  "reader_inv block_size b =
     (rb_cur_reading_pos b \<le> length (rb_buffer b) \<and> length (rb_buffer b) \<le> block_size \<and>
      rb_reached_eof b = 0 \<and> \<not> rb_feof b \<and> rb_next_line_end b = 0 \<and> [] \<notin> set (rb_input b))"

text \<open>The bytes the buffer and the file still hold.\<close>

definition pending :: "ReaderBuffer \<Rightarrow> string" where
  "pending b = drop (rb_cur_reading_pos b) (rb_buffer b) @ concat (rb_input b)"

text \<open>The buffer with the reading position behind the line ends it points at.\<close>

definition unblanked :: "ReaderBuffer \<Rightarrow> ReaderBuffer" where
  "unblanked b = b\<lparr>rb_cur_reading_pos :=
     rb_cur_reading_pos b + length (blanks (drop (rb_cur_reading_pos b) (rb_buffer b)))\<rparr>"

lemma unblanked_drop:
  "drop (rb_cur_reading_pos (unblanked b)) (rb_buffer (unblanked b)) =
     unblank (drop (rb_cur_reading_pos b) (rb_buffer b))"
proof -
  let ?t = "drop (rb_cur_reading_pos b) (rb_buffer b)"
  have "drop (length (blanks ?t)) (blanks ?t @ unblank ?t) = unblank ?t" by simp
  then show ?thesis unfolding blanks_unblank(1) by (simp add: unblanked_def add.commute)
qed

lemma HasStillLineEnd_line:
  assumes "rb_reached_eof b = 0" and "\<not> rb_feof b" and "rb_next_line_end b = 0"
    and "rb_cur_reading_pos b \<le> length (rb_buffer b)"
  shows "HasStillLineEnd b =
    (case next_line (drop (rb_cur_reading_pos b) (rb_buffer b)) of
       None \<Rightarrow> (False, unblanked b)
     | Some (l, r) \<Rightarrow> (True, (unblanked b)\<lparr>rb_next_line_end := rb_cur_reading_pos (unblanked b) + length l\<rparr>))"
proof (cases "next_line (drop (rb_cur_reading_pos b) (rb_buffer b))")
  case None
  then show ?thesis
    using assms FindLineEnd_line[OF refl, of b]
    by (simp add: HasStillLineEnd_def CalculateNextLineEnd_def unblanked_def Let_def)
next
  case (Some lr)
  obtain l r where lr: "lr = (l, r)" by (cases lr)
  note u = next_line_SomeD[OF Some[unfolded lr]]
  have "rb_cur_reading_pos (unblanked b) + length l < length (rb_buffer b)"
  proof -
    have "length (drop (rb_cur_reading_pos (unblanked b)) (rb_buffer (unblanked b))) = length (l @ kLineEnd # r)"
      by (simp only: unblanked_drop u(1))
    then show ?thesis by (simp add: unblanked_def)
  qed
  then show ?thesis
    using assms FindLineEnd_line[OF refl, of b] Some lr u(3)
    by (auto simp: HasStillLineEnd_def CalculateNextLineEnd_def unblanked_def Let_def)
qed

section \<open>\<open>HasStillLine\<close> and \<open>NextHandler\<close>\<close>

lemma HasStillLineEnd_pos:
  "rb_cur_reading_pos b \<le> rb_cur_reading_pos (snd (HasStillLineEnd b)) \<and>
   rb_buffer (snd (HasStillLineEnd b)) = rb_buffer b"
  using FindLineEnd_line[OF refl, of b]
  by (auto simp: HasStillLineEnd_def CalculateNextLineEnd_def Let_def split: prod.splits)

function skip_line_ends :: "ReaderBuffer \<Rightarrow> bool \<times> ReaderBuffer" where
  "skip_line_ends b =
     (if rb_cur_reading_pos b < length (rb_buffer b) \<and> rb_buffer b ! rb_cur_reading_pos b = kLineEnd
      then
        (case HasStillLineEnd (b\<lparr>rb_cur_reading_pos := rb_cur_reading_pos b + 1\<rparr>) of
           (ok, b1) \<Rightarrow> if ok then (True, b1) else skip_line_ends b1)
      else (False, b))"
  by pat_completeness auto
termination
proof (relation "measure (\<lambda>b. length (rb_buffer b) - rb_cur_reading_pos b)", goal_cases)
  case (2 b r b1)
  then have "b1 = snd (HasStillLineEnd (b\<lparr>rb_cur_reading_pos := rb_cur_reading_pos b + 1\<rparr>))"
    by (metis snd_conv)
  then show ?case
    using 2(1) HasStillLineEnd_pos[of "b\<lparr>rb_cur_reading_pos := rb_cur_reading_pos b + 1\<rparr>"] by (simp, linarith)
qed simp

declare skip_line_ends.simps [simp del]

definition HasStillLine :: "nat \<Rightarrow> bool \<Rightarrow> ReaderBuffer \<Rightarrow> (bool \<times> ReaderBuffer) res" where
  "HasStillLine block_size good b =
     (case skip_line_ends b of
        (True, b1) \<Rightarrow> Inr (True, b1)
      | (False, b1) \<Rightarrow>
          (case HasStillLineEnd b1 of
             (True, b2) \<Rightarrow> Inr (True, b2)
           | (False, b2) \<Rightarrow>
               if \<not> good then Inr (False, b2)
               else rbind (NextBlock block_size good b2) (\<lambda>b3. Inr (HasStillLineEnd b3))))"

definition NextHandler ::
  "nat \<Rightarrow> bool \<Rightarrow> ReaderBuffer \<Rightarrow> (LineHandler option \<times> ReaderBuffer) res"
where
  "NextHandler block_size good b =
     rbind (HasStillLine block_size good b) (\<lambda>(ok, b1).
       if \<not> ok then Inr (None, b1)
       else
         Inr (Some (LineHandler_Reset (drop (rb_cur_reading_pos b1) (rb_buffer b1))
                      (rb_next_line_end b1 - rb_cur_reading_pos b1)),
              b1\<lparr>rb_cur_reading_pos := rb_next_line_end b1 + 1, rb_next_line_end := 0\<rparr>))"

section \<open>Refinement: the lines of the file\<close>

text \<open>The loop over the leading line ends and the search behind it agree.\<close>

lemma skip_line_ends_line:
  assumes "reader_inv n b"
  shows "skip_line_ends b = (False, b) \<and> blanks (drop (rb_cur_reading_pos b) (rb_buffer b)) = [] \<or>
         (case next_line (drop (rb_cur_reading_pos b) (rb_buffer b)) of
            None \<Rightarrow> skip_line_ends b = (False, unblanked b)
          | Some (l, r) \<Rightarrow> skip_line_ends b =
              (True, (unblanked b)\<lparr>rb_next_line_end := rb_cur_reading_pos (unblanked b) + length l\<rparr>))"
proof (cases "rb_cur_reading_pos b < length (rb_buffer b) \<and> rb_buffer b ! rb_cur_reading_pos b = kLineEnd")
  case False
  then have "skip_line_ends b = (False, b)" by (subst skip_line_ends.simps) auto
  moreover have "blanks (drop (rb_cur_reading_pos b) (rb_buffer b)) = []"
    using False hd_drop_conv_nth[of "rb_cur_reading_pos b" "rb_buffer b"]
    by (cases "drop (rb_cur_reading_pos b) (rb_buffer b)")
       (auto simp: blanks_def is_nl_def, metis drop_all leI list.distinct(1))
  ultimately show ?thesis by simp
next
  case True
  let ?b = "b\<lparr>rb_cur_reading_pos := rb_cur_reading_pos b + 1\<rparr>"
  let ?t = "drop (rb_cur_reading_pos b) (rb_buffer b)"
  have t: "?t = kLineEnd # drop (rb_cur_reading_pos b + 1) (rb_buffer b)"
    using True by (simp add: Cons_nth_drop_Suc[symmetric])
  then have u: "unblanked ?b = unblanked b" "next_line (drop (rb_cur_reading_pos ?b) (rb_buffer ?b)) = next_line ?t"
    by (simp_all add: unblanked_def blanks_def is_nl_def next_line_def unblank_def)
  have h: "HasStillLineEnd ?b =
    (case next_line ?t of None \<Rightarrow> (False, unblanked b)
     | Some (l, r) \<Rightarrow> (True, (unblanked b)\<lparr>rb_next_line_end := rb_cur_reading_pos (unblanked b) + length l\<rparr>))"
    using HasStillLineEnd_line[of ?b] True assms unfolding u by (simp add: reader_inv_def)
  have stop: "skip_line_ends (unblanked b) = (False, unblanked b)"
  proof -
    have "drop (rb_cur_reading_pos (unblanked b)) (rb_buffer (unblanked b)) = unblank ?t"
      by (rule unblanked_drop)
    moreover have "unblank ?t = [] \<or> hd (unblank ?t) \<noteq> kLineEnd"
      using hd_dropWhile[of is_nl ?t] by (auto simp: unblank_def is_nl_def)
    ultimately have "\<not> (rb_cur_reading_pos (unblanked b) < length (rb_buffer (unblanked b)) \<and>
        rb_buffer (unblanked b) ! rb_cur_reading_pos (unblanked b) = kLineEnd)"
      by (metis hd_drop_conv_nth drop_eq_Nil2 leD)
    then show ?thesis by (subst skip_line_ends.simps) auto
  qed
  show ?thesis
    using True h stop by (subst (2 3) skip_line_ends.simps) (auto split: option.splits)
qed

lemma fill_block_reads:
  assumes "[] \<notin> set (rb_input b)"
  shows "\<exists>x p e input. fill_block amount b =
      b\<lparr>rb_buffer := rb_buffer b @ x, rb_cur_reading_pos := p, rb_next_line_end := e, rb_input := input\<rparr> \<and>
    concat (rb_input b) = x @ concat input \<and> [] \<notin> set input \<and> length x \<le> amount \<and>
    (next_line (rb_buffer b @ x) \<noteq> None \<or> length x = amount \<or> input = [])"
  using assms
proof (induction amount b rule: fill_block.induct)
  case (1 amount b)
  obtain got input where g: "read_fd amount (rb_input b) = (got, input)" by (cases "read_fd amount (rb_input b)")
  let ?b1 = "b\<lparr>rb_buffer := rb_buffer b @ got, rb_input := input, rb_cur_reading_pos := 0, rb_next_line_end := 0\<rparr>"
  have got: "concat (rb_input b) = got @ concat input" "[] \<notin> set input" "length got \<le> amount"
    using g 1(2) by (cases "rb_input b"; auto split: if_splits)+
  have eof: "input = []" if "got = []" "amount > 0"
    using that g 1(2) by (cases "rb_input b") (auto split: if_splits)
  obtain b2 where f: "FindLineEnd 0 (length (rb_buffer ?b1)) ?b1 =
      (map_option (\<lambda>(l, r). length (blanks (rb_buffer ?b1)) + length l) (next_line (rb_buffer ?b1)), b2)"
    "b2 = ?b1\<lparr>rb_cur_reading_pos := length (blanks (rb_buffer ?b1))\<rparr>"
    using FindLineEnd_line[of ?b1 0] by (auto split: option.splits)
  show ?case
  proof (cases "next_line (rb_buffer b @ got) = None \<and> amount - length got > 0 \<and> length got > 0")
    case True
    have f0: "(None, b2) = FindLineEnd 0 (length (rb_buffer ?b1)) ?b1" using f(1) True by simp
    have ne: "[] \<notin> set (rb_input b2)" using f(2) got(2) by simp
    have r: "fill_block amount b = fill_block (amount - length got) b2"
      using g f True by (subst fill_block.simps) (simp add: Let_def)
    obtain x p e input' where x: "fill_block (amount - length got) b2 =
        b2\<lparr>rb_buffer := rb_buffer b2 @ x, rb_cur_reading_pos := p, rb_next_line_end := e, rb_input := input'\<rparr>"
      "concat (rb_input b2) = x @ concat input'" "[] \<notin> set input'" "length x \<le> amount - length got"
      "next_line (rb_buffer b2 @ x) \<noteq> None \<or> length x = amount - length got \<or> input' = []"
      using 1(1)[OF g[symmetric] refl f0 _ ne] True by auto
    then show ?thesis
      using got f(2) r
      by (intro exI[of _ "got @ x"] exI[of _ p] exI[of _ e] exI[of _ input']) auto
  next
    case False
    have "fill_block amount b = b2" using g f False by (subst fill_block.simps) (auto simp: Let_def)
    then show ?thesis
      using got f(2) False eof
      by (intro exI[of _ got] exI[of _ "rb_cur_reading_pos b2"] exI[of _ 0] exI[of _ input]) auto
  qed
qed

lemma unblanked_twice: "unblanked (unblanked b) = unblanked b"
  unfolding unblanked_def[of "unblanked b"] unblanked_drop by (simp add: blanks_unblank(2))

lemma unblanked_inv:
  assumes "reader_inv n b"
  shows "reader_inv n (unblanked b)"
proof -
  let ?t = "drop (rb_cur_reading_pos b) (rb_buffer b)"
  have "length (blanks ?t) \<le> length ?t" unfolding blanks_def by (rule length_takeWhile_le)
  then show ?thesis using assms by (auto simp: reader_inv_def unblanked_def)
qed

definition with_line_end :: "ReaderBuffer \<Rightarrow> string \<Rightarrow> ReaderBuffer" where
  "with_line_end b l = (unblanked b)\<lparr>rb_next_line_end := rb_cur_reading_pos (unblanked b) + length l\<rparr>"

lemma HasStillLine_line:
  assumes "reader_inv n b"
  shows "HasStillLine n good b =
    (case next_line (drop (rb_cur_reading_pos b) (rb_buffer b)) of
       Some (l, r) \<Rightarrow> Inr (True, with_line_end b l)
     | None \<Rightarrow>
         if \<not> good then Inr (False, unblanked b)
         else rbind (NextBlock n good (unblanked b)) (\<lambda>b3. Inr (HasStillLineEnd b3)))"
proof -
  let ?t = "drop (rb_cur_reading_pos b) (rb_buffer b)"
  have step: "HasStillLineEnd b =
      (case next_line ?t of None \<Rightarrow> (False, unblanked b) | Some (l, r) \<Rightarrow> (True, with_line_end b l))"
    using HasStillLineEnd_line[of b] assms
    by (simp add: reader_inv_def with_line_end_def split: option.splits)
  have again: "HasStillLineEnd (unblanked b) = (False, unblanked b)" if "next_line ?t = None"
    using HasStillLineEnd_line[of "unblanked b"] unblanked_inv[OF assms] that
    unfolding unblanked_drop next_line_unblank(1) unblanked_twice by (simp add: reader_inv_def)
  have same: "unblanked b = b" if "blanks ?t = []" using that by (simp add: unblanked_def)
  show ?thesis
    using skip_line_ends_line[OF assms] step again same
    by (cases "next_line ?t") (auto simp: HasStillLine_def with_line_end_def)
qed

lemma NextBlock_reads:
  assumes "reader_inv n b"
  shows "\<exists>b' x. NextBlock n True (unblanked b) = Inr b' \<and> reader_inv n b' \<and> rb_cur_reading_pos b' = 0 \<and>
    rb_buffer b' = unblank (drop (rb_cur_reading_pos b) (rb_buffer b)) @ x \<and>
    concat (rb_input b) = x @ concat (rb_input b') \<and>
    (next_line (rb_buffer b') \<noteq> None \<or> length (rb_buffer b') = n \<or> rb_input b' = [])"
proof -
  let ?u = "unblanked b" and ?rest = "unblank (drop (rb_cur_reading_pos b) (rb_buffer b))"
  have inv: "reader_inv n ?u" by (rule unblanked_inv[OF assms])
  have le: "length ?rest \<le> n"
    using inv unblanked_drop[of b] by (metis length_drop diff_le_self le_trans reader_inv_def)
  let ?b = "?u\<lparr>rb_buffer := ?rest\<rparr>"
  have i: "[] \<notin> set (rb_input ?b)" using inv by (simp add: reader_inv_def)
  obtain x p e input where x: "fill_block (n - length ?rest) ?b =
      ?b\<lparr>rb_buffer := rb_buffer ?b @ x, rb_cur_reading_pos := p, rb_next_line_end := e, rb_input := input\<rparr>"
    "concat (rb_input ?b) = x @ concat input" "[] \<notin> set input" "length x \<le> n - length ?rest"
    "next_line (rb_buffer ?b @ x) \<noteq> None \<or> length x = n - length ?rest \<or> input = []"
    using fill_block_reads[OF i, of "n - length ?rest"] by blast
  have "NextBlock n True ?u = Inr ((fill_block (n - length ?rest) ?b)\<lparr>rb_cur_reading_pos := 0, rb_next_line_end := 0\<rparr>)"
    using inv le unfolding NextBlock_def unblanked_drop Let_def by (simp add: reader_inv_def)
  then show ?thesis
    using x le inv
    by (intro exI[of _ "(fill_block (n - length ?rest) ?b)\<lparr>rb_cur_reading_pos := 0, rb_next_line_end := 0\<rparr>"]
          exI[of _ x])
       (auto simp: reader_inv_def unblanked_def)
qed

lemma next_line_prefix:
  assumes "next_line (t @ s) = Some (l, r)" and "next_line t = None"
  shows "length t \<le> length (blanks (t @ s)) + length l"
proof (rule ccontr)
  assume "\<not> ?thesis"
  then have long: "length (blanks (t @ s)) + length l < length t" by simp
  have e: "t @ s = blanks (t @ s) @ l @ kLineEnd # r"
    using next_line_SomeD(1)[OF assms(1)] blanks_unblank(1)[of "t @ s"] by simp
  let ?B = "blanks (t @ s)"
  have "take (length t) (t @ s) = ?B @ l @ take (length t - length ?B - length l) (kLineEnd # r)"
    using long by (subst e) simp
  then obtain m where t: "t = ?B @ l @ kLineEnd # m"
    using long by (cases "length t - length ?B - length l") auto
  have "unblank t = l @ kLineEnd # m"
  proof -
    have "\<forall>x \<in> set ?B. is_nl x" by (auto simp: blanks_def dest: set_takeWhileD)
    moreover have "\<not> is_nl (hd l)" "l \<noteq> []"
      using next_line_SomeD(2,3)[OF assms(1)] by (auto simp: is_nl_def hd_in_set) (metis hd_in_set)
    ultimately have "dropWhile is_nl (?B @ l @ kLineEnd # m) = l @ kLineEnd # m"
      by (cases l) (auto simp: dropWhile_append)
    then show ?thesis using t by (simp add: unblank_def)
  qed
  from next_line_intro[OF this next_line_SomeD(2)[OF assms(1)]] show False using assms(2) by simp
qed

text \<open>Handing out the line a successful search has found.\<close>

lemma handler_of_line:
  assumes "drop p buf = t" and "next_line t = Some (l, r)"
  shows "LineHandler_Reset (drop (p + length (blanks t)) buf) (length l) = line [] l r"
    and "drop (p + length (blanks t) + length l + 1) buf = r"
    and "p + length (blanks t) + length l + 1 \<le> length buf"
proof -
  have "drop (p + length (blanks t)) buf = drop (length (blanks t)) (blanks t @ unblank t)"
    unfolding blanks_unblank(1) unfolding assms(1)[symmetric] by (simp add: add.commute)
  then have d: "drop (p + length (blanks t)) buf = l @ kLineEnd # r"
    using next_line_SomeD(1)[OF assms(2)] by simp
  then show "LineHandler_Reset (drop (p + length (blanks t)) buf) (length l) = line [] l r"
    by (simp add: LineHandler_Reset_def line_def)
  have "drop (p + length (blanks t) + length l + 1) buf = drop (length l + 1) (drop (p + length (blanks t)) buf)"
    by (simp add: add_ac)
  then show "drop (p + length (blanks t) + length l + 1) buf = r" by (simp add: d)
  have "length (drop (p + length (blanks t)) buf) = length l + 1 + length r" by (simp add: d)
  then show "p + length (blanks t) + length l + 1 \<le> length buf" by simp
qed

lemma NextHandler_in_buffer:
  assumes "reader_inv n b" and "next_line (drop (rb_cur_reading_pos b) (rb_buffer b)) = Some (l, r)"
    and "b' = (with_line_end b l)\<lparr>rb_cur_reading_pos := rb_next_line_end (with_line_end b l) + 1,
                                 rb_next_line_end := 0\<rparr>"
  shows "LineHandler_Reset (drop (rb_cur_reading_pos (with_line_end b l)) (rb_buffer (with_line_end b l)))
           (rb_next_line_end (with_line_end b l) - rb_cur_reading_pos (with_line_end b l)) = line [] l r"
    and "reader_inv n b' \<and> pending b' = r @ concat (rb_input b)"
  using handler_of_line[OF refl assms(2)] assms(1,3)
  by (auto simp: with_line_end_def unblanked_def reader_inv_def pending_def)

text \<open>
  \<open>NextHandler\<close> hands out the first non-empty line of the bytes still to come, however
  \<open>read\<close> cuts them into chunks, provided that line and the line ends before it fit into
  the buffer; when no terminated line is left it reports the end.
\<close>

lemma NextHandler_line:
  assumes "reader_inv n b"
    and "\<forall>l r. next_line (pending b) = Some (l, r) \<longrightarrow> length (blanks (pending b)) + length l < n"
  shows "case next_line (pending b) of
           None \<Rightarrow> \<exists>b'. NextHandler n True b = Inr (None, b')
         | Some (l, r) \<Rightarrow>
             \<exists>b' post. NextHandler n True b = Inr (Some (line [] l post), b') \<and>
               reader_inv n b' \<and> pending b' = r"
proof (cases "next_line (drop (rb_cur_reading_pos b) (rb_buffer b))")
  case (Some lr)
  obtain l r where lr: "lr = (l, r)" by (cases lr)
  have "next_line (pending b) = Some (l, r @ concat (rb_input b))"
    unfolding pending_def by (rule next_line_append[OF Some[unfolded lr]])
  moreover have "HasStillLine n True b = Inr (True, with_line_end b l)"
    using HasStillLine_line[OF assms(1), of True] Some lr by simp
  ultimately show ?thesis
    using NextHandler_in_buffer[OF assms(1) Some[unfolded lr] refl] by (auto simp: NextHandler_def)
next
  case None
  let ?t = "drop (rb_cur_reading_pos b) (rb_buffer b)"
  obtain b' x where b': "NextBlock n True (unblanked b) = Inr b'" "reader_inv n b'"
    "rb_cur_reading_pos b' = 0" "rb_buffer b' = unblank ?t @ x" "concat (rb_input b) = x @ concat (rb_input b')"
    "next_line (rb_buffer b') \<noteq> None \<or> length (rb_buffer b') = n \<or> rb_input b' = []"
    using NextBlock_reads[OF assms(1)] by blast
  have hs: "HasStillLine n True b = Inr (HasStillLineEnd b')"
    using HasStillLine_line[OF assms(1), of True] None b'(1) by simp
  have pend: "next_line (pending b) = next_line (rb_buffer b' @ concat (rb_input b'))"
    unfolding pending_def b'(4,5) append_assoc next_line_unblank(2) ..
  show ?thesis
  proof (cases "next_line (rb_buffer b')")
    case (Some lr)
    obtain l r where lr: "lr = (l, r)" by (cases lr)
    have "HasStillLineEnd b' = (True, with_line_end b' l)"
      using HasStillLineEnd_line[of b'] b'(2,3) Some lr by (simp add: reader_inv_def with_line_end_def)
    moreover have "next_line (pending b) = Some (l, r @ concat (rb_input b'))"
      unfolding pend by (rule next_line_append[OF Some[unfolded lr]])
    moreover have "next_line (drop (rb_cur_reading_pos b') (rb_buffer b')) = Some (l, r)"
      using Some lr b'(3) by simp
    ultimately show ?thesis
      using NextHandler_in_buffer[OF b'(2) _ refl, of l r] hs by (auto simp: NextHandler_def)
  next
    case stop: None
    have "HasStillLineEnd b' = (False, unblanked b')"
      using HasStillLineEnd_line[of b'] b'(2,3) stop by (simp add: reader_inv_def)
    then have handler: "NextHandler n True b = Inr (None, unblanked b')"
      using hs by (simp add: NextHandler_def)
    have "next_line (pending b) = None"
    proof (rule ccontr)
      assume "next_line (pending b) \<noteq> None"
      then obtain l r where l: "next_line (pending b) = Some (l, r)" by auto
      have full: "length (rb_buffer b') = n"
        using b'(6) stop l pend by auto
      have "length (rb_buffer b') \<le> length (blanks (rb_buffer b' @ concat (rb_input b'))) + length l"
        using next_line_prefix[OF _ stop] l pend by simp
      moreover have "length (blanks (rb_buffer b' @ concat (rb_input b'))) \<le> length (blanks (pending b))"
      proof -
        have "pending b = blanks ?t @ (rb_buffer b' @ concat (rb_input b'))"
          using blanks_unblank(1)[of ?t] unfolding pending_def b'(4,5)
          by (metis append_assoc)
        moreover have "\<forall>x \<in> set (blanks ?t). is_nl x" by (auto simp: blanks_def dest: set_takeWhileD)
        ultimately show ?thesis by (simp add: blanks_def takeWhile_append2)
      qed
      ultimately show False using assms(2) l full by fastforce
    qed
    then show ?thesis using handler by simp
  qed
qed

end
