(* ===== verification/LineLoop.thy ===== *)
theory LineLoop
  imports Reader
begin

text \<open>
  The two loops over the lines of a file: \<open>NextHandler\<close> until it reports the end
  (include/parser/parser.h), and \<open>HasStillLine\<close> followed by \<open>NextHandler\<close>
  (source/env/symtable.cc). Both visit exactly the lines of the file, in order. The loops
  take fuel; one more than the number of bytes of the file is enough.
\<close>

fun each_handler ::
  "nat \<Rightarrow> nat \<Rightarrow> (LineHandler \<Rightarrow> 's \<Rightarrow> 's res) \<Rightarrow> ReaderBuffer \<Rightarrow> 's \<Rightarrow> 's res"
where
  "each_handler 0 n body b s = Inl OutOfFuel"
| "each_handler (Suc fuel) n body b s =
     rbind (NextHandler n True b) (\<lambda>(h, b1).
       case h of
         None \<Rightarrow> Inr s
       | Some line_handler \<Rightarrow> rbind (body line_handler s) (each_handler fuel n body b1))"

fun while_line ::
  "nat \<Rightarrow> nat \<Rightarrow> (LineHandler \<Rightarrow> 's \<Rightarrow> 's res) \<Rightarrow> ReaderBuffer \<Rightarrow> 's \<Rightarrow> 's res"
where
  "while_line 0 n body b s = Inl OutOfFuel"
| "while_line (Suc fuel) n body b s =
     rbind (HasStillLine n True b) (\<lambda>(ok, b1).
       if \<not> ok then Inr s
       else
         rbind (NextHandler n True b1) (\<lambda>(h, b2).
           case h of
             None \<Rightarrow> Inr s
           | Some line_handler \<Rightarrow> rbind (body line_handler s) (while_line fuel n body b2)))"

section \<open>The lines of a text\<close>

lemma next_line_shorter: "next_line t = Some (l, r) \<Longrightarrow> length r < length t"
proof -
  assume a: "next_line t = Some (l, r)"
  have "length (unblank t) \<le> length t" unfolding unblank_def by (rule length_dropWhile_le)
  then show ?thesis using next_line_SomeD(1)[OF a] by simp
qed

function text_lines :: "string \<Rightarrow> string list" where
  "text_lines t = (case next_line t of None \<Rightarrow> [] | Some (l, r) \<Rightarrow> l # text_lines r)"
  by pat_completeness auto
termination by (relation "measure length") (auto dest: next_line_shorter)

text \<open>Every line, with the line ends before it, is shorter than the buffer.\<close>

function lines_fit :: "nat \<Rightarrow> string \<Rightarrow> bool" where
  "lines_fit n t =
     (case next_line t of
        None \<Rightarrow> True
      | Some (l, r) \<Rightarrow> length (blanks t) + length l < n \<and> lines_fit n r)"
  by pat_completeness auto
termination by (relation "measure (length \<circ> snd)") (auto dest: next_line_shorter)

declare text_lines.simps [simp del] lines_fit.simps [simp del]

lemma NextHandler_next:
  assumes "reader_inv n b" and "lines_fit n (pending b)"
  shows "case next_line (pending b) of
           None \<Rightarrow> \<exists>b'. NextHandler n True b = Inr (None, b')
         | Some (l, r) \<Rightarrow>
             \<exists>b' post. NextHandler n True b = Inr (Some (line [] l post), b') \<and>
               reader_inv n b' \<and> pending b' = r \<and> lines_fit n r"
proof -
  have "\<forall>l r. next_line (pending b) = Some (l, r) \<longrightarrow>
      length (blanks (pending b)) + length l < n \<and> lines_fit n r"
    using assms(2) by (subst (asm) lines_fit.simps) auto
  then show ?thesis
    using NextHandler_line[OF assms(1)] by (fastforce split: option.splits)
qed

text \<open>Asking first whether there is a line does not change which line comes.\<close>

lemma HasStillLine_again:
  assumes "reader_inv n b" and "HasStillLine n True b = Inr (True, b1)"
  shows "HasStillLine n True b1 = Inr (True, b1)"
proof -
  have found: ?thesis
    if "b1 = with_line_end c l" "reader_inv n c" "next_line (drop (rb_cur_reading_pos c) (rb_buffer c)) = Some (l, r)"
    for c l r
  proof -
    note u = next_line_SomeD[OF that(3)]
    have d: "drop (rb_cur_reading_pos b1) (rb_buffer b1) = l @ kLineEnd # r"
      using unblanked_drop[of c] u(1) that(1) by (simp add: with_line_end_def)
    have lt: "rb_cur_reading_pos b1 < length (rb_buffer b1)"
      using d u(3) by (metis append_is_Nil_conv drop_all leI)
    have "rb_buffer b1 ! rb_cur_reading_pos b1 \<noteq> kLineEnd"
      using hd_drop_conv_nth[OF lt] d u(2,3) by (cases l) auto
    then have "skip_line_ends b1 = (False, b1)" by (subst skip_line_ends.simps) simp
    moreover have "HasStillLineEnd b1 = (True, b1)"
      using lt that(1,2) u(3)
      by (auto simp: HasStillLineEnd_def CalculateNextLineEnd_def with_line_end_def unblanked_def
          reader_inv_def Let_def)
    ultimately show ?thesis by (simp add: HasStillLine_def)
  qed
  show ?thesis
  proof (cases "next_line (drop (rb_cur_reading_pos b) (rb_buffer b))")
    case (Some lr)
    obtain l r where lr: "lr = (l, r)" by (cases lr)
    then have "b1 = with_line_end b l"
      using HasStillLine_line[OF assms(1), of True] Some assms(2) by simp
    then show ?thesis using found[of b l r] assms(1) Some lr by simp
  next
    case None
    obtain b' where b': "NextBlock n True (unblanked b) = Inr b'" "reader_inv n b'"
      using NextBlock_reads[OF assms(1)] by blast
    have h: "HasStillLineEnd b' = (True, b1)"
      using HasStillLine_line[OF assms(1), of True] None b'(1) assms(2) by simp
    then obtain l r where "next_line (drop (rb_cur_reading_pos b') (rb_buffer b')) = Some (l, r)"
      "b1 = with_line_end b' l"
      using HasStillLineEnd_line[of b'] b'(2)
      by (auto simp: reader_inv_def with_line_end_def split: option.splits)
    then show ?thesis using found[of b' l r] b'(2) by simp
  qed
qed

lemma while_line_each:
  assumes "reader_inv n b" and "lines_fit n (pending b)"
  shows "while_line fuel n body b s = each_handler fuel n body b s"
  using assms
proof (induction fuel n body b s rule: each_handler.induct)
  case (2 fuel n body b s)
  note next_is = NextHandler_next[OF 2(2,3)]
  show ?case
  proof (cases "HasStillLine n True b")
    case (Inl e)
    then show ?thesis using next_is by (auto simp: NextHandler_def split: option.splits)
  next
    case (Inr r)
    obtain ok b1 where r: "r = (ok, b1)" by (cases r)
    show ?thesis
    proof (cases ok)
      case False
      then show ?thesis using Inr r by (simp add: NextHandler_def)
    next
      case True
      have same: "NextHandler n True b1 = NextHandler n True b"
        using HasStillLine_again[OF 2(2)] Inr r True by (simp add: NextHandler_def)
      show ?thesis
        using next_is 2(1) Inr r True same
        by (auto split: option.splits intro!: arg_cong[where f = "rbind (body _ s)"] ext)
    qed
  qed
qed simp

section \<open>The loops visit the lines\<close>

primrec fold_lines :: "(string \<Rightarrow> 's \<Rightarrow> 's res) \<Rightarrow> string list \<Rightarrow> 's \<Rightarrow> 's res" where
  "fold_lines g [] s = Inr s"
| "fold_lines g (l # ls) s = rbind (g l s) (fold_lines g ls)"

lemma each_handler_lines:
  assumes "reader_inv n b" and "lines_fit n (pending b)" and "length (pending b) < fuel"
    and "\<And>l post s. body (line [] l post) s = g l s"
  shows "each_handler fuel n body b s = fold_lines g (text_lines (pending b)) s"
  using assms(1-3)
proof (induction fuel arbitrary: b s)
  case (Suc fuel)
  note next_is = NextHandler_next[OF Suc(2,3)]
  show ?case
  proof (cases "next_line (pending b)")
    case None
    then show ?thesis using next_is by (subst text_lines.simps) auto
  next
    case (Some lr)
    obtain l r where lr: "lr = (l, r)" by (cases lr)
    obtain b' post where b': "NextHandler n True b = Inr (Some (line [] l post), b')"
      "reader_inv n b'" "pending b' = r" "lines_fit n r"
      using next_is Some lr by auto
    have "length (pending b') < fuel"
      using next_line_shorter[OF Some[unfolded lr]] Suc(4) b'(3) by simp
    then have "each_handler fuel n body b' s' = fold_lines g (text_lines r) s'" for s'
      using Suc(1)[of b' s'] b' by simp
    then have e: "each_handler fuel n body b' = fold_lines g (text_lines r)" by (rule ext)
    have t: "text_lines (pending b) = l # text_lines r"
      using Some lr by (subst text_lines.simps) simp
    show ?thesis unfolding t by (simp add: b'(1) e assms(4))
  qed
qed simp

lemma OpenFile_inv:
  assumes "[] \<notin> set chunks"
  shows "reader_inv n (OpenFile chunks)" and "pending (OpenFile chunks) = concat chunks"
  using assms by (simp_all add: OpenFile_def reader_inv_def pending_def)

text \<open>
  C10. The reader buffer refines the list of lines of the file: however \<open>read\<close> cuts the
  bytes of a file or pipe into chunks, the loops of the parser task and of the symbol table
  run their body once for every non-empty terminated line, in order, and end. The lines
  must fit into the buffer; a last line without a terminator is not visited.
\<close>

theorem ReaderBuffer_refines_lines:
  assumes "[] \<notin> set chunks" and "lines_fit n (concat chunks)"
    and "\<And>l post s. body (line [] l post) s = g l s"
    and "length (concat chunks) < fuel"
  shows "each_handler fuel n body (OpenFile chunks) s = fold_lines g (text_lines (concat chunks)) s \<and>
         while_line fuel n body (OpenFile chunks) s = fold_lines g (text_lines (concat chunks)) s"
proof -
  have inv: "reader_inv n (OpenFile chunks)" "pending (OpenFile chunks) = concat chunks"
    using OpenFile_inv[OF assms(1)] by auto
  have "each_handler fuel n body (OpenFile chunks) s = fold_lines g (text_lines (pending (OpenFile chunks))) s"
    by (rule each_handler_lines[OF inv(1)]) (use assms inv(2) in auto)
  then show ?thesis
    using while_line_each[OF inv(1), where fuel = fuel and body = body and s = s] inv(2) assms(2) by simp
qed

definition collect_line :: "LineHandler \<Rightarrow> string list \<Rightarrow> string list res" where
  "collect_line h ls = Inr (ls @ [GetRawLine h])"

lemma collect_line_line: "collect_line (line [] l post) ls = Inr (ls @ [l])"
  by (simp add: collect_line_def GetRawLine_def line_def)

theorem ReaderBuffer_refines_lines_witness:
  "each_handler 30 8 collect_line (OpenFile [kLineEnd # ''12 a'', ''b'' @ [kLineEnd, kLineEnd], ''c'' @ [kLineEnd], ''tail'']) [] =
     Inr [''12 ab'', ''c'']"
proof -
  let ?chunks = "[kLineEnd # ''12 a'', ''b'' @ [kLineEnd, kLineEnd], ''c'' @ [kLineEnd], ''tail'']"
  note simps = next_line_def unblank_def blanks_def is_nl_def
  have lines: "text_lines (concat ?chunks) = [''12 ab'', ''c'']"
    by (simp add: text_lines.simps simps)
  have fit: "lines_fit 8 (concat ?chunks)" by (simp add: lines_fit.simps simps)
  have "each_handler 30 8 collect_line (OpenFile ?chunks) [] =
      fold_lines (\<lambda>l ls. Inr (ls @ [l])) (text_lines (concat ?chunks)) []"
    using ReaderBuffer_refines_lines[where body = collect_line and g = "\<lambda>l ls. Inr (ls @ [l])" and
        fuel = 30 and s = "[]", OF _ fit collect_line_line] by simp
  then show ?thesis unfolding lines by simp
qed

end
