(* ===== verification/LogParser.thy ===== *)
theory LogParser
  imports ParserSafety LineLoop
begin

text \<open>
  What the rest of the program relies on when it calls \<open>LogParser::ParseEvent\<close>
  (include/parser/parser.h), as an interface that every parser class provides, and the
  events of a log file it determines. The state is what a parser shares with others: the
  string internalizer, the symbol tables.
\<close>

type_synonym 's event_parser = "LineHandler \<Rightarrow> 's \<Rightarrow> (event option \<times> LineHandler \<times> 's) res"

text \<open>What a parser makes of one line: the event, or nothing, and the shared state after.\<close>

definition event_of_line :: "'s event_parser \<Rightarrow> string \<Rightarrow> 's \<Rightarrow> event option \<times> 's" where
  "event_of_line parse l st =
     (case parse (line [] l []) st of Inl e \<Rightarrow> (None, st) | Inr (e, _, st') \<Rightarrow> (e, st'))"

primrec events_of_lines :: "'s event_parser \<Rightarrow> string list \<Rightarrow> 's \<Rightarrow> event list" where
  "events_of_lines parse [] st = []"
| "events_of_lines parse (l # ls) st =
     (case event_of_line parse l st of
        (e, st') \<Rightarrow> (case e of None \<Rightarrow> [] | Some x \<Rightarrow> [x]) @ events_of_lines parse ls st')"

text \<open>A parser that neither reads nor changes the shared state.\<close>

definition lift_parser :: "event line_parser \<Rightarrow> 's event_parser" where
  "lift_parser p h st = rbind (p h) (\<lambda>(e, h'). Inr (e, h', st))"

section \<open>The interface\<close>

locale log_parser =
  fixes ParseEvent :: "'s event_parser"
    and ready :: "'s \<Rightarrow> bool"
  assumes parses: "ready st \<Longrightarrow> \<exists>e n st'. ready st' \<and>
    (\<forall>pre post. ParseEvent (line pre s post) st = Inr (e, line (pre @ take n s) (drop n s) post, st'))"
begin

lemma ParseEvent_line:
  assumes "ready st"
  shows "\<exists>h'. ParseEvent (line [] l post) st =
      Inr (fst (event_of_line ParseEvent l st), h', snd (event_of_line ParseEvent l st))"
    and "ready (snd (event_of_line ParseEvent l st))"
proof -
  obtain e n st' where p: "ready st'"
    "\<forall>pre post. ParseEvent (line pre l post) st = Inr (e, line (pre @ take n l) (drop n l) post, st')"
    using parses[OF assms] by blast
  then have "event_of_line ParseEvent l st = (e, st')" by (simp add: event_of_line_def)
  then show "\<exists>h'. ParseEvent (line [] l post) st =
      Inr (fst (event_of_line ParseEvent l st), h', snd (event_of_line ParseEvent l st))"
    and "ready (snd (event_of_line ParseEvent l st))"
    using p by auto
qed

text \<open>The position in the buffer and the bytes around the line do not matter.\<close>

lemma ParseEvent_buffer:
  assumes "ready st" and "on_line h" and "GetCurString h = l"
  shows "\<exists>h'. on_line h' \<and> lh_buf h' = lh_buf h \<and> lh_size h' = lh_size h \<and> lh_pos h \<le> lh_pos h' \<and>
    ParseEvent h st = Inr (fst (event_of_line ParseEvent l st), h', snd (event_of_line ParseEvent l st))"
proof -
  obtain pre s post where h: "h = line pre s post" using assms(2) by (auto simp: on_line_iff)
  obtain e n st' where p: "ready st'"
    "\<forall>pre post. ParseEvent (line pre s post) st = Inr (e, line (pre @ take n s) (drop n s) post, st')"
    using parses[OF assms(1)] by blast
  have "event_of_line ParseEvent l st = (e, st')" using p assms(3) h by (simp add: event_of_line_def)
  moreover have "lh_buf (line (pre @ take n s) (drop n s) post) = lh_buf h \<and>
      lh_size (line (pre @ take n s) (drop n s) post) = lh_size h"
    by (simp add: h line_def)
  ultimately show ?thesis using p h on_line_line by auto
qed

end

locale identified_parser = log_parser +
  fixes ident :: u64 and nm :: string
  assumes made: "ready st \<Longrightarrow> event_of_line ParseEvent l st = (Some e, st') \<Longrightarrow> made_by ident nm e"
begin

lemma events_made:
  "ready st \<Longrightarrow> e \<in> set (events_of_lines ParseEvent ls st) \<Longrightarrow> made_by ident nm e"
proof (induction ls arbitrary: st)
  case (Cons l ls)
  obtain x st' where x: "event_of_line ParseEvent l st = (x, st')" by (cases "event_of_line ParseEvent l st")
  have "ready st'" using ParseEvent_line(2)[OF Cons.prems(1), of l] x by simp
  then show ?case using Cons x made[OF Cons.prems(1)] by (cases x) auto
qed simp

end

section \<open>Stateless parsers\<close>

lemma yields_lift:
  assumes "yields Q p"
  shows "\<exists>e n st'. (\<forall>pre post. lift_parser p (line pre s post) st =
    Inr (e, line (pre @ take n s) (drop n s) post, st')) \<and> st' = st \<and> (\<forall>x. e = Some x \<longrightarrow> Q x)"
proof -
  obtain r n where "consumes p s r n" "\<And>x. r = Some x \<Longrightarrow> Q x" using yieldsE[OF assms] by blast
  then show ?thesis by (auto simp: lift_parser_def consumes_def)
qed

lemma lift_event_of_line:
  "event_of_line (lift_parser p) l st = (case p (line [] l []) of Inl e \<Rightarrow> (None, st) | Inr (e, _) \<Rightarrow> (e, st))"
  by (auto simp: event_of_line_def lift_parser_def split: sum.splits)

lemma yields_event_of_line:
  assumes "yields Q p" and "event_of_line (lift_parser p) l st = (Some e, st')"
  shows "Q e"
proof -
  obtain r n where "consumes p l r n" "\<And>x. r = Some x \<Longrightarrow> Q x" using yieldsE[OF assms(1)] by blast
  then show ?thesis using assms(2) by (simp add: lift_event_of_line consumes_def)
qed

lemma lift_log_parser:
  assumes "yields Q p"
  shows "log_parser (lift_parser p) (\<lambda>_. True)"
  by unfold_locales (use yields_lift[OF assms] in metis)

lemma lift_identified:
  assumes "yields (made_by ident nm) p"
  shows "identified_parser (lift_parser p) (\<lambda>_. True) ident nm"
  by (rule identified_parser.intro[OF lift_log_parser[OF assms] identified_parser_axioms.intro])
     (rule yields_event_of_line[OF assms])

end
