(* ===== verification/Symtable.thy ===== *)
theory Symtable
  imports LineLoop ParserSafety TraceEnv
begin

text \<open>
  Symbol tables (include/env/symtable.h, source/env/symtable.cc): loading the three dump
  formats into a map from addresses to internalized names, and translating the addresses
  of the gem5 log into names. \<open>SymtableFilter\<close> of the trace environment asks the tables in
  turn; the component filter of include/util/componenttable.h is here too.
\<close>

section \<open>State\<close>

text \<open>\<open>std::map\<close> as the list of its entries in the order of the keys.\<close>

type_synonym SymTable = "(u64 \<times> strptr) list"

record SymsFilter =
  sf_id :: u64
  sf_component :: string
  sf_symbol_filter :: "string list"
  sf_symbol_table :: SymTable
  sf_i :: StringInternalizer

datatype FilterType = kSyms | kS | kElf

definition FilterTypeFromString :: "string \<Rightarrow> FilterType" where
  "FilterTypeFromString type_str =
     (case map_of [(''kSyms'', kSyms), (''kS'', kS), (''kElf'', kElf)] type_str of
        Some t \<Rightarrow> t | None \<Rightarrow> kSyms)"

section \<open>The table\<close>

text \<open>\<open>map::insert\<close>: an existing key keeps its value and the result is false.\<close>

fun table_insert :: "u64 \<Rightarrow> strptr \<Rightarrow> SymTable \<Rightarrow> bool \<times> SymTable" where
  "table_insert k v [] = (True, [(k, v)])"
| "table_insert k v ((a, x) # t) =
     (if k < a then (True, (k, v) # (a, x) # t)
      else if k = a then (False, (a, x) # t)
      else (case table_insert k v t of (ok, t') \<Rightarrow> (ok, (a, x) # t')))"

definition AddToSymTable :: "u64 \<Rightarrow> string \<Rightarrow> u64 \<Rightarrow> SymsFilter \<Rightarrow> bool \<times> SymsFilter" where
  "AddToSymTable address nm address_offset f =
     (if sf_symbol_filter f \<noteq> [] \<and> nm \<notin> set (sf_symbol_filter f) then (False, f)
      else
        (case Internalize nm (sf_i f) of
           (sym_ptr, i1) \<Rightarrow>
             (case table_insert (address_offset + address) sym_ptr (sf_symbol_table f) of
                (ok, t) \<Rightarrow> (ok, f\<lparr>sf_symbol_table := t, sf_i := i1\<rparr>))))"

definition Filter :: "u64 \<Rightarrow> SymsFilter \<Rightarrow> strptr option" where
  "Filter address f = map_of (sf_symbol_table f) address"

text \<open>
  \<open>upper_bound\<close> is the first entry above the address, \<open>lower_bound\<close> the first one not
  below it; stepping back gives the last entry before it.
\<close>

definition FilterNearestAddressUpper :: "u64 \<Rightarrow> SymsFilter \<Rightarrow> strptr option" where
  "FilterNearestAddressUpper address f =
     (let before = takeWhile (\<lambda>(k, _). k \<le> address) (sf_symbol_table f) in
      if before = [] then None else Some (snd (last before)))"

definition FilterNearestAddressLower :: "u64 \<Rightarrow> SymsFilter \<Rightarrow> strptr option res" where
  "FilterNearestAddressLower address f =
     (let before = takeWhile (\<lambda>(k, _). k < address) (sf_symbol_table f);
          from = dropWhile (\<lambda>(k, _). k < address) (sf_symbol_table f) in
      case from of
        [] \<Rightarrow> Inl (Undefined ''symbol_iter->first at end()'')
      | (k, v) # _ \<Rightarrow>
          if k = address then Inr (Some v)
          else if k > address then (if before = [] then Inr None else Inr (Some (snd (last before))))
          else Inr None)"

section \<open>Parsing a line\<close>

definition Syms_ParseAddress :: "u64 line_parser" where
  "Syms_ParseAddress = lh_step TrimL (ParseUintTrim 16)"

definition ParseName :: "string line_parser" where
  "ParseName = lh_step TrimL (ExtractAndSubstrUntilInto is_alnum_dot_bar)"

definition SkipSymsFags :: "line_test" where
  "SkipSymsFags h =
     rbind (TrimL h) (\<lambda>h1.
       if CurLength h1 < 8 then Inr (False, h1) else Inr (True, snd (MoveForward 7 h1)))"

definition SkipSymsSection :: "line_test" where
  "SkipSymsSection h = rbind (TrimL h) (\<lambda>h1. rbind (TrimTillWhitespace h1) (\<lambda>h2. Inr (True, h2)))"

definition SkipSymsAlignment :: "line_test" where
  "SkipSymsAlignment h = rbind (TrimL h) (\<lambda>h1. rbind (TrimTillWhitespace h1) (\<lambda>h2. Inr (True, h2)))"

text \<open>The entry a line of each format holds; \<open>lh_skip\<close> ignores the result of the method.\<close>

definition lh_skip :: "line_test \<Rightarrow> 'a line_parser \<Rightarrow> 'a line_parser" where
  "lh_skip p f = lh_if p f f"

definition syms_entry :: "(u64 \<times> string) line_parser" where
  "syms_entry =
     lh_step TrimL (
     lh_bind Syms_ParseAddress (\<lambda>address.
     lh_check SkipSymsFags (lh_check SkipSymsSection (lh_check SkipSymsAlignment (
     lh_bind ParseName (\<lambda>nm. lh_return (address, nm)))))))"

definition s_entry :: "(u64 \<times> string) line_parser" where
  "s_entry =
     lh_step TrimL (
     lh_bind Syms_ParseAddress (\<lambda>address.
     lh_check (ConsumeAndTrimString '' <'') (
     lh_bind ParseName (\<lambda>symbol.
     lh_check (ConsumeAndTrimChar CHR ''>'') (
     lh_check (ConsumeAndTrimChar CHR '':'') (lh_return (address, symbol)))))))"

definition elf_entry :: "(u64 \<times> string) line_parser" where
  "elf_entry =
     lh_step TrimL (
     lh_check SkipTillWhitespace (
     lh_bind Syms_ParseAddress (\<lambda>address.
     lh_step TrimL (lh_skip SkipTillWhitespace (
     lh_step TrimL (
     lh_if (ConsumeAndTrimString ''FILE'') lh_fail (
     lh_if (ConsumeAndTrimString ''OBJECT'') lh_fail (
     lh_skip SkipTillWhitespace (
     lh_step TrimL (lh_skip SkipTillWhitespace (
     lh_step TrimL (lh_skip SkipTillWhitespace (
     lh_step TrimL (lh_skip SkipTillWhitespace (
     lh_step TrimL (
     lh_bind ParseName (\<lambda>label. lh_return (address, label))))))))))))))))))"

section \<open>Loading a file\<close>

text \<open>The body of the loops: a line without an entry is skipped, a refused entry ignored.\<close>

definition load_entry ::
  "(u64 \<times> string) line_parser \<Rightarrow> u64 \<Rightarrow> LineHandler \<Rightarrow> SymsFilter \<Rightarrow> SymsFilter res"
where
  "load_entry entry address_offset h f =
     rbind (entry h) (\<lambda>(r, h').
       case r of
         None \<Rightarrow> Inr f
       | Some (address, nm) \<Rightarrow> Inr (snd (AddToSymTable address nm address_offset f)))"

definition table_block :: nat where
  "table_block = 4 * 4096"

text \<open>The fuel is more than the number of bytes of the file.\<close>

definition load_fuel :: "string list \<Rightarrow> nat" where
  "load_fuel chunks = Suc (length (concat chunks))"

definition LoadSyms :: "string list \<Rightarrow> u64 \<Rightarrow> SymsFilter \<Rightarrow> SymsFilter res" where
  "LoadSyms file address_offset f =
     while_line (load_fuel file) table_block (load_entry syms_entry address_offset) (OpenFile file) f"

definition LoadS :: "string list \<Rightarrow> u64 \<Rightarrow> SymsFilter \<Rightarrow> SymsFilter res" where
  "LoadS file address_offset f =
     while_line (load_fuel file) table_block (load_entry s_entry address_offset) (OpenFile file) f"

text \<open>\<open>LoadElf\<close> drops the first three lines.\<close>

fun skip_lines :: "nat \<Rightarrow> ReaderBuffer \<Rightarrow> ReaderBuffer res" where
  "skip_lines 0 b = Inr b"
| "skip_lines (Suc k) b =
     rbind (HasStillLine table_block True b) (\<lambda>(ok, b1).
       if \<not> ok then Inr b1
       else rbind (NextHandler table_block True b1) (\<lambda>(_, b2). skip_lines k b2))"

definition LoadElf :: "string list \<Rightarrow> u64 \<Rightarrow> SymsFilter \<Rightarrow> SymsFilter res" where
  "LoadElf file address_offset f =
     rbind (skip_lines 3 (OpenFile file)) (\<lambda>b.
       while_line (load_fuel file) table_block (load_entry elf_entry address_offset) b f)"

definition SymsFilter_Create ::
  "u64 \<Rightarrow> string \<Rightarrow> string list \<Rightarrow> u64 \<Rightarrow> FilterType \<Rightarrow> string list \<Rightarrow> StringInternalizer \<Rightarrow> SymsFilter res"
where
  "SymsFilter_Create ident component file address_offset ty symbol_filter i =
     (let f = \<lparr>sf_id = ident, sf_component = component, sf_symbol_filter = symbol_filter,
               sf_symbol_table = [], sf_i = i\<rparr> in
      case ty of
        kS \<Rightarrow> LoadS file address_offset f
      | kElf \<Rightarrow> LoadElf file address_offset f
      | kSyms \<Rightarrow> LoadSyms file address_offset f)"

section \<open>Component filter\<close>

record ComponentFilter =
  cf_identifier :: string
  cf_component_table :: "string list"

definition ComponentFilter_add :: "string \<Rightarrow> ComponentFilter \<Rightarrow> ComponentFilter" where
  "ComponentFilter_add symbol c = c\<lparr>cf_component_table := List.insert symbol (cf_component_table c)\<rparr>"

definition ComponentFilter_filter :: "string \<Rightarrow> ComponentFilter \<Rightarrow> bool" where
  "ComponentFilter_filter component c =
     (cf_component_table c = [] \<or> component \<in> set (cf_component_table c))"

end
