(* ===== verification/Gem5.thy ===== *)
theory Gem5
  imports LogParser Symtable
begin

text \<open>
  The parser of gem5 logs (source/parser/gem5.cc), and the translation of call addresses by
  the symbol tables of the trace environment (source/env/traceEnvironment.cc), which it
  reads for every executed instruction.
\<close>

section \<open>\<open>SymtableFilter\<close>\<close>

text \<open>The first table that knows the address gives the symbol and its component.\<close>

fun SymtableFilter :: "u64 \<Rightarrow> SymsFilter list \<Rightarrow> strptr option \<times> string option" where
  "SymtableFilter address [] = (None, None)"
| "SymtableFilter address (symt # ts) =
     (case Filter address symt of
        Some symbol \<Rightarrow> (Some symbol, Some (sf_component symt))
      | None \<Rightarrow> SymtableFilter address ts)"

text \<open>The trace environment as the parser sees it: the tables and the internalizer.\<close>

type_synonym symbol_env = "SymsFilter list \<times> StringInternalizer"

definition symbols_ok :: "symbol_env \<Rightarrow> bool" where
  "symbols_ok env =
     (\<forall>t \<in> set (fst env). \<forall>(a, p) \<in> set (sf_symbol_table t). deref (snd env) p \<noteq> None)"

lemma SymtableFilter_ok:
  "symbols_ok (ts, i) \<Longrightarrow> fst (SymtableFilter address ts) = Some p \<Longrightarrow> deref i p \<noteq> None"
proof (induction ts)
  case (Cons t ts)
  show ?case
  proof (cases "Filter address t")
    case (Some q)
    then have "(address, q) \<in> set (sf_symbol_table t)" by (simp add: Filter_def map_of_SomeD)
    then show ?thesis using Cons.prems Some by (auto simp: symbols_ok_def)
  next
    case None
    then show ?thesis using Cons by (simp add: symbols_ok_def)
  qed
qed simp

section \<open>The components of a line\<close>

text \<open>A method call followed by \<open>&&\<close> and a test without side effects.\<close>

definition lh_and :: "line_test \<Rightarrow> bool \<Rightarrow> line_test" where
  "lh_and p b h = rbind (p h) (\<lambda>(ok, h'). Inr (ok \<and> b, h'))"

definition ParseGlobalEvent :: "ev_base \<Rightarrow> event line_parser" where
  "ParseGlobalEvent b =
     lh_check (ConsumeAndTrimTillString ''simbricks:'') (
     lh_step TrimL (
     lh_if (ConsumeAndTrimString ''processInEvent'') (lh_return (SimProcInEvent b)) (
     lh_if (ConsumeAndTrimString ''sending sync message'') (lh_return (SimSendSync b)) lh_fail)))"

definition ParseSimbricksEvent :: "ev_base \<Rightarrow> event line_parser" where
  "ParseSimbricksEvent b =
     lh_check (ConsumeAndTrimChar CHR '':'') (
     lh_step TrimL (
     lh_if (ConsumeAndTrimString ''processInEvent'') (lh_return (SimProcInEvent b)) (
     lh_if (ConsumeAndTrimString ''sending sync message'') (lh_return (SimSendSync b)) lh_fail)))"

text \<open>The event of an address the tables know; a null symbol or component gives none.\<close>

definition host_call :: "symbol_env \<Rightarrow> ev_base \<Rightarrow> u64 \<Rightarrow> event line_parser" where
  "host_call env b addr h =
     (case SymtableFilter addr (fst env) of
        (Some sym_s, Some component) \<Rightarrow>
          rbind (or_undefined (deref (snd env) sym_s) ''*sym_s'') (\<lambda>func.
            Inr (Some (HostCall b addr (Some func) (Some component)), h))
      | _ \<Rightarrow> Inr (None, h))"

definition instr_or_call :: "symbol_env \<Rightarrow> ev_base \<Rightarrow> u64 \<Rightarrow> event line_parser" where
  "instr_or_call env b addr =
     lh_if (ConsumeAndTrimChar CHR ''.'') (lh_return (HostInstr b addr)) (host_call env b addr)"

definition ParseSystemSwitchCpus :: "symbol_env \<Rightarrow> ev_base \<Rightarrow> event line_parser" where
  "ParseSystemSwitchCpus env b =
     till_field ''0x'' (ParseUintTrim 16) (\<lambda>addr.
     lh_step TrimL (
     lh_if (ConsumeAndTrimChar CHR '':'')
       (lh_step TrimL (
        lh_if (ConsumeAndTrimString ''NOP'') lh_fail (
        lh_if (ConsumeAndTrimString ''MFENCE'') lh_fail (
        lh_if (ConsumeAndTrimString ''LFENCE'') lh_fail (instr_or_call env b addr)))))
       (instr_or_call env b addr)))"

definition pci_access :: "bool \<Rightarrow> ev_base \<Rightarrow> event line_parser" where
  "pci_access is_read b =
     lh_bind (ParseUintTrim 16) (\<lambda>offset.
     field '', size=0x'' (ParseUintTrim 16) (\<lambda>sz. lh_return (HostPciRW b offset sz is_read)))"

definition ParseSystemPcPciHost :: "ev_base \<Rightarrow> event line_parser" where
  "ParseSystemPcPciHost b =
     lh_if (ConsumeAndTrimTillString ''read: offset=0x'') (pci_access True b) (
     lh_if (ConsumeAndTrimTillString ''write: offset=0x'') (pci_access False b) lh_fail)"

definition ParseSystemPcPciHostInterface :: "ev_base \<Rightarrow> event line_parser" where
  "ParseSystemPcPciHostInterface b =
     lh_check SkipTillWhitespace (
     lh_step TrimL (
     lh_if (ConsumeAndTrimString ''clearInt'') (lh_return (HostClearInt b)) (
     lh_if (ConsumeAndTrimString ''postInt'') (lh_return (HostPostInt b)) lh_fail)))"

section \<open>\<open>ParseSystemPcSimbricks\<close>\<close>

text \<open>When no number follows \<open>0x\<close>, the test for \<open>'0'\<close> continues behind it.\<close>

definition config_access :: "bool \<Rightarrow> ev_base \<Rightarrow> event line_parser" where
  "config_access is_read b =
     lh_step TrimL (
     field ''dev '' (ParseUintTrim 10) (\<lambda>dev.
     field '' func '' (ParseUintTrim 10) (\<lambda>func.
     field '' reg 0x'' (ParseUintTrim 16) (\<lambda>reg.
     lh_check (ConsumeAndTrimChar CHR '' '') (
     lh_bind (ParseUintTrim 10) (\<lambda>bytes.
     lh_check (ConsumeAndTrimString '' bytes: data = '') (
     lh_orelse
       (field ''0x'' (ParseUintTrim 16) (\<lambda>dat. lh_return (HostConf b dev func reg bytes dat is_read)))
       (lh_check (ConsumeAndTrimChar CHR ''0'') (lh_return (HostConf b dev func reg bytes 0 is_read)))
     )))))))"

definition dma_access :: "string \<Rightarrow> (u64 \<Rightarrow> u64 \<Rightarrow> u64 \<Rightarrow> event) \<Rightarrow> event line_parser" where
  "dma_access s mk =
     field s (ParseUintTrim 10) (\<lambda>i.
     field '' addr '' (ParseUintTrim 16) (\<lambda>addr.
     field '' size '' (ParseUintTrim 10) (\<lambda>sz. lh_return (mk i addr sz))))"

definition received_message :: "ev_base \<Rightarrow> event line_parser" where
  "received_message b =
     lh_orelse
       (lh_check (ConsumeAndTrimString ''write '')
          (field ''completion id '' (ParseUintTrim 10) (\<lambda>i. lh_return (HostMmioCW b i))))
    (lh_orelse
       (lh_check (ConsumeAndTrimString ''read '')
          (field ''completion id '' (ParseUintTrim 10) (\<lambda>i. lh_return (HostMmioCR b i))))
    (lh_if (ConsumeAndTrimString ''DMA '')
       (lh_orelse (dma_access ''write id '' (HostDmaW b)) (dma_access ''read id '' (HostDmaR b)))
       (till_field ''MSI-X intr vec '' (ParseUintTrim 10) (\<lambda>vec. lh_return (HostMsiX b vec)))))"

definition mmio_request :: "bool \<Rightarrow> ev_base \<Rightarrow> event line_parser" where
  "mmio_request is_read b =
     lh_bind (ParseUintTrim 16) (\<lambda>addr.
     field '' size '' (ParseUintTrim 10) (\<lambda>sz.
     field '' id '' (ParseUintTrim 10) (\<lambda>i.
     field '' bar '' ParseInt (\<lambda>bar.
     field '' offs '' (ParseUintTrim 16) (\<lambda>offset.
       if is_read then lh_return (HostMmioR b i addr sz bar offset)
       else field '' posted '' ParseBoolFromInt (\<lambda>posted.
              lh_return (HostMmioW b i addr sz bar offset posted)))))))"

definition sending_message :: "ev_base \<Rightarrow> event line_parser" where
  "sending_message b =
     lh_if (ConsumeAndTrimString ''read addr '') (mmio_request True b) (
     lh_if (ConsumeAndTrimString ''write addr '') (mmio_request False b) (
     lh_if (ConsumeAndTrimString ''immediate response for posted write'')
       (lh_return (HostMmioImRespPoW b)) lh_fail))"

definition ParseSystemPcSimbricks :: "ev_base \<Rightarrow> event line_parser" where
  "ParseSystemPcSimbricks b =
     lh_check SkipTillWhitespace (
     lh_step TrimL (
     lh_if (ConsumeAndTrimString ''readConfig:'') (config_access True b) (
     lh_if (ConsumeAndTrimString ''writeConfig:'') (config_access False b) (
     lh_if (ConsumeAndTrimString ''simbricks-pci:'')
       (lh_step TrimL (
        lh_if (ConsumeAndTrimString ''received '') (received_message b) (
        lh_if (ConsumeAndTrimString ''sending '') (sending_message b) (
        field ''completed DMA id '' (ParseUintTrim 10) (\<lambda>i. lh_return (HostDmaC b i))))))
       lh_fail))))"

section \<open>\<open>ParseEvent\<close>\<close>

text \<open>A prefix whose component is filtered out is consumed before the next test is made.\<close>

definition gem5_component :: "symbol_env \<Rightarrow> ComponentFilter \<Rightarrow> ev_base \<Rightarrow> event line_parser" where
  "gem5_component env component_table b =
     (let passes = (\<lambda>c. ComponentFilter_filter c component_table) in
      lh_if (lh_and (ConsumeAndTrimString ''global:'') (passes ''global'')) (ParseGlobalEvent b) (
      lh_if (lh_and (ConsumeAndTrimString ''system.switch_cpus:'') (passes ''system.switch_cpus''))
        (ParseSystemSwitchCpus env b) (
      lh_check (ConsumeAndTrimString ''system.pc'') (
      lh_if (ConsumeAndTrimString ''.pci_host'')
        (lh_if (lh_and (ConsumeAndTrimString ''.interface'') (passes ''system.pc.pci_host.interface''))
           (ParseSystemPcPciHostInterface b)
           (if passes ''system.pc.pci_host'' then ParseSystemPcPciHost b else lh_fail)) (
      lh_check (lh_and (ConsumeAndTrimString ''.simbricks'') (passes ''system.pc.simbricks''))
        (ParseSystemPcSimbricks b))))))"

definition Gem5_ParseEvent ::
  "ComponentFilter \<Rightarrow> u64 \<Rightarrow> string \<Rightarrow> symbol_env \<Rightarrow> event line_parser"
where
  "Gem5_ParseEvent component_table ident nm env h =
     (if IsEmpty h then lh_fail h
      else
        lh_bind ParseTimestamp (\<lambda>timestamp.
        lh_check (ConsumeAndTrimChar CHR '':'') (
        lh_step TrimL (gem5_component env component_table (log_base ident nm timestamp)))) h)"

definition gem5_parser :: "ComponentFilter \<Rightarrow> u64 \<Rightarrow> string \<Rightarrow> symbol_env event_parser" where
  "gem5_parser component_table ident nm h env =
     lift_parser (Gem5_ParseEvent component_table ident nm env) h env"

section \<open>The events it makes\<close>

lemma tests_and [yields_intros]:
  assumes "tests p"
  shows "tests (lh_and p b)"
  unfolding tests_def
proof
  fix s
  obtain r n where "consumes p s r n" using assms unfolding tests_def by blast
  then have "consumes (lh_and p b) s (r \<and> b) n" by (simp add: consumes_def lh_and_def)
  then show "\<exists>r n. consumes (lh_and p b) s r n" by blast
qed

lemma yields_host_call:
  assumes "symbols_ok env"
  shows "yields (made_by ident nm) (host_call env (log_base ident nm ts) addr)"
proof (cases "SymtableFilter addr (fst env)")
  case (Pair p c)
  have "yields (made_by ident nm) (\<lambda>h. Inr (None, h))" by (rule yields_const) simp
  moreover have "yields (made_by ident nm)
      (\<lambda>h. Inr (Some (HostCall (log_base ident nm ts) addr (Some func) (Some component)), h))" for func component
    by (rule yields_const) auto
  moreover have "deref (snd env) q \<noteq> None" if "p = Some q" for q
    using SymtableFilter_ok[of "fst env" "snd env" addr q] assms Pair that by simp
  ultimately show ?thesis
    by (cases p; cases c) (auto simp: host_call_def[abs_def] Pair)
qed

lemma yields_gem5_component:
  assumes "symbols_ok env"
  shows "yields (made_by ident nm) (gem5_component env component_table (log_base ident nm ts))"
  unfolding gem5_component_def Let_def ParseGlobalEvent_def ParseSystemSwitchCpus_def
    instr_or_call_def ParseSystemPcPciHost_def pci_access_def ParseSystemPcPciHostInterface_def
    ParseSystemPcSimbricks_def config_access_def received_message_def dma_access_def
    sending_message_def mmio_request_def
  by (intro yields_intros yields_host_call[OF assms] made_by_base; simp)

lemma yields_Gem5_ParseEvent:
  "symbols_ok env \<Longrightarrow> yields (made_by ident nm) (Gem5_ParseEvent component_table ident nm env)"
  unfolding Gem5_ParseEvent_def[abs_def]
  by (intro yields_nonempty yields_intros yields_gem5_component)

interpretation gem5_log: identified_parser "gem5_parser component_table ident nm" symbols_ok ident nm
  for component_table ident nm
proof unfold_locales
  fix env s
  assume ok: "symbols_ok env"
  show "\<exists>e n st'. symbols_ok st' \<and> (\<forall>pre post. gem5_parser component_table ident nm (line pre s post) env =
      Inr (e, line (pre @ take n s) (drop n s) post, st'))"
    using yields_lift[OF yields_Gem5_ParseEvent[OF ok], where s = s and st = env] ok
    unfolding gem5_parser_def by metis
next
  fix env l e st'
  assume ok: "symbols_ok env" and e: "event_of_line (gem5_parser component_table ident nm) l env = (Some e, st')"
  then have "event_of_line (lift_parser (Gem5_ParseEvent component_table ident nm env)) l env = (Some e, st')"
    by (simp add: event_of_line_def gem5_parser_def)
  then show "made_by ident nm e" by (rule yields_event_of_line[OF yields_Gem5_ParseEvent[OF ok]])
qed

end
