(* ===== verification/StreamParser.thy ===== *)
theory StreamParser
  imports LogParser EventStream
begin

text \<open>
  The event stream parser provides the interface of the log parsers: its result and the
  strings it internalizes depend on the text of the line alone. Its events carry the
  identifier and name printed in the line, so it is not an \<open>identified_parser\<close>.
\<close>

lemma yields_option [yields_intros]: "(\<And>x. r = Some x \<Longrightarrow> Q x) \<Longrightarrow> yields Q (lh_option r)"
  unfolding lh_option_def by (rule yields_const)

lemma yields_network: "yields (\<lambda>_. True) (ParseNetworkEvent ty b)"
  unfolding ParseNetworkEvent_def by (intro yields_intros TrueI)

lemma yields_branches:
  assumes "(n, p) \<in> set (event_branches b)"
  shows "yields (\<lambda>_. True) p"
proof -
  have "list_all (\<lambda>(n, p). yields (\<lambda>_. True) p) (event_branches b)"
    unfolding event_branches_def list.pred_inject prod.case parse_pc_call_def parse_id_def
      parse_id_addr_size_def parse_mmio_def parse_conf_def parse_pci_def parse_nic_mmio_def
      parse_nic_rx_def
    by (intro conjI list.pred_inject(1) yields_intros yields_network TrueI)
  then show ?thesis using assms by (auto simp: list_all_iff)
qed

lemma yields_body: "yields (\<lambda>_. True) (ParseEventBody event_name b)"
  unfolding ParseEventBody_def
  by (auto intro!: yields_intros dest: map_of_SomeD intro: yields_branches split: option.splits)

lemma yields_prefix: "yields (\<lambda>_. True) ParseIdentNameTs"
  unfolding ParseIdentNameTs_def by (intro yields_intros TrueI)

lemma consumes_then:
  assumes "consumes p s r n" and "consumes q (drop n s) r' m"
  shows "p (line pre s post) = Inr (r, line (pre @ take n s) (drop n s) post) \<and>
    q (line (pre @ take n s) (drop n s) post) =
      Inr (r', line (pre @ take (n + m) s) (drop (n + m) s) post)"
  using assms by (simp add: consumes_def take_add drop_drop add.commute[of m])

lemma ParseStreamEvent_on_text:
  "\<exists>e n st'. \<forall>pre post. ParseStreamEvent (line pre s post) st =
     Inr (e, line (pre @ take n s) (drop n s) post, st')"
proof -
  let ?trim = "\<lambda>h. rbind (TrimL h) (\<lambda>h'. Inr ((), h'))"
  let ?name = "ExtractAndSubstrUntil (\<lambda>c. c \<noteq> CHR '':'')"
  define n1 where "n1 = length (takeWhile is_space s)"
  define t where "t = drop n1 s"
  define n2 where "n2 = length (takeWhile (\<lambda>c. c \<noteq> CHR '':'') t)"
  define nm where "nm = takeWhile (\<lambda>c. c \<noteq> CHR '':'') t"
  have c1: "consumes ?trim s () n1"
    unfolding n1_def by (rule consumes_takeWhile) (simp add: TrimL_line)
  have c2: "consumes ?name t nm n2"
    unfolding n2_def nm_def by (rule consumes_takeWhile) (rule ExtractAndSubstrUntil_line)
  have h2: "TrimL (line pre s post) = Inr (line (pre @ take n1 s) t post) \<and>
      ?name (line (pre @ take n1 s) t post) =
        Inr (nm, line (pre @ take (n1 + n2) s) (drop (n1 + n2) s) post)" for pre post
    using consumes_then[OF c1, of ?name nm n2 pre post] c2
    by (auto simp: t_def rbind_eq_Inr)
  show ?thesis
  proof (cases "nm = []")
    case True
    then show ?thesis using h2 by (intro exI[of _ None] exI[of _ "n1 + n2"] exI[of _ st]) (simp add: ParseStreamEvent_def)
  next
    case False
    obtain r n3 where c3: "consumes ParseIdentNameTs (drop (n1 + n2) s) r n3"
      using yieldsE[OF yields_prefix] by blast
    then have h3: "ParseIdentNameTs (line (pre @ take (n1 + n2) s) (drop (n1 + n2) s) post) =
        Inr (r, line (pre @ take (n1 + n2 + n3) s) (drop (n1 + n2 + n3) s) post)" for pre post
      by (simp add: consumes_def take_add drop_drop add.commute[of n3])
    show ?thesis
    proof (cases r)
      case None
      then show ?thesis using h2 h3 False
        by (intro exI[of _ None] exI[of _ "n1 + n2 + n3"] exI[of _ st]) (simp add: ParseStreamEvent_def)
    next
      case (Some q)
      obtain i p ts where q: "q = (i, p, ts)" by (cases q)
      obtain ptr st1 where st1: "Internalize p st = (ptr, st1)" by (cases "Internalize p st")
      have d: "deref st1 ptr = Some p" using deref_Internalize[of p st] st1 by simp
      let ?body = "ParseEventBody nm \<lparr>ev_timestamp = ts, ev_parser_identifier = i, ev_parser_name = p\<rparr>"
      obtain e n4 where c4: "consumes ?body (drop (n1 + n2 + n3) s) e n4"
        using yieldsE[OF yields_body] by blast
      then have "?body (line (pre @ take (n1 + n2 + n3) s) (drop (n1 + n2 + n3) s) post) =
          Inr (e, line (pre @ take (n1 + n2 + n3 + n4) s) (drop (n1 + n2 + n3 + n4) s) post)" for pre post
        by (simp add: consumes_def take_add drop_drop add.commute[of n4])
      then show ?thesis using h2 h3 False Some q st1 d
        by (intro exI[of _ e] exI[of _ "n1 + n2 + n3 + n4"] exI[of _ "internalize_call e st1"])
           (simp add: ParseStreamEvent_def)
    qed
  qed
qed

interpretation stream_parser: log_parser ParseStreamEvent "\<lambda>_. True"
  by unfold_locales (use ParseStreamEvent_on_text in blast)

end
