(* ===== verification/Channel.thy ===== *)
theory Channel
  imports Prelude
begin

text \<open>
  The channels between tasks (include/sync/channel.h): the bounded channel, a ring buffer;
  the unbounded channel, a list; and the sink. The \<open>Coro\<close> and \<open>NonCoro\<close> classes are the
  same code under an asynchronous lock and a mutex; each method holds its lock from the
  first to the last access, so it is one atomic operation. A method that waits for its
  condition variable is \<open>Blocked\<close> in the states in which its condition is false.
\<close>

section \<open>The bounded channel\<close>

text \<open>
  \<open>reserve(capacity)\<close> provides the storage the methods index; a slot holds \<open>None\<close> until it
  is first written. A slot that was read keeps its old (moved-from) content.
\<close>

record 'v CoroBoundedChannel =
  bc_size :: nat
  bc_closed :: bool
  bc_poisened :: bool
  bc_capacity :: nat
  bc_buffer :: "'v option list"
  bc_read_index :: nat
  bc_write_index :: nat

definition CoroBoundedChannel_new :: "nat \<Rightarrow> 'v CoroBoundedChannel" where
  "CoroBoundedChannel_new capacity =
     \<lparr>bc_size = 0, bc_closed = False, bc_poisened = False, bc_capacity = capacity,
      bc_buffer = replicate capacity None, bc_read_index = 0, bc_write_index = 0\<rparr>"

definition perform_write :: "'v \<Rightarrow> 'v CoroBoundedChannel \<Rightarrow> 'v CoroBoundedChannel res" where
  "perform_write v c =
     rbind (assert_that (bc_size c < bc_capacity c) ''the channel should not be full here'') (\<lambda>_.
     rbind (assert_that (bc_write_index c < bc_capacity c) ''cannot write out of bound'') (\<lambda>_.
       Inr (c\<lparr>bc_buffer := (bc_buffer c)[bc_write_index c := Some v],
              bc_write_index := (bc_write_index c + 1) mod bc_capacity c,
              bc_size := bc_size c + 1\<rparr>)))"

definition slot_at :: "nat \<Rightarrow> 'v CoroBoundedChannel \<Rightarrow> 'v res" where
  "slot_at i c =
     or_undefined (if i < length (bc_buffer c) then bc_buffer c ! i else None) ''buffer_[index]''"

definition perform_read :: "'v CoroBoundedChannel \<Rightarrow> ('v \<times> 'v CoroBoundedChannel) res" where
  "perform_read c =
     rbind (assert_that (bc_size c > 0) ''the channel should not be empty here'') (\<lambda>_.
     rbind (assert_that (bc_read_index c < bc_capacity c) ''cannot read out of bound'') (\<lambda>_.
     rbind (slot_at (bc_read_index c) c) (\<lambda>result.
       Inr (result, c\<lparr>bc_read_index := (bc_read_index c + 1) mod bc_capacity c,
                      bc_size := bc_size c - 1\<rparr>))))"

definition bounded_Empty :: "'v CoroBoundedChannel \<Rightarrow> bool" where
  "bounded_Empty c = (bc_size c = 0)"

definition bounded_GetSize :: "'v CoroBoundedChannel \<Rightarrow> nat" where
  "bounded_GetSize c = bc_size c"

definition bounded_CloseChannel :: "'v CoroBoundedChannel \<Rightarrow> 'v CoroBoundedChannel" where
  "bounded_CloseChannel c = c\<lparr>bc_closed := True\<rparr>"

definition bounded_PoisenChannel :: "'v CoroBoundedChannel \<Rightarrow> 'v CoroBoundedChannel" where
  "bounded_PoisenChannel c = c\<lparr>bc_poisened := True\<rparr>"

definition bounded_Push :: "'v \<Rightarrow> 'v CoroBoundedChannel \<Rightarrow> (bool \<times> 'v CoroBoundedChannel) res" where
  "bounded_Push v c =
     (if \<not> (bc_closed c \<or> bc_poisened c \<or> bc_size c < bc_capacity c) then Inl Blocked
      else if bc_closed c \<or> bc_poisened c then Inr (False, c)
      else rbind (perform_write v c) (\<lambda>c'. Inr (True, c')))"

definition bounded_TryPush :: "'v \<Rightarrow> 'v CoroBoundedChannel \<Rightarrow> (bool \<times> 'v CoroBoundedChannel) res" where
  "bounded_TryPush v c =
     (if bc_closed c \<or> bc_poisened c \<or> bc_size c \<ge> bc_capacity c then Inr (False, c)
      else rbind (perform_write v c) (\<lambda>c'. Inr (True, c')))"

definition bounded_Pop :: "'v CoroBoundedChannel \<Rightarrow> ('v option \<times> 'v CoroBoundedChannel) res" where
  "bounded_Pop c =
     (if \<not> (bc_poisened c \<or> bc_closed c \<or> bc_size c > 0) then Inl Blocked
      else if bc_poisened c then Inr (None, c)
      else if bc_size c = 0 then Inr (None, c)
      else rbind (perform_read c) (\<lambda>(v, c'). Inr (Some v, c')))"

definition bounded_WaitTillValue :: "'v CoroBoundedChannel \<Rightarrow> bool res" where
  "bounded_WaitTillValue c =
     (if \<not> (bc_poisened c \<or> bc_closed c \<or> bc_size c > 0) then Inl Blocked
      else if bc_poisened c then Inr False
      else Inr (bc_size c > 0))"

definition bounded_TryPop :: "'v CoroBoundedChannel \<Rightarrow> ('v option \<times> 'v CoroBoundedChannel) res" where
  "bounded_TryPop c =
     (if bc_poisened c then Inr (None, c)
      else if bc_size c = 0 then Inr (None, c)
      else rbind (perform_read c) (\<lambda>(v, c'). Inr (Some v, c')))"

definition bounded_TryPopOnTrue ::
  "('v \<Rightarrow> bool) \<Rightarrow> 'v CoroBoundedChannel \<Rightarrow> ('v option \<times> 'v CoroBoundedChannel) res"
where
  "bounded_TryPopOnTrue predicate c =
     (if bc_poisened c \<or> bc_size c = 0 then Inr (None, c)
      else
        rbind (assert_that (bc_read_index c < bc_capacity c) ''cannot read out of bound'') (\<lambda>_.
        rbind (slot_at (bc_read_index c) c) (\<lambda>v.
          if \<not> predicate v then Inr (None, c)
          else rbind (perform_read c) (\<lambda>(v, c'). Inr (Some v, c')))))"

text \<open>
  The values \<open>Display\<close> prints. In \<open>read_index_ + index % capacity_\<close> the remainder is taken
  of the index alone.
\<close>

fun display_slots :: "nat \<Rightarrow> nat \<Rightarrow> 'v CoroBoundedChannel \<Rightarrow> 'v list res" where
  "display_slots 0 index c = Inr []"
| "display_slots (Suc n) index c =
     rbind (slot_at (bc_read_index c + index mod bc_capacity c) c) (\<lambda>v.
     rbind (display_slots n (index + 1) c) (\<lambda>vs. Inr (v # vs)))"

definition bounded_Display :: "'v CoroBoundedChannel \<Rightarrow> 'v list res" where
  "bounded_Display c = display_slots (bc_size c) 0 c"

section \<open>The unbounded channel\<close>

record 'v CoroUnBoundedChannel =
  uc_size :: nat
  uc_closed :: bool
  uc_poisened :: bool
  uc_buffer :: "'v list"

definition CoroUnBoundedChannel_new :: "'v CoroUnBoundedChannel" where
  "CoroUnBoundedChannel_new = \<lparr>uc_size = 0, uc_closed = False, uc_poisened = False, uc_buffer = []\<rparr>"

definition unbounded_CloseChannel :: "'v CoroUnBoundedChannel \<Rightarrow> 'v CoroUnBoundedChannel" where
  "unbounded_CloseChannel c = c\<lparr>uc_closed := True\<rparr>"

definition unbounded_PoisenChannel :: "'v CoroUnBoundedChannel \<Rightarrow> 'v CoroUnBoundedChannel" where
  "unbounded_PoisenChannel c = c\<lparr>uc_poisened := True\<rparr>"

definition unbounded_Push ::
  "'v \<Rightarrow> 'v CoroUnBoundedChannel \<Rightarrow> (bool \<times> 'v CoroUnBoundedChannel) res"
where
  "unbounded_Push v c =
     (if uc_closed c \<or> uc_poisened c then Inr (False, c)
      else Inr (True, c\<lparr>uc_buffer := uc_buffer c @ [v], uc_size := uc_size c + 1\<rparr>))"

definition unbounded_TryPush ::
  "'v \<Rightarrow> 'v CoroUnBoundedChannel \<Rightarrow> (bool \<times> 'v CoroUnBoundedChannel) res"
where
  "unbounded_TryPush v c = unbounded_Push v c"

text \<open>\<open>front()\<close> and \<open>pop_front()\<close> of an empty list are undefined.\<close>

definition pop_front :: "'v CoroUnBoundedChannel \<Rightarrow> ('v option \<times> 'v CoroUnBoundedChannel) res" where
  "pop_front c =
     (case uc_buffer c of
        [] \<Rightarrow> Inl (Undefined ''buffer_.front()'')
      | v # vs \<Rightarrow> Inr (Some v, c\<lparr>uc_buffer := vs, uc_size := uc_size c - 1\<rparr>))"

definition unbounded_Pop :: "'v CoroUnBoundedChannel \<Rightarrow> ('v option \<times> 'v CoroUnBoundedChannel) res" where
  "unbounded_Pop c =
     (if \<not> (uc_poisened c \<or> uc_closed c \<or> uc_size c > 0) then Inl Blocked
      else if uc_poisened c then Inr (None, c)
      else if uc_size c = 0 then Inr (None, c)
      else pop_front c)"

definition unbounded_TryPop ::
  "'v CoroUnBoundedChannel \<Rightarrow> ('v option \<times> 'v CoroUnBoundedChannel) res"
where
  "unbounded_TryPop c =
     (if uc_poisened c \<or> uc_size c = 0 then Inr (None, c) else pop_front c)"

definition unbounded_TryPopOnTrue ::
  "('v \<Rightarrow> bool) \<Rightarrow> 'v CoroUnBoundedChannel \<Rightarrow> ('v option \<times> 'v CoroUnBoundedChannel) res"
where
  "unbounded_TryPopOnTrue predicate c =
     (if uc_poisened c \<or> uc_size c = 0 then Inr (None, c)
      else
        rbind (or_undefined (case uc_buffer c of [] \<Rightarrow> None | v # _ \<Rightarrow> Some v) ''buffer_.front()'')
          (\<lambda>v. if \<not> predicate v then Inr (None, c) else pop_front c))"

section \<open>The sink\<close>

text \<open>A sink accepts everything and never yields anything, its base class pops nothing.\<close>

definition sink_Push :: "'v \<Rightarrow> unit \<Rightarrow> (bool \<times> unit) res" where
  "sink_Push v c = Inr (True, c)"

definition sink_Pop :: "unit \<Rightarrow> ('v option \<times> unit) res" where
  "sink_Pop c = Inr (None, c)"

end
