(* ===== verification/ChannelSpec.thy ===== *)
theory ChannelSpec
  imports Channel
begin

text \<open>
  What a channel promises: an abstract first-in first-out channel, the interface
  \<open>fifo_channel\<close> of the channels that refine it, and what its clients may rely on. Tasks call
  the methods in any interleaving; since each method is atomic, a history of a channel is
  the list of the operations in the order in which they held the lock.
\<close>

section \<open>The abstract channel\<close>

record 'v achan =
  ac_items :: "'v list"
  ac_closed :: bool
  ac_poisened :: bool

datatype 'v chan_op =
    Push 'v | TryPush 'v | Pop | TryPop | TryPopOnTrue "'v \<Rightarrow> bool" | CloseChannel | PoisenChannel

datatype 'v chan_out = Pushed bool | Popped "'v option" | Finished

definition has_room :: "nat option \<Rightarrow> 'v achan \<Rightarrow> bool" where
  "has_room capacity a = (case capacity of None \<Rightarrow> True | Some n \<Rightarrow> length (ac_items a) < n)"

definition take_first :: "'v achan \<Rightarrow> 'v chan_out \<times> 'v achan" where
  "take_first a =
     (case ac_items a of [] \<Rightarrow> (Popped None, a) | v # vs \<Rightarrow> (Popped (Some v), a\<lparr>ac_items := vs\<rparr>))"

fun spec_op :: "nat option \<Rightarrow> 'v chan_op \<Rightarrow> 'v achan \<Rightarrow> ('v chan_out \<times> 'v achan) res" where
  "spec_op n (Push v) a =
     (if ac_closed a \<or> ac_poisened a then Inr (Pushed False, a)
      else if has_room n a then Inr (Pushed True, a\<lparr>ac_items := ac_items a @ [v]\<rparr>)
      else Inl Blocked)"
| "spec_op n (TryPush v) a =
     (if ac_closed a \<or> ac_poisened a \<or> \<not> has_room n a then Inr (Pushed False, a)
      else Inr (Pushed True, a\<lparr>ac_items := ac_items a @ [v]\<rparr>))"
| "spec_op n Pop a =
     (if ac_poisened a then Inr (Popped None, a)
      else if ac_items a = [] \<and> \<not> ac_closed a then Inl Blocked
      else Inr (take_first a))"
| "spec_op n TryPop a = (if ac_poisened a then Inr (Popped None, a) else Inr (take_first a))"
| "spec_op n (TryPopOnTrue P) a =
     (if ac_poisened a then Inr (Popped None, a)
      else case ac_items a of
             [] \<Rightarrow> Inr (Popped None, a)
           | v # _ \<Rightarrow> if P v then Inr (take_first a) else Inr (Popped None, a))"
| "spec_op n CloseChannel a = Inr (Finished, a\<lparr>ac_closed := True\<rparr>)"
| "spec_op n PoisenChannel a = Inr (Finished, a\<lparr>ac_poisened := True\<rparr>)"

section \<open>Histories\<close>

fun run_ops ::
  "('op \<Rightarrow> 'c \<Rightarrow> ('r \<times> 'c) res) \<Rightarrow> 'op list \<Rightarrow> 'c \<Rightarrow> ('r list \<times> 'c) res"
where
  "run_ops step [] c = Inr ([], c)"
| "run_ops step (x # xs) c =
     rbind (step x c) (\<lambda>(r, c'). rbind (run_ops step xs c') (\<lambda>(rs, c''). Inr (r # rs, c'')))"

text \<open>The values that were accepted, and the values that were handed out.\<close>

fun accepted :: "'v chan_op list \<Rightarrow> 'v chan_out list \<Rightarrow> 'v list" where
  "accepted (Push v # xs) (Pushed True # rs) = v # accepted xs rs"
| "accepted (TryPush v # xs) (Pushed True # rs) = v # accepted xs rs"
| "accepted (_ # xs) (_ # rs) = accepted xs rs"
| "accepted _ _ = []"

fun delivered :: "'v chan_out list \<Rightarrow> 'v list" where
  "delivered (Popped (Some v) # rs) = v # delivered rs"
| "delivered (_ # rs) = delivered rs"
| "delivered [] = []"

lemma take_first_delivers:
  "take_first a = (r, a') \<Longrightarrow> delivered (r # rs) @ ac_items a' = delivered [r] @ delivered rs @ ac_items a'
     \<and> ac_items a = delivered [r] @ ac_items a' \<and> ac_closed a' = ac_closed a \<and> ac_poisened a' = ac_poisened a"
  by (auto simp: take_first_def split: list.splits)

lemma accepted_Cons: "accepted (x # xs) (r # rs) = accepted [x] [r] @ accepted xs rs"
  by (cases "([x], [r])" rule: accepted.cases) auto

lemma delivered_Cons: "delivered (r # rs) = delivered [r] @ delivered rs"
  by (cases "[r]" rule: delivered.cases) auto

lemma spec_op_fifo:
  assumes "spec_op n x a = Inr (r, a')"
  shows "ac_items a @ accepted [x] [r] = delivered [r] @ ac_items a'"
  using assms
  by (cases x) (auto simp: take_first_def split: if_splits list.splits)

lemma spec_op_bound:
  assumes "spec_op (Some n) x a = Inr (r, a')" and "length (ac_items a) \<le> n"
  shows "length (ac_items a') \<le> n"
  using assms
  by (cases x) (auto simp: take_first_def has_room_def split: if_splits list.splits)

lemma spec_op_blocked:
  "spec_op n x a = Inl e \<Longrightarrow> e = Blocked \<and> \<not> ac_closed a \<and> \<not> ac_poisened a"
  by (cases x) (auto split: if_splits list.splits)

lemma spec_op_shut:
  assumes "spec_op n x a = Inr (r, a')" and "ac_closed a \<or> ac_poisened a"
  shows "accepted [x] [r] = []" and "ac_closed a' \<or> ac_poisened a'"
  using assms by (cases x; auto simp: take_first_def split: if_splits list.splits)+

lemma spec_op_not_poisened:
  assumes "spec_op n x a = Inr (r, a')" and "\<not> ac_poisened a" and "x \<noteq> PoisenChannel"
  shows "\<not> ac_poisened a'"
  using assms by (cases x; auto simp: take_first_def split: if_splits list.splits)

section \<open>The interface\<close>

locale fifo_channel =
  fixes step :: "'v chan_op \<Rightarrow> 'c \<Rightarrow> ('v chan_out \<times> 'c) res"
    and inv :: "'c \<Rightarrow> bool"
    and view :: "'c \<Rightarrow> 'v achan"
    and capacity :: "'c \<Rightarrow> nat option"
  assumes sim: "inv c \<Longrightarrow>
    (case step x c of
       Inl e \<Rightarrow> spec_op (capacity c) x (view c) = Inl e
     | Inr (r, c') \<Rightarrow>
         spec_op (capacity c) x (view c) = Inr (r, view c') \<and> inv c' \<and> capacity c' = capacity c)"
begin

lemma step_Inr:
  assumes "inv c" and "step x c = Inr (r, c')"
  shows "spec_op (capacity c) x (view c) = Inr (r, view c')" and "inv c'" and "capacity c' = capacity c"
  using sim[OF assms(1), of x] assms(2) by auto

lemma step_Inl:
  assumes "inv c" and "step x c = Inl e"
  shows "spec_op (capacity c) x (view c) = Inl e"
  using sim[OF assms(1), of x] assms(2) by auto

lemma step_of_spec:
  assumes "inv c" and "spec_op (capacity c) x (view c) = Inr (r, a)"
  shows "\<exists>c'. step x c = Inr (r, c') \<and> inv c' \<and> capacity c' = capacity c \<and> view c' = a"
  using sim[OF assms(1), of x] assms(2) by (cases "step x c") auto

lemma history:
  assumes "inv c" and "run_ops step xs c = Inr (rs, c')"
  shows "inv c' \<and> capacity c' = capacity c \<and>
    ac_items (view c) @ accepted xs rs = delivered rs @ ac_items (view c')"
  using assms
proof (induction xs arbitrary: c rs)
  case (Cons x xs)
  obtain r c1 rs' where s: "step x c = Inr (r, c1)" "run_ops step xs c1 = Inr (rs', c')" "rs = r # rs'"
    using Cons.prems(2) by (auto simp: rbind_eq_Inr)
  note st = step_Inr[OF Cons.prems(1) s(1)]
  have ih: "inv c' \<and> capacity c' = capacity c1 \<and>
      ac_items (view c1) @ accepted xs rs' = delivered rs' @ ac_items (view c')"
    by (rule Cons.IH[OF st(2) s(2)])
  have "ac_items (view c) @ accepted [x] [r] = delivered [r] @ ac_items (view c1)"
    by (rule spec_op_fifo[OF st(1)])
  then have "ac_items (view c) @ accepted (x # xs) (r # rs') = delivered (r # rs') @ ac_items (view c')"
    using ih by (metis accepted_Cons append.assoc delivered_Cons)
  then show ?case using ih st(3) s(3) by simp
qed simp

lemma history_stops:
  assumes "inv c" and "run_ops step xs c = Inl e"
  shows "e = Blocked"
  using assms
proof (induction xs arbitrary: c)
  case (Cons x xs)
  show ?case
  proof (cases "step x c")
    case (Inl e')
    then show ?thesis using Cons.prems spec_op_blocked[OF step_Inl[OF Cons.prems(1) Inl]] by simp
  next
    case (Inr p)
    obtain r c1 where p: "p = (r, c1)" by (cases p)
    have "run_ops step xs c1 = Inl e"
      using Cons.prems(2) Inr p by (auto simp: rbind_eq_Inl)
    then show ?thesis using Cons.IH step_Inr(2)[OF Cons.prems(1)] Inr p by blast
  qed
qed simp

lemma history_shut:
  assumes "inv c" and "run_ops step xs c = Inr (rs, c')"
    and "ac_closed (view c) \<or> ac_poisened (view c)"
  shows "accepted xs rs = []"
  using assms
proof (induction xs arbitrary: c rs)
  case (Cons x xs)
  obtain r c1 rs' where s: "step x c = Inr (r, c1)" "run_ops step xs c1 = Inr (rs', c')" "rs = r # rs'"
    using Cons.prems(2) by (auto simp: rbind_eq_Inr)
  note st = step_Inr[OF Cons.prems(1) s(1)]
  have "accepted xs rs' = []"
    by (rule Cons.IH[OF st(2) s(2) spec_op_shut(2)[OF st(1) Cons.prems(3)]])
  then show ?case using spec_op_shut(1)[OF st(1) Cons.prems(3)] s(3) accepted_Cons[of x xs r rs'] by simp
qed simp

lemma refines:
  assumes "inv c"
  shows "rbind (run_ops step xs c) (\<lambda>(rs, c'). Inr (rs, view c')) =
    run_ops (spec_op (capacity c)) xs (view c)"
  using assms
proof (induction xs arbitrary: c)
  case (Cons x xs)
  show ?case
  proof (cases "step x c")
    case (Inl e)
    then show ?thesis using step_Inl[OF Cons.prems Inl] by simp
  next
    case (Inr p)
    obtain r c1 where p: "p = (r, c1)" by (cases p)
    note st = step_Inr[OF Cons.prems Inr[unfolded p]]
    have "run_ops (spec_op (capacity c)) xs (view c1) =
        rbind (run_ops step xs c1) (\<lambda>(rs, c'). Inr (rs, view c'))"
      using Cons.IH[OF st(2)] st(3) by simp
    then show ?thesis using st(1) Inr p
      by (cases "run_ops step xs c1") (auto split: prod.splits)
  qed
qed simp

lemma history_not_poisened:
  assumes "inv c" and "run_ops step xs c = Inr (rs, c')"
    and "\<not> ac_poisened (view c)" and "PoisenChannel \<notin> set xs"
  shows "\<not> ac_poisened (view c')"
  using assms
proof (induction xs arbitrary: c rs)
  case (Cons x xs)
  obtain r c1 rs' where s: "step x c = Inr (r, c1)" "run_ops step xs c1 = Inr (rs', c')"
    using Cons.prems(2) by (auto simp: rbind_eq_Inr)
  note st = step_Inr[OF Cons.prems(1) s(1)]
  have "\<not> ac_poisened (view c1)"
    using spec_op_not_poisened[OF st(1)] Cons.prems(3,4) by auto
  then show ?case using Cons.IH[OF st(2) s(2)] Cons.prems(4) by simp
qed simp

text \<open>A closed channel still hands out everything it holds, and then the end.\<close>

lemma drains:
  assumes "inv c" and "ac_closed (view c)" and "\<not> ac_poisened (view c)"
  shows "\<exists>c'. run_ops step (replicate (length (ac_items (view c)) + 1) Pop) c =
      Inr (map (Popped \<circ> Some) (ac_items (view c)) @ [Popped None], c')"
  using assms
proof (induction "ac_items (view c)" arbitrary: c)
  case Nil
  have "spec_op (capacity c) Pop (view c) = Inr (Popped None, view c)"
    using Nil by (simp add: take_first_def split: list.splits)
  then show ?case using step_of_spec[OF Nil.prems(1)] Nil.hyps by fastforce
next
  case (Cons v vs)
  have "spec_op (capacity c) Pop (view c) = Inr (Popped (Some v), (view c)\<lparr>ac_items := vs\<rparr>)"
    using Cons.prems Cons.hyps(2) by (simp add: take_first_def flip: Cons.hyps(2))
  then obtain c1 where c1: "step Pop c = Inr (Popped (Some v), c1)" "inv c1"
      "view c1 = (view c)\<lparr>ac_items := vs\<rparr>"
    using step_of_spec[OF Cons.prems(1)] by blast
  then obtain c' where "run_ops step (replicate (length vs + 1) Pop) c1 =
      Inr (map (Popped \<circ> Some) vs @ [Popped None], c')"
    using Cons.hyps(1)[of c1] Cons.prems by auto
  then show ?case using c1(1) by (simp flip: Cons.hyps(2))
qed

end

section \<open>The bounded channel\<close>

fun bounded_op :: "'v chan_op \<Rightarrow> 'v CoroBoundedChannel \<Rightarrow> ('v chan_out \<times> 'v CoroBoundedChannel) res" where
  "bounded_op (Push v) c = rbind (bounded_Push v c) (\<lambda>(b, c'). Inr (Pushed b, c'))"
| "bounded_op (TryPush v) c = rbind (bounded_TryPush v c) (\<lambda>(b, c'). Inr (Pushed b, c'))"
| "bounded_op Pop c = rbind (bounded_Pop c) (\<lambda>(v, c'). Inr (Popped v, c'))"
| "bounded_op TryPop c = rbind (bounded_TryPop c) (\<lambda>(v, c'). Inr (Popped v, c'))"
| "bounded_op (TryPopOnTrue P) c = rbind (bounded_TryPopOnTrue P c) (\<lambda>(v, c'). Inr (Popped v, c'))"
| "bounded_op CloseChannel c = Inr (Finished, bounded_CloseChannel c)"
| "bounded_op PoisenChannel c = Inr (Finished, bounded_PoisenChannel c)"

definition bounded_slot :: "'v CoroBoundedChannel \<Rightarrow> nat \<Rightarrow> 'v option" where
  "bounded_slot c k = bc_buffer c ! ((bc_read_index c + k) mod bc_capacity c)"

definition bounded_items :: "'v CoroBoundedChannel \<Rightarrow> 'v list" where
  "bounded_items c = map (\<lambda>k. the (bounded_slot c k)) [0..<bc_size c]"

definition bounded_view :: "'v CoroBoundedChannel \<Rightarrow> 'v achan" where
  "bounded_view c =
     \<lparr>ac_items = bounded_items c, ac_closed = bc_closed c, ac_poisened = bc_poisened c\<rparr>"

definition bounded_inv :: "'v CoroBoundedChannel \<Rightarrow> bool" where
  "bounded_inv c =
     (length (bc_buffer c) = bc_capacity c \<and> bc_size c \<le> bc_capacity c \<and>
      (bc_capacity c > 0 \<longrightarrow> bc_read_index c < bc_capacity c) \<and>
      bc_write_index c = (bc_read_index c + bc_size c) mod bc_capacity c \<and>
      (\<forall>k < bc_size c. bounded_slot c k \<noteq> None))"

lemma mod_add_inj:
  fixes r j k n :: nat
  assumes "j < n" and "k < n" and "(r + j) mod n = (r + k) mod n"
  shows "j = k"
proof -
  have le: "a = b" if "a \<le> b" "b < n" "(r + a) mod n = (r + b) mod n" for a b :: nat
  proof -
    have "n dvd (r + b) - (r + a)" using that mod_eq_dvd_iff_nat[of "r + a" "r + b" n] by simp
    then show ?thesis using that nat_dvd_not_less[of "b - a" n] by (cases "b - a = 0") auto
  qed
  show ?thesis using le[of j k] le[of k j] assms by (cases "j \<le> k") auto
qed

lemma slot_at_bounded:
  assumes "bounded_inv c" and "k < bc_size c"
  shows "slot_at ((bc_read_index c + k) mod bc_capacity c) c = Inr (bounded_items c ! k)"
proof -
  have "bc_capacity c > 0" using assms by (auto simp: bounded_inv_def)
  then have "(bc_read_index c + k) mod bc_capacity c < length (bc_buffer c)"
    using assms(1) by (simp add: bounded_inv_def)
  moreover have "bounded_slot c k \<noteq> None" using assms by (simp add: bounded_inv_def)
  ultimately show ?thesis
    using assms(2) by (auto simp: slot_at_def bounded_items_def bounded_slot_def)
qed

lemma bounded_read:
  assumes "bounded_inv c" and "bc_size c > 0"
  shows "\<exists>c'. perform_read c = Inr (hd (bounded_items c), c') \<and> bounded_inv c' \<and>
    bounded_view c' = (bounded_view c)\<lparr>ac_items := tl (bounded_items c)\<rparr> \<and>
    bc_capacity c' = bc_capacity c"
proof -
  let ?n = "bc_capacity c" and ?r = "bc_read_index c"
  define c' where "c' = c\<lparr>bc_read_index := (?r + 1) mod ?n, bc_size := bc_size c - 1\<rparr>"
  have same: "bc_size c' = bc_size c - 1" "bc_capacity c' = ?n" "bc_buffer c' = bc_buffer c"
    "bc_closed c' = bc_closed c" "bc_poisened c' = bc_poisened c"
    "bc_write_index c' = bc_write_index c" "bc_read_index c' = Suc ?r mod ?n"
    by (simp_all add: c'_def)
  have r: "?r < ?n" "bc_size c \<le> ?n" using assms by (auto simp: bounded_inv_def)
  have slot: "bounded_slot c' k = bounded_slot c (Suc k)" for k
    using mod_add_left_eq[of "Suc ?r" ?n k] by (simp add: bounded_slot_def same)
  have "slot_at ?r c = Inr (bounded_items c ! 0)"
    using slot_at_bounded[OF assms] r(1) by simp
  moreover have "bounded_items c \<noteq> []" using assms(2) by (simp add: bounded_items_def)
  ultimately have "perform_read c = Inr (hd (bounded_items c), c')"
    using assms(2) r(1) by (simp add: perform_read_def hd_conv_nth c'_def)
  moreover have "bounded_items c' = tl (bounded_items c)"
    by (rule nth_equalityI) (auto simp: bounded_items_def slot same nth_tl less_diff_conv)
  moreover have "bounded_inv c'"
    using assms r mod_add_left_eq[of "Suc ?r" ?n "bc_size c - 1"]
    by (auto simp: bounded_inv_def slot same)
  ultimately show ?thesis using same by (auto simp: bounded_view_def)
qed

lemma bounded_write:
  assumes "bounded_inv c" and "bc_size c < bc_capacity c"
  shows "\<exists>c'. perform_write v c = Inr c' \<and> bounded_inv c' \<and>
    bounded_view c' = (bounded_view c)\<lparr>ac_items := bounded_items c @ [v]\<rparr> \<and>
    bc_capacity c' = bc_capacity c"
proof -
  let ?n = "bc_capacity c" and ?w = "bc_write_index c"
  let ?c = "c\<lparr>bc_buffer := (bc_buffer c)[?w := Some v], bc_write_index := (?w + 1) mod ?n,
              bc_size := bc_size c + 1\<rparr>"
  have n: "?n > 0" using assms(2) by simp
  have w: "?w = (bc_read_index c + bc_size c) mod ?n" "?w < ?n" "length (bc_buffer c) = ?n"
    using assms n by (auto simp: bounded_inv_def)
  have old: "bounded_slot ?c k = bounded_slot c k" if "k < bc_size c" for k
    using mod_add_inj[of k ?n "bc_size c" "bc_read_index c"] that assms w
    by (auto simp: bounded_slot_def nth_list_update)
  have new: "bounded_slot ?c (bc_size c) = Some v"
    using w by (simp add: bounded_slot_def)
  have "perform_write v c = Inr ?c" using assms(2) w by (simp add: perform_write_def)
  moreover have "bounded_items ?c = bounded_items c @ [v]"
    using old new by (simp add: bounded_items_def)
  moreover have "bounded_inv ?c"
    using assms w old new by (auto simp: bounded_inv_def less_Suc_eq mod_Suc_eq)
  ultimately show ?thesis by (auto simp: bounded_view_def)
qed

lemma bounded_items_Nil: "bounded_items c = [] \<longleftrightarrow> bc_size c = 0"
  by (simp add: bounded_items_def)

lemma length_bounded_items [simp]: "length (bounded_items c) = bc_size c"
  by (simp add: bounded_items_def)

lemma bounded_room: "has_room (Some (bc_capacity c)) (bounded_view c) \<longleftrightarrow> bc_size c < bc_capacity c"
  by (simp add: has_room_def bounded_view_def)

lemma bounded_pop_first:
  assumes "bounded_inv c" and "bc_size c > 0"
  shows "\<exists>c'. rbind (perform_read c) (\<lambda>(v, c'). Inr (Some v, c')) = Inr (Some (hd (bounded_items c)), c') \<and>
    take_first (bounded_view c) = (Popped (Some (hd (bounded_items c))), bounded_view c') \<and>
    bounded_inv c' \<and> bc_capacity c' = bc_capacity c"
  using bounded_read[OF assms] bounded_items_Nil[of c] assms(2)
  by (cases "bounded_items c") (auto simp: take_first_def bounded_view_def)

lemma bounded_view_simps [simp]:
  "ac_items (bounded_view c) = bounded_items c"
  "ac_closed (bounded_view c) = bc_closed c"
  "ac_poisened (bounded_view c) = bc_poisened c"
  by (simp_all add: bounded_view_def)

lemma take_first_Nil: "ac_items a = [] \<Longrightarrow> take_first a = (Popped None, a)"
  by (simp add: take_first_def)

lemma bounded_sim:
  assumes "bounded_inv c"
  shows "case bounded_op x c of
      Inl e \<Rightarrow> spec_op (Some (bc_capacity c)) x (bounded_view c) = Inl e
    | Inr (r, c') \<Rightarrow>
        spec_op (Some (bc_capacity c)) x (bounded_view c) = Inr (r, bounded_view c') \<and>
        bounded_inv c' \<and> Some (bc_capacity c') = Some (bc_capacity c)"
proof (cases x)
  case (Push v)
  then show ?thesis
    using assms bounded_write[of c v] bounded_room[of c] by (auto simp: bounded_Push_def)
next
  case (TryPush v)
  then show ?thesis
    using assms bounded_write[of c v] bounded_room[of c] by (auto simp: bounded_TryPush_def)
next
  case Pop
  then show ?thesis
    using assms bounded_pop_first[OF assms] bounded_items_Nil[of c]
    by (auto simp: bounded_Pop_def take_first_Nil)
next
  case TryPop
  then show ?thesis
    using assms bounded_pop_first[OF assms] bounded_items_Nil[of c]
    by (auto simp: bounded_TryPop_def take_first_Nil)
next
  case (TryPopOnTrue P)
  show ?thesis
  proof (cases "bc_poisened c \<or> bc_size c = 0")
    case True
    then show ?thesis
      using TryPopOnTrue assms bounded_items_Nil[of c]
      by (auto simp: bounded_TryPopOnTrue_def)
  next
    case False
    then obtain v vs where vs: "bounded_items c = v # vs"
      using bounded_items_Nil[of c] by (cases "bounded_items c") auto
    have "bc_read_index c < bc_capacity c" using assms False by (auto simp: bounded_inv_def)
    moreover from this have "slot_at (bc_read_index c) c = Inr v"
      using slot_at_bounded[OF assms, of 0] False vs by simp
    ultimately show ?thesis
      using TryPopOnTrue False vs assms bounded_pop_first[OF assms]
      by (auto simp: bounded_TryPopOnTrue_def)
  qed
next
  case CloseChannel
  then show ?thesis
    using assms by (auto simp: bounded_CloseChannel_def bounded_view_def bounded_items_def
        bounded_inv_def bounded_slot_def)
next
  case PoisenChannel
  then show ?thesis
    using assms by (auto simp: bounded_PoisenChannel_def bounded_view_def bounded_items_def
        bounded_inv_def bounded_slot_def)
qed

lemma display_slots_bounded:
  assumes "bounded_inv c" and "i + n = bc_size c"
  shows "display_slots n i c =
    (if bc_read_index c + bc_size c \<le> bc_capacity c \<or> n = 0 then Inr (drop i (bounded_items c))
     else Inl (Undefined ''buffer_[index]''))"
  using assms(2)
proof (induction n arbitrary: i)
  case (Suc n)
  have i: "i < bc_size c" "i < bc_capacity c" "length (bc_buffer c) = bc_capacity c"
    using assms(1) Suc.prems by (auto simp: bounded_inv_def)
  have ih: "display_slots n (Suc i) c =
      (if bc_read_index c + bc_size c \<le> bc_capacity c \<or> n = 0 then Inr (drop (Suc i) (bounded_items c))
       else Inl (Undefined ''buffer_[index]''))"
    by (rule Suc.IH) (use Suc.prems in simp)
  show ?case
  proof (cases "bc_read_index c + i < bc_capacity c")
    case True
    then have "slot_at (bc_read_index c + i) c = Inr (bounded_items c ! i)"
      using slot_at_bounded[OF assms(1) i(1)] by simp
    then show ?thesis
      using ih i True Suc.prems Cons_nth_drop_Suc[of i "bounded_items c"] by auto
  next
    case False
    then show ?thesis using i by (simp add: slot_at_def)
  qed
qed simp

interpretation bounded: fifo_channel bounded_op bounded_inv bounded_view "\<lambda>c. Some (bc_capacity c)"
  by unfold_locales (rule bounded_sim)

lemma bounded_new: "bounded_inv (CoroBoundedChannel_new n)"
  "bounded_view (CoroBoundedChannel_new n) = \<lparr>ac_items = [], ac_closed = False, ac_poisened = False\<rparr>"
  "bc_capacity (CoroBoundedChannel_new n) = n"
  by (simp_all add: bounded_inv_def CoroBoundedChannel_new_def bounded_view_def bounded_items_def)

section \<open>The unbounded channel\<close>

fun unbounded_op :: "'v chan_op \<Rightarrow> 'v CoroUnBoundedChannel \<Rightarrow> ('v chan_out \<times> 'v CoroUnBoundedChannel) res" where
  "unbounded_op (Push v) c = rbind (unbounded_Push v c) (\<lambda>(b, c'). Inr (Pushed b, c'))"
| "unbounded_op (TryPush v) c = rbind (unbounded_TryPush v c) (\<lambda>(b, c'). Inr (Pushed b, c'))"
| "unbounded_op Pop c = rbind (unbounded_Pop c) (\<lambda>(v, c'). Inr (Popped v, c'))"
| "unbounded_op TryPop c = rbind (unbounded_TryPop c) (\<lambda>(v, c'). Inr (Popped v, c'))"
| "unbounded_op (TryPopOnTrue P) c = rbind (unbounded_TryPopOnTrue P c) (\<lambda>(v, c'). Inr (Popped v, c'))"
| "unbounded_op CloseChannel c = Inr (Finished, unbounded_CloseChannel c)"
| "unbounded_op PoisenChannel c = Inr (Finished, unbounded_PoisenChannel c)"

definition unbounded_inv :: "'v CoroUnBoundedChannel \<Rightarrow> bool" where
  "unbounded_inv c = (uc_size c = length (uc_buffer c))"

definition unbounded_view :: "'v CoroUnBoundedChannel \<Rightarrow> 'v achan" where
  "unbounded_view c =
     \<lparr>ac_items = uc_buffer c, ac_closed = uc_closed c, ac_poisened = uc_poisened c\<rparr>"

interpretation unbounded: fifo_channel unbounded_op unbounded_inv unbounded_view "\<lambda>c. None"
proof unfold_locales
  fix c :: "'v CoroUnBoundedChannel" and x
  assume "unbounded_inv c"
  then show "case unbounded_op x c of Inl e \<Rightarrow> spec_op None x (unbounded_view c) = Inl e
      | Inr (r, c') \<Rightarrow> spec_op None x (unbounded_view c) = Inr (r, unbounded_view c') \<and>
          unbounded_inv c' \<and> None = None"
    by (cases x; cases "uc_buffer c")
       (auto simp: unbounded_inv_def unbounded_view_def unbounded_Push_def unbounded_TryPush_def
          unbounded_Pop_def unbounded_TryPop_def unbounded_TryPopOnTrue_def pop_front_def
          unbounded_CloseChannel_def unbounded_PoisenChannel_def take_first_def has_room_def)
qed

lemma unbounded_new: "unbounded_inv CoroUnBoundedChannel_new"
  "unbounded_view CoroUnBoundedChannel_new = \<lparr>ac_items = [], ac_closed = False, ac_poisened = False\<rparr>"
  by (simp_all add: unbounded_inv_def CoroUnBoundedChannel_new_def unbounded_view_def)

lemma unbounded_view_simps [simp]:
  "ac_items (unbounded_view c) = uc_buffer c"
  "ac_closed (unbounded_view c) = uc_closed c"
  "ac_poisened (unbounded_view c) = uc_poisened c"
  by (simp_all add: unbounded_view_def)

lemma spec_op_None_blocked: "spec_op None x a = Inl e \<Longrightarrow> x = Pop"
  by (cases x) (auto simp: has_room_def split: if_splits list.splits)

lemma unbounded_stops_at_Pop:
  assumes "unbounded_inv c" and "run_ops unbounded_op xs c = Inl e"
  shows "Pop \<in> set xs"
  using assms
proof (induction xs arbitrary: c)
  case (Cons x xs)
  show ?case
  proof (cases "unbounded_op x c")
    case (Inl e')
    then show ?thesis using spec_op_None_blocked[OF unbounded.step_Inl[OF Cons.prems(1) Inl]] by simp
  next
    case (Inr p)
    obtain r c1 where p: "p = (r, c1)" by (cases p)
    have "run_ops unbounded_op xs c1 = Inl e"
      using Cons.prems(2) Inr p by (auto simp: rbind_eq_Inl)
    then show ?thesis using Cons.IH unbounded.step_Inr(2)[OF Cons.prems(1) Inr[unfolded p]] by simp
  qed
qed simp

end
