(* ===== verification/ChannelProps.thy ===== *)
theory ChannelProps
  imports ChannelSpec
begin

text \<open>
  The properties of the channels of include/sync/channel.h: the bounded ring buffer and the
  unbounded list implement one abstract first-in first-out channel, whatever the order in
  which their users call them, and closing one loses nothing.
\<close>

definition empty_achan :: "'v achan" where
  "empty_achan = \<lparr>ac_items = [], ac_closed = False, ac_poisened = False\<rparr>"

text \<open> C19.
  The bounded channel refines the abstract channel of the same capacity: every sequence of
  calls on a new channel of capacity n gives the same results as on an empty abstract queue,
  blocks at the same call, and ends with the same content and flags. In particular no call
  ever fails one of the channel's own assertions or reads a slot that was not written.
\<close>
theorem bounded_channel_refines:
  "rbind (run_ops bounded_op xs (CoroBoundedChannel_new n)) (\<lambda>(rs, c). Inr (rs, bounded_view c)) =
   run_ops (spec_op (Some n)) xs empty_achan"
  using bounded.refines[OF bounded_new(1)[of n], of xs]
  by (simp add: bounded_new empty_achan_def)

text \<open> C20.
  Every sequence of calls on a new bounded channel of capacity n either stops at a call that
  must wait, or the values accepted by Push and TryPush are, in order and without loss or
  duplicate, the values handed out followed by the at most n values still stored.
\<close>
theorem bounded_channel_fifo:
  "case run_ops bounded_op xs (CoroBoundedChannel_new n) of
     Inl e \<Rightarrow> e = Blocked
   | Inr (rs, c) \<Rightarrow> accepted xs rs = delivered rs @ bounded_items c \<and> bc_size c \<le> n"
proof (cases "run_ops bounded_op xs (CoroBoundedChannel_new n)")
  case (Inl e)
  then show ?thesis using bounded.history_stops[OF bounded_new(1) Inl] by simp
next
  case (Inr p)
  obtain rs c where p: "p = (rs, c)" by (cases p)
  have "bounded_inv c \<and> Some (bc_capacity c) = Some n \<and> accepted xs rs = delivered rs @ bounded_items c"
    using bounded.history[OF bounded_new(1) Inr[unfolded p]] by (simp add: bounded_new)
  then show ?thesis using Inr p by (simp add: bounded_inv_def)
qed

text \<open> C28.
  The same for the unbounded channel, whose list has no limit: Push never waits, so a
  history that stops stops at a Pop.
\<close>
theorem unbounded_channel_fifo:
  "case run_ops unbounded_op xs CoroUnBoundedChannel_new of
     Inl e \<Rightarrow> e = Blocked \<and> Pop \<in> set xs
   | Inr (rs, c) \<Rightarrow> accepted xs rs = delivered rs @ uc_buffer c \<and> uc_size c = length (uc_buffer c)"
proof (cases "run_ops unbounded_op xs CoroUnBoundedChannel_new")
  case (Inl e)
  then show ?thesis
    using unbounded.history_stops[OF unbounded_new(1) Inl] unbounded_stops_at_Pop[OF unbounded_new(1) Inl]
    by simp
next
  case (Inr p)
  obtain rs c where p: "p = (rs, c)" by (cases p)
  have "unbounded_inv c \<and> accepted xs rs = delivered rs @ uc_buffer c"
    using unbounded.history[OF unbounded_new(1) Inr[unfolded p]] by (simp add: unbounded_new)
  then show ?thesis using Inr p by (simp add: unbounded_inv_def)
qed

text \<open> C27.
  Closing a channel that was not poisened loses nothing: after any history without
  PoisenChannel, closing and popping hands out every value still stored, in order, then the
  end of the channel, and no value pushed after the close is accepted.
\<close>
theorem bounded_channel_drains:
  assumes "run_ops bounded_op xs (CoroBoundedChannel_new n) = Inr (rs, c)"
    and "PoisenChannel \<notin> set xs"
  shows "(\<exists>c'. run_ops bounded_op (replicate (bc_size c + 1) Pop) (bounded_CloseChannel c) =
      Inr (map (Popped \<circ> Some) (bounded_items c) @ [Popped None], c')) \<and>
    bounded_Push v (bounded_CloseChannel c) = Inr (False, bounded_CloseChannel c)"
proof -
  have inv: "bounded_inv c"
    using bounded.history[OF bounded_new(1) assms(1)] by simp
  have np: "\<not> bc_poisened c"
    using bounded.history_not_poisened[OF bounded_new(1) assms(1) _ assms(2)] by (simp add: bounded_new)
  have close: "bounded_op CloseChannel c = Inr (Finished, bounded_CloseChannel c)" by simp
  note st = bounded.step_Inr[OF inv close]
  have "bounded_items (bounded_CloseChannel c) = bounded_items c"
    by (simp add: bounded_items_def bounded_slot_def bounded_CloseChannel_def)
  then have "\<exists>c'. run_ops bounded_op (replicate (bc_size c + 1) Pop) (bounded_CloseChannel c) =
      Inr (map (Popped \<circ> Some) (bounded_items c) @ [Popped None], c')"
    using bounded.drains[OF st(2)] np by (simp add: bounded_CloseChannel_def)
  then show ?thesis by (simp add: bounded_Push_def bounded_CloseChannel_def)
qed

text \<open>A history of a channel of capacity two, after which the ring has wrapped around.\<close>

definition wrapping_history :: "nat chan_op list" where
  "wrapping_history = [Push 1, Push 2, Pop, Push 3]"

lemma wrapping_history_run:
  "run_ops bounded_op wrapping_history (CoroBoundedChannel_new 2) =
   Inr ([Pushed True, Pushed True, Popped (Some 1), Pushed True],
        \<lparr>bc_size = 2, bc_closed = False, bc_poisened = False, bc_capacity = 2,
         bc_buffer = [Some 3, Some 2], bc_read_index = 1, bc_write_index = 1\<rparr>)"
  by (simp add: wrapping_history_def CoroBoundedChannel_new_def bounded_Push_def bounded_Pop_def
      perform_write_def perform_read_def slot_at_def numeral_2_eq_2)

theorem bounded_channel_drains_witness:
  "\<exists>rs c c'. run_ops bounded_op wrapping_history (CoroBoundedChannel_new 2) = Inr (rs, c) \<and>
     bounded_items c = [2, 3] \<and>
     run_ops bounded_op (replicate (bc_size c + 1) Pop) (bounded_CloseChannel c) =
       Inr (map (Popped \<circ> Some) (bounded_items c) @ [Popped None], c')"
proof -
  obtain rs c where c: "run_ops bounded_op wrapping_history (CoroBoundedChannel_new 2) = Inr (rs, c)"
      "bounded_items c = [2, 3]"
    by (rule that[OF wrapping_history_run])
       (simp add: bounded_items_def bounded_slot_def upt_rec)
  then show ?thesis
    using bounded_channel_drains[OF c(1)] by (auto simp: wrapping_history_def)
qed

text \<open> Display prints the stored values, in order, exactly when they do not wrap around the end
  of the ring; when they do, read_index_ + index % capacity_ leaves the buffer, because the
  remainder is taken of the index before the read index is added.
\<close>
theorem bounded_Display_spec:
  assumes "run_ops bounded_op xs (CoroBoundedChannel_new n) = Inr (rs, c)"
  shows "bounded_Display c =
    (if bc_read_index c + bc_size c \<le> n \<or> bc_size c = 0 then Inr (bounded_items c)
     else Inl (Undefined ''buffer_[index]''))"
proof -
  have "bounded_inv c \<and> bc_capacity c = n"
    using bounded.history[OF bounded_new(1) assms] by (simp add: bounded_new)
  then show ?thesis using display_slots_bounded[of c 0 "bc_size c"] by (simp add: bounded_Display_def)
qed

theorem bounded_Display_spec_witness:
  "\<exists>rs c. run_ops bounded_op wrapping_history (CoroBoundedChannel_new 2) = Inr (rs, c) \<and>
     bounded_Display c = Inl (Undefined ''buffer_[index]'')"
  using bounded_Display_spec[OF wrapping_history_run] by (simp add: wrapping_history_run)

end
