(* ===== verification/Pipeline.thy ===== *)
theory Pipeline
  imports ChannelSpec
begin

text \<open>
  The pipelines of include/sync/corobelt.h and include/sync/specializations.h: a producer, a
  vector of handlers and a consumer, each a task of its own, connected by bounded channels.
  Every task is a sequential program that is suspended at its \<open>co_await\<close>s, so its state is
  the point where it waits and the value it holds; a step of the pipeline runs one task
  from one such point to the next. Producer, handlers and consumer are parameters.
\<close>

section \<open>State\<close>

datatype 'v produce_pc = ProduceCall | ProduceAwait | ProducePush 'v | ProduceClose | ProduceDone
datatype 'v handel_pc = HandelPop | HandelCall 'v | HandelPush 'v | HandelClose | HandelDone
datatype 'v consume_pc = ConsumePop | ConsumeCall 'v | ConsumeDone

text \<open>
  \<open>RunPipelineImpl\<close> awaits the tasks in order and closes their channels; the last task, the
  consumer, has none.
\<close>

datatype main_pc = AwaitTask nat | CloseChannelOf nat | PipelineDone

record ('p, 'h, 'c, 'v) pipeline =
  pl_prod :: 'p
  pl_prod_pc :: "'v produce_pc"
  pl_handler :: "'h list"
  pl_handler_pc :: "'v handel_pc list"
  pl_cons :: 'c
  pl_cons_pc :: "'v consume_pc"
  pl_channels :: "'v CoroBoundedChannel list"
  pl_main :: main_pc

text \<open>
  The virtual methods. \<open>produce\<close> is given as what it does when it is called and what it then
  awaits; a producer may have a task of its own in the background.
\<close>

record ('p, 'h, 'c, 'v) pipeline_ops =
  po_produce_start :: "'p \<Rightarrow> 'p"
  po_produce_await :: "'p \<Rightarrow> ('v option \<times> 'p) res"
  po_background :: "'p \<Rightarrow> 'p res"
  po_handel :: "'h \<Rightarrow> 'v \<Rightarrow> bool \<times> 'h"
  po_consume :: "'v \<Rightarrow> 'c \<Rightarrow> 'c res"

definition kDefaultCapacity :: nat where
  "kDefaultCapacity = 1000"

definition RunPipelineImpl :: "'p \<Rightarrow> 'h list \<Rightarrow> 'c \<Rightarrow> ('p, 'h, 'c, 'v) pipeline" where
  "RunPipelineImpl producer handler consumer =
     \<lparr>pl_prod = producer, pl_prod_pc = ProduceCall,
      pl_handler = handler, pl_handler_pc = replicate (length handler) HandelPop,
      pl_cons = consumer, pl_cons_pc = ConsumePop,
      pl_channels = replicate (length handler + 1) (CoroBoundedChannel_new kDefaultCapacity),
      pl_main = AwaitTask 0\<rparr>"

section \<open>Steps\<close>

text \<open>Channel \<open>i\<close> of the vector is replaced by what an operation on it leaves.\<close>

definition set_channel ::
  "nat \<Rightarrow> 'v CoroBoundedChannel \<Rightarrow> ('p, 'h, 'c, 'v) pipeline \<Rightarrow> ('p, 'h, 'c, 'v) pipeline"
where
  "set_channel i c st = st\<lparr>pl_channels := (pl_channels st)[i := c]\<rparr>"

definition channel :: "('p, 'h, 'c, 'v) pipeline \<Rightarrow> nat \<Rightarrow> 'v CoroBoundedChannel" where
  "channel st i = pl_channels st ! i"

definition push_to ::
  "nat \<Rightarrow> 'v \<Rightarrow> ('p, 'h, 'c, 'v) pipeline \<Rightarrow> ('p, 'h, 'c, 'v) pipeline res"
where
  "push_to i v st =
     rbind (bounded_Push v (channel st i)) (\<lambda>(could_push, c).
     rbind (throw_on (\<not> could_push) ''unable to push next event to target channel'') (\<lambda>_.
       Inr (set_channel i c st)))"

fun Produce ::
  "('p, 'h, 'c, 'v) pipeline_ops \<Rightarrow> 'v produce_pc \<Rightarrow> ('p, 'h, 'c, 'v) pipeline \<Rightarrow>
   ('p, 'h, 'c, 'v) pipeline res"
where
  "Produce ops ProduceCall st =
     Inr (st\<lparr>pl_prod := po_produce_start ops (pl_prod st), pl_prod_pc := ProduceAwait\<rparr>)"
| "Produce ops ProduceAwait st =
     rbind (po_produce_await ops (pl_prod st)) (\<lambda>(value, p).
       Inr (st\<lparr>pl_prod := p,
               pl_prod_pc := (case value of None \<Rightarrow> ProduceClose | Some v \<Rightarrow> ProducePush v)\<rparr>))"
| "Produce ops (ProducePush v) st =
     rbind (push_to 0 v st) (\<lambda>st'. Inr (st'\<lparr>pl_prod_pc := ProduceCall\<rparr>))"
| "Produce ops ProduceClose st =
     Inr ((set_channel 0 (bounded_CloseChannel (channel st 0)) st)\<lparr>pl_prod_pc := ProduceDone\<rparr>)"
| "Produce ops ProduceDone st = Inl Blocked"

definition set_handel_pc ::
  "nat \<Rightarrow> 'v handel_pc \<Rightarrow> ('p, 'h, 'c, 'v) pipeline \<Rightarrow> ('p, 'h, 'c, 'v) pipeline"
where
  "set_handel_pc i pc st = st\<lparr>pl_handler_pc := (pl_handler_pc st)[i := pc]\<rparr>"

fun Handel ::
  "('p, 'h, 'c, 'v) pipeline_ops \<Rightarrow> nat \<Rightarrow> 'v handel_pc \<Rightarrow> ('p, 'h, 'c, 'v) pipeline \<Rightarrow>
   ('p, 'h, 'c, 'v) pipeline res"
where
  "Handel ops i HandelPop st =
     rbind (bounded_Pop (channel st i)) (\<lambda>(opt_val, c).
       Inr (set_handel_pc i (case opt_val of None \<Rightarrow> HandelClose | Some v \<Rightarrow> HandelCall v)
              (set_channel i c st)))"
| "Handel ops i (HandelCall v) st =
     (case po_handel ops (pl_handler st ! i) v of
        (pass_on, h) \<Rightarrow>
          Inr (set_handel_pc i (if pass_on then HandelPush v else HandelPop)
                 (st\<lparr>pl_handler := (pl_handler st)[i := h]\<rparr>)))"
| "Handel ops i (HandelPush v) st =
     rbind (push_to (i + 1) v st) (\<lambda>st'. Inr (set_handel_pc i HandelPop st'))"
| "Handel ops i HandelClose st =
     Inr (set_handel_pc i HandelDone
            (set_channel (i + 1) (bounded_CloseChannel (channel st (i + 1))) st))"
| "Handel ops i HandelDone st = Inl Blocked"

fun Consume ::
  "('p, 'h, 'c, 'v) pipeline_ops \<Rightarrow> 'v consume_pc \<Rightarrow> ('p, 'h, 'c, 'v) pipeline \<Rightarrow>
   ('p, 'h, 'c, 'v) pipeline res"
where
  "Consume ops ConsumePop st =
     (let src = length (pl_handler st) in
      rbind (bounded_Pop (channel st src)) (\<lambda>(opt_val, c).
        Inr ((set_channel src c st)
               \<lparr>pl_cons_pc := (case opt_val of None \<Rightarrow> ConsumeDone | Some v \<Rightarrow> ConsumeCall v)\<rparr>)))"
| "Consume ops (ConsumeCall v) st =
     rbind (po_consume ops v (pl_cons st)) (\<lambda>c. Inr (st\<lparr>pl_cons := c, pl_cons_pc := ConsumePop\<rparr>))"
| "Consume ops ConsumeDone st = Inl Blocked"

definition task_done :: "nat \<Rightarrow> ('p, 'h, 'c, 'v) pipeline \<Rightarrow> bool" where
  "task_done index st =
     (if index = 0 then pl_prod_pc st = ProduceDone
      else if index \<le> length (pl_handler st) then pl_handler_pc st ! (index - 1) = HandelDone
      else pl_cons_pc st = ConsumeDone)"

fun AwaitAll :: "main_pc \<Rightarrow> ('p, 'h, 'c, 'v) pipeline \<Rightarrow> ('p, 'h, 'c, 'v) pipeline res" where
  "AwaitAll (AwaitTask index) st =
     (if \<not> task_done index st then Inl Blocked
      else Inr (st\<lparr>pl_main := (if index \<le> length (pl_handler st) then CloseChannelOf index
                              else PipelineDone)\<rparr>))"
| "AwaitAll (CloseChannelOf index) st =
     Inr ((set_channel index (bounded_CloseChannel (channel st index)) st)
            \<lparr>pl_main := AwaitTask (index + 1)\<rparr>)"
| "AwaitAll PipelineDone st = Inl Blocked"

datatype task = ProduceTask | BackgroundTask | HandelTask nat | ConsumeTask | MainTask

fun task_step ::
  "('p, 'h, 'c, 'v) pipeline_ops \<Rightarrow> task \<Rightarrow> ('p, 'h, 'c, 'v) pipeline \<Rightarrow>
   ('p, 'h, 'c, 'v) pipeline res"
where
  "task_step ops ProduceTask st = Produce ops (pl_prod_pc st) st"
| "task_step ops BackgroundTask st =
     rbind (po_background ops (pl_prod st)) (\<lambda>p. Inr (st\<lparr>pl_prod := p\<rparr>))"
| "task_step ops (HandelTask i) st =
     (if i < length (pl_handler st) then Handel ops i (pl_handler_pc st ! i) st else Inl Blocked)"
| "task_step ops ConsumeTask st = Consume ops (pl_cons_pc st) st"
| "task_step ops MainTask st = AwaitAll (pl_main st) st"

text \<open>Any schedule of the executor: the tasks that ran, one step each.\<close>

fun run_tasks ::
  "('p, 'h, 'c, 'v) pipeline_ops \<Rightarrow> task list \<Rightarrow> ('p, 'h, 'c, 'v) pipeline \<Rightarrow>
   ('p, 'h, 'c, 'v) pipeline res"
where
  "run_tasks ops [] st = Inr st"
| "run_tasks ops (t # ts) st = rbind (task_step ops t st) (run_tasks ops ts)"

section \<open>What a pipeline computes\<close>

text \<open>The values a handler passes on, the values that leave all handlers, their consumption.\<close>

primrec pass_on :: "('h \<Rightarrow> 'v \<Rightarrow> bool \<times> 'h) \<Rightarrow> 'h \<Rightarrow> 'v list \<Rightarrow> 'v list" where
  "pass_on handel h [] = []"
| "pass_on handel h (v # vs) =
     (case handel h v of (ok, h') \<Rightarrow> (if ok then [v] else []) @ pass_on handel h' vs)"

definition pass_all :: "('h \<Rightarrow> 'v \<Rightarrow> bool \<times> 'h) \<Rightarrow> 'h list \<Rightarrow> 'v list \<Rightarrow> 'v list" where
  "pass_all handel hs vs = foldl (\<lambda>vs h. pass_on handel h vs) vs hs"

primrec consume_all :: "('v \<Rightarrow> 'c \<Rightarrow> 'c res) \<Rightarrow> 'v list \<Rightarrow> 'c \<Rightarrow> 'c res" where
  "consume_all consume [] c = Inr c"
| "consume_all consume (v # vs) c = rbind (consume v c) (consume_all consume vs)"

section \<open>The interface of a producer\<close>

text \<open>
  What the pipeline relies on: the values a producer is still going to deliver are
  determined by its state, it delivers them in order and then reports the end, and when it
  makes a caller wait its background task can run, at most \<open>rank\<close> times.
\<close>

locale event_source =
  fixes start :: "'p \<Rightarrow> 'p" and await :: "'p \<Rightarrow> ('v option \<times> 'p) res"
    and background :: "'p \<Rightarrow> 'p res"
    and future :: "'p \<Rightarrow> 'v list" and source_inv :: "'p \<Rightarrow> bool" and started :: "'p \<Rightarrow> bool"
    and rank :: "'p \<Rightarrow> nat"
  assumes start_ok: "source_inv p \<Longrightarrow> source_inv (start p) \<and> started (start p) \<and>
      future (start p) = future p \<and> rank (start p) \<le> rank p"
    and await_ok: "source_inv p \<Longrightarrow> started p \<Longrightarrow>
      (case await p of
         Inl e \<Rightarrow> e = Blocked \<and> (\<exists>p'. background p = Inr p')
       | Inr (value, p') \<Rightarrow> source_inv p' \<and> rank p' \<le> rank p \<and>
           (case value of
              None \<Rightarrow> future p = [] \<and> future p' = []
            | Some v \<Rightarrow> future p = v # future p'))"
    and background_ok: "source_inv p \<Longrightarrow>
      (case background p of
         Inl e \<Rightarrow> e = Blocked
       | Inr p' \<Rightarrow> source_inv p' \<and> started p' = started p \<and> future p' = future p \<and> rank p' < rank p)"

end
