(* ===== verification/PipelineSpec.thy ===== *)
theory PipelineSpec
  imports Pipeline
begin

text \<open>
  The invariant of a running pipeline, the values it still has to deliver, and the work it
  still has to do: every step of every task keeps the first two and decreases the third.
\<close>

section \<open>Channels that are never poisoned\<close>

definition channel_ok :: "'v CoroBoundedChannel \<Rightarrow> bool" where
  "channel_ok c = (bounded_inv c \<and> bc_capacity c > 0 \<and> \<not> bc_poisened c)"

lemma channel_ok_new: "n > 0 \<Longrightarrow> channel_ok (CoroBoundedChannel_new n)"
  unfolding channel_ok_def using bounded_new[of n] by (simp add: CoroBoundedChannel_new_def)

lemma pop_cases:
  assumes "channel_ok c"
  obtains (blocked) "bounded_Pop c = Inl Blocked" "\<not> bc_closed c" "bc_size c = 0"
  | (ended) "bounded_Pop c = Inr (None, c)" "bc_closed c" "bc_size c = 0"
  | (item) v c' where "bounded_Pop c = Inr (Some v, c')" "bounded_items c = v # bounded_items c'"
      "channel_ok c'" "bc_closed c' = bc_closed c" "bc_size c = Suc (bc_size c')"
proof (cases "bc_size c = 0")
  case True
  then show ?thesis using that(1,2) assms
    by (cases "bc_closed c") (auto simp: bounded_Pop_def channel_ok_def)
next
  case False
  have inv: "bounded_inv c" using assms by (simp add: channel_ok_def)
  obtain c' where c': "perform_read c = Inr (hd (bounded_items c), c')" "bounded_inv c'"
      "bounded_view c' = (bounded_view c)\<lparr>ac_items := tl (bounded_items c)\<rparr>"
      "bc_capacity c' = bc_capacity c"
    using bounded_read[OF inv] False by auto
  have "bounded_items c' = tl (bounded_items c)" "bc_closed c' = bc_closed c" "bc_poisened c' = bc_poisened c"
    using arg_cong[OF c'(3), of ac_items] arg_cong[OF c'(3), of ac_closed]
      arg_cong[OF c'(3), of ac_poisened] by simp_all
  moreover obtain v vs where vs: "bounded_items c = v # vs"
    using bounded_items_Nil[of c] False by (cases "bounded_items c") auto
  moreover from calculation have "bc_size c = Suc (bc_size c')"
    using length_bounded_items[of c] length_bounded_items[of c'] by simp
  ultimately show ?thesis
    using that(3)[of v c'] c' assms False by (auto simp: bounded_Pop_def channel_ok_def)
qed

lemma push_cases:
  assumes "channel_ok c" and "\<not> bc_closed c"
  obtains (blocked) "bounded_Push v c = Inl Blocked" "bc_size c > 0"
  | (pushed) c' where "bounded_Push v c = Inr (True, c')" "bounded_items c' = bounded_items c @ [v]"
      "channel_ok c'" "\<not> bc_closed c'" "bc_size c' = Suc (bc_size c)"
proof (cases "bc_size c < bc_capacity c")
  case True
  have inv: "bounded_inv c" using assms by (simp add: channel_ok_def)
  obtain c' where c': "perform_write v c = Inr c'" "bounded_inv c'"
      "bounded_view c' = (bounded_view c)\<lparr>ac_items := bounded_items c @ [v]\<rparr>"
      "bc_capacity c' = bc_capacity c"
    using bounded_write[OF inv True] by auto
  have i: "bounded_items c' = bounded_items c @ [v]" "bc_closed c' = bc_closed c" "bc_poisened c' = bc_poisened c"
    using arg_cong[OF c'(3), of ac_items] arg_cong[OF c'(3), of ac_closed]
      arg_cong[OF c'(3), of ac_poisened] by simp_all
  moreover have "bc_size c' = Suc (bc_size c)"
    using length_bounded_items[of c] length_bounded_items[of c'] i(1) by simp
  ultimately show ?thesis
    using that(2)[of c'] c' assms True by (auto simp: bounded_Push_def channel_ok_def)
next
  case False
  then show ?thesis using that(1) assms by (auto simp: bounded_Push_def channel_ok_def)
qed

lemma close_facts [simp]:
  "bounded_items (bounded_CloseChannel c) = bounded_items c"
  "bc_size (bounded_CloseChannel c) = bc_size c"
  "bc_closed (bounded_CloseChannel c)"
  "channel_ok (bounded_CloseChannel c) = channel_ok c"
  by (simp_all add: bounded_CloseChannel_def bounded_items_def bounded_slot_def channel_ok_def
      bounded_inv_def)

section \<open>The values still to be delivered\<close>

fun prod_out :: "('p \<Rightarrow> 'v list) \<Rightarrow> 'v produce_pc \<Rightarrow> 'p \<Rightarrow> 'v list" where
  "prod_out future ProduceCall p = future p"
| "prod_out future ProduceAwait p = future p"
| "prod_out future (ProducePush v) p = v # future p"
| "prod_out future _ p = []"

fun handel_out ::
  "('h \<Rightarrow> 'v \<Rightarrow> bool \<times> 'h) \<Rightarrow> 'v handel_pc \<Rightarrow> 'h \<Rightarrow> 'v list \<Rightarrow> 'v list"
where
  "handel_out handel HandelPop h vs = pass_on handel h vs"
| "handel_out handel (HandelCall v) h vs = pass_on handel h (v # vs)"
| "handel_out handel (HandelPush v) h vs = v # pass_on handel h vs"
| "handel_out handel _ h vs = []"

text \<open>What will be popped from channel \<open>k\<close>.\<close>

primrec upstream ::
  "('h \<Rightarrow> 'v \<Rightarrow> bool \<times> 'h) \<Rightarrow> ('p \<Rightarrow> 'v list) \<Rightarrow> nat \<Rightarrow> ('p, 'h, 'c, 'v) pipeline \<Rightarrow> 'v list"
where
  "upstream handel future 0 st =
     bounded_items (channel st 0) @ prod_out future (pl_prod_pc st) (pl_prod st)"
| "upstream handel future (Suc k) st =
     bounded_items (channel st (Suc k)) @
     handel_out handel (pl_handler_pc st ! k) (pl_handler st ! k) (upstream handel future k st)"

definition remaining ::
  "('h \<Rightarrow> 'v \<Rightarrow> bool \<times> 'h) \<Rightarrow> ('p \<Rightarrow> 'v list) \<Rightarrow> ('p, 'h, 'c, 'v) pipeline \<Rightarrow> 'v list"
where
  "remaining handel future st =
     (let vs = upstream handel future (length (pl_handler st)) st in
      case pl_cons_pc st of ConsumePop \<Rightarrow> vs | ConsumeCall v \<Rightarrow> v # vs | ConsumeDone \<Rightarrow> [])"

lemma upstream_cong:
  assumes "pl_prod_pc st' = pl_prod_pc st" and "pl_prod st' = pl_prod st"
    and "\<And>i. i \<le> k \<Longrightarrow> bounded_items (channel st' i) = bounded_items (channel st i)"
    and "\<And>i. i < k \<Longrightarrow> pl_handler_pc st' ! i = pl_handler_pc st ! i \<and> pl_handler st' ! i = pl_handler st ! i"
  shows "upstream handel future k st' = upstream handel future k st"
  using assms(3,4) by (induction k) (simp_all add: assms(1,2))

lemma upstream_from:
  assumes "upstream handel future j st' = upstream handel future j st" and "j \<le> k"
    and "\<And>i. j < i \<Longrightarrow> i \<le> k \<Longrightarrow> bounded_items (channel st' i) = bounded_items (channel st i)"
    and "\<And>i. j \<le> i \<Longrightarrow> i < k \<Longrightarrow> pl_handler_pc st' ! i = pl_handler_pc st ! i \<and> pl_handler st' ! i = pl_handler st ! i"
  shows "upstream handel future k st' = upstream handel future k st"
  using assms(2-4)
proof (induction k)
  case (Suc k)
  then show ?case using assms(1) by (cases "j = Suc k") auto
qed (use assms(1) in simp)

section \<open>The invariant\<close>

definition handel_ended :: "'v handel_pc \<Rightarrow> bool" where
  "handel_ended pc = (pc = HandelClose \<or> pc = HandelDone)"

definition drained :: "nat \<Rightarrow> ('p, 'h, 'c, 'v) pipeline \<Rightarrow> bool" where
  "drained i st = (task_done i st \<and> bc_size (channel st i) = 0)"

fun main_ok :: "main_pc \<Rightarrow> ('p, 'h, 'c, 'v) pipeline \<Rightarrow> bool" where
  "main_ok (AwaitTask i) st = (i \<le> Suc (length (pl_handler st)))"
| "main_ok (CloseChannelOf i) st = (i \<le> length (pl_handler st) \<and> task_done i st)"
| "main_ok PipelineDone st = task_done (Suc (length (pl_handler st))) st"

definition pipeline_inv ::
  "('p \<Rightarrow> bool) \<Rightarrow> ('p \<Rightarrow> bool) \<Rightarrow> ('p, 'h, 'c, 'v) pipeline \<Rightarrow> bool"
where
  "pipeline_inv source_inv started st =
     (length (pl_handler_pc st) = length (pl_handler st) \<and>
      length (pl_channels st) = Suc (length (pl_handler st)) \<and>
      (\<forall>i \<le> length (pl_handler st).
         channel_ok (channel st i) \<and> bc_closed (channel st i) = task_done i st) \<and>
      (\<forall>i < length (pl_handler st). handel_ended (pl_handler_pc st ! i) \<longrightarrow> drained i st) \<and>
      (pl_cons_pc st = ConsumeDone \<longrightarrow> drained (length (pl_handler st)) st) \<and>
      main_ok (pl_main st) st \<and>
      source_inv (pl_prod st) \<and> (pl_prod_pc st = ProduceAwait \<longrightarrow> started (pl_prod st)))"

lemma upstream_ended:
  assumes "pipeline_inv source_inv started st" and "k \<le> length (pl_handler st)" and "drained k st"
  shows "upstream handel future k st = []"
proof -
  have "bounded_items (channel st k) = []"
    using assms(3) bounded_items_Nil[of "channel st k"] by (simp add: drained_def)
  then show ?thesis using assms(2,3) by (cases k) (auto simp: task_done_def drained_def)
qed

lemma pipeline_inv_initial:
  assumes "source_inv p"
  shows "pipeline_inv source_inv started (RunPipelineImpl p hs c :: ('a, 'b, 'c, 'd) pipeline)"
proof -
  let ?st = "RunPipelineImpl p hs c :: ('a, 'b, 'c, 'd) pipeline"
  have f: "pl_prod ?st = p" "pl_prod_pc ?st = ProduceCall" "pl_handler ?st = hs"
    "pl_handler_pc ?st = replicate (length hs) HandelPop" "pl_cons_pc ?st = ConsumePop"
    "length (pl_channels ?st) = Suc (length hs)" "pl_main ?st = AwaitTask 0"
    by (simp_all add: RunPipelineImpl_def)
  have c: "channel ?st i = (CoroBoundedChannel_new kDefaultCapacity :: 'd CoroBoundedChannel)" if "i \<le> length hs" for i
    using that by (simp add: RunPipelineImpl_def channel_def nth_append del: replicate_Suc)
  have ok: "channel_ok (CoroBoundedChannel_new kDefaultCapacity :: 'd CoroBoundedChannel)"
    by (simp add: channel_ok_new kDefaultCapacity_def)
  have closed: "\<not> bc_closed (CoroBoundedChannel_new kDefaultCapacity :: 'd CoroBoundedChannel)"
    by (simp add: CoroBoundedChannel_new_def)
  have "\<not> task_done i ?st" if "i \<le> length hs" for i
    using that by (auto simp: task_done_def f)
  then show ?thesis using assms c ok closed by (auto simp: pipeline_inv_def f handel_ended_def)
qed

section \<open>Steps keep the invariant\<close>

lemma channel_set [simp]:
  "length (pl_channels st) = Suc n \<Longrightarrow> i \<le> n \<Longrightarrow>
     channel (set_channel i c st) j = (if j = i then c else channel st j)"
  by (simp add: channel_def set_channel_def nth_list_update)

lemma set_channel_fields [simp]:
  "pl_prod (set_channel i c st) = pl_prod st" "pl_prod_pc (set_channel i c st) = pl_prod_pc st"
  "pl_handler (set_channel i c st) = pl_handler st"
  "pl_handler_pc (set_channel i c st) = pl_handler_pc st"
  "pl_cons (set_channel i c st) = pl_cons st" "pl_cons_pc (set_channel i c st) = pl_cons_pc st"
  "pl_main (set_channel i c st) = pl_main st"
  "length (pl_channels (set_channel i c st)) = length (pl_channels st)"
  "task_done j (set_channel i c st) = task_done j st"
  by (simp_all add: set_channel_def task_done_def)

lemma channel_fields [simp]:
  "channel (st\<lparr>pl_prod := p\<rparr>) = channel st" "channel (st\<lparr>pl_prod_pc := pp\<rparr>) = channel st"
  "channel (st\<lparr>pl_handler := hs\<rparr>) = channel st" "channel (st\<lparr>pl_handler_pc := hp\<rparr>) = channel st"
  "channel (st\<lparr>pl_cons := c\<rparr>) = channel st" "channel (st\<lparr>pl_cons_pc := cp\<rparr>) = channel st"
  "channel (st\<lparr>pl_main := m\<rparr>) = channel st"
  by (simp_all add: channel_def fun_eq_iff)

lemma pipeline_invD:
  assumes "pipeline_inv source_inv started st"
  shows "length (pl_handler_pc st) = length (pl_handler st)"
    and "length (pl_channels st) = Suc (length (pl_handler st))"
    and "\<And>i. i \<le> length (pl_handler st) \<Longrightarrow> channel_ok (channel st i)"
    and "\<And>i. i \<le> length (pl_handler st) \<Longrightarrow> bc_closed (channel st i) = task_done i st"
    and "\<And>i. i < length (pl_handler st) \<Longrightarrow> handel_ended (pl_handler_pc st ! i) \<Longrightarrow> drained i st"
    and "pl_cons_pc st = ConsumeDone \<Longrightarrow> drained (length (pl_handler st)) st"
    and "main_ok (pl_main st) st"
    and "source_inv (pl_prod st)"
    and "pl_prod_pc st = ProduceAwait \<Longrightarrow> started (pl_prod st)"
  using assms by (simp_all add: pipeline_inv_def)

text \<open>Tasks that are done stay done, and drained channels stay drained.\<close>

lemma main_ok_mono:
  assumes "main_ok m st" and "length (pl_handler st') = length (pl_handler st)"
    and "\<And>i. task_done i st \<Longrightarrow> task_done i st'"
  shows "main_ok m st'"
  using assms by (cases m) simp_all

lemma inv_step:
  assumes "pipeline_inv source_inv started st"
    and "length (pl_handler st') = length (pl_handler st)"
    and "length (pl_handler_pc st') = length (pl_handler_pc st)"
    and "length (pl_channels st') = length (pl_channels st)"
    and "\<And>i. task_done i st \<Longrightarrow> task_done i st'"
    and "\<And>i. i \<le> length (pl_handler st) \<Longrightarrow>
      channel_ok (channel st' i) \<and> bc_closed (channel st' i) = task_done i st'"
    and "\<And>i. i \<le> length (pl_handler st) \<Longrightarrow> drained i st \<Longrightarrow> bc_size (channel st' i) = 0"
    and "\<And>i. i < length (pl_handler st) \<Longrightarrow> handel_ended (pl_handler_pc st' ! i) \<Longrightarrow>
      handel_ended (pl_handler_pc st ! i) \<or> drained i st'"
    and "pl_cons_pc st' = ConsumeDone \<Longrightarrow>
      pl_cons_pc st = ConsumeDone \<or> drained (length (pl_handler st)) st'"
    and "pl_main st' = pl_main st \<or> main_ok (pl_main st') st'"
    and "source_inv (pl_prod st')" and "pl_prod_pc st' = ProduceAwait \<Longrightarrow> started (pl_prod st')"
  shows "pipeline_inv source_inv started st'"
proof -
  have d: "drained i st'" if "i \<le> length (pl_handler st)" "drained i st" for i
    using that assms(5,7) by (simp add: drained_def)
  note D = pipeline_invD[OF assms(1)]
  have h: "drained i st'" if "i < length (pl_handler st)" "handel_ended (pl_handler_pc st' ! i)" for i
    using assms(8)[OF that] d[of i] D(5)[of i] that by auto
  have c: "drained (length (pl_handler st)) st'" if "pl_cons_pc st' = ConsumeDone"
    using assms(9)[OF that] d[of "length (pl_handler st)"] D(6) by auto
  have m: "main_ok (pl_main st') st'"
    using assms(1,10) main_ok_mono[OF _ assms(2,5)] by (auto simp: pipeline_inv_def)
  show ?thesis
    unfolding pipeline_inv_def assms(2)
    using assms(3,4,6,11,12) D(1,2) h c m by simp
qed

lemma task_done_simps [simp]:
  "task_done j (st\<lparr>pl_prod_pc := pc\<rparr>) = (if j = 0 then pc = ProduceDone else task_done j st)"
  "task_done j (st\<lparr>pl_prod := p\<rparr>) = task_done j st"
  "task_done j (st\<lparr>pl_main := m\<rparr>) = task_done j st"
  "task_done j (st\<lparr>pl_cons := c\<rparr>) = task_done j st"
  "task_done j (st\<lparr>pl_cons_pc := cp\<rparr>) =
     (if j \<le> length (pl_handler st) then task_done j st else cp = ConsumeDone)"
  "length hs = length (pl_handler st) \<Longrightarrow> task_done j (st\<lparr>pl_handler := hs\<rparr>) = task_done j st"
  by (simp_all add: task_done_def)

lemma set_channel_same [simp]: "set_channel i (channel st i) st = st"
  by (simp add: set_channel_def channel_def)

lemma set_handel_pc_fields [simp]:
  "pl_prod (set_handel_pc i pc st) = pl_prod st" "pl_prod_pc (set_handel_pc i pc st) = pl_prod_pc st"
  "pl_handler (set_handel_pc i pc st) = pl_handler st"
  "pl_cons (set_handel_pc i pc st) = pl_cons st" "pl_cons_pc (set_handel_pc i pc st) = pl_cons_pc st"
  "pl_main (set_handel_pc i pc st) = pl_main st"
  "pl_channels (set_handel_pc i pc st) = pl_channels st" "channel (set_handel_pc i pc st) = channel st"
  "length (pl_handler_pc (set_handel_pc i pc st)) = length (pl_handler_pc st)"
  by (simp_all add: set_handel_pc_def)

lemma handel_pc_set:
  assumes "length (pl_handler_pc st) = length (pl_handler st)" and "i < length (pl_handler st)"
  shows "pl_handler_pc (set_handel_pc i pc st) ! j = (if j = i then pc else pl_handler_pc st ! j)"
    and "task_done k (set_handel_pc i pc st) = (if k = Suc i then pc = HandelDone else task_done k st)"
  using assms by (auto simp: set_handel_pc_def task_done_def nth_list_update)

section \<open>The work left\<close>

fun produce_work :: "nat \<Rightarrow> 'v produce_pc \<Rightarrow> nat" where
  "produce_work cost ProduceCall = 4"
| "produce_work cost ProduceAwait = 3"
| "produce_work cost (ProducePush v) = cost + 5"
| "produce_work cost ProduceClose = 1"
| "produce_work cost ProduceDone = 0"

fun handel_work :: "nat \<Rightarrow> 'v handel_pc \<Rightarrow> nat" where
  "handel_work cost HandelPop = 2"
| "handel_work cost (HandelCall v) = cost + 1"
| "handel_work cost (HandelPush v) = cost"
| "handel_work cost HandelClose = 1"
| "handel_work cost HandelDone = 0"

fun consume_work :: "'v consume_pc \<Rightarrow> nat" where
  "consume_work ConsumePop = 1"
| "consume_work (ConsumeCall v) = 2"
| "consume_work ConsumeDone = 0"

fun main_work :: "nat \<Rightarrow> main_pc \<Rightarrow> nat" where
  "main_work n (AwaitTask i) = 2 * (Suc n - i) + 2"
| "main_work n (CloseChannelOf i) = 2 * (Suc n - i) + 1"
| "main_work n PipelineDone = 0"

text \<open>The number of steps a value in channel \<open>k\<close> may still cause.\<close>

definition value_cost :: "nat \<Rightarrow> nat \<Rightarrow> nat" where
  "value_cost n k = 3 * (n - k) + 2"

definition channel_work :: "('p, 'h, 'c, 'v) pipeline \<Rightarrow> nat" where
  "channel_work st =
     (\<Sum>k \<le> length (pl_handler st). bc_size (channel st k) * value_cost (length (pl_handler st)) k)"

definition handlers_work :: "('p, 'h, 'c, 'v) pipeline \<Rightarrow> nat" where
  "handlers_work st =
     (\<Sum>i < length (pl_handler st).
        handel_work (value_cost (length (pl_handler st)) i) (pl_handler_pc st ! i))"

definition work :: "('p \<Rightarrow> nat) \<Rightarrow> ('p \<Rightarrow> 'v list) \<Rightarrow> ('p, 'h, 'c, 'v) pipeline \<Rightarrow> nat" where
  "work rank future st =
     rank (pl_prod st) + length (future (pl_prod st)) * (value_cost (length (pl_handler st)) 0 + 3) +
     produce_work (value_cost (length (pl_handler st)) 0) (pl_prod_pc st) +
     channel_work st + handlers_work st + consume_work (pl_cons_pc st) +
     main_work (length (pl_handler st)) (pl_main st)"

lemma sum_change:
  fixes f g :: "nat \<Rightarrow> nat"
  assumes "finite A" and "a \<in> A" and "\<And>k. k \<in> A \<Longrightarrow> k \<noteq> a \<Longrightarrow> g k = f k"
  shows "sum g A + f a = sum f A + g a"
proof -
  have "sum g (A - {a}) = sum f (A - {a})" using assms(3) by (intro sum.cong) auto
  then show ?thesis using sum.remove[OF assms(1,2), of f] sum.remove[OF assms(1,2), of g] by simp
qed

lemma channel_work_set:
  assumes "length (pl_channels st) = Suc (length (pl_handler st))" and "i \<le> length (pl_handler st)"
  shows "channel_work (set_channel i c st) + bc_size (channel st i) * value_cost (length (pl_handler st)) i =
    channel_work st + bc_size c * value_cost (length (pl_handler st)) i"
  using sum_change[of "{..length (pl_handler st)}" i
      "\<lambda>k. bc_size (channel (set_channel i c st) k) * value_cost (length (pl_handler st)) k"
      "\<lambda>k. bc_size (channel st k) * value_cost (length (pl_handler st)) k"] assms
  by (simp add: channel_work_def)

lemma handlers_work_set:
  assumes "length (pl_handler_pc st) = length (pl_handler st)" and "i < length (pl_handler st)"
  shows "handlers_work (set_handel_pc i pc st) + handel_work (value_cost (length (pl_handler st)) i) (pl_handler_pc st ! i) =
    handlers_work st + handel_work (value_cost (length (pl_handler st)) i) pc"
  using sum_change[of "{..<length (pl_handler st)}" i
      "\<lambda>k. handel_work (value_cost (length (pl_handler st)) k) (pl_handler_pc (set_handel_pc i pc st) ! k)"
      "\<lambda>k. handel_work (value_cost (length (pl_handler st)) k) (pl_handler_pc st ! k)"] assms
  by (simp add: handlers_work_def set_handel_pc_def)

lemma work_fields [simp]:
  "channel_work (st\<lparr>pl_prod := p\<rparr>) = channel_work st" "channel_work (st\<lparr>pl_prod_pc := pp\<rparr>) = channel_work st"
  "channel_work (st\<lparr>pl_cons := c\<rparr>) = channel_work st" "channel_work (st\<lparr>pl_cons_pc := cp\<rparr>) = channel_work st"
  "channel_work (st\<lparr>pl_main := m\<rparr>) = channel_work st" "channel_work (set_handel_pc i pc st) = channel_work st"
  "length hs = length (pl_handler st) \<Longrightarrow> channel_work (st\<lparr>pl_handler := hs\<rparr>) = channel_work st"
  "handlers_work (st\<lparr>pl_prod := p\<rparr>) = handlers_work st" "handlers_work (st\<lparr>pl_prod_pc := pp\<rparr>) = handlers_work st"
  "handlers_work (st\<lparr>pl_cons := c\<rparr>) = handlers_work st" "handlers_work (st\<lparr>pl_cons_pc := cp\<rparr>) = handlers_work st"
  "handlers_work (st\<lparr>pl_main := m\<rparr>) = handlers_work st" "handlers_work (set_channel i ch st) = handlers_work st"
  "length hs = length (pl_handler st) \<Longrightarrow> handlers_work (st\<lparr>pl_handler := hs\<rparr>) = handlers_work st"
  by (simp_all add: channel_work_def handlers_work_def set_handel_pc_def channel_def)

lemma consume_all_append:
  "consume_all consume vs c = Inr c' \<Longrightarrow>
   consume_all consume (vs @ ws) c = consume_all consume ws c'"
  by (induction vs arbitrary: c) (auto simp: rbind_eq_Inr)

text \<open>What every step achieves: the consumer works off what remains, in order.\<close>

definition step_good ::
  "('v \<Rightarrow> 'c \<Rightarrow> 'c res) \<Rightarrow> ('h \<Rightarrow> 'v \<Rightarrow> bool \<times> 'h) \<Rightarrow> ('p \<Rightarrow> 'v list) \<Rightarrow> ('p \<Rightarrow> bool) \<Rightarrow> ('p \<Rightarrow> bool) \<Rightarrow>
   ('p \<Rightarrow> nat) \<Rightarrow> ('p, 'h, 'c, 'v) pipeline \<Rightarrow> ('p, 'h, 'c, 'v) pipeline \<Rightarrow> bool"
where
  "step_good consume handel future source_inv started rank st st' =
     (pipeline_inv source_inv started st' \<and>
      (\<exists>vs. remaining handel future st = vs @ remaining handel future st' \<and>
         consume_all consume vs (pl_cons st) = Inr (pl_cons st')) \<and>
      work rank future st' < work rank future st)"

lemma remaining_from:
  assumes "upstream handel future (length (pl_handler st)) st' = upstream handel future (length (pl_handler st)) st"
    and "length (pl_handler st') = length (pl_handler st)" and "pl_cons_pc st' = pl_cons_pc st"
  shows "remaining handel future st' = remaining handel future st"
  using assms by (simp add: remaining_def)

definition make_ops ::
  "('p \<Rightarrow> 'p) \<Rightarrow> ('p \<Rightarrow> ('v option \<times> 'p) res) \<Rightarrow> ('p \<Rightarrow> 'p res) \<Rightarrow>
   ('h \<Rightarrow> 'v \<Rightarrow> bool \<times> 'h) \<Rightarrow> ('v \<Rightarrow> 'c \<Rightarrow> 'c res) \<Rightarrow> ('p, 'h, 'c, 'v) pipeline_ops"
where
  "make_ops start await background handel consume =
     \<lparr>po_produce_start = start, po_produce_await = await, po_background = background,
      po_handel = handel, po_consume = consume\<rparr>"

lemma make_ops_simps [simp]:
  "po_produce_start (make_ops start await background handel consume) = start"
  "po_produce_await (make_ops start await background handel consume) = await"
  "po_background (make_ops start await background handel consume) = background"
  "po_handel (make_ops start await background handel consume) = handel"
  "po_consume (make_ops start await background handel consume) = consume"
  by (simp_all add: make_ops_def)

context event_source
begin

lemma produce_step:
  assumes inv: "pipeline_inv source_inv started st"
    and ops: "po_produce_start ops = start" "po_produce_await ops = await"
  shows "case Produce ops (pl_prod_pc st) st of
      Inl e \<Rightarrow> e = Blocked
    | Inr st' \<Rightarrow> step_good consume handel future source_inv started rank st st'"
proof -
  let ?n = "length (pl_handler st)"
  note D = pipeline_invD[OF inv]
  note len = D(2) and src = D(8)
  have rem: "remaining handel future st' = remaining handel future st"
    if "upstream handel future 0 st' = upstream handel future 0 st"
      "\<And>i. 0 < i \<Longrightarrow> i \<le> ?n \<Longrightarrow> channel st' i = channel st i"
      "pl_handler_pc st' = pl_handler_pc st" "pl_handler st' = pl_handler st" "pl_cons_pc st' = pl_cons_pc st"
    for st'
    using that upstream_from[of handel future 0 st' st ?n] by (intro remaining_from) auto
  show ?thesis
  proof (cases "pl_prod_pc st")
    case ProduceCall
    let ?st = "st\<lparr>pl_prod := start (pl_prod st), pl_prod_pc := ProduceAwait\<rparr>"
    note s = start_ok[OF src]
    have nd: "\<not> task_done 0 st" using ProduceCall by (simp add: task_done_def)
    have "pipeline_inv source_inv started ?st"
      by (rule inv_step[OF inv]) (use D s nd ProduceCall in \<open>auto simp: drained_def intro!: gr0I\<close>)
    then show ?thesis
      using rem[of ?st] s ProduceCall by (simp add: ops step_good_def work_def)
  next
    case ProduceAwait
    have nd: "\<not> task_done 0 st" using ProduceAwait by (simp add: task_done_def)
    note aw = await_ok[OF src D(9)[OF ProduceAwait]]
    show ?thesis
    proof (cases "await (pl_prod st)")
      case (Inl e)
      then show ?thesis using aw ProduceAwait by (simp add: ops)
    next
      case (Inr r)
      obtain x p where r: "r = (x, p)" by (cases r)
      let ?pc = "case x of None \<Rightarrow> ProduceClose | Some v \<Rightarrow> ProducePush v"
      let ?st = "st\<lparr>pl_prod := p, pl_prod_pc := ?pc\<rparr>"
      have pc: "?pc \<noteq> ProduceDone" "?pc \<noteq> ProduceAwait" by (simp_all split: option.splits)
      have s: "source_inv p" "rank p \<le> rank (pl_prod st)" using aw Inr r by auto
      have "pipeline_inv source_inv started ?st"
        by (rule inv_step[OF inv]) (use D s nd pc in \<open>auto simp: drained_def intro!: gr0I\<close>)
      then show ?thesis
        using rem[of ?st] aw Inr r ProduceAwait
        by (cases x) (simp_all add: ops step_good_def work_def)
    qed
  next
    case (ProducePush v)
    have nd: "\<not> task_done 0 st" using ProducePush by (simp add: task_done_def)
    have ok: "channel_ok (channel st 0)" "\<not> bc_closed (channel st 0)" using D(3,4)[of 0] nd by auto
    show ?thesis
    proof (cases rule: push_cases[OF ok, of v])
      case 1
      then show ?thesis using ProducePush by (simp add: push_to_def)
    next
      case (2 c)
      let ?st = "(set_channel 0 c st)\<lparr>pl_prod_pc := ProduceCall\<rparr>"
      have "pipeline_inv source_inv started ?st"
        by (rule inv_step[OF inv])
           (use D nd 2 channel_set[OF len] in \<open>auto simp: drained_def intro!: gr0I\<close>)
      then show ?thesis
        using rem[of ?st] 2 ProducePush channel_set[OF len, of 0 c]
          channel_work_set[OF len, of 0 c]
        by (simp add: push_to_def step_good_def work_def)
    qed
  next
    case ProduceClose
    let ?c = "bounded_CloseChannel (channel st 0)"
    let ?st = "(set_channel 0 ?c st)\<lparr>pl_prod_pc := ProduceDone\<rparr>"
    have "pipeline_inv source_inv started ?st"
      by (rule inv_step[OF inv])
         (use D ProduceClose channel_set[OF len] in \<open>auto simp: drained_def intro!: gr0I\<close>)
    then show ?thesis
      using rem[of ?st] ProduceClose channel_set[OF len, of 0 ?c] channel_work_set[OF len, of 0 ?c]
      by (simp add: step_good_def work_def)
  next
    case ProduceDone
    then show ?thesis by simp
  qed
qed


lemma upstream_below:
  assumes "\<And>j. j \<le> i \<Longrightarrow> channel st' j = channel st j" "\<And>j. j < i \<Longrightarrow> pl_handler_pc st' ! j = pl_handler_pc st ! j"
    "\<And>j. j < i \<Longrightarrow> pl_handler st' ! j = pl_handler st ! j"
    "pl_prod_pc st' = pl_prod_pc st" "pl_prod st' = pl_prod st"
  shows "upstream handel future i st' = upstream handel future i st"
  using assms by (intro upstream_cong) auto

lemma upstream_popped:
  assumes "bounded_items (channel st i) = v # bounded_items (channel st' i)"
    "\<And>j. j < i \<Longrightarrow> channel st' j = channel st j" "\<And>j. j < i \<Longrightarrow> pl_handler_pc st' ! j = pl_handler_pc st ! j"
    "\<And>j. j < i \<Longrightarrow> pl_handler st' ! j = pl_handler st ! j"
    "pl_prod_pc st' = pl_prod_pc st" "pl_prod st' = pl_prod st"
  shows "upstream handel future i st = v # upstream handel future i st'"
proof (cases i)
  case 0
  then show ?thesis using assms by simp
next
  case (Suc k)
  have "upstream handel future k st' = upstream handel future k st" using assms Suc by (intro upstream_cong) auto
  then show ?thesis using assms Suc by simp
qed

lemma remaining_beyond:
  assumes "upstream handel future (Suc i) st' = upstream handel future (Suc i) st" "i < length (pl_handler st)"
    "\<And>j. Suc i < j \<Longrightarrow> j \<le> length (pl_handler st) \<Longrightarrow> channel st' j = channel st j"
    "\<And>j. i < j \<Longrightarrow> pl_handler_pc st' ! j = pl_handler_pc st ! j"
    "\<And>j. i < j \<Longrightarrow> pl_handler st' ! j = pl_handler st ! j"
    "length (pl_handler st') = length (pl_handler st)" "pl_cons_pc st' = pl_cons_pc st"
  shows "remaining handel future st' = remaining handel future st"
  using assms upstream_from[of handel future "Suc i" st' st "length (pl_handler st)"]
  by (intro remaining_from) auto

lemma handel_cost: "i < n \<Longrightarrow> value_cost n i = value_cost n (Suc i) + 3"
  by (simp add: value_cost_def)

lemma handel_pop_step:
  assumes inv: "pipeline_inv source_inv started st" and i: "i < length (pl_handler st)"
    and pc: "pl_handler_pc st ! i = HandelPop"
  shows "case Handel ops i HandelPop st of
      Inl e \<Rightarrow> e = Blocked
    | Inr st' \<Rightarrow> step_good consume handel future source_inv started rank st st'"
proof -
  let ?up = "upstream handel future"
  note D = pipeline_invD[OF inv]
  note len = D(2) and pcs = handel_pc_set[OF D(1) i] and rem = remaining_beyond[OF _ i]
  have ok: "channel_ok (channel st i)" using D(3) i by auto
  have dn: "task_done (Suc i) st = (pl_handler_pc st ! i = HandelDone)" using i by (simp add: task_done_def)
  show ?thesis
  proof (cases rule: pop_cases[OF ok])
    case 1
    then show ?thesis by simp
  next
    case 2
    let ?st = "set_handel_pc i HandelClose st"
    have dr: "drained i st" using 2 D(4)[of i] i by (simp add: drained_def)
    have "pipeline_inv source_inv started ?st"
      by (rule inv_step[OF inv])
         (use D dr dn pc pcs i in \<open>auto simp: drained_def handel_ended_def split: if_splits\<close>)
    moreover have "?up (Suc i) ?st = ?up (Suc i) st"
      using upstream_below[where st' = ?st and st = st and i = i] pcs upstream_ended[OF inv _ dr, of handel future] pc i by simp
    ultimately show ?thesis
      using 2 pc rem[where st' = ?st] pcs handlers_work_set[OF D(1) i, of HandelClose]
      by (simp add: step_good_def work_def)
  next
    case (3 v c)
    let ?ch = "set_channel i c st" and ?st = "set_handel_pc i (HandelCall v) (set_channel i c st)"
    note pcs' = handel_pc_set[where st = ?ch and i = i and pc = "HandelCall v"] channel_set[OF len, of i c]
    have "pipeline_inv source_inv started ?st"
      by (rule inv_step[OF inv])
         (use D dn 3 pc pcs' i in \<open>auto simp: drained_def handel_ended_def split: if_splits\<close>)
    moreover have "?up i st = v # ?up i ?st" by (rule upstream_popped) (use 3 pcs' D(1) i in auto)
    then have "?up (Suc i) ?st = ?up (Suc i) st" using pcs' D(1) pc i by simp
    ultimately show ?thesis
      using 3 pc rem[where st' = ?st] pcs' D(1) i handlers_work_set[of ?ch i "HandelCall v"]
        channel_work_set[OF len, of i c]
      by (simp add: step_good_def work_def)
  qed
qed

lemma handel_call_step:
  assumes inv: "pipeline_inv source_inv started st" and i: "i < length (pl_handler st)"
    and ops: "po_handel ops = handel" and pc: "pl_handler_pc st ! i = HandelCall v"
  shows "case Handel ops i (HandelCall v) st of
      Inl e \<Rightarrow> e = Blocked
    | Inr st' \<Rightarrow> step_good consume handel future source_inv started rank st st'"
proof -
  let ?up = "upstream handel future"
  note D = pipeline_invD[OF inv]
  have dn: "task_done (Suc i) st = (pl_handler_pc st ! i = HandelDone)" using i by (simp add: task_done_def)
  obtain ok h where h: "handel (pl_handler st ! i) v = (ok, h)" by (cases "handel (pl_handler st ! i) v")
  let ?hs = "st\<lparr>pl_handler := (pl_handler st)[i := h]\<rparr>" and ?pc' = "if ok then HandelPush v else HandelPop"
  let ?st = "set_handel_pc i ?pc' ?hs"
  note pcs' = handel_pc_set[where st = ?hs and i = i and pc = ?pc']
  have "pipeline_inv source_inv started ?st"
    by (rule inv_step[OF inv])
       (use D dn pc pcs' i in \<open>auto simp: drained_def handel_ended_def split: if_splits\<close>)
  moreover have "?up i ?st = ?up i st" by (rule upstream_below) (use pcs' D(1) i in auto)
  then have "?up (Suc i) ?st = ?up (Suc i) st" using pcs' D(1) pc i h by simp
  ultimately show ?thesis
    using h pc remaining_beyond[OF _ i, where st' = ?st] pcs' D(1) i handlers_work_set[of ?hs i ?pc'] handel_cost[OF i]
    by (cases ok) (simp_all add: ops step_good_def work_def)
qed

lemma handel_push_step:
  assumes inv: "pipeline_inv source_inv started st" and i: "i < length (pl_handler st)"
    and pc: "pl_handler_pc st ! i = HandelPush v"
  shows "case Handel ops i (HandelPush v) st of
      Inl e \<Rightarrow> e = Blocked
    | Inr st' \<Rightarrow> step_good consume handel future source_inv started rank st st'"
proof -
  let ?up = "upstream handel future"
  note D = pipeline_invD[OF inv]
  note len = D(2)
  have dn: "task_done (Suc i) st = (pl_handler_pc st ! i = HandelDone)" using i by (simp add: task_done_def)
  have ok: "channel_ok (channel st (Suc i))" "\<not> bc_closed (channel st (Suc i))"
    using D(3) D(4)[of "Suc i"] pc dn i by auto
  show ?thesis
  proof (cases rule: push_cases[OF ok, of v])
    case 1
    then show ?thesis by (simp add: push_to_def)
  next
    case (2 c)
    let ?ch = "set_channel (Suc i) c st" and ?st = "set_handel_pc i HandelPop (set_channel (Suc i) c st)"
    note pcs' = handel_pc_set[where st = ?ch and i = i and pc = HandelPop] channel_set[OF len, of "Suc i" c]
    have "pipeline_inv source_inv started ?st"
      by (rule inv_step[OF inv])
         (use D dn 2 ok(2) pc pcs' i in \<open>auto simp: drained_def handel_ended_def split: if_splits\<close>)
    moreover have "?up i ?st = ?up i st" by (rule upstream_below) (use pcs' D(1) i in auto)
    then have "?up (Suc i) ?st = ?up (Suc i) st" using pcs' D(1) pc i 2 by simp
    ultimately show ?thesis
      using 2 pc remaining_beyond[OF _ i, where st' = ?st] pcs' D(1) i handlers_work_set[of ?ch i HandelPop]
        channel_work_set[OF len, of "Suc i" c] handel_cost[OF i]
      by (simp add: push_to_def step_good_def work_def)
  qed
qed

lemma handel_close_step:
  assumes inv: "pipeline_inv source_inv started st" and i: "i < length (pl_handler st)"
    and pc: "pl_handler_pc st ! i = HandelClose"
  shows "case Handel ops i HandelClose st of
      Inl e \<Rightarrow> e = Blocked
    | Inr st' \<Rightarrow> step_good consume handel future source_inv started rank st st'"
proof -
  let ?up = "upstream handel future" and ?c = "bounded_CloseChannel (channel st (Suc i))"
  note D = pipeline_invD[OF inv]
  note len = D(2)
  have dn: "task_done (Suc i) st = (pl_handler_pc st ! i = HandelDone)" using i by (simp add: task_done_def)
  let ?ch = "set_channel (Suc i) ?c st" and ?st = "set_handel_pc i HandelDone (set_channel (Suc i) ?c st)"
  note pcs' = handel_pc_set[where st = ?ch and i = i and pc = HandelDone] channel_set[OF len, of "Suc i" ?c]
  have "drained i st" using D(5)[OF i] pc by (simp add: handel_ended_def)
  then have "pipeline_inv source_inv started ?st"
    by (intro inv_step[OF inv])
       (use D dn pc pcs' i in \<open>auto simp: drained_def handel_ended_def split: if_splits\<close>)
  moreover have "?up i ?st = ?up i st" by (rule upstream_below) (use pcs' D(1) i in auto)
  then have "?up (Suc i) ?st = ?up (Suc i) st" using pcs' D(1) pc i by simp
  ultimately show ?thesis
    using pc remaining_beyond[OF _ i, where st' = ?st] pcs' D(1) i handlers_work_set[of ?ch i HandelDone]
      channel_work_set[OF len, of "Suc i" ?c]
    by (simp add: step_good_def work_def)
qed

lemma handel_step:
  assumes inv: "pipeline_inv source_inv started st" and i: "i < length (pl_handler st)"
    and ops: "po_handel ops = handel"
  shows "case Handel ops i (pl_handler_pc st ! i) st of
      Inl e \<Rightarrow> e = Blocked
    | Inr st' \<Rightarrow> step_good consume handel future source_inv started rank st st'"
proof (cases "pl_handler_pc st ! i")
  case HandelPop
  then show ?thesis using handel_pop_step[OF inv i HandelPop] by simp
next
  case (HandelCall v)
  then show ?thesis using handel_call_step[OF inv i ops HandelCall] by simp
next
  case (HandelPush v)
  then show ?thesis using handel_push_step[OF inv i HandelPush] by simp
next
  case HandelClose
  then show ?thesis using handel_close_step[OF inv i HandelClose] by simp
next
  case HandelDone
  then show ?thesis by simp
qed


lemma consume_step:
  assumes inv: "pipeline_inv source_inv started st" and ops: "po_consume ops = consume"
  shows "case Consume ops (pl_cons_pc st) st of
      Inl e \<Rightarrow> e = Blocked \<or> (\<exists>v. pl_cons_pc st = ConsumeCall v \<and> consume v (pl_cons st) = Inl e)
    | Inr st' \<Rightarrow> step_good consume handel future source_inv started rank st st'"
proof -
  let ?n = "length (pl_handler st)" and ?up = "upstream handel future"
  note D = pipeline_invD[OF inv]
  note len = D(2)
  have ok: "channel_ok (channel st ?n)" using D(3) by simp
  have nd: "i \<le> ?n" if "task_done i st" "pl_cons_pc st \<noteq> ConsumeDone" for i
    using that by (simp add: task_done_def split: if_splits)
  show ?thesis
  proof (cases "pl_cons_pc st")
    case ConsumePop
    show ?thesis
    proof (cases rule: pop_cases[OF ok])
      case 1
      then show ?thesis using ConsumePop by simp
    next
      case 2
      let ?st = "st\<lparr>pl_cons_pc := ConsumeDone\<rparr>"
      have dr: "drained ?n st" using 2 D(4)[of ?n] by (simp add: drained_def)
      have "pipeline_inv source_inv started ?st"
        by (rule inv_step[OF inv]) (use D dr nd ConsumePop in \<open>auto simp: drained_def\<close>)
      moreover have "?up ?n ?st = ?up ?n st" by (rule upstream_cong) auto
      ultimately show ?thesis
        using 2 ConsumePop upstream_ended[OF inv _ dr, of handel future]
        by (simp add: step_good_def work_def remaining_def)
    next
      case (3 v c)
      let ?ch = "set_channel ?n c st"
      let ?st = "?ch\<lparr>pl_cons_pc := ConsumeCall v\<rparr>"
      note cs = channel_set[OF len, of ?n c]
      have "pipeline_inv source_inv started ?st"
        by (rule inv_step[OF inv])
           (use D nd 3 ConsumePop cs in \<open>auto simp: drained_def\<close>)
      moreover have "?up ?n st = v # ?up ?n ?st"
      proof (cases ?n)
        case 0
        then show ?thesis using 3 cs by simp
      next
        case (Suc k)
        have "?up k ?st = ?up k st" using cs Suc by (intro upstream_cong) auto
        then show ?thesis using 3 cs Suc by simp
      qed
      ultimately show ?thesis
        using 3 ConsumePop channel_work_set[OF len, of ?n c]
        by (simp add: step_good_def work_def remaining_def Let_def value_cost_def)
    qed
  next
    case (ConsumeCall v)
    show ?thesis
    proof (cases "consume v (pl_cons st)")
      case (Inl e)
      then show ?thesis using ConsumeCall by (simp add: ops)
    next
      case (Inr c)
      let ?st = "st\<lparr>pl_cons := c, pl_cons_pc := ConsumePop\<rparr>"
      have "pipeline_inv source_inv started ?st"
        by (rule inv_step[OF inv])
           (use D nd ConsumeCall in \<open>auto simp: drained_def\<close>)
      moreover have "?up ?n ?st = ?up ?n st" by (rule upstream_cong) auto
      moreover from calculation have "remaining handel future st = [v] @ remaining handel future ?st"
        "consume_all consume [v] (pl_cons st) = Inr (pl_cons ?st)"
        using Inr ConsumeCall by (simp_all add: remaining_def)
      then have "\<exists>vs. remaining handel future st = vs @ remaining handel future ?st \<and>
          consume_all consume vs (pl_cons st) = Inr (pl_cons ?st)" by blast
      ultimately show ?thesis
        using Inr ConsumeCall by (simp add: ops step_good_def work_def)
    qed
  next
    case ConsumeDone
    then show ?thesis by simp
  qed
qed

lemma main_step:
  assumes inv: "pipeline_inv source_inv started st"
  shows "case AwaitAll (pl_main st) st of
      Inl e \<Rightarrow> e = Blocked
    | Inr st' \<Rightarrow> step_good consume handel future source_inv started rank st st'"
proof -
  let ?n = "length (pl_handler st)" and ?up = "upstream handel future"
  note D = pipeline_invD[OF inv]
  note len = D(2)
  have rem: "remaining handel future st' = remaining handel future st"
    if "\<And>i. i \<le> ?n \<Longrightarrow> bounded_items (channel st' i) = bounded_items (channel st i)"
      "pl_prod_pc st' = pl_prod_pc st" "pl_prod st' = pl_prod st" "pl_handler_pc st' = pl_handler_pc st"
      "pl_handler st' = pl_handler st" "pl_cons_pc st' = pl_cons_pc st" for st'
    using that by (intro remaining_from upstream_cong) auto
  show ?thesis
  proof (cases "pl_main st")
    case (AwaitTask i)
    let ?st = "st\<lparr>pl_main := (if i \<le> ?n then CloseChannelOf i else PipelineDone)\<rparr>"
    have "pipeline_inv source_inv started ?st" if "task_done i st"
    proof -
      have "i \<le> Suc ?n" using D(7) AwaitTask by simp
      then have "main_ok (pl_main ?st) ?st" using that le_Suc_eq[of i ?n] by auto
      then show ?thesis
        by (intro inv_step[OF inv]) (use D in \<open>auto simp: drained_def\<close>)
    qed
    then show ?thesis using AwaitTask rem[of ?st] D(7) by (simp add: step_good_def work_def)
  next
    case (CloseChannelOf i)
    then have i: "i \<le> ?n" "task_done i st" using D(7) by auto
    let ?c = "bounded_CloseChannel (channel st i)"
    let ?st = "(set_channel i ?c st)\<lparr>pl_main := AwaitTask (i + 1)\<rparr>"
    have "pipeline_inv source_inv started ?st"
      by (rule inv_step[OF inv]) (use D i channel_set[OF len i(1)] in \<open>auto simp: drained_def\<close>)
    then show ?thesis
      using CloseChannelOf rem[of ?st] i channel_set[OF len i(1)] channel_work_set[OF len i(1), of ?c]
      by (simp add: step_good_def work_def)
  next
    case PipelineDone
    then show ?thesis by simp
  qed
qed

lemma background_step:
  assumes inv: "pipeline_inv source_inv started st" and ops: "po_background ops = background"
  shows "case task_step ops BackgroundTask st of
      Inl e \<Rightarrow> e = Blocked
    | Inr st' \<Rightarrow> step_good consume handel future source_inv started rank st st'"
proof (cases "background (pl_prod st)")
  case (Inl e)
  then show ?thesis using background_ok[OF pipeline_invD(8)[OF inv]] by (simp add: ops)
next
  case (Inr p)
  note D = pipeline_invD[OF inv]
  have s: "source_inv p" "started p = started (pl_prod st)" "future p = future (pl_prod st)"
      "rank p < rank (pl_prod st)"
    using background_ok[OF D(8)] Inr by auto
  let ?st = "st\<lparr>pl_prod := p\<rparr>"
  have "pipeline_inv source_inv started ?st"
    by (rule inv_step[OF inv]) (use D s in \<open>auto simp: drained_def\<close>)
  moreover have "upstream handel future 0 ?st = upstream handel future 0 st"
    using s(3) by (cases "pl_prod_pc st") simp_all
  then have "remaining handel future ?st = remaining handel future st"
    by (rule remaining_from[OF upstream_from[where j = 0]]) simp_all
  ultimately show ?thesis
    using Inr s by (simp add: ops step_good_def work_def)
qed


lemma task_step_ok:
  assumes inv: "pipeline_inv source_inv started st"
  shows "case task_step (make_ops start await background handel consume) t st of
      Inl e \<Rightarrow> e = Blocked \<or> (\<exists>v. pl_cons_pc st = ConsumeCall v \<and> consume v (pl_cons st) = Inl e)
    | Inr st' \<Rightarrow> step_good consume handel future source_inv started rank st st'"
proof (cases t)
  case ProduceTask
  then show ?thesis
    using produce_step[OF inv, of "make_ops start await background handel consume" consume handel]
    by (auto split: sum.splits)
next
  case BackgroundTask
  then show ?thesis
    using background_step[OF inv, of "make_ops start await background handel consume" consume handel]
    by (auto split: sum.splits)
next
  case (HandelTask i)
  then show ?thesis
    using handel_step[OF inv, of i "make_ops start await background handel consume" handel consume]
    by (auto split: sum.splits)
next
  case ConsumeTask
  then show ?thesis
    using consume_step[OF inv, of "make_ops start await background handel consume" consume handel]
    by simp
next
  case MainTask
  then show ?thesis using main_step[OF inv, of consume handel] by (auto split: sum.splits)
qed

lemma run_tasks_ok:
  assumes "pipeline_inv source_inv started st"
    and "run_tasks (make_ops start await background handel consume) ts st = Inr st'"
  shows "pipeline_inv source_inv started st' \<and>
    (\<exists>vs. remaining handel future st = vs @ remaining handel future st' \<and>
       consume_all consume vs (pl_cons st) = Inr (pl_cons st')) \<and>
    work rank future st' + length ts \<le> work rank future st"
  using assms
proof (induction ts arbitrary: st)
  case (Cons t ts)
  obtain s1 where s1: "task_step (make_ops start await background handel consume) t st = Inr s1"
    "run_tasks (make_ops start await background handel consume) ts s1 = Inr st'"
    using Cons.prems(2) by (auto simp: rbind_eq_Inr)
  have g: "step_good consume handel future source_inv started rank st s1"
    using task_step_ok[OF Cons.prems(1), where handel = handel and consume = consume and t = t] s1(1) by simp
  then obtain vs where vs: "remaining handel future st = vs @ remaining handel future s1"
      "consume_all consume vs (pl_cons st) = Inr (pl_cons s1)"
    by (auto simp: step_good_def)
  obtain ws where ws: "remaining handel future s1 = ws @ remaining handel future st'"
      "consume_all consume ws (pl_cons s1) = Inr (pl_cons st')"
    using Cons.IH[OF _ s1(2)] g by (auto simp: step_good_def)
  have "remaining handel future st = (vs @ ws) @ remaining handel future st'"
    "consume_all consume (vs @ ws) (pl_cons st) = Inr (pl_cons st')"
    using vs ws consume_all_append[OF vs(2)] by simp_all
  then have "\<exists>vs. remaining handel future st = vs @ remaining handel future st' \<and>
      consume_all consume vs (pl_cons st) = Inr (pl_cons st')" by blast
  then show ?case using Cons.IH[OF _ s1(2)] g by (simp add: step_good_def)
qed simp

lemma run_tasks_stops:
  assumes "pipeline_inv source_inv started st"
    and "run_tasks (make_ops start await background handel consume) ts st = Inl e"
  shows "e = Blocked \<or> (\<exists>v c. consume v c = Inl e)"
  using assms
proof (induction ts arbitrary: st)
  case (Cons t ts)
  note ok = task_step_ok[OF Cons.prems(1), where handel = handel and consume = consume and t = t]
  show ?case
  proof (cases "task_step (make_ops start await background handel consume) t st")
    case (Inl e')
    then show ?thesis using ok Cons.prems(2) by auto
  next
    case (Inr s1)
    then show ?thesis using ok Cons.prems(2) Cons.IH[of s1] by (simp add: step_good_def)
  qed
qed simp

lemma finished:
  assumes inv: "pipeline_inv source_inv started st" and "pl_main st = PipelineDone"
  shows "remaining handel future st = []"
  using pipeline_invD(7)[OF inv] assms(2) by (simp add: remaining_def task_done_def)

text \<open>While a channel is empty and open, some task before it can run.\<close>

lemma upstream_runs:
  assumes inv: "pipeline_inv source_inv started st" and "k \<le> length (pl_handler st)"
    and "\<not> bc_closed (channel st k)" and "bc_size (channel st k) = 0"
  shows "\<exists>t st'. task_step (make_ops start await background handel consume) t st = Inr st'"
  using assms(2-4)
proof (induction k)
  case 0
  note D = pipeline_invD[OF inv]
  have ok: "channel_ok (channel st 0)" and nd: "pl_prod_pc st \<noteq> ProduceDone"
    using D(3,4)[of 0] 0 by (auto simp: task_done_def)
  show ?case
  proof (cases "pl_prod_pc st")
    case ProduceAwait
    note aw = await_ok[OF D(8) D(9)[OF ProduceAwait]]
    show ?thesis
    proof (cases "await (pl_prod st)")
      case (Inl e)
      then obtain p where "background (pl_prod st) = Inr p" using aw by auto
      then show ?thesis by (intro exI[of _ BackgroundTask]) simp
    next
      case (Inr r)
      then show ?thesis using ProduceAwait by (intro exI[of _ ProduceTask]) (cases r; simp)
    qed
  next
    case (ProducePush v)
    show ?thesis
      by (rule push_cases[OF ok 0(2), of v])
         (use ProducePush 0 in \<open>auto simp: push_to_def intro!: exI[of _ ProduceTask]\<close>)
  qed (use nd in \<open>auto intro!: exI[of _ ProduceTask]\<close>)
next
  case (Suc k)
  note D = pipeline_invD[OF inv]
  have k: "k < length (pl_handler st)" using Suc.prems(1) by simp
  have ok: "channel_ok (channel st k)" "channel_ok (channel st (Suc k))" using D(3) k by auto
  have nd: "pl_handler_pc st ! k \<noteq> HandelDone"
    using D(4)[OF Suc.prems(1)] Suc.prems by (simp add: task_done_def)
  show ?case
  proof (cases "pl_handler_pc st ! k")
    case HandelPop
    show ?thesis
    proof (cases rule: pop_cases[OF ok(1)])
      case 1
      then show ?thesis using Suc.IH k by simp
    qed (use HandelPop k in \<open>auto intro!: exI[of _ "HandelTask k"]\<close>)
  next
    case (HandelPush v)
    show ?thesis
      by (rule push_cases[OF ok(2) Suc.prems(2), of v])
         (use HandelPush Suc.prems k in \<open>auto simp: push_to_def intro!: exI[of _ "HandelTask k"]\<close>)
  qed (use nd k in \<open>auto intro!: exI[of _ "HandelTask k"] split: prod.splits\<close>)
qed

lemma drained_all:
  assumes inv: "pipeline_inv source_inv started st" and "drained n st" and "n \<le> length (pl_handler st)"
    and "k \<le> n"
  shows "drained k st"
  using assms(2-4)
proof (induction n)
  case (Suc n)
  have "pl_handler_pc st ! n = HandelDone" using Suc.prems by (simp add: drained_def task_done_def)
  then have "drained n st" using pipeline_invD(5)[OF inv, of n] Suc.prems by (simp add: handel_ended_def)
  then show ?case using Suc by (cases "k = Suc n") auto
qed simp

lemma progress:
  assumes inv: "pipeline_inv source_inv started st" and "pl_main st \<noteq> PipelineDone"
    and "\<forall>v c. \<exists>c'. consume v c = Inr c'"
  shows "\<exists>t st'. task_step (make_ops start await background handel consume) t st = Inr st'"
proof (cases "pl_cons_pc st")
  case ConsumePop
  have ok: "channel_ok (channel st (length (pl_handler st)))" using pipeline_invD(3)[OF inv] by simp
  show ?thesis
  proof (cases rule: pop_cases[OF ok])
    case 1
    then show ?thesis by (intro upstream_runs[OF inv order.refl])
  qed (use ConsumePop in \<open>auto intro!: exI[of _ ConsumeTask]\<close>)
next
  case (ConsumeCall v)
  obtain c' where "consume v (pl_cons st) = Inr c'" using assms(3) by blast
  then show ?thesis using ConsumeCall by (intro exI[of _ ConsumeTask]) simp
next
  case ConsumeDone
  have d: "task_done k st" if "k \<le> length (pl_handler st)" for k
    using drained_all[OF inv pipeline_invD(6)[OF inv ConsumeDone] _ that] by (simp add: drained_def)
  show ?thesis
  proof (cases "pl_main st")
    case (AwaitTask i)
    have "task_done i st" if "\<not> i \<le> length (pl_handler st)"
      using that ConsumeDone by (simp add: task_done_def)
    then have "task_done i st" using d[of i] by blast
    then show ?thesis using AwaitTask by (intro exI[of _ MainTask]) simp
  qed (use assms(2) in \<open>auto intro!: exI[of _ MainTask]\<close>)
qed

text \<open>So every run can be continued until the pipeline is done.\<close>

lemma run_tasks_append:
  "run_tasks ops ts st = Inr st1 \<Longrightarrow> run_tasks ops (ts @ us) st = run_tasks ops us st1"
  by (induction ts arbitrary: st) (auto simp: rbind_eq_Inr)

lemma can_finish:
  assumes "pipeline_inv source_inv started st" and "\<forall>v c. \<exists>c'. consume v c = Inr c'"
  shows "\<exists>ts st'. run_tasks (make_ops start await background handel consume) ts st = Inr st' \<and>
    pl_main st' = PipelineDone"
  using assms(1)
proof (induction "work rank future st" arbitrary: st rule: less_induct)
  case less
  show ?case
  proof (cases "pl_main st = PipelineDone")
    case True
    then show ?thesis by (intro exI[of _ "[]"]) simp
  next
    case False
    obtain t s1 where s1: "task_step (make_ops start await background handel consume) t st = Inr s1"
      using progress[OF less.prems False assms(2)] by blast
    have g: "step_good consume handel future source_inv started rank st s1"
      using task_step_ok[OF less.prems, where handel = handel and consume = consume and t = t] s1 by simp
    then obtain ts st' where "run_tasks (make_ops start await background handel consume) ts s1 = Inr st'"
        "pl_main st' = PipelineDone"
      using less.hyps[of s1] by (auto simp: step_good_def)
    then show ?thesis using s1 by (intro exI[of _ "t # ts"]) simp
  qed
qed

lemma upstream_initial:
  "remaining handel future (RunPipelineImpl p hs c) = pass_all handel hs (future p)"
proof -
  let ?st = "RunPipelineImpl p hs c"
  have ch: "bounded_items (channel ?st i) = []" if "i \<le> length hs" for i
    using that bounded_items_Nil[of "channel ?st i"]
    by (simp add: RunPipelineImpl_def channel_def nth_append CoroBoundedChannel_new_def del: replicate_Suc)
  have "upstream handel future k ?st = pass_all handel (take k hs) (future p)" if "k \<le> length hs" for k
    using that
  proof (induction k)
    case 0
    then show ?case using ch[of 0] by (simp add: RunPipelineImpl_def pass_all_def)
  next
    case (Suc k)
    then show ?case
      using ch[of "Suc k"]
      by (simp add: RunPipelineImpl_def pass_all_def take_Suc_conv_app_nth)
  qed
  from this[of "length hs"] show ?thesis by (simp add: remaining_def RunPipelineImpl_def)
qed

end

end
