(* ===== verification/Provider.thy ===== *)
theory Provider
  imports PipelineSpec LogParser
begin

text \<open>
  The producer of a pipeline (include/parser/parser.h): \<open>BufferedEventProvider\<close> posts a task
  that reads the lines of a log, parses them and pushes the events into a bounded channel,
  from which \<open>produce\<close> takes them. It provides the \<open>event_source\<close> interface for every
  parser with the \<open>log_parser\<close> interface.
\<close>

section \<open>State and operations\<close>

datatype fill_pc =
  FillNotPosted | FillOpen | FillNext | FillPush event | FillClose | FillDone

text \<open>\<open>bep_file\<close> is the log as the chunks that \<open>read\<close> returns, see \<open>Reader\<close>.\<close>

record 's BufferedEventProvider =
  bep_file :: "string list"
  bep_event_buffer_channel :: "event CoroBoundedChannel"
  bep_started_fill_task :: bool
  bep_reader :: ReaderBuffer
  bep_parser_state :: 's
  bep_fill_pc :: fill_pc

definition BufferedEventProvider_new :: "string list \<Rightarrow> nat \<Rightarrow> 's \<Rightarrow> 's BufferedEventProvider" where
  "BufferedEventProvider_new log_file event_buffer_size st =
     \<lparr>bep_file = log_file, bep_event_buffer_channel = CoroBoundedChannel_new event_buffer_size,
      bep_started_fill_task = False, bep_reader = OpenFile log_file, bep_parser_state = st,
      bep_fill_pc = FillNotPosted\<rparr>"

text \<open>trace.cc instantiates the template with 256 pages of 4096 bytes.\<close>

definition line_buffer_size :: nat where
  "line_buffer_size = 256 * 4096"

text \<open>A line without an event is skipped; the result of \<open>Push\<close> is ignored.\<close>

definition ResetFillBufferTask ::
  "'s event_parser \<Rightarrow> 's BufferedEventProvider \<Rightarrow> 's BufferedEventProvider res"
where
  "ResetFillBufferTask parse p =
     (case bep_fill_pc p of
        FillOpen \<Rightarrow> Inr (p\<lparr>bep_reader := OpenFile (bep_file p), bep_fill_pc := FillNext\<rparr>)
      | FillNext \<Rightarrow>
          rbind (NextHandler line_buffer_size True (bep_reader p)) (\<lambda>(h, b).
            case h of
              None \<Rightarrow> Inr (p\<lparr>bep_reader := b, bep_fill_pc := FillClose\<rparr>)
            | Some line_handler \<Rightarrow>
                rbind (parse line_handler (bep_parser_state p)) (\<lambda>(event_ptr, _, st).
                  Inr (p\<lparr>bep_reader := b, bep_parser_state := st,
                         bep_fill_pc := (case event_ptr of None \<Rightarrow> FillNext | Some e \<Rightarrow> FillPush e)\<rparr>)))
      | FillPush e \<Rightarrow>
          rbind (bounded_Push e (bep_event_buffer_channel p)) (\<lambda>(_, c).
            Inr (p\<lparr>bep_event_buffer_channel := c, bep_fill_pc := FillNext\<rparr>))
      | FillClose \<Rightarrow>
          Inr (p\<lparr>bep_event_buffer_channel := bounded_CloseChannel (bep_event_buffer_channel p),
                 bep_fill_pc := FillDone\<rparr>)
      | _ \<Rightarrow> Inl Blocked)"

text \<open>\<open>produce\<close> up to its \<open>co_await\<close>, and what it awaits.\<close>

definition produce_start :: "'s BufferedEventProvider \<Rightarrow> 's BufferedEventProvider" where
  "produce_start p =
     (if \<not> bep_started_fill_task p
      then p\<lparr>bep_fill_pc := FillOpen, bep_started_fill_task := True\<rparr> else p)"

definition produce_await ::
  "'s BufferedEventProvider \<Rightarrow> (event option \<times> 's BufferedEventProvider) res"
where
  "produce_await p =
     rbind (bounded_Pop (bep_event_buffer_channel p)) (\<lambda>(e, c).
       Inr (e, p\<lparr>bep_event_buffer_channel := c\<rparr>))"

section \<open>The events it delivers\<close>

fun unread_events :: "'s event_parser \<Rightarrow> fill_pc \<Rightarrow> 's BufferedEventProvider \<Rightarrow> event list" where
  "unread_events parse FillNotPosted p =
     events_of_lines parse (text_lines (concat (bep_file p))) (bep_parser_state p)"
| "unread_events parse FillOpen p =
     events_of_lines parse (text_lines (concat (bep_file p))) (bep_parser_state p)"
| "unread_events parse FillNext p =
     events_of_lines parse (text_lines (pending (bep_reader p))) (bep_parser_state p)"
| "unread_events parse (FillPush e) p =
     e # events_of_lines parse (text_lines (pending (bep_reader p))) (bep_parser_state p)"
| "unread_events parse _ p = []"

definition provider_future :: "'s event_parser \<Rightarrow> 's BufferedEventProvider \<Rightarrow> event list" where
  "provider_future parse p =
     bounded_items (bep_event_buffer_channel p) @ unread_events parse (bep_fill_pc p) p"

fun fill_inv :: "('s \<Rightarrow> bool) \<Rightarrow> fill_pc \<Rightarrow> 's BufferedEventProvider \<Rightarrow> bool" where
  "fill_inv ready FillClose p = True"
| "fill_inv ready FillDone p = True"
| "fill_inv ready pc p =
     (ready (bep_parser_state p) \<and>
      (if pc = FillNotPosted \<or> pc = FillOpen
       then [] \<notin> set (bep_file p) \<and> lines_fit line_buffer_size (concat (bep_file p))
       else reader_inv line_buffer_size (bep_reader p) \<and>
            lines_fit line_buffer_size (pending (bep_reader p))))"

definition provider_inv :: "('s \<Rightarrow> bool) \<Rightarrow> 's BufferedEventProvider \<Rightarrow> bool" where
  "provider_inv ready p =
     (channel_ok (bep_event_buffer_channel p) \<and>
      bc_closed (bep_event_buffer_channel p) = (bep_fill_pc p = FillDone) \<and>
      bep_started_fill_task p = (bep_fill_pc p \<noteq> FillNotPosted) \<and>
      fill_inv ready (bep_fill_pc p) p)"

fun fill_rank :: "fill_pc \<Rightarrow> 's BufferedEventProvider \<Rightarrow> nat" where
  "fill_rank FillNotPosted p = 2 * length (concat (bep_file p)) + 4"
| "fill_rank FillOpen p = 2 * length (concat (bep_file p)) + 4"
| "fill_rank FillNext p = 2 * length (pending (bep_reader p)) + 3"
| "fill_rank (FillPush e) p = 2 * length (pending (bep_reader p)) + 4"
| "fill_rank FillClose p = 1"
| "fill_rank FillDone p = 0"

definition provider_rank :: "'s BufferedEventProvider \<Rightarrow> nat" where
  "provider_rank p = fill_rank (bep_fill_pc p) p"

lemma fill_inv_channel [simp]:
  "fill_inv ready pc (p\<lparr>bep_event_buffer_channel := c\<rparr>) = fill_inv ready pc p"
  "unread_events parse pc (p\<lparr>bep_event_buffer_channel := c\<rparr>) = unread_events parse pc p"
  "fill_rank pc (p\<lparr>bep_event_buffer_channel := c\<rparr>) = fill_rank pc p"
  by (cases pc; simp)+

lemma provider_new:
  assumes "[] \<notin> set log_file" and "lines_fit line_buffer_size (concat log_file)" and "n > 0" and "ready st"
  shows "provider_inv ready (BufferedEventProvider_new log_file n st)"
    and "provider_future parse (BufferedEventProvider_new log_file n st) =
      events_of_lines parse (text_lines (concat log_file)) st"
proof -
  have c: "channel_ok (CoroBoundedChannel_new n :: event CoroBoundedChannel)"
    by (rule channel_ok_new[OF assms(3)])
  then show "provider_inv ready (BufferedEventProvider_new log_file n st)"
    using assms by (simp add: provider_inv_def BufferedEventProvider_new_def CoroBoundedChannel_new_def)
  have "bounded_items (CoroBoundedChannel_new n :: event CoroBoundedChannel) = []"
    by (simp add: bounded_items_Nil CoroBoundedChannel_new_def)
  then show "provider_future parse (BufferedEventProvider_new log_file n st) =
      events_of_lines parse (text_lines (concat log_file)) st"
    by (simp add: provider_future_def BufferedEventProvider_new_def)
qed

context log_parser
begin

text \<open>The fill task: one step never changes the events still to come.\<close>

lemma fill_next:
  assumes "provider_inv ready p" and "bep_fill_pc p = FillNext"
  shows "\<exists>p'. ResetFillBufferTask ParseEvent p = Inr p' \<and> provider_inv ready p' \<and>
    bep_started_fill_task p' = bep_started_fill_task p \<and>
    provider_future ParseEvent p' = provider_future ParseEvent p \<and> provider_rank p' < provider_rank p"
proof -
  let ?st = "bep_parser_state p"
  have inv: "reader_inv line_buffer_size (bep_reader p)" "lines_fit line_buffer_size (pending (bep_reader p))"
      "ready ?st"
    using assms by (simp_all add: provider_inv_def)
  note nh = NextHandler_next[OF inv(1,2)]
  show ?thesis
  proof (cases "next_line (pending (bep_reader p))")
    case None
    then obtain b where b: "NextHandler line_buffer_size True (bep_reader p) = Inr (None, b)"
      using nh by auto
    have "text_lines (pending (bep_reader p)) = []" using None by (subst text_lines.simps) simp
    then show ?thesis
      using assms b by (simp add: ResetFillBufferTask_def provider_inv_def provider_future_def provider_rank_def)
  next
    case (Some lr)
    obtain l r where lr: "lr = (l, r)" by (cases lr)
    obtain b post where b: "NextHandler line_buffer_size True (bep_reader p) = Inr (Some (line [] l post), b)"
        "reader_inv line_buffer_size b" "pending b = r" "lines_fit line_buffer_size r"
      using nh Some lr by auto
    have t: "text_lines (pending (bep_reader p)) = l # text_lines r"
      using Some lr by (subst text_lines.simps) simp
    have sh: "length r < length (pending (bep_reader p))" by (rule next_line_shorter[OF Some[unfolded lr]])
    obtain e st' where e: "event_of_line ParseEvent l ?st = (e, st')" by (cases "event_of_line ParseEvent l ?st")
    obtain h' where h': "ParseEvent (line [] l post) ?st = Inr (e, h', st')"
      using ParseEvent_line(1)[OF inv(3), of l post] e by auto
    have rd: "ready st'" using ParseEvent_line(2)[OF inv(3), of l] e by simp
    show ?thesis
      using assms b h' rd sh t e
      by (cases e) (simp_all add: ResetFillBufferTask_def provider_inv_def provider_future_def provider_rank_def)
  qed
qed

lemma fill_step:
  assumes "provider_inv ready p"
  shows "case ResetFillBufferTask ParseEvent p of
      Inl e \<Rightarrow> e = Blocked
    | Inr p' \<Rightarrow> provider_inv ready p' \<and> bep_started_fill_task p' = bep_started_fill_task p \<and>
        provider_future ParseEvent p' = provider_future ParseEvent p \<and> provider_rank p' < provider_rank p"
proof (cases "bep_fill_pc p")
  case FillOpen
  then show ?thesis
    using assms OpenFile_inv(1)[of "bep_file p" line_buffer_size] OpenFile_inv(2)[of "bep_file p"]
    by (simp add: ResetFillBufferTask_def provider_inv_def provider_future_def provider_rank_def)
next
  case FillNext
  then show ?thesis using fill_next[OF assms] by auto
next
  case (FillPush e)
  have ok: "channel_ok (bep_event_buffer_channel p)" "\<not> bc_closed (bep_event_buffer_channel p)"
    using assms FillPush by (simp_all add: provider_inv_def)
  show ?thesis
    by (rule push_cases[OF ok, of e])
       (use assms FillPush in \<open>simp_all add: ResetFillBufferTask_def provider_inv_def
          provider_future_def provider_rank_def\<close>)
qed (use assms in \<open>simp_all add: ResetFillBufferTask_def provider_inv_def provider_future_def provider_rank_def\<close>)

lemma await_step:
  assumes inv: "provider_inv ready p" and "bep_started_fill_task p"
  shows "case produce_await p of
      Inl e \<Rightarrow> e = Blocked \<and> (\<exists>p'. ResetFillBufferTask ParseEvent p = Inr p')
    | Inr (x, p') \<Rightarrow> provider_inv ready p' \<and> provider_rank p' \<le> provider_rank p \<and>
        (case x of
           None \<Rightarrow> provider_future ParseEvent p = [] \<and> provider_future ParseEvent p' = []
         | Some v \<Rightarrow> provider_future ParseEvent p = v # provider_future ParseEvent p')"
proof -
  have ok: "channel_ok (bep_event_buffer_channel p)" using inv by (simp add: provider_inv_def)
  show ?thesis
  proof (cases rule: pop_cases[OF ok])
    case 1
    have "\<exists>p'. ResetFillBufferTask ParseEvent p = Inr p'"
    proof (cases "bep_fill_pc p")
      case (FillPush e)
      show ?thesis
        by (rule push_cases[OF ok 1(2), of e]) (use 1 FillPush in \<open>auto simp: ResetFillBufferTask_def\<close>)
    next
      case FillNext
      then show ?thesis using fill_next[OF inv] by auto
    qed (use inv assms(2) 1 in \<open>auto simp: ResetFillBufferTask_def provider_inv_def\<close>)
    then show ?thesis using 1 by (simp add: produce_await_def)
  next
    case 2
    then have "bep_fill_pc p = FillDone" "bounded_items (bep_event_buffer_channel p) = []"
      using inv by (simp_all add: provider_inv_def bounded_items_Nil)
    then show ?thesis using 2 inv by (simp add: produce_await_def provider_future_def)
  next
    case (3 v c)
    then show ?thesis using inv
      by (simp add: produce_await_def provider_future_def provider_inv_def provider_rank_def)
  qed
qed

lemma start_step:
  assumes "provider_inv ready p"
  shows "provider_inv ready (produce_start p) \<and> bep_started_fill_task (produce_start p) \<and>
    provider_future ParseEvent (produce_start p) = provider_future ParseEvent p \<and>
    provider_rank (produce_start p) \<le> provider_rank p"
  using assms
  by (cases "bep_fill_pc p")
     (auto simp: produce_start_def provider_inv_def provider_future_def provider_rank_def)

end

sublocale log_parser < event_provider: event_source
  produce_start produce_await "ResetFillBufferTask ParseEvent" "provider_future ParseEvent"
  "provider_inv ready" bep_started_fill_task provider_rank
  by unfold_locales (rule start_step await_step fill_step, assumption+)+

text \<open>The lemmas on pipelines, for the provider of every parser.\<close>

context log_parser
begin

lemma is_event_source:
  "event_source produce_start produce_await (ResetFillBufferTask ParseEvent) (provider_future ParseEvent)
     (provider_inv ready) bep_started_fill_task provider_rank"
  by (rule event_provider.event_source_axioms)

end

end
