(* ===== verification/EventFilter.thy ===== *)
theory EventFilter
  imports EventText TraceEnv Pipeline
begin

text \<open>
  The handlers of a pipeline: the event filters of include/events/event-filter.h and the
  printer of include/events/printer.h, with the \<open>NodeDeviceFilter\<close> of
  include/analytics/helper.h. A handler that meets a null pointer terminates, except the ns-3
  filter; the providers deliver no null pointers, so the pipelines call \<open>filter_event\<close>.
\<close>

section \<open>Interesting nodes and devices\<close>

type_synonym NodeDeviceFilter = "(i32 \<times> i32) set"

definition AddNodeDevice :: "i32 \<Rightarrow> i32 \<Rightarrow> NodeDeviceFilter \<Rightarrow> NodeDeviceFilter" where
  "AddNodeDevice node device f = insert (node, device) f"

definition AddNodeDevice_event :: "NetworkEvent option \<Rightarrow> NodeDeviceFilter \<Rightarrow> NodeDeviceFilter" where
  "AddNodeDevice_event event_ptr f =
     (case event_ptr of None \<Rightarrow> f | Some n \<Rightarrow> insert (net_node n, net_device n) f)"

definition IsInterestingNodeDevice :: "i32 \<Rightarrow> i32 \<Rightarrow> NodeDeviceFilter \<Rightarrow> bool" where
  "IsInterestingNodeDevice node device f = ((node, device) \<in> f)"

definition IsInterestingNodeDevice_event :: "NetworkEvent option \<Rightarrow> NodeDeviceFilter \<Rightarrow> bool" where
  "IsInterestingNodeDevice_event event_ptr f =
     (case event_ptr of None \<Rightarrow> False
      | Some n \<Rightarrow> IsInterestingNodeDevice (net_node n) (net_device n) f)"

definition IsNotInterestingNodeDevice :: "NetworkEvent option \<Rightarrow> NodeDeviceFilter \<Rightarrow> bool" where
  "IsNotInterestingNodeDevice event_ptr f = (\<not> IsInterestingNodeDevice_event event_ptr f)"

definition IsDeviceType :: "NetworkEvent option \<Rightarrow> NetworkDeviceType \<Rightarrow> bool" where
  "IsDeviceType event_ptr device_type =
     (case event_ptr of None \<Rightarrow> False | Some n \<Rightarrow> net_device_type n = device_type)"

section \<open>The handlers\<close>

record EventTimeBoundary =
  etb_lower_bound :: u64
  etb_upper_bound :: u64

datatype event_handler =
    GenericEventFilter "event \<Rightarrow> bool"
  | EventTypeFilter "EventType set" bool
  | EventTimestampFilter "EventTimeBoundary list"
  | HostCallFuncFilter bool "string set"
  | NS3EventFilter NodeDeviceFilter
  | EventPrinter ostream

definition EventTypeFilter_handel :: "EventType set \<Rightarrow> bool \<Rightarrow> event \<Rightarrow> bool" where
  "EventTypeFilter_handel filtered inverted e =
     (if inverted then GetType e \<notin> filtered else GetType e \<in> filtered)"

fun EventTimestampFilter_handel :: "EventTimeBoundary list \<Rightarrow> event \<Rightarrow> bool" where
  "EventTimestampFilter_handel [] e = False"
| "EventTimestampFilter_handel (boundary # bs) e =
     (if etb_lower_bound boundary \<le> GetTs e \<and> GetTs e \<le> etb_upper_bound boundary then True
      else EventTimestampFilter_handel bs e)"

text \<open>A null function name is in no list.\<close>

definition HostCallFuncFilter_handel :: "bool \<Rightarrow> string set \<Rightarrow> event \<Rightarrow> bool" where
  "HostCallFuncFilter_handel blacklist funcs e =
     (if \<not> IsType (Some e) kHostCallT then True
      else
        (let listed = (case GetCallFunc (Some e) of None \<Rightarrow> False | Some f \<Rightarrow> f \<in> funcs) in
         if blacklist \<and> listed then False
         else if \<not> blacklist \<and> \<not> listed then False
         else True))"

text \<open>The list of types names \<open>kNetworkDequeueT\<close> twice and \<open>kNetworkDropT\<close> not at all.\<close>

definition NS3EventFilter_handel :: "NodeDeviceFilter \<Rightarrow> event \<Rightarrow> bool" where
  "NS3EventFilter_handel f e =
     (if \<not> IsAnyType (Some e) [kNetworkEnqueueT, kNetworkDequeueT, kNetworkDequeueT] then True
      else
        (let n = as_NetworkEvent e;
             flag = (case n of None \<Rightarrow> False | Some x \<Rightarrow> net_interesting_flag x) in
         if flag \<and> IsNotInterestingNodeDevice n f then False
         else if \<not> flag then IsInterestingNodeDevice_event n f \<and> IsDeviceType n kCosimNetDevice
         else True))"

fun filter_event :: "event_handler \<Rightarrow> event \<Rightarrow> bool \<times> event_handler" where
  "filter_event (GenericEventFilter to_filter) e = (to_filter e, GenericEventFilter to_filter)"
| "filter_event (EventTypeFilter types inverted) e =
     (EventTypeFilter_handel types inverted e, EventTypeFilter types inverted)"
| "filter_event (EventTimestampFilter bs) e =
     (EventTimestampFilter_handel bs e, EventTimestampFilter bs)"
| "filter_event (HostCallFuncFilter blacklist funcs) e =
     (HostCallFuncFilter_handel blacklist funcs e, HostCallFuncFilter blacklist funcs)"
| "filter_event (NS3EventFilter f) e = (NS3EventFilter_handel f e, NS3EventFilter f)"
| "filter_event (EventPrinter out) e =
     (True, EventPrinter (stream_out (Display e @ [Str [CHR 0x0A]]) out))"

text \<open>The virtual method, with the checks of its argument.\<close>

definition handel_ptr :: "event_handler \<Rightarrow> event option \<Rightarrow> (bool \<times> event_handler) res" where
  "handel_ptr h event_ptr =
     (case (h, event_ptr) of
        (NS3EventFilter f, None) \<Rightarrow> Inr (False, h)
      | _ \<Rightarrow> rbind (throw_if_empty event_ptr ''Event is null'') (\<lambda>e. Inr (filter_event h e)))"

section \<open>What passes\<close>

text \<open>The decision of a handler does not depend on what it saw before.\<close>

fun accepts :: "event_handler \<Rightarrow> event \<Rightarrow> bool" where
  "accepts (GenericEventFilter to_filter) e = to_filter e"
| "accepts (EventTypeFilter types inverted) e = (inverted \<noteq> (GetType e \<in> types))"
| "accepts (EventTimestampFilter bs) e =
     (\<exists>b \<in> set bs. GetTs e \<in> {etb_lower_bound b .. etb_upper_bound b})"
| "accepts (HostCallFuncFilter blacklist funcs) e =
     (GetType e = kHostCallT \<longrightarrow>
       blacklist \<noteq> (case GetCallFunc (Some e) of None \<Rightarrow> False | Some f \<Rightarrow> f \<in> funcs))"
| "accepts (NS3EventFilter f) e =
     (case e of
        NetworkEnqueue _ n \<Rightarrow> (net_node n, net_device n) \<in> f \<and>
          (net_interesting_flag n \<or> net_device_type n = kCosimNetDevice)
      | NetworkDequeue _ n \<Rightarrow> (net_node n, net_device n) \<in> f \<and>
          (net_interesting_flag n \<or> net_device_type n = kCosimNetDevice)
      | _ \<Rightarrow> True)"
| "accepts (EventPrinter out) e = True"

lemma timestamp_accepts:
  "EventTimestampFilter_handel bs e \<longleftrightarrow> (\<exists>b \<in> set bs. GetTs e \<in> {etb_lower_bound b .. etb_upper_bound b})"
  by (induction bs) auto

lemma ns3_accepts: "NS3EventFilter_handel f e = accepts (NS3EventFilter f) e"
  by (cases e) (auto simp: NS3EventFilter_handel_def IsNotInterestingNodeDevice_def
      IsInterestingNodeDevice_event_def IsInterestingNodeDevice_def IsDeviceType_def Let_def)

lemma filter_event_accepts: "fst (filter_event h e) = accepts h e"
  by (cases h) (auto simp: EventTypeFilter_handel_def timestamp_accepts HostCallFuncFilter_handel_def
      ns3_accepts Let_def simp del: accepts.simps(5))

lemma accepts_after: "accepts (snd (filter_event h e)) = accepts h"
  by (cases h) (simp_all add: fun_eq_iff)

lemma pass_on_filter: "pass_on filter_event h es = filter (accepts h) es"
proof (induction es arbitrary: h)
  case (Cons e es)
  then show ?case
    using filter_event_accepts[of h e] accepts_after[of h e] by (simp add: case_prod_beta)
qed simp

lemma pass_all_filter:
  "pass_all filter_event hs es = filter (\<lambda>e. list_all (\<lambda>h. accepts h e) hs) es"
proof (induction hs arbitrary: es)
  case Nil
  then show ?case by (simp add: pass_all_def)
next
  case (Cons h hs)
  have "pass_all filter_event (h # hs) es = pass_all filter_event hs (filter (accepts h) es)"
    by (simp add: pass_all_def pass_on_filter)
  then show ?case using Cons by (simp add: filter_filter conj_commute)
qed

text \<open> C26.
  The handlers of a pipeline act as one filter: what leaves a vector of handlers is, in
  order, exactly the events that each of them accepts, so the order of the handlers and the
  events seen before do not matter. The ns-3 filter accepts an enqueue or dequeue at an
  interesting device if its packet is interesting or the device leads to a host simulator,
  and every other event, network drops included.
\<close>
theorem event_handlers_filter:
  "pass_all filter_event hs es = filter (\<lambda>e. list_all (\<lambda>h. accepts h e) hs) es"
  by (rule pass_all_filter)

end
