(* ===== verification/LogParsers.thy ===== *)
theory LogParsers
  imports LogParser
begin

text \<open>
  The log parsers of the NIC behavioural model (source/parser/nicbm.cc) and of ns-3
  (source/parser/ns3.cpp). A parser object is its identifier and its name; each
  \<open>ParseEvent\<close> takes the line handler, as the C++ methods do.
\<close>

section \<open>NicBmParser\<close>

definition parse_bit :: "bool line_parser" where
  "parse_bit =
     lh_if (ConsumeAndTrimChar CHR ''1'') (lh_return True)
       (lh_if (ConsumeAndTrimChar CHR ''0'') (lh_return False) lh_fail)"

definition ParseSyncInfo :: "(bool \<times> bool) line_parser" where
  "ParseSyncInfo =
     lh_check (ConsumeAndTrimTillString ''sync_pci'') (
     lh_check (ConsumeAndTrimChar CHR ''='') (
     lh_bind parse_bit (\<lambda>sync_pcie.
     lh_check (ConsumeAndTrimTillString ''sync_eth'') (
     lh_check (ConsumeAndTrimChar CHR ''='') (
     lh_bind parse_bit (\<lambda>sync_eth. lh_return (sync_pcie, sync_eth)))))))"

definition NicBm_ParseMacAddress :: "u64 line_parser" where
  "NicBm_ParseMacAddress =
     lh_check (ConsumeAndTrimTillString ''mac_addr'') (
     lh_check (ConsumeAndTrimChar CHR ''='') ParseAddress)"

definition ParseOffLenValComma :: "(u64 \<times> u64 \<times> u64) line_parser" where
  "ParseOffLenValComma =
     till_field ''off=0x'' ParseAddress (\<lambda>off.
     till_field ''len='' (ParseUintTrim 10) (\<lambda>len.
     till_field ''val=0x'' ParseAddress (\<lambda>val. lh_return (off, len, val))))"

definition ParseOpAddrLenPending :: "bool \<Rightarrow> (u64 \<times> u64 \<times> u64) line_parser" where
  "ParseOpAddrLenPending with_pending =
     till_field ''op 0x'' ParseAddress (\<lambda>op.
     till_field ''addr '' ParseAddress (\<lambda>addr.
     till_field ''len '' (ParseUintTrim 10) (\<lambda>len.
       if \<not> with_pending then lh_return (op, addr, len)
       else till_field ''pending '' (ParseUintTrim 10) (\<lambda>pending. lh_return (op, addr, len)))))"

definition parse_mmio_read :: "ev_base \<Rightarrow> event line_parser" where
  "parse_mmio_read b =
     lh_bind ParseOffLenValComma (\<lambda>(off, len, val). lh_return (NicMmioR b off len val))"

definition parse_mmio_write :: "ev_base \<Rightarrow> event line_parser" where
  "parse_mmio_write b =
     lh_bind ParseOffLenValComma (\<lambda>(off, len, val).
     till_field ''posted='' (ParseBoolFromUint 10) (\<lambda>posted.
       lh_return (NicMmioW b off len val posted)))"

definition parse_dma :: "bool \<Rightarrow> (u64 \<Rightarrow> u64 \<Rightarrow> u64 \<Rightarrow> event) \<Rightarrow> event line_parser" where
  "parse_dma with_pending mk =
     lh_bind (ParseOpAddrLenPending with_pending) (\<lambda>(op, addr, len). lh_return (mk op addr len))"

definition parse_completed_dma :: "ev_base \<Rightarrow> event line_parser" where
  "parse_completed_dma b =
     lh_if (ConsumeAndTrimTillString ''read'') (parse_dma False (NicDmaCR b))
       (lh_if (ConsumeAndTrimTillString ''write'') (parse_dma False (NicDmaCW b)) lh_fail)"

definition parse_msi :: "ev_base \<Rightarrow> event line_parser" where
  "parse_msi b =
     lh_bind (lh_if (ConsumeAndTrimTillString ''-X interrupt vec '') (lh_return True)
               (lh_if (ConsumeAndTrimTillString ''interrupt vec '') (lh_return False) lh_fail)) (\<lambda>isX.
     lh_bind (ParseUintTrim 10) (\<lambda>vec. lh_return (NicMsix b (ucast vec) isX)))"

definition parse_eth :: "ev_base \<Rightarrow> event line_parser" where
  "parse_eth b =
     lh_if (ConsumeAndTrimTillString ''tx: len '')
       (lh_bind (ParseUintTrim 10) (\<lambda>len. lh_return (NicTx b len)))
       (lh_if (ConsumeAndTrimTillString ''rx: port '')
          (lh_bind ParseInt (\<lambda>port.
           till_field ''len '' (ParseUintTrim 10) (\<lambda>len. lh_return (NicRx b port len))))
          lh_fail)"

definition nicbm_event :: "ev_base \<Rightarrow> event line_parser" where
  "nicbm_event b =
     lh_check (ConsumeAndTrimTillString ''nicbm'') (
     lh_if (ConsumeAndTrimTillString ''sending sync message'') (lh_return (SimSendSync b)) (
     lh_if (ConsumeAndTrimTillString ''read('') (parse_mmio_read b) (
     lh_if (ConsumeAndTrimTillString ''write('') (parse_mmio_write b) (
     lh_if (ConsumeAndTrimTillString ''issuing dma'') (parse_dma True (NicDmaI b)) (
     lh_if (ConsumeAndTrimTillString ''executing dma'') (parse_dma True (NicDmaEx b)) (
     lh_if (ConsumeAndTrimTillString ''enqueuing dma'') (parse_dma True (NicDmaEn b)) (
     lh_if (ConsumeAndTrimTillString ''completed dma'') (parse_completed_dma b) (
     lh_if (ConsumeAndTrimTillString ''issue MSI'') (parse_msi b) (
     lh_if (ConsumeAndTrimTillString ''eth'') (parse_eth b) (
     lh_if (ConsumeAndTrimTillString ''set intx interrupt'')
       (lh_bind ParseAddress (\<lambda>addr. lh_return (SetIX b addr))) (
     lh_if (ConsumeAndTrimTillString ''dma write data'') lh_fail lh_fail)))))))))))"

definition NicBm_ParseEvent :: "u64 \<Rightarrow> string \<Rightarrow> event line_parser" where
  "NicBm_ParseEvent ident nm h =
     (if IsEmpty h then lh_fail h
      else
        lh_step TrimL (
        lh_check (ConsumeAndTrimTillString ''main_time'') (
        lh_check (ConsumeAndTrimString '' = '') (
        lh_bind ParseTimestamp (\<lambda>timestamp. nicbm_event (log_base ident nm timestamp))))) h)"

section \<open>NS3Parser\<close>

fun ns3_event :: "EventType \<Rightarrow> ev_base \<Rightarrow> NetworkEvent \<Rightarrow> event option" where
  "ns3_event kNetworkEnqueueT b n = Some (NetworkEnqueue b n)"
| "ns3_event kNetworkDequeueT b n = Some (NetworkDequeue b n)"
| "ns3_event kNetworkDropT b n = Some (NetworkDrop b n)"
| "ns3_event _ b n = None"

text \<open>A payload marker that is not followed by a number fails the line; none means size 0.\<close>

definition parse_payload :: "u64 line_parser" where
  "parse_payload =
     lh_if (ConsumeAndTrimTillString ''Payload (size='') (ParseUintTrim 10) (lh_return 0)"

definition ParseNetDevice ::
  "EventType \<Rightarrow> ev_base \<Rightarrow> i32 \<Rightarrow> i32 \<Rightarrow> NetworkDeviceType \<Rightarrow> event line_parser"
where
  "ParseNetDevice ty b node device device_type =
     lh_step TrimL (
     lh_bind (lh_if (ConsumeAndTrimTillString ''RxPacketFromAdapter'') (lh_return kFromAdapter)
               (lh_if (ConsumeAndTrimTillString ''TxPacketToAdapter'') (lh_return kToAdapter)
                  (lh_return kWithinSimulator))) (\<lambda>boundary_type.
     till_field ''Packet-Uid='' (ParseUintTrim 10) (\<lambda>packet_uid.
     till_field ''Intersting='' ParseBoolFromStringRepr (\<lambda>interesting.
     lh_optional TryParseEthernetHeader (\<lambda>eth_header.
     lh_optional TryParseArpHeader (\<lambda>arp_header.
     lh_optional TryParseIpHeader (\<lambda>ip_header.
     lh_bind parse_payload (\<lambda>payload_size h.
       Inr (ns3_event ty b
         \<lparr>net_node = node, net_device = device, net_device_type = device_type,
          net_packet_uid = packet_uid, net_interesting_flag = interesting,
          net_payload_size = payload_size, net_boundary_type = boundary_type,
          net_ethernet_header = eth_header, net_arp_header = arp_header,
          net_ip_header = ip_header\<rparr>, h)))))))))"

definition parse_event_kind :: "EventType line_parser" where
  "parse_event_kind =
     lh_if (ConsumeAndTrimChar CHR ''+'') (lh_return kNetworkEnqueueT)
       (lh_if (ConsumeAndTrimChar CHR ''-'') (lh_return kNetworkDequeueT)
          (lh_if (ConsumeAndTrimChar CHR ''d'') (lh_return kNetworkDropT) lh_fail))"

definition NS3_ParseEvent :: "u64 \<Rightarrow> string \<Rightarrow> event line_parser" where
  "NS3_ParseEvent ident nm h =
     (if IsEmpty h then lh_fail h
      else
        lh_bind parse_event_kind (\<lambda>ty.
        lh_step TrimL (
        lh_bind ParseTimestamp (\<lambda>timestamp.
        till_field ''NodeList/'' ParseInt (\<lambda>node.
        till_field ''DeviceList/'' ParseInt (\<lambda>device.
        lh_bind (lh_if (ConsumeAndTrimTillString ''ns3::SimpleNetDevice'') (lh_return kSimpleNetDevice)
                  (lh_if (ConsumeAndTrimTillString ''ns3::CosimNetDevice'') (lh_return kCosimNetDevice)
                     lh_fail)) (\<lambda>device_type.
          ParseNetDevice ty (log_base ident nm timestamp) node device device_type)))))) h)"

section \<open>The events they make\<close>

lemma yields_triple:
  "yields (\<lambda>_. True) p \<Longrightarrow> (\<And>x y z. yields Q (f x y z)) \<Longrightarrow> yields Q (lh_bind p (\<lambda>(x, y, z). f x y z))"
  by (rule yields_bind_any) auto

lemma yields_nicbm: "yields (made_by ident nm) (nicbm_event (log_base ident nm ts))"
  unfolding nicbm_event_def parse_mmio_read_def parse_mmio_write_def parse_dma_def
    parse_completed_dma_def parse_msi_def parse_eth_def ParseOffLenValComma_def
    ParseOpAddrLenPending_def
  by (intro yields_intros yields_triple TrueI made_by_base; simp)

lemma yields_ns3:
  "yields (made_by ident nm) (ParseNetDevice ty (log_base ident nm ts) node device device_type)"
proof -
  have "made_by ident nm e" if "ns3_event ty (log_base ident nm ts) n = Some e" for n e
    using that by (cases "(ty, log_base ident nm ts, n)" rule: ns3_event.cases) auto
  then show ?thesis
    unfolding ParseNetDevice_def parse_payload_def
    by (intro yields_intros TrueI yields_const) blast
qed

lemma yields_NicBm_ParseEvent: "yields (made_by ident nm) (NicBm_ParseEvent ident nm)"
  unfolding NicBm_ParseEvent_def[abs_def]
  by (intro yields_nonempty yields_intros yields_nicbm)

lemma yields_NS3_ParseEvent: "yields (made_by ident nm) (NS3_ParseEvent ident nm)"
  unfolding NS3_ParseEvent_def[abs_def] parse_event_kind_def
  by (intro yields_nonempty yields_intros yields_ns3 TrueI)

interpretation nicbm_parser: identified_parser
  "lift_parser (NicBm_ParseEvent ident nm)" "\<lambda>_. True" ident nm for ident nm
  by (rule lift_identified[OF yields_NicBm_ParseEvent])

interpretation ns3_parser: identified_parser
  "lift_parser (NS3_ParseEvent ident nm)" "\<lambda>_. True" ident nm for ident nm
  by (rule lift_identified[OF yields_NS3_ParseEvent])

end
