(* ===== verification/PipelineProps.thy ===== *)
theory PipelineProps
  imports Provider EventFilter LogParsers
begin

text \<open>
  The properties of a whole pipeline: a log file, a parser, the event provider, any
  handlers and any consumer, under every schedule of their tasks.
\<close>

definition provider_ops ::
  "'s event_parser \<Rightarrow> ('h \<Rightarrow> event \<Rightarrow> bool \<times> 'h) \<Rightarrow> (event \<Rightarrow> 'c \<Rightarrow> 'c res) \<Rightarrow>
   ('s BufferedEventProvider, 'h, 'c, event) pipeline_ops"
where
  "provider_ops parse handel consume =
     make_ops produce_start produce_await (ResetFillBufferTask parse) handel consume"

text \<open>The pipeline on a log file, before its first step.\<close>

definition log_pipeline ::
  "string list \<Rightarrow> nat \<Rightarrow> 's \<Rightarrow> 'h list \<Rightarrow> 'c \<Rightarrow> ('s BufferedEventProvider, 'h, 'c, event) pipeline"
where
  "log_pipeline log_file buffer_size st hs c =
     RunPipelineImpl (BufferedEventProvider_new log_file buffer_size st) hs c"

definition readable_log :: "string list \<Rightarrow> bool" where
  "readable_log log_file = ([] \<notin> set log_file \<and> lines_fit line_buffer_size (concat log_file))"

definition log_events :: "'s event_parser \<Rightarrow> string list \<Rightarrow> 's \<Rightarrow> event list" where
  "log_events parse log_file st = events_of_lines parse (text_lines (concat log_file)) st"

lemma log_pipeline_start:
  assumes "log_parser parse ready" and "ready st" and "readable_log log_file" and "buffer_size > 0"
  shows "pipeline_inv (provider_inv ready) bep_started_fill_task (log_pipeline log_file buffer_size st hs c)"
    and "event_source produce_start produce_await (ResetFillBufferTask parse) (provider_future parse)
      (provider_inv ready) bep_started_fill_task provider_rank"
    and "remaining handel (provider_future parse) (log_pipeline log_file buffer_size st hs c) =
      pass_all handel hs (log_events parse log_file st)"
proof -
  note new = provider_new(1)[of log_file buffer_size ready st] assms(2-4)
  show es: "event_source produce_start produce_await (ResetFillBufferTask parse) (provider_future parse)
      (provider_inv ready) bep_started_fill_task provider_rank"
    by (rule log_parser.is_event_source[OF assms(1)])
  show "pipeline_inv (provider_inv ready) bep_started_fill_task (log_pipeline log_file buffer_size st hs c)"
    unfolding log_pipeline_def by (rule pipeline_inv_initial) (use new in \<open>simp add: readable_log_def\<close>)
  show "remaining handel (provider_future parse) (log_pipeline log_file buffer_size st hs c) =
      pass_all handel hs (log_events parse log_file st)"
    unfolding log_pipeline_def event_source.upstream_initial[OF es] log_events_def
    using provider_new(2)[of log_file buffer_size ready st parse] new by (simp add: readable_log_def)
qed

text \<open> C11.
  However the tasks of a pipeline are scheduled, its consumer has always received, in order
  and without loss or duplicate, a prefix of the events of the log that pass its handlers,
  one per parsed line; and when RunPipeline returns it has received all of them.
\<close>
theorem pipeline_delivers:
  assumes "log_parser parse ready" and "ready s" and "readable_log log_file" and "buffer_size > 0"
    and "run_tasks (provider_ops parse handel consume) ts (log_pipeline log_file buffer_size s hs c) = Inr st"
  shows "\<exists>received rest. pass_all handel hs (log_events parse log_file s) = received @ rest \<and>
    consume_all consume received c = Inr (pl_cons st) \<and> (pl_main st = PipelineDone \<longrightarrow> rest = [])"
proof -
  note start = log_pipeline_start[OF assms(1-4)]
  have run: "pipeline_inv (provider_inv ready) bep_started_fill_task st \<and>
      (\<exists>vs. remaining handel (provider_future parse) (log_pipeline log_file buffer_size s hs c) =
          vs @ remaining handel (provider_future parse) st \<and>
        consume_all consume vs (pl_cons (log_pipeline log_file buffer_size s hs c)) = Inr (pl_cons st))"
    using event_source.run_tasks_ok[OF start(2) start(1) assms(5)[unfolded provider_ops_def]] by blast
  have c: "pl_cons (log_pipeline log_file buffer_size s hs c) = c"
    by (simp add: log_pipeline_def RunPipelineImpl_def)
  have "remaining handel (provider_future parse) st = []" if "pl_main st = PipelineDone"
    using event_source.finished[OF start(2)] run that by blast
  then show ?thesis using run start(3)[of handel hs c] c by auto
qed

text \<open> C18.
  A pipeline never deadlocks and always ends: if its consumer never waits or fails, then
  every schedule stops after a bounded number of steps, and until RunPipeline has returned
  some task can take a step.
\<close>
theorem pipeline_terminates:
  assumes "log_parser parse ready" and "ready s" and "readable_log log_file" and "buffer_size > 0"
    and "\<forall>v c. \<exists>c'. consume v c = Inr c'"
  shows "\<exists>bound. \<forall>ts st.
    run_tasks (provider_ops parse handel consume) ts (log_pipeline log_file buffer_size s hs c) = Inr st \<longrightarrow>
      length ts \<le> bound \<and>
      (pl_main st = PipelineDone \<or> (\<exists>t st'. task_step (provider_ops parse handel consume) t st = Inr st'))"
proof -
  note start = log_pipeline_start[OF assms(1-4)]
  let ?start = "log_pipeline log_file buffer_size s hs c"
  let ?bound = "work provider_rank (provider_future parse) ?start"
  have "length ts \<le> ?bound \<and>
      (pl_main st = PipelineDone \<or> (\<exists>t st'. task_step (provider_ops parse handel consume) t st = Inr st'))"
    if "run_tasks (provider_ops parse handel consume) ts ?start = Inr st" for ts st
  proof -
    have ok: "pipeline_inv (provider_inv ready) bep_started_fill_task st"
      "work provider_rank (provider_future parse) st + length ts \<le> ?bound"
      using event_source.run_tasks_ok[OF start(2) start(1) that[unfolded provider_ops_def]] by auto
    show ?thesis
      using event_source.progress[OF start(2) ok(1) _ assms(5)] ok(2) by (auto simp: provider_ops_def)
  qed
  then show ?thesis by blast
qed

text \<open> C25.
  The only errors a pipeline can raise are those of its consumer: a channel is never pushed
  to after it was closed, so no task throws, and every other step that is not possible is one
  that waits.
\<close>
theorem pipeline_raises_nothing:
  assumes "log_parser parse ready" and "ready s" and "readable_log log_file" and "buffer_size > 0"
    and "run_tasks (provider_ops parse handel consume) ts (log_pipeline log_file buffer_size s hs c) = Inl e"
  shows "e = Blocked \<or> (\<exists>v c. consume v c = Inl e)"
proof -
  note start = log_pipeline_start[OF assms(1-4)]
  show ?thesis
    by (rule event_source.run_tasks_stops[OF start(2) start(1) assms(5)[unfolded provider_ops_def]])
qed

section \<open>A concrete pipeline\<close>

text \<open>One line of a NIC log and a consumer that collects the events.\<close>

definition collect_event :: "event \<Rightarrow> event list \<Rightarrow> event list res" where
  "collect_event e es = Inr (es @ [e])"

definition sample_line :: string where
  "sample_line = ''main_time = 5: nicbm: sending sync message''"

definition sample_parser :: "unit event_parser" where
  "sample_parser = lift_parser (NicBm_ParseEvent 1 ''nic'')"

definition sample_log :: "string list" where
  "sample_log = [sample_line, [kLineEnd]]"

lemma sample_line_event:
  "event_of_line (lift_parser (NicBm_ParseEvent i nm)) sample_line st = (Some (SimSendSync (log_base i nm 5)), st)"
proof -
  have num: "strtoul 10 ''5'' = 5"
    by (simp add: strtoul_def strto_parts_def value_of_def is_digit_of_def digit_val_def
        isdigit_def isspace_def code_def)
  have find: "greedy_find ''main_time'' sample_line = Some '' = 5: nicbm: sending sync message''"
    "greedy_find ''nicbm'' '': nicbm: sending sync message'' = Some '': sending sync message''"
    "greedy_find ''sending sync message'' '': sending sync message'' = Some []"
    by (simp_all add: greedy_find.simps sample_line_def)
  have body: "\<exists>h. nicbm_event b (line pre '': nicbm: sending sync message'' post) = Inr (Some (SimSendSync b), h)"
    for b pre post
    by (simp add: nicbm_event_def lh_check_def lh_if_def ConsumeAndTrimTillString_line find lh_return_def)
  have ts: "ParseTimestamp (line pre ''5: nicbm: sending sync message'' post) =
      Inr (Some 5, line (pre @ ''5'') '': nicbm: sending sync message'' post)" for pre post
    by (simp add: ParseTimestamp_def lh_step_def TrimL_line ParseUintTrim_line num_pred_def
        is_num_def is_space_def code_def isspace_def isdigit_def num Let_def)
  have space: "takeWhile is_space sample_line = []" "dropWhile is_space sample_line = sample_line"
    by (simp_all add: sample_line_def is_space_def isspace_def code_def)
  have pre: "NicBm_ParseEvent i nm (line [] sample_line []) =
      nicbm_event (log_base i nm 5) (line ''main_time = 5'' '': nicbm: sending sync message'' [])"
    by (simp add: NicBm_ParseEvent_def lh_step_def TrimL_line lh_check_def lh_if_def lh_bind_def
        ConsumeAndTrimTillString_line ConsumeAndTrimString_line find ts space)
       (simp add: sample_line_def)
  show ?thesis
    using body[of "log_base i nm 5" "''main_time = 5''" "[]"]
    by (auto simp: lift_event_of_line pre)
qed

lemma sample_log_ok: "readable_log sample_log" "text_lines (concat sample_log) = [sample_line]"
proof -
  note simps = next_line_def unblank_def blanks_def is_nl_def sample_log_def sample_line_def
  show "readable_log sample_log"
    by (simp add: readable_log_def lines_fit.simps line_buffer_size_def simps)
  show "text_lines (concat sample_log) = [sample_line]"
    by (simp add: text_lines.simps simps)
qed

lemma sample_events: "log_events sample_parser sample_log () = [SimSendSync (log_base 1 ''nic'' 5)]"
  by (simp add: log_events_def sample_log_ok sample_parser_def sample_line_event)

lemma sample_log_parser: "log_parser sample_parser (\<lambda>_. True)"
  unfolding sample_parser_def by (rule nicbm_parser.log_parser_axioms)

lemma sample_finishes:
  "\<exists>ts st. run_tasks (provider_ops sample_parser filter_event collect_event) ts
      (log_pipeline sample_log 1 () [EventTypeFilter {kHostCallT} True] []) = Inr st \<and>
    pl_main st = PipelineDone"
proof -
  note start = log_pipeline_start[OF sample_log_parser TrueI sample_log_ok(1), of 1]
  have "\<forall>v c. \<exists>c'. collect_event v c = Inr c'" by (simp add: collect_event_def)
  then show ?thesis
    using event_source.can_finish[OF start(2) start(1)] by (simp add: provider_ops_def)
qed

theorem pipeline_delivers_witness:
  "\<exists>ts st. run_tasks (provider_ops sample_parser filter_event collect_event) ts
      (log_pipeline sample_log 1 () [EventTypeFilter {kHostCallT} True] []) = Inr st \<and>
    pl_main st = PipelineDone \<and> pl_cons st = [SimSendSync (log_base 1 ''nic'' 5)]"
proof -
  obtain ts st where run: "run_tasks (provider_ops sample_parser filter_event collect_event) ts
      (log_pipeline sample_log 1 () [EventTypeFilter {kHostCallT} True] []) = Inr st"
      "pl_main st = PipelineDone"
    using sample_finishes by blast
  have "pass_all filter_event [EventTypeFilter {kHostCallT} True] (log_events sample_parser sample_log ()) =
      [SimSendSync (log_base 1 ''nic'' 5)]"
    by (simp add: sample_events pass_all_def EventTypeFilter_handel_def)
  then have "consume_all collect_event [SimSendSync (log_base 1 ''nic'' 5)] [] = Inr (pl_cons st)"
    using pipeline_delivers[OF sample_log_parser TrueI sample_log_ok(1) _ run(1)] run(2) by auto
  then show ?thesis using run by (auto simp: collect_event_def)
qed

theorem pipeline_terminates_witness:
  "\<exists>bound. \<forall>ts st. run_tasks (provider_ops sample_parser filter_event collect_event) ts
      (log_pipeline sample_log 1 () [EventTypeFilter {kHostCallT} True] []) = Inr st \<longrightarrow>
    length ts \<le> bound \<and> (pl_main st = PipelineDone \<or>
      (\<exists>t st'. task_step (provider_ops sample_parser filter_event collect_event) t st = Inr st'))"
  by (rule pipeline_terminates[OF sample_log_parser TrueI sample_log_ok(1)])
     (simp_all add: collect_event_def)

theorem pipeline_raises_nothing_witness:
  "run_tasks (provider_ops sample_parser filter_event collect_event) [HandelTask 0]
     (log_pipeline sample_log 1 () [EventTypeFilter {kHostCallT} True] []) = Inl Blocked \<and>
   (Blocked = Blocked \<or> (\<exists>v c. collect_event v c = Inl Blocked))"
proof -
  have run: "run_tasks (provider_ops sample_parser filter_event collect_event) [HandelTask 0]
     (log_pipeline sample_log 1 () [EventTypeFilter {kHostCallT} True] []) = Inl Blocked"
    by (simp add: log_pipeline_def RunPipelineImpl_def channel_def bounded_Pop_def CoroBoundedChannel_new_def)
  then show ?thesis
    using pipeline_raises_nothing[OF sample_log_parser TrueI sample_log_ok(1) _ run] by simp
qed

end
