(* ===== verification/Spanner.thy ===== *)
theory Spanner
  imports Tracer Channel EventFilter
begin

text \<open>
  What the spanners share (include/analytics/spanner.h, source/analytics/spanner.cpp): the
  state they run on (the tracer with its heap, and the context channels between them), the
  span getters they use, the offer of an event to the pending spans, the exchange of
  contexts, the registration of handlers and \<open>consume\<close>; and the map from network devices to
  channels (include/analytics/helper.h).

  A handler is a function on the spanner's own state and the shared state. It is \<open>Blocked\<close>
  in the states in which one of its \<open>Pop\<close>s waits; what it did before waiting concerns only
  its own spans, so the handler is one step, taken when its contexts are there. A shared
  pointer that the tracer returns is never null, so the checks of it are left out.
\<close>

section \<open>Getters of the span classes\<close>

fun DoesKernelReceive :: "span_data \<Rightarrow> bool res" where
  "DoesKernelReceive (HostCallD d) = Inr (hcs_kernel_receive d)"
| "DoesKernelReceive _ = Inl (Undefined ''HostCallSpan'')"

fun GetBarNumber :: "span_data \<Rightarrow> i32 res" where
  "GetBarNumber (HostMmioD d) = Inr (hms_bar_number d)"
| "GetBarNumber _ = Inl (Undefined ''HostMmioSpan'')"

fun NicMmio_IsWrite :: "span_data \<Rightarrow> bool res" where
  "NicMmio_IsWrite (NicMmioD d) = Inr (\<not> nms_is_read d)"
| "NicMmio_IsWrite _ = Inl (Undefined ''NicMmioSpan'')"

fun as_NetDeviceSpan :: "span_data \<Rightarrow> NetDeviceSpan res" where
  "as_NetDeviceSpan (NetDeviceD d) = Inr d"
| "as_NetDeviceSpan _ = Inl (Undefined ''NetDeviceSpan'')"

definition HasIpsSet :: "NetDeviceSpan \<Rightarrow> bool" where
  "HasIpsSet d = nvs_ips_set d"

definition ContainsBoundaryType :: "NetDeviceSpan \<Rightarrow> EventBoundaryType \<Rightarrow> bool" where
  "ContainsBoundaryType d boundary_type = (boundary_type \<in> set (nvs_boundary_types d))"

definition IsDrop :: "NetDeviceSpan \<Rightarrow> bool" where
  "IsDrop d = (nvs_drop d \<noteq> None)"

text \<open>Calls through a span pointer.\<close>

definition ptr_AddToSpan ::
  "TraceEnvironment \<Rightarrow> u64 \<Rightarrow> event \<Rightarrow> 'x world \<Rightarrow> (bool \<times> 'x world) res"
where
  "ptr_AddToSpan env i e w =
     rbind (get_span i (w_heap w)) (\<lambda>sp.
     rbind (AddToSpan env (Some e) sp) (\<lambda>(added, sp').
       Inr (added, put_span i sp' w)))"

definition ptr_MarkAsDone :: "u64 \<Rightarrow> 'x world \<Rightarrow> 'x world res" where
  "ptr_MarkAsDone i w = rbind (get_span i (w_heap w)) (\<lambda>sp. Inr (put_span i (MarkAsDone sp) w))"

definition ptr_base :: "u64 \<Rightarrow> 'x world \<Rightarrow> EventSpan res" where
  "ptr_base i w = rbind (get_span i (w_heap w)) (\<lambda>(s, _). Inr s)"

definition ptr_data :: "u64 \<Rightarrow> 'x world \<Rightarrow> span_data res" where
  "ptr_data i w = rbind (get_span i (w_heap w)) (\<lambda>(_, d). Inr d)"

definition ptr_IsComplete :: "u64 \<Rightarrow> 'x world \<Rightarrow> bool res" where
  "ptr_IsComplete i w = rbind (ptr_base i w) (\<lambda>s. Inr (IsComplete s))"

definition ptr_SetOriginal :: "u64 \<Rightarrow> u64 \<Rightarrow> 'x world \<Rightarrow> 'x world res" where
  "ptr_SetOriginal i original w =
     rbind (ptr_base original w) (\<lambda>orig.
     rbind (get_span i (w_heap w)) (\<lambda>(s, d).
     rbind (SetOriginal (Some orig) s) (\<lambda>s'. Inr (put_span i (s', d) w))))"

section \<open>The shared state\<close>

text \<open>
  The context channels are unbounded, except for the sink that stands for the devices no
  simulator is attached to (source trace.cc). A channel pointer is an address.
\<close>

datatype ctx_channel = QueueC "Context CoroUnBoundedChannel" | SinkC

type_synonym chan_addr = nat

record 'x sys =
  sy_world :: "'x world"
  sy_channels :: "chan_addr \<Rightarrow> ctx_channel"

fun ctx_Push :: "Context \<Rightarrow> ctx_channel \<Rightarrow> (bool \<times> ctx_channel) res" where
  "ctx_Push con (QueueC c) = rbind (unbounded_Push con c) (\<lambda>(ok, c'). Inr (ok, QueueC c'))"
| "ctx_Push con SinkC = rbind (sink_Push con ()) (\<lambda>(ok, _). Inr (ok, SinkC))"

fun ctx_Pop :: "ctx_channel \<Rightarrow> (Context option \<times> ctx_channel) res" where
  "ctx_Pop (QueueC c) = rbind (unbounded_Pop c) (\<lambda>(con, c'). Inr (con, QueueC c'))"
| "ctx_Pop SinkC = rbind (sink_Pop ()) (\<lambda>(con, _). Inr (con, SinkC))"

fun ctx_TryPopOnTrue ::
  "(Context \<Rightarrow> bool) \<Rightarrow> ctx_channel \<Rightarrow> (Context option \<times> ctx_channel) res"
where
  "ctx_TryPopOnTrue predicate (QueueC c) =
     rbind (unbounded_TryPopOnTrue predicate c) (\<lambda>(con, c'). Inr (con, QueueC c'))"
| "ctx_TryPopOnTrue predicate SinkC = Inr (None, SinkC)"

text \<open>Running an operation of the tracer, or of a channel, on the shared state.\<close>

definition on_world :: "('x world \<Rightarrow> ('a \<times> 'x world) res) \<Rightarrow> 'x sys \<Rightarrow> ('a \<times> 'x sys) res" where
  "on_world f y = rbind (f (sy_world y)) (\<lambda>(r, w). Inr (r, y\<lparr>sy_world := w\<rparr>))"

definition upd_world :: "('x world \<Rightarrow> 'x world res) \<Rightarrow> 'x sys \<Rightarrow> 'x sys res" where
  "upd_world f y = rbind (f (sy_world y)) (\<lambda>w. Inr (y\<lparr>sy_world := w\<rparr>))"

definition on_channel ::
  "chan_addr \<Rightarrow> (ctx_channel \<Rightarrow> ('a \<times> ctx_channel) res) \<Rightarrow> 'x sys \<Rightarrow> ('a \<times> 'x sys) res"
where
  "on_channel a f y =
     rbind (f (sy_channels y a)) (\<lambda>(r, c). Inr (r, y\<lparr>sy_channels := (sy_channels y)(a := c)\<rparr>))"

section \<open>The base class\<close>

record Spanner =
  sn_id :: u64
  sn_name :: string

definition Spanner_new :: "string \<Rightarrow> 'x sys \<Rightarrow> Spanner \<times> 'x sys" where
  "Spanner_new nm y =
     (case GetNextSpannerId (h_counters (w_heap (sy_world y))) of
        (ident, c) \<Rightarrow>
          (\<lparr>sn_id = ident, sn_name = nm\<rparr>,
           y\<lparr>sy_world := (sy_world y)\<lparr>w_heap := (w_heap (sy_world y))\<lparr>h_counters := c\<rparr>\<rparr>\<rparr>))"

text \<open>The template arguments of the tracer calls: source id and service name are always these.\<close>

definition spanner_args :: "Spanner \<Rightarrow> event \<Rightarrow> span_data \<Rightarrow> span_args" where
  "spanner_args sn e d =
     \<lparr>sa_data = d, sa_source_id = GetParserIdent e, sa_service_name = sn_name sn\<rparr>"

text \<open>
  The first pending span that accepts the event; a span the event completes leaves the list.
  The spans that rejected the event before it keep what the rejection wrote into them.
\<close>

primrec iterate_add_erase ::
  "TraceEnvironment \<Rightarrow> event \<Rightarrow> u64 list \<Rightarrow> 'x world \<Rightarrow> (u64 option \<times> u64 list \<times> 'x world) res"
where
  "iterate_add_erase env e [] w = Inr (None, [], w)"
| "iterate_add_erase env e (i # pending) w =
     rbind (ptr_AddToSpan env i e w) (\<lambda>(added, w1).
       if added then
         rbind (ptr_IsComplete i w1) (\<lambda>complete.
           Inr (Some i, if complete then pending else i # pending, w1))
       else
         rbind (iterate_add_erase env e pending w1) (\<lambda>(r, pending', w2).
           Inr (r, i # pending', w2)))"

definition PopPropagateContext :: "chan_addr \<Rightarrow> 'x sys \<Rightarrow> (Context \<times> 'x sys) res" where
  "PopPropagateContext a y =
     rbind (on_channel a ctx_Pop y) (\<lambda>(con_opt, y').
     rbind (throw_if_empty con_opt ''context is null'') (\<lambda>con. Inr (con, y')))"

definition PushPropagateContext ::
  "expectation \<Rightarrow> chan_addr \<Rightarrow> u64 \<Rightarrow> 'x sys \<Rightarrow> 'x sys res"
where
  "PushPropagateContext ex a parent y =
     rbind (ptr_base parent (sy_world y)) (\<lambda>s.
     rbind (CreatePassOnContext ex (w_heap (sy_world y)) s) (\<lambda>con.
     rbind (on_channel a (ctx_Push con) y) (\<lambda>(could_push, y').
     rbind (throw_on_false could_push ''could not push value into context queue'') (\<lambda>_. Inr y'))))"

text \<open>
  The map of handlers, from event types to methods; \<open>'s\<close> is the state a method works on.
  \<open>insert\<close> refuses a second handler for a type.
\<close>

type_synonym 's handler = "event \<Rightarrow> 's \<Rightarrow> (bool \<times> 's) res"
type_synonym 's handlers = "(EventType \<times> 's handler) list"

definition RegisterHandler :: "EventType \<Rightarrow> 's handler \<Rightarrow> 's handlers \<Rightarrow> 's handlers res" where
  "RegisterHandler t h hs =
     rbind (throw_on (map_of hs t \<noteq> None) ''Spanner::RegisterHandler Could not insert new handler'')
       (\<lambda>_. Inr ((t, h) # hs))"

fun RegisterHandlers :: "(EventType \<times> 's handler) list \<Rightarrow> 's handlers \<Rightarrow> 's handlers res" where
  "RegisterHandlers [] hs = Inr hs"
| "RegisterHandlers ((t, h) # rest) hs = rbind (RegisterHandler t h hs) (RegisterHandlers rest)"

definition Spanner_consume :: "'s handlers \<Rightarrow> event option \<Rightarrow> 's \<Rightarrow> 's res" where
  "Spanner_consume handlers value_ptr s =
     rbind (throw_if_empty value_ptr ''Event is null'') (\<lambda>e.
       case map_of handlers (GetType e) of
         None \<Rightarrow> Inr s
       | Some h \<Rightarrow> rbind (h e s) (\<lambda>(added, s'). Inr s'))"

section \<open>The channels of the network devices\<close>

type_synonym NodeDeviceToChannelMap = "(i32 \<times> i32) \<rightharpoonup> chan_addr"

definition AddMapping ::
  "i32 \<Rightarrow> i32 \<Rightarrow> chan_addr \<Rightarrow> NodeDeviceToChannelMap \<Rightarrow> NodeDeviceToChannelMap res"
where
  "AddMapping node device chan m =
     rbind (throw_on_false (m (node, device) = None) ''NetworkSpanner ip address already mapped'')
       (\<lambda>_. Inr (m((node, device) \<mapsto> chan)))"

definition GetValidChannel :: "i32 \<Rightarrow> i32 \<Rightarrow> NodeDeviceToChannelMap \<Rightarrow> chan_addr res" where
  "GetValidChannel node device m = throw_if_empty (m (node, device)) ''channel<ValueType> is null''"

end
