(* ===== verification/SpannerHost.thy ===== *)
theory SpannerHost
  imports Spanner
begin

text \<open>
  The host spanner (source/analytics/hostSpanner.cc): it cuts the call events of a host into
  one trace per system call, hangs the MMIO, PCI and interrupt spans below the call, hands a
  context to the NIC for every MMIO access, and takes from the NIC the contexts of its DMA
  accesses, of its interrupts and of the packets a receiving call waits for.
\<close>

section \<open>State\<close>

record HostSpanner =
  hs_base :: Spanner
  hs_from_nic_queue :: chan_addr
  hs_from_nic_receives_queue :: chan_addr
  hs_to_nic_queue :: chan_addr
  hs_pci_write_before :: bool
  hs_last_trace_starting_span :: "u64 option"
  hs_pending_call :: "u64 option"
  hs_pending_int :: "u64 option"
  hs_pending_msix :: "u64 option"
  hs_pending_dma :: "u64 list"
  hs_pending_mmio :: "u64 list"
  hs_pending_pci :: "u64 option"

definition host_args :: "HostSpanner \<Rightarrow> event \<Rightarrow> span_data \<Rightarrow> span_args" where
  "host_args hs e d = spanner_args (hs_base hs) e d"

section \<open>Finishing the pending call span\<close>

text \<open>
  One copy of the receiving call span: \<open>CloneShared\<close>, \<open>SetOriginal\<close>, a context of its own,
  and the mark as done.
\<close>

definition finish_copy ::
  "'x exporter \<Rightarrow> u64 \<Rightarrow> Context \<Rightarrow> 'x world \<Rightarrow> 'x world res"
where
  "finish_copy xp pending con w =
     rbind (CloneShared pending w) (\<lambda>(copy_span, w1).
     rbind (ptr_SetOriginal copy_span pending w1) (\<lambda>w2.
     rbind (StartSpanSetParentContext copy_span (Some con) w2) (\<lambda>w3.
       MarkSpanAsDone xp (Some copy_span) w3)))"

definition did_arrive_before_receive_syscall :: "u64 \<Rightarrow> Context \<Rightarrow> bool" where
  "did_arrive_before_receive_syscall syscall_start con =
     (Context_HasParent con \<and> syscall_start > cx_parent_start_ts con)"

text \<open>
  The loop over the contexts of the packets that arrived before the call, bounded by a
  number of iterations.
\<close>

fun copy_contexts ::
  "nat \<Rightarrow> 'x exporter \<Rightarrow> u64 \<Rightarrow> u64 \<Rightarrow> chan_addr \<Rightarrow> 'x sys \<Rightarrow> 'x sys res"
where
  "copy_contexts 0 xp pending syscall_start receives y = Inl OutOfFuel"
| "copy_contexts (Suc n) xp pending syscall_start receives y =
     rbind (on_channel receives
              (ctx_TryPopOnTrue (did_arrive_before_receive_syscall syscall_start)) y)
       (\<lambda>(context_opt, y1).
          case context_opt of
            None \<Rightarrow> Inr y1
          | Some con \<Rightarrow>
              rbind (upd_world (finish_copy xp pending con) y1) (\<lambda>y2.
                copy_contexts n xp pending syscall_start receives y2))"

text \<open>Each iteration takes a context off the queue, so its length bounds them.\<close>

fun queued :: "ctx_channel \<Rightarrow> nat" where
  "queued (QueueC c) = length (uc_buffer c)"
| "queued SinkC = 0"

definition copy_fuel :: "chan_addr \<Rightarrow> 'x sys \<Rightarrow> nat" where
  "copy_fuel a y = Suc (queued (sy_channels y a))"

definition FinishPendingSpan ::
  "'x exporter \<Rightarrow> HostSpanner \<Rightarrow> 'x sys \<Rightarrow> 'x sys res"
where
  "FinishPendingSpan xp hs y =
     (case hs_pending_call hs of
        None \<Rightarrow> Inr y
      | Some pending \<Rightarrow>
          rbind (ptr_data pending (sy_world y)) (\<lambda>d.
          rbind (DoesKernelReceive d) (\<lambda>receives.
            if \<not> receives then upd_world (MarkSpanAsDone xp (Some pending)) y
            else
              rbind (PopPropagateContext (hs_from_nic_receives_queue hs) y) (\<lambda>(con, y1).
              rbind (upd_world (AddParentLazily (Some pending) (Some con)) y1) (\<lambda>y2.
              rbind (ptr_base pending (sy_world y2)) (\<lambda>s.
              rbind (copy_contexts (copy_fuel (hs_from_nic_receives_queue hs) y2) xp pending
                       (GetStartingTs s) (hs_from_nic_receives_queue hs) y2) (\<lambda>y3.
                upd_world (MarkSpanAsDone xp (Some pending)) y3)))))))"

section \<open>The handlers\<close>

definition CreateTraceStartingSpan ::
  "TraceEnvironment \<Rightarrow> 'x exporter \<Rightarrow> event \<Rightarrow> bool \<Rightarrow> HostSpanner \<times> 'x sys \<Rightarrow>
    (bool \<times> HostSpanner \<times> 'x sys) res"
where
  "CreateTraceStartingSpan env xp starting_event fragmented = (\<lambda>(hs, y).
     rbind (FinishPendingSpan xp hs y) (\<lambda>y1.
     rbind (on_world (StartSpan env (Some starting_event)
              (host_args hs starting_event (HostCallD (HostCallSpan_init fragmented)))) y1)
       (\<lambda>(sp, y2).
          Inr (True, hs\<lparr>hs_pending_call := Some sp, hs_last_trace_starting_span := Some sp,
                        hs_pci_write_before := False\<rparr>, y2))))"

definition Host_HandelCall ::
  "TraceEnvironment \<Rightarrow> 'x exporter \<Rightarrow> (HostSpanner \<times> 'x sys) handler"
where
  "Host_HandelCall env xp e = (\<lambda>(hs, y).
     rbind (if hs_pending_call hs = None then CreateTraceStartingSpan env xp e False (hs, y)
            else Inr (True, hs, y)) (\<lambda>(created, hs1, y1).
       if \<not> created then Inr (False, hs1, y1)
       else
         rbind (throw_if_empty (hs_pending_call hs1) ''Span is null'') (\<lambda>pending.
         rbind (on_world (ptr_AddToSpan env pending e) y1) (\<lambda>(added, y2).
           if added then Inr (True, hs1\<lparr>hs_pci_write_before := is_pci_write env (Some e)\<rparr>, y2)
           else
             rbind (ptr_IsComplete pending (sy_world y2)) (\<lambda>complete.
               if \<not> complete then Inr (False, hs1, y2)
               else
                 rbind (CreateTraceStartingSpan env xp e False (hs1, y2))
                   (\<lambda>(created_new, hs2, y3).
                 rbind (assert_that created_new ''created_new'') (\<lambda>_.
                   if hs_pending_call hs2 = None then Inr (False, hs2, y3)
                   else Inr (True, hs2, y3))))))))"

text \<open>
  The cast to \<open>HostMmioOp\<close> is unchecked: the bar number of an event that is no read or
  write (a completion no pending span accepts) is read from an object that has none.
\<close>

definition Host_HandelMmio ::
  "TraceEnvironment \<Rightarrow> 'x exporter \<Rightarrow> (HostSpanner \<times> 'x sys) handler"
where
  "Host_HandelMmio env xp e = (\<lambda>(hs, y).
     rbind (iterate_add_erase env e (hs_pending_mmio hs) (sy_world y)) (\<lambda>(found, pending, w).
       let hs1 = hs\<lparr>hs_pending_mmio := pending\<rparr>; y1 = y\<lparr>sy_world := w\<rparr> in
       case found of
         Some mmio \<Rightarrow>
           rbind (ptr_IsComplete mmio (sy_world y1)) (\<lambda>complete.
           rbind (if complete then upd_world (MarkSpanAsDone xp (Some mmio)) y1 else Inr y1)
             (\<lambda>y2. Inr (True, hs1, y2)))
       | None \<Rightarrow>
           rbind (throw_if_empty (hs_pending_call hs1) ''Span is null'') (\<lambda>call.
           rbind (or_undefined (as_HostMmioOp e) ''mmio->GetBar()'') (\<lambda>(bar, _).
           rbind (on_world (StartSpanByParent env (Some call) (Some e)
                    (host_args hs1 e (HostMmioD (HostMmioSpan_init bar)))) y1) (\<lambda>(mmio, y2).
           rbind (assert_that (IsType (Some e) kHostMmioWT \<or> IsType (Some e) kHostMmioRT)
                    ''event is neither read nor write'') (\<lambda>_.
           rbind (ptr_data mmio (sy_world y2)) (\<lambda>d.
           rbind (GetBarNumber d) (\<lambda>span_bar.
           rbind (if \<not> hs_pci_write_before hs1 \<and> IsToDeviceBarNumber span_bar
                  then PushPropagateContext kMmio (hs_to_nic_queue hs1) mmio y2
                  else Inr y2) (\<lambda>y3.
           rbind (ptr_IsComplete mmio (sy_world y3)) (\<lambda>complete.
           rbind (if IsMsixNotToDeviceBarNumber span_bar \<and> complete
                  then upd_world (MarkSpanAsDone xp (Some mmio)) y3
                  else Inr y3) (\<lambda>y4.
             Inr (True, hs1\<lparr>hs_pending_mmio := hs_pending_mmio hs1 @ [mmio]\<rparr>, y4))))))))))))"

text \<open>A pending PCI span whose configuration access never came, at the next one.\<close>

definition finish_unconfirmed_pci ::
  "'x exporter \<Rightarrow> u64 option \<Rightarrow> 'x sys \<Rightarrow> 'x sys res"
where
  "finish_unconfirmed_pci xp pending y =
     (case pending of
        None \<Rightarrow> Inr y
      | Some pci \<Rightarrow>
          rbind (ptr_base pci (sy_world y)) (\<lambda>s.
          rbind (throw_on (\<not> HasEvents s)
                   ''HostSpanner::HandelPci: finsih pci without conf has no events!'') (\<lambda>_.
          rbind (upd_world (ptr_MarkAsDone pci) y) (\<lambda>y1.
            upd_world (MarkSpanAsDone xp (Some pci)) y1))))"

definition Host_HandelPci ::
  "TraceEnvironment \<Rightarrow> 'x exporter \<Rightarrow> (HostSpanner \<times> 'x sys) handler"
where
  "Host_HandelPci env xp e = (\<lambda>(hs, y).
     if hs_pending_pci hs \<noteq> None \<and> IsType (Some e) kHostConfT then
       rbind (on_world (ptr_AddToSpan env (the (hs_pending_pci hs)) e) y) (\<lambda>(could_be_added, y1).
       rbind (throw_on (\<not> could_be_added)
                ''HostSpanner::HandelPci: could not add event to pending pci span'') (\<lambda>_.
       rbind (ptr_IsComplete (the (hs_pending_pci hs)) (sy_world y1)) (\<lambda>complete.
       rbind (assert_that complete ''HostSpanner::HandelPci: span is not complete'') (\<lambda>_.
       rbind (upd_world (MarkSpanAsDone xp (hs_pending_pci hs)) y1) (\<lambda>y2.
         Inr (True, hs\<lparr>hs_pending_pci := None\<rparr>, y2))))))
     else
       rbind (assert_that (IsType (Some e) kHostPciRWT) ''event is no pci starting event'') (\<lambda>_.
       rbind (finish_unconfirmed_pci xp (hs_pending_pci hs) y) (\<lambda>y1.
       rbind (throw_if_empty (hs_pending_call hs) ''Span is null'') (\<lambda>call.
       rbind (on_world (StartSpanByParent env (Some call) (Some e)
                (host_args hs e (HostPciD HostPciSpan_init))) y1) (\<lambda>(sp, y2).
         Inr (True, hs\<lparr>hs_pending_pci := Some sp\<rparr>, y2))))))"

text \<open>The second half of \<open>HandelDma\<close>, for an event the MSI-X span does not accept.\<close>

definition Host_HandelDma_rest ::
  "TraceEnvironment \<Rightarrow> 'x exporter \<Rightarrow> (HostSpanner \<times> 'x sys) handler"
where
  "Host_HandelDma_rest env xp e = (\<lambda>(hs, y).
     rbind (iterate_add_erase env e (hs_pending_dma hs) (sy_world y)) (\<lambda>(found, pending, w).
       let hs1 = hs\<lparr>hs_pending_dma := pending\<rparr>; y1 = y\<lparr>sy_world := w\<rparr> in
       case found of
         Some dma \<Rightarrow>
           rbind (ptr_IsComplete dma (sy_world y1)) (\<lambda>complete.
           rbind (if complete then upd_world (MarkSpanAsDone xp (Some dma)) y1 else Inr y1)
             (\<lambda>y2. Inr (True, hs1, y2)))
       | None \<Rightarrow>
           rbind (PopPropagateContext (hs_from_nic_queue hs1) y1) (\<lambda>(con, y2).
             if \<not> is_expectation (Some con) kDma then Inr (False, hs1, y2)
             else if IsType (Some e) kHostDmaCT then Inr (False, hs1, y2)
             else
               rbind (on_world (StartSpanByParentPassOnContext env (Some con) (Some e)
                        (host_args hs1 e (HostDmaD HostDmaSpan_init))) y2) (\<lambda>(dma, y3).
                 Inr (True, hs1\<lparr>hs_pending_dma := hs_pending_dma hs1 @ [dma]\<rparr>, y3)))))"

definition Host_HandelDma ::
  "TraceEnvironment \<Rightarrow> 'x exporter \<Rightarrow> (HostSpanner \<times> 'x sys) handler"
where
  "Host_HandelDma env xp e = (\<lambda>(hs, y).
     case hs_pending_msix hs of
       None \<Rightarrow> Host_HandelDma_rest env xp e (hs, y)
     | Some msix \<Rightarrow>
         rbind (on_world (ptr_AddToSpan env msix e) y) (\<lambda>(added, y1).
           if added then
             rbind (ptr_IsComplete msix (sy_world y1)) (\<lambda>complete.
             rbind (assert_that complete ''pending_host_msix_span_ is not complete'') (\<lambda>_.
             rbind (upd_world (MarkSpanAsDone xp (Some msix)) y1) (\<lambda>y2.
               Inr (True, hs\<lparr>hs_pending_msix := None\<rparr>, y2))))
           else Host_HandelDma_rest env xp e (hs, y1)))"

definition Host_HandelMsix ::
  "TraceEnvironment \<Rightarrow> (HostSpanner \<times> 'x sys) handler"
where
  "Host_HandelMsix env e = (\<lambda>(hs, y).
     rbind (PopPropagateContext (hs_from_nic_queue hs) y) (\<lambda>(con, y1).
       if \<not> is_expectation (Some con) kMsix then Inr (False, hs, y1)
       else
         rbind (on_world (StartSpanByParentPassOnContext env (Some con) (Some e)
                  (host_args hs e (HostMsixD HostMsixSpan_init))) y1) (\<lambda>(sp, y2).
         rbind (ptr_IsComplete sp (sy_world y2)) (\<lambda>complete.
         rbind (assert_that (\<not> complete) ''host msix span is complete'') (\<lambda>_.
           Inr (True, hs\<lparr>hs_pending_msix := Some sp\<rparr>, y2))))))"

definition Host_HandelInt ::
  "TraceEnvironment \<Rightarrow> 'x exporter \<Rightarrow> (HostSpanner \<times> 'x sys) handler"
where
  "Host_HandelInt env xp e = (\<lambda>(hs, y).
     case hs_pending_int hs of
       None \<Rightarrow>
         rbind (throw_if_empty (hs_pending_call hs) ''Span is null'') (\<lambda>call.
         rbind (on_world (StartSpanByParent env (Some call) (Some e)
                  (host_args hs e (HostIntD HostIntSpan_init))) y) (\<lambda>(sp, y1).
           Inr (True, hs\<lparr>hs_pending_int := Some sp\<rparr>, y1)))
     | Some pending \<Rightarrow>
         rbind (on_world (ptr_AddToSpan env pending e) y) (\<lambda>(added, y1).
           if \<not> added then Inr (False, hs, y1)
           else
             rbind (ptr_IsComplete pending (sy_world y1)) (\<lambda>complete.
               if \<not> complete then Inr (False, hs, y1)
               else
                 rbind (upd_world (MarkSpanAsDone xp (Some pending)) y1) (\<lambda>y2.
                   Inr (True, hs\<lparr>hs_pending_int := None\<rparr>, y2)))))"

section \<open>Construction\<close>

definition host_handlers ::
  "TraceEnvironment \<Rightarrow> 'x exporter \<Rightarrow> (HostSpanner \<times> 'x sys) handlers res"
where
  "host_handlers env xp =
     RegisterHandlers
       [(kHostCallT, Host_HandelCall env xp),
        (kHostMmioWT, Host_HandelMmio env xp),
        (kHostMmioRT, Host_HandelMmio env xp),
        (kHostMmioImRespPoWT, Host_HandelMmio env xp),
        (kHostMmioCWT, Host_HandelMmio env xp),
        (kHostMmioCRT, Host_HandelMmio env xp),
        (kHostPciRWT, Host_HandelPci env xp),
        (kHostConfT, Host_HandelPci env xp),
        (kHostDmaWT, Host_HandelDma env xp),
        (kHostDmaRT, Host_HandelDma env xp),
        (kHostDmaCT, Host_HandelDma env xp),
        (kHostMsiXT, Host_HandelMsix env),
        (kHostPostIntT, Host_HandelInt env xp),
        (kHostClearIntT, Host_HandelInt env xp)] []"

definition HostSpanner_new ::
  "string \<Rightarrow> chan_addr option \<Rightarrow> chan_addr option \<Rightarrow> chan_addr option \<Rightarrow> 'x sys \<Rightarrow>
    (HostSpanner \<times> 'x sys) res"
where
  "HostSpanner_new nm to_nic from_nic from_nic_receives y =
     (case Spanner_new nm y of
        (base, y1) \<Rightarrow>
          rbind (throw_if_empty to_nic ''ContextQueue<...> is null'') (\<lambda>tn.
          rbind (throw_if_empty from_nic ''ContextQueue<...> is null'') (\<lambda>fn.
          rbind (throw_if_empty from_nic_receives ''ContextQueue<...> is null'') (\<lambda>fr.
            Inr (\<lparr>hs_base = base, hs_from_nic_queue = fn, hs_from_nic_receives_queue = fr,
                  hs_to_nic_queue = tn, hs_pci_write_before = False,
                  hs_last_trace_starting_span = None, hs_pending_call = None,
                  hs_pending_int = None, hs_pending_msix = None, hs_pending_dma = [],
                  hs_pending_mmio = [], hs_pending_pci = None\<rparr>, y1)))))"

text \<open>\<open>Spanner::consume\<close> of a host spanner.\<close>

definition Host_consume ::
  "TraceEnvironment \<Rightarrow> 'x exporter \<Rightarrow> event option \<Rightarrow> HostSpanner \<times> 'x sys \<Rightarrow>
    (HostSpanner \<times> 'x sys) res"
where
  "Host_consume env xp value_ptr s =
     rbind (host_handlers env xp) (\<lambda>handlers. Spanner_consume handlers value_ptr s)"

end
