(* ===== verification/SpannerClient.thy ===== *)
theory SpannerClient
  imports Spanner TracerSteps
begin

text \<open>
  The spanners as clients of one tracer. Each spanner owns the spans it still extends; an
  action may touch only the owner's spans and new ones (the guarantee), and an owner's claims
  survive whatever the others do within their guarantee (the rely). \<open>act\<close> is the judgement
  that an action keeps both, and that the tracer got where it is by its own step relation.
\<close>

section \<open>Well-formed worlds\<close>

definition ctx_inj :: "heap \<Rightarrow> bool" where
  "ctx_inj h = (\<forall>i j. i \<noteq> j \<longrightarrow> \<not> shares_ctx h i j)"

abbreviation known_ids :: "'x world \<Rightarrow> u64 set" where
  "known_ids w \<equiv> dom (h_spans (w_heap w))"

definition ids_left :: "nat \<Rightarrow> 'x world \<Rightarrow> bool" where
  "ids_left n w =
     (fresh_id w \<noteq> 0 \<and> (\<forall>i \<in> known_ids w. i < fresh_id w) \<and>
      unat (fresh_id w) + n < 2 ^ 64)"

definition events_ok :: "(event \<Rightarrow> bool) \<Rightarrow> heap \<Rightarrow> bool" where
  "events_ok ok h =
     (\<forall>i s d. h_spans h i = Some (s, d) \<longrightarrow> sp_events s \<noteq> [] \<and> list_all ok (sp_events s))"

text \<open>What the guarantee of the owner of the spans \<open>own\<close> allows.\<close>

definition moves :: "u64 set \<Rightarrow> 'x world \<Rightarrow> 'x world \<Rightarrow> bool" where
  "moves own w w' =
     ((\<forall>i. i \<in> known_ids w \<longrightarrow> i \<notin> own \<longrightarrow>
         h_spans (w_heap w') i = h_spans (w_heap w) i) \<and>
      known_ids w \<subseteq> known_ids w' \<and>
      done_spans w \<subseteq> done_spans w' \<and>
      done_spans w' \<subseteq> done_spans w \<union> own \<union> - known_ids w)"

lemma moves_refl: "moves own w w"
  by (auto simp: moves_def)

lemma moves_spans:
  "moves own w w' \<Longrightarrow> i \<in> known_ids w \<Longrightarrow> i \<notin> own \<Longrightarrow> h_spans (w_heap w') i = h_spans (w_heap w) i"
  unfolding moves_def by blast

lemma moves_trans:
  assumes "moves own w w1" and "moves own1 w1 w2" and "own1 \<subseteq> own \<union> - known_ids w"
  shows "moves own w w2"
proof -
  have dom: "known_ids w \<subseteq> known_ids w1" "known_ids w1 \<subseteq> known_ids w2"
    and don: "done_spans w \<subseteq> done_spans w1" "done_spans w1 \<subseteq> done_spans w2"
      "done_spans w1 \<subseteq> done_spans w \<union> own \<union> - known_ids w"
      "done_spans w2 \<subseteq> done_spans w1 \<union> own1 \<union> - known_ids w1"
    using assms(1,2) unfolding moves_def by blast+
  have "h_spans (w_heap w2) i = h_spans (w_heap w) i" if i: "i \<in> known_ids w" "i \<notin> own" for i
  proof -
    have "i \<in> known_ids w1" "i \<notin> own1" using i dom(1) assms(3) by blast+
    then show ?thesis using moves_spans[OF assms(1) i] moves_spans[OF assms(2), of i] by simp
  qed
  moreover have "done_spans w2 \<subseteq> done_spans w \<union> own \<union> - known_ids w"
    using don(3,4) dom(1) assms(3) by blast
  ultimately show ?thesis using dom don(1,2) unfolding moves_def by blast
qed

lemma moves_mono: "moves own w w' \<Longrightarrow> own \<subseteq> P \<Longrightarrow> moves P w w'"
  unfolding moves_def by blast

section \<open>What starting a span does to the heap\<close>

definition starts :: "event \<Rightarrow> 'x world \<Rightarrow> u64 \<Rightarrow> 'x world \<Rightarrow> bool" where
  "starts e w i w' =
     (i = fresh_id w \<and> fresh_id w' = fresh_id w + 1 \<and> w_exported w' = w_exported w \<and>
      w_waiting w' = w_waiting w \<and>
      (\<exists>s d a. h_spans (w_heap w') = (h_spans (w_heap w))(i \<mapsto> (s, d)) \<and> sp_events s = [e] \<and>
         sp_trace_context s = Some a \<and> length (h_contexts (w_heap w)) \<le> a))"

lemma create_span_starts:
  assumes "create_span env a e args w = Inr (i, w')"
  shows "i = fresh_id w \<and> fresh_id w' = fresh_id w + 1 \<and> w_exported w' = w_exported w \<and>
    w_waiting w' = w_waiting w \<and>
    (\<exists>s d. h_spans (w_heap w') = (h_spans (w_heap w))(i \<mapsto> (s, d)) \<and> sp_events s = [e] \<and>
       sp_trace_context s = Some a)"
proof -
  let ?s = "EventSpan_fresh (fresh_id w) (sa_source_id args) a (sa_service_name args)"
  obtain c s d where s: "AddToSpan env (Some e) (?s, sa_data args) = Inr (True, s, d)"
    and w': "i = fresh_id w" "c = (h_counters (w_heap w))\<lparr>next_span_id := fresh_id w + 1\<rparr>"
      "w' = put_span (fresh_id w) (s, d) (w\<lparr>w_heap := (w_heap w)\<lparr>h_counters := c\<rparr>\<rparr>)"
    using assms by (auto simp: create_span_def EventSpan_new_fresh fresh_id_def rbind_eq_Inr)
  have "sp_events s = [e]" "sp_trace_context s = Some a"
    using add_frame_events[OF conjunct1[OF AddToSpan_frame[OF s]]] by (auto simp: EventSpan_fresh_def)
  then show ?thesis using w' by (auto simp: put_span_def fresh_id_def)
qed

lemma alloc_ctx_keeps:
  assumes "alloc_ctx c w = (a, w')"
  shows "a = length (h_contexts (w_heap w))" "h_spans (w_heap w') = h_spans (w_heap w)"
    "fresh_id w' = fresh_id w" "w_exported w' = w_exported w" "w_waiting w' = w_waiting w"
  using assms by (auto simp: alloc_ctx_def fresh_id_def)

lemma take_context_id_keeps:
  assumes "take_context_id w = (i, w')"
  shows "h_contexts (w_heap w') = h_contexts (w_heap w)" "h_spans (w_heap w') = h_spans (w_heap w)"
    "fresh_id w' = fresh_id w" "w_exported w' = w_exported w" "w_waiting w' = w_waiting w"
  using assms by (auto simp: take_context_id_def GetNextTraceContextId_def fresh_id_def)

lemma take_trace_id_keeps:
  assumes "take_trace_id w = (i, w')"
  shows "h_contexts (w_heap w') = h_contexts (w_heap w)" "h_spans (w_heap w') = h_spans (w_heap w)"
    "fresh_id w' = fresh_id w" "w_exported w' = w_exported w" "w_waiting w' = w_waiting w"
  using assms by (auto simp: take_trace_id_def GetNextTraceId_def fresh_id_def)

lemmas world_keeps = alloc_ctx_keeps take_context_id_keeps take_trace_id_keeps

lemma RegisterCreateContextParent_keeps:
  assumes "RegisterCreateContextParent t p ts w = Inr (a, w')"
  shows "a = length (h_contexts (w_heap w))" "h_spans (w_heap w') = h_spans (w_heap w)"
    "fresh_id w' = fresh_id w" "w_exported w' = w_exported w" "w_waiting w' = w_waiting w"
proof -
  obtain x w1 where w1: "take_context_id w = (x, w1)" by (cases "take_context_id w")
  then obtain c where c: "alloc_ctx c w1 = (a, w')"
    using assms by (auto simp: RegisterCreateContextParent_def rbind_eq_Inr)
  show "a = length (h_contexts (w_heap w))" "h_spans (w_heap w') = h_spans (w_heap w)"
    "fresh_id w' = fresh_id w" "w_exported w' = w_exported w" "w_waiting w' = w_waiting w"
    using alloc_ctx_keeps[OF c] take_context_id_keeps[OF w1] by simp_all
qed

lemma AddSpanToTrace_keeps:
  assumes "AddSpanToTraceIfTraceExists t i w = Inr w'"
  shows "w_heap w' = w_heap w" "fresh_id w' = fresh_id w" "w_exported w' = w_exported w"
    "w_waiting w' = w_waiting w"
  using AddSpanToTrace_shape[OF assms] by (auto simp: fresh_id_def)

lemma StartSpanByParentInternal_starts:
  assumes "StartSpanByParentInternal env t p ts e args w = Inr (i, w')"
  shows "starts e w i w'"
proof -
  obtain a w1 w2 where steps: "RegisterCreateContextParent t p ts w = Inr (a, w1)"
      "create_span env a e args w1 = Inr (i, w2)" "AddSpanToTraceIfTraceExists t i w2 = Inr w'"
    using assms by (auto simp: StartSpanByParentInternal_def rbind_eq_Inr)
  show ?thesis
    using create_span_starts[OF steps(2)] RegisterCreateContextParent_keeps[OF steps(1)]
      AddSpanToTrace_keeps[OF steps(3)]
    by (auto simp: starts_def)
qed

lemma StartSpanByParent_starts:
  assumes "StartSpanByParent env p (Some e) args w = Inr (i, w')"
  shows "starts e w i w'"
  using assms StartSpanByParentInternal_starts by (auto simp: StartSpanByParent_def rbind_eq_Inr)

lemma StartSpanByParentPassOnContext_starts:
  assumes "StartSpanByParentPassOnContext env con (Some e) args w = Inr (i, w')"
  shows "starts e w i w'"
  using assms StartSpanByParentInternal_starts
  by (auto simp: StartSpanByParentPassOnContext_def rbind_eq_Inr)

lemma StartSpan_starts:
  assumes "StartSpan env (Some e) args w = Inr (i, w')"
  shows "starts e w i w'"
proof -
  obtain t w1 where w1: "take_trace_id w = (t, w1)" by (cases "take_trace_id w")
  obtain x w2 where w2: "take_context_id w1 = (x, w2)" by (cases "take_context_id w1")
  obtain a w3 where w3: "alloc_ctx (TraceContext_root t x) w2 = (a, w3)"
    by (cases "alloc_ctx (TraceContext_root t x) w2")
  obtain tr w4 where steps: "create_span env a e args w3 = Inr (i, w4)" "InsertTrace tr w4 = Inr w'"
    using assms w1 w2 w3
    by (auto simp: StartSpan_def StartSpanInternal_def RegisterCreateContext_def rbind_eq_Inr)
  have "w_heap w' = w_heap w4 \<and> fresh_id w' = fresh_id w4 \<and> w_exported w' = w_exported w4 \<and>
      w_waiting w' = w_waiting w4"
    using steps(2) by (auto simp: InsertTrace_def rbind_eq_Inr fresh_id_def)
  then show ?thesis
    using create_span_starts[OF steps(1)] alloc_ctx_keeps[OF w3] take_context_id_keeps[OF w2]
      take_trace_id_keeps[OF w1]
    by (auto simp: starts_def)
qed

section \<open>Operations that leave the spans alone\<close>

lemma move_to_trace_keeps:
  assumes "move_to_trace t j w = Inr w'"
  shows "h_spans (w_heap w') = h_spans (w_heap w) \<and> fresh_id w' = fresh_id w \<and>
    w_exported w' = w_exported w \<and> w_waiting w' = w_waiting w"
proof -
  obtain a c where "AddSpanToTraceIfTraceExists t j (put_ctx a c w) = Inr w'"
    using assms by (auto simp: move_to_trace_def rbind_eq_Inr)
  then show ?thesis using AddSpanToTrace_keeps by (fastforce simp: put_ctx_def fresh_id_def)
qed

lemma move_children_keeps:
  "move_children t i js w = Inr w' \<Longrightarrow>
    h_spans (w_heap w') = h_spans (w_heap w) \<and> fresh_id w' = fresh_id w \<and>
    w_exported w' = w_exported w \<and> w_waiting w' = w_waiting w"
  by (induction js arbitrary: w)
     (auto simp: rbind_eq_Inr split: if_splits dest!: move_to_trace_keeps)

lemma AddParentLazily_keeps:
  assumes "AddParentLazily (Some i) con w = Inr w'"
  shows "h_spans (w_heap w') = h_spans (w_heap w) \<and> fresh_id w' = fresh_id w \<and>
    w_exported w' = w_exported w \<and> w_waiting w' = w_waiting w"
proof -
  obtain a c t w1 ti and em :: Trace and js t' w2 where steps:
      "AddSpanToTraceIfTraceExists t i (put_ctx a c w) = Inr w1"
      "move_children t i js (put_trace ti em w1) = Inr w2" "RemoveTrace t' w2 = Inr w'"
    using assms by (clarsimp simp: AddParentLazily_def GetSpansAndRemoveSpans_def rbind_eq_Inr)
  have "w_heap w' = w_heap w2 \<and> w_exported w' = w_exported w2 \<and> w_waiting w' = w_waiting w2"
    using steps(3) by (auto simp: RemoveTrace_def rbind_eq_Inr)
  then show ?thesis
    using AddSpanToTrace_keeps[OF steps(1)] move_children_keeps[OF steps(2)]
    by (simp add: put_ctx_def put_trace_def fresh_id_def)
qed

lemma ctx_inj_cong:
  assumes "\<And>i. map_option (\<lambda>sp. sp_trace_context (fst sp)) (h_spans h' i) =
                map_option (\<lambda>sp. sp_trace_context (fst sp)) (h_spans h i)"
  shows "ctx_inj h' = ctx_inj h"
proof -
  have shares: "shares_ctx g i j =
      (\<exists>c. map_option (\<lambda>sp. sp_trace_context (fst sp)) (h_spans g i) = Some c \<and>
           map_option (\<lambda>sp. sp_trace_context (fst sp)) (h_spans g j) = Some c)" for g i j
    by (auto simp: shares_ctx_def split: option.splits)
  show ?thesis unfolding ctx_inj_def shares assms ..
qed

text \<open>A new span on a context of its own keeps contexts unshared.\<close>

lemma ctx_inj_new:
  assumes "ctx_inj h" and "heap_ok h" and "h_spans h' = (h_spans h)(i \<mapsto> (s, d))"
    and "sp_trace_context s = Some a" and "length (h_contexts h) \<le> a"
  shows "ctx_inj h'"
proof -
  have "sp_trace_context s' \<noteq> Some a" if j: "h_spans h j = Some (s', d')" for j s' d'
  proof -
    obtain b where "sp_trace_context s' = Some b" "b < length (h_contexts h)"
      using assms(2) j unfolding heap_ok_def by blast
    then show ?thesis using assms(5) by auto
  qed
  moreover have "\<not> shares_ctx h j k" if "j \<noteq> k" for j k using assms(1) that by (simp add: ctx_inj_def)
  ultimately show ?thesis
    using assms(3,4) by (force simp: ctx_inj_def shares_ctx_def split: option.splits)
qed

lemma ids_left_available:
  "ids_left n w \<Longrightarrow> id_available w"
  by (auto simp: ids_left_def id_available_def)

lemma ids_left_new:
  assumes "ids_left (Suc n) w" and "fresh_id w' = fresh_id w + 1"
    and "known_ids w' = insert (fresh_id w) (known_ids w)"
  shows "ids_left n w'"
proof -
  have lt: "unat (fresh_id w) + 1 < 2 ^ 64" using assms(1) by (simp add: ids_left_def)
  then have u: "unat (fresh_id w + 1) = unat (fresh_id w) + 1"
    by (simp add: unat_word_ariths)
  then have "fresh_id w + 1 \<noteq> 0" by (metis Suc_eq_plus1 nat.distinct(1) unat_0)
  moreover have "fresh_id w < fresh_id w + 1" by (simp add: word_less_nat_alt u)
  moreover have "i < fresh_id w + 1" if "i \<in> known_ids w" for i
    using assms(1) that calculation(2) unfolding ids_left_def by (meson order.strict_trans)
  ultimately show ?thesis using assms u by (auto simp: ids_left_def)
qed

definition span_pending :: "heap \<Rightarrow> u64 \<Rightarrow> bool" where
  "span_pending h i = (case h_spans h i of None \<Rightarrow> False | Some (s, d) \<Rightarrow> sp_is_pending s)"

lemma AddToSpan_complete:
  assumes "\<not> sp_is_pending s" and "AddToSpan env (Some e) (s, d) = Inr (added, s', d')"
  shows "\<not> added \<and> s' = s \<and> d' = d"
  using assms
  by (cases d)
     (auto simp: tag_data_def HostCallSpan_AddToSpan_def HostMsixSpan_AddToSpan_def
       HostMmioSpan_AddToSpan_def HostDmaSpan_AddToSpan_def HostIntSpan_AddToSpan_def
       HostPciSpan_AddToSpan_def NicDmaSpan_AddToSpan_def NicMmioSpan_AddToSpan_def
       NicEthSpan_AddToSpan_def NicMsixSpan_AddToSpan_def NetDeviceSpan_AddToSpan_def
       GenericSingleSpan_AddToSpan_def)

text \<open>Only pending spans accept events, and no offer makes a span pending again.\<close>

lemma ptr_AddToSpan_pending:
  assumes "ptr_AddToSpan env i e w = Inr (added, w')"
  shows "span_pending (w_heap w') j \<longrightarrow> span_pending (w_heap w) j"
    and "added \<Longrightarrow> span_pending (w_heap w) i"
    and "\<not> span_pending (w_heap w) i \<Longrightarrow> w' = w"
proof -
  obtain s d s' d' where sp: "h_spans (w_heap w) i = Some (s, d)"
      "AddToSpan env (Some e) (s, d) = Inr (added, s', d')" "w' = put_span i (s', d') w"
    using assms by (auto simp: ptr_AddToSpan_def get_span_def rbind_eq_Inr)
  have "sp_is_pending s' \<longrightarrow> sp_is_pending s" and added: "added \<Longrightarrow> sp_is_pending s"
    using AddToSpan_frame[OF sp(2)] by (auto simp: add_frame_def split: if_splits)
  then show "span_pending (w_heap w') j \<longrightarrow> span_pending (w_heap w) j"
    using sp by (auto simp: span_pending_def put_span_def)
  show "added \<Longrightarrow> span_pending (w_heap w) i" using added sp(1) by (simp add: span_pending_def)
  show "w' = w" if "\<not> span_pending (w_heap w) i"
  proof -
    have "s' = s \<and> d' = d"
      using AddToSpan_complete[OF _ sp(2)] that sp(1) by (simp add: span_pending_def)
    then show ?thesis using sp(1,3) by (simp add: put_span_def fun_upd_idem)
  qed
qed

lemma ptr_IsComplete_pending:
  "ptr_IsComplete i w = Inr complete \<Longrightarrow> complete \<longleftrightarrow> \<not> span_pending (w_heap w) i"
  by (auto simp: ptr_IsComplete_def ptr_base_def get_span_def span_pending_def IsComplete_def
      IsPending_def rbind_eq_Inr)

section \<open>The shared state\<close>

lemma on_world_Inr:
  "on_world f y = Inr (r, y') \<longleftrightarrow> (\<exists>w. f (sy_world y) = Inr (r, w) \<and> y' = y\<lparr>sy_world := w\<rparr>)"
  by (auto simp: on_world_def rbind_eq_Inr)

lemma upd_world_Inr:
  "upd_world f y = Inr y' \<longleftrightarrow> (\<exists>w. f (sy_world y) = Inr w \<and> y' = y\<lparr>sy_world := w\<rparr>)"
  by (auto simp: upd_world_def rbind_eq_Inr)

lemma on_channel_world: "on_channel a f y = Inr (r, y') \<Longrightarrow> sy_world y' = sy_world y"
  by (auto simp: on_channel_def rbind_eq_Inr)

lemma PopPropagateContext_world:
  "PopPropagateContext a y = Inr (con, y') \<Longrightarrow> sy_world y' = sy_world y"
  by (auto simp: PopPropagateContext_def rbind_eq_Inr dest: on_channel_world)

lemma PushPropagateContext_world:
  "PushPropagateContext ex a i y = Inr y' \<Longrightarrow> sy_world y' = sy_world y"
  by (auto simp: PushPropagateContext_def rbind_eq_Inr dest: on_channel_world)

lemmas sys_Inr = on_world_Inr upd_world_Inr rbind_eq_Inr

section \<open>The judgement\<close>

text \<open>
  An exporter that exports every span made of acceptable events, started in a state that
  knows no span.
\<close>

locale event_exporter = span_exporter xp known exportable
  for xp :: "'x exporter" and known :: "'x \<Rightarrow> u64 list \<Rightarrow> bool" and exportable :: "span \<Rightarrow> bool" +
  fixes event_ok :: "event \<Rightarrow> bool" and x0 :: 'x
  assumes exportable_events:
      "\<lbrakk>sp_events (fst sp) \<noteq> []; list_all event_ok (sp_events (fst sp))\<rbrakk> \<Longrightarrow> exportable sp"
    and known_init: "known x0 []"
begin

definition good :: "nat \<Rightarrow> u64 set \<Rightarrow> 'x world \<Rightarrow> bool" where
  "good n own w =
     (tracer_reachable xp exportable x0 w \<and> ctx_inj (w_heap w) \<and>
      events_ok event_ok (w_heap w) \<and> ids_left n w \<and> own \<subseteq> known_ids w \<and>
      own \<inter> done_spans w = {})"

text \<open>\<open>n\<close> and \<open>m\<close> count the span ids that are guaranteed to be left.\<close>

definition act ::
  "nat \<Rightarrow> u64 set \<Rightarrow> 'x world \<Rightarrow> nat \<Rightarrow> u64 set \<Rightarrow> 'x world \<Rightarrow> bool"
where
  "act n own w m own' w' =
     (good n own w \<longrightarrow>
        good m own' w' \<and> moves own w w' \<and> own' \<subseteq> own \<union> - known_ids w)"

lemma actI:
  assumes "good n own w \<Longrightarrow> good m own' w'" and "good n own w \<Longrightarrow> moves own w w'"
    and "own' \<subseteq> own \<union> - known_ids w"
  shows "act n own w m own' w'"
  using assms by (simp add: act_def)

lemma good_mono: "good n own w \<Longrightarrow> m \<le> n \<Longrightarrow> own' \<subseteq> own \<Longrightarrow> good m own' w"
  by (auto simp: good_def ids_left_def)

lemma act_refl: "m \<le> n \<Longrightarrow> own' \<subseteq> own \<Longrightarrow> act n own w m own' w"
  using good_mono moves_refl by (auto simp: act_def)

lemma act_trans:
  assumes "act n own w n1 own1 w1" and "act n1 own1 w1 m own' w'"
  shows "act n own w m own' w'"
proof (cases "good n own w")
  case True
  then have a: "good n1 own1 w1" "moves own w w1" "own1 \<subseteq> own \<union> - known_ids w"
    using assms(1) by (auto simp: act_def)
  then have b: "good m own' w'" "moves own1 w1 w'" "own' \<subseteq> own1 \<union> - known_ids w1"
    using assms(2) by (auto simp: act_def)
  have "known_ids w \<subseteq> known_ids w1" using a(2) by (simp add: moves_def)
  then have "own' \<subseteq> own \<union> - known_ids w" using a(3) b(3) by blast
  then show ?thesis using b(1) moves_trans[OF a(2) b(2) a(3)] by (simp add: act_def)
qed (simp add: act_def)

lemma act_weaken:
  "act n own w m own' w' \<Longrightarrow> n \<le> n' \<Longrightarrow> m' \<le> m \<Longrightarrow> own'' \<subseteq> own' \<Longrightarrow> act n' own w m' own'' w'"
  by (rule act_trans[OF act_trans[OF act_refl[of n n' own own]]]) (auto intro: act_refl)

lemma good_invs: "good n own w \<Longrightarrow> exporter_inv w \<and> heap_ok (w_heap w)"
  using tracer_reachable_inv[OF _ known_init] by (simp add: good_def)

lemma good_step:
  assumes "good n own w" and "tracer_step xp exportable w w'"
  shows "tracer_reachable xp exportable x0 w'" and "heap_ok (w_heap w')"
proof -
  show r: "tracer_reachable xp exportable x0 w'"
    using assms reach_step[of xp exportable x0 w w'] by (simp add: good_def)
  show "heap_ok (w_heap w')" using tracer_reachable_inv[OF r known_init] by simp
qed

lemma good_span:
  assumes "good n own w" and "i \<in> own"
  obtains s d where "h_spans (w_heap w) i = Some (s, d)" "i \<notin> done_spans w"
    "sp_events s \<noteq> []" "list_all event_ok (sp_events s)"
proof -
  obtain sp where sp: "h_spans (w_heap w) i = Some sp" using assms by (auto simp: good_def)
  then have "sp_events (fst sp) \<noteq> [] \<and> list_all event_ok (sp_events (fst sp))"
    using assms(1) unfolding good_def events_ok_def by (cases sp) auto
  then show ?thesis using assms sp by (intro that[of "fst sp" "snd sp"]) (auto simp: good_def)
qed

subsection \<open>The actions\<close>

lemma act_starts:
  assumes st: "starts e w i w'" and e: "event_ok e"
    and step: "id_available w \<Longrightarrow> tracer_step xp exportable w w'"
  shows "act (Suc n) own w n (insert i own) w'"
proof (cases "good (Suc n) own w")
  case True
  obtain s d a where sp: "h_spans (w_heap w') = (h_spans (w_heap w))(i \<mapsto> (s, d))"
      "sp_events s = [e]" "sp_trace_context s = Some a" "length (h_contexts (w_heap w)) \<le> a"
    using st by (auto simp: starts_def)
  have i: "i = fresh_id w" "fresh_id w' = fresh_id w + 1" using st by (auto simp: starts_def)
  have don: "done_spans w' = done_spans w" using st by (simp add: starts_def done_spans_def)
  have left: "ids_left (Suc n) w" using True by (simp add: good_def)
  have av: "id_available w" by (rule ids_left_available[OF left])
  then have fresh: "i \<notin> known_ids w" by (auto simp: id_available_def i(1))
  have reach: "tracer_reachable xp exportable x0 w'" by (rule good_step(1)[OF True step[OF av]])
  have inj: "ctx_inj (w_heap w')"
    using ctx_inj_new[OF _ _ sp(1,3,4)] True good_invs[OF True] by (simp add: good_def)
  have evs: "events_ok event_ok (w_heap w')"
    using True sp(1,2) e by (auto simp: good_def events_ok_def)
  have ids: "ids_left n w'" by (rule ids_left_new[OF left i(2)]) (simp add: sp(1) i(1))
  have "i \<notin> done_spans w"
    using good_invs[OF True] tracer_inv_fresh(2)[OF _ av] by (simp add: exporter_inv_def i(1))
  then have "good n (insert i own) w'"
    using True reach inj evs ids by (auto simp: good_def sp(1) don)
  moreover have "moves own w w'"
    using fresh by (auto simp: moves_def sp(1) don)
  ultimately show ?thesis using fresh by (auto simp: act_def)
qed (simp add: act_def)

lemma act_StartSpan:
  "StartSpan env (Some e) args w = Inr (i, w') \<Longrightarrow> event_ok e \<Longrightarrow>
    act (Suc n) own w n (insert i own) w'"
  by (rule act_starts[OF StartSpan_starts _ step_start])

lemma act_StartSpanByParent:
  "StartSpanByParent env p (Some e) args w = Inr (i, w') \<Longrightarrow> event_ok e \<Longrightarrow>
    act (Suc n) own w n (insert i own) w'"
  by (rule act_starts[OF StartSpanByParent_starts _ step_by_parent])

lemma act_StartSpanByParentPassOnContext:
  "StartSpanByParentPassOnContext env con (Some e) args w = Inr (i, w') \<Longrightarrow> event_ok e \<Longrightarrow>
    act (Suc n) own w n (insert i own) w'"
  by (rule act_starts[OF StartSpanByParentPassOnContext_starts _ step_pass_on])

lemma act_put:
  assumes i: "i \<in> own" and sp: "h_spans (w_heap w) i = Some (s, d)"
    and s': "sp_trace_context s' = sp_trace_context s" "sp_events s' \<noteq> []"
      "list_all event_ok (sp_events s) \<Longrightarrow> list_all event_ok (sp_events s')"
    and step: "i \<notin> done_spans w \<Longrightarrow> tracer_step xp exportable w (put_span i (s', d') w)"
  shows "act n own w n own (put_span i (s', d') w)"
proof (cases "good n own w")
  case True
  let ?w = "put_span i (s', d') w"
  have nd: "i \<notin> done_spans w" using True i by (auto simp: good_def)
  have hp: "h_spans (w_heap ?w) = (h_spans (w_heap w))(i \<mapsto> (s', d'))"
    and don: "done_spans ?w = done_spans w" and fr: "fresh_id ?w = fresh_id w"
    by (simp_all add: put_span_def done_spans_def fresh_id_def)
  have dm: "known_ids ?w = known_ids w" using sp by (auto simp: hp)
  have inj: "ctx_inj (w_heap ?w)"
    using True sp s'(1) by (subst ctx_inj_cong[of _ "w_heap w"]) (auto simp: hp good_def)
  have "events_ok event_ok (w_heap ?w)"
    using True sp s'(2,3) by (auto simp: good_def events_ok_def hp)
  then have "good n own ?w"
    using True good_step(1)[OF True step[OF nd]] inj by (simp add: good_def ids_left_def dm don fr)
  moreover have "moves own w ?w" using i by (auto simp: moves_def hp don dm)
  ultimately show ?thesis by (simp add: act_def)
qed (simp add: act_def)

lemma act_AddToSpan:
  assumes "ptr_AddToSpan env i e w = Inr (added, w')" and "i \<in> own" and "event_ok e"
  shows "act n own w n own w'"
proof (cases "good n own w")
  case True
  then obtain s d where sp: "h_spans (w_heap w) i = Some (s, d)" "sp_events s \<noteq> []"
    using assms(2) by (rule good_span)
  obtain s' d' where a: "AddToSpan env (Some e) (s, d) = Inr (added, s', d')"
      "w' = put_span i (s', d') w"
    using assms(1) sp by (auto simp: ptr_AddToSpan_def get_span_def rbind_eq_Inr)
  note fr = add_frame_events[OF conjunct1[OF AddToSpan_frame[OF a(1)]]]
  show ?thesis
    unfolding a(2)
    by (rule act_put[OF assms(2) sp(1)]) (use fr sp(2) assms(3) step_add[OF _ sp(1) a(1)] in auto)
qed (simp add: act_def)

lemma act_MarkAsDone:
  assumes "ptr_MarkAsDone i w = Inr w'" and "i \<in> own"
  shows "act n own w n own w'"
proof (cases "good n own w")
  case True
  then obtain s d where sp: "h_spans (w_heap w) i = Some (s, d)" "sp_events s \<noteq> []"
    using assms(2) by (rule good_span)
  obtain d' where d': "MarkAsDone (s, d) = (set_pending False s, d')" by (cases d) auto
  then have w': "w' = put_span i (set_pending False s, d') w"
    using assms(1) sp by (auto simp: ptr_MarkAsDone_def get_span_def)
  show ?thesis
    unfolding w' using step_mark[OF _ sp(1), of xp exportable] sp(2)
    by (intro act_put[OF assms(2) sp(1)]) (simp_all add: d')
qed (simp add: act_def)

lemma good_MarkSpanAsDone:
  assumes "good n own w" and "i \<in> own" and "MarkSpanAsDone xp (Some i) w = Inr w'"
  shows "w_heap w' = w_heap w" and "done_spans w' = insert i (done_spans w)"
    and "tracer_reachable xp exportable x0 w'"
proof -
  obtain s d where sp: "h_spans (w_heap w) i = Some (s, d)" "i \<notin> done_spans w"
      "sp_events s \<noteq> []" "list_all event_ok (sp_events s)"
    using assms(1,2) by (rule good_span)
  have ex: "exportable (s, d)" using exportable_events sp(3,4) by simp
  show "w_heap w' = w_heap w" "done_spans w' = insert i (done_spans w)"
    using MarkSpanAsDone_ok[OF _ _ sp(2,1) ex] good_invs[OF assms(1)] assms(3) by auto
  show "tracer_reachable xp exportable x0 w'"
    by (rule good_step(1)[OF assms(1) step_done[of i w "(s, d)" exportable, OF sp(2,1) ex assms(3)]])
qed

lemma act_MarkSpanAsDone:
  assumes "MarkSpanAsDone xp (Some i) w = Inr w'" and "i \<in> own"
  shows "act n own w n (own - {i}) w'"
proof (cases "good n own w")
  case True
  note w' = good_MarkSpanAsDone[OF True assms(2,1)]
  have "good n (own - {i}) w'"
    using True w' by (auto simp: good_def ids_left_def fresh_id_def)
  moreover have "moves own w w'" using assms(2) w'(1,2) by (auto simp: moves_def)
  ultimately show ?thesis by (auto simp: act_def)
qed (simp add: act_def)

lemma act_AddParentLazily:
  assumes "AddParentLazily (Some i) con w = Inr w'" and "i \<in> own"
  shows "act n own w n own w'"
proof (cases "good n own w")
  case True
  note keeps = AddParentLazily_keeps[OF assms(1)]
  have nd: "i \<notin> done_spans w" using True assms(2) by (auto simp: good_def)
  have "\<forall>j \<in> done_spans w. \<not> shares_ctx (w_heap w) i j"
    using True nd unfolding good_def ctx_inj_def by metis
  then have reach: "tracer_reachable xp exportable x0 w'"
    using good_step(1)[OF True step_lazily[OF nd _ assms(1)]] by blast
  have don: "done_spans w' = done_spans w" using keeps by (simp add: done_spans_def)
  have inj: "ctx_inj (w_heap w')"
    using True keeps by (subst ctx_inj_cong[of _ "w_heap w"]) (auto simp: good_def)
  have "events_ok event_ok (w_heap w')"
    using True keeps by (simp add: good_def events_ok_def)
  then have "good n own w'"
    using True reach inj keeps by (simp add: good_def ids_left_def don)
  moreover have "moves own w w'" using keeps don by (auto simp: moves_def)
  ultimately show ?thesis by (auto simp: act_def)
qed (simp add: act_def)

text \<open>An action leaves alone what the rest of its owner's spans needs.\<close>

lemma act_frame:
  assumes "act n A w m A' w'" and "A \<inter> F = {}"
  shows "act n (A \<union> F) w m (A' \<union> F) w'"
proof (cases "good n (A \<union> F) w")
  case True
  then have "good n A w" by (rule good_mono) auto
  then have a: "good m A' w'" "moves A w w'" "A' \<subseteq> A \<union> - known_ids w"
    using assms(1) by (auto simp: act_def)
  have F: "F \<subseteq> known_ids w" "F \<inter> done_spans w = {}" using True by (auto simp: good_def)
  have dm: "known_ids w \<subseteq> known_ids w'"
    and dn: "done_spans w' \<subseteq> done_spans w \<union> A \<union> - known_ids w"
    using a(2) by (auto simp: moves_def)
  have "F \<subseteq> known_ids w'" "F \<inter> done_spans w' = {}"
    using F dm dn assms(2) by blast+
  then have "good m (A' \<union> F) w'" using a(1) by (auto simp: good_def)
  moreover have "moves (A \<union> F) w w'" by (rule moves_mono[OF a(2)]) blast
  ultimately show ?thesis using a(3) by (auto simp: act_def)
qed (simp add: act_def)

subsection \<open>Offering an event to the pending spans\<close>

lemma act_iterate_add_erase:
  assumes "iterate_add_erase env e pend w = Inr (found, pend', w')" and "event_ok e"
    and "\<forall>i \<in> set pend. span_pending (w_heap w) i \<longrightarrow> i \<in> own"
  shows "act n own w n own w' \<and> (\<forall>i. span_pending (w_heap w') i \<longrightarrow> span_pending (w_heap w) i) \<and>
    (case found of None \<Rightarrow> pend' = pend
     | Some i \<Rightarrow> i \<in> set pend \<and> i \<in> own \<and>
         (distinct pend \<longrightarrow>
            pend' = (if span_pending (w_heap w') i then pend else remove1 i pend)))"
  using assms
proof (induction pend arbitrary: w pend')
  case Nil
  then show ?case by (simp add: act_refl)
next
  case (Cons i pend)
  obtain added w1 where add: "ptr_AddToSpan env i e w = Inr (added, w1)"
    using Cons.prems(1) by (auto simp: rbind_eq_Inr)
  note pm = ptr_AddToSpan_pending[OF add]
  have a1: "act n own w n own w1"
  proof (cases "span_pending (w_heap w) i")
    case True
    then have "i \<in> own" using Cons.prems(3) by simp
    then show ?thesis by (rule act_AddToSpan[OF add _ Cons.prems(2)])
  next
    case False
    then show ?thesis using pm(3) by (simp add: act_refl)
  qed
  show ?case
  proof (cases added)
    case True
    then have i: "i \<in> own" using pm(2) Cons.prems(3) by simp
    have "found = Some i" "w' = w1" "pend' = (if span_pending (w_heap w') i then i # pend else pend)"
      using Cons.prems(1) add True by (auto simp: rbind_eq_Inr dest: ptr_IsComplete_pending)
    then show ?thesis using a1 pm(1) i by auto
  next
    case False
    then obtain ps where ps: "iterate_add_erase env e pend w1 = Inr (found, ps, w')" "pend' = i # ps"
      using Cons.prems(1) add by (auto simp: rbind_eq_Inr)
    have "\<forall>j \<in> set pend. span_pending (w_heap w1) j \<longrightarrow> j \<in> own"
      using Cons.prems(3) pm(1) by auto
    note IH = Cons.IH[OF ps(1) Cons.prems(2) this]
    have "act n own w n own w'" using IH by (blast intro: act_trans[OF a1])
    then show ?thesis using IH pm(1) ps(2) by (auto split: option.splits if_splits)
  qed
qed

subsection \<open>Clients whose open spans form one list\<close>

definition list_act :: "nat \<Rightarrow> u64 list \<Rightarrow> 'x world \<Rightarrow> nat \<Rightarrow> u64 list \<Rightarrow> 'x world \<Rightarrow> bool" where
  "list_act n l w m l' w' =
     (good n (set l) w \<and> distinct l \<longrightarrow> act n (set l) w m (set l') w' \<and> distinct l')"

lemma list_act_same: "m \<le> n \<Longrightarrow> list_act n l w m l w"
  by (simp add: list_act_def act_refl)

lemma list_act_trans:
  assumes "list_act n l w n1 l1 w1" and "list_act n1 l1 w1 m l' w'"
  shows "list_act n l w m l' w'"
proof (cases "good n (set l) w \<and> distinct l")
  case True
  then have a: "act n (set l) w n1 (set l1) w1" "distinct l1" using assms(1) by (auto simp: list_act_def)
  then have "good n1 (set l1) w1" using True by (auto simp: act_def)
  then show ?thesis using assms(2) a act_trans[OF a(1)] by (auto simp: list_act_def)
qed (auto simp: list_act_def)

lemma list_act_rest:
  assumes "act n {} w m {} w'"
  shows "list_act n l w m l w'"
  using act_frame[OF assms, of "set l"] by (simp add: list_act_def)

lemma list_act_new:
  assumes "act n {} w m {sp} w'"
  shows "list_act n l w m (l @ [sp]) w'"
proof (cases "good n (set l) w \<and> distinct l")
  case True
  have "good n {} w" by (rule good_mono[OF conjunct1[OF True]]) auto
  then have "sp \<notin> known_ids w" using assms by (simp add: act_def)
  moreover have "set l \<subseteq> known_ids w" using True by (simp add: good_def)
  ultimately have "sp \<notin> set l" by blast
  then show ?thesis using act_frame[OF assms, of "set l"] True by (simp add: list_act_def Un_commute)
qed (auto simp: list_act_def)

lemma list_act_iterate:
  assumes "iterate_add_erase env e l w = Inr (found, l', w')" and "event_ok e"
  shows "found = None \<Longrightarrow> l' = l \<and> list_act n l w n l w'"
    and "found = Some i \<Longrightarrow> ptr_IsComplete i w' = Inr complete \<Longrightarrow>
      (complete \<Longrightarrow> MarkSpanAsDone xp (Some i) w' = Inr w'') \<Longrightarrow>
      (\<not> complete \<Longrightarrow> w'' = w') \<Longrightarrow> list_act n l w n l' w''"
proof -
  have all: "\<forall>i \<in> set l. span_pending (w_heap w) i \<longrightarrow> i \<in> set l" by simp
  note it = act_iterate_add_erase[OF assms all, of n]
  show "found = None \<Longrightarrow> l' = l \<and> list_act n l w n l w'" using it by (simp add: list_act_def)
  assume f: "found = Some i" and c: "ptr_IsComplete i w' = Inr complete"
    and d: "complete \<Longrightarrow> MarkSpanAsDone xp (Some i) w' = Inr w''" "\<not> complete \<Longrightarrow> w'' = w'"
  have i: "i \<in> set l" "distinct l \<longrightarrow> l' = (if complete then remove1 i l else l)"
    using it f ptr_IsComplete_pending[OF c] by auto
  have a: "act n (set l) w n (if complete then set l - {i} else set l) w''"
  proof (cases complete)
    case True
    show ?thesis using act_trans[OF conjunct1[OF it] act_MarkSpanAsDone[OF d(1)[OF True] i(1)]] True by simp
  qed (use it d(2) in simp)
  show "list_act n l w n l' w''"
    using a i(2) by (auto simp: list_act_def split: if_splits)
qed

end

text \<open>The registration of handlers: what \<open>consume\<close> calls is one of the registered methods.\<close>

lemma RegisterHandlers_map_of:
  "RegisterHandlers hs acc = Inr acc' \<Longrightarrow> map_of acc' t = Some h \<Longrightarrow>
    map_of acc t = Some h \<or> (t, h) \<in> set hs"
proof (induction hs arbitrary: acc)
  case (Cons p hs)
  obtain u g where p: "p = (u, g)" by (cases p)
  then have "RegisterHandlers hs ((u, g) # acc) = Inr acc'"
    using Cons.prems(1) by (auto simp: RegisterHandler_def rbind_eq_Inr)
  then show ?case using Cons.IH[of "(u, g) # acc"] Cons.prems(2) p by (auto split: if_splits)
qed simp

lemma Spanner_consume_cases:
  assumes "Spanner_consume handlers (Some e) s = Inr s'"
    and "RegisterHandlers hs [] = Inr handlers"
  obtains (ignored) "s' = s" | (handled) h b where "(GetType e, h) \<in> set hs" "h e s = Inr (b, s')"
  using assms RegisterHandlers_map_of[OF assms(2), of "GetType e"]
  by (cases "map_of handlers (GetType e)") (auto simp: Spanner_consume_def rbind_eq_Inr)

end
