(* ===== verification/HostClient.thy ===== *)
theory HostClient
  imports SpannerHost SpannerClient
begin

text \<open>
  The host spanner keeps the tracer's rules: whatever event it handles, it extends and
  finishes only spans it owns and has not finished yet, and never loses track of one.
\<close>

section \<open>The spans a host spanner owns\<close>

fun opt_list :: "'a option \<Rightarrow> 'a list" where
  "opt_list None = []"
| "opt_list (Some x) = [x]"

definition host_fixed :: "HostSpanner \<Rightarrow> u64 list" where
  "host_fixed hs =
     opt_list (hs_pending_call hs) @ opt_list (hs_pending_int hs) @ opt_list (hs_pending_msix hs) @
     opt_list (hs_pending_pci hs) @ hs_pending_dma hs"

definition host_roles :: "HostSpanner \<Rightarrow> u64 list" where
  "host_roles hs = host_fixed hs @ hs_pending_mmio hs"

text \<open>
  The MMIO list also holds finished spans (see \<open>Host_HandelMmio\<close>): only its pending ones are
  open.
\<close>

definition host_open :: "HostSpanner \<Rightarrow> heap \<Rightarrow> u64 set" where
  "host_open hs h = set (host_fixed hs) \<union> {i \<in> set (hs_pending_mmio hs). span_pending h i}"

definition host_ok :: "HostSpanner \<Rightarrow> heap \<Rightarrow> bool" where
  "host_ok hs h = (distinct (host_roles hs) \<and> set (host_roles hs) \<subseteq> dom (h_spans h))"

definition host_cost :: "HostSpanner \<Rightarrow> 'x sys \<Rightarrow> nat" where
  "host_cost hs y = copy_fuel (hs_from_nic_receives_queue hs) y + 2"

lemma host_open_roles: "host_open hs h \<subseteq> set (host_roles hs)"
  by (auto simp: host_open_def host_roles_def)

text \<open>A pop shortens the queue.\<close>

lemma queued_Pop:
  assumes "PopPropagateContext a y = Inr (con, y')"
  shows "queued (sy_channels y' b) \<le> queued (sy_channels y b)"
  using assms
  by (cases "sy_channels y a")
     (auto simp: PopPropagateContext_def on_channel_def rbind_eq_Inr unbounded_Pop_def pop_front_def
       sink_Pop_def split: if_splits list.splits)

section \<open>Client actions\<close>

context event_exporter
begin

lemma act_finish_copy:
  assumes "finish_copy xp p con w = Inr w'" and p: "p \<in> own"
  shows "act (Suc n) own w n own w'"
proof (cases "good (Suc n) own w")
  case True
  obtain s d where sp: "h_spans (w_heap w) p = Some (s, d)" "p \<notin> done_spans w"
      "sp_events s \<noteq> []" "list_all event_ok (sp_events s)"
    by (rule good_span[OF True p])
  obtain c w1 w2 w3 where steps: "CloneShared p w = Inr (c, w1)" "ptr_SetOriginal c p w1 = Inr w2"
      "StartSpanSetParentContext c (Some con) w2 = Inr w3" "MarkSpanAsDone xp (Some c) w3 = Inr w'"
    using assms(1) by (auto simp: finish_copy_def rbind_eq_Inr)
  have left: "ids_left (Suc n) w" using True by (simp add: good_def)
  note av = ids_left_available[OF left]
  have c: "c = fresh_id w" "fresh_id w1 = fresh_id w + 1"
      "h_spans (w_heap w1) = (h_spans (w_heap w))(c \<mapsto> (s\<lparr>sp_id := c\<rparr>, d))"
      "h_contexts (w_heap w1) = h_contexts (w_heap w)" "done_spans w1 = done_spans w"
    using steps(1) sp(1)
    by (auto simp: CloneShared_def get_span_def EventSpan_copy_def GetNextSpanId_def fresh_id_def
        put_span_def done_spans_def)
  have new: "c \<notin> known_ids w" "c \<notin> done_spans w"
    using av good_invs[OF True] tracer_inv_fresh(2)[OF _ av] c(1)
    by (auto simp: id_available_def exporter_inv_def)
  then have pc: "p \<noteq> c" using sp(1) by auto
  let ?s2 = "s\<lparr>sp_id := c, sp_original := Some (sp_id s)\<rparr>"
  have w2: "w2 = put_span c (?s2, d) w1"
    using steps(2) sp(1) pc c(3)
    by (auto simp: ptr_SetOriginal_def ptr_base_def get_span_def SetOriginal_def rbind_eq_Inr)
  obtain t pr ts a v s0 d0 s3 where set: "RegisterCreateContextParent t pr ts w2 = Inr (a, v)"
      "h_spans (w_heap v) c = Some (s0, d0)" "SetContext (w_heap v) (Some a) True s0 = Inr (True, s3)"
      "AddSpanToTraceIfTraceExists t c (put_span c (s3, d0) v) = Inr w3"
    using steps(3) by (auto simp: StartSpanSetParentContext_def get_span_def rbind_eq_Inr)
  note v = RegisterCreateContextParent_keeps[OF set(1)]
  have at: "s0 = ?s2" "d0 = d" using set(2) v(2) by (auto simp: w2 put_span_def)
  have s3: "s3 = ?s2\<lparr>sp_trace_context := Some a\<rparr>"
    using set(3) by (auto simp: at SetContext_def rbind_eq_Inr split: if_splits)
  have w3: "h_spans (w_heap w3) = (h_spans (w_heap w))(c \<mapsto> (s3, d))" "fresh_id w3 = fresh_id w + 1"
      "done_spans w3 = done_spans w" "a = length (h_contexts (w_heap w))" "done_spans w2 = done_spans w"
    using AddSpanToTrace_keeps[OF set(4)] v c
    by (auto simp: at w2 put_span_def fresh_id_def done_spans_def)
  have r1: "tracer_reachable xp exportable x0 w1"
    by (rule good_step(1)[OF True step_clone[OF av steps(1)]])
  have "tracer_step xp exportable w1 w2"
    unfolding w2 using new(2) c(3,5)
    by (intro step_original[of c w1 _ _ "Some s"]) (auto simp: SetOriginal_def)
  then have r3: "tracer_reachable xp exportable x0 w3"
    using reach_step[OF reach_step[OF r1] step_set_parent[OF _ steps(3)]] new(2) w3(5) by simp
  have ex: "exportable (s3, d)" using exportable_events[of "(s3, d)"] sp(3,4) by (simp add: s3)
  have nd3: "c \<notin> done_spans w3" and at3: "h_spans (w_heap w3) c = Some (s3, d)"
    using new(2) w3(1,3) by auto
  have inv3: "exporter_inv w3" "heap_ok (w_heap w3)" using tracer_reachable_inv[OF r3 known_init] by auto
  have w': "w_heap w' = w_heap w3" "done_spans w' = insert c (done_spans w)"
    using MarkSpanAsDone_ok[OF inv3 nd3 at3 ex] steps(4) w3(3) by auto
  have r': "tracer_reachable xp exportable x0 w'"
    by (rule reach_step[OF r3 step_done[of c w3 "(s3, d)" exportable, OF nd3 at3 ex steps(4)]])
  have "ctx_inj (w_heap w')"
    using ctx_inj_new[of "w_heap w" "w_heap w'" c s3 d a] True good_invs[OF True] w3(1,4)
    by (simp add: good_def w'(1) s3)
  moreover have "events_ok event_ok (w_heap w')"
    using True sp(3,4) by (auto simp: good_def events_ok_def w'(1) w3(1) s3)
  moreover have "ids_left n w'"
    by (rule ids_left_new[OF left]) (use w3(1,2) w'(1) c(1) in \<open>auto simp: fresh_id_def\<close>)
  ultimately have "good n own w'"
    using True r' new(1) by (auto simp: good_def w' w3(1))
  moreover have "moves own w w'" using new(1) by (auto simp: moves_def w' w3(1))
  ultimately show ?thesis by (auto simp: act_def)
qed (simp add: act_def)

lemma act_copy_contexts:
  "copy_contexts k xp p ts a y = Inr y' \<Longrightarrow> p \<in> own \<Longrightarrow>
    act (k + n) own (sy_world y) n own (sy_world y')"
proof (induction k arbitrary: y)
  case (Suc k)
  obtain con_opt y1 where y1: "on_channel a (ctx_TryPopOnTrue (did_arrive_before_receive_syscall ts)) y
      = Inr (con_opt, y1)"
    using Suc.prems(1) by (auto simp: rbind_eq_Inr)
  show ?case
  proof (cases con_opt)
    case None
    then show ?thesis using Suc.prems(1) y1 on_channel_world[OF y1] by (auto intro: act_refl)
  next
    case (Some con)
    then obtain y2 where y2: "upd_world (finish_copy xp p con) y1 = Inr y2"
        "copy_contexts k xp p ts a y2 = Inr y'"
      using Suc.prems(1) y1 by (auto simp: rbind_eq_Inr)
    have "act (Suc (k + n)) own (sy_world y) (k + n) own (sy_world y2)"
      using y2(1) act_finish_copy[OF _ Suc.prems(2)] on_channel_world[OF y1]
      by (auto simp: upd_world_Inr)
    then show ?thesis using act_trans[OF _ Suc.IH[OF y2(2) Suc.prems(2)]] by simp
  qed
qed simp

lemma act_FinishPendingSpan:
  assumes "FinishPendingSpan xp hs y = Inr y'" and "hs_pending_call hs = Some p"
  shows "act (copy_fuel (hs_from_nic_receives_queue hs) y + n) {p} (sy_world y) n {} (sy_world y')"
proof (cases "MarkSpanAsDone xp (Some p) (sy_world y) = Inr (sy_world y')")
  case True
  then show ?thesis using act_weaken[OF act_MarkSpanAsDone[OF True, of "{p}" n]] by simp
next
  case False
  let ?a = "hs_from_nic_receives_queue hs"
  obtain con y1 w2 s y3 w' where steps: "PopPropagateContext ?a y = Inr (con, y1)"
      "AddParentLazily (Some p) (Some con) (sy_world y1) = Inr w2"
      "copy_contexts (copy_fuel ?a (y1\<lparr>sy_world := w2\<rparr>)) xp p (GetStartingTs s) ?a
         (y1\<lparr>sy_world := w2\<rparr>) = Inr y3"
      "MarkSpanAsDone xp (Some p) (sy_world y3) = Inr w'" "y' = y3\<lparr>sy_world := w'\<rparr>"
    using assms False by (auto simp: FinishPendingSpan_def sys_Inr split: if_splits)
  let ?k = "copy_fuel ?a (y1\<lparr>sy_world := w2\<rparr>)"
  have k: "?k \<le> copy_fuel ?a y" using queued_Pop[OF steps(1), of ?a] by (simp add: copy_fuel_def)
  have a1: "act (?k + n) {p} (sy_world y) (?k + n) {p} w2"
    using act_AddParentLazily[OF steps(2), of "{p}"] PopPropagateContext_world[OF steps(1)] by simp
  have a2: "act (?k + n) {p} w2 n {p} (sy_world y3)"
    using act_copy_contexts[OF steps(3), of "{p}" n] by simp
  have a3: "act n {p} (sy_world y3) n {} w'"
    using act_MarkSpanAsDone[OF steps(4), of "{p}" n] by simp
  show ?thesis
    using act_weaken[OF act_trans[OF act_trans[OF a1 a2] a3], of "copy_fuel ?a y + n" n "{}"] k steps(5)
    by simp
qed

text \<open>The judgement for a whole handler.\<close>

definition host_act :: "nat \<Rightarrow> HostSpanner \<Rightarrow> 'x world \<Rightarrow> nat \<Rightarrow> HostSpanner \<Rightarrow> 'x world \<Rightarrow> bool" where
  "host_act n hs w m hs' w' =
     (good n (host_open hs (w_heap w)) w \<and> host_ok hs (w_heap w) \<longrightarrow>
        act n (host_open hs (w_heap w)) w m (host_open hs' (w_heap w')) w' \<and>
        host_ok hs' (w_heap w') \<and> set (host_roles hs') \<subseteq> set (host_roles hs) \<union> - known_ids w)"

lemma host_act_trans:
  assumes "host_act n hs w n1 hs1 w1" and "host_act n1 hs1 w1 m hs' w'"
  shows "host_act n hs w m hs' w'"
proof (cases "good n (host_open hs (w_heap w)) w \<and> host_ok hs (w_heap w)")
  case True
  then have a: "act n (host_open hs (w_heap w)) w n1 (host_open hs1 (w_heap w1)) w1"
      "host_ok hs1 (w_heap w1)" "set (host_roles hs1) \<subseteq> set (host_roles hs) \<union> - known_ids w"
    using assms(1) by (auto simp: host_act_def)
  then have g: "good n1 (host_open hs1 (w_heap w1)) w1" "known_ids w \<subseteq> known_ids w1"
    using True by (auto simp: act_def moves_def)
  then have b: "act n1 (host_open hs1 (w_heap w1)) w1 m (host_open hs' (w_heap w')) w'"
      "host_ok hs' (w_heap w')" "set (host_roles hs') \<subseteq> set (host_roles hs1) \<union> - known_ids w1"
    using assms(2) a(2) by (auto simp: host_act_def)
  have "set (host_roles hs') \<subseteq> set (host_roles hs) \<union> - known_ids w" using a(3) b(3) g(2) by blast
  then show ?thesis using act_trans[OF a(1) b(1)] b(2) by (simp add: host_act_def)
qed (auto simp: host_act_def)

text \<open>An action on the spans \<open>A\<close> outside the MMIO list.\<close>

lemma host_act_fixed:
  assumes a: "act n A w m A' w'" and A: "A \<subseteq> set (host_fixed hs)"
    and mm: "hs_pending_mmio hs' = hs_pending_mmio hs"
    and fx: "distinct (host_fixed hs) \<Longrightarrow> set (host_fixed hs') \<subseteq> A' \<union> (set (host_fixed hs) - A)"
    and ds: "\<lbrakk>distinct (host_fixed hs); A' \<inter> set (host_fixed hs) \<subseteq> A\<rbrakk> \<Longrightarrow> distinct (host_fixed hs')"
  shows "host_act n hs w m hs' w'"
proof (cases "good n (host_open hs (w_heap w)) w \<and> host_ok hs (w_heap w)")
  case True
  let ?own = "host_open hs (w_heap w)" and ?F = "host_open hs (w_heap w) - A"
  have Ao: "A \<union> ?F = ?own" using A by (auto simp: host_open_def)
  have fr: "act n ?own w m (A' \<union> ?F) w'" using act_frame[OF a, of ?F] Ao by auto
  have ga: "good n A w" by (rule good_mono[OF conjunct1[OF True]]) (use Ao in auto)
  then have A': "A' \<subseteq> A \<union> - known_ids w" and mv: "moves A w w'" and g': "A' \<subseteq> known_ids w'"
    using a by (auto simp: act_def good_def)
  have kn: "set (host_roles hs) \<subseteq> known_ids w" and dr: "distinct (host_roles hs)"
    using True by (auto simp: host_ok_def)
  have fx: "set (host_fixed hs') \<subseteq> A' \<union> (set (host_fixed hs) - A)"
    using fx dr by (simp add: host_roles_def)
  have dm: "known_ids w \<subseteq> known_ids w'" using mv by (simp add: moves_def)
  have mA: "i \<notin> A" if "i \<in> set (hs_pending_mmio hs)" for i
    using that dr A by (auto simp: host_roles_def)
  have sp: "h_spans (w_heap w') i = h_spans (w_heap w) i" if "i \<in> set (hs_pending_mmio hs)" for i
    using moves_spans[OF mv, of i] mA[OF that] kn that by (auto simp: host_roles_def)
  have "host_open hs' (w_heap w') \<subseteq> A' \<union> ?F"
    using fx mm sp mA by (auto simp: host_open_def span_pending_def)
  then have "act n ?own w m (host_open hs' (w_heap w')) w'" by (rule act_weaken[OF fr order_refl order_refl])
  moreover have "distinct (host_roles hs')"
  proof -
    have "A' \<inter> set (host_fixed hs) \<subseteq> A" using A' kn by (auto simp: host_roles_def)
    then have "distinct (host_fixed hs')" using ds dr by (simp add: host_roles_def)
    moreover have "set (host_fixed hs') \<inter> set (hs_pending_mmio hs) = {}"
    proof -
      have "set (hs_pending_mmio hs) \<subseteq> known_ids w" "set (hs_pending_mmio hs) \<inter> set (host_fixed hs) = {}"
        using kn dr by (auto simp: host_roles_def)
      then show ?thesis using fx A A' by blast
    qed
    ultimately show ?thesis using dr mm by (simp add: host_roles_def)
  qed
  moreover have "set (host_roles hs') \<subseteq> known_ids w'"
    using fx g' kn dm unfolding host_roles_def set_append mm by blast
  moreover have "set (host_roles hs') \<subseteq> set (host_roles hs) \<union> - known_ids w"
    using fx A' A unfolding host_roles_def set_append mm by blast
  ultimately show ?thesis by (simp add: host_act_def host_ok_def)
qed (auto simp: host_act_def)

lemma host_act_same: "m \<le> n \<Longrightarrow> host_act n hs w m hs w"
  by (simp add: host_act_def act_refl)

lemma host_act_less: "host_act n hs w m hs' w' \<Longrightarrow> n \<le> n' \<Longrightarrow> host_act n' hs w m hs' w'"
  using host_act_trans[OF host_act_same] .

lemma host_act_CreateTraceStartingSpan:
  assumes "CreateTraceStartingSpan env xp e fr (hs, y) = Inr (b, hs', y')" and "event_ok e"
  shows "host_act (copy_fuel (hs_from_nic_receives_queue hs) y + Suc n) hs (sy_world y) n hs' (sy_world y')"
    and "hs_pending_call hs = None \<Longrightarrow>
      host_act (Suc n) hs (sy_world y) n hs' (sy_world y') \<and> sy_channels y' = sy_channels y \<and>
      hs_from_nic_receives_queue hs' = hs_from_nic_receives_queue hs"
proof -
  obtain y1 sp w2 where steps: "FinishPendingSpan xp hs y = Inr y1"
      "StartSpan env (Some e) (host_args hs e (HostCallD (HostCallSpan_init fr))) (sy_world y1) = Inr (sp, w2)"
    and y': "y' = y1\<lparr>sy_world := w2\<rparr>"
    and hs': "hs' = hs\<lparr>hs_pending_call := Some sp, hs_last_trace_starting_span := Some sp,
                      hs_pci_write_before := False\<rparr>"
    using assms(1) by (auto simp: CreateTraceStartingSpan_def sys_Inr)
  have a2: "act (Suc n) {} (sy_world y1) n {sp} (sy_world y')"
    using act_StartSpan[OF steps(2) assms(2), of n "{}"] y' by simp
  have none: "host_act (Suc n) hs (sy_world y) n hs' (sy_world y')" if "hs_pending_call hs = None"
    by (rule host_act_fixed[of _ "{}"])
       (use a2 steps(1) that hs' in \<open>auto simp: FinishPendingSpan_def host_fixed_def\<close>)
  then show "hs_pending_call hs = None \<Longrightarrow>
      host_act (Suc n) hs (sy_world y) n hs' (sy_world y') \<and> sy_channels y' = sy_channels y \<and>
      hs_from_nic_receives_queue hs' = hs_from_nic_receives_queue hs"
    using steps(1) hs' y' by (auto simp: FinishPendingSpan_def)
  show "host_act (copy_fuel (hs_from_nic_receives_queue hs) y + Suc n) hs (sy_world y) n hs' (sy_world y')"
  proof (cases "hs_pending_call hs")
    case None
    then show ?thesis using none host_act_less[of "Suc n"] by simp
  next
    case (Some p)
    have a1: "act (copy_fuel (hs_from_nic_receives_queue hs) y + Suc n) {p} (sy_world y)
        (Suc n) {} (sy_world y1)"
      by (rule act_FinishPendingSpan[OF steps(1) Some])
    show ?thesis
      by (rule host_act_fixed[OF act_trans[OF a1 a2]])
         (use Some hs' in \<open>auto simp: host_fixed_def\<close>)
  qed
qed

lemma host_act_HandelCall:
  assumes "Host_HandelCall env xp e (hs, y) = Inr (b, hs', y')" and "event_ok e"
  shows "host_act (host_cost hs y + n) hs (sy_world y) n hs' (sy_world y')"
proof -
  let ?k = "copy_fuel (hs_from_nic_receives_queue hs) y"
  obtain c hs1 y1 where first: "(if hs_pending_call hs = None
        then CreateTraceStartingSpan env xp e False (hs, y) else Inr (True, hs, y)) = Inr (c, hs1, y1)"
    using assms(1) by (auto simp: Host_HandelCall_def rbind_eq_Inr)
  have h1: "host_act (Suc (?k + Suc n)) hs (sy_world y) (?k + Suc n) hs1 (sy_world y1)"
      and same: "sy_channels y1 = sy_channels y" "hs_from_nic_receives_queue hs1 = hs_from_nic_receives_queue hs"
    using first host_act_CreateTraceStartingSpan(2)[OF _ assms(2), of env False hs y c hs1 y1 "?k + Suc n"]
    by (auto split: if_splits intro: host_act_same)
  have rest: "host_act (?k + Suc n) hs1 (sy_world y1) n hs' (sy_world y')"
  proof (cases c)
    case False
    then show ?thesis using assms(1) first by (auto simp: Host_HandelCall_def intro: host_act_same)
  next
    case True
    obtain p added w2 where add: "hs_pending_call hs1 = Some p"
        "ptr_AddToSpan env p e (sy_world y1) = Inr (added, w2)"
      using assms(1) first True by (auto simp: Host_HandelCall_def sys_Inr)
    have h2: "host_act m hs1 (sy_world y1) m hs2 w2"
      if "host_fixed hs2 = host_fixed hs1" "hs_pending_mmio hs2 = hs_pending_mmio hs1" for m hs2
      by (rule host_act_fixed[OF act_AddToSpan[OF add(2) _ assms(2), of "{p}"]])
         (use add(1) that in \<open>auto simp: host_fixed_def\<close>)
    consider (stay) hs2 where "hs' = hs2" "host_fixed hs2 = host_fixed hs1"
        "hs_pending_mmio hs2 = hs_pending_mmio hs1" "sy_world y' = w2"
      | (again) b' where
        "CreateTraceStartingSpan env xp e False (hs1, y1\<lparr>sy_world := w2\<rparr>) = Inr (b', hs', y')"
      using assms(1) first True add
      by (auto simp: Host_HandelCall_def sys_Inr host_fixed_def split: if_splits)
    then show ?thesis
    proof cases
      case stay
      then show ?thesis using host_act_less[OF h2[OF stay(2,3), of n]] by simp
    next
      case again
      have "host_act (?k + Suc n) hs1 w2 n hs' (sy_world y')"
        using host_act_CreateTraceStartingSpan(1)[OF again assms(2), of n] same
        by (simp add: copy_fuel_def)
      then show ?thesis by (rule host_act_trans[OF h2[OF refl refl]])
    qed
  qed
  show ?thesis using host_act_less[OF host_act_trans[OF h1 rest], of "host_cost hs y + n"]
    by (simp add: host_cost_def)
qed

lemmas act_new_rules = act_StartSpanByParent[where own = "{}"]
  act_StartSpanByParentPassOnContext[where own = "{}"]

lemma host_act_HandelPci:
  assumes "Host_HandelPci env xp e (hs, y) = Inr (b, hs', y')" and "event_ok e"
  shows "host_act (Suc n) hs (sy_world y) n hs' (sy_world y')"
proof (cases "hs_pending_pci hs \<noteq> None \<and> IsType (Some e) kHostConfT")
  case True
  then obtain pci where pci: "hs_pending_pci hs = Some pci" by auto
  obtain w1 w2 where steps: "ptr_AddToSpan env pci e (sy_world y) = Inr (True, w1)"
      "MarkSpanAsDone xp (Some pci) w1 = Inr w2" "hs' = hs\<lparr>hs_pending_pci := None\<rparr>" "sy_world y' = w2"
    using assms(1) True pci by (auto simp: Host_HandelPci_def sys_Inr)
  have "act n {pci} (sy_world y) n {} w2"
    using act_trans[OF act_AddToSpan[OF steps(1) _ assms(2), of "{pci}" n] act_MarkSpanAsDone[OF steps(2)]]
    by simp
  then have "host_act n hs (sy_world y) n hs' w2"
    by (rule host_act_fixed) (use pci steps(3) in \<open>auto simp: host_fixed_def\<close>)
  then show ?thesis using host_act_less[of n _ _ n _ _ "Suc n"] steps(4) by simp
next
  case False
  obtain y1 call sp w2 where steps: "finish_unconfirmed_pci xp (hs_pending_pci hs) y = Inr y1"
      "StartSpanByParent env (Some call) (Some e) (host_args hs e (HostPciD HostPciSpan_init))
         (sy_world y1) = Inr (sp, w2)"
      "hs' = hs\<lparr>hs_pending_pci := Some sp\<rparr>" "sy_world y' = w2"
    using assms(1) False by (auto simp: Host_HandelPci_def sys_Inr)
  have "act m (set (opt_list (hs_pending_pci hs))) (sy_world y) m {} (sy_world y1)" for m
  proof (cases "hs_pending_pci hs")
    case None
    then show ?thesis using steps(1) by (auto simp: finish_unconfirmed_pci_def act_refl)
  next
    case (Some pci)
    obtain w0 w1 where "ptr_MarkAsDone pci (sy_world y) = Inr w0"
        "MarkSpanAsDone xp (Some pci) w0 = Inr w1" "sy_world y1 = w1"
      using steps(1) Some by (auto simp: finish_unconfirmed_pci_def sys_Inr)
    then show ?thesis
      using act_trans[OF act_MarkAsDone[of pci "sy_world y" w0 "{pci}" m] act_MarkSpanAsDone] Some
      by simp
  qed
  note a = act_trans[OF this act_new_rules(1)[OF steps(2) assms(2), of n]]
  show ?thesis
    unfolding steps(4)
    by (rule host_act_fixed[OF a]) (use steps(3) in \<open>auto simp: host_fixed_def\<close>)
qed

lemma host_act_HandelDma_rest:
  assumes "Host_HandelDma_rest env xp e (hs, y) = Inr (b, hs', y')" and "event_ok e"
  shows "host_act (Suc n) hs (sy_world y) n hs' (sy_world y')"
proof -
  obtain found pending w where it: "iterate_add_erase env e (hs_pending_dma hs) (sy_world y)
      = Inr (found, pending, w)"
    using assms(1) by (auto simp: Host_HandelDma_rest_def rbind_eq_Inr)
  let ?dma = "set (hs_pending_dma hs)"
  have a1: "act m ?dma (sy_world y) m ?dma w" for m
    using act_iterate_add_erase[OF it assms(2), of ?dma] by simp
  show ?thesis
  proof (cases found)
    case (Some i)
    have i: "i \<in> ?dma" "distinct (hs_pending_dma hs) \<longrightarrow>
        pending = (if span_pending (w_heap w) i then hs_pending_dma hs else remove1 i (hs_pending_dma hs))"
      using act_iterate_add_erase[OF it assms(2), of ?dma] Some by auto
    obtain complete where c: "ptr_IsComplete i w = Inr complete"
        "hs' = hs\<lparr>hs_pending_dma := pending\<rparr>"
        "complete \<Longrightarrow> MarkSpanAsDone xp (Some i) w = Inr (sy_world y')" "\<not> complete \<Longrightarrow> sy_world y' = w"
      using assms(1) it Some by (auto simp: Host_HandelDma_rest_def Let_def sys_Inr split: if_splits)
    have "act (Suc n) ?dma (sy_world y) n (if complete then ?dma - {i} else ?dma) (sy_world y')"
      using act_weaken[OF act_trans[OF a1[of n] act_MarkSpanAsDone[OF c(3) i(1)]], of "Suc n" n]
        act_weaken[OF a1[of n], of "Suc n" n] c(4) by auto
    then show ?thesis
      by (rule host_act_fixed)
         (use i(2) c(2) ptr_IsComplete_pending[OF c(1)] in \<open>auto simp: host_fixed_def\<close>)
  next
    case None
    have p: "pending = hs_pending_dma hs" using act_iterate_add_erase[OF it assms(2), of ?dma] None by simp
    obtain con y2 where pop: "PopPropagateContext (hs_from_nic_queue hs) (y\<lparr>sy_world := w\<rparr>) = Inr (con, y2)"
      using assms(1) it None by (auto simp: Host_HandelDma_rest_def Let_def rbind_eq_Inr)
    have w2: "sy_world y2 = w" using PopPropagateContext_world[OF pop] by simp
    have "hs' = hs \<and> sy_world y' = w \<or> (\<exists>dma. hs' = hs\<lparr>hs_pending_dma := hs_pending_dma hs @ [dma]\<rparr> \<and>
        StartSpanByParentPassOnContext env (Some con) (Some e)
          (host_args hs e (HostDmaD HostDmaSpan_init)) w = Inr (dma, sy_world y'))"
      using assms(1) it None pop w2
      by (auto simp: Host_HandelDma_rest_def Let_def sys_Inr p host_args_def split: if_splits)
    then show ?thesis
    proof (elim disjE exE conjE)
      assume "hs' = hs" "sy_world y' = w"
      then have "act (Suc n) ?dma (sy_world y) n ?dma (sy_world y')"
        using act_weaken[OF a1[of n], of "Suc n" n ?dma] by simp
      then show ?thesis
        by (rule host_act_fixed) (use \<open>hs' = hs\<close> in \<open>auto simp: host_fixed_def\<close>)
    next
      fix dma
      assume hs': "hs' = hs\<lparr>hs_pending_dma := hs_pending_dma hs @ [dma]\<rparr>"
        and st: "StartSpanByParentPassOnContext env (Some con) (Some e)
          (host_args hs e (HostDmaD HostDmaSpan_init)) w = Inr (dma, sy_world y')"
      have "host_act (Suc n) hs (sy_world y) (Suc n) hs w"
        by (rule host_act_fixed[OF a1]) (auto simp: host_fixed_def)
      moreover have "host_act (Suc n) hs w n hs' (sy_world y')"
        by (rule host_act_fixed[OF act_new_rules(2)[OF st assms(2)]])
           (use hs' in \<open>auto simp: host_fixed_def\<close>)
      ultimately show ?thesis by (rule host_act_trans)
    qed
  qed
qed

lemma host_act_HandelDma:
  assumes "Host_HandelDma env xp e (hs, y) = Inr (b, hs', y')" and "event_ok e"
  shows "host_act (Suc n) hs (sy_world y) n hs' (sy_world y')"
proof (cases "hs_pending_msix hs")
  case None
  then show ?thesis using assms host_act_HandelDma_rest by (simp add: Host_HandelDma_def)
next
  case (Some msix)
  obtain added w1 where add: "ptr_AddToSpan env msix e (sy_world y) = Inr (added, w1)"
    using assms(1) Some by (auto simp: Host_HandelDma_def sys_Inr)
  note a1 = act_AddToSpan[OF add _ assms(2), of "{msix}"]
  show ?thesis
  proof (cases added)
    case True
    obtain w2 where w2: "MarkSpanAsDone xp (Some msix) w1 = Inr w2"
        "hs' = hs\<lparr>hs_pending_msix := None\<rparr>" "sy_world y' = w2"
      using assms(1) Some add True by (auto simp: Host_HandelDma_def sys_Inr)
    have "act (Suc n) {msix} (sy_world y) n {} w2"
      using act_weaken[OF act_trans[OF a1 act_MarkSpanAsDone[OF w2(1)]], of n "Suc n"] by simp
    then show ?thesis
      unfolding w2(3) by (rule host_act_fixed) (use Some w2(2) in \<open>auto simp: host_fixed_def\<close>)
  next
    case False
    have rest: "Host_HandelDma_rest env xp e (hs, y\<lparr>sy_world := w1\<rparr>) = Inr (b, hs', y')"
      using assms(1) Some add False by (auto simp: Host_HandelDma_def sys_Inr)
    have "host_act (Suc n) hs (sy_world y) (Suc n) hs w1"
      by (rule host_act_fixed[OF a1]) (use Some in \<open>auto simp: host_fixed_def\<close>)
    then show ?thesis using host_act_trans host_act_HandelDma_rest[OF rest assms(2)] by auto
  qed
qed

lemma host_act_HandelMsix:
  assumes "Host_HandelMsix env e (hs, y) = Inr (b, hs', y')" and "event_ok e"
  shows "host_act (Suc n) hs (sy_world y) n hs' (sy_world y')"
proof -
  obtain con y1 where con: "PopPropagateContext (hs_from_nic_queue hs) y = Inr (con, y1)"
    using assms(1) by (auto simp: Host_HandelMsix_def rbind_eq_Inr)
  note w1 = PopPropagateContext_world[OF con]
  have "hs' = hs \<and> sy_world y' = sy_world y \<or> (\<exists>sp. hs' = hs\<lparr>hs_pending_msix := Some sp\<rparr> \<and>
      StartSpanByParentPassOnContext env (Some con) (Some e)
        (host_args hs e (HostMsixD HostMsixSpan_init)) (sy_world y) = Inr (sp, sy_world y'))"
    using assms(1) con w1 by (auto simp: Host_HandelMsix_def sys_Inr split: if_splits)
  then show ?thesis
  proof (elim disjE exE conjE)
    assume "hs' = hs" "sy_world y' = sy_world y"
    then show ?thesis by (simp add: host_act_same)
  next
    fix sp
    assume hs': "hs' = hs\<lparr>hs_pending_msix := Some sp\<rparr>"
      and st: "StartSpanByParentPassOnContext env (Some con) (Some e)
        (host_args hs e (HostMsixD HostMsixSpan_init)) (sy_world y) = Inr (sp, sy_world y')"
    show ?thesis
      by (rule host_act_fixed[OF act_new_rules(2)[OF st assms(2)]])
         (use hs' in \<open>auto simp: host_fixed_def\<close>)
  qed
qed

lemma host_act_HandelInt:
  assumes "Host_HandelInt env xp e (hs, y) = Inr (b, hs', y')" and "event_ok e"
  shows "host_act (Suc n) hs (sy_world y) n hs' (sy_world y')"
proof (cases "hs_pending_int hs")
  case None
  then obtain call sp where st: "StartSpanByParent env (Some call) (Some e)
      (host_args hs e (HostIntD HostIntSpan_init)) (sy_world y) = Inr (sp, sy_world y')"
      "hs' = hs\<lparr>hs_pending_int := Some sp\<rparr>"
    using assms(1) by (auto simp: Host_HandelInt_def sys_Inr)
  show ?thesis
    by (rule host_act_fixed[OF act_new_rules(1)[OF st(1) assms(2)]])
       (use st(2) None in \<open>auto simp: host_fixed_def\<close>)
next
  case (Some p)
  obtain added w1 where add: "ptr_AddToSpan env p e (sy_world y) = Inr (added, w1)"
    using assms(1) Some by (auto simp: Host_HandelInt_def sys_Inr)
  note a1 = act_AddToSpan[OF add _ assms(2), of "{p}" "Suc n"]
  have "hs' = hs \<and> sy_world y' = w1 \<or>
      hs' = hs\<lparr>hs_pending_int := None\<rparr> \<and> MarkSpanAsDone xp (Some p) w1 = Inr (sy_world y')"
    using assms(1) Some add by (auto simp: Host_HandelInt_def sys_Inr split: if_splits)
  then have "act (Suc n) {p} (sy_world y) n (set (opt_list (hs_pending_int hs'))) (sy_world y')"
    using act_weaken[OF a1, of "Suc n" n] Some
      act_weaken[OF act_trans[OF a1 act_MarkSpanAsDone[of p w1 "sy_world y'" "{p}"]], of "Suc n" n]
    by auto
  then show ?thesis
    by (rule host_act_fixed)
       (use Some \<open>hs' = hs \<and> _ \<or> _\<close> in \<open>auto simp: host_fixed_def\<close>)
qed

text \<open>The MMIO list: only its pending spans are open.\<close>

lemma host_act_HandelMmio_found:
  assumes it: "iterate_add_erase env e (hs_pending_mmio hs) w = Inr (Some i, pending, w1)"
    and e: "event_ok e" and c: "ptr_IsComplete i w1 = Inr complete"
    and d: "complete \<Longrightarrow> MarkSpanAsDone xp (Some i) w1 = Inr w'" "\<not> complete \<Longrightarrow> w' = w1"
  shows "host_act n hs w n (hs\<lparr>hs_pending_mmio := pending\<rparr>) w'"
proof (cases "good n (host_open hs (w_heap w)) w \<and> host_ok hs (w_heap w)")
  case True
  let ?own = "host_open hs (w_heap w)" and ?hs = "hs\<lparr>hs_pending_mmio := pending\<rparr>"
  have dr: "distinct (host_roles hs)" and kn: "set (host_roles hs) \<subseteq> known_ids w"
    using True by (auto simp: host_ok_def)
  have "\<forall>j \<in> set (hs_pending_mmio hs). span_pending (w_heap w) j \<longrightarrow> j \<in> ?own"
    by (simp add: host_open_def)
  note itr = act_iterate_add_erase[OF it e this, of n]
  have a1: "act n ?own w n ?own w1"
    and mono: "span_pending (w_heap w1) j \<Longrightarrow> span_pending (w_heap w) j"
    and i: "i \<in> set (hs_pending_mmio hs)" "i \<in> ?own"
    and pend: "pending = (if span_pending (w_heap w1) i then hs_pending_mmio hs
                          else remove1 i (hs_pending_mmio hs))" for j
    using itr dr by (auto simp: host_roles_def)
  have g1: "good n ?own w1" and kn1: "known_ids w \<subseteq> known_ids w1"
    using a1 True by (auto simp: act_def moves_def)
  have sub: "set pending \<subseteq> set (hs_pending_mmio hs)" "distinct pending"
    using pend dr set_remove1_subset[of i "hs_pending_mmio hs"]
    by (auto simp: host_roles_def distinct_remove1 split: if_splits)
  have comp: "complete \<longleftrightarrow> \<not> span_pending (w_heap w1) i" by (rule ptr_IsComplete_pending[OF c])
  have heap: "w_heap w' = w_heap w1"
    using good_MarkSpanAsDone(1)[OF g1 i(2)] d by (cases complete) auto
  have fi: "i \<notin> set (host_fixed hs)" using i(1) dr by (auto simp: host_roles_def)
  have "act n ?own w n (if complete then ?own - {i} else ?own) w'"
    using act_trans[OF a1 act_MarkSpanAsDone[OF d(1) i(2)]] a1 d(2) by auto
  moreover have "host_open ?hs (w_heap w') \<subseteq> (if complete then ?own - {i} else ?own)"
    using sub(1) mono fi comp by (auto simp: host_open_def host_fixed_def heap)
  ultimately have "act n ?own w n (host_open ?hs (w_heap w')) w'"
    by (rule act_weaken[OF _ order_refl order_refl])
  moreover have "set (host_roles ?hs) \<subseteq> set (host_roles hs)" "distinct (host_roles ?hs)"
    using sub dr by (auto simp: host_roles_def host_fixed_def)
  moreover have "set (host_roles ?hs) \<subseteq> known_ids w'"
    using calculation(2) kn kn1 unfolding heap by (meson order_trans)
  ultimately show ?thesis by (auto simp: host_act_def host_ok_def)
qed (auto simp: host_act_def)

lemma host_act_new_mmio:
  assumes st: "StartSpanByParent env (Some call) (Some e) args w = Inr (sp, w1)" and e: "event_ok e"
    and d: "finished \<Longrightarrow> MarkSpanAsDone xp (Some sp) w1 = Inr w'" "\<not> finished \<Longrightarrow> w' = w1"
    and c: "finished \<Longrightarrow> \<not> span_pending (w_heap w1) sp"
  shows "host_act (Suc n) hs w n (hs\<lparr>hs_pending_mmio := hs_pending_mmio hs @ [sp]\<rparr>) w'"
proof (cases "good (Suc n) (host_open hs (w_heap w)) w \<and> host_ok hs (w_heap w)")
  case True
  let ?own = "host_open hs (w_heap w)" and ?hs = "hs\<lparr>hs_pending_mmio := hs_pending_mmio hs @ [sp]\<rparr>"
  have dr: "distinct (host_roles hs)" and kn: "set (host_roles hs) \<subseteq> known_ids w"
    using True by (auto simp: host_ok_def)
  have a0: "act (Suc n) {} w n {sp} w1" using act_new_rules(1)[OF st e] by simp
  have "good (Suc n) {} w" by (rule good_mono[OF conjunct1[OF True]]) auto
  then have fresh: "sp \<notin> known_ids w" and mv: "moves {} w w1" and g1: "good n {sp} w1"
    using a0 by (auto simp: act_def)
  have sp1: "sp \<in> known_ids w1" using g1 by (simp add: good_def)
  have heap: "w_heap w' = w_heap w1"
  proof (cases finished)
    case True
    show ?thesis by (rule good_MarkSpanAsDone(1)[OF g1 _ d(1)[OF True]]) simp
  qed (use d(2) in simp)
  have same: "span_pending (w_heap w1) j = span_pending (w_heap w) j"
    if "j \<in> set (hs_pending_mmio hs)" for j
  proof -
    have "j \<in> known_ids w" using kn that unfolding host_roles_def set_append by blast
    then show ?thesis using moves_spans[OF mv] by (simp add: span_pending_def)
  qed
  have a1: "act (Suc n) ?own w n (insert sp ?own) w1" using act_frame[OF a0, of ?own] by simp
  have spo: "sp \<notin> ?own" using fresh kn host_open_roles[of hs "w_heap w"] by blast
  have "act (Suc n) ?own w n (if finished then ?own else insert sp ?own) w'"
  proof (cases finished)
    case True
    show ?thesis
      using act_trans[OF a1 act_MarkSpanAsDone[OF d(1)[OF True] insertI1]] spo True by simp
  qed (use a1 d(2) in simp)
  moreover have "host_open ?hs (w_heap w') \<subseteq> (if finished then ?own else insert sp ?own)"
    using same c by (auto simp: host_open_def host_fixed_def heap)
  ultimately have fin: "act (Suc n) ?own w n (host_open ?hs (w_heap w')) w'"
    by (rule act_weaken[OF _ order_refl order_refl])
  have ro: "set (host_roles ?hs) = insert sp (set (host_roles hs))"
    by (auto simp: host_roles_def host_fixed_def)
  have "sp \<notin> set (host_roles hs)" using fresh kn by blast
  then have di: "distinct (host_roles ?hs)" using dr by (auto simp: host_roles_def host_fixed_def)
  have "known_ids w \<subseteq> known_ids w'" using mv by (simp add: moves_def heap)
  then have "set (host_roles hs) \<subseteq> known_ids w'" using kn by (rule order_trans[rotated])
  then have "set (host_roles ?hs) \<subseteq> known_ids w'" using sp1 unfolding ro heap by (rule insert_subsetI[rotated])
  moreover have "set (host_roles ?hs) \<subseteq> set (host_roles hs) \<union> - known_ids w"
    using fresh unfolding ro by blast
  ultimately show ?thesis using fin di by (simp add: host_act_def host_ok_def)
qed (auto simp: host_act_def)

lemma host_act_HandelMmio:
  assumes "Host_HandelMmio env xp e (hs, y) = Inr (b, hs', y')" and "event_ok e"
  shows "host_act (Suc n) hs (sy_world y) n hs' (sy_world y')"
proof -
  obtain found pending w where it: "iterate_add_erase env e (hs_pending_mmio hs) (sy_world y)
      = Inr (found, pending, w)"
    using assms(1) by (auto simp: Host_HandelMmio_def rbind_eq_Inr)
  show ?thesis
  proof (cases found)
    case (Some i)
    obtain complete where c: "ptr_IsComplete i w = Inr complete"
        "hs' = hs\<lparr>hs_pending_mmio := pending\<rparr>"
        "complete \<Longrightarrow> MarkSpanAsDone xp (Some i) w = Inr (sy_world y')" "\<not> complete \<Longrightarrow> sy_world y' = w"
      using assms(1) it Some by (auto simp: Host_HandelMmio_def Let_def sys_Inr split: if_splits)
    show ?thesis
      using host_act_less[OF host_act_HandelMmio_found[OF it[unfolded Some] assms(2) c(1,3,4)]] c(2) by simp
  next
    case None
    obtain call bar ofs sp y2 d sb y3 complete y4 where steps:
        "on_world (StartSpanByParent env (Some call) (Some e)
          (host_args (hs\<lparr>hs_pending_mmio := pending\<rparr>) e (HostMmioD (HostMmioSpan_init bar))))
          (y\<lparr>sy_world := w\<rparr>) = Inr (sp, y2)"
        "(if \<not> hs_pci_write_before hs \<and> IsToDeviceBarNumber sb
          then PushPropagateContext kMmio (hs_to_nic_queue (hs\<lparr>hs_pending_mmio := pending\<rparr>)) sp y2
          else Inr y2) = Inr y3"
        "ptr_IsComplete sp (sy_world y3) = Inr complete"
        "(if IsMsixNotToDeviceBarNumber sb \<and> complete
          then upd_world (MarkSpanAsDone xp (Some sp)) y3 else Inr y3) = Inr y4"
        "hs' = hs\<lparr>hs_pending_mmio := pending @ [sp]\<rparr>" "y' = y4"
      using assms(1) it None
      by (clarsimp simp: Host_HandelMmio_def Let_def rbind_eq_Inr)
    let ?own = "{i \<in> set (hs_pending_mmio hs). span_pending (w_heap (sy_world y)) i}"
    have p: "pending = hs_pending_mmio hs"
      using act_iterate_add_erase[OF it assms(2), of ?own] None by simp
    have iter: "host_act (Suc n) hs (sy_world y) (Suc n) hs w"
    proof (cases "good (Suc n) (host_open hs (w_heap (sy_world y))) (sy_world y) \<and>
          host_ok hs (w_heap (sy_world y))")
      case True
      let ?o = "host_open hs (w_heap (sy_world y))"
      have "\<forall>i \<in> set (hs_pending_mmio hs). span_pending (w_heap (sy_world y)) i \<longrightarrow> i \<in> ?o"
        by (simp add: host_open_def)
      note itr = act_iterate_add_erase[OF it assms(2) this, of "Suc n"]
      have "host_open hs (w_heap w) \<subseteq> ?o" using itr by (auto simp: host_open_def)
      then have "act (Suc n) ?o (sy_world y) (Suc n) (host_open hs (w_heap w)) w"
        using act_weaken[OF conjunct1[OF itr] order_refl order_refl] by simp
      moreover have "known_ids (sy_world y) \<subseteq> known_ids w"
        using itr True by (auto simp: act_def moves_def)
      ultimately show ?thesis
        using True unfolding host_act_def host_ok_def by blast
    qed (auto simp: host_act_def)
    have w3: "sy_world y3 = sy_world y2"
      using steps(2) by (auto split: if_splits dest: PushPropagateContext_world)
    have st: "StartSpanByParent env (Some call) (Some e)
        (host_args (hs\<lparr>hs_pending_mmio := pending\<rparr>) e (HostMmioD (HostMmioSpan_init bar))) w
        = Inr (sp, sy_world y3)"
      using steps(1) w3 by (auto simp: on_world_Inr)
    have "host_act (Suc n) hs w n (hs\<lparr>hs_pending_mmio := hs_pending_mmio hs @ [sp]\<rparr>) (sy_world y')"
      by (rule host_act_new_mmio[OF st assms(2), of "IsMsixNotToDeviceBarNumber sb \<and> complete"])
         (use steps(3,4,6) in \<open>auto simp: upd_world_Inr dest: ptr_IsComplete_pending split: if_splits\<close>)
    then show ?thesis using host_act_trans[OF iter] steps(5) p by simp
  qed
qed

section \<open>\<open>consume\<close>\<close>

lemma host_act_consume:
  assumes "Host_consume env xp (Some e) (hs, y) = Inr (hs', y')" and "event_ok e"
  shows "host_act (host_cost hs y + n) hs (sy_world y) n hs' (sy_world y')"
proof -
  have le: "Suc n \<le> host_cost hs y + n" by (simp add: host_cost_def)
  obtain handlers where hd: "host_handlers env xp = Inr handlers"
      "Spanner_consume handlers (Some e) (hs, y) = Inr (hs', y')"
    using assms(1) by (auto simp: Host_consume_def rbind_eq_Inr)
  show ?thesis
  proof (rule Spanner_consume_cases[OF hd(2) hd(1)[unfolded host_handlers_def]])
    assume "(hs', y') = (hs, y)"
    then show ?thesis by (simp add: host_act_same)
  next
    fix h b
    assume h: "h e (hs, y) = Inr (b, hs', y')"
      and m: "(GetType e, h) \<in> set [(kHostCallT, Host_HandelCall env xp),
        (kHostMmioWT, Host_HandelMmio env xp), (kHostMmioRT, Host_HandelMmio env xp),
        (kHostMmioImRespPoWT, Host_HandelMmio env xp), (kHostMmioCWT, Host_HandelMmio env xp),
        (kHostMmioCRT, Host_HandelMmio env xp), (kHostPciRWT, Host_HandelPci env xp),
        (kHostConfT, Host_HandelPci env xp), (kHostDmaWT, Host_HandelDma env xp),
        (kHostDmaRT, Host_HandelDma env xp), (kHostDmaCT, Host_HandelDma env xp),
        (kHostMsiXT, Host_HandelMsix env), (kHostPostIntT, Host_HandelInt env xp),
        (kHostClearIntT, Host_HandelInt env xp)]"
    have "h \<in> {Host_HandelCall env xp, Host_HandelMmio env xp, Host_HandelPci env xp,
        Host_HandelDma env xp, Host_HandelMsix env, Host_HandelInt env xp}"
      using m by auto
    then show ?thesis
      using h assms(2) host_act_HandelCall[of env e hs y b hs' y' n]
        host_act_less[OF _ le] host_act_HandelMmio[of env e hs y b hs' y' n]
        host_act_HandelPci[of env e hs y b hs' y' n] host_act_HandelDma[of env e hs y b hs' y' n]
        host_act_HandelMsix[of env e hs y b hs' y' n] host_act_HandelInt[of env e hs y b hs' y' n]
      by auto
  qed
qed

end

end
