(* ===== verification/SpannerNic.thy ===== *)
theory SpannerNic
  imports Spanner
begin

text \<open>
  The NIC spanner (source/analytics/nicSpanner.cc): an MMIO access of the NIC takes the
  context its host pushed; DMA, transmit and MSI-X spans hang below the last write (or
  received packet), and each DMA execution, MSI-X and packet pushes a context to the host or
  to the network.
\<close>

section \<open>State\<close>

record NicSpanner =
  ns_base :: Spanner
  ns_to_network_queue :: chan_addr
  ns_from_network_queue :: chan_addr
  ns_to_host_queue :: chan_addr
  ns_from_host_queue :: chan_addr
  ns_to_host_receives :: chan_addr
  ns_last_host_context :: "Context option"
  ns_last_causing :: "u64 option"
  ns_pending_dma :: "u64 list"

definition nic_args :: "NicSpanner \<Rightarrow> event \<Rightarrow> span_data \<Rightarrow> span_args" where
  "nic_args ns e d = spanner_args (ns_base ns) e d"

section \<open>The handlers\<close>

definition Nic_HandelMmio ::
  "TraceEnvironment \<Rightarrow> 'x exporter \<Rightarrow> (NicSpanner \<times> 'x sys) handler"
where
  "Nic_HandelMmio env xp e = (\<lambda>(ns, y).
     rbind (PopPropagateContext (ns_from_host_queue ns) y) (\<lambda>(con, y1).
       if \<not> is_expectation (Some con) kMmio then Inr (False, ns, y1)
       else
         rbind (on_world (StartSpanByParentPassOnContext env (Some con) (Some e)
                  (nic_args ns e (NicMmioD NicMmioSpan_init))) y1) (\<lambda>(sp, y2).
         rbind (ptr_IsComplete sp (sy_world y2)) (\<lambda>complete.
         rbind (assert_that complete ''mmio span is not complete'') (\<lambda>_.
         rbind (upd_world (MarkSpanAsDone xp (Some sp)) y2) (\<lambda>y3.
         rbind (ptr_data sp (sy_world y3)) (\<lambda>d.
         rbind (NicMmio_IsWrite d) (\<lambda>is_write.
           Inr (True, if is_write then ns\<lparr>ns_last_causing := Some sp\<rparr> else ns, y3)))))))))"

definition Nic_HandelDma ::
  "TraceEnvironment \<Rightarrow> 'x exporter \<Rightarrow> (NicSpanner \<times> 'x sys) handler"
where
  "Nic_HandelDma env xp e = (\<lambda>(ns, y).
     rbind (iterate_add_erase env e (ns_pending_dma ns) (sy_world y)) (\<lambda>(found, pending, w).
       let ns1 = ns\<lparr>ns_pending_dma := pending\<rparr>; y1 = y\<lparr>sy_world := w\<rparr> in
       case found of
         Some dma \<Rightarrow>
           rbind (ptr_IsComplete dma (sy_world y1)) (\<lambda>complete.
           rbind (if complete then upd_world (MarkSpanAsDone xp (Some dma)) y1
                  else if IsType (Some e) kNicDmaExT
                  then PushPropagateContext kDma (ns_to_host_queue ns1) dma y1
                  else Inr y1) (\<lambda>y2. Inr (True, ns1, y2)))
       | None \<Rightarrow>
           if \<not> IsType (Some e) kNicDmaIT then Inr (False, ns1, y1)
           else
             rbind (throw_if_empty (ns_last_causing ns1) ''Span is null'') (\<lambda>parent.
             rbind (on_world (StartSpanByParent env (Some parent) (Some e)
                      (nic_args ns1 e (NicDmaD NicDmaSpan_init))) y1) (\<lambda>(dma, y2).
               Inr (True, ns1\<lparr>ns_pending_dma := ns_pending_dma ns1 @ [dma]\<rparr>, y2)))))"

text \<open>The two branches of \<open>HandelTxrx\<close>, and what both do with the span.\<close>

definition Nic_StartTx ::
  "TraceEnvironment \<Rightarrow> event \<Rightarrow> NicSpanner \<times> 'x sys \<Rightarrow> (u64 \<times> NicSpanner \<times> 'x sys) res"
where
  "Nic_StartTx env e = (\<lambda>(ns, y).
     rbind (throw_if_empty (ns_last_causing ns) ''Span is null'') (\<lambda>parent.
     rbind (on_world (StartSpanByParent env (Some parent) (Some e)
              (nic_args ns e (NicEthD NicEthSpan_init))) y) (\<lambda>(eth, y1).
     rbind (PushPropagateContext kRx (ns_to_network_queue ns) eth y1) (\<lambda>y2.
       Inr (eth, ns, y2)))))"

definition Nic_StartRx ::
  "TraceEnvironment \<Rightarrow> event \<Rightarrow> NicSpanner \<times> 'x sys \<Rightarrow> (u64 \<times> NicSpanner \<times> 'x sys) res"
where
  "Nic_StartRx env e = (\<lambda>(ns, y).
     rbind (PopPropagateContext (ns_from_network_queue ns) y) (\<lambda>(con, y1).
     rbind (throw_on (\<not> is_expectation (Some con) kRx)
              ''nic_spanner: received non kRx context'') (\<lambda>_.
     rbind (on_world (StartSpanByParentPassOnContext env (Some con) (Some e)
              (nic_args ns e (NicEthD NicEthSpan_init))) y1) (\<lambda>(eth, y2).
     rbind (PushPropagateContext kRx (ns_to_host_receives ns) eth y2) (\<lambda>y3.
       Inr (eth, ns\<lparr>ns_last_causing := Some eth\<rparr>, y3))))))"

definition Nic_HandelTxrx ::
  "TraceEnvironment \<Rightarrow> 'x exporter \<Rightarrow> (NicSpanner \<times> 'x sys) handler"
where
  "Nic_HandelTxrx env xp e s =
     (if \<not> IsType (Some e) kNicTxT \<and> \<not> IsType (Some e) kNicRxT then Inr (False, s)
      else
        rbind (if IsType (Some e) kNicTxT then Nic_StartTx env e s else Nic_StartRx env e s)
          (\<lambda>(eth, ns, y).
        rbind (ptr_IsComplete eth (sy_world y)) (\<lambda>complete.
        rbind (assert_that complete ''eth span is not complete'') (\<lambda>_.
        rbind (upd_world (MarkSpanAsDone xp (Some eth)) y) (\<lambda>y1.
          Inr (True, ns, y1))))))"

definition Nic_HandelMsix ::
  "TraceEnvironment \<Rightarrow> 'x exporter \<Rightarrow> (NicSpanner \<times> 'x sys) handler"
where
  "Nic_HandelMsix env xp e = (\<lambda>(ns, y).
     rbind (throw_if_empty (ns_last_causing ns) ''Span is null'') (\<lambda>parent.
     rbind (on_world (StartSpanByParent env (Some parent) (Some e)
              (nic_args ns e (NicMsixD NicMsixSpan_init))) y) (\<lambda>(msix, y1).
     rbind (ptr_IsComplete msix (sy_world y1)) (\<lambda>complete.
     rbind (assert_that complete ''msix span is not complete'') (\<lambda>_.
     rbind (upd_world (MarkSpanAsDone xp (Some msix)) y1) (\<lambda>y2.
     rbind (PushPropagateContext kMsix (ns_to_host_queue ns) msix y2) (\<lambda>y3.
       Inr (True, ns, y3))))))))"

section \<open>Construction\<close>

definition nic_handlers ::
  "TraceEnvironment \<Rightarrow> 'x exporter \<Rightarrow> (NicSpanner \<times> 'x sys) handlers res"
where
  "nic_handlers env xp =
     RegisterHandlers
       [(kNicMmioWT, Nic_HandelMmio env xp),
        (kNicMmioRT, Nic_HandelMmio env xp),
        (kNicDmaIT, Nic_HandelDma env xp),
        (kNicDmaExT, Nic_HandelDma env xp),
        (kNicDmaCWT, Nic_HandelDma env xp),
        (kNicDmaCRT, Nic_HandelDma env xp),
        (kNicTxT, Nic_HandelTxrx env xp),
        (kNicRxT, Nic_HandelTxrx env xp),
        (kNicMsixT, Nic_HandelMsix env xp)] []"

definition NicSpanner_new ::
  "string \<Rightarrow> chan_addr option \<Rightarrow> chan_addr option \<Rightarrow> chan_addr option \<Rightarrow> chan_addr option \<Rightarrow>
    chan_addr option \<Rightarrow> 'x sys \<Rightarrow> (NicSpanner \<times> 'x sys) res"
where
  "NicSpanner_new nm to_network from_network to_host from_host to_host_receives y =
     (case Spanner_new nm y of
        (base, y1) \<Rightarrow>
          rbind (throw_if_empty to_network ''ContextQueue<...> is null'') (\<lambda>tn.
          rbind (throw_if_empty from_network ''ContextQueue<...> is null'') (\<lambda>fn.
          rbind (throw_if_empty to_host ''ContextQueue<...> is null'') (\<lambda>th.
          rbind (throw_if_empty from_host ''ContextQueue<...> is null'') (\<lambda>fh.
          rbind (throw_if_empty to_host_receives ''ContextQueue<...> is null'') (\<lambda>tr.
            Inr (\<lparr>ns_base = base, ns_to_network_queue = tn, ns_from_network_queue = fn,
                  ns_to_host_queue = th, ns_from_host_queue = fh, ns_to_host_receives = tr,
                  ns_last_host_context = None, ns_last_causing = None, ns_pending_dma = []\<rparr>,
                 y1)))))))"

definition Nic_consume ::
  "TraceEnvironment \<Rightarrow> 'x exporter \<Rightarrow> event option \<Rightarrow> NicSpanner \<times> 'x sys \<Rightarrow>
    (NicSpanner \<times> 'x sys) res"
where
  "Nic_consume env xp value_ptr s =
     rbind (nic_handlers env xp) (\<lambda>handlers. Spanner_consume handlers value_ptr s)"

end
