(* ===== verification/SpannerNet.thy ===== *)
theory SpannerNet
  imports Spanner
begin

text \<open>
  The network spanner (source/analytics/networkSpanner.cpp): a span per packet and device of
  the simulated network. The first device of a packet takes the context of the sending NIC,
  every further device continues the span finished last, and the device attached to the
  receiving NIC pushes it a context.
\<close>

section \<open>State\<close>

record NetworkSpanner =
  ws_base :: Spanner
  ws_last_finished :: "u64 option"
  ws_active :: "u64 list"
  ws_from_host_channels :: NodeDeviceToChannelMap
  ws_to_host_channels :: NodeDeviceToChannelMap
  ws_node_device_filter :: NodeDeviceFilter

definition net_args :: "NetworkSpanner \<Rightarrow> event \<Rightarrow> span_args" where
  "net_args ws e = spanner_args (ws_base ws) e (NetDeviceD NetDeviceSpan_init)"

section \<open>The handler\<close>

text \<open>An event that an active span accepted.\<close>

definition Net_FinishSpan ::
  "'x exporter \<Rightarrow> u64 \<Rightarrow> (NetworkSpanner \<times> 'x sys) \<Rightarrow> (bool \<times> NetworkSpanner \<times> 'x sys) res"
where
  "Net_FinishSpan xp current = (\<lambda>(ws, y).
     rbind (ptr_IsComplete current (sy_world y)) (\<lambda>complete.
     rbind (throw_on_false complete
              ''network spanner, after adding event, span must be complete'') (\<lambda>_.
     rbind (ptr_data current (sy_world y)) (\<lambda>data.
     rbind (as_NetDeviceSpan data) (\<lambda>d.
     rbind (if ContainsBoundaryType d kToAdapter \<and> \<not> IsDrop d then
              rbind (throw_on_false (HasIpsSet d) ''kToAdapter event has no ip header'') (\<lambda>_.
              rbind (GetValidChannel (nvs_node d) (nvs_device d) (ws_to_host_channels ws)) (\<lambda>to_host.
                PushPropagateContext kRx to_host current y))
            else Inr y) (\<lambda>y1.
     rbind (upd_world (MarkSpanAsDone xp (Some current)) y1) (\<lambda>y2.
       Inr (True, ws\<lparr>ws_last_finished := Some current\<rparr>, y2))))))))"

text \<open>The context a new span continues.\<close>

definition Net_context ::
  "NetworkEvent \<Rightarrow> (NetworkSpanner \<times> 'x sys) \<Rightarrow> (Context \<times> 'x sys) res"
where
  "Net_context n = (\<lambda>(ws, y).
     if net_boundary_type n = kFromAdapter then
       rbind (throw_on_false (IsDeviceType (Some n) kCosimNetDevice)
                ''trying to create a span depending on a nic side event based on a non cosim device'')
         (\<lambda>_.
       rbind (GetValidChannel (net_node n) (net_device n) (ws_from_host_channels ws)) (\<lambda>from_host.
       rbind (PopPropagateContext from_host y) (\<lambda>(con, y1).
       rbind (throw_on (\<not> is_expectation (Some con) kRx) ''received non kRx context'') (\<lambda>_.
         Inr (con, y1)))))
     else
       rbind (case ws_last_finished ws of
                None \<Rightarrow> Inl (AssertFailed ''last_finished_device_span_'')
              | Some finished \<Rightarrow> Inr finished) (\<lambda>finished.
       rbind (ptr_base finished (sy_world y)) (\<lambda>s.
       rbind (CreatePassOnContext kRx (w_heap (sy_world y)) s) (\<lambda>con.
         Inr (con, y)))))"

definition Net_StartSpan ::
  "TraceEnvironment \<Rightarrow> NetworkEvent \<Rightarrow> (NetworkSpanner \<times> 'x sys) handler"
where
  "Net_StartSpan env n e = (\<lambda>(ws, y).
     if \<not> IsType (Some e) kNetworkEnqueueT then Inr (False, ws, y)
     else if \<not> net_interesting_flag n then
       (if IsInterestingNodeDevice_event (Some n) (ws_node_device_filter ws) \<and>
           IsDeviceType (Some n) kCosimNetDevice
        then rbind (on_world (StartSpan env (Some e) (net_args ws e)) y) (\<lambda>(sp, y1).
               Inr (True, ws\<lparr>ws_active := ws_active ws @ [sp]\<rparr>, y1))
        else Inr (True, ws, y))
     else
       rbind (Net_context n (ws, y)) (\<lambda>(con, y1).
       rbind (on_world (StartSpanByParentPassOnContext env (Some con) (Some e) (net_args ws e)) y1)
         (\<lambda>(sp, y2).
         Inr (True, ws\<lparr>ws_active := ws_active ws @ [sp]\<rparr>, y2))))"

definition HandelNetworkEvent ::
  "TraceEnvironment \<Rightarrow> 'x exporter \<Rightarrow> (NetworkSpanner \<times> 'x sys) handler"
where
  "HandelNetworkEvent env xp e = (\<lambda>(ws, y).
     if \<not> IsAnyType (Some e) [kNetworkEnqueueT, kNetworkDequeueT, kNetworkDropT]
     then Inr (False, ws, y)
     else
       rbind (or_undefined (as_NetworkEvent e) ''static_pointer_cast<NetworkEvent>'') (\<lambda>n.
         if net_interesting_flag n \<and> IsNotInterestingNodeDevice (Some n) (ws_node_device_filter ws)
         then Inr (True, ws, y)
         else
           rbind (iterate_add_erase env e (ws_active ws) (sy_world y)) (\<lambda>(found, active, w).
             let ws1 = ws\<lparr>ws_active := active\<rparr>; y1 = y\<lparr>sy_world := w\<rparr> in
             case found of
               Some current \<Rightarrow> Net_FinishSpan xp current (ws1, y1)
             | None \<Rightarrow> Net_StartSpan env n e (ws1, y1))))"

section \<open>Construction\<close>

definition net_handlers ::
  "TraceEnvironment \<Rightarrow> 'x exporter \<Rightarrow> (NetworkSpanner \<times> 'x sys) handlers res"
where
  "net_handlers env xp =
     RegisterHandlers
       [(kNetworkEnqueueT, HandelNetworkEvent env xp),
        (kNetworkDequeueT, HandelNetworkEvent env xp),
        (kNetworkDropT, HandelNetworkEvent env xp)] []"

definition NetworkSpanner_new ::
  "string \<Rightarrow> NodeDeviceToChannelMap \<Rightarrow> NodeDeviceToChannelMap \<Rightarrow> NodeDeviceFilter \<Rightarrow> 'x sys \<Rightarrow>
    NetworkSpanner \<times> 'x sys"
where
  "NetworkSpanner_new nm from_host_channels to_host_channels node_device_filter y =
     (case Spanner_new nm y of
        (base, y1) \<Rightarrow>
          (\<lparr>ws_base = base, ws_last_finished = None, ws_active = [],
            ws_from_host_channels = from_host_channels, ws_to_host_channels = to_host_channels,
            ws_node_device_filter = node_device_filter\<rparr>, y1))"

definition Net_consume ::
  "TraceEnvironment \<Rightarrow> 'x exporter \<Rightarrow> event option \<Rightarrow> NetworkSpanner \<times> 'x sys \<Rightarrow>
    (NetworkSpanner \<times> 'x sys) res"
where
  "Net_consume env xp value_ptr s =
     rbind (net_handlers env xp) (\<lambda>handlers. Spanner_consume handlers value_ptr s)"

end
