(* ===== verification/Links.thy ===== *)
theory Links
  imports HostClient SpannerNic SpannerNet
begin

text \<open>
  What ties the spans of a run together: every span pointer a spanner keeps leads to a span
  of the class its C++ type promises, every context on a channel and every parent recorded
  in a trace context names a span that exists, with that span's starting time, and the
  expectation of a context tells the class of the span that sent it. This theory holds the
  claims and what each operation of the tracer and of the channels does to them.
\<close>

section \<open>Partial correctness of results\<close>

definition gives :: "'a res \<Rightarrow> ('a \<Rightarrow> bool) \<Rightarrow> bool" where
  "gives m Q = (\<forall>v. m = Inr v \<longrightarrow> Q v)"

lemma gives_bind:
  assumes "gives m P" and "\<And>v. P v \<Longrightarrow> gives (f v) Q"
  shows "gives (rbind m f) Q"
  using assms by (auto simp: gives_def rbind_eq_Inr)

lemma gives_eq: "gives m (\<lambda>v. m = Inr v)"
  by (simp add: gives_def)

lemma gives_weaken: "gives m P \<Longrightarrow> (\<And>v. P v \<Longrightarrow> Q v) \<Longrightarrow> gives m Q"
  by (simp add: gives_def)

lemma gives_simps [simp]:
  "gives (Inr v) Q = Q v"
  "gives (Inl err) Q"
  by (simp_all add: gives_def)

lemma givesD: "gives m Q \<Longrightarrow> m = Inr v \<Longrightarrow> Q v"
  by (simp add: gives_def)

text \<open>Checks: what is known behind them.\<close>

lemma gives_checks:
  "gives (throw_on b msg) (\<lambda>_. \<not> b)"
  "gives (throw_on_false b msg) (\<lambda>_. b)"
  "gives (assert_that b msg) (\<lambda>_. b)"
  "gives (throw_if_empty x msg) (\<lambda>v. x = Some v)"
  "gives (or_undefined x msg) (\<lambda>v. x = Some v)"
  by (auto simp: gives_def)

section \<open>Claims\<close>

text \<open>That a span exists, of which class it is and when it started: facts no step changes.\<close>

type_synonym claim = "u64 \<times> span_type \<times> u64"

definition claim_holds :: "heap \<Rightarrow> claim \<Rightarrow> bool" where
  "claim_holds h k =
     (case k of (i, c, ts) \<Rightarrow>
        \<exists>s d. h_spans h i = Some (s, d) \<and> sp_events s \<noteq> [] \<and> span_GetType d = c \<and>
          GetStartingTs s = ts)"

definition keeps :: "heap \<Rightarrow> heap \<Rightarrow> bool" where
  "keeps h h' = (\<forall>k. claim_holds h k \<longrightarrow> claim_holds h' k)"

definition parent_ok :: "heap \<Rightarrow> TraceContext \<Rightarrow> bool" where
  "parent_ok h c = (tc_has_parent c \<longrightarrow> (\<exists>k. claim_holds h (tc_parent_id c, k, tc_parent_start_ts c)))"

definition heap_typed :: "heap \<Rightarrow> bool" where
  "heap_typed h =
     ((\<forall>i s d. h_spans h i = Some (s, d) \<longrightarrow> sp_id s = i \<and> sp_events s \<noteq> [] \<and> same_parser (sp_events s)) \<and>
      (\<forall>c \<in> set (h_contexts h). parent_ok h c))"

text \<open>The classes of the spans that send a context.\<close>

fun senders :: "expectation \<Rightarrow> span_type set" where
  "senders kMmio = {kHostMmio}"
| "senders kDma = {kNicDma}"
| "senders kMsix = {kNicMsix}"
| "senders kRx = {kNicEth, kNetDeviceSpan}"
| "senders kTx = {}"

definition con_ok :: "heap \<Rightarrow> Context \<Rightarrow> bool" where
  "con_ok h con =
     (\<exists>c \<in> senders (cx_expectation con). claim_holds h (cx_parent_id con, c, cx_parent_start_ts con))"

fun queue :: "ctx_channel \<Rightarrow> Context list" where
  "queue (QueueC c) = uc_buffer c"
| "queue SinkC = []"

definition world_ok :: "nat \<Rightarrow> 'x world \<Rightarrow> bool" where
  "world_ok n w = (heap_typed (w_heap w) \<and> ids_left n w)"

text \<open>\<open>n\<close> span ids are left, and the claims \<open>K\<close> hold.\<close>

definition linked :: "nat \<Rightarrow> claim set \<Rightarrow> 'x sys \<Rightarrow> bool" where
  "linked n K y =
     (world_ok n (sy_world y) \<and> (\<forall>k \<in> K. claim_holds (w_heap (sy_world y)) k) \<and>
      (\<forall>a. \<forall>con \<in> set (queue (sy_channels y a)). con_ok (w_heap (sy_world y)) con))"

lemma keeps_refl [simp]: "keeps h h"
  by (simp add: keeps_def)

lemma keeps_trans: "keeps h h1 \<Longrightarrow> keeps h1 h2 \<Longrightarrow> keeps h h2"
  by (simp add: keeps_def)

lemma keeps_con: "keeps h h' \<Longrightarrow> con_ok h con \<Longrightarrow> con_ok h' con"
  unfolding keeps_def con_ok_def by blast

lemma keeps_parent: "keeps h h' \<Longrightarrow> parent_ok h c \<Longrightarrow> parent_ok h' c"
  unfolding keeps_def parent_ok_def by blast

lemma keepsI:
  assumes "\<And>i s d. h_spans h i = Some (s, d) \<Longrightarrow> sp_events s \<noteq> [] \<Longrightarrow>
    \<exists>s' d' es. h_spans h' i = Some (s', d') \<and> sp_events s' = sp_events s @ es \<and>
      span_GetType d' = span_GetType d"
  shows "keeps h h'"
  unfolding keeps_def claim_holds_def
proof (intro allI impI, clarify)
  fix i s d assume s: "h_spans h i = Some (s, d)" "sp_events s \<noteq> []"
  then obtain s' d' es where s': "h_spans h' i = Some (s', d')" "sp_events s' = sp_events s @ es"
      "span_GetType d' = span_GetType d"
    using assms by blast
  then show "\<exists>s' d'. h_spans h' i = Some (s', d') \<and> sp_events s' \<noteq> [] \<and>
      span_GetType d' = span_GetType d \<and> GetStartingTs s' = GetStartingTs s"
    using s(2) by (cases "sp_events s") (auto simp: GetStartingTs_def)
qed

lemma linked_mono: "linked n K y \<Longrightarrow> m \<le> n \<Longrightarrow> K' \<subseteq> K \<Longrightarrow> linked m K' y"
  by (auto simp: linked_def world_ok_def ids_left_def)

lemma linked_claim: "linked n K y \<Longrightarrow> k \<in> K \<Longrightarrow> claim_holds (w_heap (sy_world y)) k"
  by (simp add: linked_def)

lemma linked_insert:
  "linked n K y \<Longrightarrow> claim_holds (w_heap (sy_world y)) k \<Longrightarrow> linked n (insert k K) y"
  by (simp add: linked_def)

lemma linked_world:
  assumes "linked n K y" and "world_ok m w" and "keeps (w_heap (sy_world y)) (w_heap w)"
  shows "linked m K (y\<lparr>sy_world := w\<rparr>)"
  using assms keeps_con[OF assms(3)] by (auto simp: linked_def keeps_def)

section \<open>The world\<close>

lemma AddToSpan_class:
  "AddToSpan env ev (s, d) = Inr (added, s', d') \<Longrightarrow> span_GetType d' = span_GetType d"
  by (cases d) (auto simp: tag_data_def rbind_eq_Inr split: prod.splits)

lemma MarkAsDone_class: "span_GetType (snd (MarkAsDone sp)) = span_GetType (snd sp)"
  by (cases sp rule: MarkAsDone.cases) auto

text \<open>An update in place that at most adds events.\<close>

lemma world_ok_put:
  assumes "world_ok n w" and "h_spans (w_heap w) i = Some (s, d)"
    and "sp_id s' = sp_id s" "sp_events s' = sp_events s @ es" "span_GetType d' = span_GetType d"
    and "same_parser (sp_events s) \<Longrightarrow> same_parser (sp_events s @ es)"
  shows "world_ok n (put_span i (s', d') w)" and "keeps (w_heap w) (w_heap (put_span i (s', d') w))"
proof -
  show k: "keeps (w_heap w) (w_heap (put_span i (s', d') w))"
    by (rule keepsI) (use assms in \<open>auto simp: put_span_def\<close>)
  have cs: "h_contexts (w_heap (put_span i (s', d') w)) = h_contexts (w_heap w)"
    by (simp add: put_span_def)
  have "heap_typed (w_heap (put_span i (s', d') w))"
    using assms keeps_parent[OF k] unfolding heap_typed_def cs world_ok_def
    by (auto simp: put_span_def)
  moreover have "known_ids (put_span i (s', d') w) = known_ids w"
    using assms(2) by (auto simp: put_span_def)
  ultimately show "world_ok n (put_span i (s', d') w)"
    using assms(1) by (simp add: world_ok_def ids_left_def fresh_id_def put_span_def)
qed

text \<open>A new span, and new contexts that are linked.\<close>

lemma world_ok_new:
  assumes w: "world_ok (Suc n) w"
    and spans: "h_spans (w_heap w') = (h_spans (w_heap w))(fresh_id w \<mapsto> (s, d))"
    and s: "sp_id s = fresh_id w" "sp_events s \<noteq> []" "same_parser (sp_events s)"
    and ctxs: "set (h_contexts (w_heap w')) \<subseteq> set (h_contexts (w_heap w)) \<union> Collect (parent_ok (w_heap w))"
    and fresh: "fresh_id w' = fresh_id w + 1"
  shows "world_ok n w'" and "keeps (w_heap w) (w_heap w')"
    and "claim_holds (w_heap w') (fresh_id w, span_GetType d, GetStartingTs s)"
proof -
  have left: "ids_left (Suc n) w" using w by (simp add: world_ok_def)
  have "fresh_id w \<notin> known_ids w" using left by (auto simp: ids_left_def)
  then show k: "keeps (w_heap w) (w_heap w')"
    by (intro keepsI) (auto simp: spans domIff)
  have "parent_ok (w_heap w) c" if "c \<in> set (h_contexts (w_heap w'))" for c
    using w ctxs that by (auto simp: world_ok_def heap_typed_def)
  then have "heap_typed (w_heap w')"
    using w s keeps_parent[OF k] by (auto simp: heap_typed_def world_ok_def spans)
  moreover have "ids_left n w'" by (rule ids_left_new[OF left fresh]) (simp add: spans)
  ultimately show "world_ok n w'" by (simp add: world_ok_def)
  show "claim_holds (w_heap w') (fresh_id w, span_GetType d, GetStartingTs s)"
    using s(2) by (simp add: claim_holds_def spans)
qed

text \<open>Only the contexts change.\<close>

lemma world_ok_ctxs:
  assumes "world_ok n w" and "h_spans (w_heap w') = h_spans (w_heap w)" and "fresh_id w' = fresh_id w"
    and "set (h_contexts (w_heap w')) \<subseteq> set (h_contexts (w_heap w)) \<union> Collect (parent_ok (w_heap w))"
  shows "world_ok n w'" and "keeps (w_heap w) (w_heap w')"
proof -
  show k: "keeps (w_heap w) (w_heap w')" by (simp add: keeps_def claim_holds_def assms(2))
  have "parent_ok (w_heap w) c" if "c \<in> set (h_contexts (w_heap w'))" for c
    using assms(1,4) that by (auto simp: world_ok_def heap_typed_def)
  then show "world_ok n w'"
    using assms(1-3) keeps_parent[OF k] by (auto simp: world_ok_def heap_typed_def ids_left_def)
qed

section \<open>Starting spans\<close>

lemma create_span_new:
  assumes "create_span env a e args w = Inr (i, w')"
  shows "\<exists>s d. i = fresh_id w \<and> h_spans (w_heap w') = (h_spans (w_heap w))(i \<mapsto> (s, d)) \<and>
    sp_id s = i \<and> sp_events s = [e] \<and> span_GetType d = span_GetType (sa_data args) \<and>
    h_contexts (w_heap w') = h_contexts (w_heap w) \<and> fresh_id w' = fresh_id w + 1"
proof -
  let ?s = "EventSpan_fresh (fresh_id w) (sa_source_id args) a (sa_service_name args)"
  obtain c s d where s: "AddToSpan env (Some e) (?s, sa_data args) = Inr (True, s, d)"
    and w': "i = fresh_id w" "c = (h_counters (w_heap w))\<lparr>next_span_id := fresh_id w + 1\<rparr>"
      "w' = put_span (fresh_id w) (s, d) (w\<lparr>w_heap := (w_heap w)\<lparr>h_counters := c\<rparr>\<rparr>)"
    using assms by (auto simp: create_span_def EventSpan_new_fresh fresh_id_def rbind_eq_Inr)
  have "sp_events s = [e]" "sp_id s = fresh_id w"
    using add_frame_events[OF conjunct1[OF AddToSpan_frame[OF s]]] by (auto simp: EventSpan_fresh_def)
  then show ?thesis
    using w' AddToSpan_class[OF s] by (auto simp: put_span_def fresh_id_def)
qed

lemma RegisterCreateContextParent_linked:
  assumes "RegisterCreateContextParent t p ts w = Inr (a, w')"
  shows "\<exists>c. h_contexts (w_heap w') = h_contexts (w_heap w) @ [c] \<and> tc_parent_id c = p \<and>
    tc_parent_start_ts c = ts \<and> tc_trace_id c = t \<and> tc_has_parent c"
  using assms
  by (auto simp: RegisterCreateContextParent_def take_context_id_def GetNextTraceContextId_def
      TraceContext_child_def alloc_ctx_def rbind_eq_Inr)

definition started :: "nat \<Rightarrow> event \<Rightarrow> span_args \<Rightarrow> 'x world \<Rightarrow> u64 \<times> 'x world \<Rightarrow> bool" where
  "started n e args w =
     (\<lambda>(i, w'). world_ok n w' \<and> keeps (w_heap w) (w_heap w') \<and>
        claim_holds (w_heap w') (i, span_GetType (sa_data args), GetTs e))"

lemma StartSpanByParentInternal_linked:
  assumes "world_ok (Suc n) w" and "claim_holds (w_heap w) (p, k, ts)"
  shows "gives (StartSpanByParentInternal env t p ts e args w) (started n e args w)"
proof -
  have "started n e args w (i, w')"
    if run: "StartSpanByParentInternal env t p ts e args w = Inr (i, w')" for i w'
  proof -
    obtain a w1 w2 where steps: "RegisterCreateContextParent t p ts w = Inr (a, w1)"
        "create_span env a e args w1 = Inr (i, w2)" "AddSpanToTraceIfTraceExists t i w2 = Inr w'"
      using run by (auto simp: StartSpanByParentInternal_def rbind_eq_Inr)
    obtain c where c: "h_contexts (w_heap w1) = h_contexts (w_heap w) @ [c]" "tc_parent_id c = p"
        "tc_parent_start_ts c = ts"
      using RegisterCreateContextParent_linked[OF steps(1)] by blast
    note w1 = RegisterCreateContextParent_keeps[OF steps(1)]
    note w' = AddSpanToTrace_keeps[OF steps(3)]
    obtain s d where sd: "i = fresh_id w" "h_spans (w_heap w') = (h_spans (w_heap w))(fresh_id w \<mapsto> (s, d))"
        "sp_id s = fresh_id w" "sp_events s = [e]" "span_GetType d = span_GetType (sa_data args)"
        "h_contexts (w_heap w') = h_contexts (w_heap w1)" "fresh_id w' = fresh_id w + 1"
      using create_span_new[OF steps(2)] w1(2,3) w'(1,2) by auto
    have "parent_ok (w_heap w) c" using assms(2) c by (auto simp: parent_ok_def)
    then have "set (h_contexts (w_heap w')) \<subseteq> set (h_contexts (w_heap w)) \<union> Collect (parent_ok (w_heap w))"
      using sd(6) c(1) by auto
    then show ?thesis
      using world_ok_new[OF assms(1) sd(2,3) _ _ _ sd(7)] sd(1,4,5)
      by (simp add: started_def GetStartingTs_def)
  qed
  then show ?thesis by (auto simp: gives_def)
qed

lemma heap_typed_claim:
  assumes "heap_typed h" and "h_spans h p = Some (s, d)"
  shows "claim_holds h (p, span_GetType d, GetStartingTs s)" and "sp_id s = p"
  using assms by (auto simp: heap_typed_def claim_holds_def)

lemma StartSpanByParent_linked:
  assumes "world_ok (Suc n) w"
  shows "gives (StartSpanByParent env p (Some e) args w) (started n e args w)"
proof -
  have "started n e args w (i, w')" if run: "StartSpanByParent env p (Some e) args w = Inr (i, w')" for i w'
  proof -
    obtain q s d t where q: "h_spans (w_heap w) q = Some (s, d)"
        "StartSpanByParentInternal env t (sp_id s) (GetStartingTs s) e args w = Inr (i, w')"
      using run by (auto simp: StartSpanByParent_def get_span_def GetValidId_def rbind_eq_Inr)
    have "claim_holds (w_heap w) (sp_id s, span_GetType d, GetStartingTs s)"
      using heap_typed_claim[OF _ q(1)] assms by (simp add: world_ok_def)
    then show ?thesis using givesD[OF StartSpanByParentInternal_linked[OF assms] q(2)] by simp
  qed
  then show ?thesis by (auto simp: gives_def)
qed

lemma StartSpanByParentPassOnContext_linked:
  assumes "world_ok (Suc n) w" and "con_ok (w_heap w) con"
  shows "gives (StartSpanByParentPassOnContext env (Some con) (Some e) args w) (started n e args w)"
proof -
  obtain k where "claim_holds (w_heap w) (cx_parent_id con, k, cx_parent_start_ts con)"
    using assms(2) by (auto simp: con_ok_def)
  then show ?thesis
    using StartSpanByParentInternal_linked[OF assms(1)]
    by (simp add: StartSpanByParentPassOnContext_def Context_HasParent_def)
qed

lemma StartSpan_linked:
  assumes "world_ok (Suc n) w"
  shows "gives (StartSpan env (Some e) args w) (started n e args w)"
proof -
  have "started n e args w (i, w')" if run: "StartSpan env (Some e) args w = Inr (i, w')" for i w'
  proof -
    obtain t w1 where w1: "take_trace_id w = (t, w1)" by (cases "take_trace_id w")
    obtain x w2 where w2: "take_context_id w1 = (x, w2)" by (cases "take_context_id w1")
    obtain a w3 where w3: "alloc_ctx (TraceContext_root t x) w2 = (a, w3)"
      by (cases "alloc_ctx (TraceContext_root t x) w2")
    obtain tr w4 where steps: "create_span env a e args w3 = Inr (i, w4)" "InsertTrace tr w4 = Inr w'"
      using run w1 w2 w3
      by (auto simp: StartSpan_def StartSpanInternal_def RegisterCreateContext_def rbind_eq_Inr)
    have w4: "w_heap w' = w_heap w4" "fresh_id w' = fresh_id w4"
      using steps(2) by (auto simp: InsertTrace_def rbind_eq_Inr fresh_id_def)
    have ctx: "h_contexts (w_heap w3) = h_contexts (w_heap w) @ [TraceContext_root t x]"
      using w3 take_context_id_keeps(1)[OF w2] take_trace_id_keeps(1)[OF w1] by (auto simp: alloc_ctx_def)
    obtain s d where sd: "i = fresh_id w" "h_spans (w_heap w') = (h_spans (w_heap w))(fresh_id w \<mapsto> (s, d))"
        "sp_id s = fresh_id w" "sp_events s = [e]" "span_GetType d = span_GetType (sa_data args)"
        "h_contexts (w_heap w') = h_contexts (w_heap w3)" "fresh_id w' = fresh_id w + 1"
      using create_span_new[OF steps(1)] alloc_ctx_keeps[OF w3] take_context_id_keeps[OF w2]
        take_trace_id_keeps[OF w1] w4
      by auto
    have "set (h_contexts (w_heap w')) \<subseteq> set (h_contexts (w_heap w)) \<union> Collect (parent_ok (w_heap w))"
      using sd(6) ctx by (auto simp: TraceContext_root_def parent_ok_def)
    then show ?thesis
      using world_ok_new[OF assms sd(2,3) _ _ _ sd(7)] sd(1,4,5)
      by (simp add: started_def GetStartingTs_def)
  qed
  then show ?thesis by (auto simp: gives_def)
qed

section \<open>Updating and finishing spans\<close>

definition updated :: "nat \<Rightarrow> 'x world \<Rightarrow> 'x world \<Rightarrow> bool" where
  "updated n w w' = (world_ok n w' \<and> keeps (w_heap w) (w_heap w'))"

lemma updated_refl: "world_ok n w \<Longrightarrow> updated n w w"
  by (simp add: updated_def)

lemma ptr_AddToSpan_linked:
  assumes "world_ok n w"
  shows "gives (ptr_AddToSpan env i e w) (\<lambda>(added, w'). updated n w w')"
proof -
  have "updated n w w'" if run: "ptr_AddToSpan env i e w = Inr (added, w')" for added w'
  proof -
    obtain s d s' d' where a: "h_spans (w_heap w) i = Some (s, d)"
        "AddToSpan env (Some e) (s, d) = Inr (added, s', d')" "w' = put_span i (s', d') w"
      using run by (auto simp: ptr_AddToSpan_def get_span_def rbind_eq_Inr)
    have "sp_id s' = sp_id s"
        "\<exists>es. sp_events s' = sp_events s @ es \<and> (same_parser (sp_events s) \<longrightarrow> same_parser (sp_events s @ es))"
      using AddToSpan_frame[OF a(2)]
      by (auto simp: add_frame_def same_parser_snoc IsPotentialAdd_iff split: if_splits)
    then show ?thesis
      using world_ok_put[OF assms a(1)] AddToSpan_class[OF a(2)] a(3) by (auto simp: updated_def)
  qed
  then show ?thesis by (auto simp: gives_def)
qed

lemma ptr_MarkAsDone_linked:
  assumes "world_ok n w"
  shows "gives (ptr_MarkAsDone i w) (updated n w)"
proof -
  have "updated n w w'" if run: "ptr_MarkAsDone i w = Inr w'" for w'
  proof -
    obtain s d where a: "h_spans (w_heap w) i = Some (s, d)" "w' = put_span i (MarkAsDone (s, d)) w"
      using run by (auto simp: ptr_MarkAsDone_def get_span_def rbind_eq_Inr)
    obtain d' where d': "MarkAsDone (s, d) = (set_pending False s, d')" by (cases d) auto
    then show ?thesis
      using world_ok_put[OF assms a(1), of "set_pending False s" "[]" d'] MarkAsDone_class[of "(s, d)"] a(2)
      by (simp add: updated_def)
  qed
  then show ?thesis by (simp add: gives_def)
qed

lemma MarkSpanAsWaitingForParent_heap:
  "MarkSpanAsWaitingForParent i w = Inr w' \<Longrightarrow> w_heap w' = w_heap w"
  by (auto simp: MarkSpanAsWaitingForParent_def rbind_eq_Inr split: if_splits option.splits)

lemma export_waiter_heap: "export_waiter xp i w = Inr w' \<Longrightarrow> w_heap w' = w_heap w"
  by (auto simp: export_waiter_def call_exporter_def MarkSpanAsExported_def InsertExportedSpan_def
      rbind_eq_Inr)

lemma ExportWaitingForParentVec_heap:
  "ExportWaitingForParentVec n xp p w = Inr w' \<Longrightarrow> w_heap w' = w_heap w"
  "ExportWaiters n xp ps w = Inr w' \<Longrightarrow> w_heap w' = w_heap w"
proof (induction n xp p w and n xp ps w arbitrary: w' and w'
    rule: ExportWaitingForParentVec_ExportWaiters.induct)
  case (2 n xp p w)
  show ?case
  proof (cases "map_of (w_waiting w) p")
    case (Some ws)
    then obtain w1 where "ExportWaiters n xp ws w = Inr w1" "w_heap w' = w_heap w1"
      using 2(2) by (auto simp: rbind_eq_Inr)
    then show ?thesis by (metis 2(1)[OF Some])
  qed (use 2(2) in simp)
next
  case (4 n xp i js w)
  obtain w1 w2 where s: "export_waiter xp i w = Inr w1" "ExportWaitingForParentVec n xp i w1 = Inr w2"
      "ExportWaiters n xp js w2 = Inr w'"
    using 4(3) by (auto simp: rbind_eq_Inr)
  have "w_heap w2 = w_heap w1" by (rule 4(1)[OF s(2)])
  moreover have "w_heap w' = w_heap w2" by (rule 4(2)[OF s(3)])
  ultimately show ?case by (metis export_waiter_heap[OF s(1)])
qed simp_all

lemma MarkSpanAsDone_heap:
  assumes "MarkSpanAsDone xp i w = Inr w'"
  shows "w_heap w' = w_heap w"
proof -
  have hp: "gives (MarkSpanAsExported j v) (\<lambda>v'. w_heap v' = w_heap v)"
    "gives (call_exporter xp j v) (\<lambda>v'. w_heap v' = w_heap v)"
    "gives (delete_trace_if_safe t v) (\<lambda>v'. w_heap v' = w_heap v)"
    "gives (MarkSpanAsWaitingForParent j v) (\<lambda>v'. w_heap v' = w_heap v)" for j v t
    using MarkSpanAsWaitingForParent_heap
    by (fastforce simp: gives_def MarkSpanAsExported_def InsertExportedSpan_def call_exporter_def
        delete_trace_if_safe_def RemoveTrace_def rbind_eq_Inr split: if_splits)+
  have ex: "gives (ExportWaitingForParentVec n xp j v) (\<lambda>v'. w_heap v' = w_heap v)" for n j v
    unfolding gives_def by (blast intro: ExportWaitingForParentVec_heap(1))
  obtain j s d a c was where st: "i = Some j" "get_span j (w_heap w) = Inr (s, d)"
      "sp_trace_context s = Some a" "get_ctx a (w_heap w) = Inr c" "WasParentExported j w = Inr was"
    using assms by (auto simp: MarkSpanAsDone_def rbind_eq_Inr)
  show ?thesis
  proof (cases was)
    case True
    then obtain w1 w2 w3 where "MarkSpanAsExported j w = Inr w1" "call_exporter xp j w1 = Inr w2"
        "ExportWaitingForParentVec (export_fuel w2) xp j w2 = Inr w3"
        "delete_trace_if_safe (tc_trace_id c) w3 = Inr w'"
      using assms st by (auto simp: MarkSpanAsDone_def rbind_eq_Inr)
    then show ?thesis using givesD[OF hp(1)] givesD[OF hp(2)] givesD[OF ex] givesD[OF hp(3)] by metis
  next
    case False
    then have "MarkSpanAsWaitingForParent j w = Inr w'"
      using assms st by (auto simp: MarkSpanAsDone_def rbind_eq_Inr)
    then show ?thesis using givesD[OF hp(4)] by metis
  qed
qed

lemma MarkSpanAsDone_linked:
  assumes "world_ok n w"
  shows "gives (MarkSpanAsDone xp i w) (updated n w)"
  using MarkSpanAsDone_heap assms
  by (fastforce simp: gives_def updated_def world_ok_def ids_left_def fresh_id_def)

section \<open>Received contexts\<close>

lemma con_okE:
  assumes "con_ok h con"
  obtains k where "claim_holds h (cx_parent_id con, k, cx_parent_start_ts con)"
  using assms by (auto simp: con_ok_def)

lemma move_to_trace_linked:
  assumes "world_ok n w" and "move_to_trace t j w = Inr w'"
  shows "updated n w w'"
proof -
  obtain a c where st: "get_ctx a (w_heap w) = Inr c"
      "AddSpanToTraceIfTraceExists t j (put_ctx a (SetTraceId t c) w) = Inr w'"
    using assms(2) by (auto simp: move_to_trace_def rbind_eq_Inr)
  have c: "c \<in> set (h_contexts (w_heap w))" using st(1) by (auto simp: get_ctx_def split: if_splits)
  have "set (h_contexts (w_heap w')) \<subseteq> insert (SetTraceId t c) (set (h_contexts (w_heap w)))"
    using AddSpanToTrace_keeps(1)[OF st(2)] set_update_subset_insert by (simp add: put_ctx_def)
  moreover have "parent_ok (w_heap w) (SetTraceId t c)"
    using assms(1) c by (auto simp: world_ok_def heap_typed_def parent_ok_def SetTraceId_def)
  ultimately show ?thesis
    using world_ok_ctxs[OF assms(1), of w'] move_to_trace_keeps[OF assms(2)] by (auto simp: updated_def)
qed

lemma updated_trans: "updated n w w1 \<Longrightarrow> updated m w1 w2 \<Longrightarrow> updated m w w2"
  using keeps_trans by (auto simp: updated_def)

lemma updated_world: "updated n w w' \<Longrightarrow> world_ok n w'"
  by (simp add: updated_def)

lemma move_children_linked:
  "move_children t i js w = Inr w' \<Longrightarrow> world_ok n w \<Longrightarrow> updated n w w'"
proof (induction js arbitrary: w)
  case (Cons j js)
  show ?case
  proof (cases "j = i")
    case False
    then obtain w1 where w1: "move_to_trace t j w = Inr w1" "move_children t i js w1 = Inr w'"
      using Cons.prems(1) by (auto simp: rbind_eq_Inr)
    have u: "updated n w w1" by (rule move_to_trace_linked[OF Cons.prems(2) w1(1)])
    show ?thesis by (rule updated_trans[OF u Cons.IH[OF w1(2) updated_world[OF u]]])
  qed (use Cons in simp)
qed (simp add: updated_refl)

lemma AddParentLazily_linked:
  assumes "world_ok n w" and "con_ok (w_heap w) con"
  shows "gives (AddParentLazily i (Some con) w) (updated n w)"
proof -
  have "updated n w w'" if run: "AddParentLazily i (Some con) w = Inr w'" for w'
  proof -
    obtain j a oc w1 ot w2 where steps':
        "AddSpanToTraceIfTraceExists (cx_trace_id con) j (put_ctx a (SetTraceId (cx_trace_id con) oc
           \<lparr>tc_parent_id := cx_parent_id con, tc_has_parent := True,
            tc_parent_start_ts := cx_parent_start_ts con\<rparr>) w) = Inr w1"
        "move_children (cx_trace_id con) j (tr_spans ot)
           (put_trace (tc_trace_id oc) (ot\<lparr>tr_spans := []\<rparr>) w1) = Inr w2"
        "RemoveTrace (tr_ident ot) w2 = Inr w'"
      using run
      by (clarsimp simp: AddParentLazily_def GetSpansAndRemoveSpans_def SetParentIdAndTs_def rbind_eq_Inr)
    obtain c t ti and em :: Trace and js t' where steps:
        "tc_parent_id c = cx_parent_id con" "tc_parent_start_ts c = cx_parent_start_ts con"
        "AddSpanToTraceIfTraceExists t j (put_ctx a c w) = Inr w1"
        "move_children t j js (put_trace ti em w1) = Inr w2" "RemoveTrace t' w2 = Inr w'"
      by (rule that[OF _ _ steps']) simp_all
    note w1 = AddSpanToTrace_keeps[OF steps(3)]
    obtain k where "claim_holds (w_heap w) (cx_parent_id con, k, cx_parent_start_ts con)"
      using assms(2) by (rule con_okE)
    then have "parent_ok (w_heap w) c" using steps(1,2) by (auto simp: parent_ok_def)
    moreover have "set (h_contexts (w_heap w1)) \<subseteq> insert c (set (h_contexts (w_heap w)))"
      using w1(1) set_update_subset_insert by (simp add: put_ctx_def)
    ultimately have "updated n w w1"
      using world_ok_ctxs[OF assms(1), of w1] w1 by (auto simp: updated_def put_ctx_def fresh_id_def)
    then have u: "updated n w (put_trace ti em w1)"
      by (simp add: updated_def world_ok_def ids_left_def fresh_id_def put_trace_def)
    have "updated n w w2"
      by (rule updated_trans[OF u move_children_linked[OF steps(4) updated_world[OF u]]])
    moreover have "w_heap w' = w_heap w2" using steps(5) by (auto simp: RemoveTrace_def rbind_eq_Inr)
    ultimately show ?thesis by (simp add: updated_def world_ok_def ids_left_def fresh_id_def)
  qed
  then show ?thesis by (simp add: gives_def)
qed

text \<open>The copy of a call span for a further packet that had arrived.\<close>

lemma finish_copy_linked:
  assumes "world_ok (Suc n) w" and "con_ok (w_heap w) con"
  shows "gives (finish_copy xp p con w) (updated n w)"
proof -
  have "updated n w w'" if run: "finish_copy xp p con w = Inr w'" for w'
  proof -
    obtain c w1 w2 w3 where steps: "CloneShared p w = Inr (c, w1)" "ptr_SetOriginal c p w1 = Inr w2"
        "StartSpanSetParentContext c (Some con) w2 = Inr w3" "MarkSpanAsDone xp (Some c) w3 = Inr w'"
      using run by (auto simp: finish_copy_def rbind_eq_Inr)
    obtain s d where sp: "h_spans (w_heap w) p = Some (s, d)"
      using steps(1) by (auto simp: CloneShared_def get_span_def rbind_eq_Inr)
    have evs: "sp_events s \<noteq> [] \<and> same_parser (sp_events s)" using assms(1) sp by (auto simp: world_ok_def heap_typed_def)
    have c: "c = fresh_id w" "fresh_id w1 = fresh_id w + 1"
        "h_spans (w_heap w1) = (h_spans (w_heap w))(c \<mapsto> (s\<lparr>sp_id := c\<rparr>, d))"
        "h_contexts (w_heap w1) = h_contexts (w_heap w)"
      using steps(1) sp
      by (auto simp: CloneShared_def get_span_def EventSpan_copy_def GetNextSpanId_def fresh_id_def
          put_span_def)
    have u1: "updated n w w1"
      using world_ok_new[OF assms(1), of w1 "s\<lparr>sp_id := c\<rparr>" d] c evs by (simp add: updated_def)
    have u2: "updated n w1 w2"
    proof -
      obtain s0 d0 og where "h_spans (w_heap w1) c = Some (s0, d0)"
          "w2 = put_span c (s0\<lparr>sp_original := og\<rparr>, d0) w1"
        using steps(2) by (auto simp: ptr_SetOriginal_def get_span_def SetOriginal_def rbind_eq_Inr)
      then show ?thesis
        using world_ok_put[of n w1 c s0 d0 "s0\<lparr>sp_original := og\<rparr>" "[]" d0] u1 by (simp add: updated_def)
    qed
    have u3: "updated n w2 w3"
    proof -
      obtain a v s0 d0 s3 where set:
          "RegisterCreateContextParent (cx_trace_id con) (cx_parent_id con) (cx_parent_start_ts con) w2
             = Inr (a, v)"
          "h_spans (w_heap v) c = Some (s0, d0)" "SetContext (w_heap v) (Some a) True s0 = Inr (True, s3)"
          "AddSpanToTraceIfTraceExists (cx_trace_id con) c (put_span c (s3, d0) v) = Inr w3"
        using steps(3) by (auto simp: StartSpanSetParentContext_def get_span_def rbind_eq_Inr)
      obtain x where x: "h_contexts (w_heap v) = h_contexts (w_heap w2) @ [x]" "tc_parent_id x = cx_parent_id con"
          "tc_parent_start_ts x = cx_parent_start_ts con"
        using RegisterCreateContextParent_linked[OF set(1)] by blast
      have "con_ok (w_heap w2) con"
        using keeps_con assms(2) u1 u2 keeps_trans unfolding updated_def by blast
      then have "parent_ok (w_heap w2) x" using x by (auto simp: parent_ok_def elim: con_okE)
      then have v: "updated n w2 v"
        using world_ok_ctxs[of n w2 v] RegisterCreateContextParent_keeps[OF set(1)] u2 x(1)
        by (auto simp: updated_def)
      have "s3 = s0\<lparr>sp_trace_context := Some a\<rparr>"
        using set(3) by (auto simp: SetContext_def rbind_eq_Inr split: if_splits)
      then have "updated n v (put_span c (s3, d0) v)"
        using world_ok_put[OF _ set(2), of n s3 "[]" d0] v by (simp add: updated_def)
      then have "updated n w2 (put_span c (s3, d0) v)" by (rule updated_trans[OF v])
      then show ?thesis
        using AddSpanToTrace_keeps[OF set(4)] by (simp add: updated_def world_ok_def ids_left_def)
    qed
    have u: "updated n w w3" by (rule updated_trans[OF updated_trans[OF u1 u2] u3])
    show ?thesis
      by (rule updated_trans[OF u givesD[OF MarkSpanAsDone_linked[OF updated_world[OF u]] steps(4)]])
  qed
  then show ?thesis by (simp add: gives_def)
qed

end
