(* ===== verification/HostCalls.thy ===== *)
theory HostCalls
  imports HostClient
begin

text \<open>
  How the host spanner cuts the calls of a host into spans: as long as no call reaches the
  kernel's receive path, every system call entry but the first finishes the pending call
  span, which is exported as a trace of its own, and starts the next one.
\<close>

section \<open>The specification\<close>

text \<open>
  \<open>seen\<close> tells whether the current span \<open>cur\<close> has its entry already; \<open>entry\<close> recognizes the
  entries.
\<close>

fun cut_calls :: "(event \<Rightarrow> bool) \<Rightarrow> bool \<Rightarrow> event list \<Rightarrow> event list \<Rightarrow> event list list" where
  "cut_calls entry seen cur [] = [cur]"
| "cut_calls entry seen cur (e # es) =
     (if \<not> entry e then cut_calls entry seen (cur @ [e]) es
      else if seen then cur # cut_calls entry True [e] es
      else cut_calls entry True (cur @ [e]) es)"

definition is_entry :: "TraceEnvironment \<Rightarrow> event \<Rightarrow> bool" where
  "is_entry env e = IsSysEntry env (Some e)"

text \<open>A pipeline's consumer, fed with a list of events.\<close>

fun feed :: "('a option \<Rightarrow> 's \<Rightarrow> 's res) \<Rightarrow> 'a list \<Rightarrow> 's \<Rightarrow> 's res" where
  "feed f [] s = Inr s"
| "feed f (e # es) s = rbind (f (Some e) s) (feed f es)"

definition span_events :: "heap \<Rightarrow> u64 \<Rightarrow> event list" where
  "span_events h i = (case h_spans h i of None \<Rightarrow> [] | Some (s, d) \<Rightarrow> sp_events s)"

text \<open>A call event of the given parser that does not reach the receive path.\<close>

definition plain_call :: "TraceEnvironment \<Rightarrow> u64 \<Rightarrow> event \<Rightarrow> bool" where
  "plain_call env p e = (GetType e = kHostCallT \<and> GetParserIdent e = p \<and> \<not> IsKernelRx env (Some e))"

section \<open>Starting a call span\<close>

lemmas start_defs = StartSpan_def StartSpanInternal_def RegisterCreateContext_def take_trace_id_def
  take_context_id_def GetNextTraceId_def GetNextTraceContextId_def GetNextSpanId_def alloc_ctx_def
  TraceContext_root_def GetDefaultId_def create_span_def EventSpan_new_def put_span_def
  Trace_new_def Trace_AddSpan_def InsertTrace_def fresh_id_def

definition next_trace :: "'x world \<Rightarrow> u64" where
  "next_trace w = next_trace_id (h_counters (w_heap w))"

text \<open>The pending call span \<open>p\<close> with the events \<open>cur\<close>, alone in its trace.\<close>

definition call_span :: "u64 \<Rightarrow> bool \<Rightarrow> event list \<Rightarrow> 'x world \<Rightarrow> bool" where
  "call_span p seen cur w =
     (\<exists>s d a c. h_spans (w_heap w) p = Some (s, HostCallD d) \<and> sp_id s = p \<and> sp_events s = cur \<and>
        cur \<noteq> [] \<and> sp_is_pending s \<and> sp_trace_context s = Some a \<and> a < length (h_contexts (w_heap w)) \<and>
        h_contexts (w_heap w) ! a = c \<and> \<not> tc_has_parent c \<and> tc_parent_id c = 0 \<and>
        w_traces w = [(tc_trace_id c, \<lparr>tr_ident = tc_trace_id c, tr_parent_span = p, tr_spans = [p]\<rparr>)] \<and>
        tc_trace_id c < next_trace w \<and>
        (hcs_call_span_entry d \<noteq> None) = seen \<and> \<not> hcs_is_fragmented d \<and> \<not> hcs_kernel_receive d)"

text \<open>The part of the state that does not concern the pending span.\<close>

definition calls_ok :: "('x \<Rightarrow> u64 list \<Rightarrow> bool) \<Rightarrow> event list list \<Rightarrow> nat \<Rightarrow> 'x world \<Rightarrow> bool" where
  "calls_ok known fin n w =
     (w_waiting w = [] \<and> known (w_exporter w) (w_exported w) \<and>
      map (span_events (w_heap w)) (w_exported w) = fin \<and>
      (\<forall>i \<in> set (w_exported w). i < fresh_id w) \<and> fresh_id w \<noteq> 0 \<and>
      unat (fresh_id w) + n < 2 ^ 64 \<and> unat (next_trace w) + n < 2 ^ 64)"

lemma StartSpan_call:
  assumes ok: "calls_ok known fin (Suc n) w" and tr: "w_traces w = []" and e: "GetType e = kHostCallT"
    and norx: "\<not> IsKernelRx env (Some e)"
    and args: "sa_data args = HostCallD (HostCallSpan_init False)"
  shows "\<exists>w'. StartSpan env (Some e) args w = Inr (fresh_id w, w') \<and>
    call_span (fresh_id w) (is_entry env e) [e] w' \<and> calls_ok known fin n w' \<and>
    fresh_id w' = fresh_id w + 1 \<and> w_exported w' = w_exported w"
proof -
  let ?i = "fresh_id w" and ?t = "next_trace w"
  have lt: "unat ?i + 1 < 2 ^ 64" "unat ?t + 1 < 2 ^ 64" using ok by (auto simp: calls_ok_def)
  then have u: "unat (?i + 1) = unat ?i + 1" "unat (?t + 1) = unat ?t + 1"
    by (simp_all add: unat_word_ariths)
  have i: "?i < ?i + 1" "?i + 1 \<noteq> 0" and t: "?t < ?t + 1"
    by (simp_all add: word_less_nat_alt u) (metis Suc_eq_plus1 nat.distinct(1) u(1) unat_0)
  let ?c = "TraceContext_root ?t (next_trace_context_id (h_counters (w_heap w)))"
  let ?a = "length (h_contexts (w_heap w))"
  let ?s0 = "\<lparr>sp_id = ?i, sp_source_id = sa_source_id args, sp_events = [], sp_is_pending = True,
    sp_is_relevant = False, sp_original = None, sp_trace_context = Some ?a,
    sp_service_name = sa_service_name args\<rparr>"
  have "\<exists>s d. AddToSpan env (Some e) (?s0, HostCallD (HostCallSpan_init False)) = Inr (True, s, HostCallD d) \<and>
      sp_id s = ?i \<and> sp_events s = [e] \<and> sp_is_pending s \<and> sp_trace_context s = Some ?a \<and>
      (hcs_call_span_entry d \<noteq> None) = is_entry env e \<and> \<not> hcs_is_fragmented d \<and> \<not> hcs_kernel_receive d"
    using e norx
    by (auto simp: HostCallSpan_AddToSpan_def tag_data_def IsType_def HostCallSpan_init_def is_entry_def
        HostCallSpan_mark_def push_event_def set_pending_def)
  then obtain s d where add: "AddToSpan env (Some e) (?s0, HostCallD (HostCallSpan_init False)) = Inr (True, s, HostCallD d)"
      "sp_id s = ?i" "sp_events s = [e]" "sp_is_pending s" "sp_trace_context s = Some ?a"
      "(hcs_call_span_entry d \<noteq> None) = is_entry env e" "\<not> hcs_is_fragmented d" "\<not> hcs_kernel_receive d"
    by blast
  let ?w' = "w\<lparr>w_heap := (w_heap w)\<lparr>h_spans := (h_spans (w_heap w))(?i \<mapsto> (s, HostCallD d)),
      h_contexts := h_contexts (w_heap w) @ [?c],
      h_counters := (h_counters (w_heap w))\<lparr>next_trace_id := ?t + 1,
        next_trace_context_id := next_trace_context_id (h_counters (w_heap w)) + 1,
        next_span_id := ?i + 1\<rparr>\<rparr>,
      w_traces := [(?t, \<lparr>tr_ident = ?t, tr_parent_span = ?i, tr_spans = [?i]\<rparr>)]\<rparr>"
  have "StartSpan env (Some e) args w = Inr (?i, ?w')"
    using add(1) tr args
    by (simp add: start_defs next_trace_def EventSpan_new_def GetNextSpanId_def)
  moreover have "call_span ?i (is_entry env e) [e] ?w'"
    using add t by (auto simp: call_span_def TraceContext_root_def GetDefaultId_def next_trace_def)
  moreover have "calls_ok known fin n ?w'"
  proof -
    have ex: "j < ?i" if "j \<in> set (w_exported w)" for j using ok that by (simp add: calls_ok_def)
    then have "j \<noteq> ?i \<and> j < ?i + 1" if "j \<in> set (w_exported w)" for j
      using that i(1) by (metis order.strict_trans order_less_irrefl)
    then show ?thesis
      using ok u i(2) by (auto simp: calls_ok_def fresh_id_def next_trace_def span_events_def)
  qed
  ultimately show ?thesis by (intro exI[of _ ?w']) (simp add: fresh_id_def)
qed

section \<open>Offering a call to the pending span\<close>

text \<open>Any call but an entry after the entry is added.\<close>

lemma AddToSpan_more:
  assumes cs: "call_span p seen cur w" and e: "plain_call env (GetParserIdent (hd cur)) e"
    and more: "\<not> is_entry env e \<or> \<not> seen"
  shows "\<exists>w'. ptr_AddToSpan env p e w = Inr (True, w') \<and>
    call_span p (seen \<or> is_entry env e) (cur @ [e]) w' \<and>
    (\<forall>i. i \<noteq> p \<longrightarrow> h_spans (w_heap w') i = h_spans (w_heap w) i) \<and> fresh_id w' = fresh_id w \<and>
    next_trace w' = next_trace w \<and> w_exported w' = w_exported w \<and> w_waiting w' = w_waiting w \<and>
    w_exporter w' = w_exporter w"
proof -
  obtain s d a c where sp: "h_spans (w_heap w) p = Some (s, HostCallD d)" "sp_id s = p"
      "sp_events s = cur" "cur \<noteq> []" "sp_is_pending s" "sp_trace_context s = Some a"
      "a < length (h_contexts (w_heap w))" "h_contexts (w_heap w) ! a = c" "\<not> tc_has_parent c"
      "tc_parent_id c = 0"
      "w_traces w = [(tc_trace_id c, \<lparr>tr_ident = tc_trace_id c, tr_parent_span = p, tr_spans = [p]\<rparr>)]"
      "tc_trace_id c < next_trace w" "(hcs_call_span_entry d \<noteq> None) = seen" "\<not> hcs_is_fragmented d"
      "\<not> hcs_kernel_receive d"
    using cs by (auto simp: call_span_def)
  have "\<exists>s' d'. AddToSpan env (Some e) (s, HostCallD d) = Inr (True, s', HostCallD d') \<and>
      sp_id s' = p \<and> sp_events s' = cur @ [e] \<and> sp_is_pending s' \<and> sp_trace_context s' = Some a \<and>
      (hcs_call_span_entry d' \<noteq> None) = (seen \<or> is_entry env e) \<and> \<not> hcs_is_fragmented d' \<and>
      \<not> hcs_kernel_receive d'"
    using sp e more
    by (auto simp: HostCallSpan_AddToSpan_def tag_data_def IsType_def is_entry_def plain_call_def
        HostCallSpan_mark_def)
  then obtain s' d' where add: "AddToSpan env (Some e) (s, HostCallD d) = Inr (True, s', HostCallD d')"
      "sp_id s' = p" "sp_events s' = cur @ [e]" "sp_is_pending s'" "sp_trace_context s' = Some a"
      "(hcs_call_span_entry d' \<noteq> None) = (seen \<or> is_entry env e)" "\<not> hcs_is_fragmented d'"
      "\<not> hcs_kernel_receive d'"
    by blast
  have "ptr_AddToSpan env p e w = Inr (True, put_span p (s', HostCallD d') w)"
    using sp(1) add(1) by (simp add: ptr_AddToSpan_def get_span_def)
  then show ?thesis
    using sp add by (auto simp: call_span_def put_span_def fresh_id_def next_trace_def)
qed

text \<open>An entry after the entry completes the span without being added.\<close>

lemma AddToSpan_entry:
  assumes cs: "call_span p True cur w" and e: "plain_call env (GetParserIdent (hd cur)) e"
    and entry: "is_entry env e"
  shows "\<exists>s' d' a c. ptr_AddToSpan env p e w = Inr (False, put_span p (s', HostCallD d') w) \<and>
    sp_id s' = p \<and> sp_events s' = cur \<and> cur \<noteq> [] \<and> \<not> sp_is_pending s' \<and> sp_trace_context s' = Some a \<and>
    a < length (h_contexts (w_heap w)) \<and> h_contexts (w_heap w) ! a = c \<and> \<not> tc_has_parent c \<and>
    tc_parent_id c = 0 \<and>
    w_traces w = [(tc_trace_id c, \<lparr>tr_ident = tc_trace_id c, tr_parent_span = p, tr_spans = [p]\<rparr>)] \<and>
    \<not> hcs_kernel_receive d'"
proof -
  obtain s d a c where sp: "h_spans (w_heap w) p = Some (s, HostCallD d)" "sp_id s = p"
      "sp_events s = cur" "cur \<noteq> []" "sp_is_pending s" "sp_trace_context s = Some a"
      "a < length (h_contexts (w_heap w))" "h_contexts (w_heap w) ! a = c" "\<not> tc_has_parent c"
      "tc_parent_id c = 0"
      "w_traces w = [(tc_trace_id c, \<lparr>tr_ident = tc_trace_id c, tr_parent_span = p, tr_spans = [p]\<rparr>)]"
      "hcs_call_span_entry d \<noteq> None" "\<not> hcs_kernel_receive d"
    using cs by (auto simp: call_span_def)
  let ?d = "d\<lparr>hcs_syscall_return := Some (last (sp_events s)), hcs_is_fragmented := False\<rparr>"
  have "ptr_AddToSpan env p e w = Inr (False, put_span p (set_pending False s, HostCallD ?d) w)"
    using sp e entry
    by (auto simp: HostCallSpan_AddToSpan_def tag_data_def IsType_def is_entry_def plain_call_def
        ptr_AddToSpan_def get_span_def)
  then show ?thesis
    using sp by (intro exI[of _ "set_pending False s"] exI[of _ ?d] exI[of _ a] exI[of _ c]) simp
qed

section \<open>Finishing the pending span\<close>

context event_exporter
begin

lemma MarkSpanAsDone_root:
  assumes ok: "calls_ok known fin n w" and sp: "h_spans (w_heap w) p = Some (s, d)" "sp_id s = p"
      "sp_events s = cur" "cur \<noteq> []" "list_all event_ok cur"
    and ctx: "sp_trace_context s = Some a" "a < length (h_contexts (w_heap w))"
      "h_contexts (w_heap w) ! a = c" "\<not> tc_has_parent c" "tc_parent_id c = 0"
    and tr: "w_traces w = [(tc_trace_id c, \<lparr>tr_ident = tc_trace_id c, tr_parent_span = p, tr_spans = [p]\<rparr>)]"
    and p: "p \<notin> set (w_exported w)" "p \<noteq> 0" "p < fresh_id w"
  shows "\<exists>x'. MarkSpanAsDone xp (Some p) w =
      Inr (w\<lparr>w_exported := w_exported w @ [p], w_exporter := x', w_traces := []\<rparr>) \<and>
    calls_ok known (fin @ [cur]) n (w\<lparr>w_exported := w_exported w @ [p], w_exporter := x', w_traces := []\<rparr>)"
proof -
  have con: "ctx_consistent c" using ctx by (simp add: ctx_consistent_def)
  have ok_p: "span_ok (w_heap w) p" "parent_of (w_heap w) p = None"
    using sp(1) ctx con by (simp_all add: span_ok_def parent_of_def)
  have ex: "exportable (s, d)" using exportable_events sp by simp
  obtain x' where x': "xp (w_heap w) p (w_exporter w) = Inr x'" "known x' (w_exported w @ [p])"
    using exports[of "w_exporter w" "w_exported w" "w_heap w" p "(s, d)"] ok ok_p sp(1,2) ex p
    by (auto simp: calls_ok_def)
  have hp: "HasParent (w_heap w) s = Inr False" "GetParentId (w_heap w) s = Inr 0"
    using ctx con by (simp_all add: HasParent_def GetParentId_def get_ctx_def ctx_HasParent_def)
  have "MarkSpanAsDone xp (Some p) w =
      Inr (w\<lparr>w_exported := w_exported w @ [p], w_exporter := x', w_traces := []\<rparr>)"
    using sp(1) ctx hp x'(1) p(1,2) tr ok
    by (simp add: MarkSpanAsDone_def get_span_def get_ctx_def WasParentExported_def
        MarkSpanAsExported_def InsertExportedSpan_def IsValidId_def kInvalidId_def
        assert_parent_exported_def call_exporter_def export_fuel_def calls_ok_def
        delete_trace_if_safe_def GetTrace_def SafeToDeleteTrace_def RemoveTrace_def)
  moreover have "calls_ok known (fin @ [cur]) n
      (w\<lparr>w_exported := w_exported w @ [p], w_exporter := x', w_traces := []\<rparr>)"
    using ok x'(2) sp(1,3) p(3) by (auto simp: calls_ok_def span_events_def fresh_id_def next_trace_def)
  ultimately show ?thesis by blast
qed

section \<open>One call\<close>

definition calls_inv ::
  "u64 \<Rightarrow> event list list \<Rightarrow> bool \<Rightarrow> event list \<Rightarrow> nat \<Rightarrow> HostSpanner \<Rightarrow> 'x sys \<Rightarrow> bool"
where
  "calls_inv q fin seen cur n hs y =
     (\<exists>p. hs_pending_call hs = Some p \<and> call_span p seen cur (sy_world y) \<and>
        calls_ok known fin n (sy_world y) \<and> p \<notin> set (w_exported (sy_world y)) \<and> p \<noteq> 0 \<and>
        p < fresh_id (sy_world y) \<and> list_all event_ok cur \<and> GetParserIdent (hd cur) = q)"

text \<open>Starting the next span on a state without a pending one.\<close>

lemma calls_inv_start:
  assumes "calls_ok known fin (Suc n) (sy_world y)" and "w_traces (sy_world y) = []"
    and "plain_call env q e" and "event_ok e"
  shows "\<exists>p w'. StartSpan env (Some e) (host_args hs e (HostCallD (HostCallSpan_init False))) (sy_world y)
      = Inr (p, w') \<and>
    calls_inv q fin (is_entry env e) [e] n
      (hs\<lparr>hs_pending_call := Some p, hs_last_trace_starting_span := Some p, hs_pci_write_before := False\<rparr>)
      (y\<lparr>sy_world := w'\<rparr>)"
proof -
  let ?w = "sy_world y" and ?args = "host_args hs e (HostCallD (HostCallSpan_init False))"
  obtain w' where w': "StartSpan env (Some e) ?args ?w = Inr (fresh_id ?w, w')"
      "call_span (fresh_id ?w) (is_entry env e) [e] w'" "calls_ok known fin n w'"
      "fresh_id w' = fresh_id ?w + 1" "w_exported w' = w_exported ?w"
    using StartSpan_call[OF assms(1,2), of e env ?args] assms(3)
    by (auto simp: plain_call_def host_args_def spanner_args_def)
  have old: "\<forall>i \<in> set (w_exported ?w). i < fresh_id ?w" "fresh_id ?w \<noteq> 0" "unat (fresh_id ?w) + 1 < 2 ^ 64"
    using assms(1) by (auto simp: calls_ok_def)
  have "fresh_id ?w < fresh_id ?w + 1"
    using old(3) by (simp add: word_less_nat_alt unat_word_ariths)
  then show ?thesis
    using w' old(1,2) assms(3,4) by (auto simp: calls_inv_def plain_call_def)
qed

lemma calls_inv_step:
  assumes inv: "calls_inv q fin seen cur (Suc n) hs y" and e: "plain_call env q e" "event_ok e"
  shows "\<exists>b hs' y' fin' seen' cur'. Host_HandelCall env xp e (hs, y) = Inr (b, hs', y') \<and>
    calls_inv q fin' seen' cur' n hs' y' \<and>
    (\<forall>es. fin' @ cut_calls (is_entry env) seen' cur' es = fin @ cut_calls (is_entry env) seen cur (e # es))"
proof -
  obtain p where p: "hs_pending_call hs = Some p" "call_span p seen cur (sy_world y)"
      "calls_ok known fin (Suc n) (sy_world y)" "p \<notin> set (w_exported (sy_world y))" "p \<noteq> 0"
      "p < fresh_id (sy_world y)" "list_all event_ok cur" "GetParserIdent (hd cur) = q"
    using inv by (auto simp: calls_inv_def)
  have cur: "cur \<noteq> []" using p(2) by (auto simp: call_span_def)
  show ?thesis
  proof (cases "is_entry env e \<and> seen")
    case False
    then obtain w' where w': "ptr_AddToSpan env p e (sy_world y) = Inr (True, w')"
        "call_span p (seen \<or> is_entry env e) (cur @ [e]) w'"
        "\<forall>i. i \<noteq> p \<longrightarrow> h_spans (w_heap w') i = h_spans (w_heap (sy_world y)) i"
        "fresh_id w' = fresh_id (sy_world y)" "next_trace w' = next_trace (sy_world y)"
        "w_exported w' = w_exported (sy_world y)" "w_waiting w' = w_waiting (sy_world y)"
        "w_exporter w' = w_exporter (sy_world y)"
      using AddToSpan_more[OF p(2), of env e] e(1) p(8) by auto
    let ?hs = "hs\<lparr>hs_pci_write_before := is_pci_write env (Some e)\<rparr>"
    have "Host_HandelCall env xp e (hs, y) = Inr (True, ?hs, y\<lparr>sy_world := w'\<rparr>)"
      using p(1) w'(1) by (simp add: Host_HandelCall_def on_world_def)
    moreover have "i \<in> set (w_exported (sy_world y)) \<Longrightarrow>
        span_events (w_heap w') i = span_events (w_heap (sy_world y)) i" for i
      using p(4) w'(3) by (cases "i = p") (auto simp: span_events_def)
    then have "map (span_events (w_heap w')) (w_exported w') = fin"
      using p(3) w'(6) by (auto simp: calls_ok_def)
    then have "calls_ok known fin n w'"
      using p(3) w'(4-8) by (simp add: calls_ok_def)
    then have "calls_inv q fin (seen \<or> is_entry env e) (cur @ [e]) n ?hs (y\<lparr>sy_world := w'\<rparr>)"
      using p w' e(2) cur by (simp add: calls_inv_def)
    moreover have "\<forall>es. fin @ cut_calls (is_entry env) (seen \<or> is_entry env e) (cur @ [e]) es =
        fin @ cut_calls (is_entry env) seen cur (e # es)"
      using False by auto
    ultimately show ?thesis by blast
  next
    case True
    then have cs: "call_span p True cur (sy_world y)" using p(2) by simp
    obtain s' d' a c where add: "ptr_AddToSpan env p e (sy_world y) = Inr (False, put_span p (s', HostCallD d') (sy_world y))"
        "sp_id s' = p" "sp_events s' = cur" "\<not> sp_is_pending s'" "sp_trace_context s' = Some a"
        "a < length (h_contexts (w_heap (sy_world y)))" "h_contexts (w_heap (sy_world y)) ! a = c"
        "\<not> tc_has_parent c" "tc_parent_id c = 0"
        "w_traces (sy_world y) = [(tc_trace_id c, \<lparr>tr_ident = tc_trace_id c, tr_parent_span = p, tr_spans = [p]\<rparr>)]"
        "\<not> hcs_kernel_receive d'"
      using AddToSpan_entry[OF cs] e(1) p(8) True by blast
    let ?w1 = "put_span p (s', HostCallD d') (sy_world y)"
    have at: "h_spans (w_heap ?w1) p = Some (s', HostCallD d')" by (simp add: put_span_def)
    have "map (span_events (w_heap ?w1)) (w_exported (sy_world y)) = fin"
      using p(3,4) by (auto simp: calls_ok_def span_events_def put_span_def)
    then have ok1: "calls_ok known fin (Suc n) ?w1"
      using p(3) by (simp add: calls_ok_def put_span_def fresh_id_def next_trace_def)
    let ?y1 = "y\<lparr>sy_world := ?w1\<rparr>"
    obtain x' where fin: "MarkSpanAsDone xp (Some p) ?w1 =
          Inr (?w1\<lparr>w_exported := w_exported ?w1 @ [p], w_exporter := x', w_traces := []\<rparr>)"
        "calls_ok known (fin @ [cur]) (Suc n)
          (?w1\<lparr>w_exported := w_exported ?w1 @ [p], w_exporter := x', w_traces := []\<rparr>)"
      using MarkSpanAsDone_root[OF ok1 at add(2,3) cur p(7) add(5)] add(6-10) p(4-6)
      by (auto simp: put_span_def fresh_id_def)
    let ?w2 = "?w1\<lparr>w_exported := w_exported ?w1 @ [p], w_exporter := x', w_traces := []\<rparr>"
    have finish: "FinishPendingSpan xp hs ?y1 = Inr (?y1\<lparr>sy_world := ?w2\<rparr>)"
      using p(1) fin(1) add(11) at
      by (simp add: FinishPendingSpan_def ptr_data_def get_span_def upd_world_def)
    obtain p' w' where start: "StartSpan env (Some e) (host_args hs e (HostCallD (HostCallSpan_init False)))
          (sy_world (?y1\<lparr>sy_world := ?w2\<rparr>)) = Inr (p', w')"
        "calls_inv q (fin @ [cur]) (is_entry env e) [e] n
          (hs\<lparr>hs_pending_call := Some p', hs_last_trace_starting_span := Some p', hs_pci_write_before := False\<rparr>)
          ((?y1\<lparr>sy_world := ?w2\<rparr>)\<lparr>sy_world := w'\<rparr>)"
      using calls_inv_start[of "fin @ [cur]" n "?y1\<lparr>sy_world := ?w2\<rparr>" env q e hs] fin(2) e by auto
    have "ptr_IsComplete p ?w1 = Inr True"
      using at add(4) by (simp add: ptr_IsComplete_def ptr_base_def get_span_def IsComplete_def IsPending_def)
    then have "Host_HandelCall env xp e (hs, y) = Inr (True,
        hs\<lparr>hs_pending_call := Some p', hs_last_trace_starting_span := Some p', hs_pci_write_before := False\<rparr>,
        (?y1\<lparr>sy_world := ?w2\<rparr>)\<lparr>sy_world := w'\<rparr>)"
      using p(1) add(1) finish start(1)
      by (simp add: Host_HandelCall_def on_world_def CreateTraceStartingSpan_def)
    moreover have "\<forall>es. (fin @ [cur]) @ cut_calls (is_entry env) (is_entry env e) [e] es =
        fin @ cut_calls (is_entry env) seen cur (e # es)"
      using True by simp
    ultimately show ?thesis using start(2) by blast
  qed
qed

text \<open>The first call: the span it starts is offered the same event once more.\<close>

lemma calls_inv_first:
  assumes none: "hs_pending_call hs = None" and tr: "w_traces (sy_world y) = []"
    and ok: "calls_ok known fin (Suc (Suc n)) (sy_world y)" and e: "plain_call env q e" "event_ok e"
  shows "\<exists>b hs' y' fin' seen' cur'. Host_HandelCall env xp e (hs, y) = Inr (b, hs', y') \<and>
    calls_inv q fin' seen' cur' n hs' y' \<and>
    (\<forall>es. fin' @ cut_calls (is_entry env) seen' cur' es =
           fin @ cut_calls (is_entry env) (is_entry env e) [e] (e # es))"
proof -
  obtain p w' where start: "StartSpan env (Some e) (host_args hs e (HostCallD (HostCallSpan_init False)))
        (sy_world y) = Inr (p, w')"
      "calls_inv q fin (is_entry env e) [e] (Suc n)
        (hs\<lparr>hs_pending_call := Some p, hs_last_trace_starting_span := Some p, hs_pci_write_before := False\<rparr>)
        (y\<lparr>sy_world := w'\<rparr>)"
    using calls_inv_start[OF ok tr e] by blast
  let ?hs = "hs\<lparr>hs_pending_call := Some p, hs_last_trace_starting_span := Some p, hs_pci_write_before := False\<rparr>"
  have "Host_HandelCall env xp e (hs, y) = Host_HandelCall env xp e (?hs, y\<lparr>sy_world := w'\<rparr>)"
    using none start(1)
    by (simp add: Host_HandelCall_def CreateTraceStartingSpan_def FinishPendingSpan_def on_world_def)
  then show ?thesis using calls_inv_step[OF start(2) e] by simp
qed

lemma Host_consume_call:
  assumes "GetType e = kHostCallT"
  shows "Host_consume env xp' (Some e) s = rbind (Host_HandelCall env xp' e s) (\<lambda>(added, s'). Inr s')"
  using assms
  by (simp add: Host_consume_def host_handlers_def RegisterHandler_def Spanner_consume_def)

lemma feed_calls:
  "calls_inv q fin seen cur (length es) hs y \<Longrightarrow> \<forall>e \<in> set es. plain_call env q e \<and> event_ok e \<Longrightarrow>
    \<exists>hs' y' fin' seen' cur'. feed (Host_consume env xp) es (hs, y) = Inr (hs', y') \<and>
      calls_inv q fin' seen' cur' 0 hs' y' \<and> fin' @ [cur'] = fin @ cut_calls (is_entry env) seen cur es"
proof (induction es arbitrary: fin seen cur hs y)
  case Nil
  then show ?case by auto
next
  case (Cons e es)
  have e: "plain_call env q e" "event_ok e" using Cons.prems(2) by auto
  obtain b hs1 y1 fin1 seen1 cur1 where st: "Host_HandelCall env xp e (hs, y) = Inr (b, hs1, y1)"
      "calls_inv q fin1 seen1 cur1 (length es) hs1 y1"
      "\<forall>es. fin1 @ cut_calls (is_entry env) seen1 cur1 es = fin @ cut_calls (is_entry env) seen cur (e # es)"
    using calls_inv_step[OF Cons.prems(1)[simplified] e] by blast
  have "Host_consume env xp (Some e) (hs, y) = Inr (hs1, y1)"
    using Host_consume_call[of e env xp "(hs, y)"] e(1) st(1) by (simp add: plain_call_def)
  then show ?case using Cons.IH[OF st(2)] Cons.prems(2) st(3) by auto
qed

lemma calls_inv_spans:
  assumes "calls_inv q fin seen cur n hs y"
  shows "\<exists>p. hs_pending_call hs = Some p \<and> p \<notin> set (w_exported (sy_world y)) \<and>
    map (span_events (w_heap (sy_world y))) (w_exported (sy_world y)) = fin \<and>
    span_events (w_heap (sy_world y)) p = cur"
  using assms by (auto simp: calls_inv_def call_span_def calls_ok_def span_events_def)

lemma host_calls_spans:
  assumes "hs_pending_call hs = None" and "w_traces (sy_world y) = []"
    and "calls_ok known [] (Suc (Suc (length es))) (sy_world y)"
    and "\<forall>e \<in> set (e0 # es). plain_call env q e \<and> event_ok e"
  shows "\<exists>hs' y' p. feed (Host_consume env xp) (e0 # es) (hs, y) = Inr (hs', y') \<and>
    hs_pending_call hs' = Some p \<and> p \<notin> set (w_exported (sy_world y')) \<and>
    map (span_events (w_heap (sy_world y'))) (w_exported (sy_world y')) @
      [span_events (w_heap (sy_world y')) p] =
    cut_calls (is_entry env) (is_entry env e0) [e0] (e0 # es)"
proof -
  have e: "plain_call env q e0" "event_ok e0" using assms(4) by auto
  obtain b hs1 y1 fin1 seen1 cur1 where st: "Host_HandelCall env xp e0 (hs, y) = Inr (b, hs1, y1)"
      "calls_inv q fin1 seen1 cur1 (length es) hs1 y1"
      "\<forall>es. fin1 @ cut_calls (is_entry env) seen1 cur1 es =
         [] @ cut_calls (is_entry env) (is_entry env e0) [e0] (e0 # es)"
    using calls_inv_first[OF assms(1-3) e] by blast
  obtain hs' y' fin' seen' cur' where r: "feed (Host_consume env xp) es (hs1, y1) = Inr (hs', y')"
      "calls_inv q fin' seen' cur' 0 hs' y'"
      "fin' @ [cur'] = fin1 @ cut_calls (is_entry env) seen1 cur1 es"
    using feed_calls[OF st(2), of env] assms(4) by auto
  have "feed (Host_consume env xp) (e0 # es) (hs, y) = Inr (hs', y')"
    using Host_consume_call[of e0 env xp "(hs, y)"] e(1) st(1) r(1) by (simp add: plain_call_def)
  then show ?thesis using calls_inv_spans[OF r(2)] r(3) st(3) by auto
qed

end

end
