(* ===== verification/NicNetClient.thy ===== *)
theory NicNetClient
  imports SpannerNic SpannerNet SpannerClient
begin

text \<open>
  The NIC and the network spanner keep the tracer's rules too. The spans they own are the
  pending DMA spans and the active device spans; the spans they start and finish within one
  event never outlive the handler.
\<close>

context event_exporter
begin

lemmas act_fresh_rules = act_StartSpan[where own = "{}"] act_StartSpanByParent[where own = "{}"]
  act_StartSpanByParentPassOnContext[where own = "{}"]

text \<open>A span that is started and finished by one handler.\<close>

lemma list_act_started_done:
  assumes "act (Suc n) {} w n {sp} w1" and "MarkSpanAsDone xp (Some sp) w1 = Inr w'"
  shows "list_act (Suc n) l w n l w'"
  using list_act_rest[OF act_trans[OF assms(1) act_MarkSpanAsDone[OF assms(2), of "{sp}", simplified]]] .

section \<open>The NIC spanner\<close>

definition nic_act :: "nat \<Rightarrow> NicSpanner \<Rightarrow> 'x world \<Rightarrow> nat \<Rightarrow> NicSpanner \<Rightarrow> 'x world \<Rightarrow> bool" where
  "nic_act n ns w m ns' w' = list_act n (ns_pending_dma ns) w m (ns_pending_dma ns') w'"

lemma nic_act_HandelMmio:
  assumes "Nic_HandelMmio env xp e (ns, y) = Inr (b, ns', y')" and "event_ok e"
  shows "nic_act (Suc n) ns (sy_world y) n ns' (sy_world y')"
proof -
  obtain con y1 where con: "PopPropagateContext (ns_from_host_queue ns) y = Inr (con, y1)"
    using assms(1) by (auto simp: Nic_HandelMmio_def rbind_eq_Inr)
  note w1 = PopPropagateContext_world[OF con]
  consider "ns' = ns" "sy_world y' = sy_world y"
    | sp w2 where "StartSpanByParentPassOnContext env (Some con) (Some e)
        (nic_args ns e (NicMmioD NicMmioSpan_init)) (sy_world y) = Inr (sp, w2)"
        "MarkSpanAsDone xp (Some sp) w2 = Inr (sy_world y')" "ns_pending_dma ns' = ns_pending_dma ns"
    using assms(1) con w1 by (auto simp: Nic_HandelMmio_def sys_Inr split: if_splits)
  then show ?thesis
  proof cases
    case 1
    then show ?thesis by (simp add: nic_act_def list_act_same)
  next
    case 2
    then show ?thesis
      using list_act_started_done[OF act_fresh_rules(3)[OF 2(1) assms(2)] 2(2)] by (simp add: nic_act_def)
  qed
qed

lemma nic_act_HandelDma:
  assumes "Nic_HandelDma env xp e (ns, y) = Inr (b, ns', y')" and "event_ok e"
  shows "nic_act (Suc n) ns (sy_world y) n ns' (sy_world y')"
proof -
  obtain found pending w where it: "iterate_add_erase env e (ns_pending_dma ns) (sy_world y)
      = Inr (found, pending, w)"
    using assms(1) by (auto simp: Nic_HandelDma_def rbind_eq_Inr)
  have ns: "list_act (Suc n) l (sy_world y) n l (sy_world y)" for l by (simp add: list_act_same)
  show ?thesis
  proof (cases found)
    case (Some i)
    obtain complete where c: "ptr_IsComplete i w = Inr complete" "ns_pending_dma ns' = pending"
        "complete \<Longrightarrow> MarkSpanAsDone xp (Some i) w = Inr (sy_world y')" "\<not> complete \<Longrightarrow> sy_world y' = w"
      using assms(1) it Some
      by (auto simp: Nic_HandelDma_def Let_def sys_Inr split: if_splits dest: PushPropagateContext_world)
    have "list_act n (ns_pending_dma ns) (sy_world y) n pending (sy_world y')"
      using list_act_iterate(2)[OF it assms(2) Some c(1,3,4)] .
    then show ?thesis unfolding nic_act_def c(2) using list_act_trans[OF ns] by blast
  next
    case None
    note itr = list_act_iterate(1)[OF it assms(2) None]
    consider "ns_pending_dma ns' = ns_pending_dma ns" "sy_world y' = w"
      | parent dma where "StartSpanByParent env (Some parent) (Some e)
          (nic_args (ns\<lparr>ns_pending_dma := pending\<rparr>) e (NicDmaD NicDmaSpan_init)) w = Inr (dma, sy_world y')"
          "ns_pending_dma ns' = ns_pending_dma ns @ [dma]"
      using assms(1) it None itr
      by (auto simp: Nic_HandelDma_def Let_def sys_Inr split: if_splits)
    then show ?thesis
    proof cases
      case 1
      then show ?thesis using list_act_trans[OF ns conjunct2[OF itr]] by (simp add: nic_act_def)
    next
      case 2
      then show ?thesis
        using list_act_trans[OF conjunct2[OF itr] list_act_new[OF act_fresh_rules(2)[OF 2(1) assms(2)]]]
        by (simp add: nic_act_def)
    qed
  qed
qed

lemma nic_act_HandelTxrx:
  assumes "Nic_HandelTxrx env xp e (ns, y) = Inr (b, ns', y')" and "event_ok e"
  shows "nic_act (Suc n) ns (sy_world y) n ns' (sy_world y')"
proof (cases "\<not> IsType (Some e) kNicTxT \<and> \<not> IsType (Some e) kNicRxT")
  case True
  then have "ns' = ns" "y' = y" using assms(1) by (auto simp: Nic_HandelTxrx_def)
  then show ?thesis by (simp add: nic_act_def list_act_same)
next
  case False
  obtain eth y1 where start: "(if IsType (Some e) kNicTxT then Nic_StartTx env e (ns, y)
        else Nic_StartRx env e (ns, y)) = Inr (eth, ns', y1)"
      "MarkSpanAsDone xp (Some eth) (sy_world y1) = Inr (sy_world y')"
    using assms(1) False by (auto simp: Nic_HandelTxrx_def sys_Inr)
  have "act (Suc n) {} (sy_world y) n {eth} (sy_world y1) \<and> ns_pending_dma ns' = ns_pending_dma ns"
  proof (cases "IsType (Some e) kNicTxT")
    case True
    obtain parent where "StartSpanByParent env (Some parent) (Some e)
        (nic_args ns e (NicEthD NicEthSpan_init)) (sy_world y) = Inr (eth, sy_world y1)" "ns' = ns"
      using start(1) True by (auto simp: Nic_StartTx_def sys_Inr dest!: PushPropagateContext_world)
    then show ?thesis using act_fresh_rules(2)[OF _ assms(2)] by simp
  next
    case False
    then have rx: "Nic_StartRx env e (ns, y) = Inr (eth, ns', y1)" using start(1) by simp
    obtain con y0 where con: "PopPropagateContext (ns_from_network_queue ns) y = Inr (con, y0)"
      using rx by (auto simp: Nic_StartRx_def rbind_eq_Inr)
    have "StartSpanByParentPassOnContext env (Some con) (Some e)
        (nic_args ns e (NicEthD NicEthSpan_init)) (sy_world y) = Inr (eth, sy_world y1) \<and>
        ns_pending_dma ns' = ns_pending_dma ns"
      using rx con PopPropagateContext_world[OF con]
      by (auto simp: Nic_StartRx_def sys_Inr dest!: PushPropagateContext_world)
    then show ?thesis by (blast intro: act_fresh_rules(3)[OF _ assms(2)])
  qed
  then show ?thesis
    using list_act_started_done[OF conjunct1 start(2)] by (auto simp: nic_act_def)
qed

lemma nic_act_HandelMsix:
  assumes "Nic_HandelMsix env xp e (ns, y) = Inr (b, ns', y')" and "event_ok e"
  shows "nic_act (Suc n) ns (sy_world y) n ns' (sy_world y')"
proof -
  obtain parent msix w1 where "StartSpanByParent env (Some parent) (Some e)
      (nic_args ns e (NicMsixD NicMsixSpan_init)) (sy_world y) = Inr (msix, w1)"
      "MarkSpanAsDone xp (Some msix) w1 = Inr (sy_world y')" "ns' = ns"
    using assms(1) by (auto simp: Nic_HandelMsix_def sys_Inr dest!: PushPropagateContext_world)
  then show ?thesis
    using list_act_started_done[OF act_fresh_rules(2)[OF _ assms(2)]] by (simp add: nic_act_def)
qed

lemma nic_act_consume:
  assumes "Nic_consume env xp (Some e) (ns, y) = Inr (ns', y')" and "event_ok e"
  shows "nic_act (Suc n) ns (sy_world y) n ns' (sy_world y')"
proof -
  obtain handlers where hd: "nic_handlers env xp = Inr handlers"
      "Spanner_consume handlers (Some e) (ns, y) = Inr (ns', y')"
    using assms(1) by (auto simp: Nic_consume_def rbind_eq_Inr)
  show ?thesis
  proof (rule Spanner_consume_cases[OF hd(2) hd(1)[unfolded nic_handlers_def]])
    assume "(ns', y') = (ns, y)"
    then show ?thesis by (simp add: nic_act_def list_act_same)
  next
    fix h b
    assume h: "h e (ns, y) = Inr (b, ns', y')"
      and m: "(GetType e, h) \<in> set [(kNicMmioWT, Nic_HandelMmio env xp),
        (kNicMmioRT, Nic_HandelMmio env xp), (kNicDmaIT, Nic_HandelDma env xp),
        (kNicDmaExT, Nic_HandelDma env xp), (kNicDmaCWT, Nic_HandelDma env xp),
        (kNicDmaCRT, Nic_HandelDma env xp), (kNicTxT, Nic_HandelTxrx env xp),
        (kNicRxT, Nic_HandelTxrx env xp), (kNicMsixT, Nic_HandelMsix env xp)]"
    have "h \<in> {Nic_HandelMmio env xp, Nic_HandelDma env xp, Nic_HandelTxrx env xp, Nic_HandelMsix env xp}"
      using m by auto
    then show ?thesis
      using h assms(2) nic_act_HandelMmio nic_act_HandelDma nic_act_HandelTxrx nic_act_HandelMsix by auto
  qed
qed

section \<open>The network spanner\<close>

definition net_act ::
  "nat \<Rightarrow> NetworkSpanner \<Rightarrow> 'x world \<Rightarrow> nat \<Rightarrow> NetworkSpanner \<Rightarrow> 'x world \<Rightarrow> bool"
where
  "net_act n ws w m ws' w' = list_act n (ws_active ws) w m (ws_active ws') w'"

lemma Net_context_world:
  "Net_context n (ws, y) = Inr (con, y') \<Longrightarrow> sy_world y' = sy_world y"
  by (auto simp: Net_context_def rbind_eq_Inr split: if_splits option.splits dest: PopPropagateContext_world)

lemma net_act_StartSpan:
  assumes "Net_StartSpan env nv e (ws, y) = Inr (b, ws', y')" and "event_ok e"
  shows "net_act (Suc n) ws (sy_world y) n ws' (sy_world y')"
proof -
  have "ws' = ws \<and> y' = y \<or> (\<exists>sp. ws_active ws' = ws_active ws @ [sp] \<and>
      (StartSpan env (Some e) (net_args ws e) (sy_world y) = Inr (sp, sy_world y') \<or>
       (\<exists>con. StartSpanByParentPassOnContext env (Some con) (Some e) (net_args ws e) (sy_world y)
          = Inr (sp, sy_world y'))))"
    using assms(1)
    by (auto simp: Net_StartSpan_def sys_Inr split: if_splits dest!: Net_context_world)
  then have "ws' = ws \<and> y' = y \<or> (\<exists>sp. ws_active ws' = ws_active ws @ [sp] \<and>
      act (Suc n) {} (sy_world y) n {sp} (sy_world y'))"
    using act_fresh_rules(1,3)[OF _ assms(2), of env] by blast
  then show ?thesis
    using list_act_same[of n "Suc n"] list_act_new by (auto simp: net_act_def)
qed

lemma net_act_consume:
  assumes "Net_consume env xp (Some e) (ws, y) = Inr (ws', y')" and "event_ok e"
  shows "net_act (Suc n) ws (sy_world y) n ws' (sy_world y')"
proof -
  obtain handlers where hd: "net_handlers env xp = Inr handlers"
      "Spanner_consume handlers (Some e) (ws, y) = Inr (ws', y')"
    using assms(1) by (auto simp: Net_consume_def rbind_eq_Inr)
  have same: "net_act (Suc n) ws (sy_world y) n ws (sy_world y)"
    by (simp add: net_act_def list_act_same)
  show ?thesis
  proof (rule Spanner_consume_cases[OF hd(2) hd(1)[unfolded net_handlers_def]])
    assume "(ws', y') = (ws, y)"
    then show ?thesis using same by simp
  next
    fix h b
    assume h: "h e (ws, y) = Inr (b, ws', y')"
      and m: "(GetType e, h) \<in> set [(kNetworkEnqueueT, HandelNetworkEvent env xp),
        (kNetworkDequeueT, HandelNetworkEvent env xp), (kNetworkDropT, HandelNetworkEvent env xp)]"
    have hn: "HandelNetworkEvent env xp e (ws, y) = Inr (b, ws', y')" using h m by auto
    show ?thesis
    proof (cases "ws' = ws \<and> y' = y")
      case True
      then show ?thesis using same by simp
    next
      case False
      obtain nv found active w where it: "iterate_add_erase env e (ws_active ws) (sy_world y)
          = Inr (found, active, w)"
          "(case found of Some current \<Rightarrow> Net_FinishSpan xp current (ws\<lparr>ws_active := active\<rparr>, y\<lparr>sy_world := w\<rparr>)
            | None \<Rightarrow> Net_StartSpan env nv e (ws\<lparr>ws_active := active\<rparr>, y\<lparr>sy_world := w\<rparr>)) = Inr (b, ws', y')"
        using hn False by (auto simp: HandelNetworkEvent_def Let_def rbind_eq_Inr split: if_splits)
      show ?thesis
      proof (cases found)
        case None
        note itr = list_act_iterate(1)[OF it(1) assms(2) None]
        have "net_act (Suc n) ws w n ws' (sy_world y')"
          using net_act_StartSpan[of env nv e "ws\<lparr>ws_active := active\<rparr>" "y\<lparr>sy_world := w\<rparr>" b ws' y' n]
            it(2) None assms(2) by (simp add: itr)
        then show ?thesis unfolding net_act_def by (rule list_act_trans[OF conjunct2[OF itr]])
      next
        case (Some i)
        obtain c where c: "ptr_IsComplete i w = Inr True" "MarkSpanAsDone xp (Some i) w = Inr (sy_world y')"
            "ws_active ws' = active"
          using it(2) Some
          by (auto simp: Net_FinishSpan_def sys_Inr split: if_splits dest!: PushPropagateContext_world)
        have "list_act n (ws_active ws) (sy_world y) n active (sy_world y')"
          using list_act_iterate(2)[OF it(1) assms(2) Some c(1), of "sy_world y'" n] c(2) by simp
        then show ?thesis
          unfolding net_act_def c(3) using list_act_trans[OF list_act_same[of n "Suc n"]] by simp
      qed
    qed
  qed
qed

end

end
