(* ===== verification/Columbo.thy ===== *)
theory Columbo
  imports HostCalls NicNetClient Exporter
begin

text \<open>
  The spanners of a run together (source trace.cc): two hosts, two NICs and the network,
  wired up by context channels and sharing one tracer. Each spanner is driven by its own
  pipeline, so any of them may take the next step; \<open>columbo_step\<close> is one event consumed by
  one of them.
\<close>

section \<open>Spanners\<close>

datatype spanner = HostS HostSpanner | NicS NicSpanner | NetS NetworkSpanner

fun spanner_consume ::
  "TraceEnvironment \<Rightarrow> 'x exporter \<Rightarrow> event option \<Rightarrow> spanner \<times> 'x sys \<Rightarrow> (spanner \<times> 'x sys) res"
where
  "spanner_consume env xp ev (HostS hs, y) =
     rbind (Host_consume env xp ev (hs, y)) (\<lambda>(hs', y'). Inr (HostS hs', y'))"
| "spanner_consume env xp ev (NicS ns, y) =
     rbind (Nic_consume env xp ev (ns, y)) (\<lambda>(ns', y'). Inr (NicS ns', y'))"
| "spanner_consume env xp ev (NetS ws, y) =
     rbind (Net_consume env xp ev (ws, y)) (\<lambda>(ws', y'). Inr (NetS ws', y'))"

text \<open>The spans a spanner still refers to, and those of them that it may still extend.\<close>

fun spanner_roles :: "spanner \<Rightarrow> u64 set" where
  "spanner_roles (HostS hs) = set (host_roles hs)"
| "spanner_roles (NicS ns) = set (ns_pending_dma ns)"
| "spanner_roles (NetS ws) = set (ws_active ws)"

fun spanner_open :: "spanner \<Rightarrow> heap \<Rightarrow> u64 set" where
  "spanner_open (HostS hs) h = host_open hs h"
| "spanner_open (NicS ns) h = set (ns_pending_dma ns)"
| "spanner_open (NetS ws) h = set (ws_active ws)"

fun spanner_ok :: "spanner \<Rightarrow> heap \<Rightarrow> bool" where
  "spanner_ok (HostS hs) h = host_ok hs h"
| "spanner_ok (NicS ns) h = (distinct (ns_pending_dma ns) \<and> set (ns_pending_dma ns) \<subseteq> dom (h_spans h))"
| "spanner_ok (NetS ws) h = (distinct (ws_active ws) \<and> set (ws_active ws) \<subseteq> dom (h_spans h))"

text \<open>How many spans one event can start: a receiving call is copied per waiting packet.\<close>

fun spanner_cost :: "spanner \<Rightarrow> 'x sys \<Rightarrow> nat" where
  "spanner_cost (HostS hs) y = host_cost hs y"
| "spanner_cost _ y = 1"

section \<open>Several clients of one tracer\<close>

text \<open>
  What a client promises: it acts within its guarantee, and its own well-formedness depends
  on nothing but the spans it refers to.
\<close>

locale tracer_clients = event_exporter xp known exportable event_ok x0
  for xp :: "'x exporter" and known :: "'x \<Rightarrow> u64 list \<Rightarrow> bool" and exportable :: "span \<Rightarrow> bool"
    and event_ok :: "event \<Rightarrow> bool" and x0 :: 'x +
  fixes consumes :: "event \<Rightarrow> 's \<times> 'x sys \<Rightarrow> ('s \<times> 'x sys) res"
    and roles :: "'s \<Rightarrow> u64 set" and opened :: "'s \<Rightarrow> heap \<Rightarrow> u64 set"
    and client_ok :: "'s \<Rightarrow> heap \<Rightarrow> bool" and cost :: "'s \<Rightarrow> 'x sys \<Rightarrow> nat"
  assumes consumes_acts:
      "\<lbrakk>consumes e (s, y) = Inr (s', y'); event_ok e; client_ok s (w_heap (sy_world y));
        good (cost s y + n) (opened s (w_heap (sy_world y))) (sy_world y)\<rbrakk> \<Longrightarrow>
       act (cost s y + n) (opened s (w_heap (sy_world y))) (sy_world y)
         n (opened s' (w_heap (sy_world y'))) (sy_world y') \<and>
       client_ok s' (w_heap (sy_world y')) \<and> roles s' \<subseteq> roles s \<union> - known_ids (sy_world y)"
    and opened_roles: "opened s h \<subseteq> roles s"
    and roles_known: "client_ok s h \<Longrightarrow> roles s \<subseteq> dom (h_spans h)"
    and client_frame:
      "\<lbrakk>client_ok s h; \<forall>i \<in> roles s. h_spans h' i = h_spans h i\<rbrakk> \<Longrightarrow>
       client_ok s h' \<and> opened s h' = opened s h"
begin

definition clients_ok :: "'s list \<Rightarrow> 'x sys \<Rightarrow> bool" where
  "clients_ok ss y =
     ((\<forall>k < length ss. client_ok (ss ! k) (w_heap (sy_world y)) \<and>
         good 0 (opened (ss ! k) (w_heap (sy_world y))) (sy_world y)) \<and>
      (\<forall>j < length ss. \<forall>k < length ss. j \<noteq> k \<longrightarrow> roles (ss ! j) \<inter> roles (ss ! k) = {}))"

lemma clients_ok_step:
  assumes ok: "clients_ok ss y" and k: "k < length ss" and e: "event_ok e"
    and ids: "unat (fresh_id (sy_world y)) + cost (ss ! k) y < 2 ^ 64"
    and c: "consumes e (ss ! k, y) = Inr (s', y')"
  shows "clients_ok (ss[k := s']) y'"
proof -
  let ?h = "w_heap (sy_world y)" and ?h' = "w_heap (sy_world y')"
  have ck: "client_ok (ss ! k) ?h" "good 0 (opened (ss ! k) ?h) (sy_world y)"
    using ok k by (auto simp: clients_ok_def)
  then have g: "good (cost (ss ! k) y + 0) (opened (ss ! k) ?h) (sy_world y)"
    using ids by (simp add: good_def ids_left_def)
  note ac = consumes_acts[OF c e ck(1) g]
  have g': "good 0 (opened s' ?h') (sy_world y')" and mv: "moves (opened (ss ! k) ?h) (sy_world y) (sy_world y')"
    using ac g by (auto simp: act_def)
  have dm: "known_ids (sy_world y) \<subseteq> known_ids (sy_world y')"
    and dn: "done_spans (sy_world y') \<subseteq> done_spans (sy_world y) \<union> opened (ss ! k) ?h \<union> - known_ids (sy_world y)"
    using mv by (auto simp: moves_def)
  have other: "client_ok (ss ! j) ?h' \<and> good 0 (opened (ss ! j) ?h') (sy_world y') \<and>
      roles (ss ! j) \<inter> roles s' = {}" if j: "j < length ss" "j \<noteq> k" for j
  proof -
    have cj: "client_ok (ss ! j) ?h" "good 0 (opened (ss ! j) ?h) (sy_world y)"
      and dis: "roles (ss ! j) \<inter> roles (ss ! k) = {}"
      using ok j k by (auto simp: clients_ok_def)
    have kn: "roles (ss ! j) \<subseteq> known_ids (sy_world y)" by (rule roles_known[OF cj(1)])
    have apart: "roles (ss ! j) \<inter> opened (ss ! k) ?h = {}"
      using dis opened_roles[of "ss ! k" ?h] by blast
    have "\<forall>i \<in> roles (ss ! j). h_spans ?h' i = h_spans ?h i"
    proof
      fix i assume i: "i \<in> roles (ss ! j)"
      have "i \<in> known_ids (sy_world y)" "i \<notin> opened (ss ! k) ?h" using i kn apart by blast+
      then show "h_spans ?h' i = h_spans ?h i" by (rule moves_spans[OF mv])
    qed
    note fr = client_frame[OF cj(1) this]
    have own: "opened (ss ! j) ?h \<subseteq> known_ids (sy_world y)" "opened (ss ! j) ?h \<inter> done_spans (sy_world y) = {}"
      using cj(2) by (auto simp: good_def)
    have "opened (ss ! j) ?h \<inter> opened (ss ! k) ?h = {}" using apart opened_roles by blast
    then have "opened (ss ! j) ?h \<inter> done_spans (sy_world y') = {}" using own dn by blast
    then have "good 0 (opened (ss ! j) ?h') (sy_world y')"
      using g' own(1) dm fr by (simp add: good_def)
    moreover have "roles (ss ! j) \<inter> roles s' = {}" using ac kn dis by blast
    ultimately show ?thesis using fr by simp
  qed
  show ?thesis
    unfolding clients_ok_def
  proof (intro conjI allI impI)
    fix j assume "j < length (ss[k := s'])"
    then show "client_ok (ss[k := s'] ! j) ?h'" "good 0 (opened (ss[k := s'] ! j) ?h') (sy_world y')"
      using other[of j] ac g' k by (cases "j = k"; simp)+
  next
    fix i j assume "i < length (ss[k := s'])" "j < length (ss[k := s'])" "i \<noteq> j"
    then show "roles (ss[k := s'] ! i) \<inter> roles (ss[k := s'] ! j) = {}"
      using other[of i] other[of j] ok unfolding clients_ok_def
      by (cases "i = k"; cases "j = k") (auto simp: nth_list_update)
  qed
qed

end

section \<open>The spanners are such clients\<close>

context event_exporter
begin

lemma list_act_client:
  assumes "list_act n l w m l' w'" and "good n (set l) w" and "distinct l"
  shows "act n (set l) w m (set l') w' \<and> (distinct l' \<and> set l' \<subseteq> known_ids w') \<and>
    set l' \<subseteq> set l \<union> - known_ids w"
proof -
  have a: "act n (set l) w m (set l') w'" "distinct l'" using assms by (simp_all add: list_act_def)
  then have "good m (set l') w'" "set l' \<subseteq> set l \<union> - known_ids w"
    using assms(2) by (simp_all add: act_def)
  then show ?thesis using a by (simp add: good_def)
qed

lemma spanner_consumes_acts:
  assumes "spanner_consume env xp (Some e) (s, y) = Inr (s', y')" and "event_ok e"
    and "spanner_ok s (w_heap (sy_world y))"
    and "good (spanner_cost s y + n) (spanner_open s (w_heap (sy_world y))) (sy_world y)"
  shows "act (spanner_cost s y + n) (spanner_open s (w_heap (sy_world y))) (sy_world y)
      n (spanner_open s' (w_heap (sy_world y'))) (sy_world y') \<and>
    spanner_ok s' (w_heap (sy_world y')) \<and>
    spanner_roles s' \<subseteq> spanner_roles s \<union> - known_ids (sy_world y)"
proof (cases s)
  case (HostS hs)
  obtain hs' where hs': "Host_consume env xp (Some e) (hs, y) = Inr (hs', y')" "s' = HostS hs'"
    using assms(1) HostS by (auto simp: rbind_eq_Inr)
  show ?thesis
    using host_act_consume[OF hs'(1) assms(2), of n] assms(3,4) by (simp add: HostS hs'(2) host_act_def)
next
  case (NicS ns)
  obtain ns' where ns': "Nic_consume env xp (Some e) (ns, y) = Inr (ns', y')" "s' = NicS ns'"
    using assms(1) NicS by (auto simp: rbind_eq_Inr)
  show ?thesis
    using list_act_client[OF nic_act_consume[OF ns'(1) assms(2), of n, unfolded nic_act_def]] assms(3,4)
    by (simp add: NicS ns'(2))
next
  case (NetS ws)
  obtain ws' where ws': "Net_consume env xp (Some e) (ws, y) = Inr (ws', y')" "s' = NetS ws'"
    using assms(1) NetS by (auto simp: rbind_eq_Inr)
  show ?thesis
    using list_act_client[OF net_act_consume[OF ws'(1) assms(2), of n, unfolded net_act_def]] assms(3,4)
    by (simp add: NetS ws'(2))
qed

lemma spanner_frame:
  assumes "spanner_ok s h" and "\<forall>i \<in> spanner_roles s. h_spans h' i = h_spans h i"
  shows "spanner_ok s h' \<and> spanner_open s h' = spanner_open s h"
proof -
  have "spanner_roles s \<subseteq> dom (h_spans h)"
    using assms(1) by (cases s) (auto simp: host_ok_def)
  then have "spanner_roles s \<subseteq> dom (h_spans h')" using assms(2) by (auto simp: subset_iff domIff)
  then show ?thesis
    using assms by (cases s) (auto simp: host_ok_def host_open_def host_roles_def span_pending_def)
qed

lemma spanner_clients:
  "tracer_clients xp known exportable event_ok x0 (\<lambda>e. spanner_consume env xp (Some e))
     spanner_roles spanner_open spanner_ok spanner_cost"
proof unfold_locales
  show "spanner_open s h \<subseteq> spanner_roles s" for s h
    using host_open_roles by (cases s) auto
  show "spanner_roles s \<subseteq> dom (h_spans h)" if "spanner_ok s h" for s h
    using that by (cases s) (auto simp: host_ok_def)
qed (use spanner_consumes_acts spanner_frame in blast)+

end

sublocale event_exporter < spanners: tracer_clients xp known exportable event_ok x0
    "\<lambda>e. spanner_consume env xp (Some e)" spanner_roles spanner_open spanner_ok spanner_cost
  for env :: TraceEnvironment
  by (rule spanner_clients)

interpretation otlp_events: event_exporter "otlp_ExportSpan ot" otlp_known
    "\<lambda>sp. otel_documented ot \<and> span_exportable sp" "\<lambda>e. otel_documented ot \<and> event_exportable e"
    "OtlpSpanExporter_new off url b lib sdk"
  for ot :: "('o, 'h) otel" and off url b lib sdk
  by unfold_locales
     (auto simp: span_exportable_def list_all_iff otlp_known_def OtlpSpanExporter_new_def neq_Nil_conv)

interpretation noop_events: event_exporter noop_ExportSpan "\<lambda>x ids. True" "\<lambda>sp. True" "\<lambda>e. True" "()"
  by unfold_locales simp_all

section \<open>The wiring of a run\<close>

text \<open>The channels trace.cc creates, in its order.\<close>

abbreviation (input) "server_hn \<equiv> 0 :: chan_addr"
abbreviation (input) "server_nh \<equiv> 1 :: chan_addr"
abbreviation (input) "client_hn \<equiv> 2 :: chan_addr"
abbreviation (input) "client_nh \<equiv> 3 :: chan_addr"
abbreviation (input) "nic_c_to_network \<equiv> 4 :: chan_addr"
abbreviation (input) "nic_s_to_network \<equiv> 5 :: chan_addr"
abbreviation (input) "nic_s_from_network \<equiv> 6 :: chan_addr"
abbreviation (input) "nic_c_from_network \<equiv> 7 :: chan_addr"
abbreviation (input) "server_n_h_receive \<equiv> 8 :: chan_addr"
abbreviation (input) "client_n_h_receive \<equiv> 9 :: chan_addr"
abbreviation (input) "sink_chan \<equiv> 10 :: chan_addr"

definition sys_init :: "'x \<Rightarrow> 'x sys" where
  "sys_init x =
     \<lparr>sy_world = world_init x,
      sy_channels = (\<lambda>a. if a = sink_chan then SinkC else QueueC CoroUnBoundedChannel_new)\<rparr>"

definition to_host_map :: "NodeDeviceToChannelMap res" where
  "to_host_map =
     rbind (AddMapping 0 2 nic_s_from_network Map.empty) (\<lambda>m1.
     rbind (AddMapping 1 2 nic_c_from_network m1) (\<lambda>m2.
     rbind (AddMapping 0 3 sink_chan m2) (AddMapping 1 3 sink_chan)))"

definition from_host_map :: "NodeDeviceToChannelMap res" where
  "from_host_map =
     rbind (AddMapping 0 2 nic_s_to_network Map.empty) (\<lambda>m1.
     rbind (AddMapping 1 2 nic_c_to_network m1) (\<lambda>m2.
     rbind (AddMapping 0 3 sink_chan m2) (AddMapping 1 3 sink_chan)))"

definition run_node_device_filter :: NodeDeviceFilter where
  "run_node_device_filter =
     AddNodeDevice 1 1 (AddNodeDevice 0 1 (AddNodeDevice 1 2 (AddNodeDevice 0 2 {})))"

definition columbo_setup :: "'x \<Rightarrow> (spanner list \<times> 'x sys) res" where
  "columbo_setup x =
     rbind (HostSpanner_new ''Server-Host'' (Some server_hn) (Some server_nh) (Some server_n_h_receive)
              (sys_init x)) (\<lambda>(spanner_h_s, y1).
     rbind (HostSpanner_new ''Client-Host'' (Some client_hn) (Some client_nh) (Some client_n_h_receive)
              y1) (\<lambda>(spanner_h_c, y2).
     rbind (NicSpanner_new ''NIC-Server'' (Some nic_s_to_network) (Some nic_s_from_network)
              (Some server_nh) (Some server_hn) (Some server_n_h_receive) y2) (\<lambda>(spanner_n_s, y3).
     rbind (NicSpanner_new ''Client-NIC'' (Some nic_c_to_network) (Some nic_c_from_network)
              (Some client_nh) (Some client_hn) (Some client_n_h_receive) y3) (\<lambda>(spanner_n_c, y4).
     rbind to_host_map (\<lambda>to_host.
     rbind from_host_map (\<lambda>from_host.
       case NetworkSpanner_new ''NS3'' from_host to_host run_node_device_filter y4 of
         (spanner_ns3, y5) \<Rightarrow>
           Inr ([HostS spanner_h_s, HostS spanner_h_c, NicS spanner_n_s, NicS spanner_n_c,
                 NetS spanner_ns3], y5)))))))"

text \<open>
  A step of the run: some spanner consumes an event it can consume. The guards: the
  exporter has a case for the event, and the span counter does not wrap around.
\<close>

inductive columbo_step ::
  "TraceEnvironment \<Rightarrow> 'x exporter \<Rightarrow> spanner list \<times> 'x sys \<Rightarrow> spanner list \<times> 'x sys \<Rightarrow> bool"
  for env :: TraceEnvironment and xp :: "'x exporter"
where
  step_consume: "\<lbrakk>k < length ss; event_exportable e;
    unat (fresh_id (sy_world y)) + spanner_cost (ss ! k) y < 2 ^ 64;
    spanner_consume env xp (Some e) (ss ! k, y) = Inr (s', y')\<rbrakk> \<Longrightarrow>
   columbo_step env xp (ss, y) (ss[k := s'], y')"

inductive columbo_run ::
  "TraceEnvironment \<Rightarrow> 'x exporter \<Rightarrow> 'x \<Rightarrow> spanner list \<times> 'x sys \<Rightarrow> bool"
  for env :: TraceEnvironment and xp :: "'x exporter" and x0 :: 'x
where
  run_setup: "columbo_setup x0 = Inr s \<Longrightarrow> columbo_run env xp x0 s"
| run_step: "columbo_run env xp x0 s \<Longrightarrow> columbo_step env xp s s' \<Longrightarrow> columbo_run env xp x0 s'"

inductive_cases columbo_stepE: "columbo_step env xp (ss, y) s'"

lemmas setup_defs = columbo_setup_def HostSpanner_new_def NicSpanner_new_def NetworkSpanner_new_def
  Spanner_new_def GetNextSpannerId_def to_host_map_def from_host_map_def AddMapping_def sys_init_def
  world_init_def

text \<open>The setup succeeds; its spanners own nothing, and only the spanner ids were drawn.\<close>

lemma columbo_setup_Inr:
  "\<exists>ss y. columbo_setup x = Inr (ss, y) \<and> (\<forall>s \<in> set ss. spanner_roles s = {}) \<and>
     (\<forall>s \<in> set ss. \<forall>h. spanner_open s h = {} \<and> spanner_ok s h) \<and>
     sy_world y = (world_init x)\<lparr>w_heap := (w_heap (world_init x))\<lparr>h_counters :=
       (h_counters (w_heap (world_init x)))\<lparr>next_parser_id := 1, next_spanner_id := 6\<rparr>\<rparr>\<rparr>"
  by (simp add: setup_defs id_counters_init_def host_roles_def host_fixed_def host_open_def host_ok_def)

context event_exporter
begin

lemma setup_clients_ok:
  assumes "columbo_setup x0 = Inr (ss, y)"
  shows "spanners.clients_ok ss y"
proof -
  have r: "\<forall>s \<in> set ss. spanner_roles s = {}" "\<forall>s \<in> set ss. \<forall>h. spanner_open s h = {} \<and> spanner_ok s h"
    and y: "sy_world y = (world_init x0)\<lparr>w_heap := (w_heap (world_init x0))\<lparr>h_counters :=
       (h_counters (w_heap (world_init x0)))\<lparr>next_parser_id := 1, next_spanner_id := 6\<rparr>\<rparr>\<rparr>"
    using columbo_setup_Inr[of x0] assms by auto
  have "tracer_reachable xp exportable x0 (sy_world y)"
    unfolding y by (rule reach_step[OF reach_init step_ids])
  moreover have "ctx_inj (w_heap (sy_world y))" "events_ok event_ok (w_heap (sy_world y))"
    "ids_left 0 (sy_world y)" "done_spans (sy_world y) = {}"
    by (simp_all add: y world_init_def ctx_inj_def shares_ctx_def events_ok_def ids_left_def fresh_id_def
        id_counters_init_def done_spans_def waiters_set_def)
  ultimately have "good 0 {} (sy_world y)" by (simp add: good_def)
  then show ?thesis using r by (auto simp: spanners.clients_ok_def)
qed

lemma columbo_run_ok:
  assumes "columbo_run env xp x0 s" and "\<And>e. event_exportable e \<Longrightarrow> event_ok e"
  shows "spanners.clients_ok (fst s) (snd s)"
  using assms(1)
proof induction
  case (run_setup s)
  then show ?case using setup_clients_ok by (cases s) simp
next
  case (run_step s s')
  obtain ss y where s: "s = (ss, y)" by (cases s)
  obtain k e t y' where st: "s' = (ss[k := t], y')" "k < length ss" "event_exportable e"
      "unat (fresh_id (sy_world y)) + spanner_cost (ss ! k) y < 2 ^ 64"
      "spanner_consume env xp (Some e) (ss ! k, y) = Inr (t, y')"
    using run_step.hyps(2)[unfolded s] by (elim columbo_stepE) simp
  show ?case
    using spanners.clients_ok_step[OF _ st(2) assms(2)[OF st(3)] st(4,5)] run_step.IH
    by (simp add: s st(1))
qed

end

end
