(* ===== verification/LinkHandlers.thy ===== *)
theory LinkHandlers
  imports Links Columbo
begin

text \<open>
  Every handler of every spanner keeps the links: symbolic execution of the handlers with
  one rule per operation they call.
\<close>

section \<open>Operations on the shared state\<close>

lemma linked_started:
  assumes "linked (Suc n) K y" and "world_ok (Suc n) (sy_world y) \<Longrightarrow> gives (F (sy_world y)) (started n e args (sy_world y))"
  shows "gives (on_world F y)
    (\<lambda>(i, y'). linked n (insert (i, span_GetType (sa_data args), GetTs e) K) y')"
proof -
  have "linked n (insert (i, span_GetType (sa_data args), GetTs e) K) (y\<lparr>sy_world := w\<rparr>)"
    if "F (sy_world y) = Inr (i, w)" for i w
  proof -
    have "world_ok (Suc n) (sy_world y)" using assms(1) by (simp add: linked_def)
    then have st: "world_ok n w" "keeps (w_heap (sy_world y)) (w_heap w)"
        "claim_holds (w_heap w) (i, span_GetType (sa_data args), GetTs e)"
      using givesD[OF assms(2) that] by (simp_all add: started_def)
    show ?thesis by (rule linked_insert[OF linked_world[OF assms(1) st(1,2)]]) (simp add: st(3))
  qed
  then show ?thesis by (auto simp: gives_def on_world_Inr)
qed

lemma linked_updated:
  assumes "linked n K y" and "world_ok n (sy_world y) \<Longrightarrow> gives (f (sy_world y)) (updated m (sy_world y))"
  shows "gives (upd_world f y) (linked m K)"
  using assms linked_world[OF assms(1)] by (auto simp: gives_def upd_world_Inr updated_def linked_def)

text \<open>The channels of \<open>y'\<close> hold at most what \<open>con\<close> and the channels of \<open>y\<close> hold.\<close>

lemma linked_channels:
  assumes "linked n K y" and "sy_world y' = sy_world y"
    and "\<And>a con. con \<in> set (queue (sy_channels y' a)) \<Longrightarrow>
      con_ok (w_heap (sy_world y)) con \<or> con \<in> set (queue (sy_channels y a))"
  shows "linked n K y'"
  using assms unfolding linked_def by metis

lemma linked_Pop:
  assumes "linked n K y"
  shows "gives (PopPropagateContext a y) (\<lambda>(con, y'). linked n K y' \<and> con_ok (w_heap (sy_world y')) con \<and>
    (\<forall>b. queued (sy_channels y' b) \<le> queued (sy_channels y b)))"
proof -
  have "linked n K y' \<and> con_ok (w_heap (sy_world y')) con"
    if run: "PopPropagateContext a y = Inr (con, y')" for con y'
  proof -
    obtain c where c: "ctx_Pop (sy_channels y a) = Inr (Some con, c)"
        "y' = y\<lparr>sy_channels := (sy_channels y)(a := c)\<rparr>"
      using run by (auto simp: PopPropagateContext_def on_channel_def rbind_eq_Inr)
    have q: "queue (sy_channels y a) = con # queue c"
      using c(1)
      by (cases "sy_channels y a")
         (auto simp: rbind_eq_Inr unbounded_Pop_def pop_front_def sink_Pop_def split: if_splits list.splits)
    have "linked n K y'"
      by (rule linked_channels[OF assms]) (use c(2) q in \<open>auto split: if_splits\<close>)
    moreover have "con_ok (w_heap (sy_world y)) con"
      using assms q unfolding linked_def by (metis list.set_intros(1))
    ultimately show ?thesis using c(2) by simp
  qed
  then show ?thesis using queued_Pop by (fastforce simp: gives_def)
qed

lemma ctx_TryPopOnTrue_queue:
  "ctx_TryPopOnTrue pred ch = Inr (con_opt, c) \<Longrightarrow>
    queue ch = opt_list con_opt @ queue c \<and> queued ch = length (opt_list con_opt) + queued c"
  by (cases ch)
     (auto simp: rbind_eq_Inr unbounded_TryPopOnTrue_def pop_front_def split: if_splits list.splits)

lemma linked_TryPop:
  assumes "linked n K y"
  shows "gives (on_channel a (ctx_TryPopOnTrue pred) y) (\<lambda>(con_opt, y'). linked n K y' \<and>
    (\<forall>con. con_opt = Some con \<longrightarrow> con_ok (w_heap (sy_world y')) con \<and>
       Suc (queued (sy_channels y' a)) \<le> queued (sy_channels y a)))"
proof -
  have "linked n K y' \<and> (\<forall>con. con_opt = Some con \<longrightarrow> con_ok (w_heap (sy_world y')) con \<and>
      Suc (queued (sy_channels y' a)) \<le> queued (sy_channels y a))"
    if run: "on_channel a (ctx_TryPopOnTrue pred) y = Inr (con_opt, y')" for con_opt y'
  proof -
    obtain c where c: "ctx_TryPopOnTrue pred (sy_channels y a) = Inr (con_opt, c)"
        "y' = y\<lparr>sy_channels := (sy_channels y)(a := c)\<rparr>"
      using run by (auto simp: on_channel_def rbind_eq_Inr)
    note q = ctx_TryPopOnTrue_queue[OF c(1)]
    have "linked n K y'"
      by (rule linked_channels[OF assms]) (use c(2) q in \<open>auto split: if_splits\<close>)
    moreover have "con_opt = Some con \<Longrightarrow> con_ok (w_heap (sy_world y)) con" for con
      using assms q unfolding linked_def by (metis append_Cons list.set_intros(1) opt_list.simps(2))
    ultimately show ?thesis using c(2) q by auto
  qed
  then show ?thesis by (auto simp: gives_def)
qed

lemma linked_Push:
  assumes "linked n K y" and "(i, c, ts) \<in> K" and "c \<in> senders ex"
  shows "gives (PushPropagateContext ex a i y) (linked n K)"
proof -
  have "linked n K y'" if run: "PushPropagateContext ex a i y = Inr y'" for y'
  proof -
    obtain s d con ch where st: "h_spans (w_heap (sy_world y)) i = Some (s, d)"
        "CreatePassOnContext ex (w_heap (sy_world y)) s = Inr con"
        "ctx_Push con (sy_channels y a) = Inr (True, ch)" "y' = y\<lparr>sy_channels := (sy_channels y)(a := ch)\<rparr>"
      using run
      by (auto simp: PushPropagateContext_def ptr_base_def get_span_def on_channel_def rbind_eq_Inr)
    have id: "sp_id s = i" "claim_holds (w_heap (sy_world y)) (i, c, ts)" "GetStartingTs s = ts"
      using assms st(1) by (auto simp: linked_def world_ok_def heap_typed_def claim_holds_def)
    then have ok: "con_ok (w_heap (sy_world y)) con"
      using st(2) assms(3)
      by (auto simp: CreatePassOnContext_def Context_new_def GetValidId_def con_ok_def rbind_eq_Inr)
    have "set (queue ch) \<subseteq> insert con (set (queue (sy_channels y a)))"
      using st(3)
      by (cases "sy_channels y a") (auto simp: rbind_eq_Inr unbounded_Push_def sink_Push_def split: if_splits)
    then show ?thesis
      by (intro linked_channels[OF assms(1)]) (use st(4) ok in \<open>auto split: if_splits\<close>)
  qed
  then show ?thesis by (simp add: gives_def)
qed

lemma linked_AddToSpan:
  assumes "linked n K y"
  shows "gives (on_world (ptr_AddToSpan env i e) y) (\<lambda>(added, y'). linked n K y' \<and>
    sy_channels y' = sy_channels y)"
proof -
  have "linked n K (y\<lparr>sy_world := w\<rparr>)" if "ptr_AddToSpan env i e (sy_world y) = Inr (added, w)" for added w
    using givesD[OF ptr_AddToSpan_linked that, of n] assms linked_world[OF assms]
    by (auto simp: updated_def linked_def)
  then show ?thesis by (auto simp: gives_def on_world_Inr)
qed

lemma iterate_add_erase_linked:
  "world_ok n w \<Longrightarrow> gives (iterate_add_erase env e pend w) (\<lambda>(found, pend', w'). updated n w w' \<and>
    set pend' \<subseteq> set pend \<and> set_option found \<subseteq> set pend)"
proof (induction pend arbitrary: w)
  case (Cons i pend)
  show ?case
    unfolding iterate_add_erase.simps
  proof (rule gives_bind[OF ptr_AddToSpan_linked[OF Cons.prems, of env i e]], clarsimp, intro conjI impI)
    fix w1 assume u: "updated n w w1"
    show "gives (rbind (ptr_IsComplete i w1) (\<lambda>complete. Inr (Some i, if complete then pend else i # pend, w1)))
        (\<lambda>(found, pend', w'). updated n w w' \<and> set pend' \<subseteq> insert i (set pend) \<and> set_option found \<subseteq> insert i (set pend))"
      by (rule gives_bind[OF gives_eq]) (use u in auto)
    show "gives (rbind (iterate_add_erase env e pend w1) (\<lambda>(r, pending', w2). Inr (r, i # pending', w2)))
        (\<lambda>(found, pend', w'). updated n w w' \<and> set pend' \<subseteq> insert i (set pend) \<and> set_option found \<subseteq> insert i (set pend))"
      by (rule gives_bind[OF Cons.IH[OF updated_world[OF u]]]) (use updated_trans[OF u] in auto)
  qed
qed (simp add: updated_refl)

lemma linked_iterate:
  assumes "linked n K y"
  shows "gives (iterate_add_erase env e pend (sy_world y)) (\<lambda>(found, pend', w).
    linked n K (y\<lparr>sy_world := w\<rparr>) \<and> set pend' \<subseteq> set pend \<and> (\<forall>i. found = Some i \<longrightarrow> i \<in> set pend))"
proof -
  have "world_ok n (sy_world y)" using assms by (simp add: linked_def)
  then show ?thesis
    using linked_world[OF assms]
    by (auto intro!: gives_weaken[OF iterate_add_erase_linked] simp: updated_def)
qed

section \<open>Rules for symbolic execution\<close>

definition typed :: "claim set \<Rightarrow> span_type \<Rightarrow> u64 \<Rightarrow> bool" where
  "typed K c i = (\<exists>ts. (i, c, ts) \<in> K)"

lemma typed_insert [simp]: "typed (insert (i, c, ts) K) c' j \<longleftrightarrow> i = j \<and> c = c' \<or> typed K c' j"
  by (auto simp: typed_def)

text \<open>
  Each rule runs the first operation of a sequence on the state that is known to be linked
  and leaves the rest of the sequence on the state it gives.
\<close>

lemma run_check:
  "(\<not> b \<Longrightarrow> gives (f ()) Q) \<Longrightarrow> gives (rbind (throw_on b msg) f) Q"
  "(b \<Longrightarrow> gives (f ()) Q) \<Longrightarrow> gives (rbind (throw_on_false b msg) f) Q"
  "(b \<Longrightarrow> gives (f ()) Q) \<Longrightarrow> gives (rbind (assert_that b msg) f) Q"
  "(\<And>v. x = Some v \<Longrightarrow> gives (g v) Q) \<Longrightarrow> gives (rbind (throw_if_empty x msg) g) Q"
  "(\<And>v. x = Some v \<Longrightarrow> gives (g v) Q) \<Longrightarrow> gives (rbind (or_undefined x msg) g) Q"
  by (auto intro: gives_bind[OF gives_checks(1)] gives_bind[OF gives_checks(2)]
      gives_bind[OF gives_checks(3)] gives_bind[OF gives_checks(4)] gives_bind[OF gives_checks(5)])

lemma run_read:
  "(\<And>b. gives (f1 b) Q) \<Longrightarrow> gives (rbind (ptr_IsComplete i w) f1) Q"
  "(\<And>s. gives (f2 s) Q) \<Longrightarrow> gives (rbind (ptr_base i w) f2) Q"
  "(\<And>d. gives (f3 d) Q) \<Longrightarrow> gives (rbind (ptr_data i w) f3) Q"
  "(\<And>b. gives (f4 b) Q) \<Longrightarrow> gives (rbind (GetBarNumber d) f4) Q"
  "(\<And>b. gives (f1 b) Q) \<Longrightarrow> gives (rbind (NicMmio_IsWrite d) f1) Q"
  "(\<And>b. gives (f1 b) Q) \<Longrightarrow> gives (rbind (DoesKernelReceive d) f1) Q"
  "(\<And>d'. gives (f5 d') Q) \<Longrightarrow> gives (rbind (as_NetDeviceSpan d) f5) Q"
  "(\<And>a. gives (f6 a) Q) \<Longrightarrow> gives (rbind (GetValidChannel node device m) f6) Q"
  by (rule gives_bind[OF gives_eq], blast)+

lemma run_start:
  assumes "linked (Suc n) K y"
    and "\<And>i y'. linked n (insert (i, span_GetType (sa_data args), GetTs e) K) y' \<Longrightarrow> gives (f (i, y')) Q"
  shows "gives (rbind (on_world (StartSpan env (Some e) args) y) f) Q"
    and "gives (rbind (on_world (StartSpanByParent env p (Some e) args) y) f) Q"
  using assms(2)
  by (auto intro!: gives_bind[OF linked_started[OF assms(1), where F = "StartSpan env (Some e) args"
        and e = e and args = args]] StartSpan_linked
      gives_bind[OF linked_started[OF assms(1), where F = "StartSpanByParent env p (Some e) args"
        and e = e and args = args]] StartSpanByParent_linked)

lemma run_start_pass_on:
  assumes "linked (Suc n) K y" and "con_ok (w_heap (sy_world y)) con"
    and "\<And>i y'. linked n (insert (i, span_GetType (sa_data args), GetTs e) K) y' \<Longrightarrow> gives (f (i, y')) Q"
  shows "gives (rbind (on_world (StartSpanByParentPassOnContext env (Some con) (Some e) args) y) f) Q"
  using assms(3)
  by (auto intro!: gives_bind[OF linked_started[OF assms(1), where e = e and args = args
        and F = "StartSpanByParentPassOnContext env (Some con) (Some e) args"]]
      StartSpanByParentPassOnContext_linked assms(2))

lemma run_update:
  assumes "linked n K y" and "\<And>y'. linked n K y' \<Longrightarrow> gives (f y') Q"
  shows "gives (rbind (upd_world (MarkSpanAsDone xp p) y) f) Q"
    and "gives (rbind (upd_world (ptr_MarkAsDone i) y) f) Q"
  by (auto intro!: gives_bind[OF linked_updated[OF assms(1), where f = "MarkSpanAsDone xp p" and m = n]]
      gives_bind[OF linked_updated[OF assms(1), where f = "ptr_MarkAsDone i" and m = n]]
      MarkSpanAsDone_linked ptr_MarkAsDone_linked assms(2))

lemma run_last_update:
  "linked n K y \<Longrightarrow> gives (upd_world (MarkSpanAsDone xp p) y) (linked n K)"
  by (rule linked_updated[where f = "MarkSpanAsDone xp p"]) (auto intro: MarkSpanAsDone_linked)

lemma run_offer:
  assumes "linked n K y" and "\<And>added y'. linked n K y' \<Longrightarrow> sy_channels y' = sy_channels y \<Longrightarrow> gives (f (added, y')) Q"
  shows "gives (rbind (on_world (ptr_AddToSpan env i e) y) f) Q"
  by (rule gives_bind[OF linked_AddToSpan[OF assms(1)]]) (use assms(2) in auto)

lemma run_pop:
  assumes "linked n K y"
    and "\<And>con y'. linked n K y' \<Longrightarrow> con_ok (w_heap (sy_world y')) con \<Longrightarrow> gives (f (con, y')) Q"
  shows "gives (rbind (PopPropagateContext a y) f) Q"
  by (rule gives_bind[OF linked_Pop[OF assms(1)]]) (use assms(2) in auto)

lemma run_push:
  assumes "linked n K y" and "\<exists>c \<in> senders ex. typed K c i" and "\<And>y'. linked n K y' \<Longrightarrow> gives (f y') Q"
  shows "gives (rbind (PushPropagateContext ex a i y) f) Q"
proof -
  obtain c ts where c: "c \<in> senders ex" "(i, c, ts) \<in> K" using assms(2) by (auto simp: typed_def)
  show ?thesis by (rule gives_bind[OF linked_Push[OF assms(1) c(2,1)] assms(3)])
qed

lemma run_iterate:
  assumes "linked n K y"
    and "\<And>found pend' w. linked n K (y\<lparr>sy_world := w\<rparr>) \<Longrightarrow> set pend' \<subseteq> set pend \<Longrightarrow>
      (\<forall>i. found = Some i \<longrightarrow> i \<in> set pend) \<Longrightarrow> gives (f (found, pend', w)) Q"
  shows "gives (rbind (iterate_add_erase env e pend (sy_world y)) f) Q"
  by (rule gives_bind[OF linked_iterate[OF assms(1)]]) (use assms(2) in auto)

text \<open>Branches and patterns.\<close>

lemma run_branch:
  "(b \<Longrightarrow> gives (rbind m1 f1) Q) \<Longrightarrow> (\<not> b \<Longrightarrow> gives (rbind m2 f1) Q) \<Longrightarrow>
    gives (rbind (if b then m1 else m2) f1) Q"
  "(b \<Longrightarrow> gives m3 Q) \<Longrightarrow> (\<not> b \<Longrightarrow> gives m4 Q) \<Longrightarrow> gives (if b then m3 else m4) Q"
  "gives (f2 v) Q \<Longrightarrow> gives (rbind (Inr v) f2) Q"
  "gives (rbind (Inl err) f3) Q"
  "(x = None \<Longrightarrow> gives m3 Q) \<Longrightarrow> (\<And>z. x = Some z \<Longrightarrow> gives (g z) Q) \<Longrightarrow>
    gives (case x of None \<Rightarrow> m3 | Some z \<Rightarrow> g z) Q"
  "gives (h1 a1 c1) Q \<Longrightarrow> gives (case (a1, c1) of (u, v) \<Rightarrow> h1 u v) Q"
  "(\<And>a c. p = (a, c) \<Longrightarrow> gives (h2 a c) Q) \<Longrightarrow> gives (case p of (u, v) \<Rightarrow> h2 u v) Q"
  "(x = None \<Longrightarrow> gives (rbind m1 f1) Q) \<Longrightarrow> (\<And>z. x = Some z \<Longrightarrow> gives (rbind (g1 z) f1) Q) \<Longrightarrow>
    gives (rbind (case x of None \<Rightarrow> m1 | Some z \<Rightarrow> g1 z) f1) Q"
  "gives (rbind m5 (\<lambda>v. rbind (g5 v) f5)) Q \<Longrightarrow> gives (rbind (rbind m5 g5) f5) Q"
  "gives (rbind (h3 a1 c1) f1) Q \<Longrightarrow> gives (rbind (case (a1, c1) of (u, v) \<Rightarrow> h3 u v) f1) Q"
  by (auto split: option.splits prod.splits simp: gives_def rbind_eq_Inr)

lemmas run = run_branch(1-6) run_check run_read run_branch(7-10)
lemmas run_state = run_start run_start_pass_on run_update run_offer run_pop run_iterate

section \<open>The host\<close>

definition host_typed :: "claim set \<Rightarrow> HostSpanner \<Rightarrow> bool" where
  "host_typed K hs =
     (Ball (set_option (hs_last_trace_starting_span hs)) (typed K kHostCall) \<and>
      Ball (set_option (hs_pending_call hs)) (typed K kHostCall) \<and>
      Ball (set_option (hs_pending_int hs)) (typed K kHostInt) \<and>
      Ball (set_option (hs_pending_msix hs)) (typed K kHostMsix) \<and>
      Ball (set_option (hs_pending_pci hs)) (typed K kHostPci) \<and>
      Ball (set (hs_pending_dma hs)) (typed K kHostDma) \<and>
      Ball (set (hs_pending_mmio hs)) (typed K kHostMmio))"

definition kept :: "(claim set \<Rightarrow> 's \<Rightarrow> bool) \<Rightarrow> nat \<Rightarrow> claim set \<Rightarrow> bool \<times> 's \<times> 'x sys \<Rightarrow> bool" where
  "kept ok m K = (\<lambda>(b, s, y). \<exists>K'. K \<subseteq> K' \<and> ok K' s \<and> linked m K' y)"

lemma keptI: "linked m K' y \<Longrightarrow> K \<subseteq> K' \<Longrightarrow> ok K' s \<Longrightarrow> kept ok m K (b, s, y)"
  by (auto simp: kept_def)

lemma host_typed_insert: "host_typed K hs \<Longrightarrow> host_typed (insert k K) hs"
  by (cases k) (simp add: host_typed_def)

lemma kept_Inr: "linked m K' y \<Longrightarrow> K \<subseteq> K' \<Longrightarrow> ok K' s \<Longrightarrow> gives (Inr (b, s, y)) (kept ok m K)"
  by (simp add: keptI)

lemmas host_typed_defs = host_typed_def host_args_def spanner_args_def

lemma linked_Suc: "linked (Suc m) K y \<Longrightarrow> linked m K y"
  by (rule linked_mono) auto

text \<open>Every iteration over the copy contexts takes an id and shortens the queue by one.\<close>

lemma copy_contexts_linked:
  "linked (queued (sy_channels y a) + m) K y \<Longrightarrow>
    gives (copy_contexts k xp p ts a y) (linked m K)"
proof (induction k arbitrary: y)
  case (Suc k)
  have step: "gives (rbind (upd_world (finish_copy xp p con) y1) (copy_contexts k xp p ts a)) (linked m K)"
    if y1: "linked (queued (sy_channels y a) + m) K y1" "con_ok (w_heap (sy_world y1)) con"
      "Suc (queued (sy_channels y1 a)) \<le> queued (sy_channels y a)" for con and y1 :: "'a sys"
  proof -
    have "linked (Suc (queued (sy_channels y1 a) + m)) K y1"
      by (rule linked_mono[OF y1(1)]) (use y1(3) in auto)
    then have "gives (upd_world (finish_copy xp p con) y1) (linked (queued (sy_channels y1 a) + m) K)"
      by (rule linked_updated[where f = "finish_copy xp p con"]) (rule finish_copy_linked[OF _ y1(2)])
    moreover have "sy_channels y2 = sy_channels y1" if "upd_world (finish_copy xp p con) y1 = Inr y2" for y2
      using that by (auto simp: upd_world_Inr)
    ultimately show ?thesis
      by (intro gives_bind[OF gives_eq] Suc.IH) (auto dest: givesD)
  qed
  have stop: "linked m K y1" if "linked (queued (sy_channels y a) + m) K y1" for y1 :: "'a sys"
    by (rule linked_mono[OF that]) auto
  show ?case
    unfolding copy_contexts.simps
    by (rule gives_bind[OF linked_TryPop[OF Suc.prems]]) (auto split: option.splits intro!: step stop)
qed simp

lemma FinishPendingSpan_linked:
  assumes "linked (copy_fuel (hs_from_nic_receives_queue hs) y + m) K y"
  shows "gives (FinishPendingSpan xp hs y) (linked m K)"
proof (cases "hs_pending_call hs")
  case None
  then show ?thesis using linked_mono[OF assms, of m K] by (simp add: FinishPendingSpan_def)
next
  case (Some p)
  let ?a = "hs_from_nic_receives_queue hs"
  have fin: "gives (upd_world (MarkSpanAsDone xp (Some p)) z) (linked m K)" if "linked m K z" for z
    by (rule run_last_update[OF that])
  have received: "gives (rbind (PopPropagateContext ?a y) (\<lambda>(con, y1).
      rbind (upd_world (AddParentLazily (Some p) (Some con)) y1) (\<lambda>y2.
      rbind (ptr_base p (sy_world y2)) (\<lambda>s.
      rbind (copy_contexts (copy_fuel ?a y2) xp p (GetStartingTs s) ?a y2) (\<lambda>y3.
        upd_world (MarkSpanAsDone xp (Some p)) y3))))) (linked m K)"
  proof (rule gives_bind[OF linked_Pop[OF assms]], clarify)
    fix con and y1 :: "'a sys"
    assume y1: "linked (copy_fuel ?a y + m) K y1" "con_ok (w_heap (sy_world y1)) con"
      and q: "\<forall>b. queued (sy_channels y1 b) \<le> queued (sy_channels y b)"
    have "gives (upd_world (AddParentLazily (Some p) (Some con)) y1) (linked (copy_fuel ?a y + m) K)"
      by (rule linked_updated[where f = "AddParentLazily (Some p) (Some con)", OF y1(1)])
         (use y1(2) AddParentLazily_linked in auto)
    moreover have "sy_channels y2 = sy_channels y1"
      if "upd_world (AddParentLazily (Some p) (Some con)) y1 = Inr y2" for y2
      using that by (auto simp: upd_world_Inr)
    ultimately have "linked (queued (sy_channels y2 ?a) + m) K y2"
      if "upd_world (AddParentLazily (Some p) (Some con)) y1 = Inr y2" for y2
      using that q by (auto dest!: givesD intro: linked_mono simp: copy_fuel_def le_SucI)
    then show "gives (rbind (upd_world (AddParentLazily (Some p) (Some con)) y1) (\<lambda>y2.
      rbind (ptr_base p (sy_world y2)) (\<lambda>s.
      rbind (copy_contexts (copy_fuel ?a y2) xp p (GetStartingTs s) ?a y2) (\<lambda>y3.
        upd_world (MarkSpanAsDone xp (Some p)) y3)))) (linked m K)"
      by (intro gives_bind[OF gives_eq] run_read(2) gives_bind[OF copy_contexts_linked fin])
  qed
  show ?thesis
    using received fin linked_mono[OF assms, of m K]
    by (auto simp: FinishPendingSpan_def Some intro!: run_read)
qed

lemma CreateTraceStartingSpan_linked:
  assumes "linked (copy_fuel (hs_from_nic_receives_queue hs) y + Suc m) K y" and "host_typed K hs"
  shows "gives (CreateTraceStartingSpan env xp e fragmented (hs, y)) (kept host_typed m K)"
  unfolding CreateTraceStartingSpan_def prod.case
proof (rule gives_bind[OF FinishPendingSpan_linked[OF assms(1)]])
  fix y1 :: "'a sys"
  assume y1: "linked (Suc m) K y1"
  show "gives (rbind (on_world (StartSpan env (Some e)
      (host_args hs e (HostCallD (HostCallSpan_init fragmented)))) y1) (\<lambda>(sp, y2).
      Inr (True, hs\<lparr>hs_pending_call := Some sp, hs_last_trace_starting_span := Some sp,
        hs_pci_write_before := False\<rparr>, y2))) (kept host_typed m K)"
    by (rule run_start[OF y1], rule run_branch(6), erule kept_Inr)
       (use assms(2) in \<open>auto simp: host_typed_defs\<close>)
qed

text \<open>Without a pending span nothing is finished: the channels stay as they are.\<close>

lemma CreateTraceStartingSpan_first:
  assumes "linked (Suc n) K y" and "host_typed K hs" and "hs_pending_call hs = None"
  shows "gives (CreateTraceStartingSpan env xp e fragmented (hs, y))
    (\<lambda>(b, hs', y'). kept host_typed n K (b, hs', y') \<and> sy_channels y' = sy_channels y \<and>
       hs_from_nic_receives_queue hs' = hs_from_nic_receives_queue hs)"
proof -
  have "gives (on_world (StartSpan env (Some e) args) y) (\<lambda>(i, y'). sy_channels y' = sy_channels y)" for args
    by (auto simp: gives_def on_world_Inr)
  moreover have "gives (CreateTraceStartingSpan env xp e fragmented (hs, y)) (kept host_typed n K)"
    unfolding CreateTraceStartingSpan_def prod.case
    by (rule gives_bind[where P = "linked (Suc n) K"])
       (use assms in \<open>auto simp: FinishPendingSpan_def host_typed_defs intro!: run_start kept_Inr\<close>)
  ultimately show ?thesis
    using assms(3)
    by (fastforce simp: CreateTraceStartingSpan_def FinishPendingSpan_def gives_def rbind_eq_Inr)
qed

lemma Host_HandelCall_linked:
  assumes "linked (host_cost hs y + m) K y" and "host_typed K hs"
  shows "gives (Host_HandelCall env xp e (hs, y)) (kept host_typed m K)"
proof -
  have y: "linked (Suc (copy_fuel (hs_from_nic_receives_queue hs) y + Suc m)) K y"
    using assms(1) by (simp add: host_cost_def)
  have first: "gives (if hs_pending_call hs = None then CreateTraceStartingSpan env xp e False (hs, y)
      else Inr (True, hs, y))
    (\<lambda>(b, hs1, y1). \<exists>K1. K \<subseteq> K1 \<and> host_typed K1 hs1 \<and>
       linked (copy_fuel (hs_from_nic_receives_queue hs1) y1 + Suc m) K1 y1)"
  proof (cases "hs_pending_call hs")
    case None
    show ?thesis
      unfolding None simp_thms if_True
      by (rule gives_weaken[OF CreateTraceStartingSpan_first[OF y assms(2) None]])
         (auto simp: kept_def copy_fuel_def)
  qed (use linked_Suc[OF y] assms(2) in auto)
  show ?thesis
    unfolding Host_HandelCall_def prod.case
  proof (rule gives_bind[OF first], clarify)
    fix b hs1 K1 and y1 :: "'a sys"
    assume K1: "K \<subseteq> K1" "host_typed K1 hs1"
        "linked (copy_fuel (hs_from_nic_receives_queue hs1) y1 + Suc m) K1 y1"
    have small: "linked m K1 z" if "linked (copy_fuel (hs_from_nic_receives_queue hs1) y1 + Suc m) K1 z" for z
      by (rule linked_mono[OF that]) auto
    have again: "gives (CreateTraceStartingSpan env xp e False (hs1, z)) (kept host_typed m K)"
      if "linked (copy_fuel (hs_from_nic_receives_queue hs1) y1 + Suc m) K1 z"
        "sy_channels z = sy_channels y1" for z :: "'a sys"
    proof -
      have "linked (copy_fuel (hs_from_nic_receives_queue hs1) z + Suc m) K1 z"
        using that by (simp add: copy_fuel_def)
      from CreateTraceStartingSpan_linked[OF this K1(2)] show ?thesis
        by (rule gives_weaken) (use K1(1) in \<open>auto simp: kept_def\<close>)
    qed
    show "gives (if \<not> b then Inr (False, hs1, y1)
       else
         rbind (throw_if_empty (hs_pending_call hs1) ''Span is null'') (\<lambda>pending.
         rbind (on_world (ptr_AddToSpan env pending e) y1) (\<lambda>(added, y2).
           if added then Inr (True, hs1\<lparr>hs_pci_write_before := is_pci_write env (Some e)\<rparr>, y2)
           else
             rbind (ptr_IsComplete pending (sy_world y2)) (\<lambda>complete.
               if \<not> complete then Inr (False, hs1, y2)
               else
                 rbind (CreateTraceStartingSpan env xp e False (hs1, y2))
                   (\<lambda>(created_new, hs2, y3).
                 rbind (assert_that created_new ''created_new'') (\<lambda>_.
                   if hs_pending_call hs2 = None then Inr (False, hs2, y3)
                   else Inr (True, hs2, y3))))))) (kept host_typed m K)"
      using K1
      by - (rule run | (rule run_offer, assumption)
        | (rule kept_Inr, erule small, assumption, force simp: host_typed_defs)
        | (rule gives_bind, erule again, assumption) | (force simp: kept_def))+
  qed
qed

lemma host_handlers_linked:
  assumes "linked (Suc m) K y" and "host_typed K hs"
  shows "gives (Host_HandelMmio env xp e (hs, y)) (kept host_typed m K)"
    and "gives (Host_HandelPci env xp e (hs, y)) (kept host_typed m K)"
    and "gives (Host_HandelDma env xp e (hs, y)) (kept host_typed m K)"
    and "gives (Host_HandelMsix env e (hs, y)) (kept host_typed m K)"
    and "gives (Host_HandelInt env xp e (hs, y)) (kept host_typed m K)"
  using assms
  unfolding Host_HandelMmio_def Host_HandelPci_def Host_HandelDma_def Host_HandelDma_rest_def
    Host_HandelMsix_def Host_HandelInt_def finish_unconfirmed_pci_def Let_def
  by - ((rule run | (rule run_state, assumption, (assumption | (erule (1) keeps_con))?)
      | (rule run_push, assumption, simp add: host_typed_defs)
      | (rule kept_Inr, (assumption | erule linked_Suc), blast, (clarsimp simp: host_typed_defs split: if_splits; blast)))+)[5]

section \<open>The NIC and the network\<close>

definition nic_typed :: "claim set \<Rightarrow> NicSpanner \<Rightarrow> bool" where
  "nic_typed K ns =
     (Ball (set_option (ns_last_causing ns)) (\<lambda>i. typed K kNicMmio i \<or> typed K kNicEth i) \<and>
      Ball (set (ns_pending_dma ns)) (typed K kNicDma))"

definition net_typed :: "claim set \<Rightarrow> NetworkSpanner \<Rightarrow> bool" where
  "net_typed K ws =
     (Ball (set_option (ws_last_finished ws)) (typed K kNetDeviceSpan) \<and>
      Ball (set (ws_active ws)) (typed K kNetDeviceSpan))"

lemmas nic_typed_defs = nic_typed_def nic_args_def spanner_args_def
lemmas net_typed_defs = net_typed_def net_args_def spanner_args_def

lemma nic_handlers_linked:
  assumes "linked (Suc m) K y" and "nic_typed K ns"
  shows "gives (Nic_HandelMmio env xp e (ns, y)) (kept nic_typed m K)"
    and "gives (Nic_HandelDma env xp e (ns, y)) (kept nic_typed m K)"
    and "gives (Nic_HandelTxrx env xp e (ns, y)) (kept nic_typed m K)"
    and "gives (Nic_HandelMsix env xp e (ns, y)) (kept nic_typed m K)"
  using assms
  unfolding Nic_HandelMmio_def Nic_HandelDma_def Nic_HandelTxrx_def Nic_HandelMsix_def
    Nic_StartTx_def Nic_StartRx_def Let_def
  by - ((rule run | (rule run_state, assumption, assumption?)
      | (rule run_push, assumption, (clarsimp simp: nic_typed_defs; blast))
      | (rule kept_Inr, (assumption | erule linked_Suc), blast, (clarsimp simp: nic_typed_defs split: if_splits; blast)))+)[4]

text \<open>The context of a further device is made from the span finished last.\<close>

lemma run_pass_on:
  assumes "linked n K y" and "i \<in> dom (h_spans (w_heap (sy_world y))) \<Longrightarrow> typed K kNetDeviceSpan i"
    and "\<And>con. con_ok (w_heap (sy_world y)) con \<Longrightarrow> gives (rbind (g con) f) Q"
  shows "gives (rbind (ptr_base i (sy_world y))
    (\<lambda>s. rbind (rbind (CreatePassOnContext kRx (w_heap (sy_world y)) s) g) f)) Q"
proof -
  have "con_ok (w_heap (sy_world y)) con"
    if run: "ptr_base i (sy_world y) = Inr s" "CreatePassOnContext kRx (w_heap (sy_world y)) s = Inr con" for s con
  proof -
    obtain d where sp: "h_spans (w_heap (sy_world y)) i = Some (s, d)"
      using run(1) by (auto simp: ptr_base_def get_span_def rbind_eq_Inr)
    then obtain ts where "(i, kNetDeviceSpan, ts) \<in> K" using assms(2) by (auto simp: typed_def)
    then have "claim_holds (w_heap (sy_world y)) (i, kNetDeviceSpan, ts)" by (rule linked_claim[OF assms(1)])
    moreover have "sp_id s = i" using assms(1) sp by (auto simp: linked_def world_ok_def heap_typed_def)
    ultimately show ?thesis
      using run(2) sp
      by (auto simp: CreatePassOnContext_def Context_new_def GetValidId_def con_ok_def claim_holds_def rbind_eq_Inr)
  qed
  then show ?thesis by (intro gives_bind[OF gives_eq] run_branch(9) assms(3))
qed

text \<open>An event some span accepted, and one that may start a span.\<close>

lemma Net_FinishSpan_linked:
  assumes "linked m K y" and "net_typed K ws" and "typed K kNetDeviceSpan i"
  shows "gives (Net_FinishSpan xp i (ws, y)) (kept net_typed m K)"
  using assms
  unfolding Net_FinishSpan_def
  by - (rule run | (rule run_state, assumption) | (rule run_push, assumption, (clarsimp simp: net_typed_defs; blast))
      | (rule kept_Inr, assumption, blast, (clarsimp simp: net_typed_defs split: if_splits; blast)))+

lemma Net_StartSpan_linked:
  assumes "linked (Suc m) K y" and "net_typed K ws"
  shows "gives (Net_StartSpan env n e (ws, y)) (kept net_typed m K)"
  using assms
  unfolding Net_StartSpan_def Net_context_def
  by - ((rule run_pass_on, assumption, (clarsimp simp: net_typed_defs; blast)) | rule run
      | (rule run_state, assumption, assumption?)
      | (rule kept_Inr, (assumption | erule linked_Suc), blast, (clarsimp simp: net_typed_defs split: if_splits; blast)))+

lemma HandelNetworkEvent_linked:
  assumes "linked (Suc m) K y" and "net_typed K ws"
  shows "gives (HandelNetworkEvent env xp e (ws, y)) (kept net_typed m K)"
  using assms linked_Suc[OF assms(1)]
  unfolding HandelNetworkEvent_def Let_def
  by - (rule run | (rule run_iterate, assumption)
      | (rule kept_Inr, assumption, blast, assumption)
      | (rule Net_FinishSpan_linked, erule linked_Suc) | (rule Net_StartSpan_linked, assumption)
      | (clarsimp simp: net_typed_defs; blast))+

section \<open>The run\<close>

fun spanner_typed :: "claim set \<Rightarrow> spanner \<Rightarrow> bool" where
  "spanner_typed K (HostS hs) = host_typed K hs"
| "spanner_typed K (NicS ns) = nic_typed K ns"
| "spanner_typed K (NetS ws) = net_typed K ws"

lemma spanner_typed_mono: "spanner_typed K s \<Longrightarrow> K \<subseteq> K' \<Longrightarrow> spanner_typed K' s"
  by (cases s) (auto simp: host_typed_def nic_typed_def net_typed_def typed_def; blast)+

lemma kept_ignored: "linked n K y \<Longrightarrow> m \<le> n \<Longrightarrow> ok K s \<Longrightarrow> kept ok m K (b, s, y)"
  using linked_mono by (fastforce simp: kept_def)

lemma Spanner_consume_kept:
  assumes "Spanner_consume handlers (Some e) (s, y) = Inr (s', y')"
    and "RegisterHandlers hs [] = Inr handlers"
    and "\<And>t h. (t, h) \<in> set hs \<Longrightarrow> gives (h e (s, y)) (kept ok m K)" and "kept ok m K (True, s, y)"
  shows "kept ok m K (True, s', y')"
  using assms(1,2)
proof (rule Spanner_consume_cases)
  fix h b'
  assume h: "(GetType e, h) \<in> set hs" and run: "h e (s, y) = Inr (b', s', y')"
  from givesD[OF assms(3)[OF h] run] show ?thesis by (simp add: kept_def)
qed (use assms(4) in simp)

lemma Host_consume_linked:
  assumes "Host_consume env xp (Some e) (hs, y) = Inr (hs', y')"
    and "linked (host_cost hs y + m) K y" and "host_typed K hs"
  shows "kept host_typed m K (True, hs', y')"
proof -
  obtain handlers where h: "host_handlers env xp = Inr handlers"
      "Spanner_consume handlers (Some e) (hs, y) = Inr (hs', y')"
    using assms(1) by (auto simp: Host_consume_def rbind_eq_Inr)
  have y: "linked (Suc m) K y"
    by (rule linked_mono[OF assms(2)]) (auto simp: host_cost_def)
  show ?thesis
    by (rule Spanner_consume_kept[OF h(2) h(1)[unfolded host_handlers_def]])
       (use Host_HandelCall_linked[OF assms(2,3)] host_handlers_linked[OF y assms(3)]
          kept_ignored[OF y, of m] assms(3) in auto)
qed

lemma Nic_consume_linked:
  assumes "Nic_consume env xp (Some e) (ns, y) = Inr (ns', y')"
    and "linked (Suc m) K y" and "nic_typed K ns"
  shows "kept nic_typed m K (True, ns', y')"
proof -
  obtain handlers where h: "nic_handlers env xp = Inr handlers"
      "Spanner_consume handlers (Some e) (ns, y) = Inr (ns', y')"
    using assms(1) by (auto simp: Nic_consume_def rbind_eq_Inr)
  show ?thesis
    by (rule Spanner_consume_kept[OF h(2) h(1)[unfolded nic_handlers_def]])
       (use nic_handlers_linked[OF assms(2,3)] kept_ignored[OF assms(2), of m] assms(3) in auto)
qed

lemma Net_consume_linked:
  assumes "Net_consume env xp (Some e) (ws, y) = Inr (ws', y')"
    and "linked (Suc m) K y" and "net_typed K ws"
  shows "kept net_typed m K (True, ws', y')"
proof -
  obtain handlers where h: "net_handlers env xp = Inr handlers"
      "Spanner_consume handlers (Some e) (ws, y) = Inr (ws', y')"
    using assms(1) by (auto simp: Net_consume_def rbind_eq_Inr)
  show ?thesis
    by (rule Spanner_consume_kept[OF h(2) h(1)[unfolded net_handlers_def]])
       (use HandelNetworkEvent_linked[OF assms(2,3)] kept_ignored[OF assms(2), of m] assms(3) in auto)
qed

lemma spanner_consume_linked:
  assumes "spanner_consume env xp (Some e) (s, y) = Inr (s', y')"
    and "linked (spanner_cost s y + m) K y" and "spanner_typed K s"
  shows "\<exists>K'. K \<subseteq> K' \<and> spanner_typed K' s' \<and> linked m K' y'"
  using assms
  by (cases s)
     (auto simp: rbind_eq_Inr kept_def
       dest!: Host_consume_linked Nic_consume_linked Net_consume_linked)

lemma columbo_linked:
  assumes "columbo_run env xp x0 s"
  shows "\<exists>K. linked 0 K (snd s) \<and> (\<forall>t \<in> set (fst s). spanner_typed K t)"
  using assms
proof induction
  case (run_setup s)
  obtain ss y where s: "s = (ss, y)" by (cases s)
  have "linked 0 {} y" "\<forall>t \<in> set ss. spanner_typed {} t"
    using run_setup
    by (auto simp: s setup_defs linked_def world_ok_def heap_typed_def ids_left_def fresh_id_def
        id_counters_init_def CoroUnBoundedChannel_new_def host_typed_def nic_typed_def net_typed_def split: if_splits)
  then show ?case by (auto simp: s)
next
  case (run_step s s')
  obtain ss y where s: "s = (ss, y)" by (cases s)
  obtain k e t y' where st: "s' = (ss[k := t], y')" "k < length ss"
      "unat (fresh_id (sy_world y)) + spanner_cost (ss ! k) y < 2 ^ 64"
      "spanner_consume env xp (Some e) (ss ! k, y) = Inr (t, y')"
    using run_step.hyps(2)[unfolded s] by (elim columbo_stepE) simp
  obtain K where K: "linked 0 K y" "\<forall>t \<in> set ss. spanner_typed K t"
    using run_step.IH by (auto simp: s)
  have "linked (spanner_cost (ss ! k) y) K y"
    using K(1) st(3) by (simp add: linked_def world_ok_def ids_left_def)
  then obtain K' where K': "K \<subseteq> K'" "spanner_typed K' t" "linked 0 K' y'"
    using spanner_consume_linked[OF st(4), of 0 K] K(2) st(2) by auto
  have "spanner_typed K' u" if "u \<in> set (ss[k := t])" for u
    using that set_update_subset_insert[of ss k t] K' K(2) spanner_typed_mono[of K u K'] by blast
  then show ?case using K'(3) by (auto simp: st(1))
qed

end
