(* ===== verification/AccessLinks.thy ===== *)
theory AccessLinks
  imports LinkHandlers
begin

text \<open>
  How a NIC's accesses find their host's: for each MMIO access to the device the host pushes
  a context, and the NIC takes one for each access it sees. This theory runs accesses on both
  sides, with the responses and completions the host sees in between, and follows the spans.
\<close>

section \<open>Fresh ids, and heaps that only grow\<close>

definition ids_fresh :: "nat \<Rightarrow> 'x world \<Rightarrow> bool" where
  "ids_fresh n w =
     (ids_left n w \<and> (\<forall>i \<in> set (w_exported w). i < fresh_id w) \<and>
      (\<forall>(k, tr) \<in> set (w_traces w). \<forall>i \<in> set (tr_spans tr). i < fresh_id w))"

text \<open>The spans outside \<open>M\<close> stay as they are, contexts are only added, and nothing is exported.\<close>

definition grows :: "u64 set \<Rightarrow> 'x world \<Rightarrow> 'x world \<Rightarrow> bool" where
  "grows M w w' =
     ((\<forall>i \<in> known_ids w - M. h_spans (w_heap w') i = h_spans (w_heap w) i) \<and>
      (\<exists>cs. h_contexts (w_heap w') = h_contexts (w_heap w) @ cs) \<and> w_exported w' = w_exported w)"

text \<open>The span \<open>i\<close> holds the events \<open>es\<close>, and belongs to the trace \<open>t\<close> as a child of \<open>p\<close>.\<close>

definition child_span :: "'x world \<Rightarrow> u64 \<Rightarrow> u64 \<Rightarrow> event list \<Rightarrow> u64 \<Rightarrow> bool" where
  "child_span w t p es i =
     (\<exists>s d a c. h_spans (w_heap w) i = Some (s, d) \<and> sp_id s = i \<and> i \<noteq> 0 \<and> sp_events s = es \<and>
        sp_trace_context s = Some a \<and> a < length (h_contexts (w_heap w)) \<and>
        h_contexts (w_heap w) ! a = c \<and> tc_has_parent c \<and> tc_parent_id c = p \<and> p \<noteq> 0 \<and>
        tc_trace_id c = t)"

text \<open>The span \<open>p\<close> is there and belongs to the trace \<open>t\<close>.\<close>

definition in_trace :: "'x world \<Rightarrow> u64 \<Rightarrow> u64 \<Rightarrow> bool" where
  "in_trace w t p =
     (\<exists>s d a. h_spans (w_heap w) p = Some (s, d) \<and> sp_id s = p \<and> p \<noteq> 0 \<and>
        sp_trace_context s = Some a \<and> a < length (h_contexts (w_heap w)) \<and>
        tc_trace_id (h_contexts (w_heap w) ! a) = t \<and> t \<noteq> 0)"

lemma growsD:
  assumes "grows M w w'" and "h_spans (w_heap w) i = Some sp" and "i \<notin> M"
  shows "h_spans (w_heap w') i = Some sp"
    and "a < length (h_contexts (w_heap w)) \<Longrightarrow>
      a < length (h_contexts (w_heap w')) \<and> h_contexts (w_heap w') ! a = h_contexts (w_heap w) ! a"
proof -
  have "i \<in> known_ids w" using assms(2) by blast
  then show "h_spans (w_heap w') i = Some sp" using assms unfolding grows_def by (metis DiffI)
  show "a < length (h_contexts (w_heap w)) \<Longrightarrow>
      a < length (h_contexts (w_heap w')) \<and> h_contexts (w_heap w') ! a = h_contexts (w_heap w) ! a"
    using assms(1) by (auto simp: grows_def nth_append)
qed

lemma grows_child:
  assumes "grows M w w'" and "child_span w t p es i" and "i \<notin> M"
  shows "child_span w' t p es i"
proof -
  obtain s d a where sp: "h_spans (w_heap w) i = Some (s, d)" "a < length (h_contexts (w_heap w))"
      "sp_id s = i \<and> i \<noteq> 0 \<and> sp_events s = es \<and> sp_trace_context s = Some a \<and>
       tc_has_parent (h_contexts (w_heap w) ! a) \<and> tc_parent_id (h_contexts (w_heap w) ! a) = p \<and>
       p \<noteq> 0 \<and> tc_trace_id (h_contexts (w_heap w) ! a) = t"
    using assms(2) by (auto simp: child_span_def)
  show ?thesis using growsD[OF assms(1) sp(1) assms(3)] sp(2,3) by (auto simp: child_span_def)
qed

lemma grows_in_trace:
  assumes "grows M w w'" and "in_trace w t p" and "p \<notin> M"
  shows "in_trace w' t p"
proof -
  obtain s d a where sp: "h_spans (w_heap w) p = Some (s, d)" "a < length (h_contexts (w_heap w))"
      "sp_id s = p \<and> p \<noteq> 0 \<and> sp_trace_context s = Some a \<and>
       tc_trace_id (h_contexts (w_heap w) ! a) = t \<and> t \<noteq> 0"
    using assms(2) by (auto simp: in_trace_def)
  show ?thesis using growsD[OF assms(1) sp(1) assms(3)] sp(2,3) by (auto simp: in_trace_def)
qed

lemma child_known: "child_span w t p es i \<Longrightarrow> i \<in> known_ids w"
  by (auto simp: child_span_def)

section \<open>Starting a child\<close>

lemma AddSpanToTrace_fresh:
  assumes "\<forall>(k, tr) \<in> set (w_traces w). i \<notin> set (tr_spans tr)"
  shows "\<exists>trs. AddSpanToTraceIfTraceExists t i w = Inr (w\<lparr>w_traces := trs\<rparr>) \<and>
    (\<forall>(k, tr) \<in> set trs. set (tr_spans tr) \<subseteq> insert i (\<Union>(k, tr) \<in> set (w_traces w). set (tr_spans tr)))"
proof (cases "map_of (w_traces w) t")
  case None
  then show ?thesis
    by (intro exI[of _ "w_traces w"]) (auto simp: AddSpanToTraceIfTraceExists_def GetTrace_def)
next
  case (Some tr)
  then have tr: "(t, tr) \<in> set (w_traces w)" by (rule map_of_SomeD)
  then have new: "i \<notin> set (tr_spans tr)" using assms by blast
  let ?tr = "tr\<lparr>tr_spans := tr_spans tr @ [i]\<rparr>"
  let ?trs = "map (\<lambda>(k, v). (k, if k = t then ?tr else v)) (w_traces w)"
  have "AddSpanToTraceIfTraceExists t i w = Inr (w\<lparr>w_traces := ?trs\<rparr>)"
    using Some new by (simp add: AddSpanToTraceIfTraceExists_def GetTrace_def Trace_AddSpan_def put_trace_def)
  moreover have "set (tr_spans v) \<subseteq> insert i (\<Union>(k, tr) \<in> set (w_traces w). set (tr_spans tr))"
    if "(k, v) \<in> set ?trs" for k v
  proof -
    have "v = ?tr \<or> (k, v) \<in> set (w_traces w)" using that by (auto split: if_splits)
    moreover have "set (tr_spans ?tr) \<subseteq> insert i (\<Union>(k, tr) \<in> set (w_traces w). set (tr_spans tr))"
      using tr by auto
    ultimately show ?thesis by auto
  qed
  then have "\<forall>(k, v) \<in> set ?trs. set (tr_spans v) \<subseteq>
      insert i (\<Union>(k, tr) \<in> set (w_traces w). set (tr_spans tr))"
    by blast
  ultimately show ?thesis by blast
qed

lemma StartSpanByParentInternal_child:
  assumes fr: "ids_fresh (Suc n) w" and ids: "t \<noteq> 0" "p \<noteq> 0"
    and add: "AddToSpan env (Some e)
        (EventSpan_fresh (fresh_id w) (sa_source_id args) (length (h_contexts (w_heap w)))
           (sa_service_name args), sa_data args) = Inr (True, s, d)"
    and s: "sp_id s = fresh_id w" "sp_events s = [e]"
      "sp_trace_context s = Some (length (h_contexts (w_heap w)))"
  shows "\<exists>w'. StartSpanByParentInternal env t p ts e args w = Inr (fresh_id w, w') \<and>
    ids_fresh n w' \<and> grows {} w w' \<and> known_ids w' = insert (fresh_id w) (known_ids w) \<and>
    child_span w' t p [e] (fresh_id w) \<and> h_spans (w_heap w') (fresh_id w) = Some (s, d)"
proof -
  let ?i = "fresh_id w" and ?h = "w_heap w"
  let ?c = "\<lparr>tc_trace_id = t, tc_id = next_trace_context_id (h_counters ?h), tc_parent_id = p,
    tc_has_parent = True, tc_parent_start_ts = ts\<rparr>"
  let ?w1 = "w\<lparr>w_heap := ?h\<lparr>h_spans := (h_spans ?h)(?i \<mapsto> (s, d)), h_contexts := h_contexts ?h @ [?c],
    h_counters := (h_counters ?h)\<lparr>next_trace_context_id := next_trace_context_id (h_counters ?h) + 1,
      next_span_id := ?i + 1\<rparr>\<rparr>\<rparr>"
  have left: "ids_left (Suc n) w" using fr by (simp add: ids_fresh_def)
  then have nz: "?i \<noteq> 0" and new: "?i \<notin> known_ids w" by (auto simp: ids_left_def)
  have lt: "?i < ?i + 1"
    using left by (auto simp: ids_left_def word_less_nat_alt unat_word_ariths)
  have "\<forall>(k, tr) \<in> set (w_traces ?w1). ?i \<notin> set (tr_spans tr)"
    using fr by (auto simp: ids_fresh_def)
  then obtain trs where trs: "AddSpanToTraceIfTraceExists t ?i ?w1 = Inr (?w1\<lparr>w_traces := trs\<rparr>)"
      "\<forall>(k, tr) \<in> set trs. set (tr_spans tr) \<subseteq> insert ?i (\<Union>(k, tr) \<in> set (w_traces w). set (tr_spans tr))"
    using AddSpanToTrace_fresh[of ?w1 ?i t] by auto
  let ?w' = "?w1\<lparr>w_traces := trs\<rparr>"
  let ?w0 = "w\<lparr>w_heap := ?h\<lparr>h_contexts := h_contexts ?h @ [?c],
    h_counters := (h_counters ?h)\<lparr>next_trace_context_id := next_trace_context_id (h_counters ?h) + 1\<rparr>\<rparr>\<rparr>"
  have "RegisterCreateContextParent t p ts w = Inr (length (h_contexts ?h), ?w0)"
    using ids
    by (simp add: RegisterCreateContextParent_def IsValidId_def kInvalidId_def take_context_id_def
        GetNextTraceContextId_def TraceContext_child_def alloc_ctx_def)
  moreover have "create_span env (length (h_contexts ?h)) e args ?w0 = Inr (?i, ?w1)"
    using add s(1) by (simp add: create_span_def EventSpan_new_fresh fresh_id_def put_span_def)
  ultimately have "StartSpanByParentInternal env t p ts e args w = Inr (?i, ?w')"
    using ids trs(1) by (simp add: StartSpanByParentInternal_def IsValidId_def kInvalidId_def)
  moreover have "ids_left n ?w'"
    by (rule ids_left_new[OF left]) (auto simp: fresh_id_def)
  moreover have "i < ?i + 1" if "i < ?i" for i using that lt by (rule order.strict_trans)
  then have "ids_fresh n ?w'"
    using fr \<open>ids_left n ?w'\<close> trs(2) lt by (fastforce simp: ids_fresh_def fresh_id_def)
  moreover have "grows {} w ?w'" using new by (auto simp: grows_def)
  moreover have "child_span ?w' t p [e] ?i" using s nz ids by (auto simp: child_span_def)
  ultimately show ?thesis by (intro exI[of _ ?w']) auto
qed

section \<open>The host's side\<close>

text \<open>A read or write of the device's memory, BAR 0.\<close>

fun device_access :: "event \<Rightarrow> bool" where
  "device_access (HostMmioR b i a sz bar offset) = (bar = 0)"
| "device_access (HostMmioW b i a sz bar offset posted) = (bar = 0)"
| "device_access _ = False"

lemma device_access_facts:
  assumes "device_access e"
  shows "GetType e = kHostMmioWT \<or> GetType e = kHostMmioRT"
    and "\<exists>offset. as_HostMmioOp e = Some (0, offset)"
    and "HostMmio_bar e bar = 0"
  using assms by (cases e rule: device_access.cases; simp)+

text \<open>What the host's log shows of an access later: a completion, or the response of a posted write.\<close>

definition is_response :: "event \<Rightarrow> bool" where
  "is_response e = (GetType e \<in> {kHostMmioCRT, kHostMmioCWT, kHostMmioImRespPoWT})"

definition answers :: "event \<Rightarrow> event \<Rightarrow> bool" where
  "answers x e =
     (GetParserIdent e = GetParserIdent x \<and>
      (if GetType x = kHostMmioCRT then GetType e = kHostMmioRT \<and> as_HostIdOp e = as_HostIdOp x
       else if GetType x = kHostMmioCWT then GetType e = kHostMmioWT \<and> as_HostIdOp e = as_HostIdOp x
       else GetType x = kHostMmioImRespPoWT \<and> HostMmio_posted e False \<and> GetTs e = GetTs x))"

text \<open>
  The accesses of a host in the order it issued them, with their answers: an answer goes to
  the first access that is still open and that it fits.
\<close>

type_synonym access_log = "(event \<times> event option) list"

fun respond :: "event \<Rightarrow> access_log \<Rightarrow> access_log option" where
  "respond x [] = None"
| "respond x ((e, r) # L) =
     (if r = None \<and> answers x e then Some ((e, Some x) # L) else map_option (Cons (e, r)) (respond x L))"

definition log_event :: "event \<Rightarrow> access_log \<Rightarrow> access_log option" where
  "log_event x L =
     (if device_access x then Some (L @ [(x, None)]) else if is_response x then respond x L else None)"

fun access_events :: "event \<times> event option \<Rightarrow> event list" where
  "access_events (e, None) = [e]"
| "access_events (e, Some x) = [e, x]"

text \<open>The span of an open access: it accepts what answers the access, and nothing else.\<close>

definition access_data :: "event \<Rightarrow> HostMmioSpan" where
  "access_data e =
     (HostMmioSpan_init 0)\<lparr>hms_is_read := GetType e = kHostMmioRT,
       hms_is_posted := HostMmio_posted e False, hms_bar_number := 0, hms_host_mmio_issue := Some e\<rparr>"

definition open_access :: "'x world \<Rightarrow> event \<Rightarrow> u64 \<Rightarrow> bool" where
  "open_access w e i =
     (device_access e \<and>
      (\<exists>s. h_spans (w_heap w) i = Some (s, HostMmioD (access_data e)) \<and> sp_is_pending s \<and> sp_events s = [e]))"

lemma open_access_AddToSpan:
  assumes "device_access e" and "device_access x \<or> is_response x" and "sp_is_pending s" and "sp_events s = [e]"
  shows "\<not> answers x e \<Longrightarrow>
      AddToSpan env (Some x) (s, HostMmioD (access_data e)) = Inr (False, s, HostMmioD (access_data e))"
    and "answers x e \<Longrightarrow>
      \<exists>d. AddToSpan env (Some x) (s, HostMmioD (access_data e)) =
        Inr (True, push_event x (set_pending False s), HostMmioD d)"
proof -
  note defs = HostMmioSpan_AddToSpan_def HostMmioSpan_issue_def HostMmioSpan_im_resp_def
    HostMmioSpan_complete_def tag_data_def IsAnyType_def IsType_def access_data_def HostMmioSpan_init_def
    is_response_def GetParserIdent_def GetTs_def IsMsixNotToDeviceBarNumber_def
  show "\<not> answers x e \<Longrightarrow>
      AddToSpan env (Some x) (s, HostMmioD (access_data e)) = Inr (False, s, HostMmioD (access_data e))"
    using assms by (cases e rule: device_access.cases; simp; cases x) (auto simp: defs answers_def)
  show "answers x e \<Longrightarrow>
      \<exists>d. AddToSpan env (Some x) (s, HostMmioD (access_data e)) =
        Inr (True, push_event x (set_pending False s), HostMmioD d)"
    using assms by (cases e rule: device_access.cases; simp; cases x) (auto simp: defs answers_def)
qed

text \<open>The contexts of the accesses \<open>ms\<close> of the trace \<open>t\<close>, as the NIC will find them.\<close>

definition access_context :: "u64 \<Rightarrow> Context \<Rightarrow> u64 \<Rightarrow> bool" where
  "access_context t con m =
     (cx_trace_id con = t \<and> cx_parent_id con = m \<and> cx_expectation con = kMmio \<and> m \<noteq> 0 \<and> t \<noteq> 0)"

definition queued_accesses :: "u64 \<Rightarrow> u64 list \<Rightarrow> ctx_channel \<Rightarrow> bool" where
  "queued_accesses t ms ch =
     (\<exists>uc. ch = QueueC uc \<and> \<not> uc_closed uc \<and> \<not> uc_poisened uc \<and> uc_size uc = length (uc_buffer uc) \<and>
        list_all2 (access_context t) (uc_buffer uc) ms)"

lemma queued_accesses_Push:
  assumes "queued_accesses t ms ch" and "access_context t con m"
  shows "\<exists>ch'. ctx_Push con ch = Inr (True, ch') \<and> queued_accesses t (ms @ [m]) ch'"
  using assms
  by (auto simp: queued_accesses_def unbounded_Push_def intro!: list_all2_appendI)

lemma queued_accesses_Pop:
  assumes "queued_accesses t (m # ms) ch"
  shows "\<exists>con ch'. ctx_Pop ch = Inr (Some con, ch') \<and> access_context t con m \<and> queued_accesses t ms ch'"
  using assms
  by (auto simp: queued_accesses_def unbounded_Pop_def pop_front_def list_all2_Cons2)

text \<open>The accesses with their spans; the spanner holds on to those that are still open.\<close>

type_synonym accesses = "(u64 \<times> event \<times> event option) list"

definition still_open :: "accesses \<Rightarrow> u64 list" where
  "still_open acc = map fst (filter (\<lambda>(_, _, r). r = None) acc)"

definition access_ok :: "'x world \<Rightarrow> u64 \<Rightarrow> u64 \<Rightarrow> u64 \<times> event \<times> event option \<Rightarrow> bool" where
  "access_ok w t p = (\<lambda>(m, e, r).
     child_span w t p (access_events (e, r)) m \<and> (r = None \<longrightarrow> open_access w e m))"

lemma access_known: "access_ok w t p a \<Longrightarrow> fst a \<in> known_ids w"
  by (cases a) (auto simp: access_ok_def dest: child_known)

lemma still_open_simps [simp]:
  "still_open [] = []"
  "still_open ((m, e, None) # acc) = m # still_open acc"
  "still_open ((m, e, Some x) # acc) = still_open acc"
  "still_open (acc @ acc') = still_open acc @ still_open acc'"
  by (simp_all add: still_open_def)

lemma grows_access:
  assumes "grows M w w'" and "access_ok w t p a" and "fst a \<notin> M"
  shows "access_ok w' t p a"
proof -
  obtain m e r where a: "a = (m, e, r)" by (cases a)
  have "open_access w' e m" if "open_access w e m"
    using that growsD(1)[OF assms(1)] assms(3) a by (auto simp: open_access_def)
  then show ?thesis using assms grows_child[OF assms(1)] by (auto simp: access_ok_def a)
qed

text \<open>The loop over the open accesses does what \<open>respond\<close> says.\<close>

lemma ptr_AddToSpan_open:
  assumes "open_access w e m" and "device_access x \<or> is_response x"
  shows "\<not> answers x e \<Longrightarrow> ptr_AddToSpan env m x w = Inr (False, w)"
    and "answers x e \<Longrightarrow> \<exists>s d. h_spans (w_heap w) m = Some (s, HostMmioD (access_data e)) \<and> sp_events s = [e] \<and>
      ptr_AddToSpan env m x w = Inr (True, put_span m (push_event x (set_pending False s), HostMmioD d) w)"
proof -
  obtain s where s: "h_spans (w_heap w) m = Some (s, HostMmioD (access_data e))" "sp_is_pending s"
      "sp_events s = [e]" "device_access e"
    using assms(1) by (auto simp: open_access_def)
  show "ptr_AddToSpan env m x w = Inr (False, w)" if "\<not> answers x e"
    using open_access_AddToSpan(1)[OF s(4) assms(2) s(2,3) that, of env] s(1)
    by (simp add: ptr_AddToSpan_def get_span_def put_span_def fun_upd_idem)
  show "\<exists>s d. h_spans (w_heap w) m = Some (s, HostMmioD (access_data e)) \<and> sp_events s = [e] \<and>
      ptr_AddToSpan env m x w = Inr (True, put_span m (push_event x (set_pending False s), HostMmioD d) w)"
    if "answers x e"
    using open_access_AddToSpan(2)[OF s(4) assms(2) s(2,3) that, of env] s(1,3)
    by (auto simp: ptr_AddToSpan_def get_span_def)
qed

lemma iterate_open:
  assumes "\<forall>a \<in> set acc. access_ok w t p a" and "device_access x \<or> is_response x"
  shows "respond x (map snd acc) = None \<Longrightarrow>
      iterate_add_erase env x (still_open acc) w = Inr (None, still_open acc, w)"
    and "respond x (map snd acc) = Some L \<Longrightarrow>
      \<exists>A m e B s d. acc = A @ (m, e, None) # B \<and> L = map snd (A @ (m, e, Some x) # B) \<and>
        h_spans (w_heap w) m = Some (s, HostMmioD (access_data e)) \<and> sp_events s = [e] \<and>
        iterate_add_erase env x (still_open acc) w =
          Inr (Some m, still_open (A @ (m, e, Some x) # B),
               put_span m (push_event x (set_pending False s), HostMmioD d) w)"
  using assms(1)
proof (induction acc arbitrary: L)
  case (Cons a acc)
  obtain m e r where a: "a = (m, e, r)" by (cases a)
  have op: "open_access w e m" if "r = None" "\<forall>b \<in> set (a # acc). access_ok w t p b"
    using that a by (auto simp: access_ok_def)
  {
    case 1
    then have none: "respond x (map snd acc) = None" and no: "\<not> (r = None \<and> answers x e)"
      using a by (auto split: if_splits)
    have IH: "iterate_add_erase env x (still_open acc) w = Inr (None, still_open acc, w)"
      using Cons.IH(1)[OF none] 1 by simp
    show ?case
    proof (cases r)
      case None
      then show ?thesis using IH a no ptr_AddToSpan_open(1)[OF op[OF None 1(2)] assms(2)] by simp
    qed (simp add: a IH)
  next
    case 2
    show ?case
    proof (cases "r = None \<and> answers x e")
      case True
      obtain s d where s: "h_spans (w_heap w) m = Some (s, HostMmioD (access_data e))" "sp_events s = [e]"
          "ptr_AddToSpan env m x w = Inr (True, put_span m (push_event x (set_pending False s), HostMmioD d) w)"
        using ptr_AddToSpan_open(2)[OF op[OF _ 2(2)] assms(2)] True by blast
      have "iterate_add_erase env x (still_open (a # acc)) w =
          Inr (Some m, still_open acc, put_span m (push_event x (set_pending False s), HostMmioD d) w)"
        using True s(3)
        by (simp add: a ptr_IsComplete_def ptr_base_def get_span_def put_span_def IsComplete_def IsPending_def)
      then show ?thesis
        using 2(1) a True s(1,2)
        by (intro exI[of _ "[]"] exI[of _ m] exI[of _ e] exI[of _ acc] exI[of _ s] exI[of _ d]) simp
    next
      case False
      obtain L' where L': "respond x (map snd acc) = Some L'" "L = (e, r) # L'"
        using 2(1) a False by (auto split: if_splits)
      obtain A m' e' B s d where IH: "acc = A @ (m', e', None) # B" "L' = map snd (A @ (m', e', Some x) # B)"
          "h_spans (w_heap w) m' = Some (s, HostMmioD (access_data e'))" "sp_events s = [e']"
          "iterate_add_erase env x (still_open acc) w =
            Inr (Some m', still_open (A @ (m', e', Some x) # B),
                 put_span m' (push_event x (set_pending False s), HostMmioD d) w)"
        using Cons.IH(2)[OF L'(1)] 2 by auto
      have "iterate_add_erase env x (still_open (a # acc)) w =
          Inr (Some m', still_open (a # A @ (m', e', Some x) # B),
               put_span m' (push_event x (set_pending False s), HostMmioD d) w)"
      proof (cases r)
        case None
        then show ?thesis
          using IH(5) a False ptr_AddToSpan_open(1)[OF op[OF None 2(2)] assms(2)] by simp
      qed (use IH(5) in \<open>simp add: a\<close>)
      then show ?thesis
        using IH(1-4) L'(2) a
        by (intro exI[of _ "a # A"] exI[of _ m'] exI[of _ e'] exI[of _ B] exI[of _ s] exI[of _ d]) simp
    qed
  }
qed simp_all

lemma respond_access: "device_access x \<Longrightarrow> respond x L = None"
proof (induction L)
  case (Cons a L)
  have "\<not> answers x e" for e using device_access_facts(1)[OF Cons.prems] by (auto simp: answers_def)
  then show ?case using Cons by (cases a) simp
qed simp

text \<open>
  Inside the call \<open>p\<close> of the trace \<open>t\<close> the host has seen the accesses \<open>acc\<close>; the contexts of
  \<open>qs\<close> are still queued.
\<close>

definition host_accesses ::
  "u64 \<Rightarrow> u64 \<Rightarrow> accesses \<Rightarrow> u64 list \<Rightarrow> nat \<Rightarrow> HostSpanner \<Rightarrow> 'x sys \<Rightarrow> bool"
where
  "host_accesses t p acc qs n hs y =
     (hs_pending_call hs = Some p \<and> \<not> hs_pci_write_before hs \<and> hs_pending_mmio hs = still_open acc \<and>
      in_trace (sy_world y) t p \<and> ids_fresh n (sy_world y) \<and> distinct (p # map fst acc) \<and>
      (\<forall>a \<in> set acc. access_ok (sy_world y) t p a) \<and>
      set (w_exported (sy_world y)) \<inter> set (p # map fst acc) = {} \<and>
      queued_accesses t qs (sy_channels y (hs_to_nic_queue hs)))"

lemma host_access_step:
  assumes inv: "host_accesses t p acc qs (Suc n) hs y" and e: "device_access e"
  shows "\<exists>m hs' y'. Host_HandelMmio env xp e (hs, y) = Inr (True, hs', y') \<and>
    host_accesses t p (acc @ [(m, e, None)]) (qs @ [m]) n hs' y' \<and> grows {} (sy_world y) (sy_world y') \<and>
    m \<notin> known_ids (sy_world y) \<and>
    hs_to_nic_queue hs' = hs_to_nic_queue hs"
proof -
  let ?w = "sy_world y"
  have i: "hs_pending_call hs = Some p" "\<not> hs_pci_write_before hs" "hs_pending_mmio hs = still_open acc"
      "in_trace ?w t p" "ids_fresh (Suc n) ?w" "distinct (p # map fst acc)"
      "\<forall>a \<in> set acc. access_ok ?w t p a" "queued_accesses t qs (sy_channels y (hs_to_nic_queue hs))"
      "set (w_exported ?w) \<inter> set (p # map fst acc) = {}"
    using inv unfolding host_accesses_def by blast+
  obtain s0 d0 a0 where p: "h_spans (w_heap ?w) p = Some (s0, d0)" "sp_id s0 = p" "p \<noteq> 0"
      "sp_trace_context s0 = Some a0" "a0 < length (h_contexts (w_heap ?w))"
      "tc_trace_id (h_contexts (w_heap ?w) ! a0) = t" "t \<noteq> 0"
    using i(4) by (auto simp: in_trace_def)
  obtain offset where bar: "as_HostMmioOp e = Some (0, offset)" using device_access_facts(2)[OF e] by blast
  let ?args = "host_args hs e (HostMmioD (HostMmioSpan_init 0))"
  let ?f = "EventSpan_fresh (fresh_id ?w) (sa_source_id ?args) (length (h_contexts (w_heap ?w))) (sa_service_name ?args)"
  let ?d = "access_data e"
  have add: "AddToSpan env (Some e) (?f, sa_data ?args) = Inr (True, push_event e ?f, HostMmioD ?d)"
    using device_access_facts(1,3)[OF e]
    by (auto simp: HostMmioSpan_AddToSpan_def HostMmioSpan_issue_def tag_data_def IsAnyType_def IsType_def
        host_args_def spanner_args_def HostMmioSpan_init_def IsPotentialAdd_def IsComplete_def IsPending_def
        IsMsixNotToDeviceBarNumber_def Let_def access_data_def)
  obtain w' where w': "StartSpanByParentInternal env t p (GetStartingTs s0) e ?args ?w = Inr (fresh_id ?w, w')"
      "ids_fresh n w'" "grows {} ?w w'" "known_ids w' = insert (fresh_id ?w) (known_ids ?w)"
      "child_span w' t p [e] (fresh_id ?w)"
      "h_spans (w_heap w') (fresh_id ?w) = Some (push_event e ?f, HostMmioD ?d)"
    using StartSpanByParentInternal_child[OF i(5) p(7,3) add, where ts = "GetStartingTs s0"]
    unfolding push_event_simps EventSpan_fresh_simps append_Nil by blast
  let ?m = "fresh_id ?w"
  have start: "StartSpanByParent env (Some p) (Some e) ?args ?w = Inr (?m, w')"
    using p w'(1)
    by (simp add: StartSpanByParent_def get_span_def GetValidTraceId_def GetTraceId_def get_ctx_def
        IsValidId_def kInvalidId_def GetValidId_def)
  obtain s d a where m: "h_spans (w_heap w') ?m = Some (s, d)" "sp_id s = ?m" "?m \<noteq> 0" "sp_events s = [e]"
      "sp_trace_context s = Some a" "a < length (h_contexts (w_heap w'))"
      "tc_trace_id (h_contexts (w_heap w') ! a) = t"
    using w'(5) by (auto simp: child_span_def)
  define con where "con = \<lparr>cx_trace_id = t, cx_expectation = kMmio, cx_parent_id = ?m,
    cx_parent_start_ts = GetStartingTs s\<rparr>"
  have "CreatePassOnContext kMmio (w_heap w') s = Inr con"
    using m p(7)
    by (simp add: CreatePassOnContext_def GetValidTraceId_def GetTraceId_def get_ctx_def IsValidId_def
        kInvalidId_def GetValidId_def Context_new_def con_def)
  moreover obtain ch where ch: "ctx_Push con (sy_channels y (hs_to_nic_queue hs)) = Inr (True, ch)"
      "queued_accesses t (qs @ [?m]) ch"
    using queued_accesses_Push[OF i(8), of con ?m] m(3) p(7) by (auto simp: access_context_def con_def)
  ultimately have push: "PushPropagateContext kMmio (hs_to_nic_queue hs) ?m (y\<lparr>sy_world := w'\<rparr>) =
      Inr (y\<lparr>sy_world := w', sy_channels := (sy_channels y)(hs_to_nic_queue hs := ch)\<rparr>)"
    using m(1)
    by (simp add: PushPropagateContext_def ptr_base_def get_span_def on_channel_def)
  let ?hs = "hs\<lparr>hs_pending_mmio := still_open acc @ [?m]\<rparr>"
  let ?y = "y\<lparr>sy_world := w', sy_channels := (sy_channels y)(hs_to_nic_queue hs := ch)\<rparr>"
  have same: "hs\<lparr>hs_pending_mmio := still_open acc\<rparr> = hs" "y\<lparr>sy_world := ?w\<rparr> = y" using i(3) by auto
  have reject: "iterate_add_erase env e (still_open acc) ?w = Inr (None, still_open acc, ?w)"
    using iterate_open(1)[OF i(7)] respond_access[OF e] e by blast
  have bar0: "hms_bar_number ?d = 0" by (simp add: access_data_def)
  have run: "Host_HandelMmio env xp e (hs, y) = Inr (True, ?hs, ?y)"
    using i(1-3) reject bar start push device_access_facts(1)[OF e] w'(6) bar0
    by (simp add: Host_HandelMmio_def Let_def same on_world_def ptr_data_def get_span_def IsType_def
        IsToDeviceBarNumber_def IsMsixNotToDeviceBarNumber_def ptr_IsComplete_def ptr_base_def)
  have new: "?m \<notin> known_ids ?w" using i(5) by (auto simp: ids_fresh_def ids_left_def)
  have "access_ok w' t p a" if "a \<in> set (acc @ [(?m, e, None)])" for a
  proof (cases "a \<in> set acc")
    case True
    then show ?thesis using grows_access[OF w'(3)] i(7) by blast
  next
    case False
    then have "a = (?m, e, None)" using that by simp
    then show ?thesis using w'(5,6) e by (simp add: access_ok_def open_access_def)
  qed
  moreover have "?m \<notin> set (p # map fst acc)"
  proof -
    have "fst a \<in> known_ids ?w" if "a \<in> set acc" for a
      using i(7) that access_known by blast
    then have "?m \<noteq> fst a" if "a \<in> set acc" for a using new that by metis
    then have "?m \<notin> set (map fst acc)" by auto
    moreover have "?m \<noteq> p" using p(1) new by blast
    ultimately show ?thesis by simp
  qed
  moreover have "?m \<notin> set (w_exported ?w)" using i(5) by (auto simp: ids_fresh_def)
  moreover have "distinct (p # map fst (acc @ [(?m, e, None)]))"
      "set (w_exported w') \<inter> set (p # map fst (acc @ [(?m, e, None)])) = {}"
    using calculation(2,3) i(6,9) w'(3) by (auto simp: grows_def)
  moreover have "in_trace w' t p" using grows_in_trace[OF w'(3) i(4)] by simp
  ultimately have "host_accesses t p (acc @ [(?m, e, None)]) (qs @ [?m]) n ?hs ?y"
    using i(1,2) ch(2) w'(2) unfolding host_accesses_def by simp
  then show ?thesis using run w'(3) new by (intro exI[of _ ?m] exI[of _ ?hs] exI[of _ ?y]) auto
qed

text \<open>A span whose parent was not exported waits, whatever the exporter.\<close>

lemma MarkSpanAsDone_waits:
  assumes "child_span w t p es i" and "p \<notin> set (w_exported w)"
  shows "\<exists>ws. MarkSpanAsDone xp (Some i) w = Inr (w\<lparr>w_waiting := ws\<rparr>)"
  using assms
  by (auto simp: child_span_def MarkSpanAsDone_def get_span_def get_ctx_def WasParentExported_def
      HasParent_def ctx_HasParent_def ctx_consistent_def GetValidParentId_def GetParentId_def
      IsValidId_def kInvalidId_def MarkSpanAsWaitingForParent_def split: option.splits)

lemma host_response_step:
  assumes inv: "host_accesses t p acc qs n hs y" and x: "is_response x"
    and log: "respond x (map snd acc) = Some L"
  shows "\<exists>acc' m hs' y'. Host_HandelMmio env xp x (hs, y) = Inr (True, hs', y') \<and>
    host_accesses t p acc' qs n hs' y' \<and> map fst acc' = map fst acc \<and> map snd acc' = L \<and>
    m \<in> set (map fst acc) \<and> grows {m} (sy_world y) (sy_world y') \<and> hs_to_nic_queue hs' = hs_to_nic_queue hs"
proof -
  let ?w = "sy_world y"
  have i: "hs_pending_call hs = Some p" "\<not> hs_pci_write_before hs" "hs_pending_mmio hs = still_open acc"
      "in_trace ?w t p" "ids_fresh n ?w" "distinct (p # map fst acc)"
      "\<forall>a \<in> set acc. access_ok ?w t p a" "queued_accesses t qs (sy_channels y (hs_to_nic_queue hs))"
      "set (w_exported ?w) \<inter> set (p # map fst acc) = {}"
    using inv unfolding host_accesses_def by blast+
  obtain A m e B s d where it: "acc = A @ (m, e, None) # B" "L = map snd (A @ (m, e, Some x) # B)"
      "h_spans (w_heap ?w) m = Some (s, HostMmioD (access_data e))" "sp_events s = [e]"
      "iterate_add_erase env x (still_open acc) ?w =
        Inr (Some m, still_open (A @ (m, e, Some x) # B),
             put_span m (push_event x (set_pending False s), HostMmioD d) ?w)"
    using iterate_open(2)[OF i(7) _ log, of env] x by blast
  let ?acc = "A @ (m, e, Some x) # B" and ?s = "push_event x (set_pending False s)"
  let ?w1 = "put_span m (?s, HostMmioD d) ?w"
  have g: "grows {m} ?w ?w1" by (auto simp: grows_def put_span_def)
  have "child_span ?w t p [e] m" using i(7) it(1) by (auto simp: access_ok_def)
  then have child: "child_span ?w1 t p [e, x] m"
    using it(3,4) by (auto simp: child_span_def put_span_def)
  have "p \<notin> set (w_exported ?w1)" using i(9) by (auto simp: put_span_def)
  then obtain ws where mark: "MarkSpanAsDone xp (Some m) ?w1 = Inr (?w1\<lparr>w_waiting := ws\<rparr>)"
    using MarkSpanAsDone_waits[OF child] by blast
  let ?w2 = "?w1\<lparr>w_waiting := ws\<rparr>"
  let ?hs = "hs\<lparr>hs_pending_mmio := still_open ?acc\<rparr>" and ?y = "y\<lparr>sy_world := ?w2\<rparr>"
  have run: "Host_HandelMmio env xp x (hs, y) = Inr (True, ?hs, ?y)"
    using it(5) mark i(3)
    by (simp add: Host_HandelMmio_def Let_def ptr_IsComplete_def ptr_base_def get_span_def put_span_def
        IsComplete_def IsPending_def upd_world_def)
  have g2: "grows {m} ?w ?w2" using g by (simp add: grows_def)
  have "access_ok ?w2 t p a" if a: "a \<in> set ?acc" for a
  proof (cases "fst a = m")
    case True
    have "m \<notin> set (map fst A)" "m \<notin> set (map fst B)" using i(6) it(1) by auto
    then have "a = (m, e, Some x)" using True a by (cases a) force
    then show ?thesis using child by (simp add: access_ok_def child_span_def)
  next
    case False
    then have "a \<in> set acc" using a it(1) by auto
    then show ?thesis using grows_access[OF g2] i(7) False by blast
  qed
  moreover have "p \<noteq> m" using i(6) it(1) by auto
  then have "in_trace ?w2 t p" using grows_in_trace[OF g2 i(4)] by simp
  moreover have "ids_fresh n ?w2"
    using i(5) it(3) by (auto simp: ids_fresh_def ids_left_def fresh_id_def put_span_def)
  ultimately have "host_accesses t p ?acc qs n ?hs ?y"
    using i(1,2,6,8,9) it(1) by (simp add: host_accesses_def put_span_def)
  then show ?thesis using run g2 it(1,2) by (intro exI[of _ ?acc] exI[of _ m] exI[of _ ?hs] exI[of _ ?y]) auto
qed

lemma Host_consume_access:
  assumes "device_access e \<or> is_response e"
  shows "Host_consume env xp (Some e) s = rbind (Host_HandelMmio env xp e s) (\<lambda>(added, s'). Inr s')"
  using assms device_access_facts(1)[of e]
  by (auto simp: is_response_def Host_consume_def host_handlers_def RegisterHandler_def Spanner_consume_def)

text \<open>One event of the host's log.\<close>

lemma host_log_step:
  assumes inv: "host_accesses t p acc qs (Suc n) hs y" and log: "log_event e (map snd acc) = Some L"
  shows "\<exists>acc' hs' y' M. Host_consume env xp (Some e) (hs, y) = Inr (hs', y') \<and>
    map snd acc' = L \<and>
    host_accesses t p acc' (qs @ drop (length acc) (map fst acc')) n hs' y' \<and>
    take (length acc) (map fst acc') = map fst acc \<and> length acc \<le> length acc' \<and>
    M \<subseteq> set (map fst acc) \<and> grows M (sy_world y) (sy_world y') \<and>
    set (drop (length acc) (map fst acc')) \<inter> known_ids (sy_world y) = {} \<and>
    hs_to_nic_queue hs' = hs_to_nic_queue hs"
proof (cases "device_access e")
  case True
  obtain m hs' y' where st: "Host_HandelMmio env xp e (hs, y) = Inr (True, hs', y')"
      "host_accesses t p (acc @ [(m, e, None)]) (qs @ [m]) n hs' y'" "grows {} (sy_world y) (sy_world y')"
      "m \<notin> known_ids (sy_world y)" "hs_to_nic_queue hs' = hs_to_nic_queue hs"
    using host_access_step[OF inv True, of env xp] by blast
  have "L = map snd (acc @ [(m, e, None)])" using log True by (simp add: log_event_def)
  then show ?thesis
    using st Host_consume_access[of e env xp "(hs, y)"] True
    by (intro exI[of _ "acc @ [(m, e, None)]"] exI[of _ hs'] exI[of _ y'] exI[of _ "{}"]) simp
next
  case False
  then have x: "is_response e" "respond e (map snd acc) = Some L"
    using log by (auto simp: log_event_def split: if_splits)
  have inv': "host_accesses t p acc qs n hs y"
    using inv by (auto simp: host_accesses_def ids_fresh_def ids_left_def)
  obtain acc' m hs' y' where st: "Host_HandelMmio env xp e (hs, y) = Inr (True, hs', y')"
      "host_accesses t p acc' qs n hs' y'" "map fst acc' = map fst acc" "map snd acc' = L"
      "m \<in> set (map fst acc)" "grows {m} (sy_world y) (sy_world y')" "hs_to_nic_queue hs' = hs_to_nic_queue hs"
    using host_response_step[OF inv' x, of env xp] by blast
  have "length acc' = length acc" using st(3) by (metis length_map)
  then show ?thesis
    using st Host_consume_access[of e env xp "(hs, y)"] x(1)
    by (intro exI[of _ acc'] exI[of _ hs'] exI[of _ y'] exI[of _ "{m}"]) simp
qed

section \<open>The NIC's side\<close>

definition nic_access :: "event \<Rightarrow> bool" where
  "nic_access e = (GetType e = kNicMmioWT \<or> GetType e = kNicMmioRT)"

text \<open>
  \<open>ms\<close> are the host's accesses whose contexts are still queued; \<open>ks\<close> the NIC's spans, in
  order below the accesses \<open>qs\<close>.
\<close>

definition nic_accesses ::
  "u64 \<Rightarrow> u64 list \<Rightarrow> u64 list \<Rightarrow> event list \<Rightarrow> u64 list \<Rightarrow> nat \<Rightarrow> NicSpanner \<Rightarrow> 'x sys \<Rightarrow> bool"
where
  "nic_accesses t ms qs es ks n ns y =
     (t \<noteq> 0 \<and> ids_fresh n (sy_world y) \<and> set (w_exported (sy_world y)) \<inter> set ms = {} \<and>
      set ms \<subseteq> known_ids (sy_world y) \<and>
      queued_accesses t ms (sy_channels y (ns_from_host_queue ns)) \<and>
      length qs = length es \<and> length ks = length es \<and>
      (\<forall>j < length es. child_span (sy_world y) t (qs ! j) [es ! j] (ks ! j)))"

lemma nic_access_step:
  assumes inv: "nic_accesses t (m # ms) qs es ks (Suc n) ns y" and e: "nic_access e"
  shows "\<exists>k ns' y'. Nic_HandelMmio env xp e (ns, y) = Inr (True, ns', y') \<and>
    nic_accesses t ms (qs @ [m]) (es @ [e]) (ks @ [k]) n ns' y' \<and> grows {} (sy_world y) (sy_world y') \<and>
    k \<notin> known_ids (sy_world y) \<and> known_ids (sy_world y) \<subseteq> known_ids (sy_world y') \<and>
    ns_from_host_queue ns' = ns_from_host_queue ns"
proof -
  let ?w = "sy_world y"
  have i: "t \<noteq> 0" "ids_fresh (Suc n) ?w" "set (w_exported ?w) \<inter> set (m # ms) = {}"
      "set (m # ms) \<subseteq> known_ids ?w" "queued_accesses t (m # ms) (sy_channels y (ns_from_host_queue ns))"
      "length qs = length es" "length ks = length es"
      "\<forall>j < length es. child_span ?w t (qs ! j) [es ! j] (ks ! j)"
    using inv by (simp_all add: nic_accesses_def)
  obtain con ch where pop: "ctx_Pop (sy_channels y (ns_from_host_queue ns)) = Inr (Some con, ch)"
      "access_context t con m" "queued_accesses t ms ch"
    using queued_accesses_Pop[OF i(5)] by blast
  have con: "cx_trace_id con = t" "cx_parent_id con = m" "cx_expectation con = kMmio" "m \<noteq> 0"
    using pop(2) by (auto simp: access_context_def)
  let ?args = "nic_args ns e (NicMmioD NicMmioSpan_init)"
  let ?f = "EventSpan_fresh (fresh_id ?w) (sa_source_id ?args) (length (h_contexts (w_heap ?w))) (sa_service_name ?args)"
  let ?d = "NicMmioSpan_init\<lparr>nms_is_read := GetType e = kNicMmioRT, nms_action := Some e\<rparr>"
  have add: "AddToSpan env (Some e) (?f, sa_data ?args) = Inr (True, push_event e (set_pending False ?f), NicMmioD ?d)"
    using e
    by (auto simp: nic_access_def NicMmioSpan_AddToSpan_def tag_data_def IsAnyType_def IsType_def
        nic_args_def spanner_args_def NicMmioSpan_init_def IsPotentialAdd_def IsComplete_def IsPending_def)
  let ?k = "fresh_id ?w"
  obtain w' where w': "StartSpanByParentInternal env t m (cx_parent_start_ts con) e ?args ?w = Inr (?k, w')"
      "ids_fresh n w'" "grows {} ?w w'" "known_ids w' = insert ?k (known_ids ?w)" "child_span w' t m [e] ?k"
      "h_spans (w_heap w') ?k = Some (push_event e (set_pending False ?f), NicMmioD ?d)"
    using StartSpanByParentInternal_child[OF i(2,1) con(4) add, where ts = "cx_parent_start_ts con"]
    unfolding push_event_simps EventSpan_fresh_simps append_Nil by blast
  have "m \<notin> set (w_exported w')" using i(3) w'(3) by (auto simp: grows_def)
  then obtain ws where mark: "MarkSpanAsDone xp (Some ?k) w' = Inr (w'\<lparr>w_waiting := ws\<rparr>)"
    using MarkSpanAsDone_waits[OF w'(5)] by blast
  let ?ns = "if GetType e = kNicMmioRT then ns else ns\<lparr>ns_last_causing := Some ?k\<rparr>"
  let ?y = "y\<lparr>sy_world := w'\<lparr>w_waiting := ws\<rparr>, sy_channels := (sy_channels y)(ns_from_host_queue ns := ch)\<rparr>"
  have "Nic_HandelMmio env xp e (ns, y) = Inr (True, ?ns, ?y)"
    using pop(1) con w'(1,6) mark
    by (simp add: Nic_HandelMmio_def PopPropagateContext_def on_channel_def is_expectation_def on_world_def
        StartSpanByParentPassOnContext_def Context_HasParent_def ptr_IsComplete_def ptr_base_def
        get_span_def IsComplete_def IsPending_def upd_world_def ptr_data_def)
  moreover have "grows {} ?w (sy_world ?y)" using w'(3) by (simp add: grows_def)
  moreover have "nic_accesses t ms (qs @ [m]) (es @ [e]) (ks @ [?k]) n ?ns ?y"
  proof -
    have old: "child_span w' t (qs ! j) [es ! j] (ks ! j)" if "j < length es" for j
      using i(8) that grows_child[OF w'(3)] by simp
    have cs: "child_span (w'\<lparr>w_waiting := ws\<rparr>) t p es' k \<longleftrightarrow> child_span w' t p es' k" for p es' k
      by (simp add: child_span_def)
    have "child_span w' t ((qs @ [m]) ! j) [(es @ [e]) ! j] ((ks @ [?k]) ! j)" if "j < Suc (length es)" for j
      using that old w'(5) i(6,7) by (cases "j = length es") (auto simp: nth_append)
    moreover have "ids_fresh n (w'\<lparr>w_waiting := ws\<rparr>)"
      using w'(2) by (simp add: ids_fresh_def ids_left_def fresh_id_def)
    ultimately show ?thesis
      using i(1,3,4,6,7) pop(3) w'(3,4) by (auto simp: nic_accesses_def cs grows_def)
  qed
  moreover have "?k \<notin> known_ids ?w" using i(2) by (auto simp: ids_fresh_def ids_left_def)
  ultimately show ?thesis using w'(4) by (intro exI[of _ ?k] exI[of _ ?ns] exI[of _ ?y]) auto
qed

lemma Nic_consume_access:
  assumes "nic_access e"
  shows "Nic_consume env xp (Some e) s = rbind (Nic_HandelMmio env xp e s) (\<lambda>(added, s'). Inr s')"
  using assms
  by (auto simp: nic_access_def Nic_consume_def nic_handlers_def RegisterHandler_def Spanner_consume_def)

section \<open>Both sides\<close>

text \<open>
  A host and its NIC fed in any order: \<open>Inl\<close> is an event of the host, \<open>Inr\<close> one of the NIC.
\<close>

fun feed_both ::
  "TraceEnvironment \<Rightarrow> 'x exporter \<Rightarrow> (event + event) list \<Rightarrow> HostSpanner \<times> NicSpanner \<times> 'x sys \<Rightarrow>
    (HostSpanner \<times> NicSpanner \<times> 'x sys) res"
where
  "feed_both env xp [] s = Inr s"
| "feed_both env xp (Inl e # evs) (hs, ns, y) =
     rbind (Host_consume env xp (Some e) (hs, y)) (\<lambda>(hs', y'). feed_both env xp evs (hs', ns, y'))"
| "feed_both env xp (Inr e # evs) (hs, ns, y) =
     rbind (Nic_consume env xp (Some e) (ns, y)) (\<lambda>(ns', y'). feed_both env xp evs (hs, ns', y'))"

text \<open>
  The host's log holds accesses and answers to accesses that are still open, the NIC's log
  accesses only, and the NIC is never ahead of the host: otherwise its \<open>Pop\<close> waits, and
  another order is taken. \<open>L\<close> is the host's log so far, and the NIC has seen \<open>n\<close> accesses.
\<close>

fun access_order :: "access_log \<Rightarrow> nat \<Rightarrow> (event + event) list \<Rightarrow> bool" where
  "access_order L n [] = True"
| "access_order L n (Inl e # evs) =
     (case log_event e L of None \<Rightarrow> False | Some L' \<Rightarrow> access_order L' n evs)"
| "access_order L n (Inr e # evs) = (nic_access e \<and> n < length L \<and> access_order L (Suc n) evs)"

text \<open>The host's accesses in order, each with its answer.\<close>

fun host_log :: "access_log \<Rightarrow> (event + event) list \<Rightarrow> access_log" where
  "host_log L [] = L"
| "host_log L (Inl e # evs) = (case log_event e L of None \<Rightarrow> L | Some L' \<Rightarrow> host_log L' evs)"
| "host_log L (Inr e # evs) = host_log L evs"

fun nic_part :: "(event + event) list \<Rightarrow> event list" where
  "nic_part [] = []"
| "nic_part (Inl e # evs) = nic_part evs"
| "nic_part (Inr e # evs) = e # nic_part evs"

definition both_accesses ::
  "u64 \<Rightarrow> u64 \<Rightarrow> accesses \<Rightarrow> event list \<Rightarrow> u64 list \<Rightarrow> nat \<Rightarrow> HostSpanner \<times> NicSpanner \<times> 'x sys \<Rightarrow> bool"
where
  "both_accesses t p acc es ks n = (\<lambda>(hs, ns, y).
     host_accesses t p acc (drop (length es) (map fst acc)) n hs y \<and>
     ns_from_host_queue ns = hs_to_nic_queue hs \<and> length es \<le> length acc \<and> length ks = length es \<and>
     set ks \<inter> set (map fst acc) = {} \<and>
     (\<forall>j < length es. child_span (sy_world y) t (map fst acc ! j) [es ! j] (ks ! j)))"

lemma both_host_step:
  assumes "both_accesses t p acc es ks (Suc n) (hs, ns, y)" and "log_event e (map snd acc) = Some L"
  shows "\<exists>acc' hs' y'. Host_consume env xp (Some e) (hs, y) = Inr (hs', y') \<and> map snd acc' = L \<and>
    both_accesses t p acc' es ks n (hs', ns, y')"
proof -
  let ?qs = "drop (length es) (map fst acc)"
  have b: "host_accesses t p acc ?qs (Suc n) hs y"
      "ns_from_host_queue ns = hs_to_nic_queue hs" "length es \<le> length acc" "length ks = length es"
      "set ks \<inter> set (map fst acc) = {}"
      "\<forall>j < length es. child_span (sy_world y) t (map fst acc ! j) [es ! j] (ks ! j)"
    using assms(1) unfolding both_accesses_def prod.case by blast+
  obtain acc' hs' y' M where st: "Host_consume env xp (Some e) (hs, y) = Inr (hs', y')" "map snd acc' = L"
      "host_accesses t p acc' (?qs @ drop (length acc) (map fst acc')) n hs' y'"
      "take (length acc) (map fst acc') = map fst acc" "length acc \<le> length acc'"
      "M \<subseteq> set (map fst acc)" "grows M (sy_world y) (sy_world y')"
      "set (drop (length acc) (map fst acc')) \<inter> known_ids (sy_world y) = {}"
      "hs_to_nic_queue hs' = hs_to_nic_queue hs"
    using host_log_step[OF b(1) assms(2), of env xp] by blast
  define new where "new = drop (length acc) (map fst acc')"
  have split: "map fst acc' = map fst acc @ new"
    unfolding new_def using append_take_drop_id[of "length acc" "map fst acc'"] unfolding st(4) by (rule sym)
  have qs: "?qs @ new = drop (length es) (map fst acc')"
    unfolding split using b(3) by simp
  have known: "k \<in> known_ids (sy_world y)" if "k \<in> set ks" for k
    using that b(4,6) child_known by (metis in_set_conv_nth)
  have ks: "set ks \<inter> set (map fst acc') = {}"
    unfolding split set_append using b(5) st(8)[folded new_def] known by blast
  have "child_span (sy_world y') t (map fst acc' ! j) [es ! j] (ks ! j)" if j: "j < length es" for j
  proof -
    have "ks ! j \<in> set ks" using j b(4) by simp
    then have "ks ! j \<notin> M" using st(6) b(5) by blast
    moreover have "map fst acc' ! j = map fst acc ! j"
      unfolding split using j b(3) by (simp add: nth_append)
    ultimately show ?thesis using grows_child[OF st(7)] b(6) j by simp
  qed
  moreover have "length es \<le> length acc'" using b(3) st(5) by simp
  ultimately have "both_accesses t p acc' es ks n (hs', ns, y')"
    using st(3)[folded new_def] st(9) b(2,4) ks unfolding qs both_accesses_def by simp
  then show ?thesis using st(1,2) by blast
qed

lemma both_nic_step:
  assumes "both_accesses t p acc es ks (Suc n) (hs, ns, y)" and "nic_access e"
    and "length es < length acc"
  shows "\<exists>k ns' y'. Nic_consume env xp (Some e) (ns, y) = Inr (ns', y') \<and>
    both_accesses t p acc (es @ [e]) (ks @ [k]) n (hs, ns', y')"
proof -
  let ?w = "sy_world y"
  let ?ms = "map fst acc"
  let ?qs = "drop (length es) ?ms"
  have b: "host_accesses t p acc ?qs (Suc n) hs y"
      "ns_from_host_queue ns = hs_to_nic_queue hs" "length ks = length es" "set ks \<inter> set ?ms = {}"
      "\<forall>j < length es. child_span ?w t (?ms ! j) [es ! j] (ks ! j)"
    using assms(1) unfolding both_accesses_def prod.case by blast+
  have h: "hs_pending_call hs = Some p" "\<not> hs_pci_write_before hs" "hs_pending_mmio hs = still_open acc"
      "in_trace ?w t p" "ids_fresh (Suc n) ?w" "distinct (p # ?ms)" "\<forall>a \<in> set acc. access_ok ?w t p a"
      "set (w_exported ?w) \<inter> set (p # ?ms) = {}"
      "queued_accesses t ?qs (sy_channels y (ns_from_host_queue ns))"
    using b(1,2) unfolding host_accesses_def by simp_all
  have qs: "?qs = ?ms ! length es # drop (Suc (length es)) ?ms"
    by (rule Cons_nth_drop_Suc[symmetric]) (use assms(3) in simp)
  have known: "set ?ms \<subseteq> known_ids ?w"
    using h(7) access_known by fastforce
  have "t \<noteq> 0" using h(4) by (auto simp: in_trace_def)
  moreover have "set ?qs \<subseteq> known_ids ?w" by (rule subset_trans[OF set_drop_subset known])
  moreover have "set (w_exported ?w) \<inter> set ?qs = {}"
    using h(8) set_drop_subset[of "length es" ?ms] by auto
  moreover have "length (take (length es) ?ms) = length es" using assms(3) by simp
  moreover have "child_span ?w t (take (length es) ?ms ! j) [es ! j] (ks ! j)" if "j < length es" for j
    using b(5) that by simp
  ultimately have "nic_accesses t ?qs (take (length es) ?ms) es ks (Suc n) ns y"
    using h(5,9) b(3) unfolding nic_accesses_def by blast
  then obtain k ns' y' where st: "Nic_HandelMmio env xp e (ns, y) = Inr (True, ns', y')"
      "nic_accesses t (drop (Suc (length es)) ?ms) (take (length es) ?ms @ [?ms ! length es]) (es @ [e])
         (ks @ [k]) n ns' y'"
      "grows {} ?w (sy_world y')" "k \<notin> known_ids ?w" "ns_from_host_queue ns' = ns_from_host_queue ns"
    unfolding qs using nic_access_step[OF _ assms(2), of t "?ms ! length es" _ _ es ks n ns y env xp] by blast
  have take: "take (length es) ?ms @ [?ms ! length es] = take (Suc (length es)) ?ms"
    by (rule take_Suc_conv_app_nth[symmetric]) (use assms(3) in simp)
  have "child_span (sy_world y') t (?ms ! j) [(es @ [e]) ! j] ((ks @ [k]) ! j)" if "j < length (es @ [e])" for j
  proof -
    have "child_span (sy_world y') t (take (Suc (length es)) ?ms ! j) [(es @ [e]) ! j] ((ks @ [k]) ! j)"
      using st(2) that unfolding take nic_accesses_def by blast
    then show ?thesis using that by (simp)
  qed
  moreover have "\<forall>a \<in> set acc. access_ok (sy_world y') t p a" using grows_access[OF st(3)] h(7) by blast
  moreover have "in_trace (sy_world y') t p" using grows_in_trace[OF st(3) h(4)] by simp
  moreover have "set (w_exported (sy_world y')) \<inter> set (p # ?ms) = {}" using st(3) h(8) by (simp add: grows_def)
  moreover have "queued_accesses t (drop (length (es @ [e])) ?ms) (sy_channels y' (hs_to_nic_queue hs))"
      "ids_fresh n (sy_world y')"
    using st(2,5) b(2) by (simp_all add: nic_accesses_def)
  moreover have "set (ks @ [k]) \<inter> set ?ms = {}" using b(4) st(4) known by auto
  ultimately have "both_accesses t p acc (es @ [e]) (ks @ [k]) n (hs, ns', y')"
    using b(2,3) st(5) assms(3) h(1-3,6) unfolding both_accesses_def host_accesses_def by (simp)
  then show ?thesis using st(1) Nic_consume_access[OF assms(2), of env xp "(ns, y)"] by auto
qed

lemma both_feed:
  assumes "both_accesses t p acc es ks (length evs) (hs, ns, y)"
    and "access_order (map snd acc) (length es) evs"
  shows "\<exists>hs' ns' y' acc' ks'. feed_both env xp evs (hs, ns, y) = Inr (hs', ns', y') \<and>
    map snd acc' = host_log (map snd acc) evs \<and>
    both_accesses t p acc' (es @ nic_part evs) ks' 0 (hs', ns', y')"
  using assms
proof (induction evs arbitrary: acc es ks hs ns y)
  case (Cons ev evs)
  show ?case
  proof (cases ev)
    case (Inl e)
    then obtain L where L: "log_event e (map snd acc) = Some L" "access_order L (length es) evs"
      using Cons.prems(2) by (auto split: option.splits)
    obtain acc1 hs1 y1 where st: "Host_consume env xp (Some e) (hs, y) = Inr (hs1, y1)" "map snd acc1 = L"
        "both_accesses t p acc1 es ks (length evs) (hs1, ns, y1)"
      using both_host_step[OF _ L(1), of t p es ks "length evs" hs ns y env xp] Cons.prems(1) by auto
    show ?thesis using Cons.IH[OF st(3)] L st(1,2) Inl by auto
  next
    case (Inr e)
    then have e: "nic_access e" "length es < length acc" using Cons.prems(2) by auto
    obtain k ns1 y1 where st: "Nic_consume env xp (Some e) (ns, y) = Inr (ns1, y1)"
        "both_accesses t p acc (es @ [e]) (ks @ [k]) (length evs) (hs, ns1, y1)"
      using both_nic_step[OF _ e, of t p ks "length evs" hs ns y env xp] Cons.prems(1) by auto
    have "access_order (map snd acc) (length (es @ [e])) evs" using Cons.prems(2) Inr by simp
    then show ?thesis using Cons.IH[OF st(2)] st(1) Inr by auto
  qed
qed auto

text \<open>
  A host inside a call that is not exported, with no access under way, and the NIC it is
  wired to; \<open>n\<close> span ids are left.
\<close>

definition access_ready :: "nat \<Rightarrow> HostSpanner \<times> NicSpanner \<times> 'x sys \<Rightarrow> bool" where
  "access_ready n = (\<lambda>(hs, ns, y).
     \<exists>p t. hs_pending_call hs = Some p \<and> in_trace (sy_world y) t p \<and> p \<notin> set (w_exported (sy_world y)) \<and>
        \<not> hs_pci_write_before hs \<and>
        hs_pending_mmio hs = [] \<and> ns_from_host_queue ns = hs_to_nic_queue hs \<and>
        sy_channels y (hs_to_nic_queue hs) = QueueC CoroUnBoundedChannel_new \<and> ids_fresh n (sy_world y))"

definition trace_of :: "heap \<Rightarrow> u64 \<Rightarrow> u64 option" where
  "trace_of h i =
     (case h_spans h i of
        None \<Rightarrow> None
      | Some (s, d) \<Rightarrow> map_option (\<lambda>a. tc_trace_id (h_contexts h ! a)) (sp_trace_context s))"

text \<open>The span holds the events, below the given parent, in the trace of the given span.\<close>

definition linked_below :: "heap \<Rightarrow> u64 \<Rightarrow> u64 \<Rightarrow> event list \<Rightarrow> u64 \<Rightarrow> bool" where
  "linked_below h root p es i =
     (span_events h i = es \<and> parent_of h i = Some p \<and> trace_of h i \<noteq> None \<and> trace_of h i = trace_of h root)"

text \<open>The context the host pushed for its access \<open>m\<close>.\<close>

definition context_for :: "heap \<Rightarrow> u64 \<Rightarrow> Context \<Rightarrow> u64 \<Rightarrow> bool" where
  "context_for h root con m =
     (cx_parent_id con = m \<and> cx_expectation con = kMmio \<and> trace_of h root = Some (cx_trace_id con))"

lemma linked_below_child:
  assumes "child_span w t p es i" and "in_trace w t root"
  shows "linked_below (w_heap w) root p es i"
  using assms
  by (auto simp: child_span_def in_trace_def linked_below_def parent_of_def span_events_def trace_of_def)

lemma still_open_zip: "still_open acc = map fst (filter (\<lambda>(m, e, r). r = None) (zip (map fst acc) (map snd acc)))"
  by (simp add: still_open_def zip_map_fst_snd)

lemma accesses_linked:
  assumes "access_ready (length evs) (hs, ns, y)" and "access_order [] 0 evs"
  shows "\<exists>hs' ns' y' p ms ks. feed_both env xp evs (hs, ns, y) = Inr (hs', ns', y') \<and>
    hs_pending_call hs = Some p \<and> distinct ms \<and>
    length ms = length (host_log [] evs) \<and> length ks = length (nic_part evs) \<and> length ks \<le> length ms \<and>
    hs_pending_mmio hs' = map fst (filter (\<lambda>(m, e, r). r = None) (zip ms (host_log [] evs))) \<and>
    (\<forall>j < length ms.
       linked_below (w_heap (sy_world y')) p p (access_events (host_log [] evs ! j)) (ms ! j)) \<and>
    (\<forall>j < length ks. linked_below (w_heap (sy_world y')) p (ms ! j) [nic_part evs ! j] (ks ! j)) \<and>
    list_all2 (context_for (w_heap (sy_world y')) p)
      (queue (sy_channels y' (hs_to_nic_queue hs'))) (drop (length ks) ms)"
proof -
  obtain p t where r: "hs_pending_call hs = Some p" "in_trace (sy_world y) t p"
      "p \<notin> set (w_exported (sy_world y))" "\<not> hs_pci_write_before hs"
      "hs_pending_mmio hs = []" "ns_from_host_queue ns = hs_to_nic_queue hs"
      "sy_channels y (hs_to_nic_queue hs) = QueueC CoroUnBoundedChannel_new"
      "ids_fresh (length evs) (sy_world y)"
    using assms(1) by (auto simp: access_ready_def)
  have "both_accesses t p [] [] [] (length evs) (hs, ns, y)"
    using r by (simp add: both_accesses_def host_accesses_def queued_accesses_def CoroUnBoundedChannel_new_def)
  then obtain hs' ns' y' acc ks where b: "feed_both env xp evs (hs, ns, y) = Inr (hs', ns', y')"
      "map snd acc = host_log [] evs" "both_accesses t p acc (nic_part evs) ks 0 (hs', ns', y')"
    using both_feed[of t p "[]" "[]" "[]" evs hs ns y env xp] assms(2) by auto
  let ?ms = "map fst acc" and ?w = "sy_world y'"
  have h: "hs_pending_mmio hs' = still_open acc" "in_trace ?w t p" "distinct (p # ?ms)"
      "\<forall>a \<in> set acc. access_ok ?w t p a" "length ks = length (nic_part evs)"
      "queued_accesses t (drop (length (nic_part evs)) ?ms) (sy_channels y' (hs_to_nic_queue hs'))"
      "\<forall>j < length (nic_part evs). child_span ?w t (?ms ! j) [nic_part evs ! j] (ks ! j)"
      "length (nic_part evs) \<le> length acc"
    using b(3) unfolding both_accesses_def host_accesses_def prod.case by blast+
  have len: "length acc = length (host_log [] evs)" using b(2) by (metis length_map)
  have "linked_below (w_heap ?w) p p (access_events (host_log [] evs ! j)) (?ms ! j)" if "j < length ?ms" for j
  proof -
    have "access_ok ?w t p (acc ! j)" using h(4) that by simp
    moreover have "host_log [] evs ! j = snd (acc ! j)" using that by (simp flip: b(2))
    ultimately have "child_span ?w t p (access_events (host_log [] evs ! j)) (?ms ! j)"
      using that by (auto simp: access_ok_def split_beta)
    then show ?thesis by (rule linked_below_child[OF _ h(2)])
  qed
  moreover have "list_all2 (context_for (w_heap ?w) p) (queue (sy_channels y' (hs_to_nic_queue hs')))
      (drop (length ks) ?ms)"
  proof -
    have "trace_of (w_heap ?w) p = Some t" using h(2) by (auto simp: in_trace_def trace_of_def)
    then have "access_context t con m \<Longrightarrow> context_for (w_heap ?w) p con m" for con m
      by (simp add: access_context_def context_for_def)
    then show ?thesis using h(5,6) by (auto simp: queued_accesses_def intro: list_all2_mono)
  qed
  moreover have "hs_pending_mmio hs' = map fst (filter (\<lambda>(m, e, r). r = None) (zip ?ms (host_log [] evs)))"
    unfolding h(1) still_open_zip b(2) by (rule refl)
  ultimately show ?thesis
    using b(1) r(1) h(3,5,8) len linked_below_child[OF _ h(2)] h(7)
    by (intro exI[of _ hs'] exI[of _ ns'] exI[of _ y'] exI[of _ p] exI[of _ ?ms] exI[of _ ks]) (simp)
qed

end
