(* ===== verification/ColumboProps.thy ===== *)
theory ColumboProps
  imports AccessLinks TracerProps
begin

text \<open>
  The properties of a run: what holds of the shared tracer and of the spanners in every state
  a run reaches, however the steps of its spanners interleave.
\<close>

section \<open>A concrete run\<close>

definition sample_env :: TraceEnvironment where
  "sample_env = demo_env\<lparr>sys_entry := {''__sys_read''}\<rparr>"

definition sample_call :: "u64 \<Rightarrow> string \<Rightarrow> event" where
  "sample_call ts fn =
     HostCall \<lparr>ev_timestamp = ts, ev_parser_identifier = 1, ev_parser_name = ''gem5''\<rparr> 0 (Some fn)
       (Some ''linux'')"

lemmas sample_defs = sample_env_def sample_call_def demo_env_def plain_call_def is_entry_def
  IsSysEntry_def IsKernelRx_def GetCallFunc_def GetParserIdent_def

lemma setup_spanners: "\<exists>hs rest y. columbo_setup x = Inr (HostS hs # rest, y)"
  by (simp add: setup_defs)

lemma setup_host:
  assumes "columbo_setup x = Inr (ss, y)" and "ss ! 0 = HostS hs"
  shows "hs_pending_call hs = None" and "w_traces (sy_world y) = []"
    and "known x [] \<Longrightarrow> Suc (Suc n) < 2 ^ 64 \<Longrightarrow> calls_ok known [] (Suc n) (sy_world y)"
  using assms
  by (auto simp: setup_defs calls_ok_def fresh_id_def next_trace_def id_counters_init_def)

text \<open>One system call entry, consumed by the server's host: two spans, one of them exported.\<close>

lemma sample_run:
  "\<exists>ss y. columbo_run sample_env (otlp_ExportSpan counting_otel) demo_exporter (ss, y) \<and>
     length (w_exported (sy_world y)) = 1"
proof -
  obtain hs rest y where st: "columbo_setup demo_exporter = Inr (HostS hs # rest, y)"
    using setup_spanners[of demo_exporter] by blast
  let ?e = "sample_call 5 ''__sys_read''"
  have ok: "calls_ok otlp_known [] (Suc (Suc (length ([] :: event list)))) (sy_world y)"
    using setup_host(3)[OF st, of hs otlp_known 1]
    by (simp add: otlp_known_def demo_exporter_def OtlpSpanExporter_new_def)
  obtain hs' y' p where r: "feed (Host_consume sample_env (otlp_ExportSpan counting_otel)) [?e] (hs, y) = Inr (hs', y')"
      "map (span_events (w_heap (sy_world y'))) (w_exported (sy_world y')) @
        [span_events (w_heap (sy_world y')) p] =
       cut_calls (is_entry sample_env) (is_entry sample_env ?e) [?e] [?e]"
    using otlp_events.host_calls_spans[where hs = hs and y = y and es = "[]" and ?e0.0 = ?e
        and env = sample_env and q = 1 and ot = counting_otel] setup_host(1,2)[OF st] ok
      counting_otel_documented
    by (auto simp: sample_defs)
  have "map (span_events (w_heap (sy_world y'))) (w_exported (sy_world y')) = [[?e]]"
    using r(2) by (simp add: sample_defs)
  then have len: "length (w_exported (sy_world y')) = 1" by (metis length_map length_Cons list.size(3) One_nat_def)
  have "columbo_step sample_env (otlp_ExportSpan counting_otel) (HostS hs # rest, y)
      ((HostS hs # rest)[0 := HostS hs'], y')"
  proof (rule step_consume)
    show "event_exportable ?e" by (simp add: sample_call_def)
    show "unat (fresh_id (sy_world y)) + spanner_cost ((HostS hs # rest) ! 0) y < 2 ^ 64"
      using st by (auto simp: setup_defs fresh_id_def host_cost_def copy_fuel_def id_counters_init_def
          CoroUnBoundedChannel_new_def)
    show "spanner_consume sample_env (otlp_ExportSpan counting_otel) (Some ?e) ((HostS hs # rest) ! 0, y)
        = Inr (HostS hs', y')"
      using r(1) by (auto simp: rbind_eq_Inr)
  qed simp
  then show ?thesis using run_step[OF run_setup[OF st]] len by blast
qed

section \<open>The tracer's discipline in a run\<close>

lemma columbo_run_length: "columbo_run env xp x0 s \<Longrightarrow> length (fst s) = 5"
proof (induction rule: columbo_run.induct)
  case (run_setup s)
  then show ?case
    by (auto simp: setup_defs)
next
  case (run_step s s')
  then show ?case by (cases s) (auto elim!: columbo_stepE)
qed

lemma otlp_run_ok:
  assumes "columbo_run env (otlp_ExportSpan ot) (OtlpSpanExporter_new off url b lib sdk) (ss, y)"
    and "otel_documented ot"
  shows "tracer_reachable (otlp_ExportSpan ot) (exportable_with ot)
      (OtlpSpanExporter_new off url b lib sdk) (sy_world y)"
    and "k < length ss \<Longrightarrow> spanner_open (ss ! k) (w_heap (sy_world y)) \<inter> done_spans (sy_world y) = {}"
    and "j < length ss \<Longrightarrow> k < length ss \<Longrightarrow> j \<noteq> k \<Longrightarrow> spanner_roles (ss ! j) \<inter> spanner_roles (ss ! k) = {}"
proof -
  have ok: "otlp_events.spanners.clients_ok ot off url b lib sdk ss y"
    using otlp_events.columbo_run_ok[OF assms(1)] assms(2) by simp
  have "0 < length ss" using columbo_run_length[OF assms(1)] by simp
  then show "tracer_reachable (otlp_ExportSpan ot) (exportable_with ot)
      (OtlpSpanExporter_new off url b lib sdk) (sy_world y)"
    using ok unfolding otlp_events.spanners.clients_ok_def otlp_events.good_def by blast
  show "k < length ss \<Longrightarrow> spanner_open (ss ! k) (w_heap (sy_world y)) \<inter> done_spans (sy_world y) = {}"
    using ok unfolding otlp_events.spanners.clients_ok_def otlp_events.good_def by blast
  show "j < length ss \<Longrightarrow> k < length ss \<Longrightarrow> j \<noteq> k \<Longrightarrow> spanner_roles (ss ! j) \<inter> spanner_roles (ss ! k) = {}"
    using ok unfolding otlp_events.spanners.clients_ok_def by blast
qed

text \<open>
  C2. In every state a run of two hosts, two NICs and the network reaches, whatever events
  their pipelines deliver and however they interleave: the tracer has exported each span at
  most once and after its parent, the spans a spanner still extends are not finished, and
  no two spanners hold the same span. So the spanners satisfy the guards under which the
  tracer keeps its discipline.
\<close>

theorem columbo_export_discipline:
  assumes "columbo_run env (otlp_ExportSpan ot) (OtlpSpanExporter_new off url b lib sdk) (ss, y)"
    and "otel_documented ot"
  shows "distinct (w_exported (sy_world y)) \<and>
    (\<forall>k < length (w_exported (sy_world y)). \<forall>p.
       parent_of (w_heap (sy_world y)) (w_exported (sy_world y) ! k) = Some p \<longrightarrow>
       p \<in> set (take k (w_exported (sy_world y)))) \<and>
    map fst (ox_context_map (w_exporter (sy_world y))) = rev (w_exported (sy_world y)) \<and>
    (\<forall>k < length ss. spanner_open (ss ! k) (w_heap (sy_world y)) \<inter> done_spans (sy_world y) = {}) \<and>
    (\<forall>j < length ss. \<forall>k < length ss. j \<noteq> k \<longrightarrow> spanner_roles (ss ! j) \<inter> spanner_roles (ss ! k) = {})"
proof -
  have inv: "tracer_inv (sy_world y)" "otlp_known (w_exporter (sy_world y)) (w_exported (sy_world y))"
    using otlp_reachable_inv[OF otlp_run_ok(1)[OF assms]] by (simp_all add: otlp.exporter_inv_def)
  have "p \<in> set (take k (w_exported (sy_world y)))"
    if "k < length (w_exported (sy_world y))"
      "parent_of (w_heap (sy_world y)) (w_exported (sy_world y) ! k) = Some p" for k p
    using parents_first_nth[of "w_heap (sy_world y)" "{}" "w_exported (sy_world y)" k p] inv(1) that
    by (simp add: tracer_inv_def)
  then show ?thesis
    using inv otlp_run_ok(2,3)[OF assms] by (simp add: tracer_inv_def otlp_known_def)
qed

theorem columbo_export_discipline_witness:
  "\<exists>ss y. columbo_run sample_env (otlp_ExportSpan counting_otel) demo_exporter (ss, y) \<and>
     length (w_exported (sy_world y)) = 1 \<and>
     map fst (ox_context_map (w_exporter (sy_world y))) = rev (w_exported (sy_world y))"
proof -
  obtain ss y where r: "columbo_run sample_env (otlp_ExportSpan counting_otel) demo_exporter (ss, y)"
      "length (w_exported (sy_world y)) = 1"
    using sample_run by blast
  show ?thesis
    using columbo_export_discipline[OF r(1)[unfolded demo_exporter_def] counting_otel_documented] r by blast
qed

section \<open>The calls of a host\<close>

text \<open>
  C12. The calls of a host that does not receive packets are cut at the system call entries:
  the exported call spans and the pending one hold, in order, the pieces of the event
  sequence. But the first event is used twice: the sequence that is cut starts with a
  second copy of it, so a run whose first call is an entry begins with a trace made of that
  entry alone.
\<close>

theorem host_calls_cut:
  assumes "columbo_setup (OtlpSpanExporter_new off url b lib sdk) = Inr (ss, y)" and "ss ! 0 = HostS hs"
    and "otel_documented ot" and "\<forall>e \<in> set (e0 # es). plain_call env q e \<and> event_exportable e"
    and "length es + 3 < 2 ^ 64"
  shows "\<exists>hs' y' p. feed (Host_consume env (otlp_ExportSpan ot)) (e0 # es) (hs, y) = Inr (hs', y') \<and>
    hs_pending_call hs' = Some p \<and> p \<notin> set (w_exported (sy_world y')) \<and>
    map (span_events (w_heap (sy_world y'))) (w_exported (sy_world y')) @
      [span_events (w_heap (sy_world y')) p] =
    cut_calls (is_entry env) (is_entry env e0) [e0] (e0 # es)"
proof -
  have ok: "calls_ok otlp_known [] (Suc (Suc (length es))) (sy_world y)"
    using setup_host(3)[OF assms(1,2), of otlp_known "Suc (length es)"] assms(5)
    by (simp add: otlp_known_def OtlpSpanExporter_new_def)
  show ?thesis
    by (rule otlp_events.host_calls_spans[OF setup_host(1,2)[OF assms(1,2)] ok])
       (use assms(3,4) in auto)
qed

theorem host_calls_cut_witness:
  "\<exists>hs y hs' y'. feed (Host_consume sample_env (otlp_ExportSpan counting_otel))
      [sample_call 5 ''__sys_read'', sample_call 7 ''vfs_read'', sample_call 9 ''__sys_read''] (hs, y)
      = Inr (hs', y') \<and>
    map (span_events (w_heap (sy_world y'))) (w_exported (sy_world y')) =
      [[sample_call 5 ''__sys_read''], [sample_call 5 ''__sys_read'', sample_call 7 ''vfs_read'']]"
proof -
  obtain hs rest y where st: "columbo_setup demo_exporter = Inr (HostS hs # rest, y)"
    using setup_spanners[of demo_exporter] by blast
  show ?thesis
    using host_calls_cut[OF st[unfolded demo_exporter_def] _ counting_otel_documented, where hs = hs
        and env = sample_env and ?e0.0 = "sample_call 5 ''__sys_read''" and q = 1
        and es = "[sample_call 7 ''vfs_read'', sample_call 9 ''__sys_read'']"]
    by (fastforce simp: sample_defs)
qed

section \<open>The accesses of a host and its NIC\<close>

definition sample_read :: "u64 \<Rightarrow> event" where
  "sample_read ts =
     HostMmioR \<lparr>ev_timestamp = ts, ev_parser_identifier = 1, ev_parser_name = ''gem5''\<rparr> 7 64 4 0 0"

definition sample_write :: "u64 \<Rightarrow> event" where
  "sample_write ts =
     HostMmioW \<lparr>ev_timestamp = ts, ev_parser_identifier = 1, ev_parser_name = ''gem5''\<rparr> 8 68 4 0 4 True"

definition sample_nic :: "u64 \<Rightarrow> event" where
  "sample_nic ts =
     NicMmioW \<lparr>ev_timestamp = ts, ev_parser_identifier = 2, ev_parser_name = ''nicbm''\<rparr> 4 4 0 True"

text \<open>The server's host inside a call, and its NIC.\<close>

definition sample_read_done :: "u64 \<Rightarrow> event" where
  "sample_read_done ts =
     HostMmioCR \<lparr>ev_timestamp = ts, ev_parser_identifier = 1, ev_parser_name = ''gem5''\<rparr> 7"

lemmas sample_access_defs = sample_read_def sample_write_def sample_nic_def sample_read_done_def
  nic_access_def log_event_def is_response_def answers_def GetParserIdent_def

lemma sample_ready:
  "\<exists>hs h2 ns rest y hs1 y1. columbo_setup x = Inr (HostS hs # h2 # NicS ns # rest, y) \<and>
     Host_consume sample_env xp (Some (sample_call 5 ''vfs_read'')) (hs, y) = Inr (hs1, y1) \<and>
     access_ready 4 (hs1, ns, y1) \<and>
     unat (fresh_id (sy_world y)) + host_cost hs y < 2 ^ 64 \<and>
     unat (fresh_id (sy_world y1)) + host_cost hs1 y1 < 2 ^ 64"
  by (simp add: setup_defs fresh_id_def host_cost_def copy_fuel_def CoroUnBoundedChannel_new_def sample_defs Host_consume_def host_handlers_def RegisterHandler_def
      Spanner_consume_def Host_HandelCall_def CreateTraceStartingSpan_def FinishPendingSpan_def
      on_world_def start_defs host_args_def spanner_args_def id_counters_init_def
      HostCallSpan_AddToSpan_def HostCallSpan_init_def HostCallSpan_mark_def tag_data_def
      ptr_AddToSpan_def get_span_def IsType_def IsKernelTx_def IsDriverTx_def IsDriverRx_def
      is_pci_write_def IsPotentialAdd_def IsComplete_def IsPending_def push_event_def
      access_ready_def in_trace_def ids_fresh_def ids_left_def)



section \<open>Pointers and contexts\<close>

text \<open>A run in which a context is on its way: the host reads from the device inside a call.\<close>

lemma sample_link_run:
  "\<exists>ss y. columbo_run sample_env noop_ExportSpan () (ss, y) \<and>
     (\<exists>a. length (queue (sy_channels y a)) = 1)"
proof -
  obtain hs h2 ns rest y hs1 y1 where st: "columbo_setup () = Inr (HostS hs # h2 # NicS ns # rest, y)"
      "Host_consume sample_env noop_ExportSpan (Some (sample_call 5 ''vfs_read'')) (hs, y) = Inr (hs1, y1)"
      "access_ready 4 (hs1, ns, y1)" "unat (fresh_id (sy_world y)) + host_cost hs y < 2 ^ 64"
      "unat (fresh_id (sy_world y1)) + host_cost hs1 y1 < 2 ^ 64"
    using sample_ready[of "()" noop_ExportSpan] by blast
  have "access_ready (length [Inl (sample_read 6) :: event + event]) (hs1, ns, y1)"
      "access_order [] 0 [Inl (sample_read 6)]" "host_log [] [Inl (sample_read 6)] = [(sample_read 6, None)]"
    using st(3) by (auto simp: access_ready_def ids_fresh_def ids_left_def sample_access_defs)
  from accesses_linked[OF this(1,2), of sample_env noop_ExportSpan] this(3)
  obtain hs2 y2 where acc: "Host_consume sample_env noop_ExportSpan (Some (sample_read 6)) (hs1, y1) = Inr (hs2, y2)"
      "length (queue (sy_channels y2 (hs_to_nic_queue hs2))) = 1"
    by (auto simp: rbind_eq_Inr dest: list_all2_lengthD)
  let ?r = "h2 # NicS ns # rest"
  have 1: "columbo_step sample_env noop_ExportSpan (HostS hs # ?r, y) ((HostS hs # ?r)[0 := HostS hs1], y1)"
    by (rule step_consume[where e = "sample_call 5 ''vfs_read''"]) (use st in \<open>simp_all add: sample_call_def\<close>)
  have 2: "columbo_step sample_env noop_ExportSpan (HostS hs1 # ?r, y1) ((HostS hs1 # ?r)[0 := HostS hs2], y2)"
    by (rule step_consume[where e = "sample_read 6"]) (use st acc in \<open>simp_all add: sample_read_def\<close>)
  have "columbo_run sample_env noop_ExportSpan () ((HostS hs1 # ?r)[0 := HostS hs2], y2)"
    using run_step[OF run_step[OF run_setup[OF st(1)] 1[simplified]] 2] by simp
  then show ?thesis using acc(2) by blast
qed

text \<open>
  C7. The casts of the spanners are safe: in every state a run reaches, whatever exporter it
  uses, each span a spanner holds on to is a span of the heap, of the class the spanner uses
  it at, and it has recorded an event, so it has a start time.
\<close>

theorem columbo_pointers_typed:
  assumes "columbo_run env xp x0 (ss, y)" and "s \<in> set ss"
  shows "spanner_typed {k. claim_holds (w_heap (sy_world y)) k} s"
proof -
  obtain K where K: "linked 0 K y" "spanner_typed K s"
    using columbo_linked[OF assms(1)] assms(2) by auto
  show ?thesis by (rule spanner_typed_mono[OF K(2)]) (use K(1) in \<open>auto simp: linked_def\<close>)
qed

theorem columbo_pointers_typed_witness:
  "\<exists>ss y. columbo_run sample_env (otlp_ExportSpan counting_otel) demo_exporter (ss, y) \<and> length ss = 5 \<and>
     spanner_typed {k. claim_holds (w_heap (sy_world y)) k} (ss ! 0)"
proof -
  obtain ss y where r: "columbo_run sample_env (otlp_ExportSpan counting_otel) demo_exporter (ss, y)"
    using sample_run by blast
  have len: "length ss = 5" using columbo_run_length[OF r] by simp
  then have "ss ! 0 \<in> set ss" by simp
  then show ?thesis using columbo_pointers_typed[OF r] r len by blast
qed

text \<open>
  C6. The contexts are true: in every state a run reaches, a context on its way in a channel
  names a span of the heap as its parent, of a class its sender sends for that expectation,
  with the start time of that span's first event; and a trace context that has a parent
  names a span of the heap with its start time. Spans are never dropped while a pointer to
  them is on its way.
\<close>

theorem columbo_links:
  assumes "columbo_run env xp x0 (ss, y)"
  shows "(\<forall>a. \<forall>con \<in> set (queue (sy_channels y a)). con_ok (w_heap (sy_world y)) con) \<and>
    (\<forall>c \<in> set (h_contexts (w_heap (sy_world y))). parent_ok (w_heap (sy_world y)) c)"
  using columbo_linked[OF assms] by (auto simp: linked_def world_ok_def heap_typed_def)

theorem columbo_links_witness:
  "\<exists>ss y con a. columbo_run sample_env noop_ExportSpan () (ss, y) \<and>
     queue (sy_channels y a) = [con] \<and> con_ok (w_heap (sy_world y)) con"
proof -
  obtain ss y a where r: "columbo_run sample_env noop_ExportSpan () (ss, y)"
      "length (queue (sy_channels y a)) = 1"
    using sample_link_run by blast
  obtain con where con: "queue (sy_channels y a) = [con]"
    using r(2) by (auto simp: length_Suc_conv)
  have "con_ok (w_heap (sy_world y)) con"
    using columbo_links[OF r(1)] con by (metis list.set_intros(1))
  then show ?thesis using r(1) con by blast
qed

section \<open>The spans of a run\<close>

text \<open>
  C37. No run ever builds a broken span: in every state a run reaches, whatever exporter it
  uses, each span in the heap has the id it is filed under, has recorded an event, and all its
  events come from one parser, so from one simulator; hence no later event makes
  \<open>AddToSpan\<close> throw on it. The throw of \<open>HostCallSpan\<close>, which needs a span with a system
  entry and no events, is out of reach.
\<close>

theorem columbo_spans_sound:
  assumes "columbo_run env xp x0 (ss, y)" and "h_spans (w_heap (sy_world y)) i = Some (s, d)"
  shows "sp_id s = i \<and> sp_events s \<noteq> [] \<and> same_parser (sp_events s) \<and>
    (\<forall>env' ev. \<exists>added s' d'. AddToSpan env' ev (s, d) = Inr (added, s', d'))"
proof -
  have s: "sp_id s = i" "sp_events s \<noteq> []" "same_parser (sp_events s)"
    using columbo_linked[OF assms(1)] assms(2) by (auto simp: linked_def world_ok_def heap_typed_def)
  have "\<nexists>err. AddToSpan env' ev (s, d) = Inl err" for env' ev
    using s(2) AddToSpan_defined by blast
  then show ?thesis using s by (metis sum.exhaust prod_cases3)
qed

theorem columbo_spans_sound_witness:
  "\<exists>ss y i s d. columbo_run sample_env noop_ExportSpan () (ss, y) \<and>
     h_spans (w_heap (sy_world y)) i = Some (s, d) \<and> sp_id s = i \<and> sp_events s \<noteq> [] \<and>
     same_parser (sp_events s)"
proof -
  obtain ss y a where r: "columbo_run sample_env noop_ExportSpan () (ss, y)"
      "length (queue (sy_channels y a)) = 1"
    using sample_link_run by blast
  obtain con where con: "queue (sy_channels y a) = [con]"
    using r(2) by (auto simp: length_Suc_conv)
  have "con_ok (w_heap (sy_world y)) con"
    using columbo_linked[OF r(1)] con by (auto simp: linked_def) (metis list.set_intros(1))
  then obtain i s d where "h_spans (w_heap (sy_world y)) i = Some (s, d)"
    by (auto simp: con_ok_def claim_holds_def)
  then show ?thesis using columbo_spans_sound[OF r(1)] r(1) by blast
qed

end
