(* ===== verification/Config.thy ===== *)
theory Config
  imports Symtable "HOL-Library.List_Lexorder" "HOL-Library.Char_ord"
begin

text \<open>
  The configuration of a run (include/config/config.h) and the trace environment built from
  it (constructor and \<open>AddSymbolTableInternal\<close> of source/env/traceEnvironment.cc). The YAML
  library and the level names of the logging library are parameters.
\<close>

section \<open>The libraries\<close>

text \<open>
  The operations of \<open>YAML::Node\<close> the code calls: \<open>LoadFile\<close>, \<open>node[key]\<close> (\<open>None\<close>: the
  returned node is not defined), \<open>Type()\<close>, iteration, and the conversions \<open>as<T>()\<close>. A result
  \<open>Inl\<close> is an exception; none is caught.
\<close>

datatype NodeType = UndefinedNode | NullNode | ScalarNode | SequenceNode | MapNode

record 'n yaml =
  y_load :: "string \<Rightarrow> 'n res"
  y_get :: "'n \<Rightarrow> string \<Rightarrow> 'n option res"
  y_type :: "'n \<Rightarrow> NodeType"
  y_items :: "'n \<Rightarrow> 'n list"
  y_string :: "'n \<Rightarrow> string res"
  y_uint64 :: "'n \<Rightarrow> u64 res"

record 'l level_names =
  level_from_str :: "string \<Rightarrow> 'l"
  level_off :: 'l
  level_info :: 'l

section \<open>Checks\<close>

definition CheckKey :: "'n yaml \<Rightarrow> string \<Rightarrow> 'n \<Rightarrow> unit res" where
  "CheckKey y key node =
     rbind (y_get y node key) (\<lambda>r. throw_on (Option.is_none r) ''node doesnt contain specified key'')"

text \<open>An undefined node throws when it is used.\<close>

definition node_at :: "'n yaml \<Rightarrow> string \<Rightarrow> 'n \<Rightarrow> 'n res" where
  "node_at y key node = rbind (y_get y node key) (\<lambda>r. throw_if_empty r ''invalid node'')"

definition CheckKeyAndType :: "'n yaml \<Rightarrow> NodeType \<Rightarrow> string \<Rightarrow> 'n \<Rightarrow> unit res" where
  "CheckKeyAndType y ty key node =
     rbind (CheckKey y key node) (\<lambda>_.
     rbind (node_at y key node) (\<lambda>n.
       throw_on (y_type y n \<noteq> ty) ''node at key doesnt have specified type''))"

definition CheckEmptiness :: "'a list \<Rightarrow> unit res" where
  "CheckEmptiness to_check = throw_on (to_check = []) ''the container to check is empty''"

definition ResolveLogLevel :: "'l level_names \<Rightarrow> string \<Rightarrow> 'l" where
  "ResolveLogLevel sp level_name =
     (let level = level_from_str sp level_name in
      if level = level_off sp then level_info sp else level)"

section \<open>Containers\<close>

text \<open>\<open>std::set<std::string>\<close> as the list of its elements in their order.\<close>

type_synonym IndicatorContainer = "string list"

record SymTableConf =
  stc_identifier :: string
  stc_path :: string
  stc_address_offset :: u64
  stc_filter_type :: FilterType

definition CreateSymTableConf :: "'n yaml \<Rightarrow> 'n \<Rightarrow> SymTableConf res" where
  "CreateSymTableConf y node =
     rbind (CheckKey y ''Identifier'' node) (\<lambda>_.
     rbind (rbind (node_at y ''Identifier'' node) (y_string y)) (\<lambda>identifier.
     rbind (CheckEmptiness identifier) (\<lambda>_.
     rbind (CheckKey y ''Path'' node) (\<lambda>_.
     rbind (rbind (node_at y ''Path'' node) (y_string y)) (\<lambda>path.
     rbind (CheckEmptiness path) (\<lambda>_.
     rbind (CheckKey y ''AddressOffset'' node) (\<lambda>_.
     rbind (rbind (node_at y ''AddressOffset'' node) (y_uint64 y)) (\<lambda>offset.
     rbind (CheckKey y ''Type'' node) (\<lambda>_.
     rbind (rbind (node_at y ''Type'' node) (y_string y)) (\<lambda>ty.
       Inr \<lparr>stc_identifier = identifier, stc_path = path, stc_address_offset = offset,
            stc_filter_type = FilterTypeFromString ty\<rparr>))))))))))"

fun IterateAddStrings :: "'n yaml \<Rightarrow> 'n list \<Rightarrow> IndicatorContainer \<Rightarrow> IndicatorContainer res" where
  "IterateAddStrings y [] into = Inr into"
| "IterateAddStrings y (index # is) into =
     rbind (y_string y index) (\<lambda>s. IterateAddStrings y is (insort_insert s into))"

fun IterateAddTypes :: "'n yaml \<Rightarrow> 'n list \<Rightarrow> EventType set \<Rightarrow> EventType set res" where
  "IterateAddTypes y [] into = Inr into"
| "IterateAddTypes y (index # is) into =
     rbind (y_string y index) (\<lambda>s. IterateAddTypes y is (insert (EventTypeFromString s) into))"

fun IterateAddTables :: "'n yaml \<Rightarrow> 'n list \<Rightarrow> SymTableConf list \<Rightarrow> SymTableConf list res" where
  "IterateAddTables y [] into = Inr into"
| "IterateAddTables y (index # is) into =
     rbind (CreateSymTableConf y index) (\<lambda>c. IterateAddTables y is (into @ [c]))"

section \<open>The configuration\<close>

record 'l TraceEnvConfig =
  cfg_max_background_threads :: u64
  cfg_max_cpu_threads :: u64
  cfg_linux_net_func_indicator :: IndicatorContainer
  cfg_driver_func_indicator :: IndicatorContainer
  cfg_kernel_tx_indicator :: IndicatorContainer
  cfg_kernel_rx_indicator :: IndicatorContainer
  cfg_pci_write_indicators :: IndicatorContainer
  cfg_driver_tx_indicator :: IndicatorContainer
  cfg_driver_rx_indicator :: IndicatorContainer
  cfg_sys_entry :: IndicatorContainer
  cfg_blacklist_func_indicator :: IndicatorContainer
  cfg_types_to_filter :: "EventType set"
  cfg_symbol_tables :: "SymTableConf list"
  cfg_jaeger_url :: string
  cfg_line_buffer_size :: u64
  cfg_event_buffer_size :: u64
  cfg_log_level :: 'l

definition TraceEnvConfig_default :: "'l level_names \<Rightarrow> 'l TraceEnvConfig" where
  "TraceEnvConfig_default sp =
     \<lparr>cfg_max_background_threads = 1, cfg_max_cpu_threads = 1, cfg_linux_net_func_indicator = [],
      cfg_driver_func_indicator = [], cfg_kernel_tx_indicator = [], cfg_kernel_rx_indicator = [],
      cfg_pci_write_indicators = [], cfg_driver_tx_indicator = [], cfg_driver_rx_indicator = [],
      cfg_sys_entry = [], cfg_blacklist_func_indicator = [], cfg_types_to_filter = {},
      cfg_symbol_tables = [], cfg_jaeger_url = [], cfg_line_buffer_size = 0,
      cfg_event_buffer_size = 0, cfg_log_level = level_info sp\<rparr>"

text \<open>One check and the containers it fills; the second one gets the same strings again.\<close>

definition sequence_at :: "'n yaml \<Rightarrow> string \<Rightarrow> 'n \<Rightarrow> 'n list res" where
  "sequence_at y key root =
     rbind (CheckKeyAndType y SequenceNode key root) (\<lambda>_.
     rbind (node_at y key root) (\<lambda>n. Inr (y_items y n)))"

definition add_indicator :: "'n yaml \<Rightarrow> string \<Rightarrow> 'n \<Rightarrow> IndicatorContainer \<Rightarrow> IndicatorContainer res" where
  "add_indicator y key root c = rbind (sequence_at y key root) (\<lambda>is. IterateAddStrings y is c)"

definition add_indicator_both ::
  "'n yaml \<Rightarrow> string \<Rightarrow> 'n \<Rightarrow> IndicatorContainer \<Rightarrow> IndicatorContainer \<Rightarrow>
    (IndicatorContainer \<times> IndicatorContainer) res"
where
  "add_indicator_both y key root c1 c2 =
     rbind (sequence_at y key root) (\<lambda>is.
     rbind (IterateAddStrings y is c1) (\<lambda>c1'.
     rbind (IterateAddStrings y is c2) (\<lambda>c2'. Inr (c1', c2'))))"

definition read_indicators :: "'n yaml \<Rightarrow> 'n \<Rightarrow> 'l TraceEnvConfig \<Rightarrow> 'l TraceEnvConfig res" where
  "read_indicators y root c =
     rbind (add_indicator y ''LinuxFuncIndicator'' root (cfg_linux_net_func_indicator c)) (\<lambda>linux.
     rbind (add_indicator y ''DriverFuncIndicator'' root (cfg_driver_func_indicator c)) (\<lambda>driver.
     rbind (add_indicator_both y ''KernelTxIndicator'' root (cfg_kernel_tx_indicator c) linux) (\<lambda>(ktx, linux).
     rbind (add_indicator_both y ''KernelRxIndicator'' root (cfg_kernel_rx_indicator c) linux) (\<lambda>(krx, linux).
     rbind (add_indicator_both y ''PciWriteIndicator'' root (cfg_pci_write_indicators c) linux) (\<lambda>(pci, linux).
     rbind (add_indicator_both y ''DriverTxIndicator'' root (cfg_driver_tx_indicator c) driver) (\<lambda>(dtx, driver).
     rbind (add_indicator_both y ''DriverRxIndicator'' root (cfg_driver_rx_indicator c) driver) (\<lambda>(drx, driver).
     rbind (add_indicator_both y ''SysEntryIndicator'' root (cfg_sys_entry c) linux) (\<lambda>(sys, linux).
     rbind (add_indicator y ''BlacklistFunctions'' root (cfg_blacklist_func_indicator c)) (\<lambda>blacklist.
       Inr (c\<lparr>cfg_linux_net_func_indicator := linux, cfg_driver_func_indicator := driver,
              cfg_kernel_tx_indicator := ktx, cfg_kernel_rx_indicator := krx,
              cfg_pci_write_indicators := pci, cfg_driver_tx_indicator := dtx,
              cfg_driver_rx_indicator := drx, cfg_sys_entry := sys,
              cfg_blacklist_func_indicator := blacklist\<rparr>))))))))))"

definition read_types_and_tables :: "'n yaml \<Rightarrow> 'n \<Rightarrow> 'l TraceEnvConfig \<Rightarrow> 'l TraceEnvConfig res" where
  "read_types_and_tables y root c =
     rbind (sequence_at y ''TypesToFilter'' root) (\<lambda>is.
     rbind (IterateAddTypes y is (cfg_types_to_filter c)) (\<lambda>types.
     rbind (sequence_at y ''SymbolTables'' root) (\<lambda>is.
     rbind (IterateAddTables y is (cfg_symbol_tables c)) (\<lambda>tables.
       Inr (c\<lparr>cfg_types_to_filter := types, cfg_symbol_tables := tables\<rparr>)))))"

definition check_containers :: "'l TraceEnvConfig \<Rightarrow> unit res" where
  "check_containers c =
     rbind (CheckEmptiness (cfg_driver_tx_indicator c)) (\<lambda>_.
     rbind (CheckEmptiness (cfg_sys_entry c)) (\<lambda>_.
     rbind (CheckEmptiness (cfg_linux_net_func_indicator c)) (\<lambda>_.
     rbind (CheckEmptiness (cfg_driver_func_indicator c)) (\<lambda>_.
       CheckEmptiness (cfg_symbol_tables c)))))"

text \<open>A number that may not be 0.\<close>

definition positive_at :: "'n yaml \<Rightarrow> string \<Rightarrow> 'n \<Rightarrow> u64 res" where
  "positive_at y key root =
     rbind (CheckKeyAndType y ScalarNode key root) (\<lambda>_.
     rbind (rbind (node_at y key root) (y_uint64 y)) (\<lambda>n.
     rbind (throw_on (n = 0) key) (\<lambda>_. Inr n)))"

definition read_scalars ::
  "'l level_names \<Rightarrow> 'n yaml \<Rightarrow> 'n \<Rightarrow> 'l TraceEnvConfig \<Rightarrow> 'l TraceEnvConfig res"
where
  "read_scalars sp y root c =
     rbind (positive_at y ''MaxBackgroundThreads'' root) (\<lambda>background.
     rbind (positive_at y ''MaxCpuThreads'' root) (\<lambda>cpu.
     rbind (CheckKey y ''JaegerUrl'' root) (\<lambda>_.
     rbind (rbind (node_at y ''JaegerUrl'' root) (y_string y)) (\<lambda>url.
     rbind (throw_on (url = []) ''no jaeger url given'') (\<lambda>_.
     rbind (positive_at y ''LineBufferSize'' root) (\<lambda>line_size.
     rbind (positive_at y ''EventBufferSize'' root) (\<lambda>event_size.
     rbind (CheckKey y ''LogLevel'' root) (\<lambda>_.
     rbind (rbind (node_at y ''LogLevel'' root) (y_string y)) (\<lambda>level.
       Inr (c\<lparr>cfg_max_background_threads := background, cfg_max_cpu_threads := cpu,
              cfg_jaeger_url := url, cfg_line_buffer_size := line_size,
              cfg_event_buffer_size := event_size,
              cfg_log_level := ResolveLogLevel sp level\<rparr>))))))))))"

definition CreateFromYaml :: "'l level_names \<Rightarrow> 'n yaml \<Rightarrow> string \<Rightarrow> 'l TraceEnvConfig res" where
  "CreateFromYaml sp y config_path =
     rbind (y_load y config_path) (\<lambda>root.
     rbind (read_indicators y root (TraceEnvConfig_default sp)) (\<lambda>c1.
     rbind (read_types_and_tables y root c1) (\<lambda>c2.
     rbind (check_containers c2) (\<lambda>_.
       read_scalars sp y root c2))))"

section \<open>What a configuration holds\<close>

text \<open>The strings of a sequence, as far as they convert.\<close>

definition strings_at :: "'n yaml \<Rightarrow> string \<Rightarrow> 'n \<Rightarrow> string set" where
  "strings_at y key root =
     (case sequence_at y key root of
        Inl e \<Rightarrow> {}
      | Inr is \<Rightarrow> {s. \<exists>i \<in> set is. y_string y i = Inr s})"

lemma IterateAddStrings_set:
  "IterateAddStrings y is c = Inr c' \<Longrightarrow> set c' = set c \<union> {s. \<exists>i \<in> set is. y_string y i = Inr s}"
  by (induction "is" arbitrary: c) (auto simp: rbind_eq_Inr set_insort_insert)

lemma IterateAddStrings_sorted:
  "IterateAddStrings y is c = Inr c' \<Longrightarrow> sorted c \<Longrightarrow> distinct c \<Longrightarrow> sorted c' \<and> distinct c'"
  by (induction "is" arbitrary: c) (auto simp: rbind_eq_Inr sorted_insort_insert distinct_insort_insert)

lemma IterateAddTypes_set:
  "IterateAddTypes y is c = Inr c' \<Longrightarrow>
   c' = c \<union> EventTypeFromString ` {s. \<exists>i \<in> set is. y_string y i = Inr s}"
proof (induction "is" arbitrary: c)
  case (Cons i "is")
  obtain s where s: "y_string y i = Inr s" "IterateAddTypes y is (insert (EventTypeFromString s) c) = Inr c'"
    using Cons.prems by (auto simp: rbind_eq_Inr)
  show ?case using Cons.IH[OF s(2)] s(1) by auto
qed simp

lemma CreateSymTableConf_ok:
  "CreateSymTableConf y n = Inr t \<Longrightarrow> stc_identifier t \<noteq> [] \<and> stc_path t \<noteq> []"
  by (auto simp: CreateSymTableConf_def rbind_eq_Inr CheckEmptiness_def)

lemma IterateAddTables_ok:
  "IterateAddTables y is c = Inr c' \<Longrightarrow> \<forall>t \<in> set c. stc_identifier t \<noteq> [] \<and> stc_path t \<noteq> [] \<Longrightarrow>
   \<forall>t \<in> set c'. stc_identifier t \<noteq> [] \<and> stc_path t \<noteq> []"
proof (induction "is" arbitrary: c)
  case (Cons i "is")
  obtain t where t: "CreateSymTableConf y i = Inr t" "IterateAddTables y is (c @ [t]) = Inr c'"
    using Cons.prems(1) by (auto simp: rbind_eq_Inr)
  have "\<forall>u \<in> set (c @ [t]). stc_identifier u \<noteq> [] \<and> stc_path u \<noteq> []"
    using Cons.prems(2) CreateSymTableConf_ok[OF t(1)] by auto
  from Cons.IH[OF t(2) this] show ?case .
qed simp

definition is_set :: "IndicatorContainer \<Rightarrow> bool" where
  "is_set c = (sorted c \<and> distinct c)"

lemma add_indicator_set:
  assumes "add_indicator y key root c = Inr c'"
  shows "set c' = set c \<union> strings_at y key root" and "is_set c \<Longrightarrow> is_set c'"
  using assms IterateAddStrings_set IterateAddStrings_sorted
  by (fastforce simp: add_indicator_def rbind_eq_Inr strings_at_def is_set_def)+

lemma add_indicator_both_set:
  assumes "add_indicator_both y key root c1 c2 = Inr (c1', c2')"
  shows "set c1' = set c1 \<union> strings_at y key root" and "set c2' = set c2 \<union> strings_at y key root"
    and "is_set c1 \<Longrightarrow> is_set c1'" and "is_set c2 \<Longrightarrow> is_set c2'"
  using assms IterateAddStrings_set IterateAddStrings_sorted
  by (fastforce simp: add_indicator_both_def rbind_eq_Inr strings_at_def is_set_def)+

lemma sequence_at_found: "sequence_at y key root = Inr is \<Longrightarrow> strings_at y key root = {s. \<exists>i \<in> set is. y_string y i = Inr s}"
  by (simp add: strings_at_def)

text \<open>The containers hold the strings of the file, the indicators of the parts included.\<close>

definition config_holds :: "'n yaml \<Rightarrow> 'n \<Rightarrow> 'l TraceEnvConfig \<Rightarrow> bool" where
  "config_holds y root c =
     (let at = (\<lambda>key. strings_at y key root) in
      set (cfg_kernel_tx_indicator c) = at ''KernelTxIndicator'' \<and>
      set (cfg_kernel_rx_indicator c) = at ''KernelRxIndicator'' \<and>
      set (cfg_pci_write_indicators c) = at ''PciWriteIndicator'' \<and>
      set (cfg_driver_tx_indicator c) = at ''DriverTxIndicator'' \<and>
      set (cfg_driver_rx_indicator c) = at ''DriverRxIndicator'' \<and>
      set (cfg_sys_entry c) = at ''SysEntryIndicator'' \<and>
      set (cfg_blacklist_func_indicator c) = at ''BlacklistFunctions'' \<and>
      set (cfg_linux_net_func_indicator c) =
        at ''LinuxFuncIndicator'' \<union> set (cfg_kernel_tx_indicator c) \<union> set (cfg_kernel_rx_indicator c) \<union>
        set (cfg_pci_write_indicators c) \<union> set (cfg_sys_entry c) \<and>
      set (cfg_driver_func_indicator c) =
        at ''DriverFuncIndicator'' \<union> set (cfg_driver_tx_indicator c) \<union> set (cfg_driver_rx_indicator c) \<and>
      cfg_types_to_filter c = EventTypeFromString ` at ''TypesToFilter'')"

definition indicator_lists :: "'l TraceEnvConfig \<Rightarrow> IndicatorContainer list" where
  "indicator_lists c =
     [cfg_linux_net_func_indicator c, cfg_driver_func_indicator c, cfg_kernel_tx_indicator c,
      cfg_kernel_rx_indicator c, cfg_pci_write_indicators c, cfg_driver_tx_indicator c,
      cfg_driver_rx_indicator c, cfg_sys_entry c, cfg_blacklist_func_indicator c]"

definition config_ok :: "'l TraceEnvConfig \<Rightarrow> bool" where
  "config_ok c =
     (list_all is_set (indicator_lists c) \<and>
      cfg_driver_tx_indicator c \<noteq> [] \<and> cfg_sys_entry c \<noteq> [] \<and> cfg_symbol_tables c \<noteq> [] \<and>
      (\<forall>t \<in> set (cfg_symbol_tables c). stc_identifier t \<noteq> [] \<and> stc_path t \<noteq> []) \<and>
      cfg_max_background_threads c \<noteq> 0 \<and> cfg_max_cpu_threads c \<noteq> 0 \<and> cfg_jaeger_url c \<noteq> [] \<and>
      cfg_line_buffer_size c \<noteq> 0 \<and> cfg_event_buffer_size c \<noteq> 0)"

lemma read_indicators_holds:
  assumes "read_indicators y root (TraceEnvConfig_default sp) = Inr c"
  shows "list_all is_set (indicator_lists c)"
    and "\<forall>types tables. (types = EventTypeFromString ` strings_at y ''TypesToFilter'' root \<longrightarrow>
      config_holds y root (c\<lparr>cfg_types_to_filter := types, cfg_symbol_tables := tables\<rparr>))"
    and "cfg_types_to_filter c = {}" and "cfg_symbol_tables c = []"
proof -
  have new: "is_set ([] :: IndicatorContainer)" by (simp add: is_set_def)
  obtain l0 d0 ktx l1 krx l2 pci l3 dtx d1 drx d2 sys l4 bl where r:
      "add_indicator y ''LinuxFuncIndicator'' root [] = Inr l0"
      "add_indicator y ''DriverFuncIndicator'' root [] = Inr d0"
      "add_indicator_both y ''KernelTxIndicator'' root [] l0 = Inr (ktx, l1)"
      "add_indicator_both y ''KernelRxIndicator'' root [] l1 = Inr (krx, l2)"
      "add_indicator_both y ''PciWriteIndicator'' root [] l2 = Inr (pci, l3)"
      "add_indicator_both y ''DriverTxIndicator'' root [] d0 = Inr (dtx, d1)"
      "add_indicator_both y ''DriverRxIndicator'' root [] d1 = Inr (drx, d2)"
      "add_indicator_both y ''SysEntryIndicator'' root [] l3 = Inr (sys, l4)"
      "add_indicator y ''BlacklistFunctions'' root [] = Inr bl"
      "c = (TraceEnvConfig_default sp)\<lparr>cfg_linux_net_func_indicator := l4, cfg_driver_func_indicator := d2,
              cfg_kernel_tx_indicator := ktx, cfg_kernel_rx_indicator := krx,
              cfg_pci_write_indicators := pci, cfg_driver_tx_indicator := dtx,
              cfg_driver_rx_indicator := drx, cfg_sys_entry := sys,
              cfg_blacklist_func_indicator := bl\<rparr>"
    using assms by (auto simp: read_indicators_def rbind_eq_Inr TraceEnvConfig_default_def)
  note one = add_indicator_set and both = add_indicator_both_set
  note l0 = one[OF r(1)] and d0 = one[OF r(2)] and ktx = both[OF r(3)] and krx = both[OF r(4)]
    and pci = both[OF r(5)] and dtx = both[OF r(6)] and drx = both[OF r(7)] and sys = both[OF r(8)]
    and bl = one[OF r(9)]
  note is_sets = l0(2) d0(2) ktx(3,4) krx(3,4) pci(3,4) dtx(3,4) drx(3,4) sys(3,4) bl(2)
  note sets = l0(1) d0(1) ktx(1,2) krx(1,2) pci(1,2) dtx(1,2) drx(1,2) sys(1,2) bl(1)
  show "list_all is_set (indicator_lists c)" using is_sets new by (simp add: indicator_lists_def r(10))
  show "\<forall>types tables. (types = EventTypeFromString ` strings_at y ''TypesToFilter'' root \<longrightarrow>
      config_holds y root (c\<lparr>cfg_types_to_filter := types, cfg_symbol_tables := tables\<rparr>))"
    by (simp add: config_holds_def Let_def r(10) sets Un_assoc)
  show "cfg_types_to_filter c = {}" "cfg_symbol_tables c = []" by (simp_all add: r(10) TraceEnvConfig_default_def)
qed

lemma config_fields [simp]:
  "config_holds y root (c\<lparr>cfg_max_background_threads := n1, cfg_max_cpu_threads := n2, cfg_jaeger_url := u,
     cfg_line_buffer_size := n3, cfg_event_buffer_size := n4, cfg_log_level := l\<rparr>) = config_holds y root c"
  "indicator_lists (c\<lparr>cfg_max_background_threads := n1, cfg_max_cpu_threads := n2, cfg_jaeger_url := u,
     cfg_line_buffer_size := n3, cfg_event_buffer_size := n4, cfg_log_level := l\<rparr>) = indicator_lists c"
  "indicator_lists (c\<lparr>cfg_types_to_filter := types, cfg_symbol_tables := tables\<rparr>) = indicator_lists c"
  by (simp_all add: config_holds_def indicator_lists_def)

lemma CreateFromYaml_created:
  assumes "CreateFromYaml sp y config_path = Inr c"
  shows "config_ok c \<and> (\<exists>root. y_load y config_path = Inr root \<and> config_holds y root c)"
proof -
  obtain root c1 c2 where r: "y_load y config_path = Inr root"
      "read_indicators y root (TraceEnvConfig_default sp) = Inr c1"
      "read_types_and_tables y root c1 = Inr c2" "check_containers c2 = Inr ()"
      "read_scalars sp y root c2 = Inr c"
    using assms by (auto simp: CreateFromYaml_def rbind_eq_Inr)
  note ind = read_indicators_holds[OF r(2)]
  obtain is1 types is2 tables where t: "sequence_at y ''TypesToFilter'' root = Inr is1"
      "IterateAddTypes y is1 {} = Inr types" "IterateAddTables y is2 [] = Inr tables"
      "c2 = c1\<lparr>cfg_types_to_filter := types, cfg_symbol_tables := tables\<rparr>"
    using r(3) ind(3,4) by (auto simp: read_types_and_tables_def rbind_eq_Inr)
  have types: "types = EventTypeFromString ` strings_at y ''TypesToFilter'' root"
    using IterateAddTypes_set[OF t(2)] sequence_at_found[OF t(1)] by simp
  have holds: "config_holds y root c2" using ind(2) types t(4) by blast
  have tables: "\<forall>u \<in> set (cfg_symbol_tables c2). stc_identifier u \<noteq> [] \<and> stc_path u \<noteq> []"
    using IterateAddTables_ok[OF t(3)] by (simp add: t(4))
  have lists: "list_all is_set (indicator_lists c2)" using ind(1) by (simp add: t(4))
  obtain b cpu url ls es lv where s: "c = c2\<lparr>cfg_max_background_threads := b, cfg_max_cpu_threads := cpu,
      cfg_jaeger_url := url, cfg_line_buffer_size := ls, cfg_event_buffer_size := es, cfg_log_level := lv\<rparr>"
      "b \<noteq> 0" "cpu \<noteq> 0" "url \<noteq> []" "ls \<noteq> 0" "es \<noteq> 0"
    using r(5) by (auto simp: read_scalars_def positive_at_def rbind_eq_Inr)
  have "config_ok c" using lists tables r(4) s(2-6)
    by (simp add: config_ok_def check_containers_def CheckEmptiness_def rbind_eq_Inr s(1))
  then show ?thesis using holds r(1) by (simp add: s(1))
qed

end
