(* ===== verification/SymtableSpec.thy ===== *)
theory SymtableSpec
  imports Symtable
begin

text \<open>
  What a symbol table holds once a dump file is loaded, for the three formats, and the
  nearest-address lookups: the table is a finite map from addresses to names in which the
  first line that gives an address wins.
\<close>

section \<open>The ordered table\<close>

definition table_ok :: "SymTable \<Rightarrow> bool" where
  "table_ok t = sorted_wrt (<) (map fst t)"

lemma table_insert_cases:
  assumes "table_ok t"
  shows "table_ok (snd (table_insert k v t))"
    and "map_of (snd (table_insert k v t)) = (case map_of t k of None \<Rightarrow> (map_of t)(k \<mapsto> v) | Some _ \<Rightarrow> map_of t)"
    and "fst (table_insert k v t) = (map_of t k = None)"
    and "fst ` set (snd (table_insert k v t)) = insert k (fst ` set t)"
  using assms
proof (induction t)
  case Nil
  case 1 show ?case by (simp add: table_ok_def)
  case 2 show ?case by simp
  case 3 show ?case by simp
  case 4 show ?case by simp
next
  case (Cons ax t)
  obtain a x where ax: "ax = (a, x)" by (cases ax)
  have t: "table_ok t" and less: "\<forall>b \<in> fst ` set t. a < b" if "table_ok (ax # t)"
    using that by (auto simp: table_ok_def ax)
  have above: "map_of t b = None" if "table_ok (ax # t)" "b \<le> a" for b
    using less[OF that(1)] that(2) by (force simp: map_of_eq_None_iff)
  obtain ok t' where r: "table_insert k v t = (ok, t')" by (cases "table_insert k v t")
  case 1 then show ?case
    using Cons(1)[OF t[OF 1]] Cons(4)[OF t[OF 1]] less[OF 1]
    by (auto simp: ax r table_ok_def split: if_splits)
  case 2 then show ?case
    using Cons(2)[OF t[OF 2]] above[OF 2, of k] by (auto simp: ax r fun_upd_twist split: option.splits)
  case 3 then show ?case
    using Cons(3)[OF t[OF 3]] above[OF 3, of k] by (auto simp: ax r split: option.splits)
  case 4 then show ?case
    using Cons(4)[OF t[OF 4]] by (auto simp: ax r)
qed

section \<open>What one line adds\<close>

text \<open>The names of the table.\<close>

definition symbol_at :: "SymsFilter \<Rightarrow> u64 \<Rightarrow> string option" where
  "symbol_at f a = Option.bind (Filter a f) (deref (sf_i f))"

definition filter_ok :: "SymsFilter \<Rightarrow> bool" where
  "filter_ok f =
     (internalizer_inv (sf_i f) \<and> table_ok (sf_symbol_table f) \<and>
      (\<forall>(a, p) \<in> set (sf_symbol_table f). deref (sf_i f) p \<noteq> None))"

definition wanted_symbol :: "SymsFilter \<Rightarrow> string \<Rightarrow> bool" where
  "wanted_symbol f nm = (sf_symbol_filter f = [] \<or> nm \<in> set (sf_symbol_filter f))"

text \<open>The other members stay, and so do the strings the pointers mean.\<close>

definition same_filter :: "SymsFilter \<Rightarrow> SymsFilter \<Rightarrow> bool" where
  "same_filter f f' =
     (sf_id f' = sf_id f \<and> sf_component f' = sf_component f \<and> sf_symbol_filter f' = sf_symbol_filter f \<and>
      (\<forall>p s. deref (sf_i f) p = Some s \<longrightarrow> deref (sf_i f') p = Some s))"

lemma same_filter_trans: "same_filter f g \<Longrightarrow> same_filter g h \<Longrightarrow> same_filter f h"
  by (simp add: same_filter_def)

lemma AddToSymTable_adds:
  assumes "filter_ok f" and "AddToSymTable address nm off f = (ok, f')"
  shows "filter_ok f' \<and> same_filter f f' \<and>
    symbol_at f' = (if wanted_symbol f nm \<and> symbol_at f (off + address) = None
                    then (symbol_at f)(off + address \<mapsto> nm) else symbol_at f)"
proof (cases "wanted_symbol f nm")
  case False
  then show ?thesis using assms by (auto simp: AddToSymTable_def wanted_symbol_def same_filter_def)
next
  case True
  let ?k = "off + address"
  obtain p i1 where p: "Internalize nm (sf_i f) = (p, i1)" by (cases "Internalize nm (sf_i f)")
  obtain r t where t: "table_insert ?k p (sf_symbol_table f) = (r, t)"
    by (cases "table_insert ?k p (sf_symbol_table f)")
  have f': "f' = f\<lparr>sf_symbol_table := t, sf_i := i1\<rparr>"
    using assms(2) True p t by (auto simp: AddToSymTable_def wanted_symbol_def)
  have keep: "deref (sf_i f) q = Some s \<Longrightarrow> deref i1 q = Some s" for q s
    using deref_stable[of "sf_i f" q s nm] p by simp
  have new: "deref i1 p = Some nm" using deref_Internalize[of nm "sf_i f"] p by simp
  have inv: "internalizer_inv i1" using Internalize_inv[of "sf_i f" nm] assms(1) p by (simp add: filter_ok_def)
  note ins = table_insert_cases[of "sf_symbol_table f" ?k p, unfolded t, simplified]
  have ok: "table_ok (sf_symbol_table f)" using assms(1) by (simp add: filter_ok_def)
  have known: "\<exists>s. deref (sf_i f) q = Some s" if "map_of (sf_symbol_table f) a = Some q" for a q
    using assms(1) map_of_SomeD[OF that] by (auto simp: filter_ok_def)
  have old: "Option.bind (map_of (sf_symbol_table f) a) (deref i1) = symbol_at f a" for a
    using known[of a] keep by (cases "map_of (sf_symbol_table f) a") (auto simp: symbol_at_def Filter_def)
  have present: "map_of (sf_symbol_table f) a = None \<longleftrightarrow> symbol_at f a = None" for a
    using known[of a] by (cases "map_of (sf_symbol_table f) a") (auto simp: symbol_at_def Filter_def)
  have at_f': "symbol_at f' a = Option.bind (map_of t a) (deref i1)" for a
    by (simp add: f' symbol_at_def Filter_def)
  have at: "symbol_at f' = (if symbol_at f ?k = None then (symbol_at f)(?k \<mapsto> nm) else symbol_at f)"
    using ins(2)[OF ok] present[of ?k] new old at_f' by (auto simp: fun_eq_iff split: option.splits)
  have "deref i1 q \<noteq> None" if "(a, q) \<in> set t" for a q
  proof -
    have "map_of t a = Some q"
      using that ins(1)[OF ok] by (intro map_of_is_SomeI) (auto simp: table_ok_def strict_sorted_iff)
    then show ?thesis using ins(2)[OF ok] new known[of a] keep by (auto split: option.splits if_splits)
  qed
  then have "filter_ok f'" using ins(1)[OF ok] inv by (auto simp: f' filter_ok_def)
  moreover have "same_filter f f'" using keep by (simp add: same_filter_def f')
  ultimately show ?thesis using at True by simp
qed

section \<open>The entries of a dump\<close>

text \<open>
  The symbol a line of a dump gives, from the text of the line alone: columns are separated by
  blanks; a number is the longest run of letters and digits, read in base 16; a name is the
  longest run of letters, digits, dots and underscores.
\<close>

definition trimmed :: "string \<Rightarrow> string" where
  "trimmed s = dropWhile is_space s"

definition hex_number :: "string \<Rightarrow> (u64 \<times> string) option" where
  "hex_number s =
     (let ds = takeWhile is_alnum s in
      if ds = [] \<or> strtoul 16 ds = u64_max then None else Some (strtoul 16 ds, dropWhile is_alnum s))"

definition symbol_name :: "string \<Rightarrow> (string \<times> string) option" where
  "symbol_name s =
     (let t = trimmed s; nm = takeWhile is_alnum_dot_bar t in
      if nm = [] then None else Some (nm, dropWhile is_alnum_dot_bar t))"

definition skip_word :: "string \<Rightarrow> string" where
  "skip_word s = dropWhile (\<lambda>c. \<not> is_space c) (trimmed s)"

text \<open>A last column is not skipped.\<close>

definition skip_column :: "string \<Rightarrow> string" where
  "skip_column s = (if list_ex is_space (trimmed s) then skip_word s else trimmed s)"

text \<open>
  A label of \<open>objdump -S\<close> is \<open>address <name>:\<close>; a symbol of \<open>objdump --syms\<close> has seven
  characters of flags, the section and the alignment before its name; one of \<open>readelf\<close> has
  a number, the address, and size, type, binding, visibility and section index before its
  name, and is no file and no object.
\<close>

fun symbol_of_line :: "FilterType \<Rightarrow> string \<Rightarrow> (u64 \<times> string) option" where
  "symbol_of_line kS l =
     (case hex_number (trimmed l) of
        None \<Rightarrow> None
      | Some (a, t) \<Rightarrow>
          if \<not> prefix '' <'' t then None
          else
            case symbol_name (drop 2 t) of
              None \<Rightarrow> None
            | Some (nm, u) \<Rightarrow> if prefix ''>:'' u then Some (a, nm) else None)"
| "symbol_of_line kSyms l =
     (case hex_number (trimmed l) of
        None \<Rightarrow> None
      | Some (a, t) \<Rightarrow>
          if length (trimmed t) < 8 then None
          else map_option (\<lambda>(nm, _). (a, nm)) (symbol_name (skip_word (skip_word (drop 7 (trimmed t))))))"
| "symbol_of_line kElf l =
     (if \<not> list_ex is_space (trimmed l) then None
      else
        case hex_number (trimmed (skip_column l)) of
          None \<Rightarrow> None
        | Some (a, t) \<Rightarrow>
            let ty = trimmed (skip_column t) in
            if prefix ''FILE'' ty \<or> prefix ''OBJECT'' ty then None
            else
              map_option (\<lambda>(nm, _). (a, nm))
                (symbol_name (skip_column (skip_column (skip_column (skip_column ty))))))"

definition dump_entry :: "FilterType \<Rightarrow> (u64 \<times> string) line_parser" where
  "dump_entry ty = (case ty of kSyms \<Rightarrow> syms_entry | kS \<Rightarrow> s_entry | kElf \<Rightarrow> elf_entry)"

definition dump_lines :: "FilterType \<Rightarrow> string list \<Rightarrow> string list" where
  "dump_lines ty file = drop (if ty = kElf then 3 else 0) (text_lines (concat file))"

definition dump_symbols :: "FilterType \<Rightarrow> string list \<Rightarrow> u64 \<Rightarrow> (u64 \<times> string) list" where
  "dump_symbols ty file off =
     map (\<lambda>(a, nm). (off + a, nm)) (List.map_filter (symbol_of_line ty) (dump_lines ty file))"

text \<open>The parsers, on a line.\<close>

lemma trimmed_again [simp]: "trimmed (trimmed s) = trimmed s"
  by (simp add: trimmed_def dropWhile_idem)

text \<open>On a line with the text \<open>s\<close> the parser ends with the result \<open>r\<close>.\<close>

definition reads_as :: "'a line_parser \<Rightarrow> string \<Rightarrow> 'a option \<Rightarrow> bool" where
  "reads_as p s r = (\<forall>pre post. \<exists>h'. p (line pre s post) = Inr (r, h'))"

lemma reads_end:
  "reads_as (lh_return x) s (Some x)" "reads_as lh_fail s None"
  by (simp_all add: reads_as_def lh_return_def lh_fail_def)

lemma reads_trim: "reads_as f (trimmed s) r \<Longrightarrow> reads_as (lh_step TrimL f) s r"
  by (simp add: reads_as_def lh_step_def TrimL_line trimmed_def)

lemma reads_address:
  assumes "case hex_number (trimmed s) of None \<Rightarrow> r = None | Some (a, t) \<Rightarrow> reads_as (f a) t r"
  shows "reads_as (lh_bind Syms_ParseAddress f) s r"
proof -
  have "num_pred 16 = is_alnum" by (simp add: num_pred_def)
  then show ?thesis
    using assms
    by (auto simp: reads_as_def lh_bind_def Syms_ParseAddress_def lh_step_def TrimL_line trimmed_def
        ParseUintTrim_line hex_number_def Let_def split: if_splits)
qed

lemma reads_name:
  assumes "case symbol_name s of None \<Rightarrow> r = None | Some (nm, t) \<Rightarrow> reads_as (f nm) t r"
  shows "reads_as (lh_bind ParseName f) s r"
  using assms
  by (auto simp: reads_as_def lh_bind_def ParseName_def lh_step_def TrimL_line trimmed_def
      ExtractAndSubstrUntilInto_line symbol_name_def Let_def split: if_splits)

lemma reads_word:
  assumes "reads_as f (skip_word s) r"
  shows "reads_as (lh_check SkipSymsSection f) s r" and "reads_as (lh_check SkipSymsAlignment f) s r"
  using assms
  by (simp_all add: reads_as_def lh_check_def lh_if_def SkipSymsSection_def SkipSymsAlignment_def TrimL_line
      TrimTillWhitespace_line skip_word_def trimmed_def)

lemma reads_flags:
  assumes "if length (trimmed s) < 8 then r = None else reads_as f (drop 7 (trimmed s)) r"
  shows "reads_as (lh_check SkipSymsFags f) s r"
proof -
  have len: "CurLength (line p t post) = length t" for p t post by (simp add: CurLength_def line_def)
  have "MoveForward 7 (line p t post) = (True, line (p @ take 7 t) (drop 7 t) post)" if "\<not> length t < 8" for p t post
    using that advance_line[of "take 7 t" p "drop 7 t" post] by (auto simp: MoveForward_def len IsEmpty_def)
  then show ?thesis
    using assms
    by (auto simp: reads_as_def lh_check_def lh_if_def lh_fail_def SkipSymsFags_def TrimL_line
        trimmed_def[symmetric] len split: if_splits)
qed

lemma reads_column:
  "reads_as f (skip_column s) r \<Longrightarrow> reads_as (lh_step TrimL (lh_skip SkipTillWhitespace f)) s r"
  by (simp add: reads_as_def lh_step_def TrimL_line lh_skip_def lh_if_def SkipTillWhitespace_def SkipTill_line
      skip_column_def skip_word_def trimmed_def dropWhile_idem split: if_splits)

lemma reads_first_column:
  assumes "if list_ex is_space (trimmed s) then reads_as f (skip_column s) r else r = None"
  shows "reads_as (lh_step TrimL (lh_check SkipTillWhitespace f)) s r"
  using assms
  by (simp add: reads_as_def lh_step_def TrimL_line lh_check_def lh_if_def lh_fail_def SkipTillWhitespace_def
      SkipTill_line skip_column_def skip_word_def trimmed_def dropWhile_idem split: if_splits)

lemma reads_string:
  assumes "p \<noteq> []" and "if prefix p s then reads_as f (drop (length p) s) r else reads_as g s r"
  shows "reads_as (lh_if (ConsumeAndTrimString p) f g) s r"
  using assms by (auto simp: reads_as_def lh_if_def ConsumeAndTrimString_line split: if_splits)

lemma reads_char:
  assumes "if prefix [c] s then reads_as f (drop 1 s) r else r = None"
  shows "reads_as (lh_check (ConsumeAndTrimChar c) f) s r"
  using assms
  by (cases s) (auto simp: reads_as_def lh_check_def lh_if_def lh_fail_def ConsumeAndTrimChar_line split: if_splits)

lemma reads_named: "reads_as (lh_bind ParseName (\<lambda>nm. lh_return (a, nm))) s (map_option (\<lambda>(nm, _). (a, nm)) (symbol_name s))"
  by (rule reads_name) (simp add: reads_end split: option.splits)

lemma s_entry_reads: "reads_as s_entry l (symbol_of_line kS l)"
proof (cases "hex_number (trimmed l)")
  case None
  then show ?thesis by (simp add: s_entry_def reads_trim reads_address)
next
  case (Some at)
  obtain a t where at: "at = (a, t)" by (cases at)
  have label: "reads_as (lh_check (ConsumeAndTrimChar CHR ''>'') (lh_check (ConsumeAndTrimChar CHR '':'')
      (lh_return (a, nm)))) u r" if "r = (if prefix ''>:'' u then Some (a, nm) else None)" for nm u r
    unfolding that by (intro reads_char) (cases u; cases "tl u"; auto simp: reads_end intro!: reads_char)
  have "reads_as (lh_check (ConsumeAndTrimString '' <'') (lh_bind ParseName (\<lambda>nm.
      lh_check (ConsumeAndTrimChar CHR ''>'') (lh_check (ConsumeAndTrimChar CHR '':'') (lh_return (a, nm))))))
      t (symbol_of_line kS l)"
    unfolding lh_check_def[of "ConsumeAndTrimString p" for p]
    by (intro reads_string) (auto simp: Some at reads_end numeral_2_eq_2 intro!: reads_name label split: option.splits)
  then show ?thesis
    unfolding s_entry_def by (intro reads_trim reads_address) (simp add: Some at)
qed

lemma syms_entry_reads: "reads_as syms_entry l (symbol_of_line kSyms l)"
proof (cases "hex_number (trimmed l)")
  case None
  then show ?thesis by (simp add: syms_entry_def reads_trim reads_address)
next
  case (Some at)
  obtain a t where at: "at = (a, t)" by (cases at)
  have "reads_as (lh_check SkipSymsFags (lh_check SkipSymsSection (lh_check SkipSymsAlignment
      (lh_bind ParseName (\<lambda>nm. lh_return (a, nm)))))) t (symbol_of_line kSyms l)"
    by (rule reads_flags) (simp add: Some at reads_word reads_named)
  then show ?thesis
    unfolding syms_entry_def by (intro reads_trim reads_address) (simp add: Some at)
qed

lemma skip_column_trimmed [simp]: "skip_column (trimmed s) = skip_column s"
  by (simp add: skip_column_def skip_word_def)

lemma reads_skip: "reads_as f (skip_column s) r \<Longrightarrow> reads_as (lh_skip SkipTillWhitespace f) (trimmed s) r"
  by (simp add: reads_as_def lh_skip_def lh_if_def SkipTillWhitespace_def SkipTill_line skip_column_def
      skip_word_def split: if_splits)

lemma reads_type_columns:
  assumes "r = map_option (\<lambda>(nm, _). (a, nm)) (symbol_name (skip_column (skip_column (skip_column (skip_column s)))))"
  shows "reads_as (lh_skip SkipTillWhitespace (
       lh_step TrimL (lh_skip SkipTillWhitespace (
       lh_step TrimL (lh_skip SkipTillWhitespace (
       lh_step TrimL (lh_skip SkipTillWhitespace (
       lh_step TrimL (
       lh_bind ParseName (\<lambda>label. lh_return (a, label))))))))))) (trimmed s) r"
proof -
  have trim: "symbol_name (trimmed t) = symbol_name t" for t by (simp add: symbol_name_def)
  show ?thesis
    unfolding assms
    by (intro reads_skip reads_column reads_trim) (rule reads_named[of a "trimmed t" for t, unfolded trim])
qed

lemma elf_entry_reads: "reads_as elf_entry l (symbol_of_line kElf l)"
proof (cases "list_ex is_space (trimmed l)")
  case False
  then show ?thesis unfolding elf_entry_def by (intro reads_first_column) simp
next
  case True
  let ?r = "symbol_of_line kElf l"
  have "reads_as (lh_bind Syms_ParseAddress (\<lambda>address.
       lh_step TrimL (lh_skip SkipTillWhitespace (
       lh_step TrimL (
       lh_if (ConsumeAndTrimString ''FILE'') lh_fail (
       lh_if (ConsumeAndTrimString ''OBJECT'') lh_fail (
       lh_skip SkipTillWhitespace (
       lh_step TrimL (lh_skip SkipTillWhitespace (
       lh_step TrimL (lh_skip SkipTillWhitespace (
       lh_step TrimL (lh_skip SkipTillWhitespace (
       lh_step TrimL (
       lh_bind ParseName (\<lambda>label. lh_return (address, label))))))))))))))))) (skip_column l) ?r"
  proof (cases "hex_number (trimmed (skip_column l))")
    case None
    then show ?thesis using True by (intro reads_address) simp
  next
    case (Some at)
    obtain a t where at: "at = (a, t)" by (cases at)
    let ?ty = "trimmed (skip_column t)"
    have r: "?r = (if prefix ''FILE'' ?ty \<or> prefix ''OBJECT'' ?ty then None
        else map_option (\<lambda>(nm, _). (a, nm)) (symbol_name (skip_column (skip_column (skip_column (skip_column ?ty))))))"
      using True by (simp add: Some at Let_def)
    show ?thesis
      unfolding r
      by (rule reads_address, simp only: trimmed_again Some at option.case prod.case, rule reads_column, rule reads_trim,
          rule reads_string)
         (auto simp: reads_end intro!: reads_string reads_type_columns)
  qed
  then show ?thesis unfolding elf_entry_def by (intro reads_first_column) (simp add: True)
qed

lemma dump_entry_line: "\<exists>h'. dump_entry ty (line pre l post) = Inr (symbol_of_line ty l, h')"
  using s_entry_reads syms_entry_reads elf_entry_reads
  by (cases ty) (simp_all only: dump_entry_def FilterType.case reads_as_def)

section \<open>Loading a file\<close>

definition add_line :: "FilterType \<Rightarrow> u64 \<Rightarrow> string \<Rightarrow> SymsFilter \<Rightarrow> SymsFilter" where
  "add_line ty off l f =
     (case symbol_of_line ty l of
        None \<Rightarrow> f
      | Some (address, nm) \<Rightarrow> snd (AddToSymTable address nm off f))"

lemma load_entry_line: "load_entry (dump_entry ty) off (line [] l post) f = Inr (add_line ty off l f)"
proof -
  obtain h' where "dump_entry ty (line [] l post) = Inr (symbol_of_line ty l, h')"
    using dump_entry_line by blast
  then show ?thesis by (auto simp: load_entry_def add_line_def split: option.splits)
qed

lemma fold_lines_fold: "fold_lines (\<lambda>l s. Inr (g l s)) ls s = Inr (fold g ls s)"
  by (induction ls arbitrary: s) simp_all

text \<open>Where no line is left, none appears when the buffer is asked again.\<close>

lemma HasStillLine_none:
  assumes "reader_inv n b" and "next_line (pending b) = None" and "HasStillLine n True b = Inr (False, b1)"
  shows "reader_inv n b1 \<and> next_line (pending b1) = None"
proof -
  let ?t = "drop (rb_cur_reading_pos b) (rb_buffer b)"
  have here: "next_line ?t = None"
  proof (rule ccontr)
    assume "next_line ?t \<noteq> None"
    then obtain l r where "next_line ?t = Some (l, r)" by auto
    from next_line_append[OF this, of "concat (rb_input b)"] show False
      using assms(2) by (simp add: pending_def)
  qed
  obtain b' x where b': "NextBlock n True (unblanked b) = Inr b'" "reader_inv n b'"
    "rb_cur_reading_pos b' = 0" "rb_buffer b' = unblank ?t @ x" "concat (rb_input b) = x @ concat (rb_input b')"
    using NextBlock_reads[OF assms(1)] by blast
  have pend: "next_line (rb_buffer b' @ concat (rb_input b')) = None"
    using assms(2) unfolding pending_def b'(4,5) append_assoc next_line_unblank(2) .
  have "HasStillLineEnd b' = (False, b1)"
    using HasStillLine_line[OF assms(1), of True] here b'(1) assms(3) by simp
  then have b1: "b1 = unblanked b'"
    using HasStillLineEnd_line[of b'] b'(2) by (auto simp: reader_inv_def split: option.splits)
  have "pending b1 = unblank (rb_buffer b') @ concat (rb_input b')"
    using unblanked_drop[of b'] b'(3) by (simp add: pending_def b1 unblanked_def)
  then show ?thesis using unblanked_inv[OF b'(2)] pend next_line_unblank(2) by (simp add: b1)
qed

lemma while_line_none:
  assumes "reader_inv n b" and "next_line (pending b) = None"
  shows "while_line (Suc fuel) n body b s = Inr s"
proof -
  have "lines_fit n (pending b)" using assms(2) by (subst lines_fit.simps) simp
  then have "\<exists>b'. NextHandler n True b = Inr (None, b')" using NextHandler_next[OF assms(1)] assms(2) by simp
  then show ?thesis
    using HasStillLine_again[OF assms(1)]
    by (cases "HasStillLine n True b") (auto simp: NextHandler_def split: if_splits)
qed

text \<open>The first \<open>k\<close> lines are dropped, the others visited.\<close>

lemma skip_lines_drops:
  assumes "reader_inv table_block b" and "lines_fit table_block (pending b)" and "length (pending b) < fuel"
    and "\<And>l post s. body (line [] l post) s = Inr (g l s)"
  shows "\<exists>b'. skip_lines k b = Inr b' \<and>
    while_line fuel table_block body b' s = Inr (fold g (drop k (text_lines (pending b))) s)"
  using assms(1-3)
proof (induction k arbitrary: b)
  case 0
  have "each_handler fuel table_block body b s = fold_lines (\<lambda>l s. Inr (g l s)) (text_lines (pending b)) s"
    by (rule each_handler_lines[OF 0]) (rule assms(4))
  then show ?case using while_line_each[OF 0(1,2), of fuel body s] by (simp add: fold_lines_fold)
next
  case (Suc k)
  note next_is = NextHandler_next[OF Suc.prems(1,2)]
  show ?case
  proof (cases "next_line (pending b)")
    case None
    then have lines: "text_lines (pending b) = []" by (subst text_lines.simps) simp
    have "\<exists>b'. NextHandler table_block True b = Inr (None, b')" using next_is None by simp
    then obtain b1 where h: "HasStillLine table_block True b = Inr (False, b1)"
      by (cases "HasStillLine table_block True b") (auto simp: NextHandler_def split: if_splits)
    obtain f where "fuel = Suc f" using Suc.prems(3) by (cases fuel) auto
    then show ?thesis
      using while_line_none[of table_block b1 f body s] HasStillLine_none[OF Suc.prems(1) None h] h lines
      by (simp del: while_line.simps)
  next
    case (Some lr)
    obtain l r where lr: "lr = (l, r)" by (cases lr)
    obtain b' post where b': "NextHandler table_block True b = Inr (Some (line [] l post), b')"
      "reader_inv table_block b'" "pending b' = r" "lines_fit table_block r"
      using next_is Some lr by auto
    obtain b1 where h: "HasStillLine table_block True b = Inr (True, b1)"
      using b'(1) by (cases "HasStillLine table_block True b") (auto simp: NextHandler_def split: if_splits)
    have again: "NextHandler table_block True b1 = NextHandler table_block True b"
      using HasStillLine_again[OF Suc.prems(1) h] h by (simp add: NextHandler_def)
    have lines: "text_lines (pending b) = l # text_lines r" using Some lr by (subst text_lines.simps) simp
    have "length (pending b') < fuel" using next_line_shorter[OF Some[unfolded lr]] Suc.prems(3) b'(3) by simp
    from Suc.IH[OF b'(2) _ this] show ?thesis using b' h again lines by simp
  qed
qed

lemma SymsFilter_Create_folds:
  assumes "[] \<notin> set file" and "lines_fit table_block (concat file)"
  shows "SymsFilter_Create ident component file off ty symbol_filter i =
    Inr (fold (add_line ty off) (dump_lines ty file)
      \<lparr>sf_id = ident, sf_component = component, sf_symbol_filter = symbol_filter, sf_symbol_table = [], sf_i = i\<rparr>)"
proof -
  let ?f = "\<lparr>sf_id = ident, sf_component = component, sf_symbol_filter = symbol_filter, sf_symbol_table = [], sf_i = i\<rparr>"
  let ?body = "load_entry (dump_entry ty) off"
  have inv: "reader_inv table_block (OpenFile file)" "pending (OpenFile file) = concat file"
    using OpenFile_inv[OF assms(1)] by auto
  have k: "\<exists>b'. skip_lines k (OpenFile file) = Inr b' \<and>
      while_line (load_fuel file) table_block ?body b' ?f =
        Inr (fold (add_line ty off) (drop k (text_lines (concat file))) ?f)" for k
    using skip_lines_drops[of "OpenFile file" "load_fuel file" ?body "add_line ty off" k ?f] inv assms(2)
      load_entry_line by (simp add: load_fuel_def)
  show ?thesis
  proof (cases "ty = kElf")
    case True
    then show ?thesis using k[of 3] by (auto simp: SymsFilter_Create_def LoadElf_def dump_lines_def dump_entry_def)
  next
    case False
    then show ?thesis
      using k[of 0]
      by (cases ty) (auto simp: SymsFilter_Create_def LoadS_def LoadSyms_def dump_lines_def dump_entry_def)
  qed
qed

section \<open>What the table holds\<close>

definition wanted_entries :: "SymsFilter \<Rightarrow> FilterType \<Rightarrow> u64 \<Rightarrow> string list \<Rightarrow> (u64 \<times> string) list" where
  "wanted_entries f ty off ls =
     filter (\<lambda>(_, nm). wanted_symbol f nm)
       (map (\<lambda>(a, nm). (off + a, nm)) (List.map_filter (symbol_of_line ty) ls))"

lemma add_lines:
  assumes "filter_ok f"
  shows "filter_ok (fold (add_line ty off) ls f) \<and> same_filter f (fold (add_line ty off) ls f) \<and>
    symbol_at (fold (add_line ty off) ls f) = map_of (wanted_entries f ty off ls) ++ symbol_at f"
  using assms
proof (induction ls arbitrary: f)
  case Nil
  then show ?case by (simp add: same_filter_def wanted_entries_def List.map_filter_simps)
next
  case (Cons l ls)
  let ?g = "add_line ty off l f"
  have g: "filter_ok ?g \<and> same_filter f ?g \<and>
      symbol_at ?g = map_of (wanted_entries f ty off [l]) ++ symbol_at f"
  proof (cases "symbol_of_line ty l")
    case None
    then show ?thesis
      using Cons.prems by (simp add: add_line_def same_filter_def wanted_entries_def List.map_filter_simps)
  next
    case (Some e)
    obtain a nm where e: "e = (a, nm)" by (cases e)
    obtain ok f' where f': "AddToSymTable a nm off f = (ok, f')" by (cases "AddToSymTable a nm off f")
    then show ?thesis
      using AddToSymTable_adds[OF Cons.prems f'] Some e
      by (auto simp: add_line_def wanted_entries_def List.map_filter_simps fun_eq_iff map_add_def
          split: option.splits)
  qed
  have same: "wanted_entries ?g ty off ls = wanted_entries f ty off ls"
    using g by (simp add: wanted_entries_def wanted_symbol_def same_filter_def)
  have split: "wanted_entries f ty off (l # ls) = wanted_entries f ty off [l] @ wanted_entries f ty off ls"
    by (simp add: wanted_entries_def List.map_filter_def)
  show ?case
    using Cons.IH[of ?g] g same_filter_trans[of f ?g] by (simp add: same split)
qed

text \<open>The symbols of the set of wanted names; an empty set stands for all of them.\<close>

definition only_wanted :: "string list \<Rightarrow> (u64 \<times> string) list \<Rightarrow> (u64 \<times> string) list" where
  "only_wanted syms es = filter (\<lambda>(_, nm). syms = [] \<or> nm \<in> set syms) es"

lemma SymsFilter_Create_symbols:
  assumes "[] \<notin> set file" and "lines_fit table_block (concat file)" and "internalizer_inv i"
  shows "\<exists>f. SymsFilter_Create ident component file off ty syms i = Inr f \<and>
    symbol_at f = map_of (only_wanted syms (dump_symbols ty file off)) \<and> sf_component f = component \<and>
    filter_ok f \<and> (\<forall>p s. deref i p = Some s \<longrightarrow> deref (sf_i f) p = Some s)"
proof -
  let ?f = "\<lparr>sf_id = ident, sf_component = component, sf_symbol_filter = syms, sf_symbol_table = [], sf_i = i\<rparr>"
  have ok: "filter_ok ?f" using assms(3) by (simp add: filter_ok_def table_ok_def)
  have "symbol_at ?f = Map.empty" by (simp add: symbol_at_def Filter_def fun_eq_iff)
  moreover have "wanted_entries ?f ty off (dump_lines ty file) = only_wanted syms (dump_symbols ty file off)"
    by (simp add: wanted_entries_def wanted_symbol_def dump_symbols_def only_wanted_def)
  ultimately show ?thesis
    using add_lines[OF ok, of ty off "dump_lines ty file"] SymsFilter_Create_folds[OF assms(1,2)]
    by (simp add: same_filter_def)
qed

lemma only_wanted_all [simp]: "only_wanted [] es = es"
  by (simp add: only_wanted_def)

text \<open>
  C14. Loading a symbol table is total and correct for the three dump formats: the table is
  the finite map of the symbols that the text of the file's lines gives (behind the first
  three lines for ELF), restricted to the wanted names if there are any, each address moved by
  the offset, in which the first line that gives an address wins; the internalizer keeps the
  meaning of every pointer it gave out before.
\<close>

theorem SymsFilter_Create_map:
  assumes "[] \<notin> set file" and "lines_fit table_block (concat file)" and "internalizer_inv i"
  shows "\<exists>f. SymsFilter_Create ident component file off ty syms i = Inr f \<and>
    symbol_at f = map_of (only_wanted syms (dump_symbols ty file off)) \<and> sf_component f = component \<and>
    filter_ok f \<and> (\<forall>p s. deref i p = Some s \<longrightarrow> deref (sf_i f) p = Some s)"
  by (rule SymsFilter_Create_symbols[OF assms])

text \<open>Two labels at one address, read in two chunks.\<close>

definition sample_dump :: "string list" where
  "sample_dump = [''10 <foo>:'', [kLineEnd], ''10 <bar>:'' @ [kLineEnd]]"

lemma sample_dump_lines:
  "[] \<notin> set sample_dump" "lines_fit table_block (concat sample_dump)"
  "dump_lines kS sample_dump = [''10 <foo>:'', ''10 <bar>:'']"
  by (simp_all add: dump_lines_def sample_dump_def text_lines.simps lines_fit.simps next_line_def
      unblank_def blanks_def is_nl_def table_block_def)

lemma sample_entries:
  "symbol_of_line kS ''10 <foo>:'' = Some (16, ''foo'')"
  "symbol_of_line kS ''10 <bar>:'' = Some (16, ''bar'')"
proof -
  have "strtoul 16 ''10'' = 16"
    by (simp add: strtoul_def strto_parts_def value_of_def is_digit_of_def digit_val_def
        isdigit_def isspace_def code_def)
  then show "symbol_of_line kS ''10 <foo>:'' = Some (16, ''foo'')"
      "symbol_of_line kS ''10 <bar>:'' = Some (16, ''bar'')"
    by (simp_all add: hex_number_def symbol_name_def trimmed_def is_space_def is_alnum_def is_alnum_dot_bar_def
        isalnum_def isspace_def isdigit_def isalpha_def code_def)
qed

lemma sample_symbols: "dump_symbols kS sample_dump 5 = [(21, ''foo''), (21, ''bar'')]"
  by (simp add: dump_symbols_def sample_dump_lines sample_entries List.map_filter_simps del: symbol_of_line.simps)

text \<open>If only \<open>bar\<close> is wanted, the line of \<open>foo\<close> does not take its address.\<close>

theorem SymsFilter_Create_map_witness:
  "(\<exists>f. SymsFilter_Create 1 ''linux'' sample_dump 5 kS [] StringInternalizer_empty = Inr f \<and>
     symbol_at f 21 = Some ''foo'' \<and> symbol_at f 22 = None) \<and>
   (\<exists>f. SymsFilter_Create 1 ''linux'' sample_dump 5 kS [''bar''] StringInternalizer_empty = Inr f \<and>
     symbol_at f 21 = Some ''bar'')"
proof -
  have "internalizer_inv StringInternalizer_empty"
    by (simp add: internalizer_inv_def StringInternalizer_empty_def)
  note create = SymsFilter_Create_map[OF sample_dump_lines(1,2) this, of 1 "''linux''" 5 kS]
  show ?thesis
    using create[of "[]"] create[of "[''bar'']"] by (auto simp: sample_symbols only_wanted_def)
qed

end
