(* ===== verification/EnvSetup.thy ===== *)
theory EnvSetup
  imports Config SymtableSpec Gem5
begin

text \<open>
  The constructor of the trace environment (source/env/traceEnvironment.cc) from a
  configuration, with the pointers into the internalizer as the class keeps them, and the
  refinement that justifies reading its sets of pointers as the sets of strings of \<open>TraceEnv\<close>.
\<close>

section \<open>The class\<close>

record EnvState =
  te_internalizer :: StringInternalizer
  te_linux_net_func_indicator :: "strptr list"
  te_driver_func_indicator :: "strptr list"
  te_kernel_tx_indicator :: "strptr list"
  te_kernel_rx_indicator :: "strptr list"
  te_pci_write_indicators :: "strptr list"
  te_driver_tx_indicator :: "strptr list"
  te_driver_rx_indicator :: "strptr list"
  te_sys_entry :: "strptr list"
  te_blacklist_func_indicator :: "strptr list"
  te_types_to_filter :: "EventType set"
  te_symbol_tables :: "SymsFilter list"
  te_next_table_id :: u64

text \<open>
  The files are given by what \<open>read\<close> returns for a path, \<open>None\<close> for a path that does not
  exist, at which \<open>OpenFile\<close> terminates. \<open>next_id\<close> is a static counter that is incremented
  before it is used.
\<close>

type_synonym file_system = "string \<Rightarrow> string list option"

definition AddSymbolTableInternal ::
  "file_system \<Rightarrow> string \<Rightarrow> string \<Rightarrow> u64 \<Rightarrow> FilterType \<Rightarrow> string list \<Rightarrow> EnvState \<Rightarrow> (bool \<times> EnvState) res"
where
  "AddSymbolTableInternal files identifier file_path address_offset ty symbol_filter env =
     (let next_id = te_next_table_id env + 1; env1 = env\<lparr>te_next_table_id := next_id\<rparr> in
      rbind (throw_if_empty (files file_path) ''the file path does not exist'') (\<lambda>file.
      rbind (SymsFilter_Create next_id identifier file address_offset ty symbol_filter
               (te_internalizer env1)) (\<lambda>filter_ptr.
        Inr (True, env1\<lparr>te_symbol_tables := te_symbol_tables env1 @ [filter_ptr],
                        te_internalizer := sf_i filter_ptr\<rparr>))))"

text \<open>The overload with a set of wanted symbols.\<close>

definition AddSymbolTable_wanted ::
  "file_system \<Rightarrow> string \<Rightarrow> string \<Rightarrow> u64 \<Rightarrow> FilterType \<Rightarrow> string list \<Rightarrow> EnvState \<Rightarrow> (bool \<times> EnvState) res"
where
  "AddSymbolTable_wanted files identifier file_path address_offset ty symbol_filter env =
     AddSymbolTableInternal files identifier file_path address_offset ty symbol_filter env"

definition AddSymbolTable ::
  "file_system \<Rightarrow> string \<Rightarrow> string \<Rightarrow> u64 \<Rightarrow> FilterType \<Rightarrow> EnvState \<Rightarrow> (bool \<times> EnvState) res"
where
  "AddSymbolTable files identifier file_path address_offset ty env =
     AddSymbolTable_wanted files identifier file_path address_offset ty [] env"

definition InternalizeAdditional :: "string \<Rightarrow> EnvState \<Rightarrow> strptr \<times> EnvState" where
  "InternalizeAdditional symbol env =
     (case Internalize symbol (te_internalizer env) of (p, i) \<Rightarrow> (p, env\<lparr>te_internalizer := i\<rparr>))"

fun add_symbol_tables :: "file_system \<Rightarrow> SymTableConf list \<Rightarrow> EnvState \<Rightarrow> EnvState res" where
  "add_symbol_tables files [] env = Inr env"
| "add_symbol_tables files (c # cs) env =
     rbind (AddSymbolTableInternal files (stc_identifier c) (stc_path c) (stc_address_offset c)
              (stc_filter_type c) [] env) (\<lambda>(_, env1). add_symbol_tables files cs env1)"

definition TraceEnvironment_new :: "file_system \<Rightarrow> 'l TraceEnvConfig \<Rightarrow> EnvState res" where
  "TraceEnvironment_new files c =
     rbind (InternalizeStrings (cfg_linux_net_func_indicator c) StringInternalizer_empty []) (\<lambda>(linux, i).
     rbind (InternalizeStrings (cfg_driver_func_indicator c) i []) (\<lambda>(driver, i).
     rbind (InternalizeStrings (cfg_kernel_tx_indicator c) i []) (\<lambda>(ktx, i).
     rbind (InternalizeStrings (cfg_kernel_rx_indicator c) i []) (\<lambda>(krx, i).
     rbind (InternalizeStrings (cfg_pci_write_indicators c) i []) (\<lambda>(pci, i).
     rbind (InternalizeStrings (cfg_driver_tx_indicator c) i []) (\<lambda>(dtx, i).
     rbind (InternalizeStrings (cfg_driver_rx_indicator c) i []) (\<lambda>(drx, i).
     rbind (InternalizeStrings (cfg_sys_entry c) i []) (\<lambda>(sys, i).
     rbind (InternalizeStrings (cfg_blacklist_func_indicator c) i []) (\<lambda>(bl, i).
       add_symbol_tables files (cfg_symbol_tables c)
         \<lparr>te_internalizer = i, te_linux_net_func_indicator = linux, te_driver_func_indicator = driver,
          te_kernel_tx_indicator = ktx, te_kernel_rx_indicator = krx, te_pci_write_indicators = pci,
          te_driver_tx_indicator = dtx, te_driver_rx_indicator = drx, te_sys_entry = sys,
          te_blacklist_func_indicator = bl, te_types_to_filter = cfg_types_to_filter c,
          te_symbol_tables = [], te_next_table_id = 0\<rparr>)))))))))"

section \<open>What the pointers mean\<close>

definition names :: "StringInternalizer \<Rightarrow> strptr list \<Rightarrow> string set" where
  "names i ps = {s. \<exists>p \<in> set ps. deref i p = Some s}"

text \<open>\<open>j\<close> is a later state of the internalizer \<open>i\<close>.\<close>

definition later :: "StringInternalizer \<Rightarrow> StringInternalizer \<Rightarrow> bool" where
  "later i j = (internalizer_inv j \<and> (\<forall>p s. deref i p = Some s \<longrightarrow> deref j p = Some s))"

definition pointers :: "StringInternalizer \<Rightarrow> strptr list \<Rightarrow> bool" where
  "pointers i ps = (\<forall>p \<in> set ps. deref i p \<noteq> None)"

lemma later_trans: "later i j \<Longrightarrow> later j k \<Longrightarrow> later i k"
  by (simp add: later_def)

lemma later_Internalize: "internalizer_inv i \<Longrightarrow> later i (snd (Internalize s i))"
  by (simp add: later_def Internalize_inv deref_stable)

lemma pointers_later: "pointers i ps \<Longrightarrow> later i j \<Longrightarrow> pointers j ps \<and> names j ps = names i ps"
  by (fastforce simp: pointers_def later_def names_def)

text \<open>\<open>contains\<close> on the pointers is membership of the string.\<close>

lemma contains_name:
  assumes "pointers i ps" and "later i j" and "deref j p = Some s"
  shows "p \<in> set ps \<longleftrightarrow> s \<in> names i ps"
proof
  assume "p \<in> set ps"
  then show "s \<in> names i ps" using assms by (fastforce simp: pointers_def later_def names_def)
next
  assume "s \<in> names i ps"
  then obtain q where q: "q \<in> set ps" "deref i q = Some s" by (auto simp: names_def)
  then have "deref j q = Some s" using assms(2) by (simp add: later_def)
  then have "p = q" using deref_inj[of j p s q s] assms(2,3) by (simp add: later_def)
  then show "p \<in> set ps" using q(1) by simp
qed

lemma InternalizeStrings_names:
  assumes "distinct ss" and "internalizer_inv i" and "pointers i into" and "set ss \<inter> names i into = {}"
  shows "\<exists>ps j. InternalizeStrings ss i into = Inr (ps, j) \<and> later i j \<and> pointers j ps \<and>
    names j ps = set ss \<union> names i into"
  using assms
proof (induction ss arbitrary: i into)
  case Nil
  then show ?case by (simp add: later_def)
next
  case (Cons s ss)
  obtain p j where p: "Internalize s i = (p, j)" by (cases "Internalize s i")
  have l: "later i j" using later_Internalize[OF Cons.prems(2), of s] p by simp
  have s: "deref j p = Some s" using deref_Internalize[of s i] p by simp
  have fresh: "p \<notin> set into" using contains_name[OF Cons.prems(3) l s] Cons.prems(4) by simp
  have into: "pointers j (into @ [p])" "names j (into @ [p]) = insert s (names i into)"
    using pointers_later[OF Cons.prems(3) l] s by (auto simp: pointers_def names_def)
  have "internalizer_inv j" using l by (simp add: later_def)
  then obtain ps k where k: "InternalizeStrings ss j (into @ [p]) = Inr (ps, k)" "later j k" "pointers k ps"
      "names k ps = set ss \<union> names j (into @ [p])"
    using Cons.IH[of j "into @ [p]"] Cons.prems(1,4) into by auto
  then show ?case using p fresh later_trans[OF l k(2)] into by auto
qed

section \<open>Symbol tables\<close>

definition tables_ok :: "EnvState \<Rightarrow> bool" where
  "tables_ok env = (internalizer_inv (te_internalizer env) \<and> symbols_ok (te_symbol_tables env, te_internalizer env))"

definition dump_ok :: "file_system \<Rightarrow> SymTableConf \<Rightarrow> bool" where
  "dump_ok files c =
     (case files (stc_path c) of
        None \<Rightarrow> False | Some file \<Rightarrow> [] \<notin> set file \<and> lines_fit table_block (concat file))"

text \<open>The name and component of an address: the first table that has it.\<close>

fun first_symbol :: "file_system \<Rightarrow> SymTableConf list \<Rightarrow> u64 \<Rightarrow> (string \<times> string) option" where
  "first_symbol files [] a = None"
| "first_symbol files (c # cs) a =
     (case map_of (dump_symbols (stc_filter_type c) (the (files (stc_path c))) (stc_address_offset c)) a of
        Some s \<Rightarrow> Some (s, stc_identifier c)
      | None \<Rightarrow> first_symbol files cs a)"

definition symbol_of :: "EnvState \<Rightarrow> u64 \<Rightarrow> (string \<times> string) option" where
  "symbol_of env a =
     (case SymtableFilter a (te_symbol_tables env) of
        (Some p, Some component) \<Rightarrow> map_option (\<lambda>s. (s, component)) (deref (te_internalizer env) p)
      | _ \<Rightarrow> None)"

lemma SymtableFilter_append:
  "SymtableFilter a (ts @ us) = (if fst (SymtableFilter a ts) = None then SymtableFilter a us else SymtableFilter a ts)"
  by (induction ts) (auto split: option.splits)

lemma SymtableFilter_both: "SymtableFilter a ts = (p, c) \<Longrightarrow> (p = None) = (c = None)"
  by (induction ts) (auto split: option.splits)

lemma symbol_of_None:
  assumes "tables_ok env"
  shows "symbol_of env a = None \<longleftrightarrow> fst (SymtableFilter a (te_symbol_tables env)) = None"
proof -
  obtain p c where pc: "SymtableFilter a (te_symbol_tables env) = (p, c)" by force
  show ?thesis
    using SymtableFilter_both[OF pc] assms pc SymtableFilter_ok[of "te_symbol_tables env" "te_internalizer env" a]
    by (auto simp: symbol_of_def tables_ok_def split: option.splits)
qed

definition env_lists :: "EnvState \<Rightarrow> strptr list list" where
  "env_lists env =
     [te_linux_net_func_indicator env, te_driver_func_indicator env, te_kernel_tx_indicator env,
      te_kernel_rx_indicator env, te_pci_write_indicators env, te_driver_tx_indicator env,
      te_driver_rx_indicator env, te_sys_entry env, te_blacklist_func_indicator env]"

lemma AddSymbolTable_adds:
  assumes "tables_ok env" and "dump_ok files c"
  shows "\<exists>env'. AddSymbolTableInternal files (stc_identifier c) (stc_path c) (stc_address_offset c)
      (stc_filter_type c) [] env = Inr (True, env') \<and> tables_ok env' \<and>
    later (te_internalizer env) (te_internalizer env') \<and> env_lists env' = env_lists env \<and>
    te_types_to_filter env' = te_types_to_filter env \<and>
    (\<forall>a. symbol_of env' a = (case symbol_of env a of Some x \<Rightarrow> Some x | None \<Rightarrow> first_symbol files [c] a))"
proof -
  obtain dump where fl: "files (stc_path c) = Some dump" "[] \<notin> set dump" "lines_fit table_block (concat dump)"
    using assms(2) by (auto simp: dump_ok_def split: option.splits)
  have inv: "internalizer_inv (te_internalizer env)" using assms(1) by (simp add: tables_ok_def)
  obtain f where f: "SymsFilter_Create (te_next_table_id env + 1) (stc_identifier c) dump (stc_address_offset c)
        (stc_filter_type c) [] (te_internalizer env) = Inr f"
      "symbol_at f = map_of (dump_symbols (stc_filter_type c) dump (stc_address_offset c))"
      "sf_component f = stc_identifier c" "filter_ok f"
      "\<forall>p s. deref (te_internalizer env) p = Some s \<longrightarrow> deref (sf_i f) p = Some s"
    using SymsFilter_Create_symbols[OF fl(2,3) inv, where syms = "[]", unfolded only_wanted_all] by blast
  let ?e = "env\<lparr>te_next_table_id := te_next_table_id env + 1,
      te_symbol_tables := te_symbol_tables env @ [f], te_internalizer := sf_i f\<rparr>"
  have run: "AddSymbolTableInternal files (stc_identifier c) (stc_path c) (stc_address_offset c)
      (stc_filter_type c) [] env = Inr (True, ?e)"
    using fl(1) f(1) by (simp add: AddSymbolTableInternal_def Let_def)
  have later: "later (te_internalizer env) (te_internalizer ?e)"
    using f(4,5) by (simp add: later_def filter_ok_def)
  have ok: "tables_ok ?e"
    using assms(1) f(4,5) by (fastforce simp: tables_ok_def symbols_ok_def filter_ok_def)
  have old: "symbol_of ?e a = symbol_of env a" if some: "symbol_of env a \<noteq> None" for a
  proof -
    obtain p k where pk: "SymtableFilter a (te_symbol_tables env) = (Some p, Some k)"
      using some by (auto simp: symbol_of_def split: option.splits prod.splits)
    then obtain s where "deref (te_internalizer env) p = Some s"
      using some by (auto simp: symbol_of_def)
    then show ?thesis using pk f(5) by (simp add: symbol_of_def SymtableFilter_append)
  qed
  have new: "symbol_of ?e a = first_symbol files [c] a" if none: "symbol_of env a = None" for a
  proof -
    have at: "symbol_of ?e a = map_option (\<lambda>s. (s, sf_component f)) (symbol_at f a)"
      using symbol_of_None[OF assms(1), of a] none
      by (simp add: symbol_of_def SymtableFilter_append symbol_at_def split: option.splits)
    show ?thesis unfolding at f(2,3) using fl(1) by (simp split: option.splits)
  qed
  show ?thesis using run later ok old new by (auto simp: env_lists_def split: option.splits)
qed

lemma first_symbol_append:
  "first_symbol files (cs @ ds) a =
     (case first_symbol files cs a of Some x \<Rightarrow> Some x | None \<Rightarrow> first_symbol files ds a)"
  by (induction cs) (auto split: option.splits)

lemma add_symbol_tables_adds:
  assumes "tables_ok env" and "\<forall>c \<in> set cs. dump_ok files c"
  shows "\<exists>env'. add_symbol_tables files cs env = Inr env' \<and> tables_ok env' \<and>
    later (te_internalizer env) (te_internalizer env') \<and> env_lists env' = env_lists env \<and>
    te_types_to_filter env' = te_types_to_filter env \<and>
    (\<forall>a. symbol_of env' a = (case symbol_of env a of Some x \<Rightarrow> Some x | None \<Rightarrow> first_symbol files cs a))"
  using assms
proof (induction cs arbitrary: env)
  case Nil
  then show ?case by (auto simp: later_def tables_ok_def split: option.splits)
next
  case (Cons c cs)
  obtain e1 where e1: "AddSymbolTableInternal files (stc_identifier c) (stc_path c) (stc_address_offset c)
      (stc_filter_type c) [] env = Inr (True, e1)" "tables_ok e1"
    "later (te_internalizer env) (te_internalizer e1)" "env_lists e1 = env_lists env"
    "te_types_to_filter e1 = te_types_to_filter env"
    "\<forall>a. symbol_of e1 a = (case symbol_of env a of Some x \<Rightarrow> Some x | None \<Rightarrow> first_symbol files [c] a)"
    using AddSymbolTable_adds[OF Cons.prems(1), of files c] Cons.prems(2) by auto
  obtain e2 where e2: "add_symbol_tables files cs e1 = Inr e2" "tables_ok e2"
    "later (te_internalizer e1) (te_internalizer e2)" "env_lists e2 = env_lists e1"
    "te_types_to_filter e2 = te_types_to_filter e1"
    "\<forall>a. symbol_of e2 a = (case symbol_of e1 a of Some x \<Rightarrow> Some x | None \<Rightarrow> first_symbol files cs a)"
    using Cons.IH[OF e1(2)] Cons.prems(2) by auto
  have "symbol_of e2 a = (case symbol_of env a of Some x \<Rightarrow> Some x | None \<Rightarrow> first_symbol files ([c] @ cs) a)" for a
    unfolding first_symbol_append using e1(6) e2(6) by (simp split: option.splits)
  moreover have "[c] @ cs = c # cs" by simp
  ultimately have "\<forall>a. symbol_of e2 a =
      (case symbol_of env a of Some x \<Rightarrow> Some x | None \<Rightarrow> first_symbol files (c # cs) a)"
    by metis
  then show ?case using e1(1,4,5) e2(1,2,4,5) later_trans[OF e1(3) e2(3)] by simp
qed

section \<open>The constructor\<close>

fun intern_all :: "string list list \<Rightarrow> StringInternalizer \<Rightarrow> (strptr list list \<times> StringInternalizer) res" where
  "intern_all [] i = Inr ([], i)"
| "intern_all (ss # sss) i =
     rbind (InternalizeStrings ss i []) (\<lambda>(ps, i). rbind (intern_all sss i) (\<lambda>(pss, i). Inr (ps # pss, i)))"

lemma intern_all_names:
  assumes "list_all distinct sss" and "internalizer_inv i"
  shows "\<exists>pss j. intern_all sss i = Inr (pss, j) \<and> later i j \<and>
    list_all2 (\<lambda>ps ss. pointers j ps \<and> names j ps = set ss) pss sss"
  using assms
proof (induction sss arbitrary: i)
  case Nil
  then show ?case by (simp add: later_def)
next
  case (Cons ss sss)
  have "pointers i []" "names i [] = {}" by (simp_all add: pointers_def names_def)
  then obtain ps j where j: "InternalizeStrings ss i [] = Inr (ps, j)" "later i j" "pointers j ps" "names j ps = set ss"
    using InternalizeStrings_names[of ss i "[]"] Cons.prems by auto
  then obtain pss k where k: "intern_all sss j = Inr (pss, k)" "later j k"
      "list_all2 (\<lambda>ps ss. pointers k ps \<and> names k ps = set ss) pss sss"
    using Cons.IH[of j] Cons.prems(1) by (auto simp: later_def)
  then show ?case using j later_trans[OF j(2) k(2)] pointers_later[OF j(3) k(2)] by simp
qed

lemma TraceEnvironment_new_intern:
  assumes "intern_all (indicator_lists c) StringInternalizer_empty = Inr ([l, d, kt, kr, pw, dt, dr, se, bl], i)"
  shows "TraceEnvironment_new files c = add_symbol_tables files (cfg_symbol_tables c)
     \<lparr>te_internalizer = i, te_linux_net_func_indicator = l, te_driver_func_indicator = d,
      te_kernel_tx_indicator = kt, te_kernel_rx_indicator = kr, te_pci_write_indicators = pw,
      te_driver_tx_indicator = dt, te_driver_rx_indicator = dr, te_sys_entry = se,
      te_blacklist_func_indicator = bl, te_types_to_filter = cfg_types_to_filter c,
      te_symbol_tables = [], te_next_table_id = 0\<rparr>"
  using assms by (auto simp: TraceEnvironment_new_def indicator_lists_def rbind_eq_Inr)

text \<open>The environment as \<open>TraceEnv\<close> has it, read from the pointers and from the configuration.\<close>

definition env_view :: "EnvState \<Rightarrow> TraceEnvironment" where
  "env_view env =
     (let at = names (te_internalizer env) in
      \<lparr>linux_net_func_indicator = at (te_linux_net_func_indicator env),
       driver_func_indicator = at (te_driver_func_indicator env),
       kernel_tx_indicator = at (te_kernel_tx_indicator env),
       kernel_rx_indicator = at (te_kernel_rx_indicator env),
       pci_write_indicators = at (te_pci_write_indicators env),
       driver_tx_indicator = at (te_driver_tx_indicator env),
       driver_rx_indicator = at (te_driver_rx_indicator env),
       sys_entry = at (te_sys_entry env),
       blacklist_func_indicator = at (te_blacklist_func_indicator env),
       types_to_filter = te_types_to_filter env\<rparr>)"

definition config_view :: "'l TraceEnvConfig \<Rightarrow> TraceEnvironment" where
  "config_view c =
     \<lparr>linux_net_func_indicator = set (cfg_linux_net_func_indicator c),
      driver_func_indicator = set (cfg_driver_func_indicator c),
      kernel_tx_indicator = set (cfg_kernel_tx_indicator c),
      kernel_rx_indicator = set (cfg_kernel_rx_indicator c),
      pci_write_indicators = set (cfg_pci_write_indicators c),
      driver_tx_indicator = set (cfg_driver_tx_indicator c),
      driver_rx_indicator = set (cfg_driver_rx_indicator c),
      sys_entry = set (cfg_sys_entry c),
      blacklist_func_indicator = set (cfg_blacklist_func_indicator c),
      types_to_filter = cfg_types_to_filter c\<rparr>"

text \<open>Each set contains a pointer, taken at any later time, exactly when it has the string.\<close>

definition contains_agrees :: "StringInternalizer \<Rightarrow> strptr list \<Rightarrow> string list \<Rightarrow> bool" where
  "contains_agrees i ps ss =
     (\<forall>j p s. later i j \<and> deref j p = Some s \<longrightarrow> (p \<in> set ps \<longleftrightarrow> s \<in> set ss))"

lemma TraceEnvironment_new_ok:
  assumes "list_all is_set (indicator_lists c)" and "\<forall>t \<in> set (cfg_symbol_tables c). dump_ok files t"
  shows "\<exists>env. TraceEnvironment_new files c = Inr env \<and> env_view env = config_view c \<and>
    list_all2 (contains_agrees (te_internalizer env)) (env_lists env) (indicator_lists c) \<and>
    symbols_ok (te_symbol_tables env, te_internalizer env) \<and>
    symbol_of env = first_symbol files (cfg_symbol_tables c)"
proof -
  have d: "list_all distinct (indicator_lists c)"
    using assms(1) by (auto simp: list_all_iff is_set_def)
  have new: "internalizer_inv StringInternalizer_empty"
    by (simp add: internalizer_inv_def StringInternalizer_empty_def)
  obtain pss j where pss: "intern_all (indicator_lists c) StringInternalizer_empty = Inr (pss, j)"
      "later StringInternalizer_empty j"
      "list_all2 (\<lambda>ps ss. pointers j ps \<and> names j ps = set ss) pss (indicator_lists c)"
    using intern_all_names[OF d new] by blast
  then obtain l d kt kr pw dt dr se bl where ls: "pss = [l, d, kt, kr, pw, dt, dr, se, bl]"
    by (auto simp: indicator_lists_def list_all2_Cons2)
  let ?e = "\<lparr>te_internalizer = j, te_linux_net_func_indicator = l, te_driver_func_indicator = d,
      te_kernel_tx_indicator = kt, te_kernel_rx_indicator = kr, te_pci_write_indicators = pw,
      te_driver_tx_indicator = dt, te_driver_rx_indicator = dr, te_sys_entry = se,
      te_blacklist_func_indicator = bl, te_types_to_filter = cfg_types_to_filter c,
      te_symbol_tables = [], te_next_table_id = 0\<rparr>"
  have "tables_ok ?e" using pss(2) by (simp add: tables_ok_def symbols_ok_def later_def)
  then obtain env where env: "add_symbol_tables files (cfg_symbol_tables c) ?e = Inr env" "tables_ok env"
      "later j (te_internalizer env)" "env_lists env = pss" "te_types_to_filter env = cfg_types_to_filter c"
      "\<forall>a. symbol_of env a = (case symbol_of ?e a of Some x \<Rightarrow> Some x | None \<Rightarrow> first_symbol files (cfg_symbol_tables c) a)"
    using add_symbol_tables_adds[OF _ assms(2), of ?e] by (auto simp: env_lists_def ls)
  have names: "list_all2 (\<lambda>ps ss. pointers (te_internalizer env) ps \<and> names (te_internalizer env) ps = set ss)
      (env_lists env) (indicator_lists c)"
    unfolding env(4) using pss(3) by (rule list_all2_mono) (use pointers_later env(3) in blast)
  have agrees: "list_all2 (contains_agrees (te_internalizer env)) (env_lists env) (indicator_lists c)"
    using names by (rule list_all2_mono) (use contains_name in \<open>fastforce simp: contains_agrees_def\<close>)
  have "env_view env = config_view c"
    using names env(5) by (simp add: env_lists_def indicator_lists_def env_view_def config_view_def Let_def)
  moreover have "symbol_of env = first_symbol files (cfg_symbol_tables c)"
    using env(6) by (simp add: fun_eq_iff symbol_of_def)
  ultimately show ?thesis
    using agrees env(1,2) TraceEnvironment_new_intern[OF pss(1)[unfolded ls], of files]
    by (auto simp: tables_ok_def)
qed

section \<open>A concrete configuration\<close>

text \<open>YAML nodes with the operations the code uses.\<close>

datatype demo_node = Scalar string | Sequence "demo_node list" | Mapping "(string \<times> demo_node) list"

fun demo_get :: "demo_node \<Rightarrow> string \<Rightarrow> demo_node option res" where
  "demo_get (Mapping kvs) key = Inr (map_of kvs key)"
| "demo_get _ key = Inl (Terminated ''bad subscript'')"

fun demo_type :: "demo_node \<Rightarrow> NodeType" where
  "demo_type (Scalar s) = ScalarNode"
| "demo_type (Sequence ns) = SequenceNode"
| "demo_type (Mapping kvs) = MapNode"

fun demo_items :: "demo_node \<Rightarrow> demo_node list" where
  "demo_items (Sequence ns) = ns"
| "demo_items _ = []"

fun demo_string :: "demo_node \<Rightarrow> string res" where
  "demo_string (Scalar s) = Inr s"
| "demo_string _ = Inl (Terminated ''bad conversion'')"

fun demo_uint64 :: "demo_node \<Rightarrow> u64 res" where
  "demo_uint64 (Scalar s) = Inr (of_nat (value_of 10 s))"
| "demo_uint64 _ = Inl (Terminated ''bad conversion'')"

definition demo_yaml :: "demo_node \<Rightarrow> demo_node yaml" where
  "demo_yaml root =
     \<lparr>y_load = (\<lambda>_. Inr root), y_get = demo_get, y_type = demo_type, y_items = demo_items,
      y_string = demo_string, y_uint64 = demo_uint64\<rparr>"

definition demo_levels :: "string level_names" where
  "demo_levels = \<lparr>level_from_str = (\<lambda>s. if s = ''debug'' then s else ''off''), level_off = ''off'', level_info = ''info''\<rparr>"

definition demo_root :: demo_node where
  "demo_root = Mapping
     [(''MaxBackgroundThreads'', Scalar ''1''), (''MaxCpuThreads'', Scalar ''5''),
      (''JaegerUrl'', Scalar ''http://collector''), (''LineBufferSize'', Scalar ''1''),
      (''EventBufferSize'', Scalar ''2''), (''LogLevel'', Scalar ''info''),
      (''TypesToFilter'', Sequence [Scalar ''kHostInstrT'']),
      (''SymbolTables'', Sequence [Mapping [(''Identifier'', Scalar ''linux''),
         (''Path'', Scalar ''linux.dump''), (''AddressOffset'', Scalar ''5''), (''Type'', Scalar ''kS'')]]),
      (''LinuxFuncIndicator'', Sequence [Scalar ''netif_rx'']),
      (''DriverFuncIndicator'', Sequence [Scalar ''i40e_poll'']),
      (''KernelTxIndicator'', Sequence []), (''KernelRxIndicator'', Sequence [Scalar ''netif_rx'']),
      (''PciWriteIndicator'', Sequence []), (''DriverTxIndicator'', Sequence [Scalar ''i40e_xmit'']),
      (''DriverRxIndicator'', Sequence []), (''SysEntryIndicator'', Sequence [Scalar ''sys_read'']),
      (''BlacklistFunctions'', Sequence [Scalar ''exc_nmi''])]"

lemma demo_created:
  "\<exists>c. CreateFromYaml demo_levels (demo_yaml demo_root) ''config.yaml'' = Inr c \<and>
     cfg_linux_net_func_indicator c = [''netif_rx'', ''sys_read''] \<and>
     cfg_driver_func_indicator c = [''i40e_poll'', ''i40e_xmit''] \<and>
     cfg_kernel_rx_indicator c = [''netif_rx''] \<and>
     cfg_symbol_tables c = [\<lparr>stc_identifier = ''linux'', stc_path = ''linux.dump'',
       stc_address_offset = 5, stc_filter_type = kS\<rparr>] \<and>
     cfg_types_to_filter c = {kHostInstrT} \<and>
     cfg_event_buffer_size c = 2 \<and> cfg_log_level c = ''info''"
  by (simp add: CreateFromYaml_def demo_root_def demo_yaml_def demo_levels_def read_indicators_def
      TraceEnvConfig_default_def add_indicator_def add_indicator_both_def sequence_at_def
      CheckKeyAndType_def CheckKey_def node_at_def read_types_and_tables_def CreateSymTableConf_def
      CheckEmptiness_def check_containers_def read_scalars_def positive_at_def ResolveLogLevel_def
      EventTypeFromString_def kTypeLookup_def FilterTypeFromString_def value_of_def digit_val_def code_def insort_insert_insort_key
      insort_insert_key_def less_char_def less_eq_char_def isdigit_def)

text \<open>
  C15. A configuration that is read without an exception is usable: no required container is
  empty, no size is 0, every symbol table has a name and a path; its containers hold
  exactly the strings of the file, and the indicators of the kernel and of the driver
  contain those of their parts.
\<close>

theorem CreateFromYaml_config:
  assumes "CreateFromYaml sp y config_path = Inr c"
  shows "config_ok c \<and> (\<exists>root. y_load y config_path = Inr root \<and> config_holds y root c)"
  by (rule CreateFromYaml_created[OF assms])

theorem CreateFromYaml_config_witness:
  "\<exists>c. CreateFromYaml demo_levels (demo_yaml demo_root) ''config.yaml'' = Inr c \<and>
     config_ok c \<and> cfg_driver_func_indicator c = [''i40e_poll'', ''i40e_xmit'']"
proof -
  obtain c where c: "CreateFromYaml demo_levels (demo_yaml demo_root) ''config.yaml'' = Inr c"
      "cfg_driver_func_indicator c = [''i40e_poll'', ''i40e_xmit'']"
    using demo_created by blast
  then show ?thesis using CreateFromYaml_config[OF c(1)] by blast
qed

text \<open>
  C13. The trace environment implements its configuration: when the files of the symbol
  tables can be read, the constructor succeeds, no indicator is refused, and the sets of
  pointers stand for the sets of strings of the configuration; a pointer obtained from the
  internalizer at any later time is in a set exactly when its string is in the
  configuration; an address is translated by the first table, in the order of the
  configuration, whose file has it, and to the name on the first line that has it.
\<close>

theorem TraceEnvironment_refines_config:
  assumes "CreateFromYaml sp y config_path = Inr c" and "\<forall>t \<in> set (cfg_symbol_tables c). dump_ok files t"
  shows "\<exists>env. TraceEnvironment_new files c = Inr env \<and> env_view env = config_view c \<and>
    list_all2 (contains_agrees (te_internalizer env)) (env_lists env) (indicator_lists c) \<and>
    symbols_ok (te_symbol_tables env, te_internalizer env) \<and>
    symbol_of env = first_symbol files (cfg_symbol_tables c)"
proof (rule TraceEnvironment_new_ok[OF _ assms(2)])
  show "list_all is_set (indicator_lists c)"
    using CreateFromYaml_created[OF assms(1)] by (simp add: config_ok_def)
qed

definition demo_files :: file_system where
  "demo_files = [''linux.dump'' \<mapsto> sample_dump]"

theorem TraceEnvironment_refines_config_witness:
  "\<exists>c env. CreateFromYaml demo_levels (demo_yaml demo_root) ''config.yaml'' = Inr c \<and>
     TraceEnvironment_new demo_files c = Inr env \<and> symbol_of env 21 = Some (''foo'', ''linux'') \<and>
     kernel_rx_indicator (env_view env) = {''netif_rx''}"
proof -
  obtain c where c: "CreateFromYaml demo_levels (demo_yaml demo_root) ''config.yaml'' = Inr c"
      "cfg_kernel_rx_indicator c = [''netif_rx'']"
      "cfg_symbol_tables c = [\<lparr>stc_identifier = ''linux'', stc_path = ''linux.dump'',
         stc_address_offset = 5, stc_filter_type = kS\<rparr>]"
    using demo_created by blast
  have ok: "\<forall>t \<in> set (cfg_symbol_tables c). dump_ok demo_files t"
    using sample_dump_lines by (simp add: c(3) dump_ok_def demo_files_def)
  obtain env where env: "TraceEnvironment_new demo_files c = Inr env" "env_view env = config_view c"
      "symbol_of env = first_symbol demo_files (cfg_symbol_tables c)"
    using TraceEnvironment_refines_config[OF c(1) ok] by blast
  have "symbol_of env 21 = Some (''foo'', ''linux'')"
    by (simp add: env(3) c(3) demo_files_def sample_symbols)
  moreover have "kernel_rx_indicator (env_view env) = {''netif_rx''}" by (simp add: env(2) config_view_def c(2))
  ultimately show ?thesis using c(1) env(1) by blast
qed

end
