(* ===== verification/Program.thy ===== *)
theory Program
  imports PipelineProps StreamParser EnvSetup AccessLinks
begin

text \<open>
  The whole program: \<open>RunPipelines\<close> of include/sync/specializations.h runs the pipelines of
  trace.cc side by side, each with a log, a parser and handlers of its own, while their
  consumers, the spanners, share the tracer and the context channels. A schedule names the
  pipeline and the task that takes the next step.
\<close>

section \<open>Several pipelines\<close>

record pipeline_plan =
  pp_parser :: "symbol_env event_parser"
  pp_log :: "string list"
  pp_handlers :: "event_handler list"
  pp_spanner :: nat

text \<open>
  A pipeline holds a pointer to its consumer; \<open>pl_cons\<close> is the store the pointers point
  into, the spanners and what they share, and is loaded before a step and stored after it.
\<close>

type_synonym 'x store = "spanner list \<times> 'x sys"

type_synonym 'x run_pipeline =
  "(symbol_env BufferedEventProvider, event_handler, 'x store, event) pipeline"

definition consume_at ::
  "TraceEnvironment \<Rightarrow> 'x exporter \<Rightarrow> nat \<Rightarrow> event \<Rightarrow> 'x store \<Rightarrow> 'x store res"
where
  "consume_at env xp j e = (\<lambda>(ss, y).
     rbind (spanner_consume env xp (Some e) (ss ! j, y)) (\<lambda>(s', y'). Inr (ss[j := s'], y')))"

definition plan_ops ::
  "TraceEnvironment \<Rightarrow> 'x exporter \<Rightarrow> pipeline_plan \<Rightarrow>
    (symbol_env BufferedEventProvider, event_handler, 'x store, event) pipeline_ops"
where
  "plan_ops env xp p = provider_ops (pp_parser p) filter_event (consume_at env xp (pp_spanner p))"

definition plan_pipeline :: "nat \<Rightarrow> symbol_env \<Rightarrow> 'x store \<Rightarrow> pipeline_plan \<Rightarrow> 'x run_pipeline" where
  "plan_pipeline event_buffer_size st store p =
     log_pipeline (pp_log p) event_buffer_size st (pp_handlers p) store"

definition RunPipelinesImpl ::
  "nat \<Rightarrow> symbol_env \<Rightarrow> 'x store \<Rightarrow> pipeline_plan list \<Rightarrow> 'x run_pipeline list \<times> 'x store"
where
  "RunPipelinesImpl event_buffer_size st store plans =
     (map (plan_pipeline event_buffer_size st store) plans, store)"

definition program_step ::
  "TraceEnvironment \<Rightarrow> 'x exporter \<Rightarrow> pipeline_plan list \<Rightarrow> nat \<times> task \<Rightarrow>
    'x run_pipeline list \<times> 'x store \<Rightarrow> ('x run_pipeline list \<times> 'x store) res"
where
  "program_step env xp plans = (\<lambda>(k, t) (ps, store).
     if k < length ps then
       rbind (task_step (plan_ops env xp (plans ! k)) t ((ps ! k)\<lparr>pl_cons := store\<rparr>))
         (\<lambda>p. Inr (ps[k := p], pl_cons p))
     else Inl Blocked)"

fun run_program ::
  "TraceEnvironment \<Rightarrow> 'x exporter \<Rightarrow> pipeline_plan list \<Rightarrow> (nat \<times> task) list \<Rightarrow>
    'x run_pipeline list \<times> 'x store \<Rightarrow> ('x run_pipeline list \<times> 'x store) res"
where
  "run_program env xp plans [] st = Inr st"
| "run_program env xp plans (kt # sched) st =
     rbind (program_step env xp plans kt st) (run_program env xp plans sched)"

text \<open>\<open>when_all\<close>: the main task waits until every pipeline is done.\<close>

definition program_done :: "'x run_pipeline list \<Rightarrow> bool" where
  "program_done ps = list_all (\<lambda>p. pl_main p = PipelineDone) ps"

section \<open>What the spanners see\<close>

text \<open>A sequence of events with the spanner that consumes each.\<close>

fun run_events ::
  "TraceEnvironment \<Rightarrow> 'x exporter \<Rightarrow> (nat \<times> event) list \<Rightarrow> 'x store \<Rightarrow> 'x store res"
where
  "run_events env xp [] store = Inr store"
| "run_events env xp ((j, e) # tr) store =
     rbind (consume_at env xp j e store) (run_events env xp tr)"

definition seen_by :: "nat \<Rightarrow> (nat \<times> event) list \<Rightarrow> event list" where
  "seen_by j tr = map snd (filter (\<lambda>(i, e). i = j) tr)"

lemma seen_by_append [simp]: "seen_by j (tr @ tr') = seen_by j tr @ seen_by j tr'"
  by (simp add: seen_by_def)

lemma seen_by_one: "seen_by j (map (Pair i) es) = (if i = j then es else [])"
  by (simp add: seen_by_def comp_def)

lemma run_events_append:
  "run_events env xp (tr @ tr') store = rbind (run_events env xp tr store) (run_events env xp tr')"
proof (induction tr arbitrary: store)
  case (Cons je tr)
  then show ?case by (cases je; cases "consume_at env xp (fst je) (snd je) store") simp_all
qed simp

lemma run_events_one:
  "run_events env xp (map (Pair j) es) store = consume_all (consume_at env xp j) es store"
  by (induction es arbitrary: store) (auto intro!: arg_cong[where f = "rbind _"])

text \<open>The events a pipeline has to deliver, and what it still has.\<close>

definition plan_events :: "symbol_env \<Rightarrow> pipeline_plan \<Rightarrow> event list" where
  "plan_events st p =
     filter (\<lambda>e. list_all (\<lambda>h. accepts h e) (pp_handlers p)) (log_events (pp_parser p) (pp_log p) st)"

definition plan_ok :: "symbol_env \<Rightarrow> pipeline_plan \<Rightarrow> bool" where
  "plan_ok st p = ((\<exists>ready. log_parser (pp_parser p) ready \<and> ready st) \<and> readable_log (pp_log p))"

definition fed :: "symbol_env \<Rightarrow> (nat \<times> event) list \<Rightarrow> pipeline_plan \<Rightarrow> 'x run_pipeline \<Rightarrow> bool" where
  "fed st tr p pl =
     (\<exists>ready. log_parser (pp_parser p) ready \<and>
        pipeline_inv (provider_inv ready) bep_started_fill_task pl \<and>
        plan_events st p =
          seen_by (pp_spanner p) tr @ remaining filter_event (provider_future (pp_parser p)) pl)"

lemma cons_irrelevant [simp]:
  "pipeline_inv source_inv begun (pl\<lparr>pl_cons := c\<rparr>) = pipeline_inv source_inv begun pl"
  "upstream handel future k (pl\<lparr>pl_cons := c\<rparr>) = upstream handel future k pl"
  "remaining handel future (pl\<lparr>pl_cons := c\<rparr>) = remaining handel future pl"
proof -
  have ch: "channel (pl\<lparr>pl_cons := c\<rparr>) = channel pl" by (simp add: channel_def fun_eq_iff)
  have td: "task_done i (pl\<lparr>pl_cons := c\<rparr>) = task_done i pl" for i by (simp add: task_done_def)
  show up: "upstream handel future k (pl\<lparr>pl_cons := c\<rparr>) = upstream handel future k pl" for k
    by (rule upstream_cong) (simp_all add: ch)
  show "remaining handel future (pl\<lparr>pl_cons := c\<rparr>) = remaining handel future pl"
    by (simp add: remaining_def up)
  have "main_ok m (pl\<lparr>pl_cons := c\<rparr>) = main_ok m pl" for m by (cases m) (simp_all add: td)
  then show "pipeline_inv source_inv begun (pl\<lparr>pl_cons := c\<rparr>) = pipeline_inv source_inv begun pl"
    by (simp add: pipeline_inv_def ch td drained_def)
qed

lemma fed_start:
  assumes "plan_ok st p" and "event_buffer_size > 0"
  shows "fed st [] p (plan_pipeline event_buffer_size st store p)"
proof -
  obtain ready where r: "log_parser (pp_parser p) ready" "ready st" "readable_log (pp_log p)"
    using assms(1) by (auto simp: plan_ok_def)
  have "remaining filter_event (provider_future (pp_parser p)) (plan_pipeline event_buffer_size st store p) = plan_events st p"
    unfolding plan_pipeline_def log_pipeline_start(3)[OF r(1,2,3) assms(2)] pass_all_filter plan_events_def ..
  then show ?thesis
    using log_pipeline_start(1)[OF r(1,2,3) assms(2), of "pp_handlers p" store] r(1)
    by (auto simp: fed_def plan_pipeline_def seen_by_def)
qed

text \<open>A step of one pipeline feeds its spanner with the next of its events, or with none.\<close>

lemma fed_step:
  assumes "fed st tr p pl" and "task_step (plan_ops env xp p) t (pl\<lparr>pl_cons := store\<rparr>) = Inr pl'"
  shows "\<exists>es. run_events env xp (map (Pair (pp_spanner p)) es) store = Inr (pl_cons pl') \<and>
    fed st (tr @ map (Pair (pp_spanner p)) es) p pl'"
proof -
  obtain ready where r: "log_parser (pp_parser p) ready"
      "pipeline_inv (provider_inv ready) bep_started_fill_task pl"
      "plan_events st p = seen_by (pp_spanner p) tr @ remaining filter_event (provider_future (pp_parser p)) pl"
    using assms(1) by (auto simp: fed_def)
  have inv: "pipeline_inv (provider_inv ready) bep_started_fill_task (pl\<lparr>pl_cons := store\<rparr>)"
    using r(2) by simp
  have src: "event_source produce_start produce_await (ResetFillBufferTask (pp_parser p))
      (provider_future (pp_parser p)) (provider_inv ready) bep_started_fill_task provider_rank"
    by (rule log_parser.is_event_source[OF r(1)])
  have "step_good (consume_at env xp (pp_spanner p)) filter_event (provider_future (pp_parser p))
      (provider_inv ready) bep_started_fill_task provider_rank (pl\<lparr>pl_cons := store\<rparr>) pl'"
    using event_source.task_step_ok[OF src inv, where handel = filter_event
        and consume = "consume_at env xp (pp_spanner p)" and t = t] assms(2)
    by (simp add: plan_ops_def provider_ops_def)
  then obtain es where es: "pipeline_inv (provider_inv ready) bep_started_fill_task pl'"
      "remaining filter_event (provider_future (pp_parser p)) pl =
        es @ remaining filter_event (provider_future (pp_parser p)) pl'"
      "consume_all (consume_at env xp (pp_spanner p)) es store = Inr (pl_cons pl')"
    by (auto simp: step_good_def)
  have "fed st (tr @ map (Pair (pp_spanner p)) es) p pl'"
    using r(1,3) es(1,2) by (auto simp: fed_def seen_by_one)
  then show ?thesis using es(3) by (auto simp: run_events_one)
qed

lemma fed_other: "fed st tr p pl \<Longrightarrow> pp_spanner p \<noteq> j \<Longrightarrow> fed st (tr @ map (Pair j) es) p pl"
  by (simp add: fed_def seen_by_one)

lemma fed_finished:
  assumes "fed st tr p pl" and "pl_main pl = PipelineDone"
  shows "plan_events st p = seen_by (pp_spanner p) tr"
proof -
  obtain ready where r: "log_parser (pp_parser p) ready"
      "pipeline_inv (provider_inv ready) bep_started_fill_task pl"
      "plan_events st p = seen_by (pp_spanner p) tr @ remaining filter_event (provider_future (pp_parser p)) pl"
    using assms(1) by (auto simp: fed_def)
  show ?thesis
    using event_source.finished[OF log_parser.is_event_source[OF r(1)] r(2) assms(2)] r(3) by simp
qed

definition all_fed :: "symbol_env \<Rightarrow> (nat \<times> event) list \<Rightarrow> pipeline_plan list \<Rightarrow> 'x run_pipeline list \<Rightarrow> bool" where
  "all_fed st tr plans ps =
     (length ps = length plans \<and> (\<forall>k < length plans. fed st tr (plans ! k) (ps ! k)))"

lemma all_fed_step:
  assumes "all_fed st tr plans ps" and "distinct (map pp_spanner plans)"
    and "program_step env xp plans kt (ps, store) = Inr (ps', store')"
  shows "\<exists>tr'. run_events env xp tr' store = Inr store' \<and> all_fed st (tr @ tr') plans ps' \<and>
    fst ` set tr' \<subseteq> pp_spanner ` set plans"
proof -
  obtain k t where kt: "kt = (k, t)" by (cases kt)
  obtain p where p: "k < length ps" "task_step (plan_ops env xp (plans ! k)) t ((ps ! k)\<lparr>pl_cons := store\<rparr>) = Inr p"
      "ps' = ps[k := p]" "store' = pl_cons p"
    using assms(3) by (auto simp: program_step_def kt rbind_eq_Inr split: if_splits)
  have len: "length ps = length plans" using assms(1) by (simp add: all_fed_def)
  have "fed st tr (plans ! k) (ps ! k)" using assms(1) p(1) len by (simp add: all_fed_def)
  from fed_step[OF this p(2)] obtain es where es:
      "run_events env xp (map (Pair (pp_spanner (plans ! k))) es) store = Inr store'"
      "fed st (tr @ map (Pair (pp_spanner (plans ! k))) es) (plans ! k) p"
    using p(4) by blast
  have "fed st (tr @ map (Pair (pp_spanner (plans ! k))) es) (plans ! i) (ps' ! i)" if "i < length plans" for i
  proof (cases "i = k")
    case True
    then show ?thesis using es(2) p(1,3) by simp
  next
    case False
    then have "pp_spanner (plans ! i) \<noteq> pp_spanner (plans ! k)"
      using nth_eq_iff_index_eq[OF assms(2), of i k] that p(1) len by simp
    moreover have "fed st tr (plans ! i) (ps ! i)" using assms(1) that by (simp add: all_fed_def)
    ultimately show ?thesis using fed_other False p(3) by simp
  qed
  then have "all_fed st (tr @ map (Pair (pp_spanner (plans ! k))) es) plans ps'"
    using len p(3) by (simp add: all_fed_def)
  moreover have "fst ` set (map (Pair (pp_spanner (plans ! k))) es) \<subseteq> pp_spanner ` set plans"
    using p(1) len by auto
  ultimately show ?thesis using es(1) by blast
qed

lemma run_program_feeds:
  assumes "all_fed st tr plans ps" and "distinct (map pp_spanner plans)"
    and "run_program env xp plans sched (ps, store) = Inr (ps', store')"
  shows "\<exists>tr'. run_events env xp tr' store = Inr store' \<and> all_fed st (tr @ tr') plans ps' \<and>
    fst ` set tr' \<subseteq> pp_spanner ` set plans"
  using assms(1,3)
proof (induction sched arbitrary: tr ps store)
  case Nil
  then show ?case by (intro exI[of _ "[]"]) simp
next
  case (Cons kt sched)
  obtain ps1 store1 where s1: "program_step env xp plans kt (ps, store) = Inr (ps1, store1)"
      "run_program env xp plans sched (ps1, store1) = Inr (ps', store')"
    using Cons.prems(2) by (auto simp: rbind_eq_Inr)
  obtain tr1 where tr1: "run_events env xp tr1 store = Inr store1" "all_fed st (tr @ tr1) plans ps1"
      "fst ` set tr1 \<subseteq> pp_spanner ` set plans"
    using all_fed_step[OF Cons.prems(1) assms(2) s1(1)] by blast
  obtain tr2 where tr2: "run_events env xp tr2 store1 = Inr store'" "all_fed st ((tr @ tr1) @ tr2) plans ps'"
      "fst ` set tr2 \<subseteq> pp_spanner ` set plans"
    using Cons.IH[OF tr1(2) s1(2)] by blast
  show ?case
    using tr1(1,3) tr2 by (intro exI[of _ "tr1 @ tr2"]) (simp add: run_events_append image_Un)
qed

lemma all_fed_start:
  assumes "list_all (plan_ok st) plans" and "event_buffer_size > 0"
  shows "all_fed st [] plans (fst (RunPipelinesImpl event_buffer_size st store plans))"
  using assms by (auto simp: all_fed_def RunPipelinesImpl_def list_all_length intro: fed_start)

lemma program_feeds:
  assumes "list_all (plan_ok st) plans" and "event_buffer_size > 0" and "distinct (map pp_spanner plans)"
    and "run_program env xp plans sched (RunPipelinesImpl event_buffer_size st store plans) = Inr (ps, store')"
  shows "\<exists>tr. run_events env xp tr store = Inr store' \<and> fst ` set tr \<subseteq> pp_spanner ` set plans \<and>
    (\<forall>p \<in> set plans. prefix (seen_by (pp_spanner p) tr) (plan_events st p) \<and>
       (program_done ps \<longrightarrow> seen_by (pp_spanner p) tr = plan_events st p))"
proof -
  obtain tr where tr: "run_events env xp tr store = Inr store'" "all_fed st tr plans ps"
      "fst ` set tr \<subseteq> pp_spanner ` set plans"
    using run_program_feeds[OF all_fed_start[OF assms(1,2), of store] assms(3), where env = env and xp = xp
        and sched = sched and store = store] assms(4)
    by (auto simp: RunPipelinesImpl_def)
  have "prefix (seen_by (pp_spanner p) tr) (plan_events st p) \<and>
       (program_done ps \<longrightarrow> seen_by (pp_spanner p) tr = plan_events st p)" if mem: "p \<in> set plans" for p
  proof -
    obtain k where k: "k < length plans" "plans ! k = p" using mem in_set_conv_nth[of p plans] by blast
    then have f: "fed st tr p (ps ! k)" and len: "length ps = length plans"
      using tr(2) by (auto simp: all_fed_def)
    have "pl_main (ps ! k) = PipelineDone" if "program_done ps"
      using that k(1) len by (simp add: program_done_def list_all_length)
    then show ?thesis using f fed_finished[OF f] by (auto simp: fed_def prefix_def)
  qed
  then show ?thesis using tr(1,3) by blast
qed

section \<open>Progress\<close>

text \<open>A pipeline that is not done can step, or its consumer stops at an event.\<close>

lemma task_step_consume:
  assumes "task_step (provider_ops parse handel consume) t pl = Inr pl'"
    and "\<And>v. t = ConsumeTask \<Longrightarrow> pl_cons_pc pl \<noteq> ConsumeCall v"
  shows "task_step (provider_ops parse handel consume') t pl = Inr pl'"
proof (cases t)
  case ProduceTask
  then show ?thesis
    using assms(1) by (cases "pl_prod_pc pl") (simp_all add: provider_ops_def)
next
  case BackgroundTask
  then show ?thesis using assms(1) by (simp add: provider_ops_def)
next
  case (HandelTask i)
  then show ?thesis
    using assms(1) by (cases "pl_handler_pc pl ! i") (simp_all add: provider_ops_def split: if_splits)
next
  case ConsumeTask
  then show ?thesis
    using assms(1) assms(2)[OF ConsumeTask, of "case pl_cons_pc pl of ConsumeCall v \<Rightarrow> v | _ \<Rightarrow> undefined"]
    by (cases "pl_cons_pc pl") (simp_all add: provider_ops_def)
next
  case MainTask
  then show ?thesis using assms(1) by simp
qed

lemma fed_runs:
  assumes "fed st tr p pl" and "pl_main pl \<noteq> PipelineDone"
  shows "(\<exists>t pl'. task_step (plan_ops env xp p) t (pl\<lparr>pl_cons := store\<rparr>) = Inr pl') \<or>
    (\<exists>e err. pl_cons_pc pl = ConsumeCall e \<and> consume_at env xp (pp_spanner p) e store = Inl err)"
proof -
  obtain ready where r: "log_parser (pp_parser p) ready"
      "pipeline_inv (provider_inv ready) bep_started_fill_task pl"
    using assms(1) by (auto simp: fed_def)
  have src: "event_source produce_start produce_await (ResetFillBufferTask (pp_parser p))
      (provider_future (pp_parser p)) (provider_inv ready) bep_started_fill_task provider_rank"
    by (rule log_parser.is_event_source[OF r(1)])
  let ?pl = "pl\<lparr>pl_cons := store\<rparr>"
  have "\<exists>t pl'. task_step (provider_ops (pp_parser p) filter_event (\<lambda>v c. Inr c)) t ?pl = Inr pl'"
    unfolding provider_ops_def
    by (rule event_source.progress[OF src]) (use r(2) assms(2) in simp_all)
  then obtain t pl' where t: "task_step (provider_ops (pp_parser p) filter_event (\<lambda>v c. Inr c)) t ?pl = Inr pl'"
    by blast
  show ?thesis
  proof (cases "\<exists>e. t = ConsumeTask \<and> pl_cons_pc pl = ConsumeCall e")
    case True
    then obtain e where e: "pl_cons_pc pl = ConsumeCall e" by blast
    show ?thesis
    proof (cases "consume_at env xp (pp_spanner p) e store")
      case (Inl err)
      then show ?thesis using e by blast
    next
      case (Inr c)
      then have "task_step (plan_ops env xp p) ConsumeTask ?pl = Inr (?pl\<lparr>pl_cons := c, pl_cons_pc := ConsumePop\<rparr>)"
        using e by (simp add: plan_ops_def provider_ops_def)
      then show ?thesis by blast
    qed
  next
    case False
    then have "task_step (plan_ops env xp p) t ?pl = Inr pl'"
      unfolding plan_ops_def by (intro task_step_consume[OF t]) auto
    then show ?thesis by blast
  qed
qed

text \<open>Every step uses up some of the work that the pipelines hold.\<close>

definition program_work :: "pipeline_plan list \<Rightarrow> 'x run_pipeline list \<Rightarrow> nat" where
  "program_work plans ps =
     (\<Sum>k < length plans. work provider_rank (provider_future (pp_parser (plans ! k))) (ps ! k))"

lemma fed_work:
  assumes "fed st tr p pl" and "task_step (plan_ops env xp p) t (pl\<lparr>pl_cons := store\<rparr>) = Inr pl'"
  shows "work provider_rank (provider_future (pp_parser p)) pl' <
    work provider_rank (provider_future (pp_parser p)) pl"
proof -
  obtain ready where r: "log_parser (pp_parser p) ready"
      "pipeline_inv (provider_inv ready) bep_started_fill_task pl"
    using assms(1) by (auto simp: fed_def)
  have src: "event_source produce_start produce_await (ResetFillBufferTask (pp_parser p))
      (provider_future (pp_parser p)) (provider_inv ready) bep_started_fill_task provider_rank"
    by (rule log_parser.is_event_source[OF r(1)])
  have inv: "pipeline_inv (provider_inv ready) bep_started_fill_task (pl\<lparr>pl_cons := store\<rparr>)"
    using r(2) by simp
  have "work provider_rank (provider_future (pp_parser p)) pl' <
      work provider_rank (provider_future (pp_parser p)) (pl\<lparr>pl_cons := store\<rparr>)"
    using event_source.task_step_ok[OF src inv, where handel = filter_event
        and consume = "consume_at env xp (pp_spanner p)" and t = t] assms(2)
    by (simp add: plan_ops_def provider_ops_def step_good_def)
  moreover have "work provider_rank (provider_future (pp_parser p)) (pl\<lparr>pl_cons := store\<rparr>) =
      work provider_rank (provider_future (pp_parser p)) pl"
    by (simp add: work_def channel_work_def handlers_work_def channel_def)
  ultimately show ?thesis by simp
qed

lemma program_work_step:
  assumes "all_fed st tr plans ps" and "program_step env xp plans kt (ps, store) = Inr (ps', store')"
  shows "program_work plans ps' < program_work plans ps"
proof -
  obtain k t where kt: "kt = (k, t)" by (cases kt)
  obtain p where p: "k < length ps" "task_step (plan_ops env xp (plans ! k)) t ((ps ! k)\<lparr>pl_cons := store\<rparr>) = Inr p"
      "ps' = ps[k := p]"
    using assms(2) by (auto simp: program_step_def kt rbind_eq_Inr split: if_splits)
  have len: "length ps = length plans" and f: "fed st tr (plans ! k) (ps ! k)"
    using assms(1) p(1) by (auto simp: all_fed_def)
  show ?thesis
    unfolding program_work_def
  proof (rule sum_strict_mono_ex1)
    show "\<forall>i \<in> {..<length plans}. work provider_rank (provider_future (pp_parser (plans ! i))) (ps' ! i) \<le>
        work provider_rank (provider_future (pp_parser (plans ! i))) (ps ! i)"
      using fed_work[OF f p(2)] p(1,3) by (auto simp: nth_list_update)
    show "\<exists>i \<in> {..<length plans}. work provider_rank (provider_future (pp_parser (plans ! i))) (ps' ! i) <
        work provider_rank (provider_future (pp_parser (plans ! i))) (ps ! i)"
      using fed_work[OF f p(2)] p(1,3) len by (intro bexI[of _ k]) auto
  qed simp
qed

lemma run_program_work:
  assumes "all_fed st tr plans ps" and "distinct (map pp_spanner plans)"
    and "run_program env xp plans sched (ps, store) = Inr (ps', store')"
  shows "length sched + program_work plans ps' \<le> program_work plans ps"
  using assms(1,3)
proof (induction sched arbitrary: tr ps store)
  case (Cons kt sched)
  obtain ps1 store1 where s1: "program_step env xp plans kt (ps, store) = Inr (ps1, store1)"
      "run_program env xp plans sched (ps1, store1) = Inr (ps', store')"
    using Cons.prems(2) by (auto simp: rbind_eq_Inr)
  obtain tr1 where "all_fed st (tr @ tr1) plans ps1"
    using all_fed_step[OF Cons.prems(1) assms(2) s1(1)] by blast
  from Cons.IH[OF this s1(2)] show ?case
    using program_work_step[OF Cons.prems(1) s1(1)] by simp
qed simp

definition waits_at_spanner ::
  "TraceEnvironment \<Rightarrow> 'x exporter \<Rightarrow> pipeline_plan list \<Rightarrow> 'x run_pipeline list \<times> 'x store \<Rightarrow> bool"
where
  "waits_at_spanner env xp plans = (\<lambda>(ps, store).
     \<exists>k < length plans. \<exists>e err. pl_cons_pc (ps ! k) = ConsumeCall e \<and>
       consume_at env xp (pp_spanner (plans ! k)) e store = Inl err)"

lemma all_fed_runs:
  assumes "all_fed st tr plans ps" and "\<not> program_done ps" and "\<not> waits_at_spanner env xp plans (ps, store)"
  shows "\<exists>kt st'. program_step env xp plans kt (ps, store) = Inr st'"
proof -
  have len: "length ps = length plans" using assms(1) by (simp add: all_fed_def)
  obtain k where k: "k < length plans" "pl_main (ps ! k) \<noteq> PipelineDone"
    using assms(2) len by (auto simp: program_done_def list_all_length)
  have f: "fed st tr (plans ! k) (ps ! k)" using assms(1) k(1) by (simp add: all_fed_def)
  obtain t pl' where "task_step (plan_ops env xp (plans ! k)) t ((ps ! k)\<lparr>pl_cons := store\<rparr>) = Inr pl'"
    using fed_runs[OF f k(2), of env xp store] assms(3) k(1) by (auto simp: waits_at_spanner_def)
  then have "program_step env xp plans (k, t) (ps, store) = Inr (ps[k := pl'], pl_cons pl')"
    using k(1) len by (simp add: program_step_def)
  then show ?thesis by blast
qed

lemma run_program_append:
  "run_program env xp plans sched st = Inr st1 \<Longrightarrow>
   run_program env xp plans (sched @ sched') st = run_program env xp plans sched' st1"
  by (induction sched arbitrary: st) (auto simp: rbind_eq_Inr)

text \<open>Where no spanner ever refuses an event of its log, every run can be continued to the end.\<close>

lemma all_fed_finish:
  assumes "all_fed st tr plans ps" and "distinct (map pp_spanner plans)"
    and "\<And>p e store. p \<in> set plans \<Longrightarrow> e \<in> set (plan_events st p) \<Longrightarrow>
      \<exists>store'. consume_at env xp (pp_spanner p) e store = Inr store'"
  shows "\<exists>sched ps' store'. run_program env xp plans sched (ps, store) = Inr (ps', store') \<and> program_done ps'"
  using assms(1)
proof (induction "program_work plans ps" arbitrary: tr ps store rule: less_induct)
  case less
  show ?case
  proof (cases "program_done ps")
    case True
    then show ?thesis by (intro exI[of _ "[]"] exI[of _ ps] exI[of _ store]) simp
  next
    case False
    have "\<not> waits_at_spanner env xp plans (ps, store)"
    proof
      assume "waits_at_spanner env xp plans (ps, store)"
      then obtain k e err where k: "k < length plans" "pl_cons_pc (ps ! k) = ConsumeCall e"
          "consume_at env xp (pp_spanner (plans ! k)) e store = Inl err"
        by (auto simp: waits_at_spanner_def)
      have "fed st tr (plans ! k) (ps ! k)" using less.prems k(1) by (simp add: all_fed_def)
      then have "e \<in> set (plan_events st (plans ! k))" using k(2) by (auto simp: fed_def remaining_def Let_def)
      then show False using assms(3)[OF nth_mem[OF k(1)], of e store] k(3) by simp
    qed
    from all_fed_runs[OF less.prems False this] obtain kt ps1 store1
      where s1: "program_step env xp plans kt (ps, store) = Inr (ps1, store1)" by auto
    obtain tr1 where tr1: "all_fed st (tr @ tr1) plans ps1"
      using all_fed_step[OF less.prems assms(2) s1] by blast
    obtain sched ps' store' where "run_program env xp plans sched (ps1, store1) = Inr (ps', store')" "program_done ps'"
      using less.hyps[OF program_work_step[OF less.prems s1] tr1] by blast
    then show ?thesis using s1 by (intro exI[of _ "kt # sched"]) simp
  qed
qed

section \<open>Runs of the spanners\<close>

text \<open>
  The guards of \<open>columbo_run\<close> along a sequence of events: the exporter has a case for each
  event, and the span ids do not run out.
\<close>

fun ids_suffice ::
  "TraceEnvironment \<Rightarrow> 'x exporter \<Rightarrow> (nat \<times> event) list \<Rightarrow> 'x store \<Rightarrow> bool"
where
  "ids_suffice env xp [] store = True"
| "ids_suffice env xp ((j, e) # tr) (ss, y) =
     (event_exportable e \<and> unat (fresh_id (sy_world y)) + spanner_cost (ss ! j) y < 2 ^ 64 \<and>
      (case consume_at env xp j e (ss, y) of Inl err \<Rightarrow> True | Inr store' \<Rightarrow> ids_suffice env xp tr store'))"

lemma run_events_is_run:
  assumes "columbo_run env xp x0 store" and "run_events env xp tr store = Inr store'"
    and "ids_suffice env xp tr store" and "fst ` set tr \<subseteq> {..<length (fst store)}"
  shows "columbo_run env xp x0 store'"
  using assms
proof (induction tr arbitrary: store)
  case (Cons je tr)
  obtain j e where je: "je = (j, e)" by (cases je)
  obtain ss y where st: "store = (ss, y)" by (cases store)
  obtain s1 y1 where s1: "spanner_consume env xp (Some e) (ss ! j, y) = Inr (s1, y1)"
      "run_events env xp tr (ss[j := s1], y1) = Inr store'"
    using Cons.prems(2) by (auto simp: je st consume_at_def rbind_eq_Inr)
  have "columbo_step env xp (ss, y) (ss[j := s1], y1)"
    by (rule step_consume[OF _ _ _ s1(1)]) (use Cons.prems(3,4) in \<open>simp_all add: je st\<close>)
  then have run: "columbo_run env xp x0 (ss[j := s1], y1)"
    using run_step[OF Cons.prems(1)] by (simp add: st)
  have "ids_suffice env xp tr (ss[j := s1], y1)"
    using Cons.prems(3) s1(1) by (simp add: je st consume_at_def)
  from Cons.IH[OF run s1(2) this] show ?case using Cons.prems(4) by (simp add: je st)
qed simp

end
