(* ===== verification/StringUtil.thy ===== *)
theory StringUtil
  imports Text
begin

text \<open>
  The string functions of include/util/string_util.h that work on a \<open>std::string\<close> by
  reference: each returns the string it leaves. \<open>trim_till_consume\<close> compares two iterators
  in an order the standard does not fix, so what it returns is not modelled.
\<close>

text \<open>A string of white space alone is left as it is.\<close>

definition trimL :: "string \<Rightarrow> string" where
  "trimL to_trim =
     (let rest = dropWhile is_space to_trim in if rest \<noteq> [] then rest else to_trim)"

definition trimR :: "string \<Rightarrow> string" where
  "trimR to_trim = rev (dropWhile is_space (rev to_trim))"

definition trim :: "string \<Rightarrow> string" where
  "trim to_trim = trimR (trimL to_trim)"

definition trimTillWhitespace :: "string \<Rightarrow> string" where
  "trimTillWhitespace to_trim =
     (let rest = dropWhile (\<lambda>c. \<not> is_space c) to_trim in if rest \<noteq> [] then rest else to_trim)"

fun extract_and_substr_until :: "(char \<Rightarrow> bool) \<Rightarrow> string \<Rightarrow> string \<times> string" where
  "extract_and_substr_until predicate [] = ([], [])"
| "extract_and_substr_until predicate (letter # s) =
     (if \<not> predicate letter then ([], letter # s)
      else (case extract_and_substr_until predicate s of (e, r) \<Rightarrow> (letter # e, r)))"

definition consume_and_trim_char :: "char \<Rightarrow> string \<Rightarrow> bool \<times> string" where
  "consume_and_trim_char to_consume s =
     (case s of
        [] \<Rightarrow> (False, s)
      | letter # t \<Rightarrow> if letter \<noteq> to_consume then (False, s) else (True, t))"

text \<open>The base selects the characters, but \<open>strtoul\<close> is called with 16.\<close>

definition parse_uint_trim :: "nat \<Rightarrow> string \<Rightarrow> u64 \<Rightarrow> bool \<times> string \<times> u64" where
  "parse_uint_trim base s target =
     (let pred = (if base = 10 then is_num else is_alnum) in
      case extract_and_substr_until pred s of
        (num_string, rest) \<Rightarrow>
          if num_string = [] then (False, rest, target)
          else
            (let num = strtoul 16 num_string in
             if num = u64_max then (False, rest, target) else (True, rest, num)))"

definition parse_uint_trim_copy :: "nat \<Rightarrow> string \<Rightarrow> u64 \<Rightarrow> bool \<times> u64" where
  "parse_uint_trim_copy base s target =
     (case parse_uint_trim base s target of (ok, _, num) \<Rightarrow> (ok, num))"

definition ends_with :: "string \<Rightarrow> string \<Rightarrow> bool" where
  "ends_with src match_str =
     (if length src < length match_str then False
      else drop (length src - length match_str) src = match_str)"

section \<open>What they leave\<close>

lemma extract_takeWhile: "extract_and_substr_until P s = (takeWhile P s, dropWhile P s)"
  by (induction s) auto

lemma trim_inner:
  assumes "\<not> is_space c" and "\<not> is_space d" and "list_all is_space u" and "list_all is_space v"
  shows "trim (u @ c # m @ d # v) = c # m @ [d]"
  using assms
  by (auto simp: trim_def trimL_def trimR_def list_all_iff dropWhile_append3 dropWhile_append2)

lemma decimal_as_hex: "n \<le> value_of 16 (show_base 10 n) \<and> (10 \<le> n \<longrightarrow> n < value_of 16 (show_base 10 n))"
proof (induction n rule: less_induct)
  case (less n)
  show ?case
  proof (cases "n < 10")
    case True
    then have "show_base 10 n = [digit_char n]" by (subst show_base.simps) simp
    then show ?thesis using True digit_char_facts(1)[of n] by (simp add: value_of_def)
  next
    case False
    have eq: "show_base 10 n = show_base 10 (n div 10) @ [digit_char (n mod 10)]"
      using False by (subst show_base.simps) simp
    have d: "digit_val (digit_char (n mod 10)) = n mod 10" by (rule digit_char_facts(1)) simp
    have h: "value_of 16 (show_base 10 n) = value_of 16 (show_base 10 (n div 10)) * 16 + n mod 10"
      by (simp add: eq value_of_snoc d)
    have "n div 10 \<le> value_of 16 (show_base 10 (n div 10))" "0 < n div 10" using less[of "n div 10"] False by auto
    moreover have "n = n div 10 * 10 + n mod 10" by simp
    ultimately show ?thesis unfolding h by linarith
  qed
qed

lemma decimal_chars:
  "show_base 10 n \<noteq> [] \<and>
    (\<forall>c \<in> set (show_base 10 n). is_num c \<and> is_digit_of 16 c \<and> \<not> isspace c \<and>
      c \<noteq> CHR ''-'' \<and> c \<noteq> CHR ''+'' \<and> c \<noteq> CHR ''x'' \<and> c \<noteq> CHR ''X'')"
proof -
  have "is_num (digit_char d) \<and> is_digit_of 16 (digit_char d) \<and> \<not> isspace (digit_char d) \<and>
      digit_char d \<noteq> CHR ''-'' \<and> digit_char d \<noteq> CHR ''+'' \<and> digit_char d \<noteq> CHR ''x'' \<and> digit_char d \<noteq> CHR ''X''"
    if "d < 10" for d
    using digit_char_facts[of d] that by (simp add: is_num_def is_digit_of_def)
  then show ?thesis using show_base_digits[of 10 n] by fastforce
qed

lemma strtoul_decimal: "value_of 16 (show_base 10 n) < 2 ^ 64 \<Longrightarrow>
    strtoul 16 (show_base 10 n) = of_nat (value_of 16 (show_base 10 n))"
proof -
  let ?s = "show_base 10 n"
  assume lt: "value_of 16 ?s < 2 ^ 64"
  note c = decimal_chars[of n]
  have sp: "dropWhile isspace ?s = ?s" using c by (simp add: dropWhile_eq_self_iff)
  have si: "strip_sign ?s = (False, ?s)" using c by (cases ?s) auto
  have hx: "strip_0x 16 ?s = ?s"
    by (rule strip_0x_plain) (use c in \<open>auto dest: in_set_takeD in_set_dropD\<close>)
  have tw: "takeWhile (is_digit_of 16) ?s = ?s" using c by (simp add: takeWhile_eq_all_conv)
  show ?thesis
    unfolding strtoul_def strto_parts_def sp si prod.case hx tw using lt by simp
qed

text \<open>
  A decimal number is read in base 16: \<open>parse_uint_trim_copy\<close> accepts the digits of
  every number but stores their hexadecimal value, which is greater than the number from
  10 on. trace.cc reads the two timestamp bounds with it.
\<close>

theorem parse_uint_trim_copy_decimal:
  assumes "10 \<le> n" and "value_of 16 (show_dec n) < 2 ^ 64 - 1"
  shows "\<exists>v. parse_uint_trim_copy 10 (show_dec n) target = (True, v) \<and>
    unat v = value_of 16 (show_dec n) \<and> n < unat v"
proof -
  let ?s = "show_base 10 n" and ?v = "of_nat (value_of 16 (show_base 10 n)) :: u64"
  have lt: "value_of 16 ?s < 2 ^ 64" and s: "show_dec n = ?s" using assms(2) by (simp_all add: show_dec_def)
  have all: "takeWhile is_num ?s = ?s" using decimal_chars[of n] by (simp add: takeWhile_eq_all_conv)
  have v: "unat ?v = value_of 16 ?s" using lt by (simp add: unat_of_nat)
  have "?v \<noteq> u64_max"
  proof
    assume "?v = u64_max"
    then have "unat ?v = unat u64_max" by (rule arg_cong)
    then show False using v assms(2) by (simp add: s unsigned_minus_1_eq_mask mask_eq_exp_minus_1)
  qed
  then have "parse_uint_trim_copy 10 ?s target = (True, ?v)"
    using decimal_chars[of n] strtoul_decimal[OF lt]
    unfolding parse_uint_trim_copy_def parse_uint_trim_def extract_takeWhile Let_def if_P[OF refl] all
    by simp
  then show ?thesis using v decimal_as_hex[of n] assms(1) by (simp add: s)
qed

text \<open>The lower bound that a comment of trace.cc suggests.\<close>

theorem parse_uint_trim_copy_decimal_witness:
  "\<exists>v. parse_uint_trim_copy 10 ''1967446102500'' 0 = (True, v) \<and> 1967446102500 < unat v"
proof -
  have s: "show_dec 1967446102500 = ''1967446102500''"
    by (simp add: show_dec_def show_base.simps digit_char_def char_of_eq_iff)
  have "value_of 16 ''1967446102500'' < 2 ^ 64 - 1"
    by (simp add: value_of_def digit_val_def isdigit_def code_def)
  then show ?thesis using parse_uint_trim_copy_decimal[of 1967446102500 0] by (auto simp: s)
qed

end
