(* ===== verification/TraceMain.thy ===== *)
theory TraceMain
  imports Program StringUtil
begin

text \<open>
  The main function (trace.cc): from the command line to the pipelines it runs, in its two
  modes, raw simulator logs and preprocessed event streams. The parsed command line is a
  parameter: for each option whether it was given, and its argument.
\<close>

section \<open>The command line\<close>

record options =
  opt_count :: "string \<Rightarrow> bool"
  opt_string :: "string \<Rightarrow> string"

definition kMinLowerBound :: u64 where
  "kMinLowerBound = 0"

definition kMaxUpperBound :: u64 where
  "kMaxUpperBound = u64_max"

text \<open>A bound that cannot be read leaves the default.\<close>

definition bound_option :: "options \<Rightarrow> string \<Rightarrow> u64 \<Rightarrow> u64" where
  "bound_option opts key default_bound =
     (if opt_count opts key then snd (parse_uint_trim_copy 10 (opt_string opts key) default_bound)
      else default_bound)"

definition timestamp_bounds :: "options \<Rightarrow> EventTimeBoundary list" where
  "timestamp_bounds opts =
     (let upper_bound = bound_option opts ''ts-upper-bound'' kMaxUpperBound;
          lower_bound = bound_option opts ''ts-lower-bound'' kMinLowerBound in
      [\<lparr>etb_lower_bound = lower_bound, etb_upper_bound = upper_bound\<rparr>])"

text \<open>\<open>CreateOpenFile\<close> with \<open>allow_override\<close> throws when the file cannot be opened.\<close>

definition createPrinter :: "(string \<Rightarrow> bool) \<Rightarrow> options \<Rightarrow> string \<Rightarrow> unit res" where
  "createPrinter can_open opts option_name =
     (if opt_count opts option_name
      then throw_on (\<not> can_open (opt_string opts option_name)) ''could not open file''
      else Inr ())"

text \<open>
  The log behind an option. The program opens it when the pipeline runs; a file that does
  not exist ends the program either way.
\<close>

definition log_at :: "file_system \<Rightarrow> options \<Rightarrow> string \<Rightarrow> string list res" where
  "log_at files opts key = throw_if_empty (files (opt_string opts key)) ''the file path does not exist''"

section \<open>Event streams\<close>

text \<open>The event stream parser in the environment of the other parsers.\<close>

definition stream_event_parser :: "symbol_env event_parser" where
  "stream_event_parser h = (\<lambda>(tables, i).
     rbind (ParseStreamEvent h i) (\<lambda>(e, h', i'). Inr (e, h', (tables, i'))))"

definition stream_options :: "string list" where
  "stream_options =
     [''gem5-server-event-stream'', ''gem5-client-event-stream'', ''nicbm-server-event-stream'',
      ''nicbm-client-event-stream'', ''ns3-event-stream'']"

definition stream_mode :: "options \<Rightarrow> bool" where
  "stream_mode opts = list_all (opt_count opts) stream_options"

definition stream_plans :: "file_system \<Rightarrow> options \<Rightarrow> pipeline_plan list res" where
  "stream_plans files opts =
     (let filter_by_time = EventTimestampFilter (timestamp_bounds opts);
          plan = (\<lambda>log j. \<lparr>pp_parser = stream_event_parser, pp_log = log,
                           pp_handlers = [filter_by_time], pp_spanner = j\<rparr>) in
      rbind (log_at files opts ''gem5-server-event-stream'') (\<lambda>h_s.
      rbind (log_at files opts ''gem5-client-event-stream'') (\<lambda>h_c.
      rbind (log_at files opts ''nicbm-server-event-stream'') (\<lambda>n_s.
      rbind (log_at files opts ''nicbm-client-event-stream'') (\<lambda>n_c.
      rbind (log_at files opts ''ns3-event-stream'') (\<lambda>ns3.
        Inr [plan h_c 1, plan n_c 3, plan h_s 0, plan n_s 2, plan ns3 4]))))))"

section \<open>Raw logs\<close>

definition raw_options :: "string list" where
  "raw_options =
     [''gem5-log-server'', ''gem5-log-client'', ''nicbm-log-server'', ''nicbm-log-client'', ''ns3-log'']"

text \<open>Both component filters carry the server's name, and both tables are empty.\<close>

definition comp_filter :: ComponentFilter where
  "comp_filter = \<lparr>cf_identifier = ''ComponentFilter-Server'', cf_component_table = []\<rparr>"

definition type_filter :: "'l TraceEnvConfig \<Rightarrow> event_handler" where
  "type_filter c = EventTypeFilter (cfg_types_to_filter c) True"

definition func_filter :: "'l TraceEnvConfig \<Rightarrow> event_handler" where
  "func_filter c = HostCallFuncFilter True (set (cfg_blacklist_func_indicator c))"

text \<open>The parsers draw their identifiers in the order in which they are made.\<close>

definition server_host_pipeline ::
  "(string \<Rightarrow> bool) \<Rightarrow> 'l TraceEnvConfig \<Rightarrow> file_system \<Rightarrow> options \<Rightarrow> id_counters \<Rightarrow>
    (pipeline_plan \<times> id_counters) res"
where
  "server_host_pipeline can_open c files opts ids =
     (case GetNextParserId ids of (ident, ids') \<Rightarrow>
      rbind (log_at files opts ''gem5-log-server'') (\<lambda>log_file.
      rbind (createPrinter can_open opts ''gem5-server-events'') (\<lambda>_.
        Inr (\<lparr>pp_parser = gem5_parser comp_filter ident ''Gem5ServerParser'', pp_log = log_file,
              pp_handlers = [type_filter c, func_filter c], pp_spanner = 0\<rparr>, ids'))))"

definition client_host_pipeline ::
  "(string \<Rightarrow> bool) \<Rightarrow> 'l TraceEnvConfig \<Rightarrow> file_system \<Rightarrow> options \<Rightarrow> id_counters \<Rightarrow>
    (pipeline_plan \<times> id_counters) res"
where
  "client_host_pipeline can_open c files opts ids =
     (case GetNextParserId ids of (ident, ids') \<Rightarrow>
      rbind (log_at files opts ''gem5-log-client'') (\<lambda>log_file.
      rbind (createPrinter can_open opts ''gem5-client-events'') (\<lambda>_.
        Inr (\<lparr>pp_parser = gem5_parser comp_filter ident ''Gem5ClientParser'', pp_log = log_file,
              pp_handlers = [type_filter c, func_filter c], pp_spanner = 1\<rparr>, ids'))))"

definition server_nic_pipeline ::
  "(string \<Rightarrow> bool) \<Rightarrow> 'l TraceEnvConfig \<Rightarrow> file_system \<Rightarrow> options \<Rightarrow> id_counters \<Rightarrow>
    (pipeline_plan \<times> id_counters) res"
where
  "server_nic_pipeline can_open c files opts ids =
     (case GetNextParserId ids of (ident, ids') \<Rightarrow>
      rbind (log_at files opts ''nicbm-log-server'') (\<lambda>log_file.
      rbind (createPrinter can_open opts ''nicbm-server-events'') (\<lambda>_.
        Inr (\<lparr>pp_parser = lift_parser (NicBm_ParseEvent ident ''NicbmServerParser''), pp_log = log_file,
              pp_handlers = [type_filter c], pp_spanner = 2\<rparr>, ids'))))"

definition client_nic_pipeline ::
  "(string \<Rightarrow> bool) \<Rightarrow> 'l TraceEnvConfig \<Rightarrow> file_system \<Rightarrow> options \<Rightarrow> id_counters \<Rightarrow>
    (pipeline_plan \<times> id_counters) res"
where
  "client_nic_pipeline can_open c files opts ids =
     (case GetNextParserId ids of (ident, ids') \<Rightarrow>
      rbind (log_at files opts ''nicbm-log-client'') (\<lambda>log_file.
      rbind (createPrinter can_open opts ''nicbm-client-events'') (\<lambda>_.
        Inr (\<lparr>pp_parser = lift_parser (NicBm_ParseEvent ident ''NicbmClientParser''), pp_log = log_file,
              pp_handlers = [type_filter c], pp_spanner = 3\<rparr>, ids'))))"

definition ns3_pipeline ::
  "(string \<Rightarrow> bool) \<Rightarrow> 'l TraceEnvConfig \<Rightarrow> file_system \<Rightarrow> options \<Rightarrow> id_counters \<Rightarrow>
    (pipeline_plan \<times> id_counters) res"
where
  "ns3_pipeline can_open c files opts ids =
     (case GetNextParserId ids of (ident, ids') \<Rightarrow>
      rbind (log_at files opts ''ns3-log'') (\<lambda>log_file.
      rbind (createPrinter can_open opts ''ns3-events'') (\<lambda>_.
        Inr (\<lparr>pp_parser = lift_parser (NS3_ParseEvent ident ''NS3Parser''), pp_log = log_file,
              pp_handlers = [type_filter c, NS3EventFilter run_node_device_filter], pp_spanner = 4\<rparr>, ids'))))"

definition raw_plans ::
  "(string \<Rightarrow> bool) \<Rightarrow> 'l TraceEnvConfig \<Rightarrow> file_system \<Rightarrow> options \<Rightarrow> pipeline_plan list res"
where
  "raw_plans can_open c files opts =
     rbind (server_host_pipeline can_open c files opts id_counters_init) (\<lambda>(server_host, ids1).
     rbind (client_host_pipeline can_open c files opts ids1) (\<lambda>(client_host, ids2).
     rbind (server_nic_pipeline can_open c files opts ids2) (\<lambda>(server_nic, ids3).
     rbind (client_nic_pipeline can_open c files opts ids3) (\<lambda>(client_nic, ids4).
     rbind (ns3_pipeline can_open c files opts ids4) (\<lambda>(ns3, ids5).
       Inr [client_host, server_host, client_nic, server_nic, ns3])))))"

lemmas raw_pipelines = server_host_pipeline_def client_host_pipeline_def server_nic_pipeline_def
  client_nic_pipeline_def ns3_pipeline_def

definition main_plans ::
  "(string \<Rightarrow> bool) \<Rightarrow> 'l TraceEnvConfig \<Rightarrow> file_system \<Rightarrow> options \<Rightarrow> pipeline_plan list res"
where
  "main_plans can_open c files opts =
     (if stream_mode opts then stream_plans files opts
      else
        rbind (throw_on (\<not> list_all (opt_count opts) raw_options) ''could not parse cmd arguments'')
          (\<lambda>_. raw_plans can_open c files opts))"

section \<open>The program before its pipelines run\<close>

definition main_start ::
  "'l level_names \<Rightarrow> 'n yaml \<Rightarrow> file_system \<Rightarrow> (string \<Rightarrow> bool) \<Rightarrow> options \<Rightarrow> 'x \<Rightarrow>
    ('l TraceEnvConfig \<times> EnvState \<times> pipeline_plan list \<times> 'x run_pipeline list \<times> 'x store) res"
where
  "main_start sp y files can_open opts exporter =
     rbind (throw_on (\<not> opt_count opts ''trace-env-config'') ''no trace environment config given'') (\<lambda>_.
     rbind (CreateFromYaml sp y (opt_string opts ''trace-env-config'')) (\<lambda>c.
     rbind (TraceEnvironment_new files c) (\<lambda>e.
     rbind (columbo_setup exporter) (\<lambda>store.
     rbind (main_plans can_open c files opts) (\<lambda>plans.
       Inr (c, e, plans,
            RunPipelinesImpl (unat (cfg_event_buffer_size c))
              (te_symbol_tables e, te_internalizer e) store plans))))))"

section \<open>What each spanner is to receive\<close>

definition raw_parsers :: "symbol_env event_parser list" where
  "raw_parsers =
     [gem5_parser comp_filter 1 ''Gem5ServerParser'', gem5_parser comp_filter 2 ''Gem5ClientParser'',
      lift_parser (NicBm_ParseEvent 3 ''NicbmServerParser''),
      lift_parser (NicBm_ParseEvent 4 ''NicbmClientParser''),
      lift_parser (NS3_ParseEvent 5 ''NS3Parser'')]"

text \<open>
  In the raw mode the timestamp bounds play no part; a host sees no call of a blacklisted
  function, and the network spanner the packets at the devices of the two hosts.
\<close>

definition raw_wanted :: "'l TraceEnvConfig \<Rightarrow> nat \<Rightarrow> event \<Rightarrow> bool" where
  "raw_wanted c j e =
     (GetType e \<notin> cfg_types_to_filter c \<and>
      (j < 2 \<longrightarrow> GetCallFunc (Some e) \<notin> Some ` set (cfg_blacklist_func_indicator c)) \<and>
      (j = 4 \<longrightarrow> accepts (NS3EventFilter ({0, 1} \<times> {1, 2})) e))"

definition main_events ::
  "'l TraceEnvConfig \<Rightarrow> file_system \<Rightarrow> options \<Rightarrow> symbol_env \<Rightarrow> nat \<Rightarrow> event list"
where
  "main_events c files opts st j =
     (if stream_mode opts
      then filter (\<lambda>e. GetTs e \<in> {bound_option opts ''ts-lower-bound'' 0 .. bound_option opts ''ts-upper-bound'' u64_max})
             (log_events stream_event_parser (the (files (opt_string opts (stream_options ! j)))) st)
      else filter (raw_wanted c j)
             (log_events (raw_parsers ! j) (the (files (opt_string opts (raw_options ! j)))) st))"

lemma type_filter_accepts: "accepts (type_filter c) e \<longleftrightarrow> GetType e \<notin> cfg_types_to_filter c"
  by (simp add: type_filter_def)

lemma func_filter_accepts:
  "accepts (func_filter c) e \<longleftrightarrow> GetCallFunc (Some e) \<notin> Some ` set (cfg_blacklist_func_indicator c)"
  by (cases "GetType e = kHostCallT") (auto simp: func_filter_def split: option.splits)

lemma run_filter: "run_node_device_filter = {0, 1} \<times> {1, 2}"
  by (auto simp: run_node_device_filter_def AddNodeDevice_def)

lemma parser_ids:
  "GetNextParserId id_counters_init = (1, id_counters_init\<lparr>next_parser_id := 2\<rparr>)"
  "GetNextParserId (id_counters_init\<lparr>next_parser_id := k\<rparr>) = (k, id_counters_init\<lparr>next_parser_id := k + 1\<rparr>)"
  by (simp_all add: GetNextParserId_def id_counters_init_def)

text \<open>Each plan delivers the events of its spanner.\<close>

definition plan_for ::
  "'l TraceEnvConfig \<Rightarrow> file_system \<Rightarrow> options \<Rightarrow> symbol_env \<Rightarrow> pipeline_plan \<Rightarrow> bool"
where
  "plan_for c files opts st p =
     (pp_spanner p < 5 \<and> plan_events st p = main_events c files opts st (pp_spanner p))"

lemma five: "j < (5 :: nat) \<longleftrightarrow> j \<in> {0, 1, 2, 3, 4}"
  by auto

lemma stream_plans_for:
  assumes "stream_plans files opts = Inr plans" and "stream_mode opts"
  shows "list_all (plan_for c files opts st) plans" and "map pp_spanner plans = [1, 3, 0, 2, 4]"
    and "\<forall>p \<in> set plans. pp_parser p = stream_event_parser"
proof -
  have keep: "filter (\<lambda>e. list_all (\<lambda>h. accepts h e) [EventTimestampFilter (timestamp_bounds opts)]) es =
      filter (\<lambda>e. GetTs e \<in> {bound_option opts ''ts-lower-bound'' 0 .. bound_option opts ''ts-upper-bound'' u64_max}) es" for es
    by (simp add: timestamp_bounds_def Let_def kMinLowerBound_def kMaxUpperBound_def)
  show "list_all (plan_for c files opts st) plans" "map pp_spanner plans = [1, 3, 0, 2, 4]"
    "\<forall>p \<in> set plans. pp_parser p = stream_event_parser"
    using assms keep
    by (auto simp: stream_plans_def Let_def rbind_eq_Inr log_at_def plan_for_def plan_events_def main_events_def
        stream_options_def)
qed

lemma raw_plans_for:
  assumes "raw_plans can_open c files opts = Inr plans" and "\<not> stream_mode opts"
  shows "list_all (plan_for c files opts st) plans" and "map pp_spanner plans = [1, 0, 3, 2, 4]"
    and "\<forall>p \<in> set plans. pp_parser p \<in> set raw_parsers"
  using assms
  by (auto simp: raw_plans_def raw_pipelines parser_ids rbind_eq_Inr log_at_def plan_for_def plan_events_def main_events_def
      raw_options_def raw_parsers_def raw_wanted_def type_filter_accepts func_filter_accepts run_filter
      conj_commute simp del: accepts.simps intro!: filter_cong)

section \<open>Running it\<close>

lemma stream_event_log_parser: "log_parser stream_event_parser (\<lambda>_. True)"
proof
  fix st :: symbol_env and s
  obtain tables i where st: "st = (tables, i)" by (cases st)
  obtain e n i' where "\<forall>pre post. ParseStreamEvent (line pre s post) i =
      Inr (e, line (pre @ take n s) (drop n s) post, i')"
    using ParseStreamEvent_on_text[of s i] by blast
  then show "\<exists>e n st'. True \<and> (\<forall>pre post. stream_event_parser (line pre s post) st =
      Inr (e, line (pre @ take n s) (drop n s) post, st'))"
    by (auto simp: st stream_event_parser_def)
qed

lemma raw_log_parsers:
  assumes "q \<in> set raw_parsers" and "symbols_ok st"
  shows "\<exists>ready. log_parser q ready \<and> ready st"
proof -
  have any: "\<exists>ready. log_parser q ready \<and> ready st" if "log_parser q (\<lambda>_. True)" for q :: "symbol_env event_parser"
    using that by blast
  have gem5: "\<exists>ready. log_parser (gem5_parser f i n) ready \<and> ready st" for f i n
    using gem5_log.log_parser_axioms assms(2) by blast
  show ?thesis
    using assms(1) any[OF nicbm_parser.log_parser_axioms] any[OF ns3_parser.log_parser_axioms] gem5
    by (auto simp: raw_parsers_def)
qed

lemma main_plans_ok:
  assumes "main_plans can_open c files opts = Inr plans" and "symbols_ok st"
    and "list_all (\<lambda>p. readable_log (pp_log p)) plans"
  shows "list_all (plan_ok st) plans" and "list_all (plan_for c files opts st) plans"
    and "distinct (map pp_spanner plans)" and "set (map pp_spanner plans) = {..<5}"
proof -
  have five: "{..<5 :: nat} = {0, 1, 2, 3, 4}" by auto
  have "(\<exists>ready. log_parser (pp_parser p) ready \<and> ready st)" if "p \<in> set plans" for p
  proof (cases "stream_mode opts")
    case True
    then show ?thesis
      using stream_plans_for(3)[of files opts plans] assms(1) stream_event_log_parser that
      by (auto simp: main_plans_def)
  next
    case False
    then have "pp_parser p \<in> set raw_parsers"
      using raw_plans_for(3)[of can_open c files opts plans] assms(1) that
      by (auto simp: main_plans_def rbind_eq_Inr)
    then show ?thesis by (rule raw_log_parsers[OF _ assms(2)])
  qed
  then show "list_all (plan_ok st) plans" using assms(3) by (simp add: list_all_iff plan_ok_def)
  have m: "list_all (plan_for c files opts st) plans \<and>
      (map pp_spanner plans = [1, 3, 0, 2, 4] \<or> map pp_spanner plans = [1, 0, 3, 2, 4])"
    using stream_plans_for(1)[of files opts plans c st] stream_plans_for(2)[of files opts plans]
      raw_plans_for(1)[of can_open c files opts plans st] raw_plans_for(2)[of can_open c files opts plans] assms(1)
    by (cases "stream_mode opts") (auto simp: main_plans_def rbind_eq_Inr)
  then show "list_all (plan_for c files opts st) plans" by blast
  show "distinct (map pp_spanner plans)" using m by auto
  show "set (map pp_spanner plans) = {..<5}" using m by (auto simp: five)
qed

lemma main_started:
  assumes "main_start sp y files can_open opts x = Inr (c, e, plans, prog)"
    and "\<forall>t \<in> set (cfg_symbol_tables c). dump_ok files t"
    and "list_all (\<lambda>p. readable_log (pp_log p)) plans"
  defines "st \<equiv> (te_symbol_tables e, te_internalizer e)" and "n \<equiv> unat (cfg_event_buffer_size c)"
  shows "env_view e = config_view c" and "symbols_ok st" and "n > 0"
    and "list_all (plan_ok st) plans" and "list_all (plan_for c files opts st) plans"
    and "distinct (map pp_spanner plans)" and "set (map pp_spanner plans) = {..<5}"
    and "\<exists>store. columbo_setup x = Inr store \<and> prog = RunPipelinesImpl n st store plans"
proof -
  have r: "CreateFromYaml sp y (opt_string opts ''trace-env-config'') = Inr c"
      "TraceEnvironment_new files c = Inr e" "main_plans can_open c files opts = Inr plans"
    and begun: "\<exists>store. columbo_setup x = Inr store \<and> prog = RunPipelinesImpl n st store plans"
    using assms(1) by (auto simp: main_start_def rbind_eq_Inr st_def n_def)
  have c: "config_ok c" using CreateFromYaml_created[OF r(1)] by simp
  then have sets: "list_all is_set (indicator_lists c)" by (simp add: config_ok_def)
  have env: "env_view e = config_view c" "symbols_ok st"
    using TraceEnvironment_new_ok[OF sets assms(2)] r(2) by (auto simp: st_def)
  show "env_view e = config_view c" "symbols_ok st" by (rule env)+
  show "n > 0" using c by (simp add: config_ok_def n_def unat_gt_0)
  show "list_all (plan_ok st) plans" "list_all (plan_for c files opts st) plans"
    "distinct (map pp_spanner plans)" "set (map pp_spanner plans) = {..<5}"
    by (rule main_plans_ok[OF r(3) env(2) assms(3)])+
  show "\<exists>store. columbo_setup x = Inr store \<and> prog = RunPipelinesImpl n st store plans" by (rule begun)
qed

lemma columbo_setup_spanners: "columbo_setup x = Inr store \<Longrightarrow> length (fst store) = 5"
  by (auto simp: setup_defs)

section \<open>A concrete program\<close>

text \<open>Raw logs, all empty but the one of the server's NIC, which has one line.\<close>

definition demo_options :: options where
  "demo_options =
     \<lparr>opt_count = (\<lambda>key. key \<in> set (''trace-env-config'' # raw_options)),
      opt_string = (\<lambda>key. if key = ''nicbm-log-server'' then ''nic.log'' else ''empty.log'')\<rparr>"

definition demo_logs :: file_system where
  "demo_logs = demo_files(''nic.log'' \<mapsto> sample_log, ''empty.log'' \<mapsto> [])"

lemma no_log: "readable_log []" "log_events parse [] st = []"
  by (simp_all add: readable_log_def lines_fit.simps log_events_def text_lines.simps next_line_def unblank_def)

lemma demo_mode: "\<not> stream_mode demo_options" "list_all (opt_count demo_options) raw_options"
  by (simp_all add: stream_mode_def stream_options_def demo_options_def raw_options_def)

lemma demo_plans:
  "\<exists>plans. main_plans (\<lambda>_. True) c demo_logs demo_options = Inr plans \<and>
     list_all (\<lambda>p. readable_log (pp_log p)) plans"
proof -
  have raw: "main_plans (\<lambda>_. True) c demo_logs demo_options = raw_plans (\<lambda>_. True) c demo_logs demo_options"
    by (simp add: main_plans_def demo_mode)
  have "\<exists>plans. raw_plans (\<lambda>_. True) c demo_logs demo_options = Inr plans \<and>
     list_all (\<lambda>p. readable_log (pp_log p)) plans"
    by (simp add: raw_plans_def raw_pipelines parser_ids log_at_def createPrinter_def throw_if_empty_def sample_log_ok(1)
        no_log(1) demo_options_def demo_logs_def raw_options_def)
  then show ?thesis unfolding raw .
qed

lemma demo_events:
  assumes "cfg_types_to_filter c = {kHostInstrT}" and "j < 5"
  shows "main_events c demo_logs demo_options st j =
    (if j = 2 then [SimSendSync (log_base 3 ''NicbmServerParser'' 5)] else [])"
proof -
  have nic: "log_events (lift_parser (NicBm_ParseEvent 3 ''NicbmServerParser'')) sample_log st =
      [SimSendSync (log_base 3 ''NicbmServerParser'' 5)]"
    by (simp add: log_events_def sample_log_ok sample_line_event)
  have log: "raw_options ! 2 = ''nicbm-log-server''" "raw_parsers ! 2 = lift_parser (NicBm_ParseEvent 3 ''NicbmServerParser'')"
    by (simp_all add: raw_options_def raw_parsers_def)
  have none: "raw_options ! j \<noteq> ''nicbm-log-server''" if "j \<noteq> 2"
    using assms(2) that unfolding five by (auto simp: raw_options_def)
  have files: "demo_logs (opt_string demo_options key) = Some (if key = ''nicbm-log-server'' then sample_log else [])" for key
    by (simp add: demo_logs_def demo_options_def)
  have keep: "raw_wanted c 2 (SimSendSync b)" for b
    by (simp add: raw_wanted_def assms(1))
  show ?thesis by (cases "j = 2") (simp_all add: main_events_def demo_mode files log none nic no_log keep)
qed

lemma demo_main:
  "\<exists>c e plans prog. main_start demo_levels (demo_yaml demo_root) demo_logs (\<lambda>_. True) demo_options () =
       Inr (c, e, plans, prog) \<and>
     (\<forall>t \<in> set (cfg_symbol_tables c). dump_ok demo_logs t) \<and>
     list_all (\<lambda>p. readable_log (pp_log p)) plans \<and> cfg_types_to_filter c = {kHostInstrT}"
proof -
  obtain c where c: "CreateFromYaml demo_levels (demo_yaml demo_root) ''config.yaml'' = Inr c"
      "cfg_types_to_filter c = {kHostInstrT}"
      "cfg_symbol_tables c = [\<lparr>stc_identifier = ''linux'', stc_path = ''linux.dump'',
         stc_address_offset = 5, stc_filter_type = kS\<rparr>]"
    using demo_created by blast
  have ok: "\<forall>t \<in> set (cfg_symbol_tables c). dump_ok demo_logs t"
    using sample_dump_lines by (simp add: c(3) dump_ok_def demo_logs_def demo_files_def)
  have sets: "list_all is_set (indicator_lists c)"
    using CreateFromYaml_created[OF c(1)] by (simp add: config_ok_def)
  obtain e where e: "TraceEnvironment_new demo_logs c = Inr e"
    using TraceEnvironment_new_ok[OF sets ok] by blast
  obtain store where store: "columbo_setup () = Inr store" using columbo_setup_Inr[of "()"] by blast
  obtain plans where plans: "main_plans (\<lambda>_. True) c demo_logs demo_options = Inr plans"
      "list_all (\<lambda>p. readable_log (pp_log p)) plans"
    using demo_plans by blast
  have path: "CreateFromYaml demo_levels (demo_yaml demo_root) (opt_string demo_options ''trace-env-config'') = Inr c"
    using c(1) by (simp add: CreateFromYaml_def demo_yaml_def)
  have opt: "opt_count demo_options ''trace-env-config''" by (simp add: demo_options_def)
  show ?thesis
    using ok plans(2) c(2)
    by (cases "RunPipelinesImpl (unat (cfg_event_buffer_size c)) (te_symbol_tables e, te_internalizer e) store plans")
       (simp add: main_start_def opt path e store plans(1))
qed

lemma unhandled_sync: "\<exists>st'. spanner_consume env xp (Some (SimSendSync b)) st = Inr st'"
  by (cases "(env, xp, Some (SimSendSync b), st)" rule: spanner_consume.cases)
     (simp_all add: Host_consume_def Nic_consume_def Net_consume_def host_handlers_def nic_handlers_def
        net_handlers_def RegisterHandler_def Spanner_consume_def)

lemma demo_finishes:
  assumes "main_start demo_levels (demo_yaml demo_root) demo_logs (\<lambda>_. True) demo_options () =
       Inr (c, e, plans, prog)"
    and "\<forall>t \<in> set (cfg_symbol_tables c). dump_ok demo_logs t"
    and "list_all (\<lambda>p. readable_log (pp_log p)) plans" and "cfg_types_to_filter c = {kHostInstrT}"
  shows "\<exists>sched ps store. run_program (env_view e) noop_ExportSpan plans sched prog = Inr (ps, store) \<and>
    program_done ps"
proof -
  note m = main_started[OF assms(1-3)]
  let ?st = "(te_symbol_tables e, te_internalizer e)"
  obtain store0 where s0: "prog = RunPipelinesImpl (unat (cfg_event_buffer_size c)) ?st store0 plans"
    using m(8) by blast
  have fed: "all_fed ?st [] plans (fst prog)" unfolding s0 by (rule all_fed_start[OF m(4,3)])
  have "\<exists>store'. consume_at (env_view e) noop_ExportSpan (pp_spanner p) ev store = Inr store'"
    if p: "p \<in> set plans" and ev: "ev \<in> set (plan_events ?st p)" for p ev store
  proof -
    have "pp_spanner p < 5" "plan_events ?st p = main_events c demo_logs demo_options ?st (pp_spanner p)"
      using m(5) p by (auto simp: list_all_iff plan_for_def)
    then obtain b where "ev = SimSendSync b"
      using ev demo_events[OF assms(4)] by (auto split: if_splits)
    then show ?thesis
      using unhandled_sync[of "env_view e" noop_ExportSpan b "(fst store ! pp_spanner p, snd store)"]
      by (auto simp: consume_at_def split_beta)
  qed
  from all_fed_finish[OF fed m(6) this] show ?thesis by (cases prog) auto
qed

text \<open>
  C3. The whole program refines the run of the spanners: whatever the schedule of the tasks
  of its five pipelines, what it has done to the spanners and the tracer is the effect of
  one interleaving of events in which each spanner has seen, in order and without loss or
  duplicate, a prefix of the events of its own log that pass its filters, and all of them
  when the pipelines are done; so, as long as the span ids last, it is a state of a run.
\<close>

theorem main_refines_run:
  assumes "main_start sp y files can_open opts x = Inr (c, e, plans, prog)"
    and "\<forall>t \<in> set (cfg_symbol_tables c). dump_ok files t"
    and "list_all (\<lambda>p. readable_log (pp_log p)) plans"
    and "run_program (env_view e) xp plans sched prog = Inr (ps, store)"
  shows "\<exists>tr store0. columbo_setup x = Inr store0 \<and>
    run_events (config_view c) xp tr store0 = Inr store \<and> fst ` set tr \<subseteq> {..<5} \<and>
    (\<forall>j < 5. prefix (seen_by j tr) (main_events c files opts (te_symbol_tables e, te_internalizer e) j) \<and>
       (program_done ps \<longrightarrow>
          seen_by j tr = main_events c files opts (te_symbol_tables e, te_internalizer e) j)) \<and>
    (ids_suffice (config_view c) xp tr store0 \<longrightarrow> columbo_run (config_view c) xp x store)"
proof -
  note m = main_started[OF assms(1-3)]
  let ?st = "(te_symbol_tables e, te_internalizer e)"
  obtain store0 where s0: "columbo_setup x = Inr store0"
      "prog = RunPipelinesImpl (unat (cfg_event_buffer_size c)) ?st store0 plans"
    using m(8) by blast
  obtain tr where tr: "run_events (config_view c) xp tr store0 = Inr store" "fst ` set tr \<subseteq> pp_spanner ` set plans"
      "\<forall>p \<in> set plans. prefix (seen_by (pp_spanner p) tr) (plan_events ?st p) \<and>
         (program_done ps \<longrightarrow> seen_by (pp_spanner p) tr = plan_events ?st p)"
    using program_feeds[OF m(4,3,6) assms(4)[unfolded s0(2)]] m(1) by auto
  have all: "pp_spanner ` set plans = {..<5}" using m(7) by simp
  have each: "prefix (seen_by j tr) (main_events c files opts ?st j) \<and>
      (program_done ps \<longrightarrow> seen_by j tr = main_events c files opts ?st j)" if "j < 5" for j
  proof -
    have "j \<in> pp_spanner ` set plans" using that all by simp
    then obtain p where "p \<in> set plans" "pp_spanner p = j" by blast
    then show ?thesis using tr(3) m(5) by (auto simp: list_all_iff plan_for_def)
  qed
  have "columbo_run (config_view c) xp x store" if "ids_suffice (config_view c) xp tr store0"
    by (rule run_events_is_run[OF run_setup[OF s0(1)] tr(1) that])
       (use tr(2) all columbo_setup_spanners[OF s0(1)] in simp)
  then show ?thesis using s0(1) tr(1,2) all each by auto
qed

theorem main_refines_run_witness:
  "\<exists>c e plans prog sched ps store tr store0.
     main_start demo_levels (demo_yaml demo_root) demo_logs (\<lambda>_. True) demo_options () = Inr (c, e, plans, prog) \<and>
     run_program (env_view e) noop_ExportSpan plans sched prog = Inr (ps, store) \<and> program_done ps \<and>
     run_events (config_view c) noop_ExportSpan tr store0 = Inr store \<and>
     seen_by 2 tr = [SimSendSync (log_base 3 ''NicbmServerParser'' 5)] \<and> seen_by 4 tr = []"
proof -
  obtain c e plans prog where m: "main_start demo_levels (demo_yaml demo_root) demo_logs (\<lambda>_. True) demo_options () =
       Inr (c, e, plans, prog)" "\<forall>t \<in> set (cfg_symbol_tables c). dump_ok demo_logs t"
      "list_all (\<lambda>p. readable_log (pp_log p)) plans" "cfg_types_to_filter c = {kHostInstrT}"
    using demo_main by blast
  obtain sched ps store where run: "run_program (env_view e) noop_ExportSpan plans sched prog = Inr (ps, store)"
      "program_done ps"
    using demo_finishes[OF m] by blast
  obtain tr store0 where tr: "run_events (config_view c) noop_ExportSpan tr store0 = Inr store"
      "\<forall>j < 5. seen_by j tr = main_events c demo_logs demo_options (te_symbol_tables e, te_internalizer e) j"
    using main_refines_run[OF m(1-3) run(1)] run(2) by blast
  have "seen_by 2 tr = [SimSendSync (log_base 3 ''NicbmServerParser'' 5)]" "seen_by 4 tr = []"
    using tr(2) demo_events[OF m(4)] by simp_all
  then show ?thesis using m(1) run tr(1) by blast
qed

text \<open>
  C4. The program stops only at a spanner: every schedule of its tasks ends after a bounded
  number of steps, and as long as not all pipelines are done some task can take a step,
  unless the spanner of some pipeline waits or fails at its next event, so only contexts
  that never come can leave the program waiting.
\<close>

theorem main_progress:
  assumes "main_start sp y files can_open opts x = Inr (c, e, plans, prog)"
    and "\<forall>t \<in> set (cfg_symbol_tables c). dump_ok files t"
    and "list_all (\<lambda>p. readable_log (pp_log p)) plans"
  shows "\<exists>bound. \<forall>sched st. run_program (env_view e) xp plans sched prog = Inr st \<longrightarrow>
    length sched \<le> bound \<and>
    (program_done (fst st) \<or> waits_at_spanner (env_view e) xp plans st \<or>
     (\<exists>kt st'. program_step (env_view e) xp plans kt st = Inr st'))"
proof -
  note m = main_started[OF assms]
  let ?st = "(te_symbol_tables e, te_internalizer e)"
  obtain store0 where s0: "prog = RunPipelinesImpl (unat (cfg_event_buffer_size c)) ?st store0 plans"
    using m(8) by blast
  have fed: "all_fed ?st [] plans (fst prog)" unfolding s0 by (rule all_fed_start[OF m(4,3)])
  have "length sched \<le> program_work plans (fst prog) \<and>
      (program_done (fst st) \<or> waits_at_spanner (env_view e) xp plans st \<or>
       (\<exists>kt st'. program_step (env_view e) xp plans kt st = Inr st'))"
    if run: "run_program (env_view e) xp plans sched prog = Inr st" for sched st
  proof -
    obtain ps store where st: "st = (ps, store)" by (cases st)
    have run': "run_program (env_view e) xp plans sched (fst prog, snd prog) = Inr (ps, store)"
      using run by (simp add: st)
    obtain tr where "all_fed ?st tr plans ps" using run_program_feeds[OF fed m(6) run'] by auto
    from all_fed_runs[OF this, of "env_view e" xp store] run_program_work[OF fed m(6) run']
    show ?thesis unfolding st fst_conv by fastforce
  qed
  then show ?thesis by blast
qed

theorem main_progress_witness:
  "\<exists>c e plans prog bound.
     main_start demo_levels (demo_yaml demo_root) demo_logs (\<lambda>_. True) demo_options () = Inr (c, e, plans, prog) \<and>
     \<not> program_done (fst prog) \<and>
     (\<forall>sched st. run_program (env_view e) noop_ExportSpan plans sched prog = Inr st \<longrightarrow>
        length sched \<le> bound \<and>
        (program_done (fst st) \<or> waits_at_spanner (env_view e) noop_ExportSpan plans st \<or>
         (\<exists>kt st'. program_step (env_view e) noop_ExportSpan plans kt st = Inr st')))"
proof -
  obtain c e plans prog where m: "main_start demo_levels (demo_yaml demo_root) demo_logs (\<lambda>_. True) demo_options () =
       Inr (c, e, plans, prog)" "\<forall>t \<in> set (cfg_symbol_tables c). dump_ok demo_logs t"
      "list_all (\<lambda>p. readable_log (pp_log p)) plans"
    using demo_main by blast
  note started = main_started[OF m]
  have "0 \<in> set (map pp_spanner plans)" unfolding started(7) by simp
  then have "plans \<noteq> []" by auto
  then have "\<not> program_done (fst prog)"
    using started(8) by (auto simp: program_done_def RunPipelinesImpl_def neq_Nil_conv
        plan_pipeline_def log_pipeline_def RunPipelineImpl_def)
  then show ?thesis using m(1) main_progress[OF m, of noop_ExportSpan] by blast
qed

end
