(* ===== verification/Monitor.thy ===== *)
theory Monitor
  imports ChannelSpec
begin

text \<open>
  Objects whose methods are critical sections under one lock, with one condition variable:
  the channels of include/sync/channel.h, under an asynchronous lock (\<open>async_lock\<close>,
  \<open>async_condition_variable\<close>) or a mutex. Other theories take each method as one atomic
  operation; here a call is the steps it consists of - take the lock, test the condition,
  wait, run the body, release the lock, notify - and the locale \<open>monitor_object\<close> shows what
  the atomic view rests on: a run has the effect of its bodies, one after the other, and no
  caller sleeps while its condition holds.
\<close>

section \<open>Critical sections and their callers\<close>

text \<open>
  The condition a method waits for, and its body: the result, whether it calls
  \<open>notify_all\<close> after it has released the lock, and the new state.
\<close>

type_synonym ('s, 'r) critical = "('s \<Rightarrow> bool) \<times> ('s \<Rightarrow> ('r \<times> bool \<times> 's) res)"

text \<open>
  Where a caller is: outside, in the section with the lock, asleep on the condition
  variable, woken and about to take the lock again, or before its \<open>notify_all\<close>.
\<close>

datatype 'op pc = Outside | Inside 'op | Asleep 'op | Awake 'op | Notifying

record ('op, 's, 'r) monitor =
  mo_state :: 's
  mo_holder :: "nat option"
  mo_pcs :: "'op pc list"
  mo_history :: "(nat \<times> 'op \<times> 'r) list"

text \<open>The history lists the bodies that have run, with the caller and the result.\<close>

definition results_of :: "nat \<Rightarrow> (nat \<times> 'op \<times> 'r) list \<Rightarrow> 'r list" where
  "results_of k h = map (snd \<circ> snd) (filter (\<lambda>(j, _). j = k) h)"

definition called :: "(nat \<times> 'op \<times> 'r) list \<Rightarrow> 'op list" where
  "called h = map (fst \<circ> snd) h"

definition answered :: "(nat \<times> 'op \<times> 'r) list \<Rightarrow> 'r list" where
  "answered h = map (snd \<circ> snd) h"

lemma called_snoc [simp]: "called [] = []" "called (h @ [(k, op, r)]) = called h @ [op]"
  by (simp_all add: called_def)

lemma answered_snoc [simp]: "answered [] = []" "answered (h @ [(k, op, r)]) = answered h @ [r]"
  by (simp_all add: answered_def)

text \<open>A caller chooses its next operation by the results it got so far.\<close>

type_synonym ('op, 'r) callers = "nat \<Rightarrow> 'r list \<Rightarrow> 'op option"

datatype move = Step nat | Spurious nat

definition enter :: "nat \<Rightarrow> 'op \<Rightarrow> ('op, 's, 'r) monitor \<Rightarrow> ('op, 's, 'r) monitor res" where
  "enter k op m =
     (if mo_holder m = None
      then Inr (m\<lparr>mo_holder := Some k, mo_pcs := (mo_pcs m)[k := Inside op]\<rparr>)
      else Inl Blocked)"

fun wake :: "'op pc \<Rightarrow> 'op pc" where
  "wake (Asleep op) = Awake op"
| "wake pc = pc"

definition inside ::
  "('op \<Rightarrow> ('s, 'r) critical) \<Rightarrow> nat \<Rightarrow> 'op \<Rightarrow> ('op, 's, 'r) monitor \<Rightarrow> ('op, 's, 'r) monitor res"
where
  "inside impl k op m =
     (if fst (impl op) (mo_state m) then
        rbind (snd (impl op) (mo_state m)) (\<lambda>(r, notify, s).
          Inr (m\<lparr>mo_state := s, mo_holder := None,
                 mo_pcs := (mo_pcs m)[k := if notify then Notifying else Outside],
                 mo_history := mo_history m @ [(k, op, r)]\<rparr>))
      else Inr (m\<lparr>mo_holder := None, mo_pcs := (mo_pcs m)[k := Asleep op]\<rparr>))"

text \<open>The condition variable may wake a caller without a notification.\<close>

fun mon_step ::
  "('op \<Rightarrow> ('s, 'r) critical) \<Rightarrow> ('op, 'r) callers \<Rightarrow> move \<Rightarrow> ('op, 's, 'r) monitor \<Rightarrow>
    ('op, 's, 'r) monitor res"
where
  "mon_step impl callers (Step k) m =
     (if k < length (mo_pcs m) then
        (case mo_pcs m ! k of
           Outside \<Rightarrow>
             (case callers k (results_of k (mo_history m)) of
                None \<Rightarrow> Inl Blocked
              | Some op \<Rightarrow> enter k op m)
         | Awake op \<Rightarrow> enter k op m
         | Inside op \<Rightarrow> inside impl k op m
         | Asleep op \<Rightarrow> Inl Blocked
         | Notifying \<Rightarrow> Inr (m\<lparr>mo_pcs := (map wake (mo_pcs m))[k := Outside]\<rparr>))
      else Inl Blocked)"
| "mon_step impl callers (Spurious k) m =
     (if k < length (mo_pcs m) then
        (case mo_pcs m ! k of
           Asleep op \<Rightarrow> Inr (m\<lparr>mo_pcs := (mo_pcs m)[k := Awake op]\<rparr>)
         | _ \<Rightarrow> Inl Blocked)
      else Inl Blocked)"

fun mon_run ::
  "('op \<Rightarrow> ('s, 'r) critical) \<Rightarrow> ('op, 'r) callers \<Rightarrow> move list \<Rightarrow> ('op, 's, 'r) monitor \<Rightarrow>
    ('op, 's, 'r) monitor res"
where
  "mon_run impl callers [] m = Inr m"
| "mon_run impl callers (x # xs) m = rbind (mon_step impl callers x m) (mon_run impl callers xs)"

definition monitor_new :: "nat \<Rightarrow> 's \<Rightarrow> ('op, 's, 'r) monitor" where
  "monitor_new n s = \<lparr>mo_state = s, mo_holder = None, mo_pcs = replicate n Outside, mo_history = []\<rparr>"

text \<open>The method as one atomic operation.\<close>

definition atomic :: "('op \<Rightarrow> ('s, 'r) critical) \<Rightarrow> 'op \<Rightarrow> 's \<Rightarrow> ('r \<times> 's) res" where
  "atomic impl op s =
     (if fst (impl op) s then rbind (snd (impl op) s) (\<lambda>(r, _, s'). Inr (r, s')) else Inl Blocked)"

definition at_rest :: "('op, 'r) callers \<Rightarrow> nat \<Rightarrow> ('op, 's, 'r) monitor \<Rightarrow> bool" where
  "at_rest callers k m =
     (mo_pcs m ! k = Outside \<and> callers k (results_of k (mo_history m)) = None)"

definition asleep :: "('op \<Rightarrow> ('s, 'r) critical) \<Rightarrow> 'op set \<Rightarrow> nat \<Rightarrow> ('op, 's, 'r) monitor \<Rightarrow> bool" where
  "asleep impl ops k m =
     (\<exists>op \<in> ops. mo_pcs m ! k = Asleep op \<and> \<not> fst (impl op) (mo_state m))"

lemma run_ops_snoc:
  "run_ops step xs s = Inr (rs, s1) \<Longrightarrow> step x s1 = Inr (r, s2) \<Longrightarrow>
   run_ops step (xs @ [x]) s = Inr (rs @ [r], s2)"
  by (induction xs arbitrary: s rs) (auto simp: rbind_eq_Inr)

definition mon_ok ::
  "('op \<Rightarrow> ('s, 'r) critical) \<Rightarrow> ('s \<Rightarrow> bool) \<Rightarrow> ('op, 's, 'r) monitor \<Rightarrow> bool"
where
  "mon_ok impl I m =
     (I (mo_state m) \<and>
      (\<forall>k. mo_holder m = Some k \<longleftrightarrow> k < length (mo_pcs m) \<and> (\<exists>op. mo_pcs m ! k = Inside op)) \<and>
      (\<forall>k < length (mo_pcs m). \<forall>op. mo_pcs m ! k = Asleep op \<longrightarrow> fst (impl op) (mo_state m) \<longrightarrow>
         Notifying \<in> set (mo_pcs m)))"

lemma mon_ok_cases:
  assumes "mon_ok impl I m"
  shows "I (mo_state m)"
    and "mo_holder m = Some k \<longleftrightarrow> k < length (mo_pcs m) \<and> (\<exists>op. mo_pcs m ! k = Inside op)"
    and "k < length (mo_pcs m) \<Longrightarrow> mo_pcs m ! k = Asleep op \<Longrightarrow> fst (impl op) (mo_state m) \<Longrightarrow>
      Notifying \<in> set (mo_pcs m)"
  using assms unfolding mon_ok_def by blast+

lemma mon_step_cases:
  assumes "mon_step impl callers x m = Inr m'"
  obtains (enter) k op where "k < length (mo_pcs m)" "mo_pcs m ! k = Outside \<or> mo_pcs m ! k = Awake op"
      "enter k op m = Inr m'"
  | (inside) k op where "k < length (mo_pcs m)" "mo_pcs m ! k = Inside op" "inside impl k op m = Inr m'"
  | (notify) k where "k < length (mo_pcs m)" "mo_pcs m ! k = Notifying"
      "m' = m\<lparr>mo_pcs := (map wake (mo_pcs m))[k := Outside]\<rparr>"
  | (spurious) k op where "k < length (mo_pcs m)" "mo_pcs m ! k = Asleep op"
      "m' = m\<lparr>mo_pcs := (mo_pcs m)[k := Awake op]\<rparr>"
proof (cases x)
  case (Step k)
  then show thesis
    using assms enter[of k] inside[of k] notify[of k] by (cases "mo_pcs m ! k") (auto split: if_splits option.splits)
next
  case (Spurious k)
  then show thesis using assms spurious[of k] by (cases "mo_pcs m ! k") (auto split: if_splits)
qed

lemma mon_okI:
  assumes "I (mo_state m)"
    and "\<And>k. mo_holder m = Some k \<longleftrightarrow> k < length (mo_pcs m) \<and> (\<exists>op. mo_pcs m ! k = Inside op)"
    and "\<And>k op. k < length (mo_pcs m) \<Longrightarrow> mo_pcs m ! k = Asleep op \<Longrightarrow> fst (impl op) (mo_state m) \<Longrightarrow>
      Notifying \<in> set (mo_pcs m)"
  shows "mon_ok impl I m"
  using assms unfolding mon_ok_def by blast

section \<open>What a monitor guarantees\<close>

lemma Notifying_kept:
  assumes "Notifying \<in> set pcs" and "pcs ! k \<noteq> Notifying"
  shows "Notifying \<in> set (pcs[k := pc])"
  using assms by (auto simp: in_set_conv_nth) (metis length_list_update nth_list_update_neq)

locale monitor_object =
  fixes impl :: "'op \<Rightarrow> ('s, 'r) critical"
    and I :: "'s \<Rightarrow> bool"
  assumes body: "I s \<Longrightarrow> fst (impl op) s \<Longrightarrow> \<exists>r n s'. snd (impl op) s = Inr (r, n, s') \<and> I s'"
    and quiet: "I s \<Longrightarrow> fst (impl op) s \<Longrightarrow> snd (impl op) s = Inr (r, False, s') \<Longrightarrow>
      fst (impl op') s' \<Longrightarrow> fst (impl op') s"
begin

lemma new_ok: "I s \<Longrightarrow> mon_ok impl I (monitor_new n s)"
  by (simp add: mon_ok_def monitor_new_def)

lemma enter_ok:
  assumes "mon_ok impl I m" and "enter k op m = Inr m'" and "k < length (mo_pcs m)"
    and "mo_pcs m ! k \<noteq> Notifying"
  shows "mon_ok impl I m'" and "mo_state m' = mo_state m" and "mo_history m' = mo_history m"
    and "length (mo_pcs m') = length (mo_pcs m)"
proof -
  have m': "mo_holder m = None" "m' = m\<lparr>mo_holder := Some k, mo_pcs := (mo_pcs m)[k := Inside op]\<rparr>"
    using assms(2) by (auto simp: enter_def split: if_splits)
  note ok = mon_ok_cases[OF assms(1)]
  have "\<not> (j < length (mo_pcs m) \<and> (\<exists>op. mo_pcs m ! j = Inside op))" for j
    using ok(2)[of j] m'(1) by simp
  then have sole: "mo_holder m' = Some j \<longleftrightarrow> j < length (mo_pcs m') \<and> (\<exists>op'. mo_pcs m' ! j = Inside op')" for j
    using assms(3) by (cases "j = k") (auto simp: m'(2))
  have "Notifying \<in> set ((mo_pcs m)[k := Inside op])"
    if "j < length (mo_pcs m)" "(mo_pcs m)[k := Inside op] ! j = Asleep op'" "fst (impl op') (mo_state m)" for j op'
    using that ok(3)[of j op'] Notifying_kept[OF _ assms(4)] assms(3) by (cases "j = k") auto
  then show "mon_ok impl I m'" using ok(1) by (intro mon_okI sole) (simp_all add: m'(2))
  show "mo_state m' = mo_state m" "mo_history m' = mo_history m" "length (mo_pcs m') = length (mo_pcs m)"
    by (simp_all add: m'(2))
qed

lemma inside_ok:
  assumes "mon_ok impl I m" and "inside impl k op m = Inr m'" and "k < length (mo_pcs m)"
    and "mo_pcs m ! k = Inside op"
  shows "mon_ok impl I m'" and "length (mo_pcs m') = length (mo_pcs m)"
proof -
  note ok = mon_ok_cases[OF assms(1)]
  have holder: "mo_holder m = Some k" using ok(2) assms(3,4) by blast
  have other: "\<not> (\<exists>op. mo_pcs m ! j = Inside op)" if "j < length (mo_pcs m)" "j \<noteq> k" for j
    using ok(2)[of j] holder that by simp
  have free: "\<not> (j < length (mo_pcs m) \<and> (\<exists>op'. (mo_pcs m)[k := pc] ! j = Inside op'))"
    if "\<And>op'. pc \<noteq> Inside op'" for j pc
    using other that assms(3) by (cases "j = k") auto
  show "length (mo_pcs m') = length (mo_pcs m)"
    using assms(2) by (auto simp: inside_def rbind_eq_Inr split: if_splits)
  show "mon_ok impl I m'"
  proof (cases "fst (impl op) (mo_state m)")
    case True
    obtain r n s where b: "snd (impl op) (mo_state m) = Inr (r, n, s)" "I s"
      using body[OF ok(1) True] by blast
    have m': "m' = m\<lparr>mo_state := s, mo_holder := None,
        mo_pcs := (mo_pcs m)[k := if n then Notifying else Outside],
        mo_history := mo_history m @ [(k, op, r)]\<rparr>"
      using assms(2) True b(1) by (simp add: inside_def)
    have "Notifying \<in> set ((mo_pcs m)[k := if n then Notifying else Outside])"
      if j: "j < length (mo_pcs m)" "(mo_pcs m)[k := if n then Notifying else Outside] ! j = Asleep op'"
        and g: "fst (impl op') s" for j op'
    proof (cases n)
      case True
      then show ?thesis using assms(3) by (simp add: set_update_memI)
    next
      case False
      have "j \<noteq> k" using j False by auto
      then have "mo_pcs m ! j = Asleep op'" using j by simp
      moreover have "fst (impl op') (mo_state m)"
        by (rule quiet[OF ok(1) True _ g, of r]) (use b(1) False in simp)
      ultimately have "Notifying \<in> set (mo_pcs m)" using ok(3)[OF j(1)] by blast
      then show ?thesis using Notifying_kept[of "mo_pcs m" k] assms(4) by simp
    qed
    then show ?thesis using b(2) free[of "if n then Notifying else Outside"] by (auto simp: mon_ok_def m')
  next
    case False
    have m': "m' = m\<lparr>mo_holder := None, mo_pcs := (mo_pcs m)[k := Asleep op]\<rparr>"
      using assms(2) False by (simp add: inside_def)
    have "Notifying \<in> set ((mo_pcs m)[k := Asleep op])"
      if "j < length (mo_pcs m)" "(mo_pcs m)[k := Asleep op] ! j = Asleep op'" "fst (impl op') (mo_state m)" for j op'
      using that False ok(3)[of j op'] Notifying_kept[of "mo_pcs m" k] assms(3,4)
      by (cases "j = k") auto
    then show ?thesis using ok(1) free[of "Asleep op"] by (auto simp: mon_ok_def m')
  qed
qed

lemma notify_ok:
  assumes "mon_ok impl I m" and "k < length (mo_pcs m)" and "mo_pcs m ! k = Notifying"
  shows "mon_ok impl I (m\<lparr>mo_pcs := (map wake (mo_pcs m))[k := Outside]\<rparr>)"
proof -
  note ok = mon_ok_cases[OF assms(1)]
  have "(map wake (mo_pcs m))[k := Outside] ! j = Inside op \<longleftrightarrow> mo_pcs m ! j = Inside op"
    if "j < length (mo_pcs m)" for j op
    using that assms(2,3) by (cases "j = k"; cases "mo_pcs m ! j") auto
  moreover have "(map wake (mo_pcs m))[k := Outside] ! j \<noteq> Asleep op" if "j < length (mo_pcs m)" for j op
    using that assms(2) by (cases "j = k"; cases "mo_pcs m ! j") auto
  ultimately show ?thesis using ok(1,2) by (auto simp: mon_ok_def)
qed

lemma spurious_ok:
  assumes "mon_ok impl I m" and "k < length (mo_pcs m)" and "mo_pcs m ! k = Asleep op"
  shows "mon_ok impl I (m\<lparr>mo_pcs := (mo_pcs m)[k := Awake op]\<rparr>)"
proof -
  note ok = mon_ok_cases[OF assms(1)]
  have "(mo_pcs m)[k := Awake op] ! j = Inside op' \<longleftrightarrow> mo_pcs m ! j = Inside op'"
    if "j < length (mo_pcs m)" for j op'
    using that assms(2,3) by (cases "j = k") auto
  moreover have "Notifying \<in> set ((mo_pcs m)[k := Awake op])"
    if "j < length (mo_pcs m)" "(mo_pcs m)[k := Awake op] ! j = Asleep op'" "fst (impl op') (mo_state m)" for j op'
    using that ok(3)[of j op'] Notifying_kept[of "mo_pcs m" k] assms(2,3) by (cases "j = k") auto
  ultimately show ?thesis using ok(1,2) by (auto simp: mon_ok_def)
qed

lemma step_ok:
  assumes "mon_ok impl I m" and "mon_step impl callers x m = Inr m'"
  shows "mon_ok impl I m' \<and> length (mo_pcs m') = length (mo_pcs m) \<and>
      (mo_history m' = mo_history m \<and> mo_state m' = mo_state m \<or>
       (\<exists>k op r. mo_history m' = mo_history m @ [(k, op, r)] \<and>
          atomic impl op (mo_state m) = Inr (r, mo_state m')))"
  using assms(2)
proof (cases rule: mon_step_cases)
  case (enter k op)
  then have "mo_pcs m ! k \<noteq> Notifying" by auto
  then show ?thesis using enter_ok[OF assms(1) enter(3,1)] by simp
next
  case (inside k op)
  then show ?thesis
    using inside_ok[OF assms(1) inside(3,1,2)] inside(3)
    by (cases "fst (impl op) (mo_state m)") (fastforce simp: inside_def atomic_def rbind_eq_Inr)+
next
  case (notify k)
  then show ?thesis using notify_ok[OF assms(1) notify(1,2)] by simp
next
  case (spurious k op)
  then show ?thesis using spurious_ok[OF assms(1) spurious(1,2)] by simp
qed

lemma inside_runs: "mon_ok impl I m \<Longrightarrow> \<exists>m'. inside impl k op m = Inr m'"
  using body[of "mo_state m" op] mon_ok_cases(1)[of impl I m]
  by (cases "fst (impl op) (mo_state m)") (auto simp: inside_def)

text \<open>A step that is not possible waits for the lock or for a notification.\<close>

lemma step_blocked:
  assumes "mon_ok impl I m" and "mon_step impl callers x m = Inl e"
  shows "e = Blocked"
proof -
  have "inside impl k op m \<noteq> Inl e" for k op using inside_runs[OF assms(1), of k op] by auto
  then show ?thesis
    using assms(2) by (cases x) (auto simp: enter_def split: if_splits pc.splits option.splits)
qed

text \<open>A run has the effect of its bodies, one after the other.\<close>

lemma run_atomic:
  assumes "mon_ok impl I m" and "mon_run impl callers xs m = Inr m'"
    and "run_ops (atomic impl) (called (mo_history m)) s = Inr (answered (mo_history m), mo_state m)"
  shows "mon_ok impl I m' \<and> length (mo_pcs m') = length (mo_pcs m) \<and>
    run_ops (atomic impl) (called (mo_history m')) s = Inr (answered (mo_history m'), mo_state m')"
  using assms
proof (induction xs arbitrary: m)
  case (Cons x xs)
  obtain m1 where m1: "mon_step impl callers x m = Inr m1" "mon_run impl callers xs m1 = Inr m'"
    using Cons.prems(2) by (auto simp: rbind_eq_Inr)
  note st = step_ok[OF Cons.prems(1) m1(1)]
  have "run_ops (atomic impl) (called (mo_history m1)) s = Inr (answered (mo_history m1), mo_state m1)"
    using st run_ops_snoc[OF Cons.prems(3)] Cons.prems(3) by auto
  then show ?case using Cons.IH[OF _ m1(2)] st by metis
qed simp

lemma run_new:
  assumes "I s" and "mon_run impl callers xs (monitor_new n s) = Inr m"
  shows "mon_ok impl I m" and "length (mo_pcs m) = n"
    and "run_ops (atomic impl) (called (mo_history m)) s = Inr (answered (mo_history m), mo_state m)"
  using run_atomic[OF new_ok[OF assms(1)] assms(2), of s] by (simp_all add: monitor_new_def)

lemma run_blocked:
  assumes "mon_ok impl I m" and "mon_run impl callers xs m = Inl e"
  shows "e = Blocked"
  using assms
proof (induction xs arbitrary: m)
  case (Cons x xs)
  show ?case
  proof (cases "mon_step impl callers x m")
    case (Inl e')
    then show ?thesis using step_blocked[OF Cons.prems(1) Inl] Cons.prems(2) by simp
  next
    case (Inr m1)
    then show ?thesis using Cons.IH[of m1] step_ok[OF Cons.prems(1) Inr] Cons.prems(2) by simp
  qed
qed simp

text \<open>
  No wake-up is lost: when no caller can take a step, each is at rest or asleep while its
  condition is false.
\<close>

lemma stuck:
  assumes "mon_ok impl I m" and "\<forall>k m'. mon_step impl callers (Step k) m \<noteq> Inr m'" and "k < length (mo_pcs m)"
  shows "at_rest callers k m \<or> asleep impl UNIV k m"
proof -
  note ok = mon_ok_cases[OF assms(1)]
  have no: "mon_step impl callers (Step j) m \<noteq> Inr m'" for j m' using assms(2) by blast
  have out: "\<not> (\<exists>op. mo_pcs m ! j = Inside op)" if j: "j < length (mo_pcs m)" for j
  proof
    assume "\<exists>op. mo_pcs m ! j = Inside op"
    then obtain op where op: "mo_pcs m ! j = Inside op" by blast
    show False using no[of j] j op inside_runs[OF assms(1), of j op] by auto
  qed
  have free: "mo_holder m = None" using ok(2) out by (cases "mo_holder m") auto
  have quiet: "Notifying \<notin> set (mo_pcs m)"
  proof
    assume "Notifying \<in> set (mo_pcs m)"
    then obtain j where "j < length (mo_pcs m)" "mo_pcs m ! j = Notifying" by (auto simp: in_set_conv_nth)
    then show False using no[of j "m\<lparr>mo_pcs := (map wake (mo_pcs m))[j := Outside]\<rparr>"] by simp
  qed
  have lock: "\<exists>m'. enter k op m = Inr m'" for op using free by (simp add: enter_def)
  show ?thesis
  proof (cases "mo_pcs m ! k")
    case Outside
    then show ?thesis
      using no[of k] lock assms(3) by (cases "callers k (results_of k (mo_history m))") (auto simp: at_rest_def)
  next
    case (Inside op)
    then show ?thesis using out[OF assms(3)] by blast
  next
    case (Asleep op)
    then have "\<not> fst (impl op) (mo_state m)" using ok(3)[OF assms(3)] quiet by blast
    then show ?thesis using Asleep by (auto simp: asleep_def)
  next
    case (Awake op)
    then show ?thesis using no[of k] lock[of op] assms(3) by auto
  next
    case Notifying
    then show ?thesis using quiet assms(3) by (metis nth_mem)
  qed
qed

end

end
