(* ===== verification/BlockingChannel.thy ===== *)
theory BlockingChannel
  imports Monitor ChannelProps
begin

text \<open>
  The channels of include/sync/channel.h with the steps their callers take: every method of
  the bounded and of the unbounded channel as a critical section. The header has each class
  twice, under a mutex (\<open>NonCoro\<close>) and under an asynchronous lock (\<open>Coro\<close>), with the same
  fields and two copies of every method; each copy is translated from its own lines.
  (\<open>TryPush\<close> of the unbounded \<open>Coro\<close> channel also notifies before it takes the lock, which
  wakes sleepers as the condition variable itself may. \<open>WaitTillValue\<close>, which no class calls,
  changes nothing.)
\<close>

section \<open>The bounded channel under a mutex\<close>

type_synonym 'v bounded_critical = "('v CoroBoundedChannel, 'v chan_out) critical"

definition NonCoro_perform_write ::
  "'v \<Rightarrow> 'v CoroBoundedChannel \<Rightarrow> 'v CoroBoundedChannel res"
where
  "NonCoro_perform_write v c =
     rbind (assert_that (bc_size c < bc_capacity c) ''the channel should not be full here'') (\<lambda>_.
     rbind (assert_that (bc_write_index c < bc_capacity c) ''cannot write out of bound'') (\<lambda>_.
       Inr (c\<lparr>bc_buffer := (bc_buffer c)[bc_write_index c := Some v],
              bc_write_index := (bc_write_index c + 1) mod bc_capacity c,
              bc_size := bc_size c + 1\<rparr>)))"

definition NonCoro_perform_read ::
  "'v CoroBoundedChannel \<Rightarrow> ('v \<times> 'v CoroBoundedChannel) res"
where
  "NonCoro_perform_read c =
     rbind (assert_that (bc_size c > 0) ''the channel should not be empty here'') (\<lambda>_.
     rbind (assert_that (bc_read_index c < bc_capacity c) ''cannot read out of bound'') (\<lambda>_.
     rbind (slot_at (bc_read_index c) c) (\<lambda>result.
       Inr (result, c\<lparr>bc_read_index := (bc_read_index c + 1) mod bc_capacity c,
                      bc_size := bc_size c - 1\<rparr>))))"

definition NonCoro_Push :: "'v \<Rightarrow> 'v bounded_critical" where
  "NonCoro_Push v =
     (\<lambda>c. bc_closed c \<or> bc_poisened c \<or> bc_size c < bc_capacity c,
      \<lambda>c. if bc_closed c \<or> bc_poisened c then Inr (Pushed False, True, c)
          else
            rbind (assert_that (\<not> bc_closed c) ''channel should not be closed here'') (\<lambda>_.
            rbind (assert_that (\<not> bc_poisened c) ''channel should not be poisened here'') (\<lambda>_.
            rbind (NonCoro_perform_write v c) (\<lambda>c'. Inr (Pushed True, True, c')))))"

text \<open>A push that is refused leaves without a notification.\<close>

definition NonCoro_TryPush :: "'v \<Rightarrow> 'v bounded_critical" where
  "NonCoro_TryPush v =
     (\<lambda>c. True,
      \<lambda>c. if bc_closed c \<or> bc_poisened c \<or> bc_size c \<ge> bc_capacity c then Inr (Pushed False, False, c)
          else
            rbind (assert_that (\<not> bc_closed c) ''channel should not be closed here'') (\<lambda>_.
            rbind (assert_that (\<not> bc_poisened c) ''channel should not be poisened here'') (\<lambda>_.
            rbind (NonCoro_perform_write v c) (\<lambda>c'. Inr (Pushed True, True, c')))))"

definition NonCoro_Pop :: "'v bounded_critical" where
  "NonCoro_Pop =
     (\<lambda>c. bc_poisened c \<or> bc_closed c \<or> bc_size c > 0,
      \<lambda>c. if bc_poisened c then Inr (Popped None, True, c)
          else
            rbind (assert_that (\<not> bc_poisened c) ''channel should not be poisened here'') (\<lambda>_.
              if bc_size c = 0 then Inr (Popped None, True, c)
              else
                rbind (assert_that (bc_size c > 0) ''trying to read from empty channel'') (\<lambda>_.
                rbind (NonCoro_perform_read c) (\<lambda>(v, c'). Inr (Popped (Some v), True, c')))))"

definition NonCoro_TryPop :: "'v bounded_critical" where
  "NonCoro_TryPop =
     (\<lambda>c. True,
      \<lambda>c. if bc_poisened c \<or> bc_size c = 0 then Inr (Popped None, True, c)
          else rbind (NonCoro_perform_read c) (\<lambda>(v, c'). Inr (Popped (Some v), True, c')))"

text \<open>A value that does not satisfy the predicate stays, and nobody is notified.\<close>

definition NonCoro_TryPopOnTrue :: "('v \<Rightarrow> bool) \<Rightarrow> 'v bounded_critical" where
  "NonCoro_TryPopOnTrue predicate =
     (\<lambda>c. True,
      \<lambda>c. if bc_poisened c \<or> bc_size c = 0 then Inr (Popped None, True, c)
          else
            rbind (assert_that (bc_read_index c < bc_capacity c) ''cannot read out of bound'') (\<lambda>_.
            rbind (slot_at (bc_read_index c) c) (\<lambda>v.
              if \<not> predicate v then Inr (Popped None, False, c)
              else rbind (NonCoro_perform_read c) (\<lambda>(v, c'). Inr (Popped (Some v), True, c')))))"

definition NonCoro_CloseChannel :: "'v bounded_critical" where
  "NonCoro_CloseChannel = (\<lambda>c. True, \<lambda>c. Inr (Finished, True, c\<lparr>bc_closed := True\<rparr>))"

definition NonCoro_PoisenChannel :: "'v bounded_critical" where
  "NonCoro_PoisenChannel = (\<lambda>c. True, \<lambda>c. Inr (Finished, True, c\<lparr>bc_poisened := True\<rparr>))"

fun NonCoroBufferedChannel :: "'v chan_op \<Rightarrow> 'v bounded_critical" where
  "NonCoroBufferedChannel (Push v) = NonCoro_Push v"
| "NonCoroBufferedChannel (TryPush v) = NonCoro_TryPush v"
| "NonCoroBufferedChannel Pop = NonCoro_Pop"
| "NonCoroBufferedChannel TryPop = NonCoro_TryPop"
| "NonCoroBufferedChannel (TryPopOnTrue P) = NonCoro_TryPopOnTrue P"
| "NonCoroBufferedChannel CloseChannel = NonCoro_CloseChannel"
| "NonCoroBufferedChannel PoisenChannel = NonCoro_PoisenChannel"

section \<open>The bounded channel under the asynchronous lock\<close>

definition Coro_Push :: "'v \<Rightarrow> 'v bounded_critical" where
  "Coro_Push v =
     (\<lambda>c. bc_closed c \<or> bc_poisened c \<or> bc_size c < bc_capacity c,
      \<lambda>c. if bc_closed c \<or> bc_poisened c then Inr (Pushed False, True, c)
          else
            rbind (assert_that (\<not> bc_closed c) ''channel should not be closed here'') (\<lambda>_.
            rbind (assert_that (\<not> bc_poisened c) ''channel should not be poisened here'') (\<lambda>_.
            rbind (perform_write v c) (\<lambda>c'. Inr (Pushed True, True, c')))))"

text \<open>Here a refused push notifies.\<close>

definition Coro_TryPush :: "'v \<Rightarrow> 'v bounded_critical" where
  "Coro_TryPush v =
     (\<lambda>c. True,
      \<lambda>c. if bc_closed c \<or> bc_poisened c \<or> bc_size c \<ge> bc_capacity c then Inr (Pushed False, True, c)
          else
            rbind (assert_that (\<not> bc_closed c) ''channel should not be closed here'') (\<lambda>_.
            rbind (assert_that (\<not> bc_poisened c) ''channel should not be poisened here'') (\<lambda>_.
            rbind (perform_write v c) (\<lambda>c'. Inr (Pushed True, True, c')))))"

definition Coro_Pop :: "'v bounded_critical" where
  "Coro_Pop =
     (\<lambda>c. bc_poisened c \<or> bc_closed c \<or> bc_size c > 0,
      \<lambda>c. if bc_poisened c then Inr (Popped None, True, c)
          else
            rbind (assert_that (\<not> bc_poisened c) ''channel should not be poisened here'') (\<lambda>_.
              if bc_size c = 0 then Inr (Popped None, True, c)
              else
                rbind (assert_that (bc_size c > 0) ''trying to read from empty channel'') (\<lambda>_.
                rbind (perform_read c) (\<lambda>(v, c'). Inr (Popped (Some v), True, c')))))"

definition Coro_TryPop :: "'v bounded_critical" where
  "Coro_TryPop =
     (\<lambda>c. True,
      \<lambda>c. if bc_poisened c then Inr (Popped None, True, c)
          else if bc_size c = 0 then Inr (Popped None, True, c)
          else rbind (perform_read c) (\<lambda>(v, c'). Inr (Popped (Some v), True, c')))"

definition Coro_TryPopOnTrue :: "('v \<Rightarrow> bool) \<Rightarrow> 'v bounded_critical" where
  "Coro_TryPopOnTrue predicate =
     (\<lambda>c. True,
      \<lambda>c. if bc_poisened c \<or> bc_size c = 0 then Inr (Popped None, True, c)
          else
            rbind (assert_that (bc_read_index c < bc_capacity c) ''cannot read out of bound'') (\<lambda>_.
            rbind (slot_at (bc_read_index c) c) (\<lambda>v.
              if \<not> predicate v then Inr (Popped None, False, c)
              else rbind (perform_read c) (\<lambda>(v, c'). Inr (Popped (Some v), True, c')))))"

definition Coro_CloseChannel :: "'v bounded_critical" where
  "Coro_CloseChannel = (\<lambda>c. True, \<lambda>c. Inr (Finished, True, c\<lparr>bc_closed := True\<rparr>))"

definition Coro_PoisenChannel :: "'v bounded_critical" where
  "Coro_PoisenChannel = (\<lambda>c. True, \<lambda>c. Inr (Finished, True, c\<lparr>bc_poisened := True\<rparr>))"

fun CoroBounded_critical :: "'v chan_op \<Rightarrow> 'v bounded_critical" where
  "CoroBounded_critical (Push v) = Coro_Push v"
| "CoroBounded_critical (TryPush v) = Coro_TryPush v"
| "CoroBounded_critical Pop = Coro_Pop"
| "CoroBounded_critical TryPop = Coro_TryPop"
| "CoroBounded_critical (TryPopOnTrue P) = Coro_TryPopOnTrue P"
| "CoroBounded_critical CloseChannel = Coro_CloseChannel"
| "CoroBounded_critical PoisenChannel = Coro_PoisenChannel"

definition bounded_methods :: "bool \<Rightarrow> 'v chan_op \<Rightarrow> 'v bounded_critical" where
  "bounded_methods coro = (if coro then CoroBounded_critical else NonCoroBufferedChannel)"

section \<open>The unbounded channel under a mutex\<close>

type_synonym 'v unbounded_critical = "('v CoroUnBoundedChannel, 'v chan_out) critical"

definition NonCoroUnBuffered_Push :: "'v \<Rightarrow> 'v unbounded_critical" where
  "NonCoroUnBuffered_Push v =
     (\<lambda>c. True,
      \<lambda>c. if uc_closed c \<or> uc_poisened c then Inr (Pushed False, True, c)
          else
            rbind (assert_that (\<not> uc_closed c) ''channel should not be closed here'') (\<lambda>_.
            rbind (assert_that (\<not> uc_poisened c) ''channel should not be poisened here'') (\<lambda>_.
              Inr (Pushed True, True, c\<lparr>uc_buffer := uc_buffer c @ [v], uc_size := uc_size c + 1\<rparr>))))"

definition NonCoroUnBuffered_TryPush :: "'v \<Rightarrow> 'v unbounded_critical" where
  "NonCoroUnBuffered_TryPush v = NonCoroUnBuffered_Push v"

definition NonCoroUnBuffered_Pop :: "'v unbounded_critical" where
  "NonCoroUnBuffered_Pop =
     (\<lambda>c. uc_poisened c \<or> uc_closed c \<or> uc_size c > 0,
      \<lambda>c. if uc_poisened c then Inr (Popped None, True, c)
          else
            rbind (assert_that (\<not> uc_poisened c) ''channel should not be poisened here'') (\<lambda>_.
              if uc_size c = 0 then Inr (Popped None, True, c)
              else
                rbind (assert_that (uc_size c > 0) ''trying to read from empty channel'') (\<lambda>_.
                rbind (pop_front c) (\<lambda>(v, c'). Inr (Popped v, True, c')))))"

definition NonCoroUnBuffered_TryPop :: "'v unbounded_critical" where
  "NonCoroUnBuffered_TryPop =
     (\<lambda>c. True,
      \<lambda>c. if uc_poisened c \<or> uc_size c = 0 then Inr (Popped None, True, c)
          else rbind (pop_front c) (\<lambda>(v, c'). Inr (Popped v, True, c')))"

definition NonCoroUnBuffered_TryPopOnTrue :: "('v \<Rightarrow> bool) \<Rightarrow> 'v unbounded_critical" where
  "NonCoroUnBuffered_TryPopOnTrue predicate =
     (\<lambda>c. True,
      \<lambda>c. if uc_poisened c \<or> uc_size c = 0 then Inr (Popped None, True, c)
          else
            rbind (or_undefined (case uc_buffer c of [] \<Rightarrow> None | v # _ \<Rightarrow> Some v) ''buffer_.front()'')
              (\<lambda>v. if \<not> predicate v then Inr (Popped None, False, c)
                   else rbind (pop_front c) (\<lambda>(v, c'). Inr (Popped v, True, c'))))"

definition NonCoroUnBuffered_CloseChannel :: "'v unbounded_critical" where
  "NonCoroUnBuffered_CloseChannel = (\<lambda>c. True, \<lambda>c. Inr (Finished, True, c\<lparr>uc_closed := True\<rparr>))"

definition NonCoroUnBuffered_PoisenChannel :: "'v unbounded_critical" where
  "NonCoroUnBuffered_PoisenChannel = (\<lambda>c. True, \<lambda>c. Inr (Finished, True, c\<lparr>uc_poisened := True\<rparr>))"

fun NonCoroUnBufferedChannel :: "'v chan_op \<Rightarrow> 'v unbounded_critical" where
  "NonCoroUnBufferedChannel (Push v) = NonCoroUnBuffered_Push v"
| "NonCoroUnBufferedChannel (TryPush v) = NonCoroUnBuffered_TryPush v"
| "NonCoroUnBufferedChannel Pop = NonCoroUnBuffered_Pop"
| "NonCoroUnBufferedChannel TryPop = NonCoroUnBuffered_TryPop"
| "NonCoroUnBufferedChannel (TryPopOnTrue P) = NonCoroUnBuffered_TryPopOnTrue P"
| "NonCoroUnBufferedChannel CloseChannel = NonCoroUnBuffered_CloseChannel"
| "NonCoroUnBufferedChannel PoisenChannel = NonCoroUnBuffered_PoisenChannel"

section \<open>The unbounded channel under the asynchronous lock\<close>

definition CoroUnBounded_Push :: "'v \<Rightarrow> 'v unbounded_critical" where
  "CoroUnBounded_Push v =
     (\<lambda>c. True,
      \<lambda>c. if uc_closed c \<or> uc_poisened c then Inr (Pushed False, True, c)
          else
            rbind (assert_that (\<not> uc_closed c) ''channel should not be closed here'') (\<lambda>_.
            rbind (assert_that (\<not> uc_poisened c) ''channel should not be poisened here'') (\<lambda>_.
              Inr (Pushed True, True, c\<lparr>uc_buffer := uc_buffer c @ [v], uc_size := uc_size c + 1\<rparr>))))"

definition CoroUnBounded_Pop :: "'v unbounded_critical" where
  "CoroUnBounded_Pop =
     (\<lambda>c. uc_poisened c \<or> uc_closed c \<or> uc_size c > 0,
      \<lambda>c. if uc_poisened c then Inr (Popped None, True, c)
          else
            rbind (assert_that (\<not> uc_poisened c) ''channel should not be poisened here'') (\<lambda>_.
              if uc_size c = 0 then Inr (Popped None, True, c)
              else
                rbind (assert_that (uc_size c > 0) ''trying to read from empty channel'') (\<lambda>_.
                rbind (pop_front c) (\<lambda>(v, c'). Inr (Popped v, True, c')))))"

definition CoroUnBounded_TryPop :: "'v unbounded_critical" where
  "CoroUnBounded_TryPop =
     (\<lambda>c. True,
      \<lambda>c. if uc_poisened c \<or> uc_size c = 0 then Inr (Popped None, True, c)
          else rbind (pop_front c) (\<lambda>(v, c'). Inr (Popped v, True, c')))"

text \<open>The value is copied first, and handed out if the predicate holds of the copy.\<close>

definition CoroUnBounded_TryPopOnTrue :: "('v \<Rightarrow> bool) \<Rightarrow> 'v unbounded_critical" where
  "CoroUnBounded_TryPopOnTrue predicate =
     (\<lambda>c. True,
      \<lambda>c. if uc_poisened c \<or> uc_size c = 0 then Inr (Popped None, True, c)
          else
            rbind (or_undefined (case uc_buffer c of [] \<Rightarrow> None | v # _ \<Rightarrow> Some v) ''buffer_.front()'')
              (\<lambda>result.
                 if \<not> predicate result then Inr (Popped None, False, c)
                 else Inr (Popped (Some result), True,
                           c\<lparr>uc_buffer := tl (uc_buffer c), uc_size := uc_size c - 1\<rparr>)))"

definition CoroUnBounded_CloseChannel :: "'v unbounded_critical" where
  "CoroUnBounded_CloseChannel = (\<lambda>c. True, \<lambda>c. Inr (Finished, True, c\<lparr>uc_closed := True\<rparr>))"

definition CoroUnBounded_PoisenChannel :: "'v unbounded_critical" where
  "CoroUnBounded_PoisenChannel = (\<lambda>c. True, \<lambda>c. Inr (Finished, True, c\<lparr>uc_poisened := True\<rparr>))"

fun CoroUnBounded_critical :: "'v chan_op \<Rightarrow> 'v unbounded_critical" where
  "CoroUnBounded_critical (Push v) = CoroUnBounded_Push v"
| "CoroUnBounded_critical (TryPush v) = CoroUnBounded_Push v"
| "CoroUnBounded_critical Pop = CoroUnBounded_Pop"
| "CoroUnBounded_critical TryPop = CoroUnBounded_TryPop"
| "CoroUnBounded_critical (TryPopOnTrue P) = CoroUnBounded_TryPopOnTrue P"
| "CoroUnBounded_critical CloseChannel = CoroUnBounded_CloseChannel"
| "CoroUnBounded_critical PoisenChannel = CoroUnBounded_PoisenChannel"

definition unbounded_methods :: "bool \<Rightarrow> 'v chan_op \<Rightarrow> 'v unbounded_critical" where
  "unbounded_methods coro = (if coro then CoroUnBounded_critical else NonCoroUnBufferedChannel)"

section \<open>As atomic operations\<close>

lemmas bounded_method_defs = bounded_methods_def NonCoro_Push_def NonCoro_TryPush_def NonCoro_Pop_def
  NonCoro_TryPop_def NonCoro_TryPopOnTrue_def NonCoro_CloseChannel_def NonCoro_PoisenChannel_def
  Coro_Push_def Coro_TryPush_def Coro_Pop_def Coro_TryPop_def Coro_TryPopOnTrue_def
  Coro_CloseChannel_def Coro_PoisenChannel_def

lemmas unbounded_method_defs = unbounded_methods_def NonCoroUnBuffered_Push_def
  NonCoroUnBuffered_TryPush_def NonCoroUnBuffered_Pop_def NonCoroUnBuffered_TryPop_def
  NonCoroUnBuffered_TryPopOnTrue_def NonCoroUnBuffered_CloseChannel_def NonCoroUnBuffered_PoisenChannel_def
  CoroUnBounded_Push_def CoroUnBounded_Pop_def CoroUnBounded_TryPop_def CoroUnBounded_TryPopOnTrue_def
  CoroUnBounded_CloseChannel_def CoroUnBounded_PoisenChannel_def

lemmas bounded_defs = bounded_Push_def bounded_TryPush_def bounded_Pop_def bounded_TryPop_def
  bounded_TryPopOnTrue_def bounded_CloseChannel_def bounded_PoisenChannel_def

lemmas unbounded_defs = unbounded_Push_def unbounded_TryPush_def unbounded_Pop_def unbounded_TryPop_def
  unbounded_TryPopOnTrue_def unbounded_CloseChannel_def unbounded_PoisenChannel_def

lemma NonCoro_ring: "NonCoro_perform_write = perform_write" "NonCoro_perform_read = perform_read"
  by (simp_all add: fun_eq_iff NonCoro_perform_write_def perform_write_def NonCoro_perform_read_def
      perform_read_def)

lemma rbind_rbind: "rbind (rbind m f) g = rbind m (\<lambda>x. rbind (f x) g)"
  by (cases m) simp_all

lemma rbind_case: "rbind (case p of (x, y) \<Rightarrow> m x y) f = (case p of (x, y) \<Rightarrow> rbind (m x y) f)"
  by (cases p) simp

lemmas atomic_simps = atomic_def rbind_rbind rbind_case if_distrib[of "\<lambda>m. rbind m f" for f] case_prod_beta'

lemma atomic_bounded: "atomic (bounded_methods coro) x c = bounded_op x c"
  by (cases x; cases coro) (simp_all add: atomic_simps bounded_method_defs NonCoro_ring bounded_defs cong: if_cong)

lemma atomic_unbounded: "atomic (unbounded_methods coro) x c = unbounded_op x c"
  by (cases x; cases coro; cases "uc_buffer c")
     (simp_all add: atomic_simps unbounded_method_defs unbounded_defs pop_front_def cong: if_cong)

section \<open>As monitors\<close>

text \<open>
  A channel whose methods, as atomic operations, implement the abstract channel is a monitor
  if no body waits and one that does not notify changes nothing.
\<close>

lemma channel_monitor:
  assumes "fifo_channel step I view capacity" and "\<And>x c. atomic impl x c = step x c"
    and "\<And>x c. snd (impl x) c \<noteq> Inl Blocked"
    and "\<And>x c r c'. snd (impl x) c = Inr (r, False, c') \<Longrightarrow> c' = c"
  shows "monitor_object impl I"
proof
  fix s x assume s: "I s" "fst (impl x) s"
  show "\<exists>r n s'. snd (impl x) s = Inr (r, n, s') \<and> I s'"
  proof (cases "snd (impl x) s")
    case (Inl e)
    then have "step x s = Inl e" using assms(2)[of x s] s(2) by (simp add: atomic_def)
    then have "e = Blocked" using fifo_channel.step_Inl[OF assms(1) s(1)] spec_op_blocked by blast
    then show ?thesis using Inl assms(3)[of x s] by simp
  next
    case (Inr p)
    obtain r n s' where p: "p = (r, n, s')" by (cases p)
    then have "step x s = Inr (r, s')" using assms(2)[of x s] s(2) Inr by (simp add: atomic_def)
    then show ?thesis using fifo_channel.step_Inr(2)[OF assms(1) s(1)] Inr p by blast
  qed
next
  fix s x r s' and op' :: "'a chan_op"
  assume "snd (impl x) s = Inr (r, False, s')" "fst (impl op') s'"
  then show "fst (impl op') s" using assms(4) by blast
qed

lemma writes_and_reads: "perform_write v c \<noteq> Inl Blocked" "perform_read c \<noteq> Inl Blocked"
    "slot_at i c \<noteq> Inl Blocked" "pop_front u \<noteq> Inl Blocked"
  by (auto simp: perform_write_def perform_read_def slot_at_def pop_front_def rbind_eq_Inl assert_that_def
      or_undefined_def split: if_splits option.splits list.splits)

lemma bounded_never_waits: "snd (bounded_methods coro x) c \<noteq> Inl Blocked"
  by (cases x; cases coro)
     (auto simp: writes_and_reads bounded_method_defs NonCoro_ring rbind_eq_Inl assert_that_def split: if_splits)

lemma bounded_quiet: "snd (bounded_methods coro x) c = Inr (r, False, c') \<Longrightarrow> c' = c"
  by (cases x; cases coro) (auto simp: bounded_method_defs rbind_eq_Inr split: if_splits)

lemma unbounded_never_waits: "snd (unbounded_methods coro x) c \<noteq> Inl Blocked"
  by (cases x; cases coro)
     (auto simp: writes_and_reads unbounded_method_defs rbind_eq_Inl assert_that_def or_undefined_def
       split: if_splits option.splits)

lemma unbounded_quiet: "snd (unbounded_methods coro x) c = Inr (r, False, c') \<Longrightarrow> c' = c"
  by (cases x; cases coro) (auto simp: unbounded_method_defs rbind_eq_Inr split: if_splits)

interpretation bounded_mon: monitor_object "bounded_methods coro" bounded_inv for coro
  by (rule channel_monitor[OF bounded.fifo_channel_axioms atomic_bounded bounded_never_waits bounded_quiet])

interpretation unbounded_mon: monitor_object "unbounded_methods coro" unbounded_inv for coro
  by (rule channel_monitor[OF unbounded.fifo_channel_axioms atomic_unbounded unbounded_never_waits unbounded_quiet])

section \<open>The properties\<close>

lemma run_ops_cong: "(\<And>x c. f x c = g x c) \<Longrightarrow> run_ops f xs c = run_ops g xs c"
  by (induction xs arbitrary: c) (auto simp: rbind_def split: sum.splits)

text \<open>
  C16. The bounded channel is linearizable: however the steps of its callers interleave -
  taking the lock, waiting, waking up with or without a notification, notifying - the calls
  that have taken effect are a history of atomic calls in one order, with the results their
  callers got, and the channel holds what was accepted and not yet handed out; a run only
  ever stops at a step that has to wait. This holds for both classes.
\<close>

theorem bounded_channel_linearizable:
  "case mon_run (bounded_methods coro) callers moves (monitor_new n (CoroBoundedChannel_new capacity)) of
     Inl e \<Rightarrow> e = Blocked
   | Inr m \<Rightarrow>
       run_ops bounded_op (called (mo_history m)) (CoroBoundedChannel_new capacity) =
         Inr (answered (mo_history m), mo_state m) \<and>
       accepted (called (mo_history m)) (answered (mo_history m)) =
         delivered (answered (mo_history m)) @ bounded_items (mo_state m)"
proof (cases "mon_run (bounded_methods coro) callers moves (monitor_new n (CoroBoundedChannel_new capacity))")
  case (Inl e)
  then show ?thesis
    using bounded_mon.run_blocked[OF bounded_mon.new_ok[OF bounded_new(1)] Inl] by simp
next
  case (Inr m)
  have h: "run_ops bounded_op (called (mo_history m)) (CoroBoundedChannel_new capacity) =
      Inr (answered (mo_history m), mo_state m)"
    using bounded_mon.run_new(3)[OF bounded_new(1) Inr]
    by (simp add: run_ops_cong[of "atomic (bounded_methods coro)" bounded_op, OF atomic_bounded])
  show ?thesis using bounded.history[OF bounded_new(1) h] h Inr by (simp add: bounded_new)
qed

text \<open>
  C17. No wake-up is lost: when no caller of a bounded channel can take a step, each has no
  further call to make or sleeps for a reason: either all sleepers wait to push into a full
  channel, or all wait to pop from an empty one, and the channel is neither closed nor
  poisened if there is a sleeper. So producers and consumers never wait for each other, and
  closing the channel ends every wait.
\<close>

theorem bounded_channel_wakes:
  assumes "mon_run (bounded_methods coro) callers moves (monitor_new n (CoroBoundedChannel_new capacity)) = Inr m"
    and "\<forall>k m'. mon_step (bounded_methods coro) callers (Step k) m \<noteq> Inr m'" and "capacity > 0"
  shows "(\<forall>k < n. at_rest callers k m) \<or>
    \<not> bc_closed (mo_state m) \<and> \<not> bc_poisened (mo_state m) \<and>
    (bc_size (mo_state m) = capacity \<and>
       (\<forall>k < n. at_rest callers k m \<or> asleep (bounded_methods coro) (range Push) k m) \<or>
     bc_size (mo_state m) = 0 \<and>
       (\<forall>k < n. at_rest callers k m \<or> asleep (bounded_methods coro) {Pop} k m))"
proof -
  let ?c = "mo_state m"
  note run = bounded_mon.run_new[OF bounded_new(1) assms(1)]
  have h: "run_ops bounded_op (called (mo_history m)) (CoroBoundedChannel_new capacity) =
      Inr (answered (mo_history m), ?c)"
    using run(3) by (simp add: run_ops_cong[of "atomic (bounded_methods coro)" bounded_op, OF atomic_bounded])
  have c: "bounded_inv ?c" "bc_capacity ?c = capacity"
    using bounded.history[OF bounded_new(1) h] by (simp_all add: bounded_new)
  have size: "bc_size ?c \<le> capacity" using c by (simp add: bounded_inv_def)
  have each: "at_rest callers k m \<or> asleep (bounded_methods coro) UNIV k m" if "k < n" for k
    using bounded_mon.stuck[OF run(1) assms(2)] run(2) that by simp
  have why: "\<not> bc_closed ?c \<and> \<not> bc_poisened ?c \<and>
      (bc_size ?c = capacity \<and> asleep (bounded_methods coro) (range Push) k m \<or>
       bc_size ?c = 0 \<and> asleep (bounded_methods coro) {Pop} k m)"
    if sleeps: "asleep (bounded_methods coro) UNIV k m" for k
  proof -
    obtain x where x: "mo_pcs m ! k = Asleep x" "\<not> fst (bounded_methods coro x) ?c"
      using sleeps by (auto simp: asleep_def)
    show ?thesis
      using x size c(2)
      by (cases x; cases coro) (auto simp: asleep_def bounded_method_defs split: if_splits)
  qed
  show ?thesis
  proof (cases "\<forall>k < n. at_rest callers k m")
    case False
    then obtain k where "k < n" "asleep (bounded_methods coro) UNIV k m" using each by blast
    note k = why[OF this(2)]
    show ?thesis
    proof (cases "bc_size ?c = 0")
      case True
      then show ?thesis using k each why assms(3) by fastforce
    next
      case False
      then show ?thesis using k each why by fastforce
    qed
  qed simp
qed

text \<open>A caller that pushes two values into a channel of capacity one that nobody reads.\<close>

definition lone_producer :: "(nat chan_op, nat chan_out) callers" where
  "lone_producer k rs = (if k = 0 \<and> length rs < 2 then Some (Push (length rs)) else None)"

lemma lone_producer_run:
  "\<exists>m. mon_run (bounded_methods True) lone_producer (replicate 5 (Step 0)) (monitor_new 2 (CoroBoundedChannel_new 1)) = Inr m \<and>
     mo_pcs m = [Asleep (Push 1), Outside] \<and> mo_history m = [(0, Push 0, Pushed True)] \<and> bc_size (mo_state m) = 1"
  by (simp add: numeral_eq_Suc monitor_new_def lone_producer_def results_of_def enter_def inside_def
      bounded_methods_def Coro_Push_def perform_write_def CoroBoundedChannel_new_def)

theorem bounded_channel_wakes_witness:
  "\<exists>m. mon_run (bounded_methods True) lone_producer (replicate 5 (Step 0)) (monitor_new 2 (CoroBoundedChannel_new 1)) = Inr m \<and>
     bc_size (mo_state m) = 1 \<and> asleep (bounded_methods True) (range Push) 0 m \<and> at_rest lone_producer 1 m"
proof -
  obtain m where m: "mon_run (bounded_methods True) lone_producer (replicate 5 (Step 0))
        (monitor_new 2 (CoroBoundedChannel_new 1)) = Inr m"
      "mo_pcs m = [Asleep (Push 1), Outside]" "mo_history m = [(0, Push 0, Pushed True)]" "bc_size (mo_state m) = 1"
    using lone_producer_run by blast
  have "mon_step (bounded_methods True) lone_producer (Step k) m \<noteq> Inr m'" for k m'
    by (cases k rule: nat.exhaust[case_names zero succ]) (auto simp: m lone_producer_def nth_Cons')
  then have "(\<forall>k < 2. at_rest lone_producer k m) \<or>
      (\<forall>k < 2. at_rest lone_producer k m \<or> asleep (bounded_methods True) (range Push) k m)"
    using bounded_channel_wakes[OF m(1)] m(4) by auto
  moreover have "\<not> at_rest lone_producer 0 m" "at_rest lone_producer 1 m"
    using m by (simp_all add: at_rest_def lone_producer_def)
  moreover have "0 < (2 :: nat)" by simp
  ultimately have "asleep (bounded_methods True) (range Push) 0 m" by blast
  then show ?thesis using m(1,4) \<open>at_rest lone_producer 1 m\<close> by blast
qed

text \<open>
  C39. The unbounded channel is linearizable and loses no wake-up, in both classes: however the
  steps of its callers interleave, the calls that have taken effect are a history of atomic
  calls with the results their callers got, and the channel holds, in order, what was accepted
  and not yet handed out; and when no caller can take a step, each has no further call to make
  or sleeps in \<open>Pop\<close> of a channel that is empty, open and not poisened. A run only ever stops
  at a step that has to wait.
\<close>

theorem unbounded_channel_monitor:
  "case mon_run (unbounded_methods coro) callers moves (monitor_new n CoroUnBoundedChannel_new) of
     Inl e \<Rightarrow> e = Blocked
   | Inr m \<Rightarrow>
       run_ops unbounded_op (called (mo_history m)) CoroUnBoundedChannel_new =
         Inr (answered (mo_history m), mo_state m) \<and>
       accepted (called (mo_history m)) (answered (mo_history m)) =
         delivered (answered (mo_history m)) @ uc_buffer (mo_state m) \<and>
       ((\<exists>k m'. mon_step (unbounded_methods coro) callers (Step k) m = Inr m') \<or>
        (\<forall>k < n. at_rest callers k m) \<or>
        uc_buffer (mo_state m) = [] \<and> \<not> uc_closed (mo_state m) \<and> \<not> uc_poisened (mo_state m) \<and>
        (\<forall>k < n. at_rest callers k m \<or> asleep (unbounded_methods coro) {Pop} k m))"
proof (cases "mon_run (unbounded_methods coro) callers moves (monitor_new n CoroUnBoundedChannel_new)")
  case (Inl e)
  then show ?thesis
    using unbounded_mon.run_blocked[OF unbounded_mon.new_ok[OF unbounded_new(1)] Inl] by simp
next
  case (Inr m)
  let ?c = "mo_state m"
  note run = unbounded_mon.run_new[OF unbounded_new(1) Inr]
  have h: "run_ops unbounded_op (called (mo_history m)) CoroUnBoundedChannel_new =
      Inr (answered (mo_history m), ?c)"
    using run(3) by (simp add: run_ops_cong[of "atomic (unbounded_methods coro)" unbounded_op, OF atomic_unbounded])
  have c: "unbounded_inv ?c"
    "accepted (called (mo_history m)) (answered (mo_history m)) = delivered (answered (mo_history m)) @ uc_buffer ?c"
    using unbounded.history[OF unbounded_new(1) h] by (simp_all add: unbounded_new)
  have why: "uc_buffer ?c = [] \<and> \<not> uc_closed ?c \<and> \<not> uc_poisened ?c \<and> asleep (unbounded_methods coro) {Pop} k m"
    if sleeps: "asleep (unbounded_methods coro) UNIV k m" for k
  proof -
    obtain x where x: "mo_pcs m ! k = Asleep x" "\<not> fst (unbounded_methods coro x) ?c"
      using sleeps by (auto simp: asleep_def)
    show ?thesis
      using x c(1)
      by (cases x; cases coro) (auto simp: asleep_def unbounded_method_defs unbounded_inv_def split: if_splits)
  qed
  have "(\<exists>k m'. mon_step (unbounded_methods coro) callers (Step k) m = Inr m') \<or>
      (\<forall>k < n. at_rest callers k m \<or> asleep (unbounded_methods coro) UNIV k m)"
    using unbounded_mon.stuck[OF run(1)] run(2) by metis
  then have "(\<exists>k m'. mon_step (unbounded_methods coro) callers (Step k) m = Inr m') \<or>
      (\<forall>k < n. at_rest callers k m) \<or>
      uc_buffer ?c = [] \<and> \<not> uc_closed ?c \<and> \<not> uc_poisened ?c \<and>
      (\<forall>k < n. at_rest callers k m \<or> asleep (unbounded_methods coro) {Pop} k m)"
    using why by blast
  then show ?thesis unfolding Inr sum.case using h c(2) by blast
qed

text \<open>A caller that pushes one value, and one that pops two, in the mutex class.\<close>

definition eager_consumer :: "(nat chan_op, nat chan_out) callers" where
  "eager_consumer k rs =
     (if k = 0 \<and> rs = [] then Some (Push 7) else if k = 1 \<and> length rs < 2 then Some Pop else None)"

abbreviation eager_moves :: "move list" where
  "eager_moves \<equiv> replicate 3 (Step 0) @ replicate 5 (Step 1)"

lemma eager_consumer_run:
  "\<exists>m. mon_run (unbounded_methods False) eager_consumer eager_moves (monitor_new 2 CoroUnBoundedChannel_new) = Inr m \<and>
     mo_pcs m = [Outside, Asleep Pop] \<and> mo_history m = [(0, Push 7, Pushed True), (1, Pop, Popped (Some 7))]"
  by (simp add: numeral_eq_Suc monitor_new_def eager_consumer_def results_of_def enter_def inside_def
      unbounded_methods_def NonCoroUnBuffered_Push_def NonCoroUnBuffered_Pop_def pop_front_def
      CoroUnBoundedChannel_new_def)

theorem unbounded_channel_monitor_witness:
  "\<exists>m. mon_run (unbounded_methods False) eager_consumer eager_moves (monitor_new 2 CoroUnBoundedChannel_new) = Inr m \<and>
     answered (mo_history m) = [Pushed True, Popped (Some 7)] \<and> uc_buffer (mo_state m) = [] \<and>
     asleep (unbounded_methods False) {Pop} 1 m \<and> at_rest eager_consumer 0 m"
proof -
  obtain m where m: "mon_run (unbounded_methods False) eager_consumer eager_moves
        (monitor_new 2 CoroUnBoundedChannel_new) = Inr m"
      "mo_pcs m = [Outside, Asleep Pop]" "mo_history m = [(0, Push 7, Pushed True), (1, Pop, Popped (Some 7))]"
    using eager_consumer_run by blast
  have stuck: "mon_step (unbounded_methods False) eager_consumer (Step k) m \<noteq> Inr m'" for k m'
    by (cases k rule: nat.exhaust[case_names zero succ]) (auto simp: m eager_consumer_def nth_Cons' results_of_def)
  have rest: "\<not> at_rest eager_consumer 1 m" "at_rest eager_consumer 0 m"
    using m by (simp_all add: at_rest_def eager_consumer_def results_of_def)
  have "uc_buffer (mo_state m) = []" and "\<forall>k < 2. at_rest eager_consumer k m \<or> asleep (unbounded_methods False) {Pop} k m"
    using unbounded_channel_monitor[where coro = False and callers = eager_consumer and moves = eager_moves and n = 2] stuck rest(1)
    unfolding m(1) sum.case by auto
  moreover have "(1 :: nat) < 2" by simp
  ultimately have "uc_buffer (mo_state m) = []" "asleep (unbounded_methods False) {Pop} 1 m"
    using rest(1) by blast+
  then show ?thesis using m(1,3) rest(2) by (simp add: answered_def)
qed

end
