(* ===== verification/TtlMap.thy ===== *)
theory TtlMap
  imports Prelude
begin

text \<open>
  \<open>LazyTtLMap\<close> of include/util/ttlMap.h, a map whose entries are meant to expire. Each method
  reads the system clock first for \<open>CollectGarbage\<close> and, some of them, once more; the readings
  are arguments. The exporter has a use of the map in comments only.
\<close>

record ('k, 'v) LazyTtLMap =
  map_storage :: "'k \<rightharpoonup> 'v"
  map_expiration_times :: "'k \<rightharpoonup> u64"
  timer_queue :: "(u64 \<times> 'k) list"

definition LazyTtLMap_new :: "('k, 'v) LazyTtLMap" where
  "LazyTtLMap_new = \<lparr>map_storage = Map.empty, map_expiration_times = Map.empty, timer_queue = []\<rparr>"

text \<open>
  \<open>kTTL_.count()\<close> is a number of seconds, the clock's count one of its ticks. The loop stops
  at an entry whose time to live is over.
\<close>

fun collect :: "u64 \<Rightarrow> u64 \<Rightarrow> (u64 \<times> 'k) list \<Rightarrow> ('k, 'v) LazyTtLMap \<Rightarrow> ('k, 'v) LazyTtLMap" where
  "collect ttl now [] m = m\<lparr>timer_queue := []\<rparr>"
| "collect ttl now (oldest # rest) m =
     (if fst oldest + ttl < now then m\<lparr>timer_queue := oldest # rest\<rparr>
      else
        let key = snd oldest in
        if (case map_expiration_times m key of Some time \<Rightarrow> time + ttl < now | None \<Rightarrow> False)
        then collect ttl now rest m
        else collect ttl now rest
               (m\<lparr>map_storage := (map_storage m)(key := None),
                  map_expiration_times := (map_expiration_times m)(key := None)\<rparr>))"

definition CollectGarbage :: "u64 \<Rightarrow> u64 \<Rightarrow> ('k, 'v) LazyTtLMap \<Rightarrow> ('k, 'v) LazyTtLMap" where
  "CollectGarbage ttl now m = collect ttl now (timer_queue m) m"

definition Insert :: "u64 \<Rightarrow> u64 \<times> u64 \<Rightarrow> 'k \<Rightarrow> 'v \<Rightarrow> ('k, 'v) LazyTtLMap \<Rightarrow> bool \<times> ('k, 'v) LazyTtLMap" where
  "Insert ttl = (\<lambda>(now, now') key v m.
     (let m1 = CollectGarbage ttl now m in
      if map_storage m1 key \<noteq> None then (False, m1)
      else (True, m1\<lparr>map_storage := (map_storage m1)(key \<mapsto> v),
                      timer_queue := timer_queue m1 @ [(now', key)]\<rparr>)))"

definition Find :: "u64 \<Rightarrow> u64 \<times> u64 \<Rightarrow> 'k \<Rightarrow> ('k, 'v) LazyTtLMap \<Rightarrow> ('v option \<times> ('k, 'v) LazyTtLMap) res" where
  "Find ttl = (\<lambda>(now, now') key m.
     (let m1 = CollectGarbage ttl now m in
      case map_storage m1 key of
        None \<Rightarrow> Inr (None, m1)
      | Some v \<Rightarrow>
          rbind (assert_that (map_expiration_times m1 key \<noteq> None) ''map_expiration_times_.contains(key)'')
            (\<lambda>_. Inr (Some v, m1\<lparr>map_expiration_times := (map_expiration_times m1)(key \<mapsto> now')\<rparr>))))"

definition Remove :: "u64 \<Rightarrow> u64 \<Rightarrow> 'k \<Rightarrow> ('k, 'v) LazyTtLMap \<Rightarrow> ('k, 'v) LazyTtLMap" where
  "Remove ttl now key m =
     (let m1 = CollectGarbage ttl now m in m1\<lparr>map_storage := (map_storage m1)(key := None)\<rparr>)"

section \<open>Its histories\<close>

datatype ('k, 'v) ttl_op = InsertOp "u64 \<times> u64" 'k 'v | FindOp "u64 \<times> u64" 'k | RemoveOp u64 'k

fun ttl_apply :: "u64 \<Rightarrow> ('k, 'v) ttl_op \<Rightarrow> ('k, 'v) LazyTtLMap \<Rightarrow> ('v option \<times> ('k, 'v) LazyTtLMap) res" where
  "ttl_apply ttl (InsertOp clock key v) m = Inr (None, snd (Insert ttl clock key v m))"
| "ttl_apply ttl (FindOp clock key) m = Find ttl clock key m"
| "ttl_apply ttl (RemoveOp now key) m = Inr (None, Remove ttl now key m)"

fun ttl_run :: "u64 \<Rightarrow> ('k, 'v) ttl_op list \<Rightarrow> ('k, 'v) LazyTtLMap \<Rightarrow> ('v option list \<times> ('k, 'v) LazyTtLMap) res" where
  "ttl_run ttl [] m = Inr ([], m)"
| "ttl_run ttl (x # xs) m =
     rbind (ttl_apply ttl x m) (\<lambda>(r, m'). rbind (ttl_run ttl xs m') (\<lambda>(rs, m''). Inr (r # rs, m'')))"

text \<open>Nothing ever enters the expiration times, and every stored entry is in the queue.\<close>

definition ttl_inv :: "('k, 'v) LazyTtLMap \<Rightarrow> bool" where
  "ttl_inv m = (map_expiration_times m = Map.empty \<and> dom (map_storage m) \<subseteq> snd ` set (timer_queue m))"

lemma collect_inv:
  assumes "map_expiration_times m = Map.empty" and "dom (map_storage m) \<subseteq> snd ` set q"
  shows "ttl_inv (collect ttl now q m)"
  using assms
proof (induction q arbitrary: m)
  case Nil
  then show ?case by (simp add: ttl_inv_def)
next
  case (Cons p q)
  let ?m = "m\<lparr>map_storage := (map_storage m)(snd p := None), map_expiration_times := Map.empty\<rparr>"
  show ?case
  proof (cases "fst p + ttl < now")
    case False
    have "ttl_inv (collect ttl now q ?m)" by (rule Cons.IH) (use Cons.prems(2) in \<open>fastforce split: if_splits\<close>)+
    then show ?thesis using False Cons.prems(1) by (simp add: Let_def)
  qed (use Cons.prems in \<open>simp add: ttl_inv_def\<close>)
qed

lemma CollectGarbage_inv: "ttl_inv m \<Longrightarrow> ttl_inv (CollectGarbage ttl now m)"
  using collect_inv[of m "timer_queue m"] by (simp add: CollectGarbage_def ttl_inv_def)

lemma ttl_apply_inv:
  assumes "ttl_inv m" and "ttl_apply ttl x m = Inr (r, m')"
  shows "r = None \<and> ttl_inv m'"
proof -
  have "ttl_inv (CollectGarbage ttl now m)" for now by (rule CollectGarbage_inv[OF assms(1)])
  then show ?thesis
    using assms(2)
    by (cases x)
       (force simp: Insert_def Find_def Remove_def Let_def ttl_inv_def rbind_eq_Inr split: if_splits option.splits)+
qed

text \<open>
  C40. The map never returns a value: after any history of calls, whatever the clock
  shows, \<open>Find\<close> either returns nothing or fails its assertion, since nothing is ever entered
  into the table of expiration times.
\<close>

theorem LazyTtLMap_never_finds:
  "case ttl_run ttl xs LazyTtLMap_new of
     Inl e \<Rightarrow> e = AssertFailed ''map_expiration_times_.contains(key)''
   | Inr (rs, m) \<Rightarrow> rs = replicate (length xs) None"
proof -
  have "case ttl_run ttl xs m of
     Inl e \<Rightarrow> e = AssertFailed ''map_expiration_times_.contains(key)''
   | Inr (rs, m') \<Rightarrow> rs = replicate (length xs) None" if "ttl_inv m" for m
    using that
  proof (induction xs arbitrary: m)
    case (Cons x xs)
    show ?case
    proof (cases "ttl_apply ttl x m")
      case (Inl e)
      then have "e = AssertFailed ''map_expiration_times_.contains(key)''"
        by (cases x) (auto simp: Find_def Let_def rbind_eq_Inl assert_that_def split: option.splits if_splits)
      then show ?thesis using Inl by simp
    next
      case (Inr p)
      obtain r m1 where p: "p = (r, m1)" by (cases p)
      have m1: "r = None" "ttl_inv m1" using ttl_apply_inv[OF Cons.prems Inr[unfolded p]] by auto
      show ?thesis
        using Cons.IH[OF m1(2)] by (cases "ttl_run ttl xs m1") (auto simp: Inr p m1(1) split: prod.splits)
    qed
  qed simp
  moreover have "ttl_inv LazyTtLMap_new" by (simp add: ttl_inv_def LazyTtLMap_new_def)
  ultimately show ?thesis by blast
qed

text \<open>
  Its entries expire backwards: an entry is removed by the first call that is made while
  its time to live lasts, and one that has outlived it stays, and makes \<open>Find\<close> fail.
\<close>

theorem LazyTtLMap_backwards:
  assumes "snd (Insert ttl (t0, t) key v LazyTtLMap_new) = m"
  shows "Find ttl (now, now') key m =
    (if t + ttl < now then Inl (AssertFailed ''map_expiration_times_.contains(key)'')
     else Inr (None, LazyTtLMap_new))"
  using assms
  by (auto simp: Insert_def Find_def CollectGarbage_def LazyTtLMap_new_def Let_def)

end
