(* ===== verification/Timers.thy ===== *)
theory Timers
  imports Monitor
begin

text \<open>
  The two timers of include/analytics/timer.h, which no part of the program creates: they
  are to let several tasks advance together through virtual time. Each method is a sequence
  of critical sections of one lock; \<open>MoveForward\<close> is two of them, and the answer of the first
  tells whether it goes on to the second.
\<close>

section \<open>Timer\<close>

text \<open>The priority queue with the smallest timestamp on top is a sorted list.\<close>

record Timer =
  ti_amount_waiters :: u64
  ti_cur_maximum :: u64
  ti_waiters_that_reached_maximum :: u64
  ti_waiters :: "u64 list"

definition Timer_new :: "u64 \<Rightarrow> Timer" where
  "Timer_new amount_waiters =
     \<lparr>ti_amount_waiters = amount_waiters, ti_cur_maximum = 0, ti_waiters_that_reached_maximum = 0, ti_waiters = []\<rparr>"

definition Timer_Done :: "(Timer, bool) critical" where
  "Timer_Done = (\<lambda>s. True, \<lambda>s. Inr (False, True, s\<lparr>ti_amount_waiters := ti_amount_waiters s - 1\<rparr>))"

definition Timer_MoveForward_enter :: "u64 \<Rightarrow> (Timer, bool) critical" where
  "Timer_MoveForward_enter timestamp =
     (\<lambda>s. True,
      \<lambda>s. if timestamp \<le> ti_cur_maximum s then Inr (False, False, s)
          else Inr (True, True,
                    s\<lparr>ti_waiters_that_reached_maximum := ti_waiters_that_reached_maximum s + 1,
                      ti_waiters := insort timestamp (ti_waiters s)\<rparr>))"

text \<open>\<open>top()\<close> is asked only by callers whose own timestamp is in the queue.\<close>

definition Timer_MoveForward_await :: "u64 \<Rightarrow> (Timer, bool) critical" where
  "Timer_MoveForward_await timestamp =
     (\<lambda>s. ti_waiters_that_reached_maximum s \<ge> ti_amount_waiters s \<and>
            ti_waiters s \<noteq> [] \<and> hd (ti_waiters s) = timestamp \<or>
          ti_cur_maximum s \<ge> timestamp,
      \<lambda>s. rbind (or_undefined (case ti_waiters s of [] \<Rightarrow> None | _ # rest \<Rightarrow> Some rest) ''waiters_.pop()'')
            (\<lambda>rest. Inr (False, True,
               s\<lparr>ti_cur_maximum := (if timestamp > ti_cur_maximum s then timestamp else ti_cur_maximum s),
                 ti_waiters_that_reached_maximum := ti_waiters_that_reached_maximum s - 1,
                 ti_waiters := rest\<rparr>)))"

datatype timer_call = TimerDone | TimerEnter u64 | TimerAwait u64

fun Timer_method :: "timer_call \<Rightarrow> (Timer, bool) critical" where
  "Timer_method TimerDone = Timer_Done"
| "Timer_method (TimerEnter timestamp) = Timer_MoveForward_enter timestamp"
| "Timer_method (TimerAwait timestamp) = Timer_MoveForward_await timestamp"

lemmas Timer_defs = Timer_Done_def Timer_MoveForward_enter_def Timer_MoveForward_await_def

section \<open>WeakTimer\<close>

record WeakTimer =
  wt_amount_waiters :: nat
  wt_next_key :: nat
  wt_waiters :: "u64 list"
  wt_cur_minimum :: u64
  wt_registered :: nat
  wt_waiters_that_reached_min :: nat
  wt_still_needed_waiters :: u64
  wt_active_waiters :: "nat list"

definition ComputeMin :: "WeakTimer \<Rightarrow> WeakTimer" where
  "ComputeMin s =
     s\<lparr>wt_cur_minimum :=
         foldl (\<lambda>cur waiter. if waiter < cur then waiter else cur) u64_max
           (take (wt_amount_waiters s) (wt_waiters s))\<rparr>"

definition WeakTimer_new :: "nat \<Rightarrow> WeakTimer res" where
  "WeakTimer_new amount_waiters =
     rbind (throw_on (amount_waiters < 2) ''must use more than one waiter'') (\<lambda>_.
       Inr \<lparr>wt_amount_waiters = amount_waiters, wt_next_key = 0,
            wt_waiters = replicate amount_waiters 0, wt_cur_minimum = u64_max, wt_registered = 0,
            wt_waiters_that_reached_min = 0, wt_still_needed_waiters = of_nat amount_waiters,
            wt_active_waiters = []\<rparr>)"

datatype weak_answer = Key nat | Returned | GoOn

definition Register :: "(WeakTimer, weak_answer) critical" where
  "Register =
     (\<lambda>s. True,
      \<lambda>s. rbind (throw_on (wt_registered s \<ge> wt_amount_waiters s) ''already AmountWaiters many waiters registered'') (\<lambda>_.
          let key = wt_next_key s in
          rbind (or_undefined (if key < length (wt_waiters s) then Some () else None) ''waiters_[key]'') (\<lambda>_.
            Inr (Key key, wt_registered s + 1 = wt_amount_waiters s,
                 s\<lparr>wt_registered := wt_registered s + 1, wt_next_key := key + 1,
                   wt_waiters := (wt_waiters s)[key := u64_max]\<rparr>))))"

definition WeakTimer_Done :: "nat \<Rightarrow> (WeakTimer, weak_answer) critical" where
  "WeakTimer_Done key =
     (\<lambda>s. True,
      \<lambda>s. rbind (or_undefined (if key < length (wt_waiters s) then Some () else None) ''waiters_[key]'') (\<lambda>_.
            Inr (Returned, True,
                 ComputeMin (s\<lparr>wt_still_needed_waiters := wt_still_needed_waiters s - 1,
                               wt_waiters := (wt_waiters s)[key := u64_max]\<rparr>))))"

definition WeakTimer_MoveForward_enter :: "nat \<Rightarrow> u64 \<Rightarrow> (WeakTimer, weak_answer) critical" where
  "WeakTimer_MoveForward_enter key timestamp =
     (\<lambda>s. True,
      \<lambda>s. rbind (throw_on (key \<ge> wt_amount_waiters s) ''try moving forward with illegal key'') (\<lambda>_.
          rbind (or_undefined (if key < length (wt_waiters s) then Some () else None) ''waiters_[key]'') (\<lambda>_.
          let s1 = s\<lparr>wt_active_waiters := List.insert key (wt_active_waiters s),
                     wt_waiters := (wt_waiters s)[key := timestamp]\<rparr> in
          if timestamp < wt_cur_minimum s1 then Inr (Returned, True, s1)
          else Inr (GoOn, True,
                    ComputeMin (s1\<lparr>wt_waiters_that_reached_min := wt_waiters_that_reached_min s1 + 1\<rparr>)))))"

definition WeakTimer_MoveForward_await :: "u64 \<Rightarrow> (WeakTimer, weak_answer) critical" where
  "WeakTimer_MoveForward_await timestamp =
     (\<lambda>s. wt_cur_minimum s \<ge> timestamp \<and> wt_waiters_that_reached_min s = length (wt_active_waiters s),
      \<lambda>s. Inr (Returned, True, s\<lparr>wt_waiters_that_reached_min := wt_waiters_that_reached_min s - 1\<rparr>))"

datatype weak_call = WeakRegister | WeakDone nat | WeakEnter nat u64 | WeakAwait u64

fun WeakTimer_method :: "weak_call \<Rightarrow> (WeakTimer, weak_answer) critical" where
  "WeakTimer_method WeakRegister = Register"
| "WeakTimer_method (WeakDone key) = WeakTimer_Done key"
| "WeakTimer_method (WeakEnter key timestamp) = WeakTimer_MoveForward_enter key timestamp"
| "WeakTimer_method (WeakAwait timestamp) = WeakTimer_MoveForward_await timestamp"

lemmas WeakTimer_defs = Register_def WeakTimer_Done_def WeakTimer_MoveForward_enter_def
  WeakTimer_MoveForward_await_def

section \<open>What they do\<close>

text \<open>
  The queue of \<open>Timer\<close> holds one entry for each \<open>MoveForward\<close> that is under way, so a caller
  in its second section never finds it empty; the maximum is that of the timestamps reached.
\<close>

definition entered :: "timer_call list \<Rightarrow> bool list \<Rightarrow> nat" where
  "entered ops rs = length (filter (\<lambda>(op, r). r) (zip ops rs))"

definition awaited :: "timer_call list \<Rightarrow> u64 list" where
  "awaited ops = concat (map (\<lambda>op. case op of TimerAwait t \<Rightarrow> [t] | _ \<Rightarrow> []) ops)"

theorem Timer_counts:
  assumes "run_ops (atomic Timer_method) ops (Timer_new n) = Inr (rs, s)"
  shows "length (ti_waiters s) + length (awaited ops) = entered ops rs \<and>
    ti_cur_maximum s = foldl max 0 (awaited ops) \<and> (\<forall>t \<in> set (awaited ops). t \<le> ti_cur_maximum s)"
proof -
  have fold: "foldl max b ts \<ge> b \<and> (\<forall>t \<in> set ts. t \<le> foldl max b ts)" for b :: u64 and ts
  proof (induction ts arbitrary: b)
    case (Cons t ts)
    from Cons.IH[of "max b t"] show ?case by simp
  qed simp
  have "length (ti_waiters s) + length (awaited ops) = length (ti_waiters s0) + entered ops rs \<and>
      ti_cur_maximum s = foldl max (ti_cur_maximum s0) (awaited ops)"
    if "run_ops (atomic Timer_method) ops s0 = Inr (rs, s)" for s0
    using that
  proof (induction ops arbitrary: s0 rs)
    case (Cons op ops)
    obtain r s1 rs1 where st: "atomic Timer_method op s0 = Inr (r, s1)"
        "run_ops (atomic Timer_method) ops s1 = Inr (rs1, s)" "rs = r # rs1"
      using Cons.prems by (auto simp: rbind_eq_Inr)
    show ?case
      using st(1) Cons.IH[OF st(2)]
      by (cases op)
         (auto simp: st(3) atomic_def Timer_defs awaited_def entered_def rbind_eq_Inr max_def
            split: if_splits list.splits)
  qed (simp add: awaited_def entered_def)
  from this[OF assms] show ?thesis using fold[of 0 "awaited ops"] by (simp add: Timer_new_def)
qed

text \<open>
  \<open>WeakTimer\<close> does not keep its callers together: until somebody is done or moves to the
  largest timestamp, the minimum is the initial \<open>UINT64_MAX\<close>, which only \<open>ComputeMin\<close>
  changes, so every \<open>MoveForward\<close> returns at once, whatever the other callers' timestamps.
\<close>

theorem WeakTimer_never_waits:
  assumes "WeakTimer_new n = Inr s0" and "run_ops (atomic WeakTimer_method) ops s0 = Inr (rs, s)"
    and "\<forall>op \<in> set ops. case op of WeakRegister \<Rightarrow> True | WeakEnter key t \<Rightarrow> t < u64_max | _ \<Rightarrow> False"
  shows "GoOn \<notin> set rs \<and> wt_cur_minimum s = u64_max"
proof -
  have "wt_cur_minimum s0 = u64_max" using assms(1) by (auto simp: WeakTimer_new_def rbind_eq_Inr)
  then show ?thesis
    using assms(2,3)
  proof (induction ops arbitrary: s0 rs)
    case (Cons op ops)
    obtain r s1 rs1 where st: "atomic WeakTimer_method op s0 = Inr (r, s1)"
        "run_ops (atomic WeakTimer_method) ops s1 = Inr (rs1, s)" "rs = r # rs1"
      using Cons.prems(2) by (auto simp: rbind_eq_Inr)
    have "r \<noteq> GoOn \<and> wt_cur_minimum s1 = u64_max"
      using st(1) Cons.prems(1,3)
      by (cases op) (auto simp: atomic_def WeakTimer_defs rbind_eq_Inr Let_def split: if_splits)
    then show ?case using Cons.IH[OF _ st(2)] Cons.prems(3) st(3) by auto
  qed simp
qed

end
