(* ===== verification/Spec2Isabelle.thy ===== *)
theory Spec2Isabelle
  imports TracerProps NetRoundtrip Gem5 StreamParser ChannelProps PipelineProps ColumboProps TraceMain BlockingChannel
    TtlMap Timers
begin

text \<open>
  A model of Columbo, the tracing tool of SimBricks: it reads the logs that the simulators of
  one run write, turns the lines into events, groups the events into spans, links spans of
  different simulators into traces and exports the traces to OpenTelemetry. The sources are
  C++ under src/ (include/, source/).

  \<^bold>\<open>From bytes to events.\<close> \<open>ReaderBuffer\<close> (include/reader/cReader.h) cuts a file into lines
  and hands each to a \<open>LineHandler\<close>, a cursor over a byte buffer; the parsers
  (source/parser/) consume the line through it and make events (include/events/,
  source/events/). Events can be printed and read back by the event stream parser, some
  members in another base than they were printed in. The symbol tables (include/env/symtable.h), which the gem5 parser asks, use the same reader.

  \<^bold>\<open>Tasks.\<close> Reading and parsing a log, filtering its events and consuming them are coroutines
  that run concurrently and are connected by channels (include/sync/): a pipeline.

  \<^bold>\<open>From events to traces.\<close> The span classes (include/analytics/span.h,
  source/analytics/span.cpp) decide which events belong together. Five spanners
  (include/analytics/spanner.h, source/analytics/), one for each simulated host, one for each
  NIC and one for the network, consume the events of their simulator, keep the spans that
  are still open, and tell each other by contexts in unbounded channels which span caused
  which. The tracer (include/analytics/tracer.h) owns traces and contexts, and exports a
  finished span once its parent is exported; the exporters (include/exporter/exporter.h) talk
  to OpenTelemetry.

  \<^bold>\<open>The program.\<close> The main function (trace.cc) reads a configuration (include/config/config.h)
  into the trace environment (source/env/traceEnvironment.cc), wires the spanners, and runs
  five pipelines, each from one log or event stream through filters to one spanner.

  \<^bold>\<open>Theories.\<close>
  \<^item> \<open>Prelude\<close>: machine words, failures, the result type and its sequencing.
  \<^item> \<open>Events\<close>, \<open>EventOps\<close>, \<open>EventEqual\<close>: type tags, the class hierarchy as one datatype,
    getters and casts, and the virtual \<open>Equal\<close>, which decides equality on all classes but
    one.
  \<^item> \<open>TraceEnv\<close>: string internalizer, id counters, indicator predicates. \<open>Config\<close>, \<open>EnvSetup\<close>: the
    configuration read from YAML, the constructor of the trace environment, and that the
    environment's sets of pointers and its symbol lookup implement the configuration.
  \<^item> \<open>Span\<close>, \<open>SpanProtocol\<close>: the span classes with \<open>AddToSpan\<close>, and the refinement of each
    class's protocol through the locale \<open>span_protocol\<close>, interpreted for every class.
  \<^item> \<open>Tracer\<close>, \<open>TracerSafety\<close>, \<open>TracerSteps\<close>, \<open>Exporter\<close>, \<open>TracerProps\<close>: contexts, traces and
    the tracer's operations on a heap of shared spans and contexts; the locale
    \<open>span_exporter\<close>, what the tracer needs from an exporter; the step relation of the
    tracer's clients and its invariant; the exporters, which interpret the locale; and
    the export discipline at the OTLP exporter.
  \<^item> \<open>Spanner\<close>, \<open>SpannerHost\<close>, \<open>SpannerNic\<close>, \<open>SpannerNet\<close>: the base class, with the contexts sent
    through channels, and every handler of the three kinds of spanners.
  \<^item> \<open>SpannerClient\<close>, \<open>HostClient\<close>, \<open>NicNetClient\<close>, \<open>HostCalls\<close>: each handler as a sequence of steps
    of the tracer's clients, with the spans it holds on to; the call spans of a host.
  \<^item> \<open>Columbo\<close>: the wiring of the five spanners in trace.cc, the locale \<open>tracer_clients\<close> of what
    several clients of one tracer keep, and the runs of the whole system.
  \<^item> \<open>Links\<close>, \<open>LinkHandlers\<close>, \<open>AccessLinks\<close>, \<open>ColumboProps\<close>: what contexts, parents and held pointers
    refer to in every run, and that every span of a run is one that \<open>AddToSpan\<close> accepts; the
    accesses of a host, their answers, and the accesses of its NIC, linked in any order of
    arrival; and the properties of the runs.
  \<^item> \<open>Text\<close>, \<open>LineHandler\<close>, \<open>LineSpec\<close>, \<open>LineProps\<close>: character classes, number printing and
    \<open>strtoul\<close>; the cursor's methods over the raw buffer; each as a function of the text
    left in the line.
  \<^item> \<open>Reader\<close>, \<open>LineLoop\<close>: the block buffer over \<open>read\<close>, which returns arbitrary chunks, and
    the loop over the lines of a file.
  \<^item> \<open>EventText\<close>, \<open>LineParsers\<close>, \<open>EventStream\<close>, \<open>StreamRoundtrip\<close>, \<open>NetRoundtrip\<close>: printing, the
    shared parsers, the event stream parser, and what it makes of a printed event: \<open>read_back\<close>
    says for every class which members change, because they are printed in one base
    and read in another, and when the event comes back as it was. (The base of the output stream is
    sticky; the round trip is for a stream on which no base was set.)
  \<^item> \<open>ParserSafety\<close>, \<open>LogParser\<close>: a calculus for parsing functions that depend only on the text
    of their line, and the locales \<open>log_parser\<close> and \<open>identified_parser\<close>, what the rest of the
    program relies on when it calls \<open>ParseEvent\<close>.
  \<^item> \<open>LogParsers\<close>, \<open>Gem5\<close>, \<open>StreamParser\<close>, \<open>Symtable\<close>: the NicBM, NS3 and gem5 parsers and the
    interpretations of the locales for all four parsers; the symbol tables. \<open>SymtableSpec\<close>:
    loading a dump builds the map, restricted to the wanted names, of the symbols that a
    reader finds in the text of its lines. \<open>StringUtil\<close>: functions on strings.
  \<^item> \<open>Channel\<close>, \<open>ChannelSpec\<close>, \<open>ChannelProps\<close>: the ring buffer and list channels, the abstract
    channel with the locale \<open>fifo_channel\<close>, interpreted for both, and histories of calls.
  \<^item> \<open>Monitor\<close>, \<open>BlockingChannel\<close>: critical sections under a lock with a condition variable and
    the steps of their callers, with the locale \<open>monitor_object\<close>, interpreted for the bounded and
    the unbounded channel, each in its class under coroutine locks and its class under a mutex,
    which are translated separately: linearizability, and no lost wake-up. This is what lets the other theories take each method as one operation.
  \<^item> \<open>Pipeline\<close>, \<open>PipelineSpec\<close>, \<open>Provider\<close>, \<open>EventFilter\<close>, \<open>PipelineProps\<close>: the tasks of a pipeline
    as step functions over the channels, the locale \<open>event_source\<close> for its producer, the
    invariant and the work left; the provider that reads a log in the background, which
    gives an \<open>event_source\<close> for every \<open>log_parser\<close>; the handlers; and what a pipeline delivers
    under every schedule.
  \<^item> \<open>Program\<close>, \<open>TraceMain\<close>: several pipelines that share spanners and tracer, interleaved by an
    arbitrary schedule; the main function in its two modes, from the parsed command line to
    the pipelines; and that the program refines a run of the five spanners.
  \<^item> \<open>Timers\<close>, \<open>TtlMap\<close>: the timers and the expiring map, which the program does not use.

  \<^bold>\<open>Conventions.\<close> \<open>std::terminate\<close> through \<open>throw_on\<close> and its relatives, a false \<open>assert\<close>, and
  undefined behaviour are failures of the result type. A method that waits is \<open>Blocked\<close> in the
  states in which its condition is false. A method under a lock is one operation, and so is
  a handler of a spanner: it is taken when the contexts it pops are there, so handlers of
  different spanners do not interleave with each other inside. A null pointer is \<open>None\<close>;
  spans and contexts, which are shared and updated in place, live in a heap. \<open>uint64_t\<close> is a
  64-bit word. Files are given by the chunks that \<open>read\<close> returns for a path. Logging is left
  out.

  \<^bold>\<open>Fuel.\<close> The recursion through the waiting list is bounded by one more than the number of
  waiting spans, which suffices in every reachable state; the loops over a file by one more
  than its number of bytes; the loop of a host that copies contexts to its new span by one
  more than the number of contexts in the channel, each round of which takes one.

  \<^bold>\<open>Not modelled.\<close> OpenTelemetry, YAML, the option parser (include/util/cxxopts.hpp), logging
  (include/util/log.h, spdlog) and the thread pools are third-party code: the SDK is a
  parameter of the exporter, the YAML library of the configuration, the parsed options of
  the main function; the executors are the arbitrary schedule. The wrappers around
  \<open>make_shared\<close> (include/util/factory.h) only allocate. The templates of include/sync/corobelt.h
  are the generic form of the functions of include/sync/specializations.h, which the program
  runs and \<open>Pipeline\<close> models. Of include/util/string_util.h, \<open>trim_till_consume\<close>, which nothing
  calls, compares iterators in an order that the standard does not fix.
\<close>

end
